(* ===== verification/Prelude.thy ===== *)
theory Prelude
  imports Main "HOL-Library.Monad_Syntax"
begin

text \<open>
  Shared vocabulary of the development.

  Go strings and byte slices are both lists of 8-bit characters (\<open>bytes\<close>): Go's \<open>len\<close>, indexing
  and slicing count bytes, as HOL's \<open>char\<close> does.  A Go computation that can hit a runtime panic
  (index or slice out of range, write to a nil map, integer division by zero) has type
  \<open>'a go\<close>: \<open>None\<close> is the panic, \<open>Some x\<close> a normal return.  An error value that the code returns is an
  ordinary value of a sum type and never \<open>None\<close>.
  The generic lemmas on lists, options and finite maps that several components share live here.
\<close>

type_synonym bytes = "char list"

text \<open>The result of Go code that may panic: \<open>None\<close> is the panic.\<close>

type_synonym 'a go = "'a option"

text \<open>
  How a call ends that can do more than return or panic: it may end the process (\<open>glog.Fatalf\<close>) or wait.
\<close>

datatype 'a outcome = Returns 'a | Panics | Exits | Waits

text \<open>Equations that describe the library operations in the shape the proofs want.\<close>

named_theorems go_simps

text \<open>Facts about positions inside a buffer.\<close>

named_theorems scan_bounds

subsection \<open>Characters that have no readable literal\<close>

abbreviation (input) backslash :: char where "backslash \<equiv> CHR 0x5C"
abbreviation (input) dquote :: char where "dquote \<equiv> CHR 0x22"
abbreviation (input) newline :: char where "newline \<equiv> CHR 0x0A"
abbreviation (input) tabchar :: char where "tabchar \<equiv> CHR 0x09"
abbreviation (input) nulchar :: char where "nulchar \<equiv> CHR 0x00"

subsection \<open>Reads that panic out of range\<close>

definition byte_at :: "'a list \<Rightarrow> nat \<Rightarrow> 'a go" where
  "byte_at xs i = (if i < length xs then Some (xs ! i) else None)"

definition bslice :: "'a list \<Rightarrow> nat \<Rightarrow> nat \<Rightarrow> 'a list go" where
  "bslice xs i j = (if i \<le> j \<and> j \<le> length xs then Some (take (j - i) (drop i xs)) else None)"

lemma byte_at_Some [simp]: "i < length xs \<Longrightarrow> byte_at xs i = Some (xs ! i)"
  by (simp add: byte_at_def)

lemma byte_at_None [simp]: "length xs \<le> i \<Longrightarrow> byte_at xs i = None"
  by (simp add: byte_at_def)

lemma bslice_Some [simp]:
  "i \<le> j \<Longrightarrow> j \<le> length xs \<Longrightarrow> bslice xs i j = Some (take (j - i) (drop i xs))"
  by (simp add: bslice_def)

lemma bslice_eq_Some:
  "bslice xs i j = Some ys \<longleftrightarrow> i \<le> j \<and> j \<le> length xs \<and> ys = take (j - i) (drop i xs)"
  by (auto simp: bslice_def)

subsection \<open>Lists\<close>

lemma take_drop_split:
  "i \<le> j \<Longrightarrow> take i xs @ take (j - i) (drop i xs) = take j xs"
  by (metis add_diff_inverse_nat not_less take_add)

lemma dropWhile_neq_hd: "dropWhile P xs = y # ys \<Longrightarrow> \<not> P y"
  by (induction xs) (auto split: if_splits)

lemma takeWhile_all: "\<forall>x \<in> set xs. P x \<Longrightarrow> takeWhile P xs = xs"
  by simp

lemma sum_list_perm:
  fixes f :: "'a \<Rightarrow> 'b :: comm_monoid_add"
  assumes "distinct xs"
  shows "sum_list (map f xs) = sum f (set xs)"
  using assms by (rule sum_list_distinct_conv_sum_set)

subsection \<open>Options\<close>

lemma option_eq_not_None: "x \<noteq> None \<longleftrightarrow> (\<exists>y. x = Some y)"
  by auto

lemma bind_not_None:
  "x \<noteq> None \<Longrightarrow> (\<And>y. x = Some y \<Longrightarrow> f y \<noteq> None) \<Longrightarrow> Option.bind x f \<noteq> None"
  by (cases x) auto

text \<open>
  The value of a Go map read at a key that may be missing: \<open>m[k]\<close> is the zero value of the
  element type then.
\<close>

definition map_get :: "'v \<Rightarrow> ('k \<rightharpoonup> 'v) \<Rightarrow> 'k \<Rightarrow> 'v" where
  "map_get z m k = (case m k of None \<Rightarrow> z | Some v \<Rightarrow> v)"

lemma map_get_upd [simp]: "map_get z (m(k \<mapsto> v)) k' = (if k' = k then v else map_get z m k')"
  by (simp add: map_get_def)

lemma map_get_del [simp]: "map_get z (m(k := None)) k' = (if k' = k then z else map_get z m k')"
  by (simp add: map_get_def)

lemma map_get_empty [simp]: "map_get z Map.empty k = z"
  by (simp add: map_get_def)

text \<open>
  Go iterates over a map in an unspecified order.  A loop over a map is modelled by a recursion over
  a list of its keys, and \<open>map_order m ks\<close> says that \<open>ks\<close> is one of the possible orders.
\<close>

definition map_order :: "('k \<rightharpoonup> 'v) \<Rightarrow> 'k list \<Rightarrow> bool" where
  "map_order m ks \<longleftrightarrow> distinct ks \<and> set ks = dom m"

lemma map_orderD: "map_order m ks \<Longrightarrow> distinct ks" "map_order m ks \<Longrightarrow> set ks = dom m"
  by (auto simp: map_order_def)

lemma map_order_empty [simp]: "map_order Map.empty ks \<longleftrightarrow> ks = []"
  by (auto simp: map_order_def)

lemma map_order_finite: "map_order m ks \<Longrightarrow> finite (dom m)"
  by (metis List.finite_set map_order_def)

end
