(* ===== verification/GoLib.thy ===== *)
theory GoLib
  imports Prelude
begin

text \<open>
  The parts of Go's standard library the program uses, on byte lists: \<open>strings\<close> and \<open>bytes\<close>
  (Index, Split, Join, Trim, HasPrefix, Contains), \<open>strings.NewReplacer\<close>, \<open>strconv\<close>
  (FormatInt, ParseInt, the error of ParseFloat), \<open>path.Clean\<close> and \<open>path.Join\<close>, and the wrap-around of
  64-bit integers.
\<close>

subsection \<open>Package strings: searching\<close>

fun index_byte :: "bytes \<Rightarrow> char \<Rightarrow> nat option" where
  "index_byte [] c = None"
| "index_byte (x # xs) c = (if x = c then Some 0 else map_option Suc (index_byte xs c))"

definition has_prefix :: "bytes \<Rightarrow> bytes \<Rightarrow> bool" where
  "has_prefix s p \<longleftrightarrow> take (length p) s = p"

definition has_suffix :: "bytes \<Rightarrow> bytes \<Rightarrow> bool" where
  "has_suffix s p \<longleftrightarrow> length p \<le> length s \<and> drop (length s - length p) s = p"

definition trim_prefix :: "bytes \<Rightarrow> bytes \<Rightarrow> bytes" where
  "trim_prefix s p = (if has_prefix s p then drop (length p) s else s)"

definition trim_suffix :: "bytes \<Rightarrow> bytes \<Rightarrow> bytes" where
  "trim_suffix s p = (if has_suffix s p then take (length s - length p) s else s)"

fun index_sub :: "bytes \<Rightarrow> bytes \<Rightarrow> nat option" where
  "index_sub [] p = (if p = [] then Some 0 else None)"
| "index_sub (x # xs) p =
     (if has_prefix (x # xs) p then Some 0 else map_option Suc (index_sub xs p))"

definition contains_sub :: "bytes \<Rightarrow> bytes \<Rightarrow> bool" where
  "contains_sub s p \<longleftrightarrow> index_sub s p \<noteq> None"

fun last_index :: "bytes \<Rightarrow> char \<Rightarrow> nat option" where
  "last_index [] c = None"
| "last_index (x # xs) c =
     (case last_index xs c of Some i \<Rightarrow> Some (Suc i) | None \<Rightarrow> if x = c then Some 0 else None)"

definition trim_left :: "bytes \<Rightarrow> bytes \<Rightarrow> bytes" where
  "trim_left s cutset = dropWhile (\<lambda>c. c \<in> set cutset) s"

definition trim_right :: "bytes \<Rightarrow> bytes \<Rightarrow> bytes" where
  "trim_right s cutset = rev (dropWhile (\<lambda>c. c \<in> set cutset) (rev s))"

definition trim :: "bytes \<Rightarrow> bytes \<Rightarrow> bytes" where
  "trim s cutset = trim_right (trim_left s cutset) cutset"

lemma index_byte_None: "index_byte s c = None \<longleftrightarrow> c \<notin> set s"
  by (induction s) auto

lemma index_byte_absent [simp]: "c \<notin> set s \<Longrightarrow> index_byte s c = None"
  by (simp add: index_byte_None)

lemma index_byte_Some:
  "index_byte s c = Some i \<longleftrightarrow> i < length s \<and> s ! i = c \<and> c \<notin> set (take i s)"
proof (induction s arbitrary: i)
  case Nil
  then show ?case by simp
next
  case (Cons x s)
  then show ?case by (cases i) auto
qed

lemma index_byte_append_hit [simp]: "c \<notin> set p \<Longrightarrow> index_byte (p @ c # s) c = Some (length p)"
  by (induction p) auto

lemma last_index_None [simp]: "last_index s c = None \<longleftrightarrow> c \<notin> set s"
  by (induction s) (auto split: option.splits)

lemma last_index_append_hit [simp]: "c \<notin> set s \<Longrightarrow> last_index (p @ c # s) c = Some (length p)"
  by (induction p) (auto split: option.splits)

lemma last_index_Some:
  "last_index s c = Some i \<Longrightarrow> i < length s \<and> s ! i = c \<and> c \<notin> set (drop (Suc i) s)"
  by (induction s arbitrary: i) (auto split: option.splits if_splits)

lemma has_prefix_append [simp]: "has_prefix (p @ s) p"
  by (simp add: has_prefix_def)

lemma has_prefix_iff: "has_prefix s p \<longleftrightarrow> (\<exists>t. s = p @ t)"
  by (metis append_eq_conv_conj append_take_drop_id has_prefix_def)

lemma has_prefix_Nil [simp]: "has_prefix s []"
  by (simp add: has_prefix_def)

lemma has_prefix_Cons [simp]:
  "has_prefix (x # s) (y # p) \<longleftrightarrow> x = y \<and> has_prefix s p" "\<not> has_prefix [] (y # p)"
  by (auto simp: has_prefix_def)

lemma has_suffix_append [simp]: "has_suffix (s @ p) p"
  by (simp add: has_suffix_def)

lemma has_suffix_iff: "has_suffix s p \<longleftrightarrow> (\<exists>t. s = t @ p)"
  by (metis append_take_drop_id has_suffix_append has_suffix_def)

lemma trim_prefix_append [simp]: "trim_prefix (p @ s) p = s"
  by (simp add: trim_prefix_def)

lemma trim_suffix_append [simp]: "trim_suffix (s @ p) p = s"
  by (simp add: trim_suffix_def)

subsection \<open>Package strings: Split and Join\<close>

text \<open>\<open>strings.Split(s, sep)\<close> for a separator of one byte, the only kind the program uses.\<close>

fun split_byte :: "char \<Rightarrow> bytes \<Rightarrow> bytes list" where
  "split_byte c [] = [[]]"
| "split_byte c (x # xs) =
     (if x = c then [] # split_byte c xs
      else (case split_byte c xs of [] \<Rightarrow> [[x]] | p # ps \<Rightarrow> (x # p) # ps))"

text \<open>\<open>strings.SplitN(s, sep, 2)\<close>.\<close>

definition split2 :: "char \<Rightarrow> bytes \<Rightarrow> bytes list" where
  "split2 c s = (case index_byte s c of None \<Rightarrow> [s] | Some i \<Rightarrow> [take i s, drop (Suc i) s])"

fun join :: "bytes \<Rightarrow> bytes list \<Rightarrow> bytes" where
  "join sep [] = []"
| "join sep [p] = p"
| "join sep (p # q # ps) = p @ sep @ join sep (q # ps)"

lemma split_byte_not_Nil [simp]: "split_byte c s \<noteq> []"
  by (induction s) (auto split: list.splits)

lemma split_byte_no_sep: "p \<in> set (split_byte c s) \<Longrightarrow> c \<notin> set p"
  by (induction s arbitrary: p) (auto split: list.splits if_splits)

lemma split_byte_length: "length (split_byte c s) = Suc (count_list s c)"
  by (induction s) (auto split: list.splits)

lemma join_Cons: "ps \<noteq> [] \<Longrightarrow> join sep (p # ps) = p @ sep @ join sep ps"
  by (cases ps) auto

lemma join_split [simp]: "join [c] (split_byte c s) = s"
proof (induction s)
  case Nil
  then show ?case by simp
next
  case (Cons x s)
  then show ?case
  proof (cases "x = c")
    case True
    with Cons show ?thesis by (simp add: join_Cons)
  next
    case False
    obtain p ps where ps: "split_byte c s = p # ps"
      by (cases "split_byte c s") auto
    with Cons False show ?thesis by (cases ps) auto
  qed
qed

lemma split_byte_id [simp]: "c \<notin> set s \<Longrightarrow> split_byte c s = [s]"
  by (induction s) auto

lemma split_byte_append [simp]:
  "c \<notin> set p \<Longrightarrow> split_byte c (p @ c # s) = p # split_byte c s"
  by (induction p) auto

lemma split_join:
  "ps \<noteq> [] \<Longrightarrow> \<forall>p \<in> set ps. c \<notin> set p \<Longrightarrow> split_byte c (join [c] ps) = ps"
  by (induction ps rule: induct_list012) auto

lemma join_subset: "p \<in> set ps \<Longrightarrow> set p \<subseteq> set (join sep ps)"
  by (induction ps rule: induct_list012) auto

lemma split_byte_subset: "p \<in> set (split_byte c s) \<Longrightarrow> set p \<subseteq> set s"
  using join_subset [of p "split_byte c s" "[c]"] by simp

lemma join_append:
  "ps \<noteq> [] \<Longrightarrow> qs \<noteq> [] \<Longrightarrow> join sep (ps @ qs) = join sep ps @ sep @ join sep qs"
  by (induction ps rule: induct_list012) (auto simp: join_Cons)

lemma split2_hit [simp]: "c \<notin> set p \<Longrightarrow> split2 c (p @ c # s) = [p, s]"
  by (simp add: split2_def)

lemma split2_length: "length (split2 c s) = (if c \<in> set s then 2 else 1)"
  by (cases "index_byte s c") (auto simp: split2_def index_byte_None [symmetric])

subsection \<open>strings.NewReplacer\<close>

text \<open>
  A replacer walks the string from the left; at each position the first pair whose old string is a
  prefix of the rest is applied, and the walk goes on after it.  (All old strings the program uses
  are non-empty.)
\<close>

fun first_match :: "(bytes \<times> bytes) list \<Rightarrow> bytes \<Rightarrow> (bytes \<times> bytes) option" where
  "first_match [] s = None"
| "first_match ((old, new) # ps) s =
     (if old \<noteq> [] \<and> has_prefix s old then Some (old, new) else first_match ps s)"

lemma first_match_old_ne: "first_match ps s = Some (old, new) \<Longrightarrow> old \<noteq> []"
  by (induction ps s rule: first_match.induct) (auto split: if_splits)

function replace_all :: "(bytes \<times> bytes) list \<Rightarrow> bytes \<Rightarrow> bytes" where
  "replace_all ps [] = []"
| "replace_all ps (x # xs) =
     (case first_match ps (x # xs) of
        None \<Rightarrow> x # replace_all ps xs
      | Some (old, new) \<Rightarrow> new @ replace_all ps (drop (length old) (x # xs)))"
  by pat_completeness auto
termination
  by (relation "measure (\<lambda>(ps, s). length s)") (auto dest!: first_match_old_ne simp: Suc_le_eq)

subsection \<open>Package strconv and integer formatting\<close>

fun digit_char :: "nat \<Rightarrow> char" where
  "digit_char d = char_of (48 + d)"

function nat_str :: "nat \<Rightarrow> bytes" where
  "nat_str n = (if n < 10 then [digit_char n] else nat_str (n div 10) @ [digit_char (n mod 10)])"
  by pat_completeness auto
termination by (relation "measure id") auto

declare nat_str.simps [simp del]

definition int_str :: "int \<Rightarrow> bytes" where
  "int_str i = (if i < 0 then CHR ''-'' # nat_str (nat (- i)) else nat_str (nat i))"

definition is_digit :: "char \<Rightarrow> bool" where
  "is_digit c \<longleftrightarrow> 48 \<le> (of_char c :: nat) \<and> (of_char c :: nat) \<le> 57"

definition digit_val :: "char \<Rightarrow> nat" where
  "digit_val c = of_char c - 48"

definition digits_val :: "bytes \<Rightarrow> nat" where
  "digits_val ds = foldl (\<lambda>a c. 10 * a + digit_val c) 0 ds"

lemma of_char_digit_char [simp]: "d < 10 \<Longrightarrow> (of_char (digit_char d) :: nat) = 48 + d"
  by (simp add: of_char_of)

lemma is_digit_digit_char [simp]: "d < 10 \<Longrightarrow> is_digit (digit_char d)"
  by (simp add: is_digit_def del: digit_char.simps)

lemma digit_val_digit_char [simp]: "d < 10 \<Longrightarrow> digit_val (digit_char d) = d"
  by (simp add: digit_val_def del: digit_char.simps)

declare digit_char.simps [simp del]

lemma nat_str_digits: "c \<in> set (nat_str n) \<Longrightarrow> is_digit c"
  by (induction n rule: nat_str.induct) (subst (asm) (2) nat_str.simps, auto split: if_splits)

lemma nat_str_not_Nil [simp]: "nat_str n \<noteq> []"
  by (subst nat_str.simps) simp

lemma digits_val_append:
  "digits_val (xs @ [c]) = 10 * digits_val xs + digit_val c"
  by (simp add: digits_val_def)

lemma digits_val_nat_str [simp]: "digits_val (nat_str n) = n"
proof (induction n rule: nat_str.induct)
  case (1 n)
  show ?case
  proof (cases "n < 10")
    case True
    then show ?thesis by (subst nat_str.simps) (simp add: digits_val_def)
  next
    case False
    with 1 have "digits_val (nat_str (n div 10)) = n div 10" by simp
    with False show ?thesis by (subst nat_str.simps) (simp add: digits_val_append)
  qed
qed

text \<open>Two's complement wrap-around of a 64-bit signed result.\<close>

definition wrap64 :: "int \<Rightarrow> int" where
  "wrap64 x = (x + 2 ^ 63) mod 2 ^ 64 - 2 ^ 63"

lemma wrap64_id: "- (2 ^ 63) \<le> x \<Longrightarrow> x < 2 ^ 63 \<Longrightarrow> wrap64 x = x"
  by (simp add: wrap64_def)

lemma wrap64_range: "- (2 ^ 63) \<le> wrap64 x \<and> wrap64 x < 2 ^ 63"
proof -
  have "0 \<le> (x + 2 ^ 63) mod 2 ^ 64" and "(x + 2 ^ 63) mod 2 ^ 64 < 2 ^ 64" by simp_all
  then show ?thesis unfolding wrap64_def by simp
qed

text \<open>
  \<open>strconv.ParseInt(s, 10, 64)\<close>: the value it returns and its error.  On a range error the value is
  the nearest bound, on a syntax error it is 0, as the package documents.  The scan stops at the first
  character that is no digit or at the first overflow of 64 bits, whichever comes first.
\<close>

datatype num_error = ErrSyntax | ErrRange

fun parse_uint_loop :: "nat \<Rightarrow> bytes \<Rightarrow> nat \<times> num_error option" where
  "parse_uint_loop n [] = (n, None)"
| "parse_uint_loop n (c # cs) =
     (if \<not> is_digit c then (0, Some ErrSyntax)
      else let n' = 10 * n + digit_val c
           in if n' \<ge> 2 ^ 64 then (2 ^ 64 - 1, Some ErrRange) else parse_uint_loop n' cs)"

definition parse_uint64 :: "bytes \<Rightarrow> nat \<times> num_error option" where
  "parse_uint64 s = (if s = [] then (0, Some ErrSyntax) else parse_uint_loop 0 s)"

definition parse_int64 :: "bytes \<Rightarrow> int \<times> num_error option" where
  "parse_int64 s =
     (case s of
        [] \<Rightarrow> (0, Some ErrSyntax)
      | c # cs \<Rightarrow>
          (let neg = (c = CHR ''-''); body = (if c = CHR ''-'' \<or> c = CHR ''+'' then cs else s)
           in case parse_uint64 body of
                (_, Some ErrSyntax) \<Rightarrow> (0, Some ErrSyntax)
              | (un, e) \<Rightarrow>
                  if \<not> neg \<and> 2 ^ 63 \<le> un then (2 ^ 63 - 1, Some ErrRange)
                  else if neg \<and> 2 ^ 63 < un then (- (2 ^ 63), Some ErrRange)
                  else (if neg then - int un else int un, None)))"

lemma parse_uint_loop_ok:
  assumes "\<forall>c \<in> set s. is_digit c" and "foldl (\<lambda>a c. 10 * a + digit_val c) n s < 2 ^ 64"
  shows "parse_uint_loop n s = (foldl (\<lambda>a c. 10 * a + digit_val c) n s, None)"
  using assms
proof (induction s arbitrary: n)
  case Nil
  then show ?case by simp
next
  case (Cons c s)
  have mono: "m \<le> foldl (\<lambda>a c. 10 * a + digit_val c) m s" for m
  proof (induction s arbitrary: m)
    case (Cons c s)
    have "m \<le> 10 * m + digit_val c" by simp
    also have "\<dots> \<le> foldl (\<lambda>a c. 10 * a + digit_val c) (10 * m + digit_val c) s"
      by (rule Cons.IH)
    finally show ?case by simp
  qed simp
  from Cons.prems mono [of "10 * n + digit_val c"] have "10 * n + digit_val c < 2 ^ 64" by simp
  with Cons show ?case by (simp add: Let_def)
qed

lemma parse_uint64_nat_str: "n < 2 ^ 64 \<Longrightarrow> parse_uint64 (nat_str n) = (n, None)"
  using parse_uint_loop_ok [of "nat_str n" 0] nat_str_digits digits_val_nat_str
  by (simp add: parse_uint64_def digits_val_def)

lemma digit_not_sign: "is_digit c \<Longrightarrow> c \<noteq> CHR ''-'' \<and> c \<noteq> CHR ''+''"
  by (auto simp: is_digit_def)

lemma parse_int64_int_str:
  assumes "- (2 ^ 63) \<le> i" and "i < 2 ^ 63"
  shows "parse_int64 (int_str i) = (i, None)"
proof (cases "i < 0")
  case True
  then have "parse_uint64 (nat_str (nat (- i))) = (nat (- i), None)"
    using assms by (intro parse_uint64_nat_str) (simp add: nat_less_iff)
  with True assms show ?thesis
    by (simp add: parse_int64_def int_str_def Let_def nat_less_iff)
next
  case False
  obtain c cs where cs: "nat_str (nat i) = c # cs" by (cases "nat_str (nat i)") auto
  then have "is_digit c" using nat_str_digits [of c "nat i"] by simp
  moreover have "parse_uint64 (nat_str (nat i)) = (nat i, None)"
    using assms False by (intro parse_uint64_nat_str) (simp add: nat_less_iff)
  ultimately show ?thesis
    using False assms cs
    by (simp add: parse_int64_def int_str_def Let_def digit_not_sign)
qed

text \<open>
  The error of \<open>strconv.ParseFloat\<close> for 64 bits on a decimal number: an optional sign, digits with at most
  one point and at least one digit, an optional exponent with at least one digit.  The exponent stops growing
  at five digits, as the package does.  The only range error is overflow: a number rounds to infinity when
  it is at least half a unit above the largest finite value, \<open>2 ^ 1024 - 2 ^ 970\<close>.
\<close>

fun mantissa :: "bool \<Rightarrow> bool \<Rightarrow> nat \<Rightarrow> nat \<Rightarrow> bytes \<Rightarrow> bool \<times> nat \<times> nat \<times> bytes" where
  "mantissa dot saw m frac [] = (saw, m, frac, [])"
| "mantissa dot saw m frac (c # cs) =
     (if is_digit c
      then mantissa dot True (10 * m + digit_val c) (if dot then Suc frac else frac) cs
      else if c = CHR ''.'' \<and> \<not> dot then mantissa True saw m frac cs
      else (saw, m, frac, c # cs))"

fun exponent_digits :: "nat \<Rightarrow> bytes \<Rightarrow> nat \<times> bytes" where
  "exponent_digits e [] = (e, [])"
| "exponent_digits e (c # cs) =
     (if is_digit c then exponent_digits (if e < 10000 then 10 * e + digit_val c else e) cs
      else (e, c # cs))"

definition exponent_part :: "bytes \<Rightarrow> (int \<times> bytes) option" where
  "exponent_part s =
     (case s of
        [] \<Rightarrow> Some (0, [])
      | c # cs \<Rightarrow>
          if c = CHR ''e'' \<or> c = CHR ''E'' then
            (let neg = (cs \<noteq> [] \<and> hd cs = CHR ''-'');
                 ds = (if cs \<noteq> [] \<and> (hd cs = CHR ''-'' \<or> hd cs = CHR ''+'') then tl cs else cs)
             in if ds = [] \<or> \<not> is_digit (hd ds) then None
                else (let (e, r) = exponent_digits 0 ds in Some (if neg then - int e else int e, r)))
          else Some (0, s))"

definition float_overflow :: "nat \<Rightarrow> int \<Rightarrow> bool" where
  "float_overflow m x \<longleftrightarrow>
     m \<noteq> 0 \<and> (if 0 \<le> x then 2 ^ 1024 - 2 ^ 970 \<le> m * 10 ^ nat x
              else (2 ^ 1024 - 2 ^ 970) * 10 ^ nat (- x) \<le> m)"

definition parse_float_err :: "bytes \<Rightarrow> num_error option" where
  "parse_float_err s =
     (let body = (if s \<noteq> [] \<and> (hd s = CHR ''-'' \<or> hd s = CHR ''+'') then tl s else s);
          (saw, m, frac, r) = mantissa False False 0 0 body
      in if \<not> saw then Some ErrSyntax
         else (case exponent_part r of
                 None \<Rightarrow> Some ErrSyntax
               | Some (e, r') \<Rightarrow>
                   if r' \<noteq> [] then Some ErrSyntax
                   else if float_overflow m (e - int frac) then Some ErrRange else None))"

subsection \<open>Package path: Clean, Join and Base\<close>

text \<open>
  \<open>path.Clean\<close> drops empty and \<open>.\<close> elements and resolves \<open>..\<close> against the element before it; a rooted
  path drops a leading \<open>..\<close>, a relative one keeps it.  The stack holds the elements kept so far, the
  last one first.
\<close>

definition clean_step :: "bool \<Rightarrow> bytes list \<Rightarrow> bytes \<Rightarrow> bytes list" where
  "clean_step rooted st c =
     (if c = [] \<or> c = ''.'' then st
      else if c = ''..'' then
        (case st of [] \<Rightarrow> if rooted then [] else [''..'']
                  | x # xs \<Rightarrow> if x = ''..'' then ''..'' # st else xs)
      else c # st)"

definition path_clean :: "bytes \<Rightarrow> bytes" where
  "path_clean p =
     (let rooted = has_prefix p ''/'';
          body = join ''/'' (rev (foldl (clean_step rooted) [] (split_byte CHR ''/'' p)))
      in if rooted then CHR ''/'' # body else if body = [] then ''.'' else body)"

definition path_join :: "bytes list \<Rightarrow> bytes" where
  "path_join es =
     (case dropWhile (\<lambda>e. e = []) es of [] \<Rightarrow> [] | e # r \<Rightarrow> path_clean (join ''/'' (e # r)))"

definition path_base :: "bytes \<Rightarrow> bytes" where
  "path_base p =
     (if p = [] then ''.''
      else let q = trim_right p ''/'' in
        if q = [] then ''/''
        else (case last_index q CHR ''/'' of None \<Rightarrow> q | Some i \<Rightarrow> drop (Suc i) q))"

text \<open>An element that \<open>Clean\<close> keeps as it is.\<close>

definition plain_elem :: "bytes \<Rightarrow> bool" where
  "plain_elem c \<longleftrightarrow> c \<noteq> [] \<and> c \<noteq> ''.'' \<and> c \<noteq> ''..'' \<and> CHR ''/'' \<notin> set c"

lemma plain_elemD:
  "plain_elem c \<Longrightarrow> c \<noteq> []" "plain_elem c \<Longrightarrow> CHR ''/'' \<notin> set c"
  by (auto simp: plain_elem_def)

lemma clean_step_plain [simp]: "plain_elem c \<Longrightarrow> clean_step r st c = c # st"
  by (simp add: clean_step_def plain_elem_def)

lemma clean_step_Nil [simp]: "clean_step r st [] = st"
  by (simp add: clean_step_def)

lemma foldl_clean_plain:
  "\<forall>c \<in> set cs. plain_elem c \<Longrightarrow> foldl (clean_step r) st cs = rev cs @ st"
  by (induction cs arbitrary: st) auto

lemma split_join_plain:
  "cs \<noteq> [] \<Longrightarrow> \<forall>c \<in> set cs. plain_elem c \<Longrightarrow> split_byte CHR ''/'' (join ''/'' cs) = cs"
  by (rule split_join) (auto dest: plain_elemD)

lemma join_plain_hd:
  "plain_elem c \<Longrightarrow> \<not> has_prefix (join ''/'' (c # cs)) ''/''"
  by (cases c; cases cs) (auto simp: plain_elem_def)

text \<open>A path made of plain elements is clean, rooted or not.\<close>

lemma path_clean_rooted:
  "cs \<noteq> [] \<Longrightarrow> \<forall>c \<in> set cs. plain_elem c \<Longrightarrow>
   path_clean (CHR ''/'' # join ''/'' cs) = CHR ''/'' # join ''/'' cs"
  by (simp add: path_clean_def Let_def split_join_plain foldl_clean_plain)

lemma path_clean_rel:
  assumes "cs \<noteq> []" and "\<forall>c \<in> set cs. plain_elem c"
  shows "path_clean (join ''/'' cs) = join ''/'' cs"
proof -
  obtain c r where "cs = c # r" using assms(1) by (cases cs) auto
  with assms have "\<not> has_prefix (join ''/'' cs) ''/''" "join ''/'' cs \<noteq> []"
    using join_plain_hd [of c r] by (cases r; auto dest: plain_elemD)+
  with assms show ?thesis
    by (simp add: path_clean_def Let_def split_join_plain foldl_clean_plain)
qed

end
