(* ===== verification/Types.thy ===== *)
theory Types
  imports GoLib "HOL-Library.Finite_Map" "HOL-Library.Word"
begin

text \<open>
  The data types of deployments (\<open>types/namespace.go\<close>, \<open>project.go\<close>, \<open>deploy.go\<close>, \<open>instance.go\<close>) and their
  operations: stages and their names, deploy keys, deploy configurations and update options.

  A Go map is an \<open>fmap\<close>, \<open>None\<close> where it may be nil: reading a nil map gives zero values, writing it
  panics.  A loop over a map is given the order in which it visits the keys.
\<close>

subsection \<open>Go maps\<close>

type_synonym ('k, 'v) gmap = "('k, 'v) fmap option"

text \<open>\<open>m[k]\<close> and \<open>_, ok := m[k]\<close> for a map that may be nil.\<close>

definition gm_look :: "('k, 'v) gmap \<Rightarrow> 'k \<Rightarrow> 'v option" where
  "gm_look m k = (case m of None \<Rightarrow> None | Some f \<Rightarrow> fmlookup f k)"

definition gm_get :: "'v \<Rightarrow> ('k, 'v) gmap \<Rightarrow> 'k \<Rightarrow> 'v" where
  "gm_get z m k = (case gm_look m k of None \<Rightarrow> z | Some v \<Rightarrow> v)"

text \<open>\<open>m[k] = v\<close> panics on a nil map; \<open>delete(m, k)\<close> does nothing on one.\<close>

definition gm_set :: "'k \<Rightarrow> 'v \<Rightarrow> ('k, 'v) gmap \<Rightarrow> ('k, 'v) gmap go" where
  "gm_set k v m = (case m of None \<Rightarrow> None | Some f \<Rightarrow> Some (Some (fmupd k v f)))"

definition gm_del :: "'k \<Rightarrow> ('k, 'v) gmap \<Rightarrow> ('k, 'v) gmap" where
  "gm_del k m = map_option (fmdrop k) m"

definition gm_empty :: "('k, 'v) gmap \<Rightarrow> bool" where
  "gm_empty m = (case m of None \<Rightarrow> True | Some f \<Rightarrow> fmdom f = {||})"

definition gm_len :: "('k, 'v) gmap \<Rightarrow> nat" where
  "gm_len m = (case m of None \<Rightarrow> 0 | Some f \<Rightarrow> fcard (fmdom f))"

text \<open>An order in which a loop may visit the keys of a map.\<close>

definition fm_order :: "('k, 'v) fmap \<Rightarrow> 'k list \<Rightarrow> bool" where
  "fm_order f ks \<longleftrightarrow> distinct ks \<and> fset_of_list ks = fmdom f"

definition gm_order :: "('k, 'v) gmap \<Rightarrow> 'k list \<Rightarrow> bool" where
  "gm_order m ks \<longleftrightarrow> (case m of None \<Rightarrow> ks = [] | Some f \<Rightarrow> fm_order f ks)"

lemma gm_look_simps [simp]:
  "gm_look None k = None" "gm_look (Some f) k = fmlookup f k"
  by (simp_all add: gm_look_def)

lemma gm_set_simps [simp]:
  "gm_set k v None = None" "gm_set k v (Some f) = Some (Some (fmupd k v f))"
  by (simp_all add: gm_set_def)

lemma gm_del_simps [simp]:
  "gm_del k None = None" "gm_del k (Some f) = Some (fmdrop k f)"
  by (simp_all add: gm_del_def)

lemma fmdom_empty_iff [simp]: "fmdom f = {||} \<longleftrightarrow> f = fmempty"
  by (metis fmdom_empty fmrestrict_fset_dom fmrestrict_fset_null)

lemma gm_empty_simps [simp]:
  "gm_empty None" "gm_empty (Some f) \<longleftrightarrow> f = fmempty"
  by (auto simp: gm_empty_def)

lemma gm_len_0 [simp]: "gm_len m = 0 \<longleftrightarrow> gm_empty m"
  by (cases m) (auto simp: gm_len_def)

lemma fm_order_set: "fm_order f ks \<Longrightarrow> set ks = fset (fmdom f)"
  by (simp add: fm_order_def) (metis fset_of_list.rep_eq)

lemma gm_order_mem: "gm_order m ks \<Longrightarrow> k \<in> set ks \<longleftrightarrow> gm_look m k \<noteq> None"
  by (auto simp: gm_order_def fm_order_set fmdom'_notI fmlookup_dom_iff split: option.splits)

lemma gm_order_distinct: "gm_order m ks \<Longrightarrow> distinct ks"
  by (auto simp: gm_order_def fm_order_def split: option.splits)

lemma gm_len_order: "gm_order m ks \<Longrightarrow> gm_len m = length ks"
proof (cases m)
  case (Some f)
  assume "gm_order m ks"
  with Some have "distinct ks" "fset_of_list ks = fmdom f" by (auto simp: gm_order_def fm_order_def)
  then show ?thesis using Some
    by (metis distinct_card fcard.rep_eq fset_of_list.rep_eq gm_len_def option.simps(5))
qed (auto simp: gm_order_def gm_len_def)

text \<open>The sum of the values of a map.\<close>

definition fm_sum :: "('v \<Rightarrow> int) \<Rightarrow> ('k, 'v) fmap \<Rightarrow> int" where
  "fm_sum g f = (\<Sum>k \<in> fset (fmdom f). g (the (fmlookup f k)))"

lemma fm_sum_order: "fm_order f ks \<Longrightarrow> fm_sum g f = sum_list (map (\<lambda>k. g (the (fmlookup f k))) ks)"
  using sum_list_perm [of ks "\<lambda>k. g (the (fmlookup f k))"]
  by (simp add: fm_sum_def fm_order_set [symmetric] fm_order_def)

lemma fm_sum_empty [simp]: "fm_sum g fmempty = 0"
  by (simp add: fm_sum_def)

lemma fm_sum_upd:
  "fm_sum g (fmupd k v f) = fm_sum g f - (case fmlookup f k of None \<Rightarrow> 0 | Some w \<Rightarrow> g w) + g v"
proof -
  let ?D = "fset (fmdom f)"
  have "fm_sum g (fmupd k v f) = g v + (\<Sum>x \<in> ?D - {k}. g (the (fmlookup f x)))"
  proof -
    have d: "fset (fmdom (fmupd k v f)) = insert k (?D - {k})" by auto
    have "(\<Sum>x \<in> insert k (?D - {k}). g (the (fmlookup (fmupd k v f) x))) =
        g v + (\<Sum>x \<in> ?D - {k}. g (the (fmlookup (fmupd k v f) x)))"
      by (subst sum.insert) auto
    also have "(\<Sum>x \<in> ?D - {k}. g (the (fmlookup (fmupd k v f) x))) =
        (\<Sum>x \<in> ?D - {k}. g (the (fmlookup f x)))"
      by (rule sum.cong) auto
    finally show ?thesis by (simp only: fm_sum_def d)
  qed
  moreover have "(\<Sum>x \<in> ?D - {k}. g (the (fmlookup f x))) =
      fm_sum g f - (case fmlookup f k of None \<Rightarrow> 0 | Some w \<Rightarrow> g w)"
  proof (cases "fmlookup f k")
    case None
    then have "k \<notin> ?D" by (simp add: fmlookup_dom_iff)
    with None show ?thesis by (simp add: fm_sum_def)
  next
    case (Some w)
    then have "k \<in> ?D" by (auto simp: fmlookup_dom_iff)
    with Some show ?thesis by (simp add: fm_sum_def sum_diff1)
  qed
  ultimately show ?thesis by simp
qed

lemma fm_sum_drop:
  "fm_sum g (fmdrop k f) = fm_sum g f - (case fmlookup f k of None \<Rightarrow> 0 | Some w \<Rightarrow> g w)"
proof -
  let ?D = "fset (fmdom f)"
  have "fm_sum g (fmdrop k f) = (\<Sum>x \<in> ?D - {k}. g (the (fmlookup f x)))"
    unfolding fm_sum_def by (rule sum.cong) auto
  also have "\<dots> = fm_sum g f - (case fmlookup f k of None \<Rightarrow> 0 | Some w \<Rightarrow> g w)"
  proof (cases "fmlookup f k")
    case None
    then have "k \<notin> ?D" by (simp add: fmlookup_dom_iff)
    with None show ?thesis by (simp add: fm_sum_def)
  next
    case (Some w)
    then have "k \<in> ?D" by (auto simp: fmlookup_dom_iff)
    with Some show ?thesis by (simp add: fm_sum_def sum_diff1)
  qed
  finally show ?thesis .
qed

subsection \<open>Stages\<close>

text \<open>\<open>Stage\<close> is an \<open>int32\<close> with named values.\<close>

type_synonym stage = int

definition UnknownStage :: stage where "UnknownStage = 0"
definition Dev :: stage where "Dev = 1"
definition Test :: stage where "Test = 2"
definition Intergration :: stage where "Intergration = 3"
definition QA :: stage where "QA = 4"
definition UAT :: stage where "UAT = 5"
definition Production :: stage where "Production = 6"

lemmas stage_defs = UnknownStage_def Dev_def Test_def Intergration_def QA_def UAT_def Production_def

definition stages :: "(stage \<times> string) list" where
  "stages = [(Dev, ''dev''), (Test, ''test''), (QA, ''qa''), (Intergration, ''int''), (UAT, ''uat''),
     (Production, ''prd''), (UnknownStage, ''unknown'')]"

definition stage_string :: "stage \<Rightarrow> string" where
  "stage_string s = (case map_of stages s of Some st \<Rightarrow> st | None \<Rightarrow> the (map_of stages UnknownStage))"

text \<open>\<open>ParseStage\<close> walks over the map in the order \<open>ord\<close>; the second component says that it failed.\<close>

fun parse_stage_loop :: "(stage \<times> string) list \<Rightarrow> string \<Rightarrow> stage option" where
  "parse_stage_loop [] st = None"
| "parse_stage_loop ((k, v) # kvs) st = (if v = st then Some k else parse_stage_loop kvs st)"

definition parse_stage :: "(stage \<times> string) list \<Rightarrow> string \<Rightarrow> stage \<times> bool" where
  "parse_stage ord st = (case parse_stage_loop ord st of Some k \<Rightarrow> (k, False) | None \<Rightarrow> (UnknownStage, True))"

lemma parse_stage_loop_iff:
  "distinct (map snd kvs) \<Longrightarrow> parse_stage_loop kvs st = Some k \<longleftrightarrow> (k, st) \<in> set kvs"
  by (induction kvs st rule: parse_stage_loop.induct) (auto simp: rev_image_eqI)

lemma parse_stage_loop_None: "parse_stage_loop kvs st = None \<longleftrightarrow> st \<notin> snd ` set kvs"
  by (induction kvs st rule: parse_stage_loop.induct) auto

lemma stages_snd_inj: "(k, v) \<in> set stages \<Longrightarrow> (k', v) \<in> set stages \<Longrightarrow> k = k'"
  by (auto simp: stages_def stage_defs)

lemma stage_string_inj:
  "s \<in> fst ` set stages \<Longrightarrow> s' \<in> fst ` set stages \<Longrightarrow> stage_string s = stage_string s' \<Longrightarrow> s = s'"
  by (auto simp: stages_def stage_string_def stage_defs)

text \<open>
  \<open>ParseStage\<close> gives the same stage in whatever order it visits the map of names, it inverts \<open>String\<close>
  on the seven named stages, and it fails exactly on the strings that are no stage name.
\<close>

theorem parse_stage_string:
  assumes "distinct ord" "set ord = set stages"
  shows "(s \<in> fst ` set stages \<longrightarrow> parse_stage ord (stage_string s) = (s, False))
     \<and> (snd (parse_stage ord st) \<longleftrightarrow> st \<notin> snd ` set stages)"
proof -
  have find: "parse_stage_loop ord v = Some k" if "(k, v) \<in> set stages" for k v
  proof -
    have "parse_stage_loop kvs v = Some k" if "(k, v) \<in> set kvs" "set kvs \<subseteq> set stages" for kvs
      using that \<open>(k, v) \<in> set stages\<close> stages_snd_inj by (induction kvs) auto
    then show ?thesis using that assms by simp
  qed
  have "(s, stage_string s) \<in> set stages" if "s \<in> fst ` set stages"
    using that by (auto simp: stages_def stage_string_def stage_defs)
  then have "s \<in> fst ` set stages \<longrightarrow> parse_stage_loop ord (stage_string s) = Some s"
    using find by blast
  then have "s \<in> fst ` set stages \<longrightarrow> parse_stage ord (stage_string s) = (s, False)"
    by (simp add: parse_stage_def)
  moreover have "snd (parse_stage ord st) \<longleftrightarrow> parse_stage_loop ord st = None"
    by (simp add: parse_stage_def split: option.split)
  ultimately show ?thesis using parse_stage_loop_None [of ord st] assms(2) by simp
qed

theorem parse_stage_string_witness:
  "parse_stage (rev stages) ''prd'' = (Production, False)"
proof -
  have "distinct (rev stages)" "Production \<in> fst ` set stages" "stage_string Production = ''prd''"
    by (simp_all add: stages_def stage_string_def stage_defs)
  then show ?thesis using parse_stage_string [of "rev stages" Production "''prd''"] by simp
qed

subsection \<open>Projects and deploy keys\<close>

definition known_project_types :: "string list" where
  "known_project_types = [''java'']"

text \<open>\<open>copy\<close> into an empty slice copies nothing: it copies as many elements as the shorter one has.\<close>

definition get_known_project_types :: "string list" where
  "get_known_project_types =
     (let ret = []; n = min (length ret) (length known_project_types)
      in take n known_project_types @ drop n ret)"

definition deploy_key :: "bytes \<Rightarrow> bytes \<Rightarrow> bytes" where
  "deploy_key ty name = ty @ ''/'' @ name"

text \<open>The type, the name and whether the key is invalid.\<close>

definition parse_deploy_key :: "bytes \<Rightarrow> bytes \<times> bytes \<times> bool" where
  "parse_deploy_key key =
     (case index_byte key CHR ''/'' of
        None \<Rightarrow> ([], [], True)
      | Some idx \<Rightarrow> if idx + 1 = length key then ([], [], True)
                    else (take idx key, drop (idx + 1) key, False))"

text \<open>
  parsing a deploy key gives back the project type and the name it was made of, when the type
  contains no slash and the name is not empty; the name may contain slashes.
\<close>

theorem parse_deploy_key_roundtrip:
  assumes "CHR ''/'' \<notin> set ty" "name \<noteq> []"
  shows "parse_deploy_key (deploy_key ty name) = (ty, name, False)"
  using assms by (simp add: parse_deploy_key_def deploy_key_def)

theorem parse_deploy_key_roundtrip_witness:
  "parse_deploy_key (deploy_key ''java'' ''crm/web'') = (''java'', ''crm/web'', False)"
  using parse_deploy_key_roundtrip [of "''java''" "''crm/web''"] by simp

lemma deploy_key_inj:
  "CHR ''/'' \<notin> set ty \<Longrightarrow> CHR ''/'' \<notin> set ty' \<Longrightarrow> deploy_key ty n = deploy_key ty' n' \<Longrightarrow> ty = ty' \<and> n = n'"
proof (induction ty arbitrary: ty')
  case Nil
  then show ?case by (cases ty') (auto simp: deploy_key_def)
next
  case (Cons c ty)
  then show ?case by (cases ty') (auto simp: deploy_key_def)
qed

subsection \<open>Deploy configurations\<close>

text \<open>
  A duration is its number of nanoseconds.  \<open>NewPercent\<close> is a \<open>float64\<close> in the code; \<open>'f\<close> is its type here.
\<close>

record 'f update_option =
  uo_policy :: string
  uo_step :: int
  uo_newPercent :: 'f
  uo_timeout :: int

definition RollingUpdate :: string where "RollingUpdate = ''rollingUpdate''"
definition NewDeploy :: string where "NewDeploy = ''deployNew''"
definition MixedUpdate :: string where "MixedUpdate = ''mixed''"

definition second :: int where "second = 1000000000"
definition minute :: int where "minute = 60 * second"

definition ServiceUnknown :: string where "ServiceUnknown = ''unknown''"
definition ServiceService :: string where "ServiceService = ''service''"
definition ServiceDaemon :: string where "ServiceDaemon = ''daemon''"
definition ServiceScript :: string where "ServiceScript = ''script''"

text \<open>\<open>zero\<close> is the floating point zero.\<close>

definition default_update_option :: "'f \<Rightarrow> string \<Rightarrow> 'f update_option option" where
  "default_update_option zero typ =
     (if typ = ServiceService
      then Some \<lparr>uo_policy = NewDeploy, uo_step = 30 * second, uo_newPercent = zero, uo_timeout = 5 * minute\<rparr>
      else if typ = ServiceDaemon \<or> typ = ServiceUnknown
      then Some \<lparr>uo_policy = RollingUpdate, uo_step = 30 * second, uo_newPercent = zero, uo_timeout = 5 * minute\<rparr>
      else if typ = ServiceScript
      then Some \<lparr>uo_policy = RollingUpdate, uo_step = 30 * second, uo_newPercent = zero, uo_timeout = 5 * minute\<rparr>
      else None)"

text \<open>\<open>above1\<close> and \<open>below0\<close> are the comparisons of a float with 1 and 0; the result says that it is valid.\<close>

definition update_option_valid ::
  "('f \<Rightarrow> bool) \<Rightarrow> ('f \<Rightarrow> bool) \<Rightarrow> 'f update_option option \<Rightarrow> bool" where
  "update_option_valid above1 below0 uo =
     (case uo of
        None \<Rightarrow> True
      | Some u \<Rightarrow>
          if uo_policy u = RollingUpdate \<or> uo_policy u = NewDeploy then \<not> uo_step u > uo_timeout u
          else if uo_policy u = MixedUpdate then \<not> (above1 (uo_newPercent u) \<or> below0 (uo_newPercent u))
          else False)"

text \<open>Resources needed by an instance: all but the last are 64-bit unsigned (\<open>types/resource.go\<close>).\<close>

record deploy_resource =
  dr_memory :: "64 word"
  dr_cpu :: "64 word"
  dr_networkIn :: "64 word"
  dr_networkOut :: "64 word"
  dr_diskSpace :: "64 word"
  dr_maxAllowedMemory :: "64 word"
  dr_maxAllowedCPU :: "64 word"
  dr_maxAllowdThreads :: int

text \<open>The instances of each version a host is to run.\<close>

record deploy_spec =
  ds_info :: "(bytes, int) gmap"

datatype restart_policy = RestartPolicy string int

text \<open>
  The configuration of a deployment.  The version of the image is \<open>None\<close> when the image or its version is nil, else its
  string; the values are given as their JSON.  \<open>'s\<close> is the type of \<open>labels.Selector\<close>.
\<close>

record ('f, 's) deploy_config =
  dc_type :: bytes
  dc_name :: bytes
  dc_numOfInstance :: int
  dc_serviceType :: string
  dc_stage :: stage
  dc_maxInstancesPerNode :: int
  dc_imageVersion :: "bytes option"
  dc_deployDir :: bytes
  dc_values :: "(bytes \<times> bytes) list"
  dc_deployPolicy :: string
  dc_labels :: "(bytes \<times> bytes) list"
  dc_Selector :: "(bytes \<times> bytes) list"
  dc_selector :: "'s option"
  dc_resourceQuota :: "bytes option"
  dc_resourceRequired :: "deploy_resource option"
  dc_restartPolicy :: "restart_policy option"
  dc_updatePolicy :: "'f update_option option"

datatype dc_error =
  ProjectTypeEmpty | DeployNameEmpty | ServiceTypeEmpty | NumOfInstanceTooSmall | UnknownEnv
| SelectorKeyEmpty | SelectorFormat | SelectorParse

text \<open>
  \<open>labelValueRegexp\<close> is \<open>^(=|!=|in |notin )?.*\<close>: its whole match is the value up to the first newline and
  its group is the operator in front, if there is one.
\<close>

definition label_match :: "bytes \<Rightarrow> bytes" where
  "label_match v = takeWhile (\<lambda>c. c \<noteq> newline) v"

definition label_operator :: "bytes \<Rightarrow> bytes" where
  "label_operator v =
     (if has_prefix v ''='' then ''=''
      else if has_prefix v ''!='' then ''!=''
      else if has_prefix v ''in '' then ''in ''
      else if has_prefix v ''notin '' then ''notin ''
      else [])"

text \<open>The loop over the selector, in the order of the list: the text it builds.\<close>

fun selector_raw :: "bytes \<Rightarrow> (bytes \<times> bytes) list \<Rightarrow> dc_error + bytes" where
  "selector_raw raw [] = Inr raw"
| "selector_raw raw ((k, v) # kvs) =
     (if k = [] then Inl SelectorKeyEmpty
      else if length (label_match v) = 0 then selector_raw (raw @ k @ '','') kvs
      else if length (label_operator v) = 0 then selector_raw (raw @ k @ ''='' @ v @ '','') kvs
      else selector_raw raw kvs)"

text \<open>\<open>parse\<close> is \<open>labels.Parse\<close>.\<close>

definition to_selector :: "(bytes \<Rightarrow> 's option) \<Rightarrow> (bytes \<times> bytes) list \<Rightarrow> dc_error + 's" where
  "to_selector parse sel =
     (case selector_raw [] sel of
        Inl e \<Rightarrow> Inl e
      | Inr raw \<Rightarrow> (case parse (trim_suffix raw '','') of None \<Rightarrow> Inl SelectorParse | Some s \<Rightarrow> Inr s))"

text \<open>\<open>Validate\<close> also fills in the parsed selector and the restart policy.\<close>

definition dc_validate ::
  "(bytes \<Rightarrow> 's option) \<Rightarrow> ('f, 's) deploy_config \<Rightarrow> dc_error + ('f, 's) deploy_config" where
  "dc_validate parse dc =
     (if dc_type dc = [] then Inl ProjectTypeEmpty
      else if dc_name dc = [] then Inl DeployNameEmpty
      else if dc_serviceType dc = [] then Inl ServiceTypeEmpty
      else if dc_numOfInstance dc \<le> 0 then Inl NumOfInstanceTooSmall
      else if dc_stage dc = UnknownStage then Inl UnknownEnv
      else
        (case (if dc_Selector dc \<noteq> [] \<and> dc_selector dc = None
               then (case to_selector parse (dc_Selector dc) of
                       Inl e \<Rightarrow> Inl e | Inr s \<Rightarrow> Inr (dc\<lparr>dc_selector := Some s\<rparr>))
               else Inr dc) of
           Inl e \<Rightarrow> Inl e
         | Inr d \<Rightarrow>
             Inr (if dc_restartPolicy d = None
                  then d\<lparr>dc_restartPolicy := Some (RestartPolicy ''always'' 0)\<rparr> else d)))"

definition dc_key :: "('f, 's) deploy_config \<Rightarrow> bytes" where
  "dc_key dc = deploy_key (dc_type dc) (dc_name dc)"

definition deploy_base_dir :: bytes where
  "deploy_base_dir = ''/data/deploy/''"

definition dc_deploy_dir :: "('f, 's) deploy_config \<Rightarrow> bytes" where
  "dc_deploy_dir dc =
     (if has_prefix (dc_deployDir dc) deploy_base_dir then dc_deployDir dc
      else path_join [deploy_base_dir, dc_deployDir dc])"

lemma dc_validate_keeps:
  "dc_validate parse dc = Inr d \<Longrightarrow>
   dc_key d = dc_key dc \<and> dc_stage d = dc_stage dc \<and> 0 < dc_numOfInstance d \<and>
   dc_numOfInstance d = dc_numOfInstance dc \<and> dc_updatePolicy d = dc_updatePolicy dc \<and> dc_restartPolicy d \<noteq> None"
  by (auto simp: dc_validate_def dc_key_def split: if_splits sum.splits)

text \<open>
  a host selector never uses an operator: a value that starts with \<open>=\<close>, \<open>!=\<close>, \<open>in\<close> or \<open>notin\<close> is
  dropped from the text that is parsed, so such a requirement is ignored and the rest is taken as if it
  was not there.
\<close>

theorem selector_operator_ignored:
  assumes "label_operator v \<noteq> []" "k \<noteq> []"
  shows "selector_raw raw (xs @ (k, v) # ys) = selector_raw raw (xs @ ys)"
proof (induction xs arbitrary: raw)
  case Nil
  have "label_match v \<noteq> []"
  proof
    assume "label_match v = []"
    then have "v = [] \<or> hd v = newline" by (cases v) (auto simp: label_match_def split: if_splits)
    then have "label_operator v = []" by (cases v) (simp_all add: label_operator_def)
    with assms(1) show False by simp
  qed
  with assms show ?case by simp
next
  case (Cons x xs)
  then show ?case by (cases x) simp
qed

theorem selector_operator_ignored_witness:
  "selector_raw [] [(''zone'', ''a''), (''disk'', ''!=ssd'')] = Inr ''zone=a,''"
  using selector_operator_ignored [of "''!=ssd''" "''disk''" "[]" "[(''zone'', ''a'')]" "[]"]
  by (simp add: label_operator_def label_match_def)

end
