(* ===== verification/Resources.thy ===== *)
theory Resources
  imports Types "HOL-Library.Char_ord" "HOL-Library.Multiset"
begin

text \<open>
  Resources of hosts and instances (\<open>types/resource.go\<close>, \<open>types/host.go\<close>): the arithmetic on
  \<open>DeployResource\<close>, whose counters are 64-bit unsigned words, and the validation of sizes and hosts.
\<close>

definition zero_resource :: deploy_resource where
  "zero_resource = \<lparr>dr_memory = 0, dr_cpu = 0, dr_networkIn = 0, dr_networkOut = 0, dr_diskSpace = 0,
     dr_maxAllowedMemory = 0, dr_maxAllowedCPU = 0, dr_maxAllowdThreads = 0\<rparr>"

definition dr_add :: "deploy_resource \<Rightarrow> deploy_resource \<Rightarrow> deploy_resource" where
  "dr_add d x = d\<lparr>dr_memory := dr_memory d + dr_memory x, dr_cpu := dr_cpu d + dr_cpu x,
     dr_networkIn := dr_networkIn d + dr_networkIn x, dr_networkOut := dr_networkOut d + dr_networkOut x,
     dr_diskSpace := dr_diskSpace d + dr_diskSpace x\<rparr>"

definition sub_or_zero :: "64 word \<Rightarrow> 64 word \<Rightarrow> 64 word" where
  "sub_or_zero a b = (if a > b then a - b else 0)"

definition dr_subtract :: "deploy_resource \<Rightarrow> deploy_resource \<Rightarrow> deploy_resource" where
  "dr_subtract d x = d\<lparr>dr_memory := sub_or_zero (dr_memory d) (dr_memory x),
     dr_cpu := sub_or_zero (dr_cpu d) (dr_cpu x),
     dr_networkIn := sub_or_zero (dr_networkIn d) (dr_networkIn x),
     dr_networkOut := sub_or_zero (dr_networkOut d) (dr_networkOut x),
     dr_diskSpace := sub_or_zero (dr_diskSpace d) (dr_diskSpace x)\<rparr>"

text \<open>One step of \<open>Devide\<close>: the smaller of the minimum so far and the quotient, if there is a demand.\<close>

definition min_quot :: "64 word \<Rightarrow> 64 word \<Rightarrow> 64 word \<Rightarrow> 64 word" where
  "min_quot a b m = (if b \<noteq> 0 then (if a div b < m then a div b else m) else m)"

definition dr_devide :: "deploy_resource \<Rightarrow> deploy_resource \<Rightarrow> int" where
  "dr_devide d x =
     (let m = dr_memory x;
          m = min_quot (dr_memory d) (dr_memory x) m;
          m = min_quot (dr_cpu d) (dr_cpu x) m;
          m = min_quot (dr_diskSpace d) (dr_diskSpace x) m;
          m = min_quot (dr_networkIn d) (dr_networkIn x) m;
          m = min_quot (dr_networkOut d) (dr_networkOut x) m
      in sint m)"

lemma unat_sub_or_zero: "unat (sub_or_zero a b) = unat a - unat b"
  by (auto simp: sub_or_zero_def word_less_nat_alt unat_sub_if')

lemma min_quot_le: "min_quot a b m \<le> m"
  by (auto simp: min_quot_def)

lemma min_quot_fits: "b \<noteq> 0 \<Longrightarrow> unat (min_quot a b m) * unat b \<le> unat a"
proof -
  assume b: "b \<noteq> 0"
  have "min_quot a b m \<le> a div b" using b by (auto simp: min_quot_def)
  then have "unat (min_quot a b m) \<le> unat a div unat b"
    by (simp add: word_le_nat_alt unat_div)
  then have "unat (min_quot a b m) * unat b \<le> unat a div unat b * unat b" by simp
  also have "\<dots> \<le> unat a" by (metis div_mult_mod_eq le_add1)
  finally show ?thesis .
qed

text \<open>The demand of \<open>n\<close> instances, as numbers without a bound, fits into what is there.\<close>

definition fits :: "deploy_resource \<Rightarrow> nat \<Rightarrow> deploy_resource \<Rightarrow> bool" where
  "fits d n x \<longleftrightarrow>
     n * unat (dr_memory x) \<le> unat (dr_memory d) \<and> n * unat (dr_cpu x) \<le> unat (dr_cpu d)
     \<and> n * unat (dr_diskSpace x) \<le> unat (dr_diskSpace d)
     \<and> n * unat (dr_networkIn x) \<le> unat (dr_networkIn d)
     \<and> n * unat (dr_networkOut x) \<le> unat (dr_networkOut d)"

lemma dr_devide_fits:
  assumes "0 \<le> dr_devide d x"
  shows "fits d (nat (dr_devide d x)) x
     \<and> unat (dr_memory (dr_subtract d x)) = unat (dr_memory d) - unat (dr_memory x)
     \<and> unat (dr_cpu (dr_subtract d x)) = unat (dr_cpu d) - unat (dr_cpu x)"
proof -
  define m1 where "m1 = min_quot (dr_memory d) (dr_memory x) (dr_memory x)"
  define m2 where "m2 = min_quot (dr_cpu d) (dr_cpu x) m1"
  define m3 where "m3 = min_quot (dr_diskSpace d) (dr_diskSpace x) m2"
  define m4 where "m4 = min_quot (dr_networkIn d) (dr_networkIn x) m3"
  define m5 where "m5 = min_quot (dr_networkOut d) (dr_networkOut x) m4"
  have s: "dr_devide d x = sint m5"
    by (simp add: dr_devide_def Let_def m1_def m2_def m3_def m4_def m5_def)
  have n: "nat (sint m5) \<le> unat m5"
  proof -
    have "take_bit (Suc 63) (uint m5) = uint m5" by (rule take_bit_int_eq_self) (use uint_lt2p [of m5] in simp_all)
    then have "sint m5 \<le> uint m5"
      by (simp add: sint_uint signed_take_bit_eq_take_bit_minus)
    then show ?thesis by (simp add: nat_le_iff)
  qed
  have le: "m5 \<le> m4" "m4 \<le> m3" "m3 \<le> m2" "m2 \<le> m1"
    by (simp_all add: m2_def m3_def m4_def m5_def min_quot_le)
  have fit: "nat (sint m5) * unat b \<le> unat a" if "m5 \<le> m" "m = min_quot a b m'" for a b m m'
  proof (cases "b = 0")
    case False
    have "nat (sint m5) \<le> unat m" using n that(1) by (simp add: word_le_nat_alt)
    then have "nat (sint m5) * unat b \<le> unat m * unat b" by simp
    also have "\<dots> \<le> unat a" using min_quot_fits [OF False] that(2) by simp
    finally show ?thesis .
  qed simp
  have "fits d (nat (dr_devide d x)) x"
    unfolding fits_def s
    using fit [OF _ m1_def] fit [OF _ m2_def] fit [OF _ m3_def] fit [OF _ m4_def] fit [OF _ m5_def] le
    by force
  then show ?thesis by (simp add: dr_subtract_def unat_sub_or_zero)
qed

text \<open>
  \<open>Subtract\<close> is truncated subtraction on every counter, and a host that \<open>Devide\<close> gives a positive
  number for has room for that many instances, in memory, processor, disk and network; nothing wraps
  around.
\<close>

theorem devide_fits:
  assumes "0 \<le> dr_devide d x"
  shows "fits d (nat (dr_devide d x)) x
     \<and> unat (dr_memory (dr_subtract d x)) = unat (dr_memory d) - unat (dr_memory x)
     \<and> unat (dr_cpu (dr_subtract d x)) = unat (dr_cpu d) - unat (dr_cpu x)"
  by (rule dr_devide_fits [OF assms])

definition sample_resource :: "64 word \<Rightarrow> 64 word \<Rightarrow> deploy_resource" where
  "sample_resource mem cpu = zero_resource\<lparr>dr_memory := mem, dr_cpu := cpu\<rparr>"

theorem devide_fits_witness:
  "fits (sample_resource 1000 40) (nat (dr_devide (sample_resource 1000 40) (sample_resource 300 9)))
     (sample_resource 300 9)"
proof -
  have "dr_devide (sample_resource 1000 40) (sample_resource 300 9) = 3" 
    by (simp add: dr_devide_def min_quot_def sample_resource_def zero_resource_def)
  then show ?thesis using devide_fits [of "sample_resource 1000 40" "sample_resource 300 9"] by simp
qed

lemma dr_devide_no_memory:
  assumes "dr_memory x = 0"
  shows "dr_devide d x = 0"
proof -
  have "min_quot a b 0 = 0" for a b using min_quot_le [of a b 0] by simp
  then show ?thesis using assms by (simp add: dr_devide_def Let_def)
qed

text \<open>
  \<open>Devide\<close> by a resource that asks for no memory is never positive, however much is free: the
  minimum starts at the memory of the operand.  The empty \<open>DeployResource{}\<close>, which the scheduler falls
  back on when a deployment names no resource, therefore fits nowhere.
\<close>

theorem devide_no_memory:
  assumes "dr_memory x = 0"
  shows "dr_devide d x = 0"
  by (rule dr_devide_no_memory [OF assms])

theorem devide_no_memory_witness:
  "dr_devide (sample_resource 1000 40) zero_resource = 0 \<and> fits (sample_resource 1000 40) 7 zero_resource"
  using devide_no_memory [of zero_resource "sample_resource 1000 40"]
  by (simp add: zero_resource_def fits_def)

subsection \<open>Hosts\<close>

definition CPUUnit :: "64 word" where "CPUUnit = 1000 * 1000 * 1000"
definition cpuResource :: "64 word" where "cpuResource = 1024 * 1024 * 1024"
definition gb :: "64 word" where "gb = 1024 * 1024 * 1024 * 8"

text \<open>\<open>HostInfo\<close>, with the fields the code reads; of a disk, the total it has, \<open>None\<close> for a nil pointer.\<close>

record host_info =
  hi_hostID :: bytes
  hi_hostName :: bytes
  hi_stage :: stage
  hi_labels :: "(bytes \<times> bytes) list"
  hi_numOfCPUs :: int
  hi_memory :: "64 word"
  hi_swapSize :: "64 word"
  hi_disk :: "(bytes \<times> 64 word option) list"
  hi_resourceReserved :: deploy_resource

fun disk_total :: "64 word \<Rightarrow> (bytes \<times> 64 word option) list \<Rightarrow> 64 word go" where
  "disk_total s [] = Some s"
| "disk_total s ((d, None) # ds) = None"
| "disk_total s ((d, Some v) # ds) = disk_total (s + v) ds"

definition get_resource :: "host_info \<Rightarrow> deploy_resource go" where
  "get_resource hi =
     map_option (\<lambda>disk. zero_resource\<lparr>dr_memory := hi_memory hi + hi_swapSize hi div 2,
         dr_cpu := word_of_int (hi_numOfCPUs hi) * cpuResource, dr_diskSpace := disk,
         dr_networkIn := gb, dr_networkOut := gb\<rparr>)
       (disk_total 0 (hi_disk hi))"

text \<open>
  The fields of \<open>HostStatus\<close> that \<open>ResourceUsed\<close> reads.  The processor use is a product of floats, converted
  to an integer: \<open>scale\<close> is that computation, and \<open>'f\<close> is the type of the usage.
\<close>

record 'f host_status =
  hs_cpuUsage :: 'f
  hs_usedMemory :: "64 word"
  hs_numofProcesses :: int

definition resource_used ::
  "('f \<Rightarrow> 64 word \<Rightarrow> 64 word) \<Rightarrow> 'f host_status option \<Rightarrow> deploy_resource option" where
  "resource_used scale hs =
     map_option (\<lambda>h. zero_resource\<lparr>dr_memory := hs_usedMemory h,
         dr_cpu := scale (hs_cpuUsage h) (word_of_int (hs_numofProcesses h) * CPUUnit)\<rparr>) hs"

text \<open>
  \<open>^[a-z0-9A-Z][-a-z0-9A-Z.]*\<close> is not anchored at the end: a name matches if its first byte does.
\<close>

definition alnum :: "char \<Rightarrow> bool" where
  "alnum c = (is_digit c \<or> (CHR ''a'' \<le> c \<and> c \<le> CHR ''z'') \<or> (CHR ''A'' \<le> c \<and> c \<le> CHR ''Z''))"

definition host_name_valid :: "bytes \<Rightarrow> bool" where
  "host_name_valid hn = (case hn of [] \<Rightarrow> False | c # _ \<Rightarrow> alnum c)"

datatype host_error = ErrInvalidHostName | UnknownHostStage stage

text \<open>
  The error list of \<open>HostInfo.Validate\<close>.  The name's error is \<open>terr\<close>, but the condition tests \<open>err\<close>, the
  list, which is still nil there.
\<close>

definition host_info_validate :: "host_info \<Rightarrow> host_error list" where
  "host_info_validate hi =
     (let err = [];
          terr = (if host_name_valid (hi_hostName hi) then None else Some ErrInvalidHostName);
          err = (if err \<noteq> [] then err @ (case terr of None \<Rightarrow> [] | Some e \<Rightarrow> [e]) else err);
          err = (if hi_stage hi > Production \<or> hi_stage hi = UnknownStage
                 then err @ [UnknownHostStage (hi_stage hi)] else err)
      in err)"

text \<open>
  the host name is never validated: a host whose name is empty or starts with any byte passes
  \<open>HostInfo.Validate\<close> as soon as its stage is a known one.
\<close>

theorem host_name_unchecked:
  "host_info_validate hi = [] \<longleftrightarrow> hi_stage hi \<le> Production \<and> hi_stage hi \<noteq> UnknownStage"
  by (auto simp: host_info_validate_def)

lemma disk_total_sum:
  "disk_total s ds = (if None \<in> snd ` set ds then None else Some (s + sum_list (map (the \<circ> snd) ds)))"
  by (induction s ds rule: disk_total.induct) (auto simp: add.assoc o_def)

text \<open>
  the capacity of a host does not depend on the order in which the map of its disks is visited, and
  \<open>GetResource\<close> panics exactly if the entry of a disk is nil.
\<close>

theorem get_resource_order:
  "(mset ds = mset (hi_disk hi) \<longrightarrow> get_resource (hi\<lparr>hi_disk := ds\<rparr>) = get_resource hi)
   \<and> (get_resource hi = None \<longleftrightarrow> None \<in> snd ` set (hi_disk hi))"
proof (intro conjI impI)
  assume a: "mset ds = mset (hi_disk hi)"
  then have "sum_list (map (the \<circ> snd) ds) = sum_list (map (the \<circ> snd) (hi_disk hi))"
    by (metis mset_map sum_mset_sum_list)
  moreover have "set ds = set (hi_disk hi)" using a by (metis set_mset_mset)
  ultimately show "get_resource (hi\<lparr>hi_disk := ds\<rparr>) = get_resource hi"
    by (simp add: get_resource_def disk_total_sum)
qed (simp add: get_resource_def disk_total_sum)

definition sample_host :: host_info where
  "sample_host = \<lparr>hi_hostID = ''h1'', hi_hostName = ''db-1'', hi_stage = Dev, hi_labels = [],
     hi_numOfCPUs = 4, hi_memory = 4096, hi_swapSize = 1024,
     hi_disk = [(''sda'', Some 100), (''sdb'', Some 50)], hi_resourceReserved = zero_resource\<rparr>"

theorem get_resource_order_witness:
  "get_resource (sample_host\<lparr>hi_disk := [(''sdb'', Some 50), (''sda'', Some 100)]\<rparr>) = get_resource sample_host
   \<and> get_resource sample_host \<noteq> None"
proof -
  have "mset [(''sdb'', Some 50), (''sda'', Some 100)] = mset (hi_disk sample_host)"
    "None \<notin> snd ` set (hi_disk sample_host)"
    by (simp_all add: sample_host_def add_mset_commute)
  then show ?thesis using get_resource_order [of _ sample_host] by blast
qed

end
