(* ===== verification/Store.thy ===== *)
theory Store
  imports Types "HOL-Library.AList"
begin

text \<open>
  The object store on top of etcd (\<open>registry/generic/store.go\<close>), the paths of the objects in it
  (\<open>registry/etcdkey\<close>) and the registries of hosts and of instances (\<open>registry/hosts\<close>,
  \<open>registry/instances/replica.go\<close>).

  The etcd client is not part of the program: it is a record of functions on a state \<open>'e\<close>, and \<open>kv_ok\<close>
  states what etcd documents of them.  The JSON encoding of a type of objects is a \<open>codec\<close>.
\<close>

subsection \<open>Paths\<close>

definition base_dir :: bytes where "base_dir = ''/dolphin/''"

definition stage_base_dir :: "stage \<Rightarrow> bytes" where
  "stage_base_dir st = base_dir @ stage_string st @ ''/''"

definition deploy_dir :: "stage \<Rightarrow> bytes" where
  "deploy_dir st = stage_base_dir st @ ''deploy/''"

definition deploy_config_dir :: "stage \<Rightarrow> bytes" where
  "deploy_config_dir st = deploy_dir st @ ''config/''"

definition deploy_host_expect_dir :: "stage \<Rightarrow> bytes" where
  "deploy_host_expect_dir st = deploy_dir st @ ''hosts/''"

definition deploy_instance_dir :: "stage \<Rightarrow> bytes" where
  "deploy_instance_dir st = deploy_dir st @ ''instances/''"

definition deploy_config_of_key :: "stage \<Rightarrow> bytes \<Rightarrow> bytes" where
  "deploy_config_of_key st key = deploy_config_dir st @ key"

definition deploy_instance_dir_of_key :: "stage \<Rightarrow> bytes \<Rightarrow> bytes" where
  "deploy_instance_dir_of_key st key = deploy_instance_dir st @ key @ ''/''"

definition deploy_host_expect_dir_of :: "stage \<Rightarrow> bytes \<Rightarrow> bytes" where
  "deploy_host_expect_dir_of st hid = deploy_host_expect_dir st @ hid @ ''/''"

definition deploy_host_expect_path_of :: "stage \<Rightarrow> bytes \<Rightarrow> bytes \<Rightarrow> bytes" where
  "deploy_host_expect_path_of st hid key = deploy_host_expect_dir_of st hid @ key"

definition host_base_dir :: "stage \<Rightarrow> bytes" where
  "host_base_dir st = stage_base_dir st @ ''hosts/''"

definition host_stat_dir :: "stage \<Rightarrow> bytes" where
  "host_stat_dir st = host_base_dir st @ ''stat/''"

definition host_stat_path :: "stage \<Rightarrow> bytes \<Rightarrow> bytes" where
  "host_stat_path st hid = host_stat_dir st @ hid"

definition host_info_dir :: "stage \<Rightarrow> bytes" where
  "host_info_dir st = host_base_dir st @ ''info/''"

definition host_info_path :: "stage \<Rightarrow> bytes \<Rightarrow> bytes" where
  "host_info_path st hid = host_info_dir st @ hid"

definition host_config_dir :: "stage \<Rightarrow> bytes" where
  "host_config_dir st = host_base_dir st @ ''config/''"

definition host_config_path :: "stage \<Rightarrow> bytes \<Rightarrow> bytes" where
  "host_config_path st name = host_config_dir st @ name"

definition java_probe_dir :: "stage \<Rightarrow> bytes" where
  "java_probe_dir st = stage_base_dir st @ ''java/probe/''"

definition java_probe_path :: "stage \<Rightarrow> bytes \<Rightarrow> bytes" where
  "java_probe_path st name = java_probe_dir st @ name"

definition java_project_dir :: bytes where
  "java_project_dir = base_dir @ ''java/project/''"

definition java_project_path :: "bytes \<Rightarrow> bytes" where
  "java_project_path name = java_project_dir @ name"

definition java_zk_dir :: "stage \<Rightarrow> bytes" where
  "java_zk_dir st = stage_base_dir st @ ''java/zk/''"

definition java_zk_route_dir :: "stage \<Rightarrow> bytes" where
  "java_zk_route_dir st = stage_base_dir st @ ''java/zk/route/''"

definition java_zk_instance_dir :: "stage \<Rightarrow> bytes" where
  "java_zk_instance_dir st = stage_base_dir st @ ''java/zk/instances/''"

definition java_zk_config_dir :: "stage \<Rightarrow> bytes" where
  "java_zk_config_dir st = stage_base_dir st @ ''java/zk/config/''"

lemmas path_defs = base_dir_def stage_base_dir_def deploy_dir_def deploy_config_dir_def
  deploy_host_expect_dir_def deploy_instance_dir_def deploy_config_of_key_def
  deploy_instance_dir_of_key_def deploy_host_expect_dir_of_def deploy_host_expect_path_of_def
  host_base_dir_def host_stat_dir_def host_stat_path_def host_info_dir_def host_info_path_def
  host_config_dir_def host_config_path_def

lemma slash_split:
  "CHR ''/'' \<notin> set a \<Longrightarrow> CHR ''/'' \<notin> set b \<Longrightarrow> a @ CHR ''/'' # x = b @ CHR ''/'' # y \<longleftrightarrow> a = b \<and> x = y"
proof (induction a arbitrary: b)
  case Nil
  then show ?case by (cases b) auto
next
  case (Cons c a)
  then show ?case by (cases b) auto
qed

lemma stage_string_no_slash [simp]: "CHR ''/'' \<notin> set (stage_string s)"
proof -
  have "stage_string s \<in> snd ` set stages"
  proof (cases "map_of stages s")
    case (Some st)
    then have "(s, st) \<in> set stages" by (rule map_of_SomeD)
    then show ?thesis using Some by (simp add: stage_string_def rev_image_eqI)
  next
    case None
    then show ?thesis by (simp add: stage_string_def stages_def stage_defs)
  qed
  then show ?thesis by (auto simp: stages_def)
qed

lemma expect_path_eqD:
  assumes "CHR ''/'' \<notin> set h" "CHR ''/'' \<notin> set h'"
    "s \<in> fst ` set stages" "s' \<in> fst ` set stages"
    "deploy_host_expect_path_of s h k = deploy_host_expect_path_of s' h' k'"
  shows "s = s' \<and> h = h' \<and> k = k'"
proof -
  have "stage_string s @ CHR ''/'' # (''deploy/hosts/'' @ h @ CHR ''/'' # k) =
      stage_string s' @ CHR ''/'' # (''deploy/hosts/'' @ h' @ CHR ''/'' # k')"
    using assms(5) by (simp add: path_defs)
  then have "stage_string s = stage_string s'" "h @ CHR ''/'' # k = h' @ CHR ''/'' # k'"
    by (simp_all add: slash_split)
  then show ?thesis using assms stage_string_inj by (simp add: slash_split)
qed

text \<open>
  the place of the specification of a deployment on a host determines the stage, the host and the
  deploy key, so two of them never share an object of the store, when host ids contain no slash.
\<close>

theorem expect_path_inj:
  assumes "CHR ''/'' \<notin> set h" "CHR ''/'' \<notin> set h'"
    "s \<in> fst ` set stages" "s' \<in> fst ` set stages"
    "deploy_host_expect_path_of s h k = deploy_host_expect_path_of s' h' k'"
  shows "s = s' \<and> h = h' \<and> k = k'"
  by (rule expect_path_eqD [OF assms])

theorem expect_path_inj_witness:
  "deploy_host_expect_path_of Dev ''h1'' ''java/crm'' \<noteq> deploy_host_expect_path_of Dev ''h1'' ''java/web''"
proof -
  have "Dev \<in> fst ` set stages" by (simp add: stages_def)
  then show ?thesis using expect_path_inj [of "''h1''" "''h1''" Dev Dev "''java/crm''" "''java/web''"] by auto
qed

subsection \<open>The store\<close>

datatype store_error = KeyNotFound bytes | KeyExists bytes | InvalidObj | EtcdError bytes

text \<open>
  The calls of the etcd client the store makes: reading one key, reading the keys with a prefix in
  the order of the keys, writing (giving the value before), granting a lease, and the two
  transactions: write unless the key exists, and read and delete.
\<close>

record 'e kv_client =
  kv_get :: "'e \<Rightarrow> bytes \<Rightarrow> bytes + bytes option"
  kv_range :: "'e \<Rightarrow> bytes \<Rightarrow> bytes + (bytes \<times> bytes) list"
  kv_put :: "'e \<Rightarrow> bytes \<Rightarrow> bytes \<Rightarrow> int option \<Rightarrow> 'e \<times> (bytes + bytes option)"
  kv_grant :: "'e \<Rightarrow> int \<Rightarrow> 'e \<times> (bytes + int)"
  kv_create :: "'e \<Rightarrow> bytes \<Rightarrow> bytes \<Rightarrow> int option \<Rightarrow> 'e \<times> (bytes + bool)"
  kv_take :: "'e \<Rightarrow> bytes \<Rightarrow> 'e \<times> (bytes + bytes option)"

record 'v codec =
  cd_encode :: "'v \<Rightarrow> bytes option"
  cd_decode :: "bytes \<Rightarrow> 'v option"
  cd_zero :: 'v

definition key_with_prefix :: "bytes \<Rightarrow> bytes \<Rightarrow> bytes" where
  "key_with_prefix prefix key = (if has_prefix key prefix then key else path_join [prefix, key])"

definition decode_with :: "'v codec \<Rightarrow> bytes \<Rightarrow> store_error + 'v" where
  "decode_with cd d = (case cd_decode cd d of None \<Rightarrow> Inl InvalidObj | Some v \<Rightarrow> Inr v)"

definition store_get ::
  "'e kv_client \<Rightarrow> 'v codec \<Rightarrow> bytes \<Rightarrow> 'e \<Rightarrow> bytes \<Rightarrow> bool \<Rightarrow> store_error + 'v" where
  "store_get kv cd prefix e k ignoreNotFound =
     (let key = key_with_prefix prefix k in
      case kv_get kv e key of
        Inl err \<Rightarrow> Inl (EtcdError err)
      | Inr None \<Rightarrow> if ignoreNotFound then Inr (cd_zero cd) else Inl (KeyNotFound key)
      | Inr (Some d) \<Rightarrow> decode_with cd d)"

definition ttl_opts :: "'e kv_client \<Rightarrow> 'e \<Rightarrow> int \<Rightarrow> 'e \<times> (store_error + int option)" where
  "ttl_opts kv e ttl =
     (if ttl = 0 then (e, Inr None)
      else case kv_grant kv e ttl of (e', Inl err) \<Rightarrow> (e', Inl (EtcdError err)) | (e', Inr l) \<Rightarrow> (e', Inr (Some l)))"

text \<open>\<open>out\<close> says whether the caller asks for the object back: the result is then the object.\<close>

definition store_create ::
  "'e kv_client \<Rightarrow> 'v codec \<Rightarrow> bytes \<Rightarrow> 'e \<Rightarrow> bytes \<Rightarrow> 'v \<Rightarrow> bool \<Rightarrow> int \<Rightarrow> 'e \<times> (store_error + 'v option)" where
  "store_create kv cd prefix e k obj out ttl =
     (case cd_encode cd obj of
        None \<Rightarrow> (e, Inl InvalidObj)
      | Some d \<Rightarrow>
          (let key = key_with_prefix prefix k in
           case ttl_opts kv e ttl of
             (e1, Inl err) \<Rightarrow> (e1, Inl err)
           | (e1, Inr lease) \<Rightarrow>
               (case kv_create kv e1 key d lease of
                  (e2, Inl err) \<Rightarrow> (e2, Inl (EtcdError err))
                | (e2, Inr False) \<Rightarrow> (e2, Inl (KeyExists key))
                | (e2, Inr True) \<Rightarrow> (e2, if out then map_sum id Some (decode_with cd d) else Inr None))))"

definition store_delete ::
  "'e kv_client \<Rightarrow> 'v codec \<Rightarrow> bytes \<Rightarrow> 'e \<Rightarrow> bytes \<Rightarrow> bool \<Rightarrow> 'e \<times> (store_error + 'v option)" where
  "store_delete kv cd prefix e k out =
     (let key = key_with_prefix prefix k in
      case kv_take kv e key of
        (e', Inl err) \<Rightarrow> (e', Inl (EtcdError err))
      | (e', Inr None) \<Rightarrow> (e', Inl (KeyNotFound key))
      | (e', Inr (Some d)) \<Rightarrow> (e', if out then map_sum id Some (decode_with cd d) else Inr None))"

definition store_update ::
  "'e kv_client \<Rightarrow> 'v codec \<Rightarrow> bytes \<Rightarrow> 'e \<Rightarrow> bytes \<Rightarrow> 'v \<Rightarrow> bool \<Rightarrow> int \<Rightarrow> 'e \<times> (store_error + 'v option)" where
  "store_update kv cd prefix e k obj out ttl =
     (let key = key_with_prefix prefix k in
      case cd_encode cd obj of
        None \<Rightarrow> (e, Inl InvalidObj)
      | Some d \<Rightarrow>
          (case ttl_opts kv e ttl of
             (e1, Inl err) \<Rightarrow> (e1, Inl err)
           | (e1, Inr lease) \<Rightarrow>
               (case kv_put kv e1 key d lease of
                  (e2, Inl err) \<Rightarrow> (e2, Inl (EtcdError err))
                | (e2, Inr old) \<Rightarrow>
                    (e2, case old of
                           Some b \<Rightarrow> if out then map_sum id Some (decode_with cd b) else Inr None
                         | None \<Rightarrow> Inr None))))"

definition dir_key :: "bytes \<Rightarrow> bytes \<Rightarrow> bytes" where
  "dir_key prefix k =
     (let key = key_with_prefix prefix k in if has_suffix key ''/'' then key else key @ ''/'')"

text \<open>Decoding stops at the first object that is not valid; what was read before stays in the map.\<close>

fun decode_map ::
  "'v codec \<Rightarrow> ('v \<Rightarrow> bool) \<Rightarrow> (bytes \<times> bytes) list \<Rightarrow> (bytes, 'v) fmap \<Rightarrow> (bytes, 'v) fmap \<times> store_error option" where
  "decode_map cd f [] m = (m, None)"
| "decode_map cd f ((k, d) # elems) m =
     (case decode_with cd d of
        Inl err \<Rightarrow> (m, Some err)
      | Inr v \<Rightarrow> decode_map cd f elems (if f v then fmupd k v m else m))"

fun decode_list ::
  "'v codec \<Rightarrow> ('v \<Rightarrow> bool) \<Rightarrow> (bytes \<times> bytes) list \<Rightarrow> 'v list \<Rightarrow> 'v list \<times> store_error option" where
  "decode_list cd f [] l = (l, None)"
| "decode_list cd f ((k, d) # elems) l =
     (case decode_with cd d of
        Inl err \<Rightarrow> (l, Some err)
      | Inr v \<Rightarrow> decode_list cd f elems (if f v then l @ [v] else l))"

definition list_elems :: "'e kv_client \<Rightarrow> bytes \<Rightarrow> 'e \<Rightarrow> bytes \<Rightarrow> store_error + (bytes \<times> bytes) list" where
  "list_elems kv prefix e k =
     (let key = dir_key prefix k in
      map_sum EtcdError (map (\<lambda>(q, d). (trim_prefix q key, d))) (kv_range kv e key))"

definition store_list_map ::
  "'e kv_client \<Rightarrow> 'v codec \<Rightarrow> bytes \<Rightarrow> 'e \<Rightarrow> bytes \<Rightarrow> ('v \<Rightarrow> bool) \<Rightarrow> (bytes, 'v) fmap
     \<Rightarrow> (bytes, 'v) fmap \<times> store_error option" where
  "store_list_map kv cd prefix e k f m =
     (case list_elems kv prefix e k of Inl err \<Rightarrow> (m, Some err) | Inr elems \<Rightarrow> decode_map cd f elems m)"

definition store_list ::
  "'e kv_client \<Rightarrow> 'v codec \<Rightarrow> bytes \<Rightarrow> 'e \<Rightarrow> bytes \<Rightarrow> ('v \<Rightarrow> bool) \<Rightarrow> 'v list \<Rightarrow> 'v list \<times> store_error option" where
  "store_list kv cd prefix e k f l =
     (case list_elems kv prefix e k of Inl err \<Rightarrow> (l, Some err) | Inr elems \<Rightarrow> decode_list cd f elems l)"

text \<open>
  The names under a directory, in an unspecified order: the path component at the depth of the
  directory.  Indexing it panics if it is not there.
\<close>

definition list_keys :: "'e kv_client \<Rightarrow> bytes \<Rightarrow> 'e \<Rightarrow> bytes \<Rightarrow> (store_error + bytes fset) go" where
  "list_keys kv prefix e k =
     (let key = dir_key prefix k in
      case kv_range kv e key of
        Inl err \<Rightarrow> Some (Inl (EtcdError err))
      | Inr kvs \<Rightarrow>
          (let precount = length (split_byte CHR ''/'' key) - 1;
               names = map (\<lambda>(q, d). byte_at (split_byte CHR ''/'' q) precount) kvs
           in if None \<in> set names then None else Some (Inr (fset_of_list (map the names)))))"

subsection \<open>What etcd promises\<close>

text \<open>
  \<open>view e\<close> is the content of etcd in state \<open>e\<close>.  A call that returns an error promises nothing.
\<close>

definition kv_ok :: "('e \<Rightarrow> bytes \<Rightarrow> bytes option) \<Rightarrow> 'e kv_client \<Rightarrow> bool" where
  "kv_ok view kv \<longleftrightarrow>
     (\<forall>e k r. kv_get kv e k = Inr r \<longrightarrow> r = view e k)
     \<and> (\<forall>e p r. kv_range kv e p = Inr r \<longrightarrow>
          distinct (map fst r) \<and> (\<forall>k d. (k, d) \<in> set r \<longleftrightarrow> view e k = Some d \<and> has_prefix k p))
     \<and> (\<forall>e k d l e' r. kv_put kv e k d l = (e', Inr r) \<longrightarrow> r = view e k \<and> view e' = (view e)(k \<mapsto> d))
     \<and> (\<forall>e t e' r. kv_grant kv e t = (e', Inr r) \<longrightarrow> view e' = view e)
     \<and> (\<forall>e k d l e'. kv_create kv e k d l = (e', Inr True) \<longrightarrow> view e k = None \<and> view e' = (view e)(k \<mapsto> d))
     \<and> (\<forall>e k d l e'. kv_create kv e k d l = (e', Inr False) \<longrightarrow> view e k \<noteq> None \<and> view e' = view e)
     \<and> (\<forall>e k e' r. kv_take kv e k = (e', Inr r) \<longrightarrow> r = view e k \<and> view e' = (view e)(k := None))"

definition reads_ok :: "'e kv_client \<Rightarrow> 'e \<Rightarrow> bool" where
  "reads_ok kv e \<longleftrightarrow> (\<forall>k. \<not> isl (kv_get kv e k))"

lemma kv_okD:
  assumes "kv_ok view kv"
  shows "kv_get kv e k = Inr r \<Longrightarrow> r = view e k"
    and "kv_range kv e p = Inr rs \<Longrightarrow> distinct (map fst rs)"
    and "kv_range kv e p = Inr rs \<Longrightarrow> (k, d) \<in> set rs \<longleftrightarrow> view e k = Some d \<and> has_prefix k p"
    and "kv_put kv e k d l = (e', Inr r) \<Longrightarrow> r = view e k \<and> view e' = (view e)(k \<mapsto> d)"
    and "kv_grant kv e t = (e', Inr i) \<Longrightarrow> view e' = view e"
    and "kv_create kv e k d l = (e', Inr b) \<Longrightarrow>
         (b \<longleftrightarrow> view e k = None) \<and> view e' = (if b then (view e)(k \<mapsto> d) else view e)"
    and "kv_take kv e k = (e', Inr r) \<Longrightarrow> r = view e k \<and> view e' = (view e)(k := None)"
  apply (insert assms [unfolded kv_ok_def])
  subgoal by metis
  subgoal by metis
  subgoal by metis
  subgoal by metis
  subgoal by metis
  subgoal by (cases b) (metis (full_types))+
  subgoal by metis
  done

lemma kv_get_view:
  assumes "kv_ok view kv" "reads_ok kv e"
  shows "kv_get kv e k = Inr (view e k)"
proof (cases "kv_get kv e k")
  case (Inl err)
  then show ?thesis using assms(2) by (metis isl_def reads_ok_def)
next
  case (Inr r)
  then show ?thesis using kv_okD(1) [OF assms(1)] by simp
qed

lemma ttl_opts_view: "kv_ok view kv \<Longrightarrow> ttl_opts kv e ttl = (e', Inr l) \<Longrightarrow> view e' = view e"
  by (auto simp: ttl_opts_def split: if_splits prod.splits sum.splits dest: kv_okD(5))

lemma ttl_opts_error: "ttl_opts kv e ttl = (e', Inl err) \<Longrightarrow> \<exists>b. err = EtcdError b"
  by (auto simp: ttl_opts_def split: if_splits prod.splits sum.splits)

lemma store_get_view:
  "kv_ok view kv \<Longrightarrow> reads_ok kv e \<Longrightarrow> store_get kv cd p e k ig =
     (case view e (key_with_prefix p k) of
        None \<Rightarrow> if ig then Inr (cd_zero cd) else Inl (KeyNotFound (key_with_prefix p k))
      | Some d \<Rightarrow> decode_with cd d)"
  by (simp add: store_get_def Let_def kv_get_view)

lemma store_update_view:
  assumes "kv_ok view kv" "store_update kv cd p e k v out ttl = (e', Inr r)"
  shows "\<exists>d. cd_encode cd v = Some d \<and> view e' = (view e)(key_with_prefix p k \<mapsto> d)"
  using assms(2) unfolding store_update_def Let_def
  by (auto split: option.splits prod.splits sum.splits if_splits
      dest!: kv_okD(4) [OF assms(1)] ttl_opts_view [OF assms(1)])

lemma store_create_view:
  assumes "kv_ok view kv" "store_create kv cd p e k v out ttl = (e', Inr r)"
  shows "view e (key_with_prefix p k) = None
    \<and> (\<exists>d. cd_encode cd v = Some d \<and> view e' = (view e)(key_with_prefix p k \<mapsto> d))"
  using assms(2) unfolding store_create_def Let_def
  by (auto split: option.splits prod.splits sum.splits if_splits bool.splits
      dest!: kv_okD(6) [OF assms(1)] ttl_opts_view [OF assms(1)])

lemma store_delete_view:
  assumes "kv_ok view kv" "store_delete kv cd p e k out = (e', res)" "\<And>b. res \<noteq> Inl (EtcdError b)"
  shows "view e' = (view e)(key_with_prefix p k := None)
    \<and> (res = Inl (KeyNotFound (key_with_prefix p k)) \<longleftrightarrow> view e (key_with_prefix p k) = None)"
  using assms(2,3) unfolding store_delete_def Let_def
  by (auto split: option.splits prod.splits sum.splits if_splits
      dest!: kv_okD(7) [OF assms(1)] simp: decode_with_def)

subsection \<open>A store in memory, for the examples\<close>

definition mem_kv :: "(bytes \<times> bytes) list kv_client" where
  "mem_kv = \<lparr>
     kv_get = \<lambda>e k. Inr (map_of e k),
     kv_range = \<lambda>e p. Inr (filter (\<lambda>kd. has_prefix (fst kd) p) (AList.clearjunk e)),
     kv_put = \<lambda>e k d l. ((k, d) # e, Inr (map_of e k)),
     kv_grant = \<lambda>e t. (e, Inr t),
     kv_create = \<lambda>e k d l. if map_of e k = None then ((k, d) # e, Inr True) else (e, Inr False),
     kv_take = \<lambda>e k. (AList.delete k e, Inr (map_of e k))\<rparr>"

definition text_codec :: "bytes codec" where
  "text_codec = \<lparr>cd_encode = (\<lambda>v. Some (dquote # v)), cd_decode = (\<lambda>d. case d of [] \<Rightarrow> None | _ # v \<Rightarrow> Some v), cd_zero = []\<rparr>"

lemma text_codec_ok: "cd_encode text_codec v = Some d \<Longrightarrow> cd_decode text_codec d = Some v"
  by (auto simp: text_codec_def)

lemma mem_kv_ok: "kv_ok map_of mem_kv"
proof -
  have "distinct (map fst (filter (\<lambda>kd. has_prefix (fst kd) p) (AList.clearjunk e)))" for e p
    by (simp add: distinct_map_filter distinct_clearjunk)
  moreover have "(k, d) \<in> set (AList.clearjunk e) \<longleftrightarrow> map_of e k = Some d" for e :: "(bytes \<times> bytes) list" and k d
    by (metis distinct_clearjunk map_of_clearjunk map_of_eq_Some_iff)
  moreover have "map_of (AList.delete k e) = (map_of e)(k := None)" for e :: "(bytes \<times> bytes) list" and k
    by (rule delete_conv')
  ultimately show ?thesis unfolding kv_ok_def mem_kv_def by (auto split: if_splits)
qed

lemma mem_kv_reads: "reads_ok mem_kv e"
  by (simp add: reads_ok_def mem_kv_def)

subsection \<open>The store is a typed map\<close>

lemma store_update_lookup:
  assumes "kv_ok view kv" "\<And>d. cd_encode cd v = Some d \<Longrightarrow> cd_decode cd d = Some v"
    "store_update kv cd p e k v out ttl = (e', Inr r)" "reads_ok kv e" "reads_ok kv e'"
  shows "store_get kv cd p e' k' ig =
     (if key_with_prefix p k' = key_with_prefix p k then Inr v else store_get kv cd p e k' ig)"
proof -
  obtain d where "cd_encode cd v = Some d" "view e' = (view e)(key_with_prefix p k \<mapsto> d)"
    using store_update_view [OF assms(1,3)] by blast
  then show ?thesis using assms by (simp add: store_get_view decode_with_def)
qed

text \<open>
  a successful \<open>Update\<close> writes one object and nothing else: reading its key gives the object back, in
  whatever way the prefix is spelled, and every other key reads as before.
\<close>

theorem store_update_get:
  assumes "kv_ok view kv" "\<And>d. cd_encode cd v = Some d \<Longrightarrow> cd_decode cd d = Some v"
    "store_update kv cd p e k v out ttl = (e', Inr r)" "reads_ok kv e" "reads_ok kv e'"
  shows "store_get kv cd p e' k' ig =
     (if key_with_prefix p k' = key_with_prefix p k then Inr v else store_get kv cd p e k' ig)"
  by (rule store_update_lookup [OF assms])

theorem store_update_get_witness:
  "store_get mem_kv text_codec ''/d/'' (fst (store_update mem_kv text_codec ''/d/'' [] ''h1'' ''up'' False 120))
     ''/d/h1'' False = Inr ''up''"
proof -
  let ?e = "[(''/d/h1'', dquote # ''up'')]"
  have k: "key_with_prefix ''/d/'' ''h1'' = ''/d/h1''" "key_with_prefix ''/d/'' ''/d/h1'' = ''/d/h1''"
    by (simp_all add: key_with_prefix_def path_join_def path_clean_def clean_step_def has_prefix_def)
  have "store_update mem_kv text_codec ''/d/'' [] ''h1'' ''up'' False 120 = (?e, Inr None)"
    by (simp add: store_update_def ttl_opts_def mem_kv_def text_codec_def k)
  from store_update_get [OF mem_kv_ok text_codec_ok this mem_kv_reads mem_kv_reads, of "''/d/h1''" False]
  show ?thesis using \<open>store_update _ _ _ _ _ _ _ _ = _\<close> by (simp add: k)
qed

text \<open>
  C29: \<open>Delete\<close> of an object that is there removes it and nothing else, and gives it out if it is asked to; of one that is not
  there it is a "not found" error, and leaves the store as it is.  A transaction that fails is an error of etcd, of which
  nothing is known.
\<close>

theorem store_delete_get:
  assumes "kv_ok view kv" "store_delete kv cd p e k out = (e', res)" "\<And>b. res \<noteq> Inl (EtcdError b)"
    "reads_ok kv e" "reads_ok kv e'"
  shows "store_get kv cd p e' k' False =
      (if key_with_prefix p k' = key_with_prefix p k then Inl (KeyNotFound (key_with_prefix p k))
       else store_get kv cd p e k' False)
    \<and> res = (case store_get kv cd p e k False of
               Inl (KeyNotFound key) \<Rightarrow> Inl (KeyNotFound key)
             | Inl err \<Rightarrow> if out then Inl err else Inr None
             | Inr v \<Rightarrow> Inr (if out then Some v else None))"
proof -
  let ?k = "key_with_prefix p k"
  obtain r where t: "kv_take kv e ?k = (e', Inr r)" "res = (case r of None \<Rightarrow> Inl (KeyNotFound ?k)
      | Some d \<Rightarrow> if out then map_sum id Some (decode_with cd d) else Inr None)"
    using assms(2,3) unfolding store_delete_def Let_def by (auto split: prod.splits sum.splits option.splits)
  then have v: "r = view e ?k" "view e' = (view e)(?k := None)" using kv_okD(7) [OF assms(1) t(1)] by simp_all
  have "store_get kv cd p e' k' False =
      (if key_with_prefix p k' = ?k then Inl (KeyNotFound ?k) else store_get kv cd p e k' False)"
    using v(2) assms(1,4,5) by (simp add: store_get_view)
  moreover have "res = (case store_get kv cd p e k False of
               Inl (KeyNotFound key) \<Rightarrow> Inl (KeyNotFound key)
             | Inl err \<Rightarrow> if out then Inl err else Inr None
             | Inr v \<Rightarrow> Inr (if out then Some v else None))"
    using t(2) v(1) assms(1,4) by (auto simp: store_get_view decode_with_def split: option.splits)
  ultimately show ?thesis ..
qed

theorem store_delete_get_witness:
  "\<exists>e'. store_delete mem_kv text_codec ''/d/'' [(''/d/h1'', dquote # ''up'')] ''h1'' True = (e', Inr (Some ''up''))
     \<and> store_get mem_kv text_codec ''/d/'' e' ''h1'' False = Inl (KeyNotFound ''/d/h1'')"
proof -
  have k: "key_with_prefix ''/d/'' ''h1'' = ''/d/h1''"
    by (simp add: key_with_prefix_def path_join_def path_clean_def clean_step_def has_prefix_def)
  obtain e' where e: "store_delete mem_kv text_codec ''/d/'' [(''/d/h1'', dquote # ''up'')] ''h1'' True = (e', Inr (Some ''up''))"
    by (simp add: store_delete_def mem_kv_def k text_codec_def decode_with_def)
  then show ?thesis
    using store_delete_get [OF mem_kv_ok e _ mem_kv_reads mem_kv_reads, of "''h1''"] k by (intro exI conjI) (rule e, simp)
qed

text \<open>
  \<open>Create\<close> succeeds only where there is no object, and once it has, a second \<open>Create\<close> of the same key
  never succeeds and does not touch the object.
\<close>

theorem store_create_once:
  assumes "kv_ok view kv" "store_create kv cd p e k v out ttl = (e1, Inr r)"
    "store_create kv cd p e1 k w out' ttl' = (e2, res)"
  shows "view e (key_with_prefix p k) = None \<and> isl res
    \<and> (res = Inl (KeyExists (key_with_prefix p k)) \<longrightarrow> view e2 = view e1)"
proof -
  have a: "view e (key_with_prefix p k) = None" "view e1 (key_with_prefix p k) \<noteq> None"
    using store_create_view [OF assms(1,2)] by auto
  have "isl res"
  proof (cases res)
    case (Inr r')
    then have "view e1 (key_with_prefix p k) = None"
      using store_create_view [OF assms(1), of cd p e1 k w out' ttl' e2 r'] assms(3) by simp
    then show ?thesis using a by simp
  qed simp
  moreover have "view e2 = view e1" if "res = Inl (KeyExists (key_with_prefix p k))"
    using assms(3) that unfolding store_create_def Let_def decode_with_def
    by (auto split: option.splits prod.splits sum.splits if_splits bool.splits
        dest!: kv_okD(6) [OF assms(1)] ttl_opts_view [OF assms(1)] ttl_opts_error)
  ultimately show ?thesis using a by blast
qed

theorem store_create_once_witness:
  "isl (snd (store_create mem_kv text_codec ''/d/'' [(''/d/a'', dquote # ''x'')] ''/d/a'' ''y'' False 0))"
proof -
  have k: "key_with_prefix ''/d/'' ''/d/a'' = ''/d/a''" by (simp add: key_with_prefix_def has_prefix_def)
  have "store_create mem_kv text_codec ''/d/'' [] ''/d/a'' ''x'' False 0 = ([(''/d/a'', dquote # ''x'')], Inr None)"
    by (simp add: store_create_def ttl_opts_def mem_kv_def text_codec_def k)
  from store_create_once [OF mem_kv_ok this, of "''y''" False 0] show ?thesis
    by (metis prod.collapse)
qed

subsection \<open>Listing a directory\<close>

lemma dir_key_slash: "\<exists>dir. dir_key p k = dir @ ''/''"
  by (auto simp: dir_key_def Let_def has_suffix_iff)

lemma decode_map_lookup:
  "decode_map cd f elems m = (m', None) \<Longrightarrow> distinct (map fst elems) \<Longrightarrow>
   fmlookup m' n = (case map_of elems n of
       None \<Rightarrow> fmlookup m n
     | Some d \<Rightarrow> (case cd_decode cd d of None \<Rightarrow> fmlookup m n | Some v \<Rightarrow> if f v then Some v else fmlookup m n))"
proof (induction cd f elems m rule: decode_map.induct)
  case (2 cd f k d elems m)
  from 2(2) obtain v where v: "cd_decode cd d = Some v"
    "decode_map cd f elems (if f v then fmupd k v m else m) = (m', None)"
    by (auto simp: decode_with_def split: option.splits)
  have "map_of elems k = None" using 2(3) by (simp add: map_of_eq_None_iff)
  then show ?case
    using 2(1) [of v] 2(3) v by (auto simp: decode_with_def split: option.splits)
qed simp

lemma list_elems_view:
  assumes "kv_ok view kv" "list_elems kv p e k = Inr elems"
  shows "distinct (map fst elems)" and "map_of elems n = view e (dir_key p k @ n)"
proof -
  obtain rs where rs: "kv_range kv e (dir_key p k) = Inr rs"
    and el: "elems = map (\<lambda>(q, d). (trim_prefix q (dir_key p k), d)) rs"
    using assms(2) by (cases "kv_range kv e (dir_key p k)") (auto simp: list_elems_def Let_def)
  have mem: "(q, d) \<in> set rs \<longleftrightarrow> view e q = Some d \<and> has_prefix q (dir_key p k)" for q d
    using kv_okD(3) [OF assms(1) rs] .
  have pre: "\<exists>t. q = dir_key p k @ t" if "q \<in> fst ` set rs" for q
    using that mem by (auto simp: has_prefix_iff)
  have "inj_on (\<lambda>q. trim_prefix q (dir_key p k)) (fst ` set rs)"
    using pre by (intro inj_onI) (metis trim_prefix_append)
  then have d: "distinct (map (\<lambda>q. trim_prefix q (dir_key p k)) (map fst rs))"
    using kv_okD(2) [OF assms(1) rs] by (simp add: distinct_map comp_inj_on)
  moreover have "map fst elems = map (\<lambda>q. trim_prefix q (dir_key p k)) (map fst rs)"
    by (simp add: el case_prod_beta)
  ultimately show dist: "distinct (map fst elems)" by simp
  have "(n, d) \<in> set elems \<longleftrightarrow> view e (dir_key p k @ n) = Some d" for d
  proof
    assume "(n, d) \<in> set elems"
    then obtain q where "(q, d) \<in> set rs" "n = trim_prefix q (dir_key p k)" by (auto simp: el)
    then show "view e (dir_key p k @ n) = Some d" using mem by (auto simp: has_prefix_iff)
  next
    assume "view e (dir_key p k @ n) = Some d"
    then have "(dir_key p k @ n, d) \<in> set rs" using mem by simp
    then show "(n, d) \<in> set elems" by (force simp: el)
  qed
  then show "map_of elems n = view e (dir_key p k @ n)"
    using dist by (metis map_of_eq_Some_iff not_None_eq option.exhaust)
qed

lemma list_map_lookup:
  assumes "kv_ok view kv" "store_list_map kv cd p e k f fmempty = (m, None)"
  shows "fmlookup m n = Some v \<longleftrightarrow>
    (\<exists>d. view e (dir_key p k @ n) = Some d \<and> cd_decode cd d = Some v \<and> f v)"
proof -
  obtain elems where e: "list_elems kv p e k = Inr elems" "decode_map cd f elems fmempty = (m, None)"
    using assms(2) by (auto simp: store_list_map_def split: sum.splits)
  show ?thesis
    using decode_map_lookup [OF e(2) list_elems_view(1) [OF assms(1) e(1)], of n]
      list_elems_view(2) [OF assms(1) e(1), of n]
    by (auto split: option.splits)
qed

text \<open>
  a listing that succeeds has exactly the objects below the directory, under their names relative to
  it: an object of a sibling whose name only starts like the directory's is not listed.
\<close>

theorem list_map_exact:
  assumes "kv_ok view kv" "store_list_map kv cd p e k f fmempty = (m, None)"
  shows "fmlookup m n = Some v \<longleftrightarrow>
    (\<exists>d. view e (dir_key p k @ n) = Some d \<and> cd_decode cd d = Some v \<and> f v)"
  by (rule list_map_lookup [OF assms])

theorem list_map_exact_witness:
  "fmlookup (fst (store_list_map mem_kv text_codec ''/d/''
     [(''/d/a/x'', dquote # ''1''), (''/d/ab'', dquote # ''2'')] ''/d/a'' (\<lambda>v. True) fmempty)) ''x'' = Some ''1''
   \<and> fmlookup (fst (store_list_map mem_kv text_codec ''/d/''
     [(''/d/a/x'', dquote # ''1''), (''/d/ab'', dquote # ''2'')] ''/d/a'' (\<lambda>v. True) fmempty)) ''b'' = None"
proof -
  let ?e = "[(''/d/a/x'', dquote # ''1''), (''/d/ab'', dquote # ''2'')]"
  have k: "dir_key ''/d/'' ''/d/a'' = ''/d/a/''"
    by (simp add: dir_key_def key_with_prefix_def has_prefix_def has_suffix_def)
  have l: "store_list_map mem_kv text_codec ''/d/'' ?e ''/d/a'' (\<lambda>v. True) fmempty = (fmupd ''x'' ''1'' fmempty, None)"
    by (simp add: store_list_map_def list_elems_def k mem_kv_def decode_with_def text_codec_def trim_prefix_def
        has_prefix_def)
  show ?thesis
    using list_map_exact [OF mem_kv_ok l, of "''x''" "''1''"] 
    by (simp only: l fst_conv) simp
qed

lemma split_byte_app: "split_byte c (p @ c # s) = split_byte c p @ split_byte c s"
  by (induction p) (auto split: list.splits)

lemma list_keys_name:
  assumes "has_prefix q (dir @ ''/'')"
  shows "byte_at (split_byte CHR ''/'' q) (length (split_byte CHR ''/'' (dir @ ''/'')) - 1)
    = Some (takeWhile (\<lambda>c. c \<noteq> CHR ''/'') (drop (length dir + 1) q))"
proof -
  obtain t where q: "q = dir @ CHR ''/'' # t" using assms by (auto simp: has_prefix_iff)
  have n: "length (split_byte CHR ''/'' (dir @ ''/'')) - 1 = length (split_byte CHR ''/'' dir)"
    using split_byte_app [of "CHR ''/''" dir "[]"] by simp
  have hd: "hd (split_byte CHR ''/'' t) = takeWhile (\<lambda>c. c \<noteq> CHR ''/'') t"
    by (induction t) (auto split: list.splits)
  have "split_byte CHR ''/'' t ! 0 = hd (split_byte CHR ''/'' t)" by (simp add: hd_conv_nth)
  then show ?thesis unfolding n using hd by (simp add: q split_byte_app nth_append)
qed

text \<open>
  \<open>ListKeys\<close> never panics: it gives an error of etcd, or exactly the names of the first path component
  of the keys below the directory.
\<close>

theorem list_keys_exact:
  assumes "kv_ok view kv"
  shows "\<exists>r. list_keys kv p e k = Some r \<and>
    (case r of
       Inl err \<Rightarrow> \<exists>b. err = EtcdError b
     | Inr names \<Rightarrow> \<forall>n. n |\<in>| names \<longleftrightarrow>
         (\<exists>t. view e (dir_key p k @ t) \<noteq> None \<and> n = takeWhile (\<lambda>c. c \<noteq> CHR ''/'') t))"
proof (cases "kv_range kv e (dir_key p k)")
  case (Inl err)
  then show ?thesis by (simp add: list_keys_def Let_def)
next
  case (Inr kvs)
  obtain dir where dir: "dir_key p k = dir @ ''/''" using dir_key_slash by blast
  let ?n = "\<lambda>q. takeWhile (\<lambda>c. c \<noteq> CHR ''/'') (drop (length dir + 1) q)"
  let ?names = "map (\<lambda>(q, d). byte_at (split_byte CHR ''/'' q) (length (split_byte CHR ''/'' (dir_key p k)) - 1)) kvs"
  have mem: "(q, d) \<in> set kvs \<longleftrightarrow> view e q = Some d \<and> has_prefix q (dir_key p k)" for q d
    using kv_okD(3) [OF assms Inr] .
  have names: "?names = map (\<lambda>(q, d). Some (?n q)) kvs"
    unfolding dir
  proof (intro map_cong refl, clarsimp simp del: One_nat_def)
    fix q d assume "(q, d) \<in> set kvs"
    then have "has_prefix q (dir @ ''/'')" using mem by (simp add: dir)
    then show "byte_at (split_byte CHR ''/'' q) (length (split_byte CHR ''/'' (dir @ ''/'')) - 1) = Some (?n q)"
      by (rule list_keys_name)
  qed
  have "list_keys kv p e k =
      (if None \<in> set ?names then None else Some (Inr (fset_of_list (map the ?names))))"
    by (simp add: list_keys_def Let_def Inr)
  moreover have "None \<notin> set (map (\<lambda>(q, d). Some (?n q)) kvs)" by auto
  moreover have "map the (map (\<lambda>(q, d). Some (?n q)) kvs) = map (\<lambda>(q, d). ?n q) kvs" by auto
  ultimately have r: "list_keys kv p e k = Some (Inr (fset_of_list (map (\<lambda>(q, d). ?n q) kvs)))"
    unfolding names by (simp only: if_False)
  have "n \<in> set (map (\<lambda>(q, d). ?n q) kvs) \<longleftrightarrow>
      (\<exists>t. view e (dir_key p k @ t) \<noteq> None \<and> n = takeWhile (\<lambda>c. c \<noteq> CHR ''/'') t)" for n
  proof
    assume "n \<in> set (map (\<lambda>(q, d). ?n q) kvs)"
    then obtain q d where "(q, d) \<in> set kvs" "n = ?n q" by auto
    then show "\<exists>t. view e (dir_key p k @ t) \<noteq> None \<and> n = takeWhile (\<lambda>c. c \<noteq> CHR ''/'') t"
      using mem [of q d] by (auto simp: dir has_prefix_iff)
  next
    assume "\<exists>t. view e (dir_key p k @ t) \<noteq> None \<and> n = takeWhile (\<lambda>c. c \<noteq> CHR ''/'') t"
    then obtain t d where "view e (dir_key p k @ t) = Some d" "n = takeWhile (\<lambda>c. c \<noteq> CHR ''/'') t" by auto
    then have "(dir_key p k @ t, d) \<in> set kvs" "n = ?n (dir_key p k @ t)"
      by (simp_all add: mem dir has_prefix_iff)
    then show "n \<in> set (map (\<lambda>(q, d). ?n q) kvs)" by force
  qed
  then show ?thesis using r by (simp add: fset_of_list.rep_eq)
qed

theorem list_keys_exact_witness:
  "\<exists>r. list_keys mem_kv ''/d/'' [(''/d/a/x'', ''1'')] ''/d/'' = Some r \<and> \<not> isl r"
proof -
  obtain r where r: "list_keys mem_kv ''/d/'' [(''/d/a/x'', ''1'')] ''/d/'' = Some r"
    using list_keys_exact [OF mem_kv_ok, of "''/d/''" "[(''/d/a/x'', ''1'')]" "''/d/''"] by blast
  then have "\<not> isl r" by (auto simp: list_keys_def mem_kv_def Let_def split: if_splits)
  then show ?thesis using r by blast
qed

subsection \<open>The registries of hosts and instances\<close>

text \<open>
  The registries are thin: each operation is one call of the store, at the path of the object, with the
  prefix the registry was created with.  An object is an element of \<open>'v\<close>.
\<close>

definition save_config ::
  "'e kv_client \<Rightarrow> 'v codec \<Rightarrow> stage \<Rightarrow> 'e \<Rightarrow> bytes \<Rightarrow> 'v \<Rightarrow> 'e \<times> (store_error + 'v option)" where
  "save_config kv cd st e hostName hc =
     store_update kv cd (host_base_dir st) e (host_config_path st hostName) hc False 0"

definition get_config :: "'e kv_client \<Rightarrow> 'v codec \<Rightarrow> stage \<Rightarrow> 'e \<Rightarrow> bytes \<Rightarrow> store_error + 'v" where
  "get_config kv cd st e hostName =
     store_get kv cd (host_base_dir st) e (host_config_path st hostName) False"

definition get_host_resource :: "'e kv_client \<Rightarrow> 'v codec \<Rightarrow> stage \<Rightarrow> 'e \<Rightarrow> bytes \<Rightarrow> store_error + 'v" where
  "get_host_resource kv cd st e hid = store_get kv cd (host_base_dir st) e (host_stat_path st hid) False"

definition update_resource ::
  "'e kv_client \<Rightarrow> 'v codec \<Rightarrow> stage \<Rightarrow> 'e \<Rightarrow> bytes \<Rightarrow> 'v \<Rightarrow> 'e \<times> (store_error + 'v option)" where
  "update_resource kv cd st e hid hr =
     store_update kv cd (host_base_dir st) e (host_stat_path st hid) hr False (2 * 60)"

definition get_host_info_of_id :: "'e kv_client \<Rightarrow> 'v codec \<Rightarrow> stage \<Rightarrow> 'e \<Rightarrow> bytes \<Rightarrow> store_error + 'v" where
  "get_host_info_of_id kv cd st e hid = store_get kv cd (host_base_dir st) e (host_info_path st hid) False"

definition save_host_info ::
  "'e kv_client \<Rightarrow> 'v codec \<Rightarrow> stage \<Rightarrow> 'e \<Rightarrow> bytes \<Rightarrow> 'v \<Rightarrow> 'e \<times> (store_error + 'v option)" where
  "save_host_info kv cd st e hid hi =
     store_update kv cd (host_base_dir st) e (host_info_path st hid) hi False 0"

definition del_host_info ::
  "'e kv_client \<Rightarrow> 'v codec \<Rightarrow> stage \<Rightarrow> 'e \<Rightarrow> bytes \<Rightarrow> 'e \<times> (store_error + 'v option)" where
  "del_host_info kv cd st e hid = store_delete kv cd (host_base_dir st) e (host_info_path st hid) False"

definition get_instances ::
  "'e kv_client \<Rightarrow> 'v codec \<Rightarrow> stage \<Rightarrow> 'e \<Rightarrow> bytes \<Rightarrow> store_error + 'v list" where
  "get_instances kv cd st e key =
     (case store_list kv cd (deploy_dir st) e (deploy_instance_dir_of_key st key) (\<lambda>v. True) [] of
        (l, Some err) \<Rightarrow> Inl err | (l, None) \<Rightarrow> Inr l)"

definition set_host_deploy_spec ::
  "'e kv_client \<Rightarrow> 'v codec \<Rightarrow> stage \<Rightarrow> 'e \<Rightarrow> bytes \<Rightarrow> bytes \<Rightarrow> 'v \<Rightarrow> 'e \<times> (store_error + 'v option)" where
  "set_host_deploy_spec kv cd st e hid key spec =
     store_update kv cd (deploy_dir st) e (deploy_host_expect_path_of st hid key) spec False 0"

text \<open>\<open>os.IsNotExist\<close> knows the errors of package \<open>os\<close> only: for an error of the store it is false.\<close>

fun is_not_exist :: "store_error \<Rightarrow> bool" where
  "is_not_exist (KeyNotFound k) = False"
| "is_not_exist (KeyExists k) = False"
| "is_not_exist InvalidObj = False"
| "is_not_exist (EtcdError b) = False"

definition get_host_deploy_spec ::
  "'e kv_client \<Rightarrow> 'v codec \<Rightarrow> stage \<Rightarrow> 'e \<Rightarrow> bytes \<Rightarrow> bytes \<Rightarrow> store_error + 'v option" where
  "get_host_deploy_spec kv cd st e hid key =
     (case store_get kv cd (deploy_dir st) e (deploy_host_expect_path_of st hid key) False of
        Inl err \<Rightarrow> if is_not_exist err then Inr None else Inl err
      | Inr v \<Rightarrow> Inr (Some v))"

lemma expect_path_prefix [simp]:
  "key_with_prefix (deploy_dir st) (deploy_host_expect_path_of st h k) = deploy_host_expect_path_of st h k"
  by (simp add: key_with_prefix_def deploy_host_expect_path_of_def deploy_host_expect_dir_of_def
      deploy_host_expect_dir_def)

text \<open>
  asking for the specification of a deployment that a host does not have never gives the nil the
  function is written to give: the "not found" error of the store is passed on, because \<open>os.IsNotExist\<close> does
  not recognise it.
\<close>

theorem absent_spec_is_error:
  assumes "kv_ok view kv" "reads_ok kv e" "view e (deploy_host_expect_path_of st h k) = None"
  shows "get_host_deploy_spec kv cd st e h k = Inl (KeyNotFound (deploy_host_expect_path_of st h k))"
  using assms by (simp add: get_host_deploy_spec_def store_get_view)

theorem absent_spec_is_error_witness:
  "isl (get_host_deploy_spec mem_kv text_codec Dev [] ''h1'' ''java/crm'')"
  using absent_spec_is_error [OF mem_kv_ok mem_kv_reads, of "[]" Dev "''h1''" "''java/crm''" text_codec]
  by simp

text \<open>
  setting the specification of a deployment on a host is what a later read of that host and deployment
  gives, and the specifications of the other hosts and deployments are not touched.
\<close>

theorem host_deploy_spec_isolated:
  assumes "kv_ok view kv" "\<And>d. cd_encode cd v = Some d \<Longrightarrow> cd_decode cd d = Some v"
    "set_host_deploy_spec kv cd st e h k v = (e', Inr r)" "reads_ok kv e" "reads_ok kv e'"
    "st \<in> fst ` set stages" "CHR ''/'' \<notin> set h" "CHR ''/'' \<notin> set h'"
  shows "get_host_deploy_spec kv cd st e' h' k' =
    (if h' = h \<and> k' = k then Inr (Some v) else get_host_deploy_spec kv cd st e h' k')"
proof -
  have "deploy_host_expect_path_of st h' k' = deploy_host_expect_path_of st h k \<longleftrightarrow> h' = h \<and> k' = k"
    using expect_path_eqD [of h' h st st k' k] assms(6-8) by blast
  then show ?thesis
    using store_update_lookup [OF assms(1,2) assms(3) [unfolded set_host_deploy_spec_def] assms(4,5)]
    by (simp add: get_host_deploy_spec_def)
qed

theorem host_deploy_spec_isolated_witness:
  "get_host_deploy_spec mem_kv text_codec Dev
     (fst (set_host_deploy_spec mem_kv text_codec Dev [] ''h1'' ''java/crm'' ''two'')) ''h1'' ''java/crm''
   = Inr (Some ''two'')"
proof -
  have u: "set_host_deploy_spec mem_kv text_codec Dev [] ''h1'' ''java/crm'' ''two'' =
      ([(deploy_host_expect_path_of Dev ''h1'' ''java/crm'', dquote # ''two'')], Inr None)"
    by (simp add: set_host_deploy_spec_def store_update_def ttl_opts_def mem_kv_def text_codec_def)
  have "Dev \<in> fst ` set stages" by (simp add: stages_def)
  then show ?thesis
    using host_deploy_spec_isolated [OF mem_kv_ok text_codec_ok u mem_kv_reads mem_kv_reads,
        of "''h1''" "''java/crm''"] u by simp
qed

end
