(* ===== verification/Watch.thy ===== *)
theory Watch
  imports Store
begin

text \<open>
  Watching a directory of the object store (\<open>registry/generic/watcher.go\<close>, \<open>event.go\<close>, \<open>predicate.go\<close>,
  \<open>registry/watch/watcher.go\<close>): parsing the events of etcd, the predicate, the translation into events for
  the client, and what is sent when a watch starts and while it runs.

  Decoding is a parameter.  Values of interface types carry the number of pointers of their dynamic type:
  \<open>reflect.New\<close> adds one to the type the watcher was given.
\<close>

subsection \<open>Events\<close>

datatype event_type = Added | Modified | Deleted | ErrorEvent

datatype 'v wobject = NilObject | Object nat 'v | StatusObject int bytes

record 'v watch_event =
  we_type :: event_type
  we_key :: bytes
  we_object :: "'v wobject"

text \<open>A key-value pair of etcd and an event of its watch.\<close>

record etcd_kv =
  ek_key :: bytes
  ek_value :: bytes
  ek_create :: int
  ek_mod :: int

record etcd_event =
  ev_delete :: bool
  ev_kv :: etcd_kv
  ev_prev :: "etcd_kv option"

definition ev_is_create :: "etcd_event \<Rightarrow> bool" where
  "ev_is_create e \<longleftrightarrow> \<not> ev_delete e \<and> ek_create (ev_kv e) = ek_mod (ev_kv e)"

text \<open>\<open>event\<close>, the store's own form of it; a missing value is the empty one.\<close>

record event =
  e_key :: bytes
  e_value :: bytes
  e_prevValue :: bytes
  e_rev :: int
  e_isDeleted :: bool
  e_isCreated :: bool

definition parse_kv :: "etcd_kv \<Rightarrow> bytes \<Rightarrow> event" where
  "parse_kv kv prevVal = \<lparr>e_key = ek_key kv, e_value = ek_value kv, e_prevValue = prevVal, e_rev = ek_mod kv,
     e_isDeleted = False, e_isCreated = (ek_mod kv = ek_create kv)\<rparr>"

definition parse_event :: "etcd_event \<Rightarrow> event" where
  "parse_event e = \<lparr>e_key = ek_key (ev_kv e), e_value = ek_value (ev_kv e),
     e_prevValue = (case ev_prev e of None \<Rightarrow> [] | Some kv \<Rightarrow> ek_value kv),
     e_rev = ek_mod (ev_kv e), e_isDeleted = ev_delete e, e_isCreated = ev_is_create e\<rparr>"

subsection \<open>Predicates\<close>

text \<open>
  A selector is nil, or a test for emptiness and a function; asking a nil selector anything panics.  \<open>GetAttrs\<close>
  may panic or fail.
\<close>

record ('v, 'l, 'f) selection_predicate =
  sp_label :: "(bool \<times> ('l \<Rightarrow> bool)) option"
  sp_field :: "(bool \<times> ('f \<Rightarrow> bool)) option"
  sp_getAttrs :: "'v wobject \<Rightarrow> ('l \<times> 'f) option go"

definition sp_empty :: "('v, 'l, 'f) selection_predicate \<Rightarrow> bool go" where
  "sp_empty p =
     (case sp_label p of None \<Rightarrow> None | Some (emp, _) \<Rightarrow> if emp then map_option fst (sp_field p) else Some False)"

text \<open>\<open>Matches\<close>: an error of \<open>GetAttrs\<close> is the inner \<open>None\<close>.\<close>

definition sp_matches :: "('v, 'l, 'f) selection_predicate \<Rightarrow> 'v wobject \<Rightarrow> bool option go" where
  "sp_matches p obj =
     do {
       emp \<leftarrow> sp_empty p;
       if emp then Some (Some True)
       else do {
         attrs \<leftarrow> sp_getAttrs p obj;
         (_, label) \<leftarrow> sp_label p;
         Some (case attrs of
             None \<Rightarrow> None
           | Some (ls, fs) \<Rightarrow>
               (let matched = label ls
                in Some (case sp_field p of None \<Rightarrow> matched | Some (_, f) \<Rightarrow> matched \<and> f fs)))
       }
     }"

definition simple_filter :: "('v, 'l, 'f) selection_predicate \<Rightarrow> 'v wobject \<Rightarrow> bool go" where
  "simple_filter p obj = map_option (\<lambda>m. case m of None \<Rightarrow> False | Some b \<Rightarrow> b) (sp_matches p obj)"

definition everything :: "('v, 'l, 'f) selection_predicate" where
  "everything = \<lparr>sp_label = Some (True, \<lambda>l. True), sp_field = Some (True, \<lambda>f. True), sp_getAttrs = \<lambda>obj. None\<rparr>"

subsection \<open>The watcher\<close>

text \<open>The error of a cancelled context, that of a compacted revision, and all others, by their texts.\<close>

datatype watch_error = WatchError bytes | Canceled | Compacted bytes

record 'v watch_chan =
  wc_typ :: nat
  wc_decode :: "bytes \<Rightarrow> bytes + 'v"
  wc_key :: bytes
  wc_initialRev :: int
  wc_recursive :: bool
  wc_filter :: "('v wobject \<Rightarrow> bool go) option"

definition create_watch_chan ::
  "nat \<Rightarrow> (bytes \<Rightarrow> bytes + 'v) \<Rightarrow> bytes \<Rightarrow> int \<Rightarrow> bool \<Rightarrow> ('v, 'l, 'f) selection_predicate \<Rightarrow> 'v watch_chan go" where
  "create_watch_chan typ dec key revn recursive pred =
     map_option (\<lambda>emp. \<lparr>wc_typ = typ, wc_decode = dec, wc_key = key, wc_initialRev = revn,
         wc_recursive = recursive, wc_filter = (if emp then None else Some (simple_filter pred))\<rparr>)
       (sp_empty pred)"

text \<open>\<open>watcher.Watch\<close>, and the \<open>Watch\<close> of the store, which keeps the type of an earlier call if none is given.\<close>

definition watcher_watch ::
  "nat \<Rightarrow> (bytes \<Rightarrow> bytes + 'v) \<Rightarrow> bytes \<Rightarrow> int \<Rightarrow> bool \<Rightarrow> ('v, 'l, 'f) selection_predicate \<Rightarrow> 'v watch_chan go" where
  "watcher_watch typ dec key revn recursive pred =
     (let key = (if recursive \<and> \<not> has_suffix key ''/'' then key @ ''/'' else key)
      in create_watch_chan typ dec key revn recursive pred)"

definition store_watch ::
  "nat option \<Rightarrow> (bytes \<Rightarrow> bytes + 'v) \<Rightarrow> bytes \<Rightarrow> bytes \<Rightarrow> ('v, 'l, 'f) selection_predicate \<Rightarrow> bool \<Rightarrow> nat option
     \<Rightarrow> nat option \<times> 'v watch_chan option go" where
  "store_watch typ dec prefix key p recursive expectTyp =
     (let typ = (if expectTyp \<noteq> None then expectTyp else typ) in
      case typ of
        None \<Rightarrow> (typ, Some None)
      | Some t \<Rightarrow> (typ, map_option Some (watcher_watch t dec (key_with_prefix prefix key) 0 recursive p)))"

definition filter_obj :: "'v watch_chan \<Rightarrow> 'v wobject \<Rightarrow> bool go" where
  "filter_obj wc obj = (case wc_filter wc of None \<Rightarrow> Some True | Some f \<Rightarrow> f obj)"

definition accept_all :: "'v watch_chan \<Rightarrow> bool" where
  "accept_all wc \<longleftrightarrow> wc_filter wc = None"

definition decode_obj :: "'v watch_chan \<Rightarrow> bytes \<Rightarrow> watch_error + 'v wobject" where
  "decode_obj wc d = map_sum WatchError (Object (Suc (wc_typ wc))) (wc_decode wc d)"

text \<open>The current and the old object.\<close>

definition prepare_objs :: "'v watch_chan \<Rightarrow> event \<Rightarrow> watch_error + 'v wobject \<times> 'v wobject" where
  "prepare_objs wc e =
     (case (if \<not> e_isDeleted e then decode_obj wc (e_value e) else Inr NilObject) of
        Inl err \<Rightarrow> Inl err
      | Inr cur \<Rightarrow>
          (case (if length (e_prevValue e) > 0 \<and> (e_isDeleted e \<or> \<not> accept_all wc)
                 then decode_obj wc (e_prevValue e) else Inr NilObject) of
             Inl err \<Rightarrow> Inl err
           | Inr old \<Rightarrow> Inr (cur, old)))"

text \<open>The event for the client, if there is one, or the error that is sent.\<close>

definition transform :: "'v watch_chan \<Rightarrow> event \<Rightarrow> (watch_error + 'v watch_event option) go" where
  "transform wc e =
     (case prepare_objs wc e of
        Inl err \<Rightarrow> Some (Inl err)
      | Inr (curObj, oldObj) \<Rightarrow>
          map_option Inr
            (if e_isDeleted e then
               map_option (\<lambda>ok. if ok then Some \<lparr>we_type = Deleted, we_key = e_key e, we_object = oldObj\<rparr> else None)
                 (filter_obj wc oldObj)
             else if e_isCreated e then
               map_option (\<lambda>ok. if ok then Some \<lparr>we_type = Added, we_key = e_key e, we_object = curObj\<rparr> else None)
                 (filter_obj wc curObj)
             else if accept_all wc then
               Some (Some \<lparr>we_type = Modified, we_key = e_key e, we_object = curObj\<rparr>)
             else
               do {
                 cur \<leftarrow> filter_obj wc curObj;
                 old \<leftarrow> filter_obj wc oldObj;
                 Some (if cur \<and> old then Some \<lparr>we_type = Modified, we_key = e_key e, we_object = curObj\<rparr>
                       else if cur \<and> \<not> old then Some \<lparr>we_type = Added, we_key = e_key e, we_object = curObj\<rparr>
                       else if \<not> cur \<and> old then Some \<lparr>we_type = Deleted, we_key = e_key e, we_object = oldObj\<rparr>
                       else None)
               }))"

definition ErrCodeUnreachable :: int where "ErrCodeUnreachable = 5"
definition ErrCodeUnknown :: int where "ErrCodeUnknown = 6"

definition error_text :: "watch_error \<Rightarrow> bytes" where
  "error_text e = (case e of WatchError b \<Rightarrow> b | Canceled \<Rightarrow> ''context canceled'' | Compacted b \<Rightarrow> b)"

definition parse_error :: "watch_error \<Rightarrow> 'v watch_event" where
  "parse_error err = \<lparr>we_type = ErrorEvent, we_key = [],
     we_object = StatusObject (case err of Compacted _ \<Rightarrow> ErrCodeUnreachable | _ \<Rightarrow> ErrCodeUnknown) (error_text err)\<rparr>"

subsection \<open>What is sent\<close>

text \<open>
  The calls of the etcd client: reading a key, or all keys with a prefix, with the revision of the answer, and
  reading one key at a revision.
\<close>

record watch_client =
  wl_range :: "bytes \<Rightarrow> bool \<Rightarrow> watch_error + int \<times> etcd_kv list"
  wl_get_at :: "bytes \<Rightarrow> int \<Rightarrow> watch_error + etcd_kv list"

text \<open>The loop of \<open>sync\<close>: the events sent, and the error it ends with.\<close>

fun sync_loop :: "watch_client \<Rightarrow> bytes \<Rightarrow> int \<Rightarrow> etcd_kv list \<Rightarrow> event list \<times> watch_error option" where
  "sync_loop cl key revn [] = ([], None)"
| "sync_loop cl key revn (kv # kvs) =
     (case wl_get_at cl (ek_key kv) revn of
        Inl err \<Rightarrow> ([], Some err)
      | Inr prev \<Rightarrow>
          (let prevVal = (case prev of [] \<Rightarrow> [] | p # _ \<Rightarrow> ek_value p);
               e = parse_kv kv prevVal;
               e = e\<lparr>e_key := trim_prefix (e_key e) key\<rparr>
           in case sync_loop cl key revn kvs of (es, err) \<Rightarrow> (e # es, err)))"

definition sync :: "watch_client \<Rightarrow> 'v watch_chan \<Rightarrow> 'v watch_chan \<times> event list \<times> watch_error option" where
  "sync cl wc =
     (case wl_range cl (wc_key wc) (wc_recursive wc) of
        Inl err \<Rightarrow> (wc, [], Some err)
      | Inr (revn, kvs) \<Rightarrow> (wc\<lparr>wc_initialRev := revn\<rparr>, sync_loop cl (wc_key wc) revn kvs))"

text \<open>
  \<open>startWatching\<close>: the answers of the watch are an error or some events; when they end without an error the
  channel is closed.
\<close>

fun watch_responses :: "(watch_error + etcd_event list) list \<Rightarrow> event list \<times> watch_error option" where
  "watch_responses [] = ([], None)"
| "watch_responses (Inl err # rs) = ([], Some err)"
| "watch_responses (Inr es # rs) = (case watch_responses rs of (es', err) \<Rightarrow> (map parse_event es @ es', err))"

definition start_watching ::
  "watch_client \<Rightarrow> (bytes \<Rightarrow> bool \<Rightarrow> int \<Rightarrow> (watch_error + etcd_event list) list) \<Rightarrow> 'v watch_chan
     \<Rightarrow> 'v watch_chan \<times> event list \<times> watch_error option" where
  "start_watching cl answers wc =
     (case (if wc_initialRev wc = 0 then sync cl wc else (wc, [], None)) of
        (wc1, es, Some err) \<Rightarrow> (wc1, es, Some err)
      | (wc1, es, None) \<Rightarrow>
          (case watch_responses (answers (wc_key wc1) (wc_recursive wc1) (wc_initialRev wc1 + 1)) of
             (es', err) \<Rightarrow> (wc1, es @ es', err)))"

end
