(* ===== verification/Watch_Props.thy ===== *)
theory Watch_Props
  imports Watch
begin

text \<open>
  What a client sees of a watch: replaying the events it gets by their keys yields the selected objects below
  the directory.  The laws of etcd's watch are hypotheses: every event carries the pair before it, a deletion
  is of a key that is there, and the create revision of a pair is its own revision exactly when the key was not
  there.
\<close>

subsection \<open>Replaying\<close>

text \<open>\<open>processEvent\<close> over a sequence of events: the errors sent and the events for the client.\<close>

fun process_events :: "'v watch_chan \<Rightarrow> event list \<Rightarrow> (watch_error list \<times> 'v watch_event list) go" where
  "process_events wc [] = Some ([], [])"
| "process_events wc (e # es) =
     do {
       r \<leftarrow> transform wc e;
       (errs, ws) \<leftarrow> process_events wc es;
       Some (case r of Inl err \<Rightarrow> (err # errs, ws) | Inr None \<Rightarrow> (errs, ws) | Inr (Some w) \<Rightarrow> (errs, w # ws))
     }"

definition replay :: "'v watch_event \<Rightarrow> (bytes \<rightharpoonup> 'v wobject) \<Rightarrow> (bytes \<rightharpoonup> 'v wobject)" where
  "replay w m =
     (case we_type w of Added \<Rightarrow> m(we_key w \<mapsto> we_object w) | Modified \<Rightarrow> m(we_key w \<mapsto> we_object w)
      | Deleted \<Rightarrow> m(we_key w := None) | ErrorEvent \<Rightarrow> m)"

lemma replay_simps [simp]:
  "replay \<lparr>we_type = Added, we_key = k, we_object = x\<rparr> m = m(k \<mapsto> x)"
  "replay \<lparr>we_type = Modified, we_key = k, we_object = x\<rparr> m = m(k \<mapsto> x)"
  "replay \<lparr>we_type = Deleted, we_key = k, we_object = x\<rparr> m = m(k := None)"
  by (simp_all add: replay_def)

definition view_after :: "etcd_event \<Rightarrow> (bytes \<rightharpoonup> bytes) \<Rightarrow> (bytes \<rightharpoonup> bytes)" where
  "view_after e v = (if ev_delete e then v(ek_key (ev_kv e) := None) else v(ek_key (ev_kv e) \<mapsto> ek_value (ev_kv e)))"

definition consistent :: "(bytes \<rightharpoonup> bytes) \<Rightarrow> etcd_event \<Rightarrow> bool" where
  "consistent v e \<longleftrightarrow> map_option ek_value (ev_prev e) = v (ek_key (ev_kv e))
     \<and> (if ev_delete e then v (ek_key (ev_kv e)) \<noteq> None
        else (ek_create (ev_kv e) = ek_mod (ev_kv e)) = (v (ek_key (ev_kv e)) = None))"

fun history :: "(bytes \<rightharpoonup> bytes) \<Rightarrow> etcd_event list \<Rightarrow> bool" where
  "history v [] \<longleftrightarrow> True"
| "history v (e # es) \<longleftrightarrow> consistent v e \<and> history (view_after e v) es"

definition passes :: "'v watch_chan \<Rightarrow> 'v wobject \<Rightarrow> bool" where
  "passes wc obj \<longleftrightarrow> filter_obj wc obj = Some True"

definition selected :: "'v watch_chan \<Rightarrow> (bytes \<rightharpoonup> bytes) \<Rightarrow> (bytes \<rightharpoonup> 'v wobject)" where
  "selected wc v k =
     (case v k of
        None \<Rightarrow> None
      | Some d \<Rightarrow>
          (case decode_obj wc d of Inl _ \<Rightarrow> None | Inr obj \<Rightarrow> if passes wc obj then Some obj else None))"

text \<open>A value that is not empty and can be decoded.\<close>

definition good :: "'v watch_chan \<Rightarrow> bytes \<Rightarrow> bool" where
  "good wc d \<longleftrightarrow> d \<noteq> [] \<and> \<not> isl (wc_decode wc d)"

lemma good_obj: "good wc d \<Longrightarrow> \<exists>obj. decode_obj wc d = Inr obj \<and> d \<noteq> []"
  by (cases "wc_decode wc d") (auto simp: good_def decode_obj_def)

lemma filter_passes: "filter_obj wc obj \<noteq> None \<Longrightarrow> filter_obj wc obj = Some (passes wc obj)"
  by (auto simp: passes_def)

lemma accept_all_passes: "accept_all wc \<Longrightarrow> passes wc obj"
  by (simp add: accept_all_def passes_def filter_obj_def)

lemma transform_step:
  assumes "\<forall>obj. filter_obj wc obj \<noteq> None" "consistent v e" "\<forall>d \<in> ran v. good wc d"
    "\<not> ev_delete e \<longrightarrow> good wc (ek_value (ev_kv e))"
  shows "\<exists>r. transform wc (parse_event e) = Some (Inr r)
    \<and> (case r of None \<Rightarrow> selected wc v | Some w \<Rightarrow> replay w (selected wc v)) = selected wc (view_after e v)
    \<and> (\<forall>w. r = Some w \<longrightarrow> we_type w \<noteq> ErrorEvent \<and> we_key w = ek_key (ev_kv e)
         \<and> (\<exists>d. decode_obj wc d = Inr (we_object w)
              \<and> (\<not> ev_delete e \<and> d = ek_value (ev_kv e) \<or> v (ek_key (ev_kv e)) = Some d)))"
proof -
  let ?k = "ek_key (ev_kv e)"
  note f = filter_passes [of wc, OF assms(1) [rule_format]]
  consider (del) prev where "ev_delete e" "v ?k = Some (ek_value prev)" "ev_prev e = Some prev"
    | (new) "\<not> ev_delete e" "ek_create (ev_kv e) = ek_mod (ev_kv e)" "v ?k = None" "ev_prev e = None"
    | (upd) prev where "\<not> ev_delete e" "ek_create (ev_kv e) \<noteq> ek_mod (ev_kv e)" "v ?k = Some (ek_value prev)" "ev_prev e = Some prev"
    using assms(2) by (cases "ev_delete e"; cases "ev_prev e"; cases "v ?k") (auto simp: consistent_def)
  then show ?thesis
  proof cases
    case del
    then have "good wc (ek_value prev)" using assms(3) by (metis ranI)
    then obtain obj where obj: "decode_obj wc (ek_value prev) = Inr obj" "ek_value prev \<noteq> []" using good_obj by blast
    have "transform wc (parse_event e) = Some (Inr (if passes wc obj
        then Some \<lparr>we_type = Deleted, we_key = ?k, we_object = obj\<rparr> else None))"
      using del obj by (simp add: transform_def prepare_objs_def parse_event_def f)
    moreover have "(if passes wc obj then (selected wc v)(?k := None) else selected wc v) = selected wc (view_after e v)"
      using del obj by (auto simp: selected_def view_after_def fun_eq_iff)
    ultimately show ?thesis using del obj by auto
  next
    case new
    then obtain obj where obj: "decode_obj wc (ek_value (ev_kv e)) = Inr obj" using assms(4) good_obj by blast
    have "transform wc (parse_event e) = Some (Inr (if passes wc obj
        then Some \<lparr>we_type = Added, we_key = ?k, we_object = obj\<rparr> else None))"
      using new obj by (simp add: transform_def prepare_objs_def parse_event_def f ev_is_create_def)
    moreover have "(if passes wc obj then (selected wc v)(?k \<mapsto> obj) else selected wc v) = selected wc (view_after e v)"
      using new obj by (auto simp: selected_def view_after_def fun_eq_iff)
    ultimately show ?thesis using new obj by auto
  next
    case upd
    then have "good wc (ek_value prev)" using assms(3) by (metis ranI)
    then obtain old where old: "decode_obj wc (ek_value prev) = Inr old" "ek_value prev \<noteq> []" using good_obj by blast
    obtain obj where obj: "decode_obj wc (ek_value (ev_kv e)) = Inr obj" using upd assms(4) good_obj by blast
    have t: "transform wc (parse_event e) = Some (Inr
        (if passes wc obj \<and> passes wc old then Some \<lparr>we_type = Modified, we_key = ?k, we_object = obj\<rparr>
         else if passes wc obj then Some \<lparr>we_type = Added, we_key = ?k, we_object = obj\<rparr>
         else if passes wc old then Some \<lparr>we_type = Deleted, we_key = ?k, we_object = old\<rparr> else None))"
      using upd obj old
      by (cases "accept_all wc")
        (simp_all add: transform_def prepare_objs_def parse_event_def f ev_is_create_def accept_all_passes)
    have "(if passes wc obj then (selected wc v)(?k \<mapsto> obj) else (selected wc v)(?k := None)) = selected wc (view_after e v)"
      using upd obj by (auto simp: selected_def view_after_def fun_eq_iff)
    moreover have "\<not> passes wc old \<Longrightarrow> (selected wc v)(?k := None) = selected wc v"
      using upd old by (auto simp: selected_def fun_eq_iff)
    ultimately show ?thesis using upd obj old unfolding t by (auto split: if_splits)
  qed
qed

lemma view_after_good:
  assumes "\<forall>d \<in> ran v. good wc d" "\<not> ev_delete e \<longrightarrow> good wc (ek_value (ev_kv e))"
  shows "\<forall>d \<in> ran (view_after e v). good wc d"
  using assms by (auto simp: view_after_def ran_def split: if_splits)

lemma process_history:
  assumes "\<forall>obj. filter_obj wc obj \<noteq> None"
  shows "history v es \<Longrightarrow> \<forall>d \<in> ran v. good wc d \<Longrightarrow> \<forall>e \<in> set es. \<not> ev_delete e \<longrightarrow> good wc (ek_value (ev_kv e)) \<Longrightarrow>
    \<exists>ws. process_events wc (map parse_event es) = Some ([], ws)
      \<and> fold replay ws (selected wc v) = selected wc (fold view_after es v)
      \<and> we_key ` set ws \<subseteq> (\<lambda>e. ek_key (ev_kv e)) ` set es"
proof (induction es arbitrary: v)
  case (Cons e es)
  obtain r where r: "transform wc (parse_event e) = Some (Inr r)"
    "(case r of None \<Rightarrow> selected wc v | Some w \<Rightarrow> replay w (selected wc v)) = selected wc (view_after e v)"
    "\<forall>w. r = Some w \<longrightarrow> we_key w = ek_key (ev_kv e)"
    using transform_step [OF assms, of v e] Cons.prems by auto
  have "\<forall>d \<in> ran (view_after e v). good wc d" using Cons.prems by (intro view_after_good) auto
  then obtain ws where ws: "process_events wc (map parse_event es) = Some ([], ws)"
    "fold replay ws (selected wc (view_after e v)) = selected wc (fold view_after es (view_after e v))"
    "we_key ` set ws \<subseteq> (\<lambda>e. ek_key (ev_kv e)) ` set es"
    using Cons.IH [of "view_after e v"] Cons.prems by auto
  show ?case
    using r ws by (cases r) auto
qed simp

lemma process_append:
  "process_events wc xs = Some ([], us) \<Longrightarrow> process_events wc ys = Some ([], vs) \<Longrightarrow> process_events wc (xs @ ys) = Some ([], us @ vs)"
  by (induction xs arbitrary: us) (fastforce split: bind_splits sum.splits option.splits)+

subsection \<open>Listing what is there\<close>

text \<open>The pairs of a listing, and the values they have; a read of one of them at its revision gives it back.\<close>

definition listing_ok :: "watch_client \<Rightarrow> bytes \<Rightarrow> (bytes \<rightharpoonup> bytes) \<Rightarrow> int \<Rightarrow> etcd_kv list \<Rightarrow> bool" where
  "listing_ok cl key v revn kvs \<longleftrightarrow>
     (\<forall>kv \<in> set kvs. has_prefix (ek_key kv) key \<and> v (ek_key kv) = Some (ek_value kv) \<and> wl_get_at cl (ek_key kv) revn = Inr [kv])
     \<and> (\<forall>k d. has_prefix k key \<longrightarrow> v k = Some d \<longrightarrow> (\<exists>kv \<in> set kvs. ek_key kv = k))"

lemma transform_listed:
  assumes "\<forall>obj. filter_obj wc obj \<noteq> None" "decode_obj wc (ek_value kv) = Inr obj" "ek_value kv \<noteq> []"
  shows "transform wc ((parse_kv kv (ek_value kv))\<lparr>e_key := n\<rparr>) = Some (Inr (if passes wc obj
      then Some \<lparr>we_type = (if ek_mod kv = ek_create kv then Added else Modified), we_key = n, we_object = obj\<rparr> else None))"
  using assms(2,3) filter_passes [of wc, OF assms(1) [rule_format]]
  by (cases "accept_all wc") (auto simp: transform_def prepare_objs_def parse_kv_def accept_all_passes)

lemma sync_loop_replay:
  assumes "\<forall>obj. filter_obj wc obj \<noteq> None"
  shows "\<forall>kv \<in> set kvs. good wc (ek_value kv) \<and> wl_get_at cl (ek_key kv) revn = Inr [kv] \<Longrightarrow>
    \<exists>es ws. sync_loop cl key revn kvs = (es, None) \<and> process_events wc es = Some ([], ws)
      \<and> (\<forall>m. fold replay ws m = fold (\<lambda>kv m. case decode_obj wc (ek_value kv) of Inl _ \<Rightarrow> m
           | Inr obj \<Rightarrow> if passes wc obj then m(trim_prefix (ek_key kv) key \<mapsto> obj) else m) kvs m)
      \<and> we_key ` set ws \<subseteq> (\<lambda>kv. trim_prefix (ek_key kv) key) ` set kvs"
proof (induction kvs)
  case (Cons kv kvs)
  obtain es ws where IH: "sync_loop cl key revn kvs = (es, None)" "process_events wc es = Some ([], ws)"
    "\<forall>m. fold replay ws m = fold (\<lambda>kv m. case decode_obj wc (ek_value kv) of Inl _ \<Rightarrow> m
           | Inr obj \<Rightarrow> if passes wc obj then m(trim_prefix (ek_key kv) key \<mapsto> obj) else m) kvs m"
    "we_key ` set ws \<subseteq> (\<lambda>kv. trim_prefix (ek_key kv) key) ` set kvs"
    using Cons by auto
  obtain obj where obj: "decode_obj wc (ek_value kv) = Inr obj" "ek_value kv \<noteq> []"
    using Cons.prems good_obj [of wc "ek_value kv"] by auto
  have g: "wl_get_at cl (ek_key kv) revn = Inr [kv]" using Cons.prems by simp
  let ?e = "(parse_kv kv (ek_value kv))\<lparr>e_key := trim_prefix (ek_key kv) key\<rparr>"
  have k: "e_key (parse_kv kv d) = ek_key kv" for d by (simp add: parse_kv_def)
  have s: "sync_loop cl key revn (kv # kvs) = (?e # es, None)" using g IH(1) by (simp add: Let_def k)
  note t = transform_listed [OF assms obj, of "trim_prefix (ek_key kv) key"]
  show ?case
    using s IH(2-4) t obj by (cases "passes wc obj") (auto split: if_splits)
qed simp

lemma fold_listed:
  assumes "\<forall>kv \<in> set kvs. has_prefix (ek_key kv) key \<and> v (ek_key kv) = Some (ek_value kv)"
  shows "fold (\<lambda>kv m. case decode_obj wc (ek_value kv) of Inl _ \<Rightarrow> m
           | Inr obj \<Rightarrow> if passes wc obj then m(trim_prefix (ek_key kv) key \<mapsto> obj) else m) kvs m n =
    (if selected wc v (key @ n) \<noteq> None \<and> (\<exists>kv \<in> set kvs. ek_key kv = key @ n) then selected wc v (key @ n) else m n)"
  using assms
proof (induction kvs arbitrary: m)
  case (Cons kv kvs)
  obtain t where t: "ek_key kv = key @ t" using Cons.prems by (auto simp: has_prefix_iff)
  have "trim_prefix (ek_key kv) key = t" by (simp add: t trim_prefix_def has_prefix_iff)
  then show ?case
    using Cons t by (auto simp: selected_def split: sum.splits)
qed simp

subsection \<open>Properties\<close>

definition plain_kv :: "bytes \<Rightarrow> bytes \<Rightarrow> int \<Rightarrow> int \<Rightarrow> etcd_kv" where
  "plain_kv k d c m = \<lparr>ek_key = k, ek_value = d, ek_create = c, ek_mod = m\<rparr>"

text \<open>A watch of texts that selects those that start with \<open>u\<close>.\<close>

definition text_chan :: "bytes watch_chan" where
  "text_chan = \<lparr>wc_typ = 0, wc_decode = Inr, wc_key = ''/d/'', wc_initialRev = 0, wc_recursive = True,
     wc_filter = Some (\<lambda>obj. Some (case obj of Object _ (c # _) \<Rightarrow> c = CHR ''u'' | _ \<Rightarrow> False))\<rparr>"

text \<open>
  what a watch sends first is exactly what is there: replaying the events of \<open>sync\<close> gives the selected
  objects below the directory, under their names relative to it.
\<close>

theorem sync_exact:
  assumes "\<forall>obj. filter_obj wc obj \<noteq> None" "\<forall>d \<in> ran v. good wc d"
    "wl_range cl (wc_key wc) (wc_recursive wc) = Inr (revn, kvs)" "listing_ok cl (wc_key wc) v revn kvs"
  shows "\<exists>es ws. sync cl wc = (wc\<lparr>wc_initialRev := revn\<rparr>, es, None) \<and> process_events wc es = Some ([], ws)
    \<and> fold replay ws Map.empty n = selected wc v (wc_key wc @ n)"
proof -
  have kvs: "\<forall>kv \<in> set kvs. good wc (ek_value kv) \<and> wl_get_at cl (ek_key kv) revn = Inr [kv]"
    "\<forall>kv \<in> set kvs. has_prefix (ek_key kv) (wc_key wc) \<and> v (ek_key kv) = Some (ek_value kv)"
    using assms(2,4) by (auto simp: listing_ok_def intro: ranI)
  have all: "selected wc v (wc_key wc @ n) \<noteq> None \<Longrightarrow> \<exists>kv \<in> set kvs. ek_key kv = wc_key wc @ n"
    using assms(4) by (auto simp: listing_ok_def selected_def has_prefix_iff split: option.splits)
  obtain es ws where "sync_loop cl (wc_key wc) revn kvs = (es, None)" "process_events wc es = Some ([], ws)"
    "fold replay ws Map.empty n = (if selected wc v (wc_key wc @ n) \<noteq> None \<and> (\<exists>kv \<in> set kvs. ek_key kv = wc_key wc @ n)
       then selected wc v (wc_key wc @ n) else None)"
    using sync_loop_replay [OF assms(1) kvs(1), of "wc_key wc"] fold_listed [OF kvs(2), of wc Map.empty n] by auto
  then show ?thesis using all assms(3) by (cases "selected wc v (wc_key wc @ n)") (auto simp: sync_def)
qed

definition text_client :: watch_client where
  "text_client = \<lparr>wl_range = \<lambda>k r. Inr (5, [plain_kv ''/d/a'' ''up'' 3 4]), wl_get_at = \<lambda>k r. Inr [plain_kv ''/d/a'' ''up'' 3 4]\<rparr>"

lemma text_chan_total: "\<forall>obj. filter_obj text_chan obj \<noteq> None"
  by (simp add: text_chan_def filter_obj_def)

lemma text_selected: "selected text_chan [''/d/a'' \<mapsto> ''up''] ''/d/a'' = Some (Object 1 ''up'')"
  by (simp add: selected_def text_chan_def decode_obj_def passes_def filter_obj_def)

lemma text_listing:
  "wl_range text_client (wc_key text_chan) (wc_recursive text_chan) = Inr (5, [plain_kv ''/d/a'' ''up'' 3 4])"
  "listing_ok text_client (wc_key text_chan) [''/d/a'' \<mapsto> ''up''] 5 [plain_kv ''/d/a'' ''up'' 3 4]"
  "\<forall>d \<in> ran [''/d/a'' \<mapsto> ''up'']. good text_chan d"
  by (auto simp: text_client_def text_chan_def listing_ok_def plain_kv_def has_prefix_def good_def split: if_splits)

theorem sync_exact_witness:
  "\<exists>es ws. sync text_client text_chan = (text_chan\<lparr>wc_initialRev := 5\<rparr>, es, None)
   \<and> process_events text_chan es = Some ([], ws) \<and> fold replay ws Map.empty ''a'' = Some (Object 1 ''up'')"
  using sync_exact [OF text_chan_total text_listing(3,1,2), of "''a''"] text_selected by (simp add: text_chan_def)

subsection \<open>A client that keeps in step\<close>

text \<open>A client that takes the directory from the keys it gets.\<close>

definition replay_in :: "bytes \<Rightarrow> 'v watch_event \<Rightarrow> (bytes \<rightharpoonup> 'v wobject) \<Rightarrow> (bytes \<rightharpoonup> 'v wobject)" where
  "replay_in dir w = replay (w\<lparr>we_key := trim_prefix (we_key w) dir\<rparr>)"

lemma replay_in_short: "trim_prefix (we_key w) dir = we_key w \<Longrightarrow> replay_in dir w m = replay w m"
  by (simp add: replay_in_def)

lemma fold_replay_in_short:
  "\<forall>k \<in> we_key ` set ws. trim_prefix k dir = k \<Longrightarrow> fold (replay_in dir) ws m = fold replay ws m"
  by (induction ws arbitrary: m) (simp_all add: replay_in_short)

lemma fold_replay_in_below:
  assumes "\<forall>k \<in> we_key ` set ws. has_prefix k dir" "\<forall>n. m n = M (dir @ n)"
  shows "fold (replay_in dir) ws m n = fold replay ws M (dir @ n)"
  using assms
proof (induction ws arbitrary: m M)
  case (Cons w ws)
  obtain k where k: "we_key w = dir @ k" using Cons.prems(1) by (auto simp: has_prefix_iff)
  have st: "\<forall>k. replay_in dir w m k = replay w M (dir @ k)"
    using Cons.prems(2) by (auto simp: replay_in_def replay_def k split: event_type.split)
  have "fold (replay_in dir) ws (replay_in dir w m) n = fold replay ws (replay w M) (dir @ n)"
    by (rule Cons.IH [where m = "replay_in dir w m" and M = "replay w M", OF _ st]) (use Cons.prems(1) in \<open>simp\<close>)
  then show ?case by simp
qed simp

text \<open>The listing, replayed by a client that takes the directory from the keys.\<close>

lemma sync_replay_in:
  assumes "\<forall>obj. filter_obj wc obj \<noteq> None" "\<forall>d \<in> ran v. good wc d" "listing_ok cl (wc_key wc) v revn kvs"
    "\<forall>n. v (wc_key wc @ n) \<noteq> None \<longrightarrow> \<not> has_prefix n (wc_key wc)"
  obtains es ws where "sync_loop cl (wc_key wc) revn kvs = (es, None)" "process_events wc es = Some ([], ws)"
    "\<And>n. fold (replay_in (wc_key wc)) ws Map.empty n = selected wc v (wc_key wc @ n)"
proof -
  let ?dir = "wc_key wc"
  have kvs: "\<forall>kv \<in> set kvs. good wc (ek_value kv) \<and> wl_get_at cl (ek_key kv) revn = Inr [kv]"
    "\<forall>kv \<in> set kvs. has_prefix (ek_key kv) ?dir \<and> v (ek_key kv) = Some (ek_value kv)"
    using assms(2,3) by (auto simp: listing_ok_def intro: ranI)
  have all: "selected wc v (?dir @ n) \<noteq> None \<Longrightarrow> \<exists>kv \<in> set kvs. ek_key kv = ?dir @ n" for n
    using assms(3) by (auto simp: listing_ok_def selected_def has_prefix_iff split: option.splits)
  obtain es ws where l: "sync_loop cl ?dir revn kvs = (es, None)" "process_events wc es = Some ([], ws)"
    "\<forall>m. fold replay ws m = fold (\<lambda>kv m. case decode_obj wc (ek_value kv) of Inl _ \<Rightarrow> m
       | Inr obj \<Rightarrow> if passes wc obj then m(trim_prefix (ek_key kv) ?dir \<mapsto> obj) else m) kvs m"
    "we_key ` set ws \<subseteq> (\<lambda>kv. trim_prefix (ek_key kv) ?dir) ` set kvs"
    using sync_loop_replay [OF assms(1) kvs(1), of ?dir] by auto
  have "trim_prefix (trim_prefix (ek_key kv) ?dir) ?dir = trim_prefix (ek_key kv) ?dir" if "kv \<in> set kvs" for kv
  proof -
    obtain n where "ek_key kv = ?dir @ n" using kvs(2) \<open>kv \<in> set kvs\<close> by (auto simp: has_prefix_iff)
    moreover from this have "\<not> has_prefix n ?dir" using kvs(2) assms(4) \<open>kv \<in> set kvs\<close> by (metis option.distinct(1))
    ultimately show ?thesis by simp (simp add: trim_prefix_def)
  qed
  then have "fold (replay_in ?dir) ws m = fold replay ws m" for m
    using l(4) by (intro fold_replay_in_short) auto
  then have "fold (replay_in ?dir) ws Map.empty n = selected wc v (?dir @ n)" for n
    using l(3) fold_listed [OF kvs(2), of wc Map.empty n] all [of n] by (cases "selected wc v (?dir @ n)") auto
  then show thesis using that l(1,2) by blast
qed

text \<open>
  C5: a client that starts with nothing, takes the directory from the keys of the events of a recursive watch and replays
  them keeps in step with etcd: after the listing and any history of writes and deletions below the directory it has
  exactly the objects of the current state that the predicate selects, under their names in the directory, also when an
  object starts or stops to match.  This is for values that can be decoded, a filter that does not panic, and names that
  do not begin with the directory once more.  (A client that uses the keys as they come does not:
  \<open>deleted_object_stays\<close>.)
\<close>

theorem watch_refines:
  assumes "\<forall>obj. filter_obj wc obj \<noteq> None" "\<forall>d \<in> ran v. good wc d" "wc_initialRev wc = 0"
    "wl_range cl (wc_key wc) (wc_recursive wc) = Inr (revn, kvs)" "listing_ok cl (wc_key wc) v revn kvs"
    "\<forall>n. v (wc_key wc @ n) \<noteq> None \<longrightarrow> \<not> has_prefix n (wc_key wc)"
    "answers (wc_key wc) (wc_recursive wc) (revn + 1) = map Inr ess" "history v (concat ess)"
    "\<forall>e \<in> set (concat ess). has_prefix (ek_key (ev_kv e)) (wc_key wc) \<and> (\<not> ev_delete e \<longrightarrow> good wc (ek_value (ev_kv e)))"
  shows "\<exists>wc' es ws. start_watching cl answers wc = (wc', es, None) \<and> process_events wc es = Some ([], ws)
    \<and> (\<forall>n. fold (replay_in (wc_key wc)) ws Map.empty n = selected wc (fold view_after (concat ess) v) (wc_key wc @ n))"
proof -
  let ?dir = "wc_key wc"
  obtain es1 ws1 where l: "sync_loop cl ?dir revn kvs = (es1, None)" "process_events wc es1 = Some ([], ws1)"
    and first: "\<And>n. fold (replay_in ?dir) ws1 Map.empty n = selected wc v (?dir @ n)"
    using sync_replay_in [OF assms(1,2,5,6)] by blast
  obtain ws2 where h: "process_events wc (map parse_event (concat ess)) = Some ([], ws2)"
    "fold replay ws2 (selected wc v) = selected wc (fold view_after (concat ess) v)"
    "we_key ` set ws2 \<subseteq> (\<lambda>e. ek_key (ev_kv e)) ` set (concat ess)"
    using process_history [OF assms(1,8,2)] assms(9) by blast
  have "\<forall>k \<in> we_key ` set ws2. has_prefix k ?dir"
  proof
    fix k assume "k \<in> we_key ` set ws2"
    then obtain e where "e \<in> set (concat ess)" "k = ek_key (ev_kv e)" using h(3) by (meson imageE subsetD)
    then show "has_prefix k ?dir" using assms(9) by metis
  qed
  then have second: "fold (replay_in ?dir) ws2 (fold (replay_in ?dir) ws1 Map.empty) n = fold replay ws2 (selected wc v) (?dir @ n)" for n
    using first by (intro fold_replay_in_below) auto
  have resp: "watch_responses (map Inr ess) = (map parse_event (concat ess), None)"
    by (induction ess) auto
  have "start_watching cl answers wc = (wc\<lparr>wc_initialRev := revn\<rparr>, es1 @ map parse_event (concat ess), None)"
    using assms(3,4,7) l(1) resp by (simp add: start_watching_def sync_def)
  moreover have "process_events wc (es1 @ map parse_event (concat ess)) = Some ([], ws1 @ ws2)"
    by (rule process_append [OF l(2) h(1)])
  ultimately show ?thesis using second h(2) by auto
qed

theorem watch_refines_witness:
  "\<exists>wc' es ws. start_watching text_client (\<lambda>k r n. [Inr [\<lparr>ev_delete = False, ev_kv = plain_kv ''/d/a'' ''down'' 3 6,
       ev_prev = Some (plain_kv ''/d/a'' ''up'' 3 4)\<rparr>]]) text_chan = (wc', es, None)
   \<and> process_events text_chan es = Some ([], ws) \<and> fold (replay_in ''/d/'') ws Map.empty ''a'' = None"
proof -
  let ?e = "\<lparr>ev_delete = False, ev_kv = plain_kv ''/d/a'' ''down'' 3 6, ev_prev = Some (plain_kv ''/d/a'' ''up'' 3 4)\<rparr>"
  have n: "\<forall>n. [''/d/a'' \<mapsto> ''up''] (wc_key text_chan @ n) \<noteq> None \<longrightarrow> \<not> has_prefix n (wc_key text_chan)"
    by (auto simp: text_chan_def has_prefix_def split: if_splits)
  have h: "history [''/d/a'' \<mapsto> ''up''] (concat [[?e]])" by (simp add: consistent_def plain_kv_def)
  have g: "\<forall>e \<in> set (concat [[?e]]). has_prefix (ek_key (ev_kv e)) (wc_key text_chan) \<and> (\<not> ev_delete e \<longrightarrow> good text_chan (ek_value (ev_kv e)))"
    by (simp add: plain_kv_def text_chan_def has_prefix_def good_def)
  have r: "wc_initialRev text_chan = 0" "wc_key text_chan = ''/d/''" by (simp_all add: text_chan_def)
  have f: "selected text_chan (fold view_after (concat [[?e]]) [''/d/a'' \<mapsto> ''up'']) ''/d/a'' = None"
    by (simp add: selected_def text_chan_def decode_obj_def passes_def filter_obj_def view_after_def plain_kv_def)
  obtain wc' es ws where w: "start_watching text_client (\<lambda>k r n. [Inr [?e]]) text_chan = (wc', es, None)"
    "process_events text_chan es = Some ([], ws)"
    "\<forall>n. fold (replay_in ''/d/'') ws Map.empty n = selected text_chan (fold view_after (concat [[?e]]) [''/d/a'' \<mapsto> ''up'']) (''/d/'' @ n)"
    using watch_refines [OF text_chan_total text_listing(3) r(1) text_listing(1,2) n _ h g, of "\<lambda>k r n. [Inr [?e]]"] unfolding r(2) by auto
  then have "fold (replay_in ''/d/'') ws Map.empty ''a'' = None" using f by simp
  then show ?thesis using w(1,2) by blast
qed

text \<open>
  the keys of one watch are of two kinds: those of the first listing are stripped of the directory, those of
  later events are not.  A client that replays the events by their keys keeps an object that was listed and then
  deleted.
\<close>

theorem deleted_object_stays:
  assumes "\<forall>obj. filter_obj wc obj \<noteq> None" "\<forall>d \<in> ran v. good wc d" "wc_initialRev wc = 0"
    "wl_range cl (wc_key wc) (wc_recursive wc) = Inr (revn, kvs)" "listing_ok cl (wc_key wc) v revn kvs"
    "selected wc v (wc_key wc @ n) = Some obj" "wc_key wc \<noteq> []"
    "answers (wc_key wc) (wc_recursive wc) (revn + 1) = [Inr [e]]"
    "ev_delete e" "ek_key (ev_kv e) = wc_key wc @ n" "consistent v e"
  shows "\<exists>wc' es ws. start_watching cl answers wc = (wc', es, None) \<and> process_events wc es = Some ([], ws)
    \<and> fold replay ws Map.empty n = Some obj \<and> view_after e v (wc_key wc @ n) = None"
proof -
  have kvs: "\<forall>kv \<in> set kvs. good wc (ek_value kv) \<and> wl_get_at cl (ek_key kv) revn = Inr [kv]"
    "\<forall>kv \<in> set kvs. has_prefix (ek_key kv) (wc_key wc) \<and> v (ek_key kv) = Some (ek_value kv)"
    using assms(2,5) by (auto simp: listing_ok_def intro: ranI)
  have all: "\<exists>kv \<in> set kvs. ek_key kv = wc_key wc @ n"
    using assms(5,6) by (auto simp: listing_ok_def selected_def has_prefix_iff split: option.splits)
  obtain es ws where s: "sync_loop cl (wc_key wc) revn kvs = (es, None)" "process_events wc es = Some ([], ws)"
    "fold replay ws Map.empty n = Some obj"
    using sync_loop_replay [OF assms(1) kvs(1), of "wc_key wc"] fold_listed [OF kvs(2), of wc Map.empty n] all assms(6)
    by auto
  obtain r where r: "transform wc (parse_event e) = Some (Inr r)" "\<And>w. r = Some w \<Longrightarrow> we_key w = wc_key wc @ n \<and> we_type w = Deleted"
  proof -
    obtain prev where prev: "v (wc_key wc @ n) = Some (ek_value prev)" "ev_prev e = Some prev"
      using assms(9-11) by (cases "ev_prev e") (auto simp: consistent_def)
    then have "good wc (ek_value prev)" using assms(2) by (metis ranI)
    then obtain old where "decode_obj wc (ek_value prev) = Inr old" "ek_value prev \<noteq> []" using good_obj by blast
    then have "transform wc (parse_event e) = Some (Inr (if passes wc old
        then Some \<lparr>we_type = Deleted, we_key = wc_key wc @ n, we_object = old\<rparr> else None))"
      using assms(9,10) prev filter_passes [of wc, OF assms(1) [rule_format]]
      by (simp add: transform_def prepare_objs_def parse_event_def)
    then show thesis by (rule that) (auto split: if_splits)
  qed
  have "process_events wc [parse_event e] = Some ([], case r of None \<Rightarrow> [] | Some w \<Rightarrow> [w])"
    using r(1) by (auto split: option.split)
  note p = process_append [OF s(2) this]
  have "fold replay (ws @ (case r of None \<Rightarrow> [] | Some w \<Rightarrow> [w])) Map.empty n = Some obj"
    using s(3) r(2) assms(7) by (auto simp: replay_def split: option.split)
  moreover have "view_after e v (wc_key wc @ n) = None" using assms(9,10) by (simp add: view_after_def)
  ultimately show ?thesis using s(1) p assms(3,4,8) by (auto simp: start_watching_def sync_def)
qed

theorem deleted_object_stays_witness:
  "\<exists>wc' es ws. start_watching text_client (\<lambda>k r n. [Inr [\<lparr>ev_delete = True, ev_kv = plain_kv ''/d/a'' [] 0 6,
       ev_prev = Some (plain_kv ''/d/a'' ''up'' 3 4)\<rparr>]]) text_chan = (wc', es, None)
   \<and> process_events text_chan es = Some ([], ws) \<and> fold replay ws Map.empty ''a'' = Some (Object 1 ''up'')"
proof -
  let ?e = "\<lparr>ev_delete = True, ev_kv = plain_kv ''/d/a'' [] 0 6, ev_prev = Some (plain_kv ''/d/a'' ''up'' 3 4)\<rparr>"
  show ?thesis
    using deleted_object_stays [OF text_chan_total text_listing(3) _ text_listing(1,2), of "''a''" "Object 1 ''up''"
        "\<lambda>k r n. [Inr [?e]]" ?e] text_selected
    by (simp add: text_chan_def plain_kv_def consistent_def) blast
qed

end
