(* ===== verification/Instances.thy ===== *)
theory Instances
  imports Watch_Props
begin

text \<open>
  What the controllers know of instances and of deployment configurations
  (\<open>controllers/types/impl/instance.go\<close>, \<open>dc.go\<close>, \<open>types/instance.go\<close>, \<open>types/ins/registry/resource.go\<close>): caches
  that are filled from the store and follow its events.
\<close>

subsection \<open>Instances\<close>

definition LCStarting :: string where "LCStarting = ''starting''"
definition LCRunning :: string where "LCRunning = ''running''"
definition LCStopping :: string where "LCStopping = ''stopping''"
definition LCStopped :: string where "LCStopped = ''stopped''"

lemmas life_cycle_defs = LCStarting_def LCRunning_def LCStopping_def LCStopped_def

text \<open>Times are nanoseconds.  Resource usage and the private part are left out.\<close>

record instance_info =
  ins_projecType :: bytes
  ins_ID :: bytes
  ins_pid :: int
  ins_deployName :: bytes
  ins_user :: bytes
  ins_hostID :: bytes
  ins_host :: bytes
  ins_ip :: bytes
  ins_stage :: stage
  ins_serviceType :: string
  ins_version :: bytes
  ins_startTime :: int
  ins_stopTime :: int
  ins_updateTime :: int
  ins_lifeCycle :: string
  ins_listening :: "(bytes \<times> int) list"
  ins_status :: string
  ins_conditions :: "(string \<times> bytes) list"
  ins_events :: "(string \<times> bytes) list"

definition ins_deploy_key :: "instance_info \<Rightarrow> bytes" where
  "ins_deploy_key ins = ins_projecType ins @ ''/'' @ ins_deployName ins"

text \<open>The conversion of an integer to a string is the UTF-8 encoding of that character.\<close>

definition rune_string :: "int \<Rightarrow> bytes" where
  "rune_string n =
     (let r = (if n < 0 \<or> n > 0x10FFFF \<or> (0xD800 \<le> n \<and> n \<le> 0xDFFF) then 0xFFFD else nat n);
          c = (\<lambda>k. char_of (0x80 + (r div k) mod 64))
      in if r < 0x80 then [char_of r]
         else if r < 0x800 then [char_of (0xC0 + r div 64), c 1]
         else if r < 0x10000 then [char_of (0xE0 + r div 4096), c 64, c 1]
         else [char_of (0xF0 + r div 262144), c 4096, c 64, c 1])"

definition stop_cmd_args :: "instance_info \<Rightarrow> bytes list" where
  "stop_cmd_args ins = [ins_projecType ins, ins_deployName ins, rune_string (ins_pid ins)]"

record ins_manager =
  im_stage :: stage
  im_instances :: "(bytes, (bytes, instance_info) fmap) fmap"

definition new_infor :: "stage \<Rightarrow> ins_manager" where
  "new_infor st = \<lparr>im_stage = st, im_instances = fmempty\<rparr>"

definition get_instance :: "ins_manager \<Rightarrow> bytes \<Rightarrow> bytes \<Rightarrow> instance_info option" where
  "get_instance m key insID =
     (case fmlookup (im_instances m) key of
        None \<Rightarrow> None
      | Some s \<Rightarrow> if s = fmempty then None else fmlookup s insID)"

definition running_instance :: "ins_manager \<Rightarrow> bytes \<Rightarrow> (bytes, instance_info) gmap" where
  "running_instance m key =
     (case fmlookup (im_instances m) key of
        None \<Rightarrow> None
      | Some s \<Rightarrow> Some (fmfilter (\<lambda>k. ins_lifeCycle (the (fmlookup s k)) \<noteq> LCStopped) s))"

definition recent_stopped_instance :: "ins_manager \<Rightarrow> bytes \<Rightarrow> (bytes, instance_info) gmap" where
  "recent_stopped_instance m key =
     (case fmlookup (im_instances m) key of None \<Rightarrow> None | Some s \<Rightarrow> Some s)"

text \<open>The lists come in the order \<open>ks\<close> of the loop over the map.\<close>

definition new_started_instance :: "ins_manager \<Rightarrow> bytes list \<Rightarrow> int \<Rightarrow> bytes \<Rightarrow> int \<Rightarrow> instance_info list" where
  "new_started_instance m ks now key d =
     (let tmp = running_instance m key
      in filter (\<lambda>v. ins_startTime v + d > now) (map (\<lambda>k. the (gm_look tmp k)) ks))"

definition new_stopped_instance :: "ins_manager \<Rightarrow> bytes list \<Rightarrow> int \<Rightarrow> bytes \<Rightarrow> int \<Rightarrow> instance_info list" where
  "new_stopped_instance m ks now key d =
     (let tmp = recent_stopped_instance m key
      in filter (\<lambda>v. ins_stopTime v + d > now) (map (\<lambda>k. the (gm_look tmp k)) ks))"

definition ins_list_deploykeys :: "ins_manager \<Rightarrow> bytes fset" where
  "ins_list_deploykeys m = fmdom (im_instances m)"

text \<open>The handler expects a pointer to an instance, and ends the process if it gets anything else.\<close>

definition handle_instance_event :: "ins_manager \<Rightarrow> instance_info watch_event \<Rightarrow> ins_manager outcome" where
  "handle_instance_event m e =
     (case we_object e of
        Object n dat \<Rightarrow>
          if n \<noteq> 1 then Exits
          else
            (let insID = ins_ID dat; key = ins_deploy_key dat in
             case we_type e of
               Deleted \<Rightarrow>
                 (case fmlookup (im_instances m) key of
                    None \<Rightarrow> Returns m
                  | Some insMap \<Rightarrow> Returns (m\<lparr>im_instances := fmupd key (fmdrop insID insMap) (im_instances m)\<rparr>))
             | ErrorEvent \<Rightarrow> Returns m
             | _ \<Rightarrow>
                 (let insMap = (case fmlookup (im_instances m) key of None \<Rightarrow> fmempty | Some s \<Rightarrow> s)
                  in Returns (m\<lparr>im_instances := fmupd key (fmupd insID dat insMap) (im_instances m)\<rparr>)))
      | _ \<Rightarrow> Exits)"

text \<open>The loop of \<open>watchEvent\<close> over the events that arrive: errors are only logged.\<close>

fun watch_event_loop :: "ins_manager \<Rightarrow> instance_info watch_event list \<Rightarrow> ins_manager outcome" where
  "watch_event_loop m [] = Returns m"
| "watch_event_loop m (e # es) =
     (if we_type e = ErrorEvent then watch_event_loop m es
      else case handle_instance_event m e of
        Returns m' \<Rightarrow> watch_event_loop m' es
      | Panics \<Rightarrow> Panics | Exits \<Rightarrow> Exits | Waits \<Rightarrow> Waits)"

text \<open>
  \<open>ins_watch\<close> watches the directory of the instances of the stage with the type \<open>*registry.Instance\<close>, one pointer,
  and everything selected.
\<close>

definition ins_watch ::
  "(bytes \<Rightarrow> bytes + instance_info) \<Rightarrow> ins_manager \<Rightarrow> nat option \<times> instance_info watch_chan option go" where
  "ins_watch dec m = store_watch None dec base_dir (deploy_instance_dir (im_stage m))
     (everything :: (instance_info, unit, unit) selection_predicate) True (Some 1)"

subsection \<open>Default resources\<close>

record resource_spec =
  rs_small :: deploy_resource
  rs_medium :: deploy_resource
  rs_large :: deploy_resource

text \<open>The defaults, the types asked for that have none, and those on their way to the goroutine that notes them.\<close>

record default_registry =
  dg_default :: "(stage \<times> bytes, resource_spec) fmap"
  dg_unknown :: "(stage \<times> bytes) fset"
  dg_chan :: "(stage \<times> bytes) list"

definition update_default_deploy_resource ::
  "default_registry \<Rightarrow> stage \<times> bytes \<Rightarrow> resource_spec \<Rightarrow> default_registry" where
  "update_default_deploy_resource g st rs =
     g\<lparr>dg_default := fmupd st rs (dg_default g), dg_unknown := dg_unknown g |-| {|st|}\<rparr>"

definition get_default_deploy_resource ::
  "default_registry \<Rightarrow> stage \<times> bytes \<Rightarrow> default_registry \<times> resource_spec option" where
  "get_default_deploy_resource g st =
     (case fmlookup (dg_default g) st of
        Some r \<Rightarrow> (g, Some r)
      | None \<Rightarrow> (g\<lparr>dg_chan := dg_chan g @ [st]\<rparr>, None))"

text \<open>The goroutine takes one type off the channel; the result says whether it was new.\<close>

definition note_unknown :: "default_registry \<Rightarrow> default_registry \<times> bool" where
  "note_unknown g =
     (case dg_chan g of
        [] \<Rightarrow> (g, False)
      | st # q \<Rightarrow>
          if st |\<in>| dg_unknown g then (g\<lparr>dg_chan := q\<rparr>, False)
          else (g\<lparr>dg_chan := q, dg_unknown := finsert st (dg_unknown g)\<rparr>, True))"

subsection \<open>Deployment configurations\<close>

text \<open>\<open>df\<close> says whether the function that cancels the watch is set.\<close>

record ('f, 's) dc_manager =
  dm_stage :: stage
  dm_dc :: "(bytes, ('f, 's) deploy_config) fmap"
  dm_df :: bool

text \<open>\<open>load\<close>: every configuration that is stored, under its own key.\<close>

definition dcm_load ::
  "(stage \<Rightarrow> store_error option) \<Rightarrow> 'e kv_client \<Rightarrow> ('f, 's) deploy_config codec \<Rightarrow> 'e \<Rightarrow> ('f, 's) dc_manager
     \<Rightarrow> store_error + ('f, 's) dc_manager" where
  "dcm_load conn kv cd e m =
     (case conn (dm_stage m) of
        Some err \<Rightarrow> Inl err
      | None \<Rightarrow>
          (case store_list kv cd (stage_base_dir (dm_stage m)) e (deploy_config_dir (dm_stage m)) (\<lambda>v. True) [] of
             (_, Some err) \<Rightarrow> Inl err
           | (ret, None) \<Rightarrow> Inr (m\<lparr>dm_dc := fold (\<lambda>v f. fmupd (dc_key v) v f) ret (dm_dc m)\<rparr>)))"

definition new_dc_manager ::
  "(stage \<Rightarrow> store_error option) \<Rightarrow> 'e kv_client \<Rightarrow> ('f, 's) deploy_config codec \<Rightarrow> 'e \<Rightarrow> stage
     \<Rightarrow> store_error + ('f, 's) dc_manager" where
  "new_dc_manager conn kv cd e st = dcm_load conn kv cd e \<lparr>dm_stage = st, dm_dc = fmempty, dm_df = False\<rparr>"

definition dcm_destroy :: "('f, 's) dc_manager \<Rightarrow> ('f, 's) dc_manager go" where
  "dcm_destroy m = (if dm_df m then Some m else None)"

definition dcm_event_handler ::
  "('f, 's) dc_manager \<Rightarrow> ('f, 's) deploy_config watch_event \<Rightarrow> ('f, 's) dc_manager outcome" where
  "dcm_event_handler m e =
     (case we_object e of
        Object n dat \<Rightarrow>
          if n \<noteq> 1 then Exits
          else
            (case we_type e of
               Added \<Rightarrow> Returns (m\<lparr>dm_dc := fmupd (we_key e) dat (dm_dc m)\<rparr>)
             | Modified \<Rightarrow> Returns (m\<lparr>dm_dc := fmupd (we_key e) dat (dm_dc m)\<rparr>)
             | Deleted \<Rightarrow> Returns (m\<lparr>dm_dc := fmdrop (we_key e) (dm_dc m)\<rparr>)
             | ErrorEvent \<Rightarrow> Returns m)
      | _ \<Rightarrow> Exits)"

text \<open>The goroutine of \<open>watchDeployConfig\<close> over the events that arrive, and what \<open>watch\<close> sets up.\<close>

fun dcm_watch_loop ::
  "('f, 's) dc_manager \<Rightarrow> ('f, 's) deploy_config watch_event list \<Rightarrow> ('f, 's) dc_manager outcome" where
  "dcm_watch_loop m [] = Returns m"
| "dcm_watch_loop m (e # es) =
     (if we_type e = ErrorEvent then dcm_watch_loop m es
      else case dcm_event_handler m (e\<lparr>we_key := trim_prefix (we_key e) (deploy_config_dir (dm_stage m))\<rparr>) of
        Returns m' \<Rightarrow> dcm_watch_loop m' es
      | Panics \<Rightarrow> Panics | Exits \<Rightarrow> Exits | Waits \<Rightarrow> Waits)"

definition dcm_watch ::
  "(stage \<Rightarrow> store_error option) \<Rightarrow> (bytes \<Rightarrow> bytes + ('f, 's) deploy_config) \<Rightarrow> ('f, 's) dc_manager
     \<Rightarrow> ('f, 's) dc_manager \<times> (store_error + ('f, 's) deploy_config watch_chan option go)" where
  "dcm_watch conn dec m =
     (let m = m\<lparr>dm_df := True\<rparr> in
      case conn (dm_stage m) of
        Some err \<Rightarrow> (m, Inl err)
      | None \<Rightarrow>
          (m, Inr (snd (store_watch None dec (stage_base_dir (dm_stage m)) (deploy_config_dir (dm_stage m))
             (everything :: (('f, 's) deploy_config, unit, unit) selection_predicate) True (Some 0)))))"

definition dcm_get_deploy_config :: "('f, 's) dc_manager \<Rightarrow> bytes \<Rightarrow> ('f, 's) deploy_config option" where
  "dcm_get_deploy_config m key = fmlookup (dm_dc m) key"

definition dcm_get_deploy_resource ::
  "default_registry \<Rightarrow> ('f, 's) dc_manager \<Rightarrow> bytes \<Rightarrow> default_registry \<times> deploy_resource option" where
  "dcm_get_deploy_resource g m key =
     (let r = fmlookup (dm_dc m) key in
      case Option.bind r dc_resourceRequired of
        Some rr \<Rightarrow> (g, Some rr)
      | None \<Rightarrow>
          (case parse_deploy_key key of
             (_, _, True) \<Rightarrow> (g, None)
           | (t, _, False) \<Rightarrow>
               (case get_default_deploy_resource g (dm_stage m, t) of
                  (g', None) \<Rightarrow> (g', None)
                | (g', Some spec) \<Rightarrow> (g', Some (rs_medium spec)))))"

subsection \<open>The cache follows the store\<close>

definition cached :: "ins_manager \<Rightarrow> bytes \<Rightarrow> bytes \<Rightarrow> instance_info option" where
  "cached m key insID = Option.bind (fmlookup (im_instances m) key) (\<lambda>s. fmlookup s insID)"

text \<open>The place of an instance in the store, and a store in which every instance is in its place.\<close>

definition ins_path :: "stage \<Rightarrow> instance_info \<Rightarrow> bytes" where
  "ins_path st i = deploy_instance_dir_of_key st (ins_deploy_key i) @ ins_ID i"

definition placed :: "stage \<Rightarrow> (bytes \<Rightarrow> bytes + instance_info) \<Rightarrow> bytes \<Rightarrow> bytes \<Rightarrow> bool" where
  "placed st dec k d \<longleftrightarrow> (\<forall>i. dec d = Inr i \<longrightarrow> k = ins_path st i \<and> CHR ''/'' \<notin> set (ins_ID i))"

definition shows_instances :: "ins_manager \<Rightarrow> (bytes \<rightharpoonup> instance_info wobject) \<Rightarrow> bool" where
  "shows_instances m s \<longleftrightarrow>
     (\<forall>key insID i. cached m key insID = Some i \<longleftrightarrow>
        (\<exists>k. s k = Some (Object 1 i) \<and> ins_deploy_key i = key \<and> ins_ID i = insID))"

lemma ins_path_inj:
  assumes "ins_path st i = ins_path st j" "CHR ''/'' \<notin> set (ins_ID i)" "CHR ''/'' \<notin> set (ins_ID j)"
  shows "ins_deploy_key i = ins_deploy_key j \<and> ins_ID i = ins_ID j"
proof -
  have "ins_deploy_key i @ CHR ''/'' # ins_ID i = ins_deploy_key j @ CHR ''/'' # ins_ID j"
    using assms(1) by (simp add: ins_path_def deploy_instance_dir_of_key_def)
  then have "rev (ins_deploy_key i @ CHR ''/'' # ins_ID i) = rev (ins_deploy_key j @ CHR ''/'' # ins_ID j)" by simp
  then have "rev (ins_ID i) @ CHR ''/'' # rev (ins_deploy_key i) = rev (ins_ID j) @ CHR ''/'' # rev (ins_deploy_key j)"
    by (simp only: rev_append rev.simps append_assoc append_Cons append_Nil)
  then show ?thesis using assms(2,3) by (simp add: slash_split)
qed

lemma cached_upd:
  "cached (m\<lparr>im_instances := fmupd key (fmupd i dat (case fmlookup (im_instances m) key of None \<Rightarrow> fmempty | Some s \<Rightarrow> s)) (im_instances m)\<rparr>) k j =
     (if k = key \<and> j = i then Some dat else cached m k j)"
  by (auto simp: cached_def split: option.split)

lemma cached_del:
  "fmlookup (im_instances m) key = Some s \<Longrightarrow>
   cached (m\<lparr>im_instances := fmupd key (fmdrop i s) (im_instances m)\<rparr>) k j =
     (if k = key \<and> j = i then None else cached m k j)"
  by (auto simp: cached_def)

lemma handle_added:
  assumes "we_object w = Object 1 i" "we_type w = Added \<or> we_type w = Modified"
  shows "\<exists>m'. handle_instance_event m w = Returns m' \<and>
    (\<forall>k j. cached m' k j = (if k = ins_deploy_key i \<and> j = ins_ID i then Some i else cached m k j))"
  using assms by (auto simp: handle_instance_event_def Let_def cached_upd)

lemma handle_deleted:
  assumes "we_object w = Object 1 i" "we_type w = Deleted"
  shows "\<exists>m'. handle_instance_event m w = Returns m' \<and>
    (\<forall>k j. cached m' k j = (if k = ins_deploy_key i \<and> j = ins_ID i then None else cached m k j))"
proof (cases "fmlookup (im_instances m) (ins_deploy_key i)")
  case None
  then have "cached m (ins_deploy_key i) j = None" for j by (simp add: cached_def)
  then show ?thesis using assms None by (auto simp: handle_instance_event_def)
next
  case (Some s)
  then show ?thesis using assms by (simp add: handle_instance_event_def cached_del [OF Some])
qed

definition all_placed :: "stage \<Rightarrow> (bytes \<rightharpoonup> instance_info wobject) \<Rightarrow> bool" where
  "all_placed st s \<longleftrightarrow>
     (\<forall>k obj. s k = Some obj \<longrightarrow> (\<exists>i. obj = Object 1 i \<and> k = ins_path st i \<and> CHR ''/'' \<notin> set (ins_ID i)))"

lemma handle_step:
  assumes "shows_instances m s" "all_placed st s" "we_object w = Object 1 i" "we_type w \<noteq> ErrorEvent"
    "we_key w = ins_path st i" "CHR ''/'' \<notin> set (ins_ID i)"
  shows "\<exists>m'. handle_instance_event m w = Returns m' \<and> shows_instances m' (replay w s) \<and> all_placed st (replay w s)"
proof -
  have same: "ins_deploy_key j = ins_deploy_key i \<and> ins_ID j = ins_ID i \<longleftrightarrow> k = ins_path st i"
    if "s k = Some (Object 1 j)" for k j
  proof -
    have "k = ins_path st j" "CHR ''/'' \<notin> set (ins_ID j)" using assms(2) that by (auto simp: all_placed_def)
    moreover have "ins_deploy_key j = ins_deploy_key i \<and> ins_ID j = ins_ID i \<Longrightarrow> ins_path st j = ins_path st i"
      by (simp add: ins_path_def)
    ultimately show ?thesis using ins_path_inj [of st j i] assms(6) by metis
  qed
  have c: "cached m key insID = Some j \<longleftrightarrow> (\<exists>k. s k = Some (Object 1 j) \<and> ins_deploy_key j = key \<and> ins_ID j = insID)" for key insID j
    using assms(1) by (simp add: shows_instances_def)
  show ?thesis
  proof (cases "we_type w = Deleted")
    case True
    obtain m' where m': "handle_instance_event m w = Returns m'"
      "\<forall>k j. cached m' k j = (if k = ins_deploy_key i \<and> j = ins_ID i then None else cached m k j)"
      using handle_deleted [OF assms(3) True] by blast
    have r: "replay w s = s(ins_path st i := None)" using True assms(5) by (simp add: replay_def)
    have "cached m' key insID = Some j \<longleftrightarrow>
        (\<exists>k. replay w s k = Some (Object 1 j) \<and> ins_deploy_key j = key \<and> ins_ID j = insID)" for key insID j
      unfolding r m'(2) [rule_format] fun_upd_apply using c [of key insID j] same [of _ j] by (metis option.distinct(1))
    then have "shows_instances m' (replay w s)" by (simp add: shows_instances_def)
    moreover have "all_placed st (replay w s)" using assms(2) by (auto simp: all_placed_def r split: if_splits)
    ultimately show ?thesis using m'(1) by blast
  next
    case False
    then have t: "we_type w = Added \<or> we_type w = Modified" using assms(4) by (cases "we_type w") auto
    obtain m' where m': "handle_instance_event m w = Returns m'"
      "\<forall>k j. cached m' k j = (if k = ins_deploy_key i \<and> j = ins_ID i then Some i else cached m k j)"
      using handle_added [OF assms(3) t] by blast
    have r: "replay w s = s(ins_path st i \<mapsto> Object 1 i)" using t assms(3,5) by (auto simp: replay_def)
    have "cached m' key insID = Some j \<longleftrightarrow>
        (\<exists>k. replay w s k = Some (Object 1 j) \<and> ins_deploy_key j = key \<and> ins_ID j = insID)" for key insID j
      unfolding r m'(2) [rule_format] fun_upd_apply using c [of key insID j] same [of _ j]
      by (metis option.inject wobject.inject(1))
    then have "shows_instances m' (replay w s)" by (simp add: shows_instances_def)
    moreover have "all_placed st (replay w s)" using assms(2,6) by (auto simp: all_placed_def r split: if_splits)
    ultimately show ?thesis using m'(1) by blast
  qed
qed

lemma decode_obj_Inr: "decode_obj wc d = Inr obj \<longleftrightarrow> (\<exists>i. wc_decode wc d = Inr i \<and> obj = Object (Suc (wc_typ wc)) i)"
  by (cases "wc_decode wc d") (auto simp: decode_obj_def)

lemma replay_selected_placed:
  assumes "\<forall>k d. v k = Some d \<longrightarrow> placed st (wc_decode wc) k d" "wc_typ wc = 0"
  shows "all_placed st (selected wc v)"
  using assms by (auto simp: all_placed_def selected_def placed_def decode_obj_Inr split: option.splits sum.splits if_splits)

lemma loop_history:
  assumes "\<forall>obj. filter_obj wc obj \<noteq> None" "wc_typ wc = 0"
  shows "history v es \<Longrightarrow> \<forall>d \<in> ran v. good wc d \<Longrightarrow> \<forall>e \<in> set es. \<not> ev_delete e \<longrightarrow> good wc (ek_value (ev_kv e)) \<Longrightarrow>
    \<forall>k d. v k = Some d \<longrightarrow> placed st (wc_decode wc) k d \<Longrightarrow>
    \<forall>e \<in> set es. \<not> ev_delete e \<longrightarrow> placed st (wc_decode wc) (ek_key (ev_kv e)) (ek_value (ev_kv e)) \<Longrightarrow>
    shows_instances m (selected wc v) \<Longrightarrow>
    \<exists>ws m'. process_events wc (map parse_event es) = Some ([], ws) \<and> watch_event_loop m ws = Returns m'
      \<and> shows_instances m' (selected wc (fold view_after es v))"
proof (induction es arbitrary: v m)
  case (Cons e es)
  have c: "consistent v e" using Cons.prems(1) by simp
  obtain r where r: "transform wc (parse_event e) = Some (Inr r)"
    "(case r of None \<Rightarrow> selected wc v | Some w \<Rightarrow> replay w (selected wc v)) = selected wc (view_after e v)"
    "\<forall>w. r = Some w \<longrightarrow> we_type w \<noteq> ErrorEvent \<and> we_key w = ek_key (ev_kv e)
       \<and> (\<exists>d. decode_obj wc d = Inr (we_object w) \<and> (\<not> ev_delete e \<and> d = ek_value (ev_kv e) \<or> v (ek_key (ev_kv e)) = Some d))"
    using transform_step [OF assms(1) c Cons.prems(2)] Cons.prems(3) by (metis list.set_intros(1))
  have pl: "\<forall>k d. view_after e v k = Some d \<longrightarrow> placed st (wc_decode wc) k d"
    using Cons.prems(4,5) by (auto simp: view_after_def split: if_splits)
  have gd: "\<forall>d \<in> ran (view_after e v). good wc d" using Cons.prems(2,3) by (intro view_after_good) auto
  obtain m1 where m1: "shows_instances m1 (selected wc (view_after e v))"
    "\<forall>w ws. r = Some w \<longrightarrow> watch_event_loop m (w # ws) = watch_event_loop m1 ws" "r = None \<longrightarrow> m1 = m"
  proof (cases r)
    case None
    then show thesis using that Cons.prems(6) r(2) by simp
  next
    case (Some w)
    note w = r(3) [rule_format, OF Some]
    then obtain d i where di: "we_object w = Object 1 i" "wc_decode wc d = Inr i"
      "\<not> ev_delete e \<and> d = ek_value (ev_kv e) \<or> v (ek_key (ev_kv e)) = Some d"
      using assms(2) unfolding decode_obj_Inr by auto
    then have "placed st (wc_decode wc) (ek_key (ev_kv e)) d" using Cons.prems(4,5) by auto
    then have i: "we_key w = ins_path st i" "CHR ''/'' \<notin> set (ins_ID i)" using w di(2) by (auto simp: placed_def)
    obtain m' where "handle_instance_event m w = Returns m'" "shows_instances m' (replay w (selected wc v))"
      using handle_step [OF Cons.prems(6) replay_selected_placed [OF Cons.prems(4) assms(2)] di(1) _ i] w by blast
    then show thesis using that [of m'] r(2) Some w by simp
  qed
  obtain ws m' where "process_events wc (map parse_event es) = Some ([], ws)" "watch_event_loop m1 ws = Returns m'"
    "shows_instances m' (selected wc (fold view_after es (view_after e v)))"
    using Cons.IH [OF _ gd _ pl _ m1(1)] Cons.prems by auto
  then show ?case using r(1) m1(2,3) by (cases r) auto
qed simp

lemma get_instance_cached: "get_instance m key insID = cached m key insID"
  by (auto simp: get_instance_def cached_def split: option.split)

lemma running_look:
  "gm_look (running_instance m key) insID = Some i \<longleftrightarrow> cached m key insID = Some i \<and> ins_lifeCycle i \<noteq> LCStopped"
  by (auto simp: running_instance_def cached_def split: option.split)

lemma recent_look: "gm_look (recent_stopped_instance m key) insID = cached m key insID"
  by (auto simp: recent_stopped_instance_def cached_def split: option.split)

lemma selected_plain:
  assumes "\<forall>obj. filter_obj wc obj = Some True" "wc_typ wc = 0"
  shows "selected wc s k = Some (Object 1 i) \<longleftrightarrow> (\<exists>d. s k = Some d \<and> wc_decode wc d = Inr i)"
proof (cases "s k")
  case (Some d)
  then show ?thesis using assms by (cases "wc_decode wc d") (simp_all add: selected_def passes_def decode_obj_def)
qed (simp add: selected_def)

lemma new_dc_manager_eq:
  "new_dc_manager conn kv cd e st =
     (case conn st of
        Some err \<Rightarrow> Inl err
      | None \<Rightarrow>
          (case store_list kv cd (stage_base_dir st) e (deploy_config_dir st) (\<lambda>v. True) [] of
             (_, Some err) \<Rightarrow> Inl err
           | (ret, None) \<Rightarrow> Inr \<lparr>dm_stage = st, dm_dc = fold (\<lambda>v f. fmupd (dc_key v) v f) ret fmempty, dm_df = False\<rparr>))"
  unfolding new_dc_manager_def dcm_load_def dc_manager.simps ..

lemma shows_new: "shows_instances (new_infor st) (selected wc Map.empty)"
  by (simp add: shows_instances_def cached_def new_infor_def selected_def)

subsection \<open>Properties\<close>

text \<open>
  the handler itself does what it is meant to: if it was sent the events of a watch of plain instances, the manager
  would follow the store, so that the instance with an id is found under its deploy key exactly when it is stored, and is
  listed as running exactly when it is stored with another life cycle than stopped.  The watch of the program is not one
  of plain instances.
\<close>

theorem instances_follow_store:
  assumes "\<forall>obj. filter_obj wc obj = Some True" "wc_typ wc = 0" "history Map.empty es"
    "\<forall>e \<in> set es. \<not> ev_delete e \<longrightarrow>
       good wc (ek_value (ev_kv e)) \<and> placed st (wc_decode wc) (ek_key (ev_kv e)) (ek_value (ev_kv e))"
  shows "\<exists>ws m'. process_events wc (map parse_event es) = Some ([], ws) \<and> watch_event_loop (new_infor st) ws = Returns m'
    \<and> (get_instance m' key insID = Some i \<longleftrightarrow>
         (\<exists>k d. fold view_after es Map.empty k = Some d \<and> wc_decode wc d = Inr i \<and> ins_deploy_key i = key \<and> ins_ID i = insID))
    \<and> (gm_look (running_instance m' key) insID = Some i \<longleftrightarrow> get_instance m' key insID = Some i \<and> ins_lifeCycle i \<noteq> LCStopped)"
proof -
  obtain ws m' where m': "process_events wc (map parse_event es) = Some ([], ws)" "watch_event_loop (new_infor st) ws = Returns m'"
    "shows_instances m' (selected wc (fold view_after es Map.empty))"
    using loop_history [OF _ assms(2,3), of st "new_infor st"] assms(1,4) shows_new [of st wc] by auto
  note sel = selected_plain [OF assms(1,2)]
  have "cached m' key insID = Some i \<longleftrightarrow>
      (\<exists>k d. fold view_after es Map.empty k = Some d \<and> wc_decode wc d = Inr i \<and> ins_deploy_key i = key \<and> ins_ID i = insID)"
    using m'(3) unfolding shows_instances_def sel by blast
  then show ?thesis using m'(1,2) unfolding get_instance_cached running_look by blast
qed

definition sample_ins :: "string \<Rightarrow> instance_info" where
  "sample_ins lc = \<lparr>ins_projecType = ''java'', ins_ID = ''i1'', ins_pid = 4711, ins_deployName = ''crm'', ins_user = [],
     ins_hostID = ''h1'', ins_host = [], ins_ip = [], ins_stage = Dev, ins_serviceType = [], ins_version = ''v1'',
     ins_startTime = 0, ins_stopTime = 0, ins_updateTime = 0, ins_lifeCycle = lc, ins_listening = [], ins_status = [],
     ins_conditions = [], ins_events = []\<rparr>"

text \<open>A watch of instances whose encoding is their life cycle.\<close>

definition ins_chan :: "nat \<Rightarrow> instance_info watch_chan" where
  "ins_chan typ = \<lparr>wc_typ = typ, wc_decode = \<lambda>d. Inr (sample_ins d), wc_key = deploy_instance_dir Dev, wc_initialRev = 0,
     wc_recursive = True, wc_filter = None\<rparr>"

definition ins_put :: "bytes \<Rightarrow> etcd_event" where
  "ins_put d = \<lparr>ev_delete = False, ev_kv = plain_kv (ins_path Dev (sample_ins d)) d 1 1, ev_prev = None\<rparr>"

theorem instances_follow_store_witness:
  "\<exists>ws m'. process_events (ins_chan 0) (map parse_event [ins_put LCRunning]) = Some ([], ws)
   \<and> watch_event_loop (new_infor Dev) ws = Returns m'
   \<and> gm_look (running_instance m' ''java/crm'') ''i1'' = Some (sample_ins LCRunning)"
proof -
  let ?i = "sample_ins LCRunning"
  have "ins_path Dev (sample_ins d) = ins_path Dev ?i \<and> CHR ''/'' \<notin> set (ins_ID (sample_ins d))" for d
    by (simp add: ins_path_def ins_deploy_key_def sample_ins_def)
  then have "good (ins_chan 0) LCRunning \<and> placed Dev (wc_decode (ins_chan 0)) (ins_path Dev ?i) LCRunning"
    by (auto simp: good_def placed_def ins_chan_def LCRunning_def)
  moreover have "\<forall>obj. filter_obj (ins_chan 0) obj = Some True" by (simp add: filter_obj_def ins_chan_def)
  ultimately obtain ws m' where "process_events (ins_chan 0) (map parse_event [ins_put LCRunning]) = Some ([], ws)"
    "watch_event_loop (new_infor Dev) ws = Returns m'"
    "get_instance m' ''java/crm'' ''i1'' = Some ?i \<longleftrightarrow>
         (\<exists>k d. fold view_after [ins_put LCRunning] Map.empty k = Some d \<and> wc_decode (ins_chan 0) d = Inr ?i
            \<and> ins_deploy_key ?i = ''java/crm'' \<and> ins_ID ?i = ''i1'')"
    "gm_look (running_instance m' ''java/crm'') ''i1'' = Some ?i \<longleftrightarrow>
       get_instance m' ''java/crm'' ''i1'' = Some ?i \<and> ins_lifeCycle ?i \<noteq> LCStopped"
    using instances_follow_store [of "ins_chan 0" "[ins_put LCRunning]" Dev "''java/crm''" "''i1''" ?i]
    by (auto simp: ins_chan_def ins_put_def plain_kv_def consistent_def)
  moreover have "ins_deploy_key ?i = ''java/crm''" "ins_ID ?i = ''i1''" "ins_lifeCycle ?i \<noteq> LCStopped"
    by (simp_all add: ins_deploy_key_def sample_ins_def life_cycle_defs)
  moreover have "fold view_after [ins_put LCRunning] Map.empty (ins_path Dev ?i) = Some LCRunning"
    by (simp add: view_after_def ins_put_def plain_kv_def)
  ultimately show ?thesis by (auto simp: ins_chan_def)
qed

text \<open>
  C9: the watch that the manager of instances sets up ends the process at the first event it sends, whatever was stored
  and whatever errors came before: the watch is given the type of a pointer, so the objects it decodes are pointers to
  pointers, and the handler ends the process for everything that is not a pointer to an instance.
\<close>

theorem instance_watch_exits:
  assumes "ins_watch dec m = (t, Some (Some wc))" "process_events wc evs = Some (errs, ws)" "ws \<noteq> []"
  shows "watch_event_loop m ws = Exits"
proof -
  have wc: "wc_typ wc = 1"
    using assms(1) by (auto simp: ins_watch_def store_watch_def watcher_watch_def create_watch_chan_def Let_def)
  have obj: "we_type w \<noteq> ErrorEvent \<and> (we_object w = NilObject \<or> (\<exists>i. we_object w = Object 2 i))"
    if "transform wc e = Some (Inr (Some w))" for e w
    using that by (auto simp: transform_def prepare_objs_def decode_obj_Inr bind_eq_Some_conv wc split: sum.splits if_splits)
  have all: "\<forall>w \<in> set ws. we_type w \<noteq> ErrorEvent \<and> (we_object w = NilObject \<or> (\<exists>i. we_object w = Object 2 i))"
    if "process_events wc xs = Some (errs, ws)" for xs errs ws
    using that
  proof (induction xs arbitrary: errs ws)
    case (Cons x xs)
    obtain r errs' ws' where r: "transform wc x = Some r" "process_events wc xs = Some (errs', ws')"
      "(errs, ws) = (case r of Inl err \<Rightarrow> (err # errs', ws') | Inr None \<Rightarrow> (errs', ws') | Inr (Some w) \<Rightarrow> (errs', w # ws'))"
      using Cons.prems by (auto simp: bind_eq_Some_conv)
    then show ?case using Cons.IH [OF r(2)] obj by (auto split: sum.splits option.splits)
  qed simp
  then obtain w ws' where "ws = w # ws'" "we_type w \<noteq> ErrorEvent" "we_object w = NilObject \<or> (\<exists>i. we_object w = Object 2 i)"
    using all [OF assms(2)] assms(3) by (cases ws) auto
  then show ?thesis by (auto simp: handle_instance_event_def)
qed

theorem instance_watch_exits_witness:
  "\<exists>wc ws. snd (ins_watch (\<lambda>d. Inr (sample_ins d)) (new_infor Dev)) = Some (Some wc)
   \<and> process_events wc (map parse_event [ins_put LCRunning]) = Some ([], ws)
   \<and> watch_event_loop (new_infor Dev) ws = Exits"
proof -
  obtain t wc where wc: "ins_watch (\<lambda>d. Inr (sample_ins d)) (new_infor Dev) = (t, Some (Some wc))" "wc_filter wc = None"
      "wc_decode wc = (\<lambda>d. Inr (sample_ins d))"
    by (simp add: ins_watch_def store_watch_def watcher_watch_def create_watch_chan_def Let_def sp_empty_def everything_def)
  have "process_events wc (map parse_event [ins_put LCRunning]) = Some ([], [\<lparr>we_type = Added,
      we_key = ins_path Dev (sample_ins LCRunning), we_object = Object (Suc (wc_typ wc)) (sample_ins LCRunning)\<rparr>])"
    using wc(2,3) by (simp add: transform_def prepare_objs_def parse_event_def ins_put_def plain_kv_def decode_obj_def
        filter_obj_def ev_is_create_def)
  then show ?thesis using instance_watch_exits [OF wc(1)] wc(1) by (metis not_Cons_self2 snd_conv)
qed

text \<open>
  what is listed as recently stopped includes every running instance: \<open>RecentStoppedInstance\<close> does not look at
  the life cycle.
\<close>

theorem running_listed_as_stopped:
  assumes "gm_look (running_instance m key) insID = Some i"
  shows "gm_look (recent_stopped_instance m key) insID = Some i \<and> ins_lifeCycle i \<noteq> LCStopped"
  using assms by (simp add: running_look recent_look)

theorem running_listed_as_stopped_witness:
  "gm_look (recent_stopped_instance \<lparr>im_stage = Dev, im_instances = fmupd ''java/crm'' (fmupd ''i1'' (sample_ins LCRunning) fmempty) fmempty\<rparr>
     ''java/crm'') ''i1'' = Some (sample_ins LCRunning)"
  using running_listed_as_stopped [of "\<lparr>im_stage = Dev, im_instances = fmupd ''java/crm'' (fmupd ''i1'' (sample_ins LCRunning) fmempty) fmempty\<rparr>"
      "''java/crm''" "''i1''" "sample_ins LCRunning"]
  by (simp add: running_instance_def sample_ins_def life_cycle_defs)

text \<open>
  a new manager of deployment configurations has every configuration it finds under the key of the
  configuration itself, but it never watches the store, and destroying it panics: the function that would cancel
  the watch was never set.
\<close>

theorem new_dc_manager_loads:
  assumes "new_dc_manager conn kv cd e st = Inr m"
  shows "(dcm_get_deploy_config m key = Some c \<longrightarrow> dc_key c = key) \<and> dcm_destroy m = None"
proof -
  obtain ret err where l: "store_list kv cd (stage_base_dir st) e (deploy_config_dir st) (\<lambda>v. True) [] = (ret, err)"
    by fastforce
  then have m: "m = \<lparr>dm_stage = st, dm_dc = fold (\<lambda>v f. fmupd (dc_key v) v f) ret fmempty, dm_df = False\<rparr>"
    using assms unfolding new_dc_manager_eq l
    by (cases "conn st"; cases err) (simp_all only: option.case prod.case sum.distinct sum.inject)
  have "\<forall>k d. fmlookup f k = Some d \<longrightarrow> dc_key d = k \<Longrightarrow>
      \<forall>k d. fmlookup (fold (\<lambda>v f. fmupd (dc_key v) v f) ret f) k = Some d \<longrightarrow> dc_key d = k" for f
  proof (induction ret arbitrary: f)
    case (Cons v vs)
    have "\<forall>k d. fmlookup (fmupd (dc_key v) v f) k = Some d \<longrightarrow> dc_key d = k"
      using Cons.prems by (metis fmupd_lookup option.inject)
    then show ?case unfolding fold.simps o_apply by (rule Cons.IH)
  qed (simp only: fold.simps id_apply)
  from this [of fmempty] show ?thesis by (simp add: m dcm_get_deploy_config_def dcm_destroy_def)
qed

definition no_config_codec :: "(unit, unit) deploy_config codec" where
  "no_config_codec = \<lparr>cd_encode = \<lambda>c. None, cd_decode = \<lambda>d. None, cd_zero = undefined\<rparr>"

theorem new_dc_manager_loads_witness:
  "\<exists>m. new_dc_manager (\<lambda>s. None) mem_kv no_config_codec [] Dev = Inr m \<and> dcm_destroy m = None"
proof -
  have "list_elems mem_kv p [] k = Inr []" for p k by (simp add: list_elems_def mem_kv_def Let_def)
  then have l: "store_list mem_kv no_config_codec p [] k f [] = ([], None)" for p k f by (simp add: store_list_def)
  let ?m = "\<lparr>dm_stage = Dev, dm_dc = fold (\<lambda>v f. fmupd (dc_key v) v f) [] fmempty, dm_df = False\<rparr> :: (unit, unit) dc_manager"
  have "new_dc_manager (\<lambda>s. None) mem_kv no_config_codec [] Dev = Inr ?m"
    unfolding new_dc_manager_eq l option.case prod.case ..
  from this new_dc_manager_loads [OF this] show ?thesis by blast
qed

end
