(* ===== verification/HostConfigs.thy ===== *)
theory HostConfigs
  imports Store
begin

text \<open>
  The manager of the specifications hosts are to run (\<open>controllers/types/impl/hc.go\<close>): a cache in memory,
  by deploy key and host, written through to the store.

  \<open>hcm_iface\<close> is the Go interface \<open>HostConfigManager\<close> (\<open>controllers/types/types.go\<close>), on a state \<open>'h\<close>; the locale
  \<open>host_config_manager\<close> has the laws its clients rely on, and \<open>hcManager\<close> is shown to satisfy them.

  \<open>DeploySpec.Info\<close> is a Go map, so a specification that a client reads shares it with the manager.  The model
  copies it: every client writes the specification it changed back at once, which stores the same map.
\<close>

declare fmfilter_cong [cong del]

subsection \<open>The interface\<close>

record 'h hcm_iface =
  hcm_list_keys :: "'h \<Rightarrow> bytes fset"
  hcm_get :: "'h \<Rightarrow> bytes \<Rightarrow> bytes \<Rightarrow> deploy_spec option"
  hcm_list :: "'h \<Rightarrow> bytes \<Rightarrow> (bytes, deploy_spec) gmap"
  hcm_delete :: "'h \<Rightarrow> bytes \<Rightarrow> bytes list \<Rightarrow> 'h \<times> store_error list"
  hcm_set :: "'h \<Rightarrow> bytes \<Rightarrow> bytes \<Rightarrow> deploy_spec \<Rightarrow> 'h \<times> store_error option"

definition fm_norm :: "('k, 'v) fmap \<Rightarrow> ('k, 'v) gmap" where
  "fm_norm f = (if f = fmempty then None else Some f)"

definition gm_map :: "('k, 'v) gmap \<Rightarrow> ('k, 'v) fmap" where
  "gm_map m = (case m of None \<Rightarrow> fmempty | Some f \<Rightarrow> f)"

definition zero_spec :: deploy_spec where
  "zero_spec = \<lparr>ds_info = None\<rparr>"

lemma gm_map_simps [simp]: "gm_map None = fmempty" "gm_map (Some f) = f" "gm_map (fm_norm f) = f"
  by (simp_all add: gm_map_def fm_norm_def)

lemma fm_norm_upd [simp]: "fm_norm (fmupd k v f) = Some (fmupd k v f)"
proof -
  have "fmlookup (fmupd k v f) k \<noteq> fmlookup fmempty k" by simp
  then have "fmupd k v f \<noteq> fmempty" by metis
  then show ?thesis by (simp add: fm_norm_def)
qed

lemma fm_norm_empty [simp]: "fm_norm fmempty = None"
  by (simp add: fm_norm_def)

text \<open>What a client may rely on: the effect of writing and deleting on what is listed and read.\<close>

locale host_config_manager =
  fixes ifc :: "'h hcm_iface"
  assumes list_set: "hcm_list ifc (fst (hcm_set ifc h k hid spec)) k' =
      (if k' = k then Some (fmupd hid spec (gm_map (hcm_list ifc h k))) else hcm_list ifc h k')"
    and list_delete: "hcm_list ifc (fst (hcm_delete ifc h k hids)) k' =
      (if k' = k then fm_norm (fmfilter (\<lambda>x. x \<notin> set hids) (gm_map (hcm_list ifc h k))) else hcm_list ifc h k')"
    and list_norm: "hcm_list ifc h k = fm_norm (gm_map (hcm_list ifc h k))"
    and get_list: "hcm_get ifc h k hid =
      (case hcm_list ifc h k of None \<Rightarrow> None
       | Some f \<Rightarrow> Some (case fmlookup f hid of None \<Rightarrow> zero_spec | Some spec \<Rightarrow> spec))"
begin

text \<open>The specifications of a deployment, as one map.\<close>

abbreviation cfgs :: "'h \<Rightarrow> bytes \<Rightarrow> (bytes, deploy_spec) fmap" where
  "cfgs h k \<equiv> gm_map (hcm_list ifc h k)"

lemma cfgs_set [simp]:
  "cfgs (fst (hcm_set ifc h k hid spec)) k' = (if k' = k then fmupd hid spec (cfgs h k) else cfgs h k')"
  by (simp add: list_set)

lemma cfgs_delete [simp]:
  "cfgs (fst (hcm_delete ifc h k hids)) k' =
     (if k' = k then fmfilter (\<lambda>x. x \<notin> set hids) (cfgs h k) else cfgs h k')"
  by (simp add: list_delete)

lemma get_Some: "fmlookup (cfgs h k) hid = Some spec \<Longrightarrow> hcm_get ifc h k hid = Some spec"
  by (cases "hcm_list ifc h k") (auto simp: get_list)

lemma get_fresh:
  "fmlookup (cfgs h k) hid = None \<Longrightarrow>
   hcm_get ifc h k hid = (if cfgs h k = fmempty then None else Some zero_spec)"
  using list_norm [of h k] by (auto simp: get_list fm_norm_def split: option.split if_splits)

lemma get_after_set [simp]: "hcm_get ifc (fst (hcm_set ifc h k hid spec)) k hid = Some spec"
  by (rule get_Some) simp

end

subsection \<open>The manager\<close>

text \<open>
  The environment: the etcd client, the encoding of specifications, and what \<open>GetStoreInstance\<close> returns (it
  dials etcd) in a state of etcd.
\<close>

record 'e hc_env =
  he_kv :: "'e kv_client"
  he_codec :: "deploy_spec codec"
  he_conn :: "'e \<Rightarrow> store_error option"

record 'e hc_manager =
  hc_stage :: stage
  hc_cfgs :: "(bytes, (bytes, deploy_spec) fmap) fmap"
  hc_etcd :: 'e

definition set_host_deployspec ::
  "'e hc_env \<Rightarrow> stage \<Rightarrow> 'e \<Rightarrow> bytes \<Rightarrow> bytes \<Rightarrow> deploy_spec \<Rightarrow> 'e \<times> store_error option" where
  "set_host_deployspec env st e hid key spec =
     (let path = deploy_host_expect_path_of st hid key in
      case he_conn env e of
        Some err \<Rightarrow> (e, Some err)
      | None \<Rightarrow>
          (case store_update (he_kv env) (he_codec env) path e path spec False 0 of
             (e', Inl err) \<Rightarrow> (e', Some err) | (e', Inr _) \<Rightarrow> (e', None)))"

definition delete_host_deployspec ::
  "'e hc_env \<Rightarrow> stage \<Rightarrow> 'e \<Rightarrow> bytes \<Rightarrow> bytes \<Rightarrow> 'e \<times> store_error option" where
  "delete_host_deployspec env st e hid key =
     (let path = deploy_host_expect_path_of st hid key in
      case he_conn env e of
        Some err \<Rightarrow> (e, Some err)
      | None \<Rightarrow>
          (case store_delete (he_kv env) (he_codec env) path e path False of
             (e', Inl err) \<Rightarrow> (e', Some err) | (e', Inr _) \<Rightarrow> (e', None)))"

definition get_host_deployspec ::
  "'e hc_env \<Rightarrow> stage \<Rightarrow> 'e \<Rightarrow> bytes \<Rightarrow> bytes \<Rightarrow> store_error + deploy_spec option" where
  "get_host_deployspec env st e hid key =
     (let path = deploy_host_expect_path_of st hid key in
      case he_conn env e of
        Some err \<Rightarrow> Inl err
      | None \<Rightarrow>
          (case store_get (he_kv env) (he_codec env) path e path False of
             Inl err \<Rightarrow> if is_not_exist err then Inr None else Inl err
           | Inr spec \<Rightarrow> Inr (Some spec)))"

definition list_deploy_keys :: "'e hc_manager \<Rightarrow> bytes fset" where
  "list_deploy_keys m = fmdom (hc_cfgs m)"

text \<open>The loop of \<open>DeleteHostConfigs\<close>: it goes on after an error, and forgets the host in memory anyway.\<close>

fun delete_loop ::
  "'e hc_env \<Rightarrow> stage \<Rightarrow> bytes \<Rightarrow> bytes list \<Rightarrow> 'e \<Rightarrow> (bytes, deploy_spec) fmap \<Rightarrow> store_error list
     \<Rightarrow> 'e \<times> (bytes, deploy_spec) fmap \<times> store_error list" where
  "delete_loop env st key [] e km errs = (e, km, errs)"
| "delete_loop env st key (h # hs) e km errs =
     (case delete_host_deployspec env st e h key of
        (e', err) \<Rightarrow> delete_loop env st key hs e' (fmdrop h km)
          (case err of None \<Rightarrow> errs | Some er \<Rightarrow> errs @ [er]))"

definition delete_host_configs ::
  "'e hc_env \<Rightarrow> 'e hc_manager \<Rightarrow> bytes \<Rightarrow> bytes list \<Rightarrow> 'e hc_manager \<times> store_error list" where
  "delete_host_configs env m key hids =
     (case fmlookup (hc_cfgs m) key of
        None \<Rightarrow> (m, [])
      | Some km \<Rightarrow>
          (case delete_loop env (hc_stage m) key hids (hc_etcd m) km [] of
             (e, km', errs) \<Rightarrow>
               (m\<lparr>hc_etcd := e,
                  hc_cfgs := if km' = fmempty then fmdrop key (hc_cfgs m) else fmupd key km' (hc_cfgs m)\<rparr>,
                errs)))"

definition set_host_config ::
  "'e hc_env \<Rightarrow> 'e hc_manager \<Rightarrow> bytes \<Rightarrow> bytes \<Rightarrow> deploy_spec \<Rightarrow> 'e hc_manager \<times> store_error option" where
  "set_host_config env m key hid cfg =
     (let km = (case fmlookup (hc_cfgs m) key of None \<Rightarrow> fmempty | Some km \<Rightarrow> km);
          (e, err) = set_host_deployspec env (hc_stage m) (hc_etcd m) hid key cfg
      in (m\<lparr>hc_cfgs := fmupd key (fmupd hid cfg km) (hc_cfgs m), hc_etcd := e\<rparr>, err))"

text \<open>A host the deployment is not on has the zero specification, unless the deployment is on no host.\<close>

definition get_host_config :: "'e hc_manager \<Rightarrow> bytes \<Rightarrow> bytes \<Rightarrow> deploy_spec option" where
  "get_host_config m key hid =
     (let km = (case fmlookup (hc_cfgs m) key of None \<Rightarrow> fmempty | Some km \<Rightarrow> km) in
      if km = fmempty then None
      else Some (case fmlookup km hid of None \<Rightarrow> zero_spec | Some spec \<Rightarrow> spec))"

definition list_host_configs :: "'e hc_manager \<Rightarrow> bytes \<Rightarrow> (bytes, deploy_spec) gmap" where
  "list_host_configs m key =
     (let km = (case fmlookup (hc_cfgs m) key of None \<Rightarrow> fmempty | Some km \<Rightarrow> km) in
      if km = fmempty then None else Some km)"

definition hc_iface :: "'e hc_env \<Rightarrow> 'e hc_manager hcm_iface" where
  "hc_iface env = \<lparr>hcm_list_keys = list_deploy_keys, hcm_get = get_host_config, hcm_list = list_host_configs,
     hcm_delete = delete_host_configs env, hcm_set = set_host_config env\<rparr>"

lemma hc_iface_simps [simp]:
  "hcm_list_keys (hc_iface env) = list_deploy_keys" "hcm_get (hc_iface env) = get_host_config"
  "hcm_list (hc_iface env) = list_host_configs" "hcm_delete (hc_iface env) = delete_host_configs env"
  "hcm_set (hc_iface env) = set_host_config env"
  by (simp_all add: hc_iface_def)

lemma delete_loop_map: "fst (snd (delete_loop env st key hs e km errs)) = fmfilter (\<lambda>x. x \<notin> set hs) km"
proof (induction env st key hs e km errs rule: delete_loop.induct)
  case (1 env st key e km errs)
  show ?case by (intro fmap_ext) simp
next
  case (2 env st key h hs e km errs)
  show ?case
  proof (cases "delete_host_deployspec env st e h key")
    case (Pair e' err)
    have "fmfilter (\<lambda>x. x \<notin> set hs) (fmdrop h km) = fmfilter (\<lambda>x. x \<notin> set (h # hs)) km"
      by (intro fmap_ext) auto
    then show ?thesis using 2 [OF Pair [symmetric]] Pair by simp
  qed
qed

lemma list_host_configs_norm:
  "list_host_configs m key = fm_norm (case fmlookup (hc_cfgs m) key of None \<Rightarrow> fmempty | Some km \<Rightarrow> km)"
  by (simp add: list_host_configs_def fm_norm_def Let_def)

lemma list_set_host_config:
  "list_host_configs (fst (set_host_config env m k hid spec)) k' =
     (if k' = k then Some (fmupd hid spec (gm_map (list_host_configs m k))) else list_host_configs m k')"
  by (simp add: list_host_configs_norm set_host_config_def Let_def split: prod.split)

lemma list_delete_host_configs:
  "list_host_configs (fst (delete_host_configs env m k hids)) k' =
     (if k' = k then fm_norm (fmfilter (\<lambda>x. x \<notin> set hids) (gm_map (list_host_configs m k)))
      else list_host_configs m k')"
proof (cases "fmlookup (hc_cfgs m) k")
  case None
  moreover have "fmfilter (\<lambda>x. x \<notin> set hids) fmempty = (fmempty :: (bytes, deploy_spec) fmap)"
    by (intro fmap_ext) simp
  ultimately show ?thesis by (simp add: list_host_configs_norm delete_host_configs_def)
next
  case (Some km)
  have "fst (snd (delete_loop env (hc_stage m) k hids (hc_etcd m) km [])) = fmfilter (\<lambda>x. x \<notin> set hids) km"
    by (rule delete_loop_map)
  then show ?thesis using Some
    by (auto simp: list_host_configs_norm delete_host_configs_def split: prod.split)
qed

interpretation hc: host_config_manager "hc_iface env" for env :: "'e hc_env"
proof unfold_locales
  fix h :: "'e hc_manager" and k k' hid hids spec
  show "hcm_list (hc_iface env) (fst (hcm_set (hc_iface env) h k hid spec)) k' =
      (if k' = k then Some (fmupd hid spec (gm_map (hcm_list (hc_iface env) h k))) else hcm_list (hc_iface env) h k')"
    by (simp add: list_set_host_config)
  show "hcm_list (hc_iface env) (fst (hcm_delete (hc_iface env) h k hids)) k' =
      (if k' = k then fm_norm (fmfilter (\<lambda>x. x \<notin> set hids) (gm_map (hcm_list (hc_iface env) h k)))
       else hcm_list (hc_iface env) h k')"
    by (simp add: list_delete_host_configs)
  show "hcm_list (hc_iface env) h k = fm_norm (gm_map (hcm_list (hc_iface env) h k))"
    by (simp add: list_host_configs_norm)
  show "hcm_get (hc_iface env) h k hid = (case hcm_list (hc_iface env) h k of None \<Rightarrow> None
       | Some f \<Rightarrow> Some (case fmlookup f hid of None \<Rightarrow> zero_spec | Some spec \<Rightarrow> spec))"
    by (simp add: get_host_config_def list_host_configs_def Let_def)
qed

subsection \<open>Loading\<close>

text \<open>
  One round of the loop of \<open>loadHostDeploySpec\<close> over the names listed below the directory of the hosts.  The
  key and the host are split at the last slash.
\<close>

definition load_step ::
  "(bytes, (bytes, deploy_spec) fmap) fmap \<Rightarrow> bytes \<times> deploy_spec \<Rightarrow> (bytes, (bytes, deploy_spec) fmap) fmap" where
  "load_step ret ks =
     (case ks of (k, spec) \<Rightarrow>
        (case last_index k CHR ''/'' of
           None \<Rightarrow> ret
         | Some idx \<Rightarrow>
             (let key = take idx k; hid = drop (idx + 1) k;
                  hmap = (case fmlookup ret key of None \<Rightarrow> fmempty | Some hmap \<Rightarrow> hmap)
              in fmupd key (fmupd hid spec hmap) ret)))"

text \<open>\<open>ks\<close> is the order in which the loop visits the map that \<open>List\<close> filled.\<close>

definition load_host_deploy_spec ::
  "'e hc_env \<Rightarrow> stage \<Rightarrow> 'e \<Rightarrow> bytes list \<Rightarrow> store_error + (bytes, (bytes, deploy_spec) fmap) fmap" where
  "load_host_deploy_spec env st e ks =
     (let dir = deploy_host_expect_dir st in
      case he_conn env e of
        Some err \<Rightarrow> Inl err
      | None \<Rightarrow>
          (case store_list_map (he_kv env) (he_codec env) dir e dir (\<lambda>v. True) fmempty of
             (out, Some err) \<Rightarrow> Inl err
           | (out, None) \<Rightarrow> Inr (foldl load_step fmempty (map (\<lambda>k. (k, the (fmlookup out k))) ks))))"

definition new_hc_manager ::
  "'e hc_env \<Rightarrow> stage \<Rightarrow> 'e \<Rightarrow> bytes list \<Rightarrow> store_error + 'e hc_manager" where
  "new_hc_manager env st e ks =
     (case load_host_deploy_spec env st e ks of
        Inl err \<Rightarrow> Inl err
      | Inr cfg \<Rightarrow> Inr \<lparr>hc_stage = st, hc_cfgs = cfg, hc_etcd = e\<rparr>)"

definition spec_at :: "(bytes, (bytes, deploy_spec) fmap) fmap \<Rightarrow> bytes \<Rightarrow> bytes \<Rightarrow> deploy_spec option" where
  "spec_at c k h = Option.bind (fmlookup c k) (\<lambda>m. fmlookup m h)"

lemma spec_at_empty [simp]: "spec_at fmempty k h = None"
  by (simp add: spec_at_def)

lemma spec_at_list: "spec_at (hc_cfgs m) k h = fmlookup (gm_map (list_host_configs m k)) h"
  by (simp add: spec_at_def list_host_configs_norm split: option.split)

lemma load_step_at:
  assumes "CHR ''/'' \<notin> set h"
  shows "spec_at (load_step c (k', spec)) k h = (if k' = k @ CHR ''/'' # h then Some spec else spec_at c k h)"
proof (cases "last_index k' CHR ''/''")
  case None
  then have "k' \<noteq> k @ CHR ''/'' # h" using last_index_append_hit [OF assms] by (metis option.distinct(1))
  then show ?thesis using None by (simp add: load_step_def del: last_index_None)
next
  case (Some i)
  note s = last_index_Some [OF Some]
  have split: "k' = take i k' @ CHR ''/'' # drop (Suc i) k'" using s id_take_nth_drop [of i k'] by metis
  have "k' = k @ CHR ''/'' # h \<longleftrightarrow> take i k' = k \<and> drop (Suc i) k' = h"
  proof
    assume a: "k' = k @ CHR ''/'' # h"
    then have "i = length k" using Some assms by (metis last_index_append_hit option.inject)
    then show "take i k' = k \<and> drop (Suc i) k' = h" using a by simp
  qed (use split in auto)
  then show ?thesis using Some
    by (auto simp: load_step_def spec_at_def Let_def split: option.splits)
qed

lemma load_all_at:
  assumes "CHR ''/'' \<notin> set h" "distinct (map fst l)"
  shows "spec_at (foldl load_step c l) k h =
    (case map_of l (k @ CHR ''/'' # h) of None \<Rightarrow> spec_at c k h | Some spec \<Rightarrow> Some spec)"
  using assms(2)
proof (induction l arbitrary: c)
  case (Cons kv l)
  obtain a b where kv: "kv = (a, b)" by (cases kv)
  show ?case
  proof (cases "a = k @ CHR ''/'' # h")
    case True
    then have "map_of l (k @ CHR ''/'' # h) = None" using Cons(2) kv by (simp add: map_of_eq_None_iff)
    then show ?thesis using Cons True kv by (simp add: load_step_at [OF assms(1)])
  next
    case False
    then show ?thesis using Cons kv by (simp add: load_step_at [OF assms(1)] split: option.split)
  qed
qed simp

definition load_order :: "'e hc_env \<Rightarrow> stage \<Rightarrow> 'e \<Rightarrow> bytes list \<Rightarrow> bool" where
  "load_order env st e ks =
     fm_order (fst (store_list_map (he_kv env) (he_codec env) (deploy_host_expect_dir st) e
       (deploy_host_expect_dir st) (\<lambda>v. True) fmempty)) ks"

lemma load_lookup:
  assumes "kv_ok view (he_kv env)" "load_host_deploy_spec env st e ks = Inr c"
    "load_order env st e ks"
    "CHR ''/'' \<notin> set h"
  shows "spec_at c k h = Option.bind (view e (deploy_host_expect_dir st @ k @ CHR ''/'' # h)) (cd_decode (he_codec env))"
proof -
  let ?dir = "deploy_host_expect_dir st"
  obtain out where out: "store_list_map (he_kv env) (he_codec env) ?dir e ?dir (\<lambda>v. True) fmempty = (out, None)"
    and c: "c = foldl load_step fmempty (map (\<lambda>k. (k, the (fmlookup out k))) ks)"
    using assms(2) by (auto simp: load_host_deploy_spec_def Let_def split: option.splits prod.splits)
  have ord: "fm_order out ks" using assms(3) out by (simp add: load_order_def)
  then have "distinct ks" by (simp add: fm_order_def)
  have dk: "dir_key ?dir ?dir = ?dir"
    by (simp add: dir_key_def key_with_prefix_def has_prefix_iff deploy_host_expect_dir_def Let_def has_suffix_iff)
  have "map_of (map (\<lambda>k. (k, the (fmlookup out k))) ks) n = fmlookup out n" for n
    using fm_order_set [OF ord]
    by (auto simp: map_of_map_keys map_of_map_restrict restrict_map_def fmdom_notI fmlookup_dom_iff)
  then have "spec_at c k h = fmlookup out (k @ CHR ''/'' # h)"
    using load_all_at [OF assms(4), of "map (\<lambda>k. (k, the (fmlookup out k))) ks" fmempty k] \<open>distinct ks\<close>
    by (simp add: c o_def split: option.split)
  also have "\<dots> = Option.bind (view e (?dir @ k @ CHR ''/'' # h)) (cd_decode (he_codec env))"
  proof -
    have "fmlookup out (k @ CHR ''/'' # h) = Some v \<longleftrightarrow>
        Option.bind (view e (?dir @ k @ CHR ''/'' # h)) (cd_decode (he_codec env)) = Some v" for v
      using list_map_lookup [OF assms(1) out, of "k @ CHR ''/'' # h" v] by (simp add: dk bind_eq_Some_conv)
    then show ?thesis by (metis not_Some_eq)
  qed
  finally show ?thesis .
qed

subsection \<open>Properties\<close>

definition mem_env :: "(bytes \<times> bytes) list hc_env" where
  "mem_env = \<lparr>he_kv = mem_kv,
     he_codec = \<lparr>cd_encode = \<lambda>s. if ds_info s = None then Some ''n'' else if ds_info s = Some (fmupd ''v1'' 2 fmempty) then Some ''v'' else None,
       cd_decode = \<lambda>d. if d = ''n'' then Some zero_spec else if d = ''v'' then Some \<lparr>ds_info = Some (fmupd ''v1'' 2 fmempty)\<rparr> else None,
       cd_zero = zero_spec\<rparr>,
     he_conn = \<lambda>e. None\<rparr>"

definition empty_hc :: "stage \<Rightarrow> (bytes \<times> bytes) list hc_manager" where
  "empty_hc st = \<lparr>hc_stage = st, hc_cfgs = fmempty, hc_etcd = []\<rparr>"

lemma mem_env_codec: "cd_encode (he_codec mem_env) s = Some d \<Longrightarrow> cd_decode (he_codec mem_env) d = Some s"
  by (cases s) (auto simp: mem_env_def zero_spec_def split: if_splits)

text \<open>
  the manager is a map from deployments and hosts to specifications: what was set is read back and
  listed, a deleted host is not listed any more, other hosts and deployments stay as they are; all this
  holds whether or not the store can be written.
\<close>

theorem host_configs_map:
  "get_host_config (fst (set_host_config env m k h spec)) k h = Some spec
   \<and> gm_map (list_host_configs (fst (set_host_config env m k h spec)) k') =
       (if k' = k then fmupd h spec (gm_map (list_host_configs m k)) else gm_map (list_host_configs m k'))
   \<and> gm_map (list_host_configs (fst (delete_host_configs env m k hs)) k') =
       (if k' = k then fmfilter (\<lambda>x. x \<notin> set hs) (gm_map (list_host_configs m k))
        else gm_map (list_host_configs m k'))"
  using hc.get_after_set [of env m k h spec] hc.cfgs_set [of env m k h spec k']
    hc.cfgs_delete [of env m k hs k'] by simp

text \<open>The cache and the store have the same specifications, for host ids without a slash.\<close>

definition in_step :: "('e \<Rightarrow> bytes \<Rightarrow> bytes option) \<Rightarrow> 'e hc_env \<Rightarrow> 'e hc_manager \<Rightarrow> bool" where
  "in_step view env m \<longleftrightarrow>
     (\<forall>k h. CHR ''/'' \<notin> set h \<longrightarrow> spec_at (hc_cfgs m) k h =
        Option.bind (view (hc_etcd m) (deploy_host_expect_path_of (hc_stage m) h k)) (cd_decode (he_codec env)))"

lemma expect_path_prefix_self [simp]:
  "key_with_prefix (deploy_host_expect_path_of st h k) (deploy_host_expect_path_of st h k) =
   deploy_host_expect_path_of st h k"
  by (simp add: key_with_prefix_def has_prefix_iff)

lemma set_deployspec_view:
  assumes "kv_ok view (he_kv env)" "set_host_deployspec env st e h k spec = (e', None)"
  shows "\<exists>d. cd_encode (he_codec env) spec = Some d \<and> view e' = (view e)(deploy_host_expect_path_of st h k \<mapsto> d)"
proof -
  obtain r where "store_update (he_kv env) (he_codec env) (deploy_host_expect_path_of st h k) e
      (deploy_host_expect_path_of st h k) spec False 0 = (e', Inr r)"
    using assms(2) by (auto simp: set_host_deployspec_def Let_def split: option.splits prod.splits sum.splits)
  from store_update_view [OF assms(1) this] show ?thesis by simp
qed

lemma delete_deployspec_view:
  assumes "kv_ok view (he_kv env)" "delete_host_deployspec env st e h k = (e', None)"
  shows "view e' = (view e)(deploy_host_expect_path_of st h k := None)"
proof -
  obtain r where "store_delete (he_kv env) (he_codec env) (deploy_host_expect_path_of st h k) e
      (deploy_host_expect_path_of st h k) False = (e', Inr r)"
    using assms(2) by (auto simp: delete_host_deployspec_def Let_def split: option.splits prod.splits sum.splits)
  from store_delete_view [OF assms(1) this] show ?thesis by simp
qed

lemma delete_loop_errs: "\<exists>es. snd (snd (delete_loop env st key hs e km errs)) = errs @ es"
proof (induction env st key hs e km errs rule: delete_loop.induct)
  case (2 env st key h hs e km errs)
  then show ?case by (cases "delete_host_deployspec env st e h key") (force split: option.split)
qed simp

lemma delete_loop_view:
  assumes "kv_ok view (he_kv env)"
  shows "delete_loop env st key hs e km [] = (e', km', []) \<Longrightarrow>
    view e' p = (if p \<in> (\<lambda>h. deploy_host_expect_path_of st h key) ` set hs then None else view e p)"
proof (induction hs arbitrary: e km)
  case (Cons h hs)
  obtain e1 err where d: "delete_host_deployspec env st e h key = (e1, err)" by fastforce
  have "err = None"
  proof (rule ccontr)
    assume "err \<noteq> None"
    then obtain er where "delete_loop env st key hs e1 (fmdrop h km) [er] = (e', km', [])"
      using Cons.prems d by auto
    then show False using delete_loop_errs [of env st key hs e1 "fmdrop h km" "[er]"] by simp
  qed
  then have "delete_loop env st key hs e1 (fmdrop h km) [] = (e', km', [])"
    using Cons.prems d by simp
  from Cons.IH [OF this] show ?case
    using delete_deployspec_view [OF assms d [unfolded \<open>err = None\<close>]] by auto
qed auto

text \<open>
  C13: as long as the store answers, the manager keeps memory and store in step: a write or a deletion that
  returns no error changes both in the same way.
\<close>

theorem writes_keep_in_step:
  assumes "kv_ok view (he_kv env)"
    "\<And>d. cd_encode (he_codec env) spec = Some d \<Longrightarrow> cd_decode (he_codec env) d = Some spec"
    "hc_stage m \<in> fst ` set stages" "in_step view env m" "CHR ''/'' \<notin> set h" "\<forall>x \<in> set hs. CHR ''/'' \<notin> set x"
  shows "(set_host_config env m k h spec = (m1, None) \<longrightarrow> in_step view env m1)
    \<and> (delete_host_configs env m k hs = (m2, []) \<longrightarrow> in_step view env m2)"
proof -
  let ?p = "deploy_host_expect_path_of (hc_stage m)"
  have inj: "?p h' k' = ?p x k \<longleftrightarrow> h' = x \<and> k' = k" if "CHR ''/'' \<notin> set h'" "CHR ''/'' \<notin> set x" for h' x k'
    using expect_path_eqD [OF that assms(3,3)] by blast
  have at: "spec_at (hc_cfgs m) k' h' = Option.bind (view (hc_etcd m) (?p h' k')) (cd_decode (he_codec env))"
    if "CHR ''/'' \<notin> set h'" for k' h'
    using assms(4) that by (simp add: in_step_def)
  have "in_step view env m1" if s: "set_host_config env m k h spec = (m1, None)"
  proof -
    obtain e where e: "set_host_deployspec env (hc_stage m) (hc_etcd m) h k spec = (e, None)"
      and m1: "hc_stage m1 = hc_stage m" "hc_etcd m1 = e"
      using s by (auto simp: set_host_config_def Let_def split: prod.splits)
    have "spec_at (hc_cfgs m1) k' h' = (if k' = k \<and> h' = h then Some spec else spec_at (hc_cfgs m) k' h')" for k' h'
      using hc.cfgs_set [of env m k h spec k'] s by (auto simp: spec_at_list)
    then show ?thesis using set_deployspec_view [OF assms(1) e] assms(2,5)
      by (auto simp: in_step_def m1 at inj)
  qed
  moreover have "in_step view env m2" if d: "delete_host_configs env m k hs = (m2, [])"
  proof (cases "fmlookup (hc_cfgs m) k")
    case None
    then show ?thesis using d assms(4) by (simp add: delete_host_configs_def)
  next
    case (Some km)
    obtain e km' where e: "delete_loop env (hc_stage m) k hs (hc_etcd m) km [] = (e, km', [])"
      and m2: "hc_stage m2 = hc_stage m" "hc_etcd m2 = e"
      using d Some by (auto simp: delete_host_configs_def split: prod.splits)
    have s2: "spec_at (hc_cfgs m2) k' h' = (if k' = k \<and> h' \<in> set hs then None else spec_at (hc_cfgs m) k' h')" for k' h'
      using hc.cfgs_delete [of env m k hs k'] d by (auto simp: spec_at_list)
    have "?p h' k' \<in> (\<lambda>x. ?p x k) ` set hs \<longleftrightarrow> k' = k \<and> h' \<in> set hs" if "CHR ''/'' \<notin> set h'" for k' h'
      using inj [OF that] assms(6) by (auto simp: image_iff)
    then show ?thesis using delete_loop_view [OF assms(1) e] at
      by (auto simp: in_step_def m2 s2)
  qed
  ultimately show ?thesis by blast
qed

definition two_of_v1 :: deploy_spec where
  "two_of_v1 = \<lparr>ds_info = Some (fmupd ''v1'' 2 fmempty)\<rparr>"

definition one_host :: "(bytes \<times> bytes) list hc_manager" where
  "one_host = fst (set_host_config mem_env (empty_hc Dev) ''java/crm'' ''h1'' two_of_v1)"

lemma mem_env_kv [simp]: "he_kv mem_env = mem_kv" "he_conn mem_env e = None"
  by (simp_all add: mem_env_def)

lemma one_host_eq:
  "one_host = \<lparr>hc_stage = Dev, hc_cfgs = fmupd ''java/crm'' (fmupd ''h1'' two_of_v1 fmempty) fmempty,
     hc_etcd = [(deploy_host_expect_path_of Dev ''h1'' ''java/crm'', ''v'')]\<rparr>"
  "snd (set_host_config mem_env (empty_hc Dev) ''java/crm'' ''h1'' two_of_v1) = None"
proof -
  have "cd_encode (he_codec mem_env) two_of_v1 = Some ''v''" by (simp add: mem_env_def two_of_v1_def)
  then have "set_host_config mem_env (empty_hc Dev) ''java/crm'' ''h1'' two_of_v1 =
      (\<lparr>hc_stage = Dev, hc_cfgs = fmupd ''java/crm'' (fmupd ''h1'' two_of_v1 fmempty) fmempty,
        hc_etcd = [(deploy_host_expect_path_of Dev ''h1'' ''java/crm'', ''v'')]\<rparr>, None)"
    by (simp add: set_host_config_def empty_hc_def set_host_deployspec_def store_update_def Let_def
        ttl_opts_def mem_kv_def)
  then show "one_host = \<lparr>hc_stage = Dev, hc_cfgs = fmupd ''java/crm'' (fmupd ''h1'' two_of_v1 fmempty) fmempty,
     hc_etcd = [(deploy_host_expect_path_of Dev ''h1'' ''java/crm'', ''v'')]\<rparr>"
    "snd (set_host_config mem_env (empty_hc Dev) ''java/crm'' ''h1'' two_of_v1) = None"
    by (simp_all add: one_host_def)
qed

lemma Dev_stage: "Dev \<in> fst ` set stages"
  by (simp add: stages_def)

theorem writes_keep_in_step_witness: "in_step map_of mem_env one_host"
proof -
  have ok: "kv_ok map_of (he_kv mem_env)" by (simp add: mem_kv_ok)
  have st: "hc_stage (empty_hc Dev) \<in> fst ` set stages" by (simp add: empty_hc_def Dev_stage)
  have i: "in_step map_of mem_env (empty_hc Dev)" by (simp add: in_step_def empty_hc_def)
  have "set_host_config mem_env (empty_hc Dev) ''java/crm'' ''h1'' two_of_v1 = (one_host, None)"
    using one_host_eq(2) by (simp add: one_host_def prod_eq_iff)
  then show ?thesis
    using writes_keep_in_step [OF ok mem_env_codec [of two_of_v1] st i,
        where h = "''h1''" and hs = "[]" and k = "''java/crm''"] by simp
qed

text \<open>
  a manager that starts on a store that was written by another one mixes up hosts and deployments: the
  specification that was stored for host \<open>h\<close> of the deployment \<open>ty/name\<close> is loaded as the one of a host called
  \<open>name\<close> of a deployment called \<open>h/ty\<close>, because the name is split at its last slash.
\<close>

theorem reload_swaps:
  assumes "kv_ok view (he_kv env)" "load_order env st e ks" "new_hc_manager env st e ks = Inr m"
    "CHR ''/'' \<notin> set name"
  shows "spec_at (hc_cfgs m) (deploy_key h ty) name =
    Option.bind (view e (deploy_host_expect_path_of st h (deploy_key ty name))) (cd_decode (he_codec env))"
proof -
  have l: "load_host_deploy_spec env st e ks = Inr (hc_cfgs m)"
    using assms(3) by (auto simp: new_hc_manager_def split: sum.splits)
  show ?thesis using load_lookup [OF assms(1) l assms(2,4), of "deploy_key h ty"]
    by (simp add: deploy_host_expect_path_of_def deploy_host_expect_dir_of_def deploy_key_def)
qed

theorem reload_swaps_witness:
  "\<exists>m. new_hc_manager mem_env Dev (hc_etcd one_host) [''h1/java/crm''] = Inr m
     \<and> spec_at (hc_cfgs one_host) ''java/crm'' ''h1'' = Some two_of_v1
     \<and> spec_at (hc_cfgs m) ''java/crm'' ''h1'' = None
     \<and> spec_at (hc_cfgs m) ''h1/java'' ''crm'' = Some two_of_v1"
proof -
  let ?dir = "deploy_host_expect_dir Dev"
  let ?e = "[(?dir @ ''h1/java/crm'', ''v'')]"
  have e: "hc_etcd one_host = ?e"
    by (simp add: one_host_eq deploy_host_expect_path_of_def deploy_host_expect_dir_of_def)
  have dk: "dir_key ?dir ?dir = ?dir"
    by (simp add: dir_key_def key_with_prefix_def has_prefix_iff deploy_host_expect_dir_def Let_def has_suffix_iff)
  have dec: "cd_decode (he_codec mem_env) ''v'' = Some two_of_v1"
    by (simp add: mem_env_def two_of_v1_def)
  have l: "store_list_map mem_kv (he_codec mem_env) ?dir ?e ?dir (\<lambda>v. True) fmempty =
      (fmupd ''h1/java/crm'' two_of_v1 fmempty, None)"
    by (simp add: store_list_map_def list_elems_def dk mem_kv_def decode_with_def dec)
  have o: "load_order mem_env Dev ?e [''h1/java/crm'']"
    by (simp add: load_order_def l fm_order_def)
  obtain m where m: "new_hc_manager mem_env Dev ?e [''h1/java/crm''] = Inr m"
    by (simp add: new_hc_manager_def load_host_deploy_spec_def l)
  have "spec_at (hc_cfgs m) ''h1/java'' ''crm'' = Some two_of_v1"
    using reload_swaps [of map_of mem_env Dev ?e "[''h1/java/crm'']" m "''crm''" "''h1''" "''java''"] mem_kv_ok o m
    by (simp add: deploy_key_def deploy_host_expect_path_of_def deploy_host_expect_dir_of_def dec)
  moreover have "spec_at (hc_cfgs m) ''java/crm'' ''h1'' = None"
    using load_lookup [of map_of mem_env Dev ?e "[''h1/java/crm'']" "hc_cfgs m" "''h1''" "''java/crm''"]
      mem_kv_ok o m by (auto simp: new_hc_manager_def split: sum.splits)
  ultimately show ?thesis using m by (simp add: e) (simp add: one_host_eq spec_at_def)
qed

text \<open>
  no deployment is left with an empty map of hosts: deleting the last host removes the deployment, so
  the deployments the manager lists are exactly those with a host.
\<close>

definition no_empty :: "'e hc_manager \<Rightarrow> bool" where
  "no_empty m \<longleftrightarrow> (\<forall>k. k |\<in>| list_deploy_keys m \<longleftrightarrow> list_host_configs m k \<noteq> None)"

theorem no_empty_deployment:
  assumes "no_empty m"
  shows "no_empty (fst (set_host_config env m k h spec)) \<and> no_empty (fst (delete_host_configs env m k hs))"
proof -
  have n: "no_empty x \<longleftrightarrow> (\<forall>k. fmlookup (hc_cfgs x) k \<noteq> Some fmempty)" for x :: "'a hc_manager"
    by (auto simp: no_empty_def list_deploy_keys_def list_host_configs_def Let_def fmlookup_dom_iff split: option.splits)
  have ne: "fmupd x y f \<noteq> fmempty" for x :: bytes and y :: deploy_spec and f
    using fm_norm_upd [of x y f] by (metis fm_norm_empty option.distinct(1))
  show ?thesis using assms ne unfolding n
    by (auto simp: set_host_config_def delete_host_configs_def Let_def split: prod.splits option.splits)
qed

theorem no_empty_deployment_witness:
  "''java/crm'' |\<in>| list_deploy_keys one_host
   \<and> ''java/crm'' |\<notin>| list_deploy_keys (fst (delete_host_configs mem_env one_host ''java/crm'' [''h1'']))"
proof -
  have "no_empty one_host"
    by (simp add: no_empty_def one_host_eq list_deploy_keys_def list_host_configs_def)
  then have "no_empty (fst (delete_host_configs mem_env one_host ''java/crm'' [''h1'']))"
    using no_empty_deployment by blast
  moreover have "list_host_configs (fst (delete_host_configs mem_env one_host ''java/crm'' [''h1''])) ''java/crm'' = None"
    by (simp add: list_delete_host_configs) (simp add: one_host_eq list_host_configs_def)
  moreover have "''java/crm'' |\<in>| list_deploy_keys one_host" by (simp add: one_host_eq list_deploy_keys_def)
  ultimately show ?thesis by (simp add: no_empty_def)
qed

end
