(* ===== verification/Replica.thy ===== *)
theory Replica
  imports HostConfigs "HOL-Library.List_Lexorder" "HOL-Library.Char_ord"
begin

text \<open>
  The controller of the instances of one deployment (\<open>controllers/scheduler/replica.go\<close>): it compares the
  specifications of the hosts with the deployment's configuration and adds, updates and removes instances.

  The controller works on the state \<open>'h\<close> of a \<open>HostConfigManager\<close>.  What the code does not determine is in
  \<open>sched_env\<close>: the order of loops over maps, the answers of \<open>NextHost\<close>, and, at each wait, whether the context
  is cancelled before the timer fires.
\<close>

subsection \<open>State\<close>

datatype sched_error = ErrNoHostMeetCondition | ErrHostShortOfResource | ErrAlreadyExists | ErrNoStatus bytes | SchedStore store_error

datatype rc_error =
  ArgsNil | DcError dc_error | StoreError "store_error list" | CtxError | HostError sched_error
| NotConsistent | LegacyWithoutTask int "rc_error list" | ExpectedNotRunning int | RunningDiffers

record sched_option =
  so_maxTries :: int
  so_cocurrency :: int
  so_legacyVerionTimeout :: int
  so_dryMode :: bool

text \<open>The timer is there or nil.\<close>

record ('f, 's) replica_ctrl =
  rc_opt :: sched_option
  rc_stage :: stage
  rc_key :: bytes
  rc_dc :: "('f, 's) deploy_config"
  rc_legacyTimer :: bool
  rc_expectVersion :: bytes

text \<open>What happens while an instance is to be added: the context is cancelled, or \<open>NextHost\<close> answers or panics.\<close>

datatype add_event = AddCancelled | HostChosen bytes | NoHost sched_error | NextPanics

record sched_env =
  se_hosts :: "nat \<Rightarrow> (bytes, deploy_spec) gmap \<Rightarrow> bytes list"
  se_vers :: "(bytes, int) gmap \<Rightarrow> bytes list"
  se_add :: "add_event list"
  se_ticks :: "bool list"

definition new_replica_ctrl ::
  "(bytes \<Rightarrow> 's option) \<Rightarrow> ('f, 's) deploy_config option \<Rightarrow> sched_option \<Rightarrow> rc_error + ('f, 's) replica_ctrl" where
  "new_replica_ctrl parse dc opt =
     (case dc of
        None \<Rightarrow> Inl ArgsNil
      | Some c \<Rightarrow>
          (case dc_validate parse c of
             Inl e \<Rightarrow> Inl (DcError e)
           | Inr d \<Rightarrow>
               (let version = (case dc_imageVersion d of None \<Rightarrow> [] | Some v \<Rightarrow> v)
                in Inr \<lparr>rc_opt = opt, rc_stage = dc_stage d, rc_key = dc_key d, rc_dc = d,
                     rc_legacyTimer = False, rc_expectVersion = version\<rparr>)))"

subsection \<open>Counting\<close>

text \<open>The instances of the expected version and of the others; sums do not depend on the order.\<close>

definition info_exp :: "bytes \<Rightarrow> (bytes, int) gmap \<Rightarrow> int" where
  "info_exp ver i = gm_get 0 i ver"

definition info_unexp :: "bytes \<Rightarrow> (bytes, int) gmap \<Rightarrow> int" where
  "info_unexp ver i = fm_sum id (fmfilter (\<lambda>v. v \<noteq> ver) (gm_map i))"

definition hc_stat :: "bytes \<Rightarrow> (bytes, deploy_spec) gmap \<Rightarrow> int \<times> int" where
  "hc_stat ver hc =
     (fm_sum (\<lambda>s. info_exp ver (ds_info s)) (gm_map hc), fm_sum (\<lambda>s. info_unexp ver (ds_info s)) (gm_map hc))"

subsection \<open>One instance\<close>

definition put_spec ::
  "'h hcm_iface \<Rightarrow> bytes \<Rightarrow> bytes \<Rightarrow> deploy_spec \<Rightarrow> 'h \<Rightarrow> 'h \<times> rc_error list" where
  "put_spec ifc key x spec h =
     (case hcm_set ifc h key x spec of (h', None) \<Rightarrow> (h', []) | (h', Some e) \<Rightarrow> (h', [StoreError [e]]))"

definition drop_hosts :: "'h hcm_iface \<Rightarrow> bytes \<Rightarrow> bytes list \<Rightarrow> 'h \<Rightarrow> 'h \<times> rc_error list" where
  "drop_hosts ifc key xs h =
     (case hcm_delete ifc h key xs of (h', es) \<Rightarrow> (h', if es = [] then [] else [StoreError es]))"

text \<open>Writing the map of a specification that has none panics.\<close>

definition add_one_instance ::
  "'h hcm_iface \<Rightarrow> ('f, 's) replica_ctrl \<Rightarrow> bytes \<Rightarrow> 'h \<Rightarrow> ('h \<times> rc_error list) go" where
  "add_one_instance ifc c x h =
     (let spec = (case hcm_get ifc h (rc_key c) x of None \<Rightarrow> zero_spec | Some s \<Rightarrow> s);
          nv = rc_expectVersion c;
          num = gm_get 0 (ds_info spec) nv
      in map_option (\<lambda>i. put_spec ifc (rc_key c) x (spec\<lparr>ds_info := i\<rparr>) h)
           (gm_set nv (num + 1) (ds_info spec)))"

text \<open>The decremented count is not written back unless it reached zero.\<close>

definition remove_one_instance ::
  "'h hcm_iface \<Rightarrow> ('f, 's) replica_ctrl \<Rightarrow> bytes \<Rightarrow> bytes \<Rightarrow> 'h \<Rightarrow> 'h \<times> rc_error list" where
  "remove_one_instance ifc c ver x h =
     (case hcm_get ifc h (rc_key c) x of
        None \<Rightarrow> (h, [])
      | Some spec \<Rightarrow>
          (case gm_look (ds_info spec) ver of
             None \<Rightarrow> (h, [])
           | Some v \<Rightarrow>
               (let i = (if v - 1 \<le> 0 then gm_del ver (ds_info spec) else ds_info spec) in
                if gm_len i = 0 then drop_hosts ifc (rc_key c) [x] h
                else put_spec ifc (rc_key c) x (spec\<lparr>ds_info := i\<rparr>) h)))"

definition update_one_instance ::
  "'h hcm_iface \<Rightarrow> ('f, 's) replica_ctrl \<Rightarrow> bytes \<Rightarrow> bytes \<Rightarrow> 'h \<Rightarrow> ('h \<times> rc_error list) go" where
  "update_one_instance ifc c x oldVer h =
     (if rc_expectVersion c = oldVer then Some (h, [])
      else case hcm_get ifc h (rc_key c) x of
        None \<Rightarrow> Some (h, [])
      | Some spec \<Rightarrow>
          (case gm_look (ds_info spec) oldVer of
             None \<Rightarrow> Some (h, [])
           | Some v \<Rightarrow>
               (let i = (if v - 1 \<le> 0 then gm_del oldVer (ds_info spec) else ds_info spec);
                    newVal = gm_get 0 i (rc_expectVersion c)
                in map_option (\<lambda>j. put_spec ifc (rc_key c) x (spec\<lparr>ds_info := j\<rparr>) h)
                     (gm_set (rc_expectVersion c) (newVal + 1) i))))"

subsection \<open>Removing the instances of other versions\<close>

fun remove_legacy_loop ::
  "'h hcm_iface \<Rightarrow> bytes \<Rightarrow> bytes \<Rightarrow> (bytes, deploy_spec) fmap \<Rightarrow> bytes list \<Rightarrow> 'h \<Rightarrow> rc_error list
     \<Rightarrow> 'h \<times> rc_error list" where
  "remove_legacy_loop ifc key ver hc [] h errs = (h, errs)"
| "remove_legacy_loop ifc key ver hc (x # xs) h errs =
     (let cfg = the (fmlookup hc x);
          i = map_option (fmfilter (\<lambda>v. v = ver)) (ds_info cfg);
          needUpdate = (i \<noteq> ds_info cfg);
          (h', es) = (if gm_len i \<le> 0 then drop_hosts ifc key [x] h
                      else if needUpdate then put_spec ifc key x (cfg\<lparr>ds_info := i\<rparr>) h
                      else (h, []))
      in remove_legacy_loop ifc key ver hc xs h' (errs @ es))"

definition remove_legacy_configs ::
  "'h hcm_iface \<Rightarrow> sched_env \<Rightarrow> ('f, 's) replica_ctrl \<Rightarrow> 'h \<Rightarrow> 'h \<times> rc_error list" where
  "remove_legacy_configs ifc env c h =
     (let hc = hcm_list ifc h (rc_key c)
      in remove_legacy_loop ifc (rc_key c) (rc_expectVersion c) (gm_map hc) (se_hosts env 0 hc) h [])"

subsection \<open>Updating instances to the expected version\<close>

text \<open>The new counts of a host: one instance of \<open>old\<close> becomes one of the expected version.\<close>

definition move_one :: "bytes \<Rightarrow> bytes \<Rightarrow> (bytes, int) fmap \<Rightarrow> (bytes, int) fmap" where
  "move_one ver old f =
     (let n = the (fmlookup f old);
          g = fmupd ver ((case fmlookup f ver of None \<Rightarrow> 0 | Some v \<Rightarrow> v) + 1) f;
          m = n - 1
      in if m = 0 then fmdrop old g else fmupd old m g)"

fun update_loop ::
  "'h hcm_iface \<Rightarrow> ((bytes, int) gmap \<Rightarrow> bytes list) \<Rightarrow> bytes \<Rightarrow> bytes \<Rightarrow> (bytes, deploy_spec) fmap \<Rightarrow> bytes list
     \<Rightarrow> bool list \<Rightarrow> int \<Rightarrow> int \<Rightarrow> 'h \<Rightarrow> rc_error list \<Rightarrow> 'h \<times> int \<times> rc_error list" where
  "update_loop ifc vers key ver hc [] ticks num count h errs = (h, count, errs)"
| "update_loop ifc vers key ver hc (x # xs) ticks num count h errs =
     (let cfg = the (fmlookup hc x); info = ds_info cfg in
      if (gm_len info = 1 \<and> gm_look info ver \<noteq> None) \<or> gm_len info = 0
      then update_loop ifc vers key ver hc xs ticks num count h errs
      else case find (\<lambda>v. v \<noteq> ver) (vers info) of
        None \<Rightarrow> update_loop ifc vers key ver hc xs ticks num count h errs
      | Some old \<Rightarrow>
          if count \<ge> num then (h, num, [])
          else
            (case put_spec ifc key x (cfg\<lparr>ds_info := map_option (move_one ver old) info\<rparr>) h of
               (h', es) \<Rightarrow>
                 (case ticks of
                    True # _ \<Rightarrow> (h', count + 1, errs @ es @ [CtxError])
                  | False # ts \<Rightarrow> update_loop ifc vers key ver hc xs ts num (count + 1) h' (errs @ es)
                  | [] \<Rightarrow> update_loop ifc vers key ver hc xs [] num (count + 1) h' (errs @ es))))"

text \<open>The number of instances updated and the errors.\<close>

definition update_instances ::
  "'h hcm_iface \<Rightarrow> sched_env \<Rightarrow> ('f, 's) replica_ctrl \<Rightarrow> int \<Rightarrow> 'h \<Rightarrow> 'h \<times> int \<times> rc_error list" where
  "update_instances ifc env c num h =
     (if num \<le> 0 then (h, 0, [])
      else
        (let hc = hcm_list ifc h (rc_key c);
             (_, numUnexp) = hc_stat (rc_expectVersion c) hc;
             num = (if num > numUnexp then numUnexp else num)
         in update_loop ifc (se_vers env) (rc_key c) (rc_expectVersion c) (gm_map hc) (se_hosts env 0 hc)
              (se_ticks env) num 0 h []))"

subsection \<open>Adding instances\<close>

text \<open>A host that cannot be found is an error, but the loop goes on asking.\<close>

fun add_loop ::
  "'h hcm_iface \<Rightarrow> ('f, 's) replica_ctrl \<Rightarrow> add_event list \<Rightarrow> int \<Rightarrow> 'h \<Rightarrow> rc_error list
     \<Rightarrow> ('h \<times> rc_error list) outcome" where
  "add_loop ifc c [] num h errs = (if num > 0 then Waits else Returns (h, errs))"
| "add_loop ifc c (ev # evs) num h errs =
     (if num > 0 then
        (case ev of
           AddCancelled \<Rightarrow> Returns (h, errs @ [CtxError])
         | NextPanics \<Rightarrow> Panics
         | NoHost e \<Rightarrow> add_loop ifc c evs num h (errs @ [HostError e])
         | HostChosen x \<Rightarrow>
             (case add_one_instance ifc c x h of
                None \<Rightarrow> Panics
              | Some (h', es) \<Rightarrow> add_loop ifc c evs (num - 1) h' (errs @ es)))
      else Returns (h, errs))"

definition add_instances ::
  "'h hcm_iface \<Rightarrow> sched_env \<Rightarrow> ('f, 's) replica_ctrl \<Rightarrow> int \<Rightarrow> 'h \<Rightarrow> ('h \<times> rc_error list) outcome" where
  "add_instances ifc env c num h = add_loop ifc c (se_add env) num h []"

subsection \<open>Removing instances of the expected version\<close>

text \<open>
  One round over the hosts: \<open>Inl\<close> if the call returns in it, with the number it returns, \<open>Inr\<close> with the
  number still to remove and the remaining waits if the round ends.
\<close>

fun remove_round ::
  "'h hcm_iface \<Rightarrow> ('f, 's) replica_ctrl \<Rightarrow> (bytes, deploy_spec) fmap \<Rightarrow> bytes list \<Rightarrow> bool list \<Rightarrow> int \<Rightarrow> int \<Rightarrow> 'h
     \<Rightarrow> ('h \<times> int \<times> rc_error list) + ('h \<times> int \<times> bool list)" where
  "remove_round ifc c hc [] ticks count num h = Inr (h, num, ticks)"
| "remove_round ifc c hc (x # xs) ticks count num h =
     (if gm_look (ds_info (the (fmlookup hc x))) (rc_expectVersion c) = None
      then remove_round ifc c hc xs ticks count num h
      else
        (case remove_one_instance ifc c (rc_expectVersion c) x h of
           (h', es) \<Rightarrow>
             if es \<noteq> [] then Inl (h', count - num, es)
             else if num - 1 < 0 then Inl (h', count, [])
             else
               (case ticks of
                  True # _ \<Rightarrow> Inl (h', count - (num - 1), [CtxError])
                | False # ts \<Rightarrow> remove_round ifc c hc xs ts count (num - 1) h'
                | [] \<Rightarrow> remove_round ifc c hc xs [] count (num - 1) h')))"

text \<open>
  The loop \<open>for num > 0\<close>: \<open>fuel\<close> bounds its rounds, and a call that has not returned by then waits.
  \<open>n\<close> counts the rounds.
\<close>

fun remove_rounds ::
  "'h hcm_iface \<Rightarrow> sched_env \<Rightarrow> ('f, 's) replica_ctrl \<Rightarrow> nat \<Rightarrow> nat \<Rightarrow> bool list \<Rightarrow> int \<Rightarrow> int \<Rightarrow> 'h
     \<Rightarrow> ('h \<times> int \<times> rc_error list) outcome" where
  "remove_rounds ifc env c 0 n ticks count num h = (if num > 0 then Waits else Returns (h, count, []))"
| "remove_rounds ifc env c (Suc fuel) n ticks count num h =
     (if num > 0 then
        (let hc = hcm_list ifc h (rc_key c) in
         case remove_round ifc c (gm_map hc) (se_hosts env n hc) ticks count num h of
           Inl res \<Rightarrow> Returns res
         | Inr (h', num', ticks') \<Rightarrow> remove_rounds ifc env c fuel (Suc n) ticks' count num' h')
      else Returns (h, count, []))"

definition remove_expect_instances ::
  "'h hcm_iface \<Rightarrow> sched_env \<Rightarrow> ('f, 's) replica_ctrl \<Rightarrow> int \<Rightarrow> 'h \<Rightarrow> ('h \<times> int \<times> rc_error list) outcome" where
  "remove_expect_instances ifc env c num h =
     remove_rounds ifc env c (nat num) 0 (se_ticks env) num num h"

subsection \<open>The update policies\<close>

text \<open>
  \<open>numUpdate\<close> is what is missing of the expected version.  What exceeds the number of old instances is
  added, the rest replaces old ones, and then every old instance that is left is removed.
\<close>

definition rolling_update ::
  "'h hcm_iface \<Rightarrow> sched_env \<Rightarrow> ('f, 's) replica_ctrl \<Rightarrow> 'h \<Rightarrow> ('h \<times> rc_error list) outcome" where
  "rolling_update ifc env c h =
     (let (numExp, numUnexp) = hc_stat (rc_expectVersion c) (hcm_list ifc h (rc_key c));
          numUpdate = dc_numOfInstance (rc_dc c) - numExp
      in if numUpdate = 0 then Returns (remove_legacy_configs ifc env c h)
         else if numUpdate < 0 then
           (case remove_expect_instances ifc env c (- numUpdate) h of
              Returns (h1, _, es) \<Rightarrow> if es \<noteq> [] then Returns (h1, es) else Returns (remove_legacy_configs ifc env c h1)
            | Panics \<Rightarrow> Panics | Exits \<Rightarrow> Exits | Waits \<Rightarrow> Waits)
         else
           (let update = (\<lambda>num h1.
                  case update_instances ifc env c num h1 of
                    (h2, n, es) \<Rightarrow> if es \<noteq> [] then Returns (h2, es) else Returns (remove_legacy_configs ifc env c h2))
            in if numUpdate > numUnexp then
                 (case add_instances ifc env c (numUpdate - numUnexp) h of
                    Returns (h1, es) \<Rightarrow> if es \<noteq> [] then Returns (h1, es) else update numUnexp h1
                  | Panics \<Rightarrow> Panics | Exits \<Rightarrow> Exits | Waits \<Rightarrow> Waits)
               else update numUpdate h))"

definition new_deploy ::
  "'h hcm_iface \<Rightarrow> sched_env \<Rightarrow> ('f, 's) replica_ctrl \<Rightarrow> 'h \<Rightarrow> ('h \<times> ('f, 's) replica_ctrl \<times> rc_error list) outcome" where
  "new_deploy ifc env c h =
     (case add_instances ifc env c (dc_numOfInstance (rc_dc c)) h of
        Returns (h1, es) \<Rightarrow>
          if es \<noteq> [] then Returns (h1, c, es) else Returns (h1, c\<lparr>rc_legacyTimer := True\<rparr>, [])
      | Panics \<Rightarrow> Panics | Exits \<Rightarrow> Exits | Waits \<Rightarrow> Waits)"

text \<open>
  \<open>new_num\<close> is the smallest integer above the product of the number of instances and the \<open>float64\<close> \<open>NewPercent\<close>.
  The timer the deferred function starts replaces one that is there; if there is none it starts none.
\<close>

definition mix_update ::
  "(int \<Rightarrow> 'f \<Rightarrow> int) \<Rightarrow> 'h hcm_iface \<Rightarrow> sched_env \<Rightarrow> ('f, 's) replica_ctrl \<Rightarrow> 'h \<Rightarrow> ('h \<times> rc_error list) outcome" where
  "mix_update new_num ifc env c h =
     (let N = dc_numOfInstance (rc_dc c);
          (numExp, numUnexp) = hc_stat (rc_expectVersion c) (hcm_list ifc h (rc_key c))
      in if numExp > N then
           (case remove_expect_instances ifc env c (numExp - N) h of
              Returns (h1, _, es) \<Rightarrow> Returns (h1, es)
            | Panics \<Rightarrow> Panics | Exits \<Rightarrow> Exits | Waits \<Rightarrow> Waits)
         else if numExp \<ge> N then Returns (h, [])
         else
           (case dc_updatePolicy (rc_dc c) of
              None \<Rightarrow> Panics
            | Some upo \<Rightarrow>
                (let numLegacy = new_num N (uo_newPercent upo);
                     numUpdate = numUnexp - numLegacy
                 in if numUpdate \<le> 0 then add_instances ifc env c (N - numExp) h
                    else
                      (let numNew = N - numUpdate;
                           update = (\<lambda>h1. if numUpdate > N
                             then (case update_instances ifc env c N h1 of (h2, _, es) \<Rightarrow> Returns (h2, es))
                             else Returns (h1, []))
                       in if numNew > 0 then
                            (case add_instances ifc env c numNew h of
                               Returns (h1, es) \<Rightarrow> if es \<noteq> [] then Returns (h1, es) else update h1
                             | Panics \<Rightarrow> Panics | Exits \<Rightarrow> Exits | Waits \<Rightarrow> Waits)
                          else update h))))"

definition with_ctrl :: "('f, 's) replica_ctrl \<Rightarrow> ('h \<times> rc_error list) outcome
    \<Rightarrow> ('h \<times> ('f, 's) replica_ctrl \<times> rc_error list) outcome" where
  "with_ctrl c r =
     (case r of Returns (h, es) \<Rightarrow> Returns (h, c, es) | Panics \<Rightarrow> Panics | Exits \<Rightarrow> Exits | Waits \<Rightarrow> Waits)"

text \<open>
  \<open>Deploy\<close> takes the new configuration over and runs its policy; the default policy of a configuration
  without one is written to the caller's configuration, not to the controller's copy.
\<close>

definition deploy ::
  "(int \<Rightarrow> 'f \<Rightarrow> int) \<Rightarrow> 'f \<Rightarrow> 'h hcm_iface \<Rightarrow> sched_env \<Rightarrow> ('f, 's) replica_ctrl \<Rightarrow> ('f, 's) deploy_config \<Rightarrow> 'h
     \<Rightarrow> ('h \<times> ('f, 's) replica_ctrl \<times> rc_error list) outcome" where
  "deploy new_num zero ifc env c config h =
     (let c1 = c\<lparr>rc_dc := config\<rparr>;
          upo = (case dc_updatePolicy config of None \<Rightarrow> default_update_option zero (dc_serviceType config) | Some u \<Rightarrow> Some u)
      in case upo of
           None \<Rightarrow> Panics
         | Some u \<Rightarrow>
             if uo_policy u = RollingUpdate then with_ctrl c1 (rolling_update ifc env c1 h)
             else if uo_policy u = NewDeploy then new_deploy ifc env c1 h
             else if uo_policy u = MixedUpdate then with_ctrl c1 (mix_update new_num ifc env c1 h)
             else Exits)"

text \<open>The function the timer runs when it fires.\<close>

definition legacy_timer_fires ::
  "'h hcm_iface \<Rightarrow> sched_env \<Rightarrow> ('f, 's) replica_ctrl \<Rightarrow> 'h \<Rightarrow> 'h \<times> ('f, 's) replica_ctrl" where
  "legacy_timer_fires ifc env c h =
     (if rc_legacyTimer c
      then (fst (remove_legacy_configs ifc env c h), c\<lparr>rc_legacyTimer := False\<rparr>)
      else (h, c))"

definition rc_destroy :: "'h hcm_iface \<Rightarrow> ('f, 's) replica_ctrl \<Rightarrow> 'h \<Rightarrow> 'h \<times> rc_error list" where
  "rc_destroy ifc c h = (let hs = [] in drop_hosts ifc (rc_key c) hs h)"

subsection \<open>The check of a deployment\<close>

text \<open>\<open>running\<close> has the version of every running instance.\<close>

definition check_status ::
  "'h hcm_iface \<Rightarrow> sched_env \<Rightarrow> ('f, 's) replica_ctrl \<Rightarrow> bytes list \<Rightarrow> 'h \<Rightarrow> 'h \<times> rc_error list" where
  "check_status ifc env c running h =
     (let (numExp, numUnexp) = hc_stat (rc_expectVersion c) (hcm_list ifc h (rc_key c)) in
      if numExp \<noteq> dc_numOfInstance (rc_dc c) then (h, [NotConsistent])
      else if numUnexp > 0 \<and> \<not> rc_legacyTimer c then
        (case remove_legacy_configs ifc env c h of (h', es) \<Rightarrow> (h', [LegacyWithoutTask numUnexp es]))
      else
        (let e = numExp - int (length (filter (\<lambda>v. v = rc_expectVersion c) running));
             u = numUnexp - int (length (filter (\<lambda>v. v \<noteq> rc_expectVersion c) running))
         in (h, (if e > 0 then [ExpectedNotRunning e] else if e < 0 then [ExpectedNotRunning e] else [])
                @ (if u \<noteq> 0 then [RunningDiffers] else []))))"

subsection \<open>Sums over maps\<close>

lemma fm_sum_over:
  assumes "finite D" "fset (fmdom f) \<subseteq> D"
  shows "fm_sum g f = (\<Sum>x \<in> D. case fmlookup f x of None \<Rightarrow> 0 | Some s \<Rightarrow> g s)"
proof -
  have "fm_sum g f = (\<Sum>x \<in> fset (fmdom f). case fmlookup f x of None \<Rightarrow> 0 | Some s \<Rightarrow> g s)"
    unfolding fm_sum_def by (rule sum.cong) (auto split: option.split simp: fmlookup_dom_iff)
  also have "\<dots> = (\<Sum>x \<in> D. case fmlookup f x of None \<Rightarrow> 0 | Some s \<Rightarrow> g s)"
    using assms by (intro sum.mono_neutral_left) (auto split: option.split simp: fmlookup_dom_iff)
  finally show ?thesis .
qed

lemma hc_stat_over:
  assumes "finite D" "fset (fmdom f) \<subseteq> D"
  shows "hc_stat ver (Some f) =
    ((\<Sum>x \<in> D. case fmlookup f x of None \<Rightarrow> 0 | Some s \<Rightarrow> info_exp ver (ds_info s)),
     (\<Sum>x \<in> D. case fmlookup f x of None \<Rightarrow> 0 | Some s \<Rightarrow> info_unexp ver (ds_info s)))"
  by (simp add: hc_stat_def fm_sum_over [OF assms])

lemma hc_stat_norm: "hc_stat ver (fm_norm f) = hc_stat ver (Some f)"
  by (simp add: hc_stat_def)

lemma hc_stat_upd:
  "hc_stat ver (Some (fmupd x s f)) =
     (fst (hc_stat ver (Some f)) - (case fmlookup f x of None \<Rightarrow> 0 | Some s \<Rightarrow> info_exp ver (ds_info s)) + info_exp ver (ds_info s),
      snd (hc_stat ver (Some f)) - (case fmlookup f x of None \<Rightarrow> 0 | Some s \<Rightarrow> info_unexp ver (ds_info s)) + info_unexp ver (ds_info s))"
  by (simp add: hc_stat_def fm_sum_upd)

lemma fmfilter_upd: "fmfilter P (fmupd k v f) = (if P k then fmupd k v (fmfilter P f) else fmfilter P f)"
  by (intro fmap_ext) auto

lemma fmfilter_drop: "fmfilter P (fmdrop k f) = (if P k then fmdrop k (fmfilter P f) else fmfilter P f)"
  by (intro fmap_ext) auto

lemma info_move_one:
  assumes "old \<noteq> ver" "fmlookup f old \<noteq> None"
  shows "info_exp ver (Some (move_one ver old f)) = info_exp ver (Some f) + 1"
    and "info_unexp ver (Some (move_one ver old f)) = info_unexp ver (Some f) - 1"
proof -
  obtain n where n: "fmlookup f old = Some n" using assms(2) by blast
  show "info_exp ver (Some (move_one ver old f)) = info_exp ver (Some f) + 1"
    using assms(1) by (auto simp: info_exp_def gm_get_def move_one_def Let_def n split: option.split)
  show "info_unexp ver (Some (move_one ver old f)) = info_unexp ver (Some f) - 1"
    using assms(1) by (simp add: info_unexp_def move_one_def Let_def n fmfilter_upd fmfilter_drop fm_sum_upd fm_sum_drop)
qed

text \<open>The specification without the instances of other versions, if any are left.\<close>

definition expected_only :: "bytes \<Rightarrow> deploy_spec \<Rightarrow> deploy_spec option" where
  "expected_only ver s =
     (let i = map_option (fmfilter (\<lambda>v. v = ver)) (ds_info s)
      in if gm_len i = 0 then None else Some (s\<lparr>ds_info := i\<rparr>))"

lemma expected_only_stat:
  "(case expected_only ver s of None \<Rightarrow> 0 | Some s' \<Rightarrow> info_exp ver (ds_info s')) = info_exp ver (ds_info s)"
  "(case expected_only ver s of None \<Rightarrow> 0 | Some s' \<Rightarrow> info_unexp ver (ds_info s')) = 0"
proof -
  have e: "fmfilter (\<lambda>v. v \<noteq> ver) (fmfilter (\<lambda>v. v = ver) f) = fmempty" for f :: "(bytes, int) fmap"
    by (intro fmap_ext) simp
  show "(case expected_only ver s of None \<Rightarrow> 0 | Some s' \<Rightarrow> info_exp ver (ds_info s')) = info_exp ver (ds_info s)"
  proof (cases "ds_info s")
    case (Some f)
    have "fmfilter (\<lambda>v. v = ver) f = fmempty \<Longrightarrow> fmlookup f ver = None"
      by (metis (mono_tags, lifting) fmlookup_filter fmempty_lookup)
    then show ?thesis using Some by (auto simp: expected_only_def Let_def info_exp_def gm_get_def)
  qed (simp add: expected_only_def info_exp_def gm_get_def)
  show "(case expected_only ver s of None \<Rightarrow> 0 | Some s' \<Rightarrow> info_unexp ver (ds_info s')) = 0"
    by (cases "ds_info s") (auto simp: expected_only_def Let_def info_unexp_def e)
qed

text \<open>A host with an instance of another version, and its specification after one was updated.\<close>

definition has_legacy :: "bytes \<Rightarrow> deploy_spec \<Rightarrow> bool" where
  "has_legacy ver s \<longleftrightarrow> fmfilter (\<lambda>v. v \<noteq> ver) (gm_map (ds_info s)) \<noteq> fmempty"

definition moved :: "((bytes, int) gmap \<Rightarrow> bytes list) \<Rightarrow> bytes \<Rightarrow> deploy_spec \<Rightarrow> deploy_spec" where
  "moved vers ver s =
     s\<lparr>ds_info := map_option (move_one ver (the (find (\<lambda>v. v \<noteq> ver) (vers (ds_info s))))) (ds_info s)\<rparr>"

lemma gm_look_map: "gm_look m k = fmlookup (gm_map m) k"
  by (cases m) auto

lemma has_legacy_iff: "has_legacy ver s \<longleftrightarrow> (\<exists>v. v \<noteq> ver \<and> gm_look (ds_info s) v \<noteq> None)"
proof
  assume "has_legacy ver s"
  then obtain v where "fmlookup (fmfilter (\<lambda>v. v \<noteq> ver) (gm_map (ds_info s))) v \<noteq> None"
    unfolding has_legacy_def by (metis fmap_ext fmempty_lookup)
  then show "\<exists>v. v \<noteq> ver \<and> gm_look (ds_info s) v \<noteq> None" by (auto simp: gm_look_map split: if_splits)
next
  assume "\<exists>v. v \<noteq> ver \<and> gm_look (ds_info s) v \<noteq> None"
  then obtain v where "v \<noteq> ver" "fmlookup (gm_map (ds_info s)) v \<noteq> None"
    by (auto simp: gm_look_map)
  then have "fmlookup (fmfilter (\<lambda>v. v \<noteq> ver) (gm_map (ds_info s))) v \<noteq> None" by simp
  then show "has_legacy ver s" unfolding has_legacy_def by (metis fmempty_lookup)
qed

lemma card_le_singleton:
  assumes "finite D"
  shows "card D = 1 \<and> x \<in> D \<or> card D = 0 \<longleftrightarrow> D \<subseteq> {x}"
  using assms by (metis One_nat_def card_0_eq card_1_singletonE card.empty card.insert empty_iff finite.emptyI
      insert_iff singletonD subset_singleton_iff)

lemma update_skip_iff:
  "(gm_len (ds_info s) = 1 \<and> gm_look (ds_info s) ver \<noteq> None) \<or> gm_len (ds_info s) = 0 \<longleftrightarrow> \<not> has_legacy ver s"
proof (cases "ds_info s")
  case (Some f)
  let ?D = "fset (fmdom f)"
  have len: "gm_len (ds_info s) = card ?D" by (simp only: Some gm_len_def option.case fcard.rep_eq)
  have look: "gm_look (ds_info s) v \<noteq> None \<longleftrightarrow> v \<in> ?D" for v
    by (simp only: Some gm_look_simps fmlookup_dom_iff not_None_eq)
  have "card ?D = 1 \<and> ver \<in> ?D \<or> card ?D = 0 \<longleftrightarrow> ?D \<subseteq> {ver}"
    by (rule card_le_singleton) (rule finite_fset)
  also have "\<dots> \<longleftrightarrow> (\<forall>v. v \<in> ?D \<longrightarrow> v = ver)" by blast
  also have "\<dots> \<longleftrightarrow> \<not> has_legacy ver s" unfolding has_legacy_iff look by blast
  finally show ?thesis by (simp only: len look)
qed (auto simp: has_legacy_iff gm_len_def)

lemma find_legacy:
  assumes "gm_order (ds_info s) vs" "has_legacy ver s"
  shows "\<exists>old f. find (\<lambda>v. v \<noteq> ver) vs = Some old \<and> old \<noteq> ver \<and> ds_info s = Some f \<and> fmlookup f old \<noteq> None"
proof -
  obtain v where "v \<noteq> ver" "v \<in> set vs" using assms gm_order_mem [OF assms(1)] by (auto simp: has_legacy_iff)
  then have "find (\<lambda>v. v \<noteq> ver) vs \<noteq> None" by (auto simp: find_None_iff)
  then obtain old where old: "find (\<lambda>v. v \<noteq> ver) vs = Some old" by blast
  then have "old \<noteq> ver" "old \<in> set vs" by (auto simp: find_Some_iff)
  then show ?thesis using old gm_order_mem [OF assms(1)] by (cases "ds_info s") auto
qed

lemma update_loop_skip:
  assumes "\<not> has_legacy ver (the (fmlookup hc x))"
  shows "update_loop ifc vers key ver hc (x # xs) ticks num count h errs =
    update_loop ifc vers key ver hc xs ticks num count h errs"
  unfolding update_loop.simps(2) Let_def by (rule if_P) (simp only: update_skip_iff assms not_False_eq_True)

lemma update_loop_step:
  assumes "has_legacy ver (the (fmlookup hc x))"
    "gm_order (ds_info (the (fmlookup hc x))) (vers (ds_info (the (fmlookup hc x))))"
  shows "update_loop ifc vers key ver hc (x # xs) ticks num count h errs =
    (if count \<ge> num then (h, num, [])
     else case put_spec ifc key x (moved vers ver (the (fmlookup hc x))) h of
       (h', es) \<Rightarrow>
         (case ticks of
            True # _ \<Rightarrow> (h', count + 1, errs @ es @ [CtxError])
          | False # ts \<Rightarrow> update_loop ifc vers key ver hc xs ts num (count + 1) h' (errs @ es)
          | [] \<Rightarrow> update_loop ifc vers key ver hc xs [] num (count + 1) h' (errs @ es)))"
proof -
  obtain old where old: "find (\<lambda>v. v \<noteq> ver) (vers (ds_info (the (fmlookup hc x)))) = Some old"
    using find_legacy [OF assms(2,1)] by blast
  have "\<not> ((gm_len (ds_info (the (fmlookup hc x))) = 1 \<and> gm_look (ds_info (the (fmlookup hc x))) ver \<noteq> None)
      \<or> gm_len (ds_info (the (fmlookup hc x))) = 0)"
    using assms(1) update_skip_iff by blast
  then show ?thesis
    unfolding update_loop.simps(2) Let_def
    by (rule if_not_P [THEN trans]) (simp only: old option.case moved_def option.sel)
qed

lemma info_moved:
  assumes "gm_order (ds_info s) (vers (ds_info s))" "has_legacy ver s"
  shows "info_exp ver (ds_info (moved vers ver s)) = info_exp ver (ds_info s) + 1"
    and "info_unexp ver (ds_info (moved vers ver s)) = info_unexp ver (ds_info s) - 1"
  using find_legacy [OF assms] by (auto simp: moved_def info_move_one)

text \<open>The loops visit exactly the keys of the maps, in some order; every count of a specification is positive.\<close>

definition orders_ok :: "sched_env \<Rightarrow> bool" where
  "orders_ok env \<longleftrightarrow> (\<forall>n hc. gm_order hc (se_hosts env n hc)) \<and> (\<forall>i. gm_order i (se_vers env i))"

definition counts_ok :: "(bytes, deploy_spec) gmap \<Rightarrow> bool" where
  "counts_ok hc \<longleftrightarrow> (\<forall>x s v n. gm_look hc x = Some s \<longrightarrow> gm_look (ds_info s) v = Some n \<longrightarrow> 1 \<le> n)"

definition legacy_hosts :: "bytes \<Rightarrow> (bytes, deploy_spec) gmap \<Rightarrow> bytes set" where
  "legacy_hosts ver hc = {x. \<exists>s. gm_look hc x = Some s \<and> has_legacy ver s}"

definition sorted_env :: "add_event list \<Rightarrow> bool list \<Rightarrow> sched_env" where
  "sorted_env adds ticks = \<lparr>se_hosts = \<lambda>n hc. sorted_list_of_fset (fmdom (gm_map hc)),
     se_vers = \<lambda>i. sorted_list_of_fset (fmdom (gm_map i)), se_add = adds, se_ticks = ticks\<rparr>"

lemma gm_order_sorted: "gm_order m (sorted_list_of_fset (fmdom (gm_map m)))"
proof (cases m)
  case (Some f)
  have "distinct (sorted_list_of_fset (fmdom f))" by (simp add: sorted_list_of_fset.rep_eq)
  then show ?thesis by (simp add: Some gm_order_def fm_order_def)
qed (simp add: gm_order_def sorted_list_of_fset.rep_eq)

lemma sorted_env_ok [simp]: "orders_ok (sorted_env adds ticks)"
  by (simp add: orders_ok_def sorted_env_def gm_order_sorted)

lemma counts_unexp:
  assumes "counts_ok hc"
  shows "0 \<le> snd (hc_stat ver hc)"
proof -
  have nn: "0 \<le> fm_sum id (fmfilter P f)" if "\<And>v n. fmlookup f v = Some n \<Longrightarrow> 1 \<le> n" for P and f :: "(bytes, int) fmap"
    unfolding fm_sum_def using that by (intro sum_nonneg) (force simp: fmlookup_dom_iff)
  have "0 \<le> info_unexp ver (ds_info s)" if "fmlookup (gm_map hc) x = Some s" for x s
    using assms that unfolding info_unexp_def counts_ok_def by (intro nn) (auto simp: gm_look_map)
  then show ?thesis unfolding hc_stat_def snd_conv fm_sum_def
    by (intro sum_nonneg) (auto simp: fmlookup_dom_iff)
qed

context host_config_manager
begin

lemma cfgs_put [simp]:
  "cfgs (fst (put_spec ifc k x s h)) k' = (if k' = k then fmupd x s (cfgs h k) else cfgs h k')"
proof -
  have "fst (put_spec ifc k x s h) = fst (hcm_set ifc h k x s)"
    by (simp add: put_spec_def split: prod.split option.split)
  then show ?thesis by simp
qed

lemma cfgs_drop_hosts [simp]:
  "cfgs (fst (drop_hosts ifc k xs h)) k' = (if k' = k then fmfilter (\<lambda>x. x \<notin> set xs) (cfgs h k) else cfgs h k')"
proof -
  have "fst (drop_hosts ifc k xs h) = fst (hcm_delete ifc h k xs)"
    by (simp add: drop_hosts_def split: prod.split)
  then show ?thesis by simp
qed

lemma stat_cfgs: "hc_stat ver (hcm_list ifc h k) = hc_stat ver (Some (cfgs h k))"
  by (metis hc_stat_norm list_norm)

lemma remove_legacy_loop_cfgs:
  "distinct xs \<Longrightarrow> \<forall>x \<in> set xs. fmlookup (cfgs h key) x = Some (the (fmlookup hc x)) \<Longrightarrow>
   fmlookup (cfgs (fst (remove_legacy_loop ifc key ver hc xs h errs)) key) y =
     (if y \<in> set xs then expected_only ver (the (fmlookup hc y)) else fmlookup (cfgs h key) y)"
proof (induction xs arbitrary: h errs)
  case (Cons x xs)
  let ?cfg = "the (fmlookup hc x)"
  let ?i = "map_option (fmfilter (\<lambda>v. v = ver)) (ds_info ?cfg)"
  obtain h' es where s: "(if gm_len ?i \<le> 0 then drop_hosts ifc key [x] h
      else if ?i \<noteq> ds_info ?cfg then put_spec ifc key x (?cfg\<lparr>ds_info := ?i\<rparr>) h else (h, [])) = (h', es)"
    by fastforce
  then have h': "h' = fst (if gm_len ?i \<le> 0 then drop_hosts ifc key [x] h
      else if ?i \<noteq> ds_info ?cfg then put_spec ifc key x (?cfg\<lparr>ds_info := ?i\<rparr>) h else (h, []))"
    by simp
  have y: "fmlookup (cfgs h' key) z = (if z = x then expected_only ver ?cfg else fmlookup (cfgs h key) z)" for z
    using Cons.prems(2) unfolding h' by (auto simp: expected_only_def Let_def)
  have "fmlookup (cfgs (fst (remove_legacy_loop ifc key ver hc xs h' (errs @ es))) key) y =
     (if y \<in> set xs then expected_only ver (the (fmlookup hc y)) else fmlookup (cfgs h' key) y)"
    using Cons.prems by (intro Cons.IH) (auto simp: y)
  moreover have "remove_legacy_loop ifc key ver hc (x # xs) h errs = remove_legacy_loop ifc key ver hc xs h' (errs @ es)"
    using s by (simp add: Let_def)
  ultimately show ?case using Cons.prems(1) by (simp add: y)
qed simp

lemma remove_legacy_cfgs:
  assumes "gm_order (hcm_list ifc h (rc_key c)) (se_hosts env 0 (hcm_list ifc h (rc_key c)))"
  shows "fmlookup (cfgs (fst (remove_legacy_configs ifc env c h)) (rc_key c)) x =
    Option.bind (fmlookup (cfgs h (rc_key c)) x) (expected_only (rc_expectVersion c))"
proof -
  let ?hc = "hcm_list ifc h (rc_key c)" and ?xs = "se_hosts env 0 (hcm_list ifc h (rc_key c))"
  have look: "gm_look ?hc z = fmlookup (cfgs h (rc_key c)) z" for z
    by (cases ?hc) auto
  have mem: "z \<in> set ?xs \<longleftrightarrow> fmlookup (cfgs h (rc_key c)) z \<noteq> None" for z
    using gm_order_mem [OF assms] by (simp add: look)
  have "fmlookup (cfgs (fst (remove_legacy_configs ifc env c h)) (rc_key c)) x =
      (if x \<in> set ?xs then expected_only (rc_expectVersion c) (the (fmlookup (gm_map ?hc) x))
       else fmlookup (cfgs h (rc_key c)) x)"
    unfolding remove_legacy_configs_def Let_def
    using gm_order_distinct [OF assms] mem by (intro remove_legacy_loop_cfgs) auto
  then show ?thesis using mem [of x] by (cases "fmlookup (cfgs h (rc_key c)) x") auto
qed

lemma remove_legacy_stat:
  assumes "gm_order (hcm_list ifc h (rc_key c)) (se_hosts env 0 (hcm_list ifc h (rc_key c)))"
  shows "hc_stat (rc_expectVersion c) (hcm_list ifc (fst (remove_legacy_configs ifc env c h)) (rc_key c)) =
    (fst (hc_stat (rc_expectVersion c) (hcm_list ifc h (rc_key c))), 0)"
proof -
  let ?f = "cfgs h (rc_key c)" and ?g = "cfgs (fst (remove_legacy_configs ifc env c h)) (rc_key c)"
  let ?D = "fset (fmdom ?f)"
  note g = remove_legacy_cfgs [OF assms]
  have D: "finite ?D" "fset (fmdom ?g) \<subseteq> ?D"
  proof -
    show "fset (fmdom ?g) \<subseteq> ?D"
    proof
      fix z assume "z \<in> fset (fmdom ?g)"
      then have "fmlookup ?g z \<noteq> None" by (auto simp: fmlookup_dom_iff)
      then have "fmlookup ?f z \<noteq> None" unfolding g by (cases "fmlookup ?f z") auto
      then show "z \<in> ?D" by (auto simp: fmlookup_dom_iff)
    qed
  qed simp
  have e: "(case Option.bind (fmlookup ?f z) (expected_only (rc_expectVersion c)) of None \<Rightarrow> 0 | Some s \<Rightarrow> info_exp (rc_expectVersion c) (ds_info s))
      = (case fmlookup ?f z of None \<Rightarrow> 0 | Some s \<Rightarrow> info_exp (rc_expectVersion c) (ds_info s))" for z
    by (cases "fmlookup ?f z") (simp_all add: expected_only_stat)
  have u: "(case Option.bind (fmlookup ?f z) (expected_only (rc_expectVersion c)) of None \<Rightarrow> 0 | Some s \<Rightarrow> info_unexp (rc_expectVersion c) (ds_info s))
      = 0" for z
    by (cases "fmlookup ?f z") (simp_all add: expected_only_stat)
  show ?thesis
    using hc_stat_over [OF D, of "rc_expectVersion c"] hc_stat_over [of ?D ?f "rc_expectVersion c"]
    by (simp add: stat_cfgs g e u)
qed

lemma update_loop_spec:
  assumes "distinct xs" "count \<le> num"
    "\<forall>x \<in> set xs. fmlookup (cfgs h key) x = Some (the (fmlookup hc x))
       \<and> gm_order (ds_info (the (fmlookup hc x))) (vers (ds_info (the (fmlookup hc x))))"
    "update_loop ifc vers key ver hc xs ticks num count h errs = (h', n, es)"
  shows "\<exists>S. S \<subseteq> {x \<in> set xs. has_legacy ver (the (fmlookup hc x))} \<and> int (card S) = n - count \<and> n \<le> num
    \<and> (\<forall>y. fmlookup (cfgs h' key) y = (if y \<in> S then Some (moved vers ver (the (fmlookup hc y))) else fmlookup (cfgs h key) y))
    \<and> (True \<notin> set ticks \<longrightarrow>
        int (card S) = min (num - count) (int (card {x \<in> set xs. has_legacy ver (the (fmlookup hc x))})))"
  using assms
proof (induction xs arbitrary: ticks count h errs)
  case Nil
  then show ?case by (intro exI [of _ "{}"]) auto
next
  case (Cons x xs)
  let ?cfg = "the (fmlookup hc x)"
  let ?L = "\<lambda>xs. {y \<in> set xs. has_legacy ver (the (fmlookup hc y))}"
  show ?case
  proof (cases "has_legacy ver ?cfg")
    case False
    then have skip: "update_loop ifc vers key ver hc xs ticks num count h errs = (h', n, es)"
      using Cons.prems(4) by (simp only: update_loop_skip [OF False])
    have "?L (x # xs) = ?L xs" using False by auto
    then show ?thesis using Cons.IH [OF _ _ _ skip] Cons.prems by simp
  next
    case True
    then have L: "?L (x # xs) = insert x (?L xs)" "x \<notin> ?L xs" using Cons.prems(1) by auto
    have "gm_order (ds_info ?cfg) (vers (ds_info ?cfg))" using Cons.prems(3) by simp
    note loop = update_loop_step [of ver hc x vers, OF True this, of ifc key xs ticks num count h errs,
        unfolded Cons.prems(4)]
    show ?thesis
    proof (cases "count \<ge> num")
      case full: True
      then have "h' = h \<and> n = num" using loop by simp
      then show ?thesis using full Cons.prems(2) by (intro exI [of _ "{}"]) auto
    next
      case False
      obtain h1 es1 where p: "put_spec ifc key x (moved vers ver ?cfg) h = (h1, es1)" by fastforce
      then have "h1 = fst (put_spec ifc key x (moved vers ver ?cfg) h)" by simp
      then have c1: "cfgs h1 key = fmupd x (moved vers ver ?cfg) (cfgs h key)" by simp
      have step: "(case ticks of
          True # _ \<Rightarrow> (h1, count + 1, errs @ es1 @ [CtxError])
        | False # ts \<Rightarrow> update_loop ifc vers key ver hc xs ts num (count + 1) h1 (errs @ es1)
        | [] \<Rightarrow> update_loop ifc vers key ver hc xs [] num (count + 1) h1 (errs @ es1)) = (h', n, es)"
        using loop False p by (simp only: if_False prod.case)
      show ?thesis
      proof (cases "\<exists>ts. ticks = True # ts")
        case True
        then have "h' = h1 \<and> n = count + 1" using step by auto
        then show ?thesis using True L False c1 \<open>has_legacy ver ?cfg\<close>
          by (intro exI [of _ "{x}"]) auto
      next
        case nt: False
        define ts where "ts = (case ticks of [] \<Rightarrow> [] | _ # ts \<Rightarrow> ts)"
        have rest: "update_loop ifc vers key ver hc xs ts num (count + 1) h1 (errs @ es1) = (h', n, es)"
          using step nt by (auto simp: ts_def split: list.splits bool.splits)
        have ts: "True \<notin> set ticks \<Longrightarrow> True \<notin> set ts" by (auto simp: ts_def split: list.splits)
        have pre: "\<forall>y \<in> set xs. fmlookup (cfgs h1 key) y = Some (the (fmlookup hc y))
            \<and> gm_order (ds_info (the (fmlookup hc y))) (vers (ds_info (the (fmlookup hc y))))"
          using Cons.prems(1,3) by (auto simp: c1)
        obtain S where S: "S \<subseteq> ?L xs" "int (card S) = n - (count + 1)" "n \<le> num"
          "\<forall>y. fmlookup (cfgs h' key) y = (if y \<in> S then Some (moved vers ver (the (fmlookup hc y))) else fmlookup (cfgs h1 key) y)"
          "True \<notin> set ts \<longrightarrow> int (card S) = min (num - (count + 1)) (int (card (?L xs)))"
          using Cons.IH [OF _ _ pre rest] Cons.prems(1) False by auto
        have fin: "finite S" "x \<notin> S" using S(1) L(2) by (auto intro: finite_subset)
        have "card (insert x S) = card S + 1" using fin by simp
        moreover have "card (?L (x # xs)) = card (?L xs) + 1" using L by simp
        ultimately show ?thesis using S L ts fin c1 False
          by (intro exI [of _ "insert x S"]) auto
      qed
    qed
  qed
qed

lemma update_instances_stat:
  assumes "orders_ok env" "counts_ok (hcm_list ifc h (rc_key c))" "0 < num"
    "hc_stat (rc_expectVersion c) (hcm_list ifc h (rc_key c)) = (e, u)"
    "update_instances ifc env c num h = (h', n, es)"
  shows "hc_stat (rc_expectVersion c) (hcm_list ifc h' (rc_key c)) = (e + n, u - n)"
    and "0 \<le> n \<and> n \<le> min num u"
    and "True \<notin> set (se_ticks env) \<Longrightarrow>
      n = min (min num u) (int (card (legacy_hosts (rc_expectVersion c) (hcm_list ifc h (rc_key c)))))"
proof -
  let ?ver = "rc_expectVersion c" and ?hc = "hcm_list ifc h (rc_key c)" and ?f = "cfgs h (rc_key c)"
  let ?xs = "se_hosts env 0 ?hc" and ?D = "fset (fmdom ?f)"
  have ord: "gm_order ?hc ?xs" "gm_order i (se_vers env i)" for i
    using assms(1) by (auto simp: orders_ok_def)
  have u: "0 \<le> u" using counts_unexp [OF assms(2), of ?ver] assms(4) by simp
  have mem: "z \<in> set ?xs \<longleftrightarrow> fmlookup ?f z \<noteq> None" for z
    using gm_order_mem [OF ord(1)] by (simp add: gm_look_map)
  have loop: "update_loop ifc (se_vers env) (rc_key c) ?ver ?f ?xs (se_ticks env) (min num u) 0 h [] = (h', n, es)"
    using assms(3-5) by (simp add: update_instances_def min_def Let_def split: if_splits)
  have pre: "\<forall>x \<in> set ?xs. fmlookup ?f x = Some (the (fmlookup ?f x))
      \<and> gm_order (ds_info (the (fmlookup ?f x))) (se_vers env (ds_info (the (fmlookup ?f x))))"
    using mem ord(2) by auto
  obtain S where S: "S \<subseteq> {x \<in> set ?xs. has_legacy ?ver (the (fmlookup ?f x))}" "int (card S) = n - 0" "n \<le> min num u"
    "\<forall>y. fmlookup (cfgs h' (rc_key c)) y = (if y \<in> S then Some (moved (se_vers env) ?ver (the (fmlookup ?f y))) else fmlookup ?f y)"
    "True \<notin> set (se_ticks env) \<longrightarrow>
      int (card S) = min (min num u - 0) (int (card {x \<in> set ?xs. has_legacy ?ver (the (fmlookup ?f x))}))"
    using update_loop_spec [OF gm_order_distinct [OF ord(1)] _ pre loop] u assms(3) by auto
  have "{x \<in> set ?xs. has_legacy ?ver (the (fmlookup ?f x))} = legacy_hosts ?ver ?hc"
    using mem by (auto simp: legacy_hosts_def gm_look_map)
  then show "True \<notin> set (se_ticks env) \<Longrightarrow> n = min (min num u) (int (card (legacy_hosts ?ver ?hc)))"
    using S(2,5) by simp
  show "0 \<le> n \<and> n \<le> min num u" using S(2,3) by linarith
  have SD: "S \<subseteq> ?D" "finite S" using S(1) mem by (auto simp: fmlookup_dom_iff intro: finite_subset)
  have D: "fset (fmdom (cfgs h' (rc_key c))) \<subseteq> ?D"
  proof
    fix z assume "z \<in> fset (fmdom (cfgs h' (rc_key c)))"
    then have "fmlookup (cfgs h' (rc_key c)) z \<noteq> None" by (simp add: fmlookup_dom_iff)
    then show "z \<in> ?D" using S(4) SD(1) by (auto simp: fmlookup_dom_iff split: if_splits)
  qed
  have leg: "has_legacy ?ver (the (fmlookup ?f z))" "fmlookup ?f z \<noteq> None" if "z \<in> S" for z
    using S(1) that mem by auto
  have e1: "(case fmlookup (cfgs h' (rc_key c)) z of None \<Rightarrow> 0 | Some s \<Rightarrow> info_exp ?ver (ds_info s)) =
      (case fmlookup ?f z of None \<Rightarrow> 0 | Some s \<Rightarrow> info_exp ?ver (ds_info s)) + (if z \<in> S then 1 else 0)" for z
    using S(4) info_moved(1) [of "the (fmlookup ?f z)" "se_vers env" ?ver] ord(2) leg [of z]
    by (auto split: option.split)
  have e2: "(case fmlookup (cfgs h' (rc_key c)) z of None \<Rightarrow> 0 | Some s \<Rightarrow> info_unexp ?ver (ds_info s)) =
      (case fmlookup ?f z of None \<Rightarrow> 0 | Some s \<Rightarrow> info_unexp ?ver (ds_info s)) - (if z \<in> S then 1 else 0)" for z
    using S(4) info_moved(2) [of "the (fmlookup ?f z)" "se_vers env" ?ver] ord(2) leg [of z]
    by (auto split: option.split)
  have cnt: "(\<Sum>z \<in> ?D. if z \<in> S then 1 else 0 :: int) = n"
    using SD S(2) by (simp add: sum.If_cases Int_absorb1)
  have eu: "hc_stat ?ver (Some ?f) = (e, u)" using assms(4) stat_cfgs by simp
  show "hc_stat ?ver (hcm_list ifc h' (rc_key c)) = (e + n, u - n)"
    unfolding stat_cfgs hc_stat_over [OF finite_fset D] e1 e2 sum.distrib sum_subtractf cnt
    using eu hc_stat_over [of ?D ?f ?ver] by simp
qed

lemma rolling_update_stat:
  assumes "orders_ok env" "counts_ok (hcm_list ifc h (rc_key c))" "True \<notin> set (se_ticks env)"
    "hc_stat (rc_expectVersion c) (hcm_list ifc h (rc_key c)) = (e, u)"
    "e < dc_numOfInstance (rc_dc c)" "dc_numOfInstance (rc_dc c) - e \<le> u"
    "rolling_update ifc env c h = Returns (h', [])"
  shows "hc_stat (rc_expectVersion c) (hcm_list ifc h' (rc_key c)) =
    (e + min (dc_numOfInstance (rc_dc c) - e)
       (int (card (legacy_hosts (rc_expectVersion c) (hcm_list ifc h (rc_key c))))), 0)"
proof -
  let ?num = "dc_numOfInstance (rc_dc c) - e"
  obtain h2 n es where up: "update_instances ifc env c ?num h = (h2, n, es)" by (metis prod_cases3)
  have "es = []" "h' = fst (remove_legacy_configs ifc env c h2)"
    using assms(5-7) by (auto simp: rolling_update_def assms(4) up Let_def split: if_splits)
  moreover have "0 < ?num" using assms(5) by simp
  note st = update_instances_stat [OF assms(1,2) this assms(4) up]
  have "gm_order (hcm_list ifc h2 (rc_key c)) (se_hosts env 0 (hcm_list ifc h2 (rc_key c)))"
    using assms(1) by (simp add: orders_ok_def)
  note rl = remove_legacy_stat [OF this]
  show ?thesis using st(1) st(3) [OF assms(3)] assms(6) rl calculation(2) by simp
qed

end

end
