(* ===== verification/Host_Choice.thy ===== *)
theory Host_Choice
  imports Resources Instances Replica
begin

text \<open>
  The choice of a host for a new instance (\<open>controllers/scheduler/scheduler.go\<close>, \<open>utils.go\<close>).

  The randomness of the choice is a parameter: \<open>rnd i n\<close> is the number below \<open>n\<close> that is drawn at step \<open>i\<close>.
\<close>

subsection \<open>The environment\<close>

text \<open>
  The etcd client and the error of connecting to it, the encodings of host information and status, the
  computation on floats behind \<open>ResourceUsed\<close>, and the test for emptiness and the matching of label selectors.
\<close>

record ('e, 'f, 's) sched_world =
  sw_kv :: "'e kv_client"
  sw_conn :: "'e \<Rightarrow> store_error option"
  sw_info :: "host_info codec"
  sw_stat :: "'f host_status codec"
  sw_scale :: "'f \<Rightarrow> 64 word \<Rightarrow> 64 word"
  sw_empty :: "'s \<Rightarrow> bool"
  sw_matches :: "'s \<Rightarrow> (bytes \<times> bytes) list \<Rightarrow> bool"

text \<open>\<open>Require\<close> and the scheduler of one deployment.\<close>

record 's require =
  rq_hostSelector :: "'s option"
  rq_resource :: deploy_resource

record 's scheduler =
  sd_require :: "'s require"
  sd_avaliable :: "bytes list"
  sd_stage :: stage
  sd_key :: bytes

definition new_scheduler :: "stage \<Rightarrow> bytes \<Rightarrow> 's require \<Rightarrow> 's scheduler" where
  "new_scheduler st key rq = \<lparr>sd_require = rq, sd_avaliable = [], sd_stage = st, sd_key = key\<rparr>"

definition empty_host :: bytes where "empty_host = []"

text \<open>What a deployment requires: its own resource, or the medium default of its type, or the zero one.\<close>

definition to_require :: "default_registry \<Rightarrow> ('f, 's) deploy_config \<Rightarrow> default_registry \<times> 's require" where
  "to_require g dc =
     (let s = dc_selector dc in
      case dc_resourceRequired dc of
        Some rr \<Rightarrow> (g, \<lparr>rq_hostSelector = s, rq_resource = rr\<rparr>)
      | None \<Rightarrow>
          (case get_default_deploy_resource g (dc_stage dc, dc_type dc) of
             (g', Some t) \<Rightarrow> (g', \<lparr>rq_hostSelector = s, rq_resource = rs_medium t\<rparr>)
           | (g', None) \<Rightarrow> (g', \<lparr>rq_hostSelector = s, rq_resource = zero_resource\<rparr>)))"

subsection \<open>Reading a host\<close>

definition get_object :: "('e, 'f, 's) sched_world \<Rightarrow> 'v codec \<Rightarrow> 'e \<Rightarrow> bytes \<Rightarrow> sched_error + 'v" where
  "get_object w cd e path =
     (case sw_conn w e of
        Some err \<Rightarrow> Inl (SchedStore err)
      | None \<Rightarrow> map_sum SchedStore id (store_get (sw_kv w) cd base_dir e path False))"

definition get_host_status :: "('e, 'f, 's) sched_world \<Rightarrow> 'e \<Rightarrow> stage \<Rightarrow> bytes \<Rightarrow> sched_error + 'f host_status" where
  "get_host_status w e st hid = (let path = host_stat_path st hid in get_object w (sw_stat w) e path)"

text \<open>Like the status, the information is read at the path of the status.\<close>

definition get_host_info :: "('e, 'f, 's) sched_world \<Rightarrow> 'e \<Rightarrow> stage \<Rightarrow> bytes \<Rightarrow> sched_error + host_info" where
  "get_host_info w e st hid = (let path = host_stat_path st hid in get_object w (sw_info w) e path)"

text \<open>The error of a host, \<open>None\<close> if the host will do; the outer \<open>None\<close> is a panic.\<close>

definition check_host_status ::
  "('e, 'f, 's) sched_world \<Rightarrow> 'e \<Rightarrow> stage \<Rightarrow> bytes \<Rightarrow> deploy_resource \<Rightarrow> instance_info list \<Rightarrow> sched_error option go" where
  "check_host_status w e st hid req ins =
     (case get_host_status w e st hid of
        Inl err \<Rightarrow> Some (Some err)
      | Inr stt \<Rightarrow>
          (case get_host_info w e st hid of
             Inl err \<Rightarrow> Some (Some err)
           | Inr info \<Rightarrow>
               do {
                 free \<leftarrow> get_resource info;
                 (let rsv = hi_resourceReserved info;
                      used = resource_used (sw_scale w) (Some stt);
                      free = dr_subtract free rsv;
                      free = (case used of None \<Rightarrow> free | Some u \<Rightarrow> dr_subtract free u);
                      sc = dr_devide free req
                  in if sc \<le> 0 then Some (Some ErrHostShortOfResource)
                     else if list_ex (\<lambda>v. ins_hostID v = hid) ins then Some (Some ErrAlreadyExists)
                     else Some None)
               }))"

subsection \<open>Choosing\<close>

text \<open>\<open>os.IsExist\<close> knows the errors of package \<open>os\<close> only: it is false for every error of the check.\<close>

fun os_is_exist :: "sched_error \<Rightarrow> bool" where
  "os_is_exist ErrNoHostMeetCondition = False"
| "os_is_exist ErrHostShortOfResource = False"
| "os_is_exist ErrAlreadyExists = False"
| "os_is_exist (ErrNoStatus h) = False"
| "os_is_exist (SchedStore e) = False"

text \<open>The result is the host and the error, and the hosts that are left.\<close>

fun find_loop ::
  "(bytes \<Rightarrow> sched_error option go) \<Rightarrow> (nat \<Rightarrow> nat \<Rightarrow> nat) \<Rightarrow> nat \<Rightarrow> bytes list \<Rightarrow> bytes \<Rightarrow> sched_error option
     \<Rightarrow> ((bytes \<times> sched_error option) \<times> bytes list) go" where
  "find_loop chk rnd 0 avaliable best err = Some ((best, err), avaliable)"
| "find_loop chk rnd (Suc maxTry) avaliable best err =
     (if avaliable = [] then Some ((best, err), avaliable)
      else
        (let idx = rnd maxTry (length avaliable);
             hid = avaliable ! idx;
             avaliable = butlast (avaliable[idx := last avaliable])
         in case chk hid of
              None \<Rightarrow> None
            | Some None \<Rightarrow> Some ((hid, None), avaliable)
            | Some (Some terr) \<Rightarrow>
                (let (best, err) = (if os_is_exist terr then (hid, Some terr) else (best, err));
                     err = (if best = empty_host then Some terr else err)
                 in find_loop chk rnd maxTry avaliable best err)))"

definition max_try :: nat where "max_try = 50"

definition find_suitable_host ::
  "('e, 'f, 's) sched_world \<Rightarrow> ins_manager \<Rightarrow> bytes list \<Rightarrow> (nat \<Rightarrow> nat \<Rightarrow> nat) \<Rightarrow> 'e \<Rightarrow> 's scheduler
     \<Rightarrow> ('s scheduler \<times> bytes \<times> sched_error option) go" where
  "find_suitable_host w m ks rnd e s =
     (let r = sd_require s;
          allIns = running_instance m (sd_key s);
          ins = filter (\<lambda>v. ins_lifeCycle v \<noteq> LCStopped) (map (\<lambda>k. the (gm_look allIns k)) ks)
      in map_option (\<lambda>((best, err), avaliable). (s\<lparr>sd_avaliable := avaliable\<rparr>, best, err))
           (find_loop (\<lambda>hid. check_host_status w e (sd_stage s) hid (rq_resource r) ins) rnd max_try
              (sd_avaliable s) empty_host None))"

text \<open>
  The hosts whose labels match.  The list has pointers to host information for elements, so the predicate is
  given pointers to pointers, and its function on attributes panics on anything but a pointer.
\<close>

definition host_predicate :: "('e, 'f, 's) sched_world \<Rightarrow> 's option \<Rightarrow> (host_info, (bytes \<times> bytes) list, unit) selection_predicate" where
  "host_predicate w r = \<lparr>
     sp_label = map_option (\<lambda>sel. (sw_empty w sel, sw_matches w sel)) r,
     sp_field = Some (True, \<lambda>f. True),
     sp_getAttrs = \<lambda>obj. case obj of Object n v \<Rightarrow> if n = 1 then Some (Some (hi_labels v, ())) else None | _ \<Rightarrow> None\<rparr>"

text \<open>\<open>decodeList\<close> with a predicate: \<open>typ\<close> is the number of pointers of the element type.\<close>

fun decode_list_sel ::
  "'v codec \<Rightarrow> nat \<Rightarrow> ('v, 'l, 'f) selection_predicate \<Rightarrow> (bytes \<times> bytes) list \<Rightarrow> 'v list \<Rightarrow> ('v list \<times> store_error option) go" where
  "decode_list_sel cd typ p [] l = Some (l, None)"
| "decode_list_sel cd typ p ((k, d) # elems) l =
     (case decode_with cd d of
        Inl err \<Rightarrow> Some (l, Some err)
      | Inr v \<Rightarrow>
          do {
            ok \<leftarrow> simple_filter p (Object (Suc typ) v);
            decode_list_sel cd typ p elems (if ok then l @ [v] else l)
          })"

definition select_host :: "('e, 'f, 's) sched_world \<Rightarrow> 'e \<Rightarrow> stage \<Rightarrow> 's option \<Rightarrow> (sched_error + bytes list) go" where
  "select_host w e st r =
     (let pred = host_predicate w r in
      case sw_conn w e of
        Some err \<Rightarrow> Some (Inl (SchedStore err))
      | None \<Rightarrow>
          (case list_elems (sw_kv w) base_dir e (host_info_dir st) of
             Inl err \<Rightarrow> Some (Inl (SchedStore err))
           | Inr elems \<Rightarrow>
               map_option (\<lambda>(hinfs, err). case err of Some er \<Rightarrow> Inl (SchedStore er) | None \<Rightarrow> Inr (map hi_hostID hinfs))
                 (decode_list_sel (sw_info w) 1 pred elems [])))"

definition next_host ::
  "('e, 'f, 's) sched_world \<Rightarrow> ins_manager \<Rightarrow> bytes list \<Rightarrow> (nat \<Rightarrow> nat \<Rightarrow> nat) \<Rightarrow> 'e \<Rightarrow> 's scheduler
     \<Rightarrow> ('s scheduler \<times> bytes \<times> sched_error option) go" where
  "next_host w m ks rnd e s =
     (if sd_avaliable s = [] then
        (case select_host w e (sd_stage s) (rq_hostSelector (sd_require s)) of
           None \<Rightarrow> None
         | Some (Inl err) \<Rightarrow> Some (s, empty_host, Some err)
         | Some (Inr []) \<Rightarrow> Some (s, empty_host, Some ErrNoHostMeetCondition)
         | Some (Inr hosts) \<Rightarrow> find_suitable_host w m ks rnd e (s\<lparr>sd_avaliable := hosts\<rparr>))
      else find_suitable_host w m ks rnd e s)"

subsection \<open>The loop\<close>

lemma mset_swap_remove:
  assumes "i < length xs"
  shows "mset (butlast (xs[i := last xs])) = mset xs - {#xs ! i#}"
proof -
  have ne: "xs \<noteq> []" "xs[i := last xs] \<noteq> []" using assms by auto
  have "last (xs[i := last xs]) = last xs" using ne assms by (simp add: last_conv_nth nth_list_update)
  then have "mset (butlast (xs[i := last xs])) + {#last xs#} = mset (xs[i := last xs])"
    using append_butlast_last_id [OF ne(2)] by (metis mset.simps(1,2) mset_append)
  also have "\<dots> = add_mset (last xs) (mset xs - {#xs ! i#})" by (rule mset_update [OF assms])
  finally show ?thesis by simp
qed

text \<open>
  The hosts that are tried, in order: they are taken out of the list, all but the last fail, and the last one either
  passes or there was no other to try.
\<close>

lemma find_loop_trace:
  assumes "\<forall>i n. 0 < n \<longrightarrow> rnd i n < n"
  shows "\<forall>h \<in> set av. chk h \<noteq> None \<Longrightarrow>
    \<exists>ts best err' rest. find_loop chk rnd n av empty_host err = Some ((best, err'), rest)
      \<and> (\<forall>h \<in> set ts. \<exists>terr. chk h = Some (Some terr))
      \<and> (mset av = mset ts + {#best#} + mset rest \<and> chk best = Some None \<and> err' = None \<and> length ts < n
         \<or> mset av = mset ts + mset rest \<and> best = empty_host \<and> length ts = min n (length av)
           \<and> (if ts = [] then err' = err else chk (last ts) = Some err'))"
proof (induction n arbitrary: av err)
  case (Suc n)
  show ?case
  proof (cases "av = []")
    case False
    define i where "i = rnd n (length av)"
    have i: "i < length av" using assms False by (simp add: i_def)
    let ?av = "butlast (av[i := last av])"
    have "mset ?av = mset av - {#av ! i#}" by (rule mset_swap_remove [OF i])
    then have m: "mset av = add_mset (av ! i) (mset ?av)" using i by simp
    have step: "find_loop chk rnd (Suc n) av empty_host err = (case chk (av ! i) of
        None \<Rightarrow> None
      | Some None \<Rightarrow> Some ((av ! i, None), ?av)
      | Some (Some terr) \<Rightarrow> find_loop chk rnd n ?av empty_host (Some terr))"
      using False by (auto simp: Let_def i_def split: option.split)
        (metis os_is_exist.elims(2))+
    have sub: "set ?av \<subseteq> set av" using m by (metis set_mset_add_mset_insert set_mset_mset subset_insertI)
    consider (ok) "chk (av ! i) = Some None" | (bad) terr where "chk (av ! i) = Some (Some terr)"
      using Suc.prems i by (metis nth_mem option.exhaust)
    then show ?thesis
    proof cases
      case ok
      then show ?thesis using step m
        by (intro exI [of _ "[]"] exI [of _ "av ! i"] exI [of _ None] exI [of _ ?av]) simp
    next
      case bad
      obtain ts best err' rest where r: "find_loop chk rnd n ?av empty_host (Some terr) = Some ((best, err'), rest)"
        "\<forall>h \<in> set ts. \<exists>terr. chk h = Some (Some terr)"
        "mset ?av = mset ts + {#best#} + mset rest \<and> chk best = Some None \<and> err' = None \<and> length ts < n
         \<or> mset ?av = mset ts + mset rest \<and> best = empty_host \<and> length ts = min n (length ?av)
           \<and> (if ts = [] then err' = Some terr else chk (last ts) = Some err')"
        using Suc.IH [of ?av "Some terr"] Suc.prems sub by blast
      have "find_loop chk rnd (Suc n) av empty_host err = Some ((best, err'), rest)"
        unfolding step bad option.case by (rule r(1))
      moreover have "mset av = mset (av ! i # ts) + {#best#} + mset rest \<and> chk best = Some None \<and> err' = None \<and> length (av ! i # ts) < Suc n
         \<or> mset av = mset (av ! i # ts) + mset rest \<and> best = empty_host \<and> length (av ! i # ts) = min (Suc n) (length av)
           \<and> (if av ! i # ts = [] then err' = err else chk (last (av ! i # ts)) = Some err')"
        using r(3)
      proof (elim disjE conjE)
        assume "mset ?av = mset ts + mset rest" "best = empty_host" "length ts = min n (length ?av)"
          "if ts = [] then err' = Some terr else chk (last ts) = Some err'"
        then show ?thesis using m bad i by (intro disjI2) (auto split: if_splits)
      qed (use m in simp)
      ultimately show ?thesis using r(2) bad
        by (intro exI [of _ "av ! i # ts"] exI [of _ best] exI [of _ err'] exI [of _ rest]) simp
    qed
  qed (auto intro: exI [of _ "[]"])
qed (auto intro: exI [of _ "[]"])

lemma check_ok:
  assumes "check_host_status w e st hid req ins = Some None"
  shows "\<exists>stt info free. get_host_status w e st hid = Inr stt \<and> get_host_info w e st hid = Inr info
    \<and> get_resource info = Some free
    \<and> 0 < dr_devide (dr_subtract (dr_subtract free (hi_resourceReserved info)) (the (resource_used (sw_scale w) (Some stt)))) req
    \<and> (\<forall>v \<in> set ins. ins_hostID v \<noteq> hid)"
  using assms by (auto simp: check_host_status_def bind_eq_Some_conv Let_def resource_used_def list_ex_iff
      split: sum.splits if_splits)

lemma fits_le: "fits d n x \<Longrightarrow> k \<le> n \<Longrightarrow> fits d k x"
  unfolding fits_def by (meson le_trans mult_le_mono1)

lemma get_object_same:
  assumes "kv_ok view (sw_kv w)" "reads_ok (sw_kv w) e" "reads_ok (sw_kv w) e'" "sw_conn w e = None" "sw_conn w e' = None"
    "view e' (key_with_prefix base_dir p) = view e (key_with_prefix base_dir p)"
  shows "get_object w cd e' p = get_object w cd e p"
  using assms by (simp add: get_object_def store_get_view)

lemma check_same:
  assumes "get_host_status w e st hid = get_host_status w e' st hid" "get_host_info w e st hid = get_host_info w e' st hid"
  shows "check_host_status w e st hid req ins = check_host_status w e' st hid req ins"
  unfolding check_host_status_def assms by (rule refl)

lemma path_prefixes:
  "key_with_prefix base_dir (host_stat_path st hid) = host_stat_path st hid"
  "key_with_prefix (host_base_dir st) (host_info_path st hid) = host_info_path st hid"
  "host_stat_path st hid \<noteq> host_info_path st' hid'"
proof -
  show "key_with_prefix base_dir (host_stat_path st hid) = host_stat_path st hid"
    "key_with_prefix (host_base_dir st) (host_info_path st hid) = host_info_path st hid"
    by (simp_all add: key_with_prefix_def has_prefix_iff path_defs)
  show "host_stat_path st hid \<noteq> host_info_path st' hid'"
  proof
    assume "host_stat_path st hid = host_info_path st' hid'"
    then have "stage_string st @ CHR ''/'' # (''hosts/stat/'' @ hid) = stage_string st' @ CHR ''/'' # (''hosts/info/'' @ hid')"
      by (simp add: path_defs)
    then show False by (simp add: slash_split)
  qed
qed

subsection \<open>An example\<close>

text \<open>A store in memory with the status of the host \<open>h1\<close>, which has 1000 bytes of memory and one processor.\<close>

definition demo_host :: host_info where
  "demo_host = \<lparr>hi_hostID = ''h1'', hi_hostName = ''h1'', hi_stage = Dev, hi_labels = [], hi_numOfCPUs = 1, hi_memory = 1000,
     hi_swapSize = 0, hi_disk = [], hi_resourceReserved = zero_resource\<rparr>"

definition demo_world :: "((bytes \<times> bytes) list, unit, unit) sched_world" where
  "demo_world = \<lparr>sw_kv = mem_kv, sw_conn = \<lambda>e. None,
     sw_info = \<lparr>cd_encode = \<lambda>h. Some ''h'', cd_decode = \<lambda>d. Some demo_host, cd_zero = demo_host\<rparr>,
     sw_stat = \<lparr>cd_encode = \<lambda>h. Some ''s'', cd_decode = \<lambda>d. Some \<lparr>hs_cpuUsage = (), hs_usedMemory = 100, hs_numofProcesses = 1\<rparr>,
       cd_zero = \<lparr>hs_cpuUsage = (), hs_usedMemory = 0, hs_numofProcesses = 0\<rparr>\<rparr>,
     sw_scale = \<lambda>f n. 0, sw_empty = \<lambda>s. False, sw_matches = \<lambda>s l. True\<rparr>"

definition demo_store :: "(bytes \<times> bytes) list" where
  "demo_store = [(host_stat_path Dev ''h1'', ''s'')]"

definition demo_sched :: "deploy_resource \<Rightarrow> unit scheduler" where
  "demo_sched rr = \<lparr>sd_require = \<lparr>rq_hostSelector = None, rq_resource = rr\<rparr>, sd_avaliable = [''h1''], sd_stage = Dev,
     sd_key = ''java/crm''\<rparr>"

lemma demo_check:
  "check_host_status demo_world demo_store Dev ''h1'' req [] =
     (case get_resource demo_host of
        None \<Rightarrow> None
      | Some free \<Rightarrow>
          if dr_devide (dr_subtract (dr_subtract free zero_resource) (zero_resource\<lparr>dr_memory := 100, dr_cpu := 0\<rparr>)) req \<le> 0
          then Some (Some ErrHostShortOfResource) else Some None)"
proof -
  have k: "key_with_prefix base_dir (host_stat_path Dev ''h1'') = host_stat_path Dev ''h1''"
    by (simp add: key_with_prefix_def has_prefix_iff path_defs)
  show ?thesis
    by (simp add: check_host_status_def get_host_status_def get_host_info_def get_object_def demo_world_def demo_store_def
        store_get_def k mem_kv_def decode_with_def resource_used_def Let_def demo_host_def split: option.split)
qed

lemma demo_check_fits: "check_host_status demo_world demo_store Dev ''h1'' (sample_resource 300 9) [] = Some None"
  unfolding demo_check
  by (simp add: get_resource_def demo_host_def dr_devide_def min_quot_def dr_subtract_def sub_or_zero_def
      sample_resource_def zero_resource_def cpuResource_def gb_def)

lemma demo_elems:
  "list_elems mem_kv base_dir [(host_info_dir Dev @ ''h1'', ''h'')] (host_info_dir Dev) = Inr [(''h1'', ''h'')]"
proof -
  have p: "key_with_prefix base_dir (host_info_dir Dev) = host_info_dir Dev" "has_suffix (host_info_dir Dev) ''/''"
    by (simp_all add: key_with_prefix_def has_prefix_iff has_suffix_def path_defs)
  show ?thesis by (simp add: list_elems_def dir_key_def p mem_kv_def Let_def trim_prefix_def has_prefix_iff)
qed

lemma demo_check_total: "check_host_status demo_world demo_store Dev ''h1'' req [] \<noteq> None"
  unfolding demo_check by (simp add: get_resource_def demo_host_def)

subsection \<open>Properties\<close>

text \<open>
  C18: the search for a host tries hosts one after the other and each at most once: what it tries is taken out of the list
  of candidates, and the list it leaves is the rest.  It ends with the first host that passes the check, which it returns
  without an error.  Otherwise it returns no host and the error of the last one it tried, after all the candidates or the
  first 50; so it finds a host when there are at most 50 candidates of which one passes.
\<close>

theorem find_suitable_host_exact:
  assumes "\<forall>i n. 0 < n \<longrightarrow> rnd i n < n"
    "chk = (\<lambda>h. check_host_status w e (sd_stage s) h (rq_resource (sd_require s))
       (filter (\<lambda>v. ins_lifeCycle v \<noteq> LCStopped) (map (\<lambda>k. the (gm_look (running_instance m (sd_key s)) k)) ks)))"
    "\<forall>h \<in> set (sd_avaliable s). chk h \<noteq> None"
  shows "\<exists>ts s' best err. find_suitable_host w m ks rnd e s = Some (s', best, err)
    \<and> (\<forall>h \<in> set ts. \<exists>terr. chk h = Some (Some terr))
    \<and> (mset (sd_avaliable s) = mset ts + {#best#} + mset (sd_avaliable s') \<and> chk best = Some None \<and> err = None \<and> length ts < 50
       \<or> mset (sd_avaliable s) = mset ts + mset (sd_avaliable s') \<and> best = empty_host \<and> length ts = min 50 (length (sd_avaliable s))
         \<and> (if ts = [] then err = None else chk (last ts) = Some err))
    \<and> (length (sd_avaliable s) \<le> 50 \<longrightarrow> (\<exists>h \<in> set (sd_avaliable s). chk h = Some None) \<longrightarrow> err = None \<and> chk best = Some None)"
proof -
  let ?av = "sd_avaliable s"
  obtain ts best err rest where r: "find_loop chk rnd max_try ?av empty_host None = Some ((best, err), rest)"
    "\<forall>h \<in> set ts. \<exists>terr. chk h = Some (Some terr)"
    "mset ?av = mset ts + {#best#} + mset rest \<and> chk best = Some None \<and> err = None \<and> length ts < max_try
     \<or> mset ?av = mset ts + mset rest \<and> best = empty_host \<and> length ts = min max_try (length ?av)
       \<and> (if ts = [] then err = None else chk (last ts) = Some err)"
    using find_loop_trace [OF assms(1,3), of max_try None] by blast
  have f: "find_suitable_host w m ks rnd e s = Some (s\<lparr>sd_avaliable := rest\<rparr>, best, err)"
    using r(1) by (simp add: find_suitable_host_def assms(2) Let_def)
  have "err = None \<and> chk best = Some None" if "length ?av \<le> 50" "h \<in> set ?av" "chk h = Some None" for h
  proof (rule ccontr)
    assume "\<not> (err = None \<and> chk best = Some None)"
    then have all: "mset ?av = mset ts + mset rest" "length ts = length ?av" using r(3) that(1) by (auto simp: max_try_def)
    then have "rest = []" by (metis add_cancel_left_right length_0_conv size_mset size_union)
    then have "h \<in> set ts" using all(1) that(2) by (metis add.right_neutral mset.simps(1) set_mset_mset)
    then show False using r(2) that(3) by auto
  qed
  then show ?thesis using f r(2,3) unfolding max_try_def
    by (intro exI [of _ ts] exI [of _ "s\<lparr>sd_avaliable := rest\<rparr>"] exI [of _ best] exI [of _ err]) auto
qed

theorem find_suitable_host_exact_witness:
  "\<exists>s' best. find_suitable_host demo_world (new_infor Dev) [] (\<lambda>i n. 0) demo_store (demo_sched (sample_resource 300 9))
     = Some (s', best, None) \<and> check_host_status demo_world demo_store Dev best (sample_resource 300 9) [] = Some None"
proof -
  let ?chk = "\<lambda>h. check_host_status demo_world demo_store Dev h (sample_resource 300 9) []" and ?s = "demo_sched (sample_resource 300 9)"
  have c: "?chk = (\<lambda>h. check_host_status demo_world demo_store (sd_stage ?s) h (rq_resource (sd_require ?s))
       (filter (\<lambda>v. ins_lifeCycle v \<noteq> LCStopped) (map (\<lambda>k. the (gm_look (running_instance (new_infor Dev) (sd_key ?s)) k)) [])))"
    by (simp add: demo_sched_def)
  have t: "\<forall>h \<in> set (sd_avaliable ?s). ?chk h \<noteq> None" using demo_check_total [of "sample_resource 300 9"] by (simp add: demo_sched_def)
  have l: "length (sd_avaliable ?s) \<le> 50" "\<exists>h \<in> set (sd_avaliable ?s). ?chk h = Some None"
    using demo_check_fits by (simp_all add: demo_sched_def)
  obtain ts s' best err where "find_suitable_host demo_world (new_infor Dev) [] (\<lambda>i n. 0) demo_store ?s = Some (s', best, err)"
    "err = None \<and> ?chk best = Some None"
    using find_suitable_host_exact [where rnd = "\<lambda>i n. 0", OF _ c t] l by blast
  then show ?thesis by blast
qed

text \<open>
  the host that passes the check has room for an instance, by what is read of its capacity, its reservation and
  its use, and none of the instances of the deployment that are not stopped runs on it.
\<close>

theorem chosen_host_fits:
  assumes "check_host_status w e st hid req ins = Some None"
  shows "\<exists>stt info free. get_host_status w e st hid = Inr stt \<and> get_host_info w e st hid = Inr info
    \<and> get_resource info = Some free
    \<and> fits (dr_subtract (dr_subtract free (hi_resourceReserved info)) (the (resource_used (sw_scale w) (Some stt)))) 1 req
    \<and> (\<forall>v \<in> set ins. ins_hostID v \<noteq> hid)"
proof -
  obtain stt info free where c: "get_host_status w e st hid = Inr stt" "get_host_info w e st hid = Inr info"
    "get_resource info = Some free" "\<forall>v \<in> set ins. ins_hostID v \<noteq> hid"
    "0 < dr_devide (dr_subtract (dr_subtract free (hi_resourceReserved info)) (the (resource_used (sw_scale w) (Some stt)))) req"
    (is "0 < dr_devide ?d req")
    using check_ok [OF assms] by blast
  have "fits ?d (nat (dr_devide ?d req)) req" using dr_devide_fits [of ?d req] c(5) by simp
  then have "fits ?d 1 req" by (rule fits_le) (use c(5) in simp)
  then show ?thesis using c by blast
qed

theorem chosen_host_fits_witness:
  "\<exists>stt info free. get_host_status demo_world demo_store Dev ''h1'' = Inr stt \<and> get_resource info = Some free
   \<and> fits (dr_subtract (dr_subtract free (hi_resourceReserved info)) (the (resource_used (sw_scale demo_world) (Some stt)))) 1
       (sample_resource 300 9)"
  using chosen_host_fits [OF demo_check_fits] by blast

text \<open>
  a deployment without resources is never placed: the empty demand the scheduler falls back on fits no host,
  so the search returns an error whatever is free.
\<close>

theorem no_demand_no_host:
  assumes "\<forall>i n. 0 < n \<longrightarrow> rnd i n < n" "rq_resource (sd_require s) = zero_resource" "sd_avaliable s \<noteq> []"
    "\<forall>h \<in> set (sd_avaliable s). check_host_status w e (sd_stage s) h zero_resource
       (filter (\<lambda>v. ins_lifeCycle v \<noteq> LCStopped) (map (\<lambda>k. the (gm_look (running_instance m (sd_key s)) k)) ks)) \<noteq> None"
  shows "\<exists>s' err. find_suitable_host w m ks rnd e s = Some (s', empty_host, Some err)"
proof -
  define chk where "chk = (\<lambda>h. check_host_status w e (sd_stage s) h (rq_resource (sd_require s))
       (filter (\<lambda>v. ins_lifeCycle v \<noteq> LCStopped) (map (\<lambda>k. the (gm_look (running_instance m (sd_key s)) k)) ks)))"
  have "chk h \<noteq> Some None" for h
  proof
    assume "chk h = Some None"
    then obtain d where "0 < dr_devide d zero_resource"
      using check_ok [of w e "sd_stage s" h zero_resource] unfolding chk_def assms(2) by blast
    then show False using dr_devide_no_memory [of zero_resource d] by (simp add: zero_resource_def)
  qed
  then have no: "chk h \<noteq> Some None" for h by blast
  have ok: "\<forall>h \<in> set (sd_avaliable s). chk h \<noteq> None" using assms(4) by (simp add: chk_def assms(2))
  obtain ts err rest where r: "find_loop chk rnd max_try (sd_avaliable s) empty_host None = Some ((empty_host, err), rest)"
    "\<forall>h \<in> set ts. \<exists>terr. chk h = Some (Some terr)" "length ts = min max_try (length (sd_avaliable s))"
    "if ts = [] then err = None else chk (last ts) = Some err"
    using find_loop_trace [OF assms(1) ok, of max_try None] no by blast
  then have "ts \<noteq> []" using assms(3) by (auto simp: max_try_def min_def split: if_splits)
  then have "err \<noteq> None" using r(4) no [of "last ts"] by auto
  then show ?thesis using r(1) by (auto simp: find_suitable_host_def chk_def Let_def)
qed

theorem no_demand_no_host_witness:
  "\<exists>s' err. find_suitable_host demo_world (new_infor Dev) [] (\<lambda>i n. 0) demo_store (demo_sched zero_resource)
     = Some (s', empty_host, Some err)"
  using no_demand_no_host [of "\<lambda>i n. 0" "demo_sched zero_resource" demo_world demo_store "new_infor Dev" "[]"]
    demo_check_total [of zero_resource]
  by (simp add: demo_sched_def)

text \<open>
  what is stored of a host as its information is never consulted: saving it changes no answer of the check,
  which reads the capacity of the host out of its status.
\<close>

theorem host_info_not_consulted:
  assumes "kv_ok view (sw_kv w)" "save_host_info (sw_kv w) cd st' e hid' hi = (e', Inr r)"
    "reads_ok (sw_kv w) e" "reads_ok (sw_kv w) e'" "sw_conn w e = None" "sw_conn w e' = None"
  shows "check_host_status w e' st hid req ins = check_host_status w e st hid req ins"
proof -
  obtain d where "view e' = (view e)(host_info_path st' hid' \<mapsto> d)"
    using store_update_view [OF assms(1) assms(2) [unfolded save_host_info_def]] path_prefixes(2) by auto
  then have "view e' (key_with_prefix base_dir (host_stat_path st hid)) = view e (key_with_prefix base_dir (host_stat_path st hid))"
    using path_prefixes(3) [of st hid st' hid'] by (simp add: path_prefixes(1))
  note same = get_object_same [OF assms(1,3-6) this]
  show ?thesis
    by (rule check_same) (simp_all only: get_host_status_def get_host_info_def Let_def same)
qed

theorem host_info_not_consulted_witness:
  "check_host_status demo_world (fst (save_host_info mem_kv (sw_info demo_world) Dev demo_store ''h1'' demo_host)) Dev ''h1''
     (sample_resource 300 9) [] = Some None"
proof -
  let ?r = "save_host_info mem_kv (sw_info demo_world) Dev demo_store ''h1'' demo_host"
  have "snd ?r = Inr None"
    by (simp add: save_host_info_def store_update_def Let_def ttl_opts_def mem_kv_def demo_world_def split: option.split)
  then obtain e' r where s: "?r = (e', Inr r)" by (metis prod.collapse)
  have w: "sw_kv demo_world = mem_kv" "sw_conn demo_world e = None" for e by (simp_all add: demo_world_def)
  show ?thesis
    using host_info_not_consulted [of map_of demo_world "sw_info demo_world" Dev demo_store "''h1''" demo_host e' r Dev "''h1''"
        "sample_resource 300 9" "[]"] s demo_check_fits mem_kv_ok mem_kv_reads
    by (simp add: w)
qed

text \<open>
  choosing hosts panics as soon as one host is stored, unless the selector of the deployment is there and
  empty: a deployment without a selector has a nil one, and for every other selector the predicate is given a
  pointer to a pointer and panics on it.
\<close>

theorem select_host_panics:
  assumes "sw_conn w e = None" "list_elems (sw_kv w) base_dir e (host_info_dir st) = Inr ((k, d) # elems)"
    "cd_decode (sw_info w) d = Some hi" "\<And>sel. r = Some sel \<Longrightarrow> \<not> sw_empty w sel"
  shows "select_host w e st r = None"
proof -
  have "simple_filter (host_predicate w r) (Object 2 hi) = None"
  proof (cases r)
    case None
    then show ?thesis by (simp add: simple_filter_def sp_matches_def sp_empty_def host_predicate_def)
  next
    case (Some sel)
    then show ?thesis using assms(4) by (simp add: simple_filter_def sp_matches_def sp_empty_def host_predicate_def)
  qed
  then show ?thesis using assms(1-3) by (simp add: select_host_def decode_with_def Let_def numeral_2_eq_2)
qed

theorem select_host_panics_witness:
  "select_host demo_world [(host_info_dir Dev @ ''h1'', ''h'')] Dev None = None"
proof -
  show ?thesis
    using demo_elems select_host_panics [of demo_world "[(host_info_dir Dev @ ''h1'', ''h'')]" Dev "''h1''" "''h''" "[]" demo_host None]
    by (simp add: demo_world_def)
qed

end
