(* ===== verification/Replica_Steps.thy ===== *)
theory Replica_Steps
  imports Replica
begin

text \<open>
  What the steps of the controller do to the counts of instances, proved for every manager of host
  configurations that satisfies the laws: removing instances of the expected version (and that the loop
  always ends), adding instances, and the rolling update as a whole.
\<close>

lemma hc_stat_drop:
  "fst (hc_stat ver (Some (fmdrop x f))) =
     fst (hc_stat ver (Some f)) - (case fmlookup f x of None \<Rightarrow> 0 | Some s \<Rightarrow> info_exp ver (ds_info s))"
  by (simp add: hc_stat_def fm_sum_drop)

lemma fmfilter_neq: "fmfilter (\<lambda>y. y \<noteq> x) f = fmdrop x f"
  by (intro fmap_ext) auto

lemma hc_stat_pos:
  assumes "0 < fst (hc_stat ver hc)"
  shows "\<exists>x s. gm_look hc x = Some s \<and> gm_look (ds_info s) ver \<noteq> None"
proof (rule ccontr)
  assume a: "\<nexists>x s. gm_look hc x = Some s \<and> gm_look (ds_info s) ver \<noteq> None"
  have "info_exp ver (ds_info (the (fmlookup (gm_map hc) x))) = 0" if "x \<in> fset (fmdom (gm_map hc))" for x
    using a that by (auto simp: info_exp_def gm_get_def gm_look_map fmlookup_dom_iff split: option.split)
  then have "fst (hc_stat ver hc) = 0" by (simp add: hc_stat_def fm_sum_def)
  with assms show False by simp
qed

context host_config_manager
begin

lemma remove_one_cfgs:
  assumes "fmlookup (cfgs h (rc_key c)) x = Some s" "gm_look (ds_info s) ver = Some v"
  shows "cfgs (fst (remove_one_instance ifc c ver x h)) (rc_key c) =
    (if v \<le> 1 then
       (if gm_len (gm_del ver (ds_info s)) = 0 then fmdrop x (cfgs h (rc_key c))
        else fmupd x (s\<lparr>ds_info := gm_del ver (ds_info s)\<rparr>) (cfgs h (rc_key c)))
     else cfgs h (rc_key c))"
proof -
  have "gm_len (ds_info s) \<noteq> 0" using assms(2) by (cases "ds_info s") auto
  moreover have "fmupd x s (cfgs h (rc_key c)) = cfgs h (rc_key c)"
    using assms(1) by (intro fmap_ext) auto
  ultimately show ?thesis
    by (simp add: remove_one_instance_def get_Some [OF assms(1)] assms(2) Let_def fmfilter_neq)
qed

lemma remove_one_stat:
  assumes "fmlookup (cfgs h (rc_key c)) x = Some s" "gm_look (ds_info s) ver = Some v" "1 \<le> v"
  shows "fst (hc_stat ver (hcm_list ifc h (rc_key c))) - 1
    \<le> fst (hc_stat ver (hcm_list ifc (fst (remove_one_instance ifc c ver x h)) (rc_key c)))"
proof -
  have "info_exp ver (ds_info s) = v" using assms(2) by (simp add: info_exp_def gm_get_def)
  moreover have "info_exp ver (gm_del ver (ds_info s)) = 0"
    by (cases "ds_info s") (simp_all add: info_exp_def gm_get_def)
  ultimately show ?thesis
    unfolding stat_cfgs remove_one_cfgs [OF assms(1,2)] using assms(1,3)
    by (simp add: hc_stat_drop hc_stat_upd)
qed

lemma remove_one_counts:
  assumes "fmlookup (cfgs h (rc_key c)) x = Some s" "gm_look (ds_info s) ver = Some v"
    "counts_ok (hcm_list ifc h (rc_key c))"
  shows "counts_ok (hcm_list ifc (fst (remove_one_instance ifc c ver x h)) (rc_key c))"
proof -
  have ok: "1 \<le> n" if "fmlookup (cfgs h (rc_key c)) y = Some t" "gm_look (ds_info t) w = Some n" for y t w n
    using assms(3) that by (auto simp: counts_ok_def gm_look_map)
  have "gm_look (gm_del ver (ds_info s)) w = (if w = ver then None else gm_look (ds_info s) w)" for w
    by (cases "ds_info s") auto
  then show ?thesis
    using ok assms(1) unfolding counts_ok_def gm_look_map [of "hcm_list _ _ _"] remove_one_cfgs [OF assms(1,2)]
    by (auto split: if_splits)
qed

lemma remove_one_other:
  assumes "fmlookup (cfgs h (rc_key c)) x = Some s" "gm_look (ds_info s) ver = Some v" "y \<noteq> x"
  shows "fmlookup (cfgs (fst (remove_one_instance ifc c ver x h)) (rc_key c)) y = fmlookup (cfgs h (rc_key c)) y"
  using assms(3) unfolding remove_one_cfgs [OF assms(1,2)] by simp

lemma remove_round_inv:
  assumes "distinct xs" "0 \<le> num" "counts_ok (hcm_list ifc h (rc_key c))"
    "\<forall>x \<in> set xs. fmlookup (cfgs h (rc_key c)) x = Some (the (fmlookup hc x))"
    "remove_round ifc c hc xs ticks count num h = Inr (h', num', ticks')"
  shows "fst (hc_stat (rc_expectVersion c) (hcm_list ifc h (rc_key c))) - num
      \<le> fst (hc_stat (rc_expectVersion c) (hcm_list ifc h' (rc_key c))) - num'
    \<and> counts_ok (hcm_list ifc h' (rc_key c)) \<and> 0 \<le> num' \<and> num' \<le> num
    \<and> ((\<exists>x \<in> set xs. gm_look (ds_info (the (fmlookup hc x))) (rc_expectVersion c) \<noteq> None) \<longrightarrow> num' < num)"
  using assms
proof (induction xs arbitrary: ticks num h)
  case (Cons x xs)
  let ?s = "the (fmlookup hc x)" and ?ver = "rc_expectVersion c"
  have fx: "fmlookup (cfgs h (rc_key c)) x = Some ?s" using Cons.prems(4) by simp
  show ?case
  proof (cases "gm_look (ds_info ?s) ?ver")
    case None
    then have "remove_round ifc c hc xs ticks count num h = Inr (h', num', ticks')" using Cons.prems(5) by simp
    from Cons.IH [OF _ _ _ _ this] Cons.prems None show ?thesis by simp
  next
    case (Some v)
    have v: "1 \<le> v" using Cons.prems(3) fx Some by (auto simp: counts_ok_def gm_look_map)
    obtain h1 es where r: "remove_one_instance ifc c ?ver x h = (h1, es)" by fastforce
    define ts where "ts = (case ticks of [] \<Rightarrow> [] | _ # ts \<Rightarrow> ts)"
    have n: "es = []" "1 \<le> num" and rest: "remove_round ifc c hc xs ts count (num - 1) h1 = Inr (h', num', ticks')"
      using Cons.prems(5) Some r by (auto simp: ts_def split: if_splits list.splits bool.splits)
    have h1: "h1 = fst (remove_one_instance ifc c ?ver x h)" using r by simp
    have oth: "\<forall>y \<in> set xs. fmlookup (cfgs h1 (rc_key c)) y = Some (the (fmlookup hc y))"
    proof
      fix y assume "y \<in> set xs"
      moreover from this have "y \<noteq> x" using Cons.prems(1) by auto
      ultimately show "fmlookup (cfgs h1 (rc_key c)) y = Some (the (fmlookup hc y))"
        using remove_one_other [OF fx Some] Cons.prems(4) unfolding h1 by simp
    qed
    have ok: "counts_ok (hcm_list ifc h1 (rc_key c))"
      unfolding h1 by (rule remove_one_counts [OF fx Some Cons.prems(3)])
    have st: "fst (hc_stat ?ver (hcm_list ifc h (rc_key c))) - 1 \<le> fst (hc_stat ?ver (hcm_list ifc h1 (rc_key c)))"
      unfolding h1 by (rule remove_one_stat [OF fx Some v])
    from Cons.IH [OF _ _ ok oth rest] Cons.prems(1) n(2) st show ?thesis by auto
  qed
qed auto

text \<open>As long as there are at least as many instances as are to be removed, every round makes progress.\<close>

lemma remove_rounds_return:
  assumes "orders_ok env"
  shows "counts_ok (hcm_list ifc h (rc_key c)) \<Longrightarrow> num \<le> int fuel \<Longrightarrow>
    num \<le> fst (hc_stat (rc_expectVersion c) (hcm_list ifc h (rc_key c))) \<Longrightarrow>
    \<exists>res. remove_rounds ifc env c fuel n ticks count num h = Returns res"
proof (induction fuel arbitrary: n ticks num h)
  case (Suc fuel)
  let ?hc = "hcm_list ifc h (rc_key c)" and ?ver = "rc_expectVersion c"
  show ?case
  proof (cases "0 < num")
    case True
    have ord: "gm_order ?hc (se_hosts env n ?hc)" using assms by (simp add: orders_ok_def)
    have look: "\<forall>x \<in> set (se_hosts env n ?hc). fmlookup (cfgs h (rc_key c)) x = Some (the (fmlookup (gm_map ?hc) x))"
      using gm_order_mem [OF ord] by (auto simp: gm_look_map)
    show ?thesis
    proof (cases "remove_round ifc c (gm_map ?hc) (se_hosts env n ?hc) ticks count num h")
      case (Inl res)
      then show ?thesis using True by (cases res) (simp add: Let_def)
    next
      case (Inr r)
      obtain h' num' ticks' where r: "r = (h', num', ticks')" by (metis prod_cases3)
      note inv = remove_round_inv [OF gm_order_distinct [OF ord] _ Suc.prems(1) look Inr [unfolded r]]
      obtain x s where "gm_look ?hc x = Some s" "gm_look (ds_info s) ?ver \<noteq> None"
        using hc_stat_pos [of ?ver ?hc] Suc.prems(3) True by auto
      then have "\<exists>x \<in> set (se_hosts env n ?hc). gm_look (ds_info (the (fmlookup (gm_map ?hc) x))) ?ver \<noteq> None"
        using gm_order_mem [OF ord] by (intro bexI [of _ x]) (auto simp: gm_look_map)
      then have "\<exists>res. remove_rounds ifc env c fuel (Suc n) ticks' count num' h' = Returns res"
        using inv True Suc.prems(2,3) by (intro Suc.IH) auto
      then show ?thesis using True by (simp add: Let_def Inr r)
    qed
  qed simp
qed simp

lemma remove_expect_return:
  assumes "orders_ok env" "counts_ok (hcm_list ifc h (rc_key c))"
    "num \<le> fst (hc_stat (rc_expectVersion c) (hcm_list ifc h (rc_key c)))"
  shows "\<exists>res. remove_expect_instances ifc env c num h = Returns res"
  using remove_rounds_return [OF assms(1,2) _ assms(3)] by (simp add: remove_expect_instances_def)

text \<open>When every host has one instance, a round with enough hosts removes one more than it was asked to.\<close>

lemma remove_round_singles:
  assumes "True \<notin> set ticks" "distinct xs" "0 \<le> num" "num < int (length xs)"
    "\<forall>x \<in> set xs. fmlookup (cfgs h (rc_key c)) x = Some (the (fmlookup hc x))
       \<and> ds_info (the (fmlookup hc x)) = Some (fmupd (rc_expectVersion c) 1 fmempty)"
    "remove_round ifc c hc xs ticks count num h = res"
    "\<forall>h' n es. res = Inl (h', n, es) \<longrightarrow> es = []"
  shows "\<exists>h'. res = Inl (h', count, [])
    \<and> cfgs h' (rc_key c) = fmfilter (\<lambda>x. x \<notin> set (take (nat num + 1) xs)) (cfgs h (rc_key c))"
  using assms
proof (induction xs arbitrary: ticks num h)
  case (Cons x xs)
  let ?s = "the (fmlookup hc x)" and ?ver = "rc_expectVersion c"
  have fx: "fmlookup (cfgs h (rc_key c)) x = Some ?s" and s: "ds_info ?s = Some (fmupd ?ver 1 fmempty)"
    using Cons.prems(5) by simp_all
  have look: "gm_look (ds_info ?s) ?ver = Some 1" by (simp add: s)
  have "fmdrop ?ver (fmupd ?ver 1 fmempty) = (fmempty :: (bytes, int) fmap)" by (intro fmap_ext) auto
  then have h1: "cfgs (fst (remove_one_instance ifc c ?ver x h)) (rc_key c) = fmdrop x (cfgs h (rc_key c))"
    using remove_one_cfgs [OF fx look] by (simp add: s)
  obtain h1 es where r: "remove_one_instance ifc c ?ver x h = (h1, es)" by fastforce
  have c1: "cfgs h1 (rc_key c) = fmdrop x (cfgs h (rc_key c))" using h1 r by simp
  have es: "es = []" using Cons.prems(6,7) look r by (auto split: if_splits)
  show ?case
  proof (cases "num = 0")
    case True
    then have "res = Inl (h1, count, [])" using Cons.prems(6) look r es by simp
    then show ?thesis using True c1 by (simp add: fmfilter_neq)
  next
    case False
    define ts where "ts = (case ticks of [] \<Rightarrow> [] | _ # ts \<Rightarrow> ts)"
    have ts: "True \<notin> set ts" using Cons.prems(1) by (auto simp: ts_def split: list.splits)
    have rest: "remove_round ifc c hc xs ts count (num - 1) h1 = res"
      using Cons.prems(1,3,6) False look r es by (auto simp: ts_def split: list.splits bool.splits if_splits)
    have oth: "\<forall>y \<in> set xs. fmlookup (cfgs h1 (rc_key c)) y = Some (the (fmlookup hc y))
       \<and> ds_info (the (fmlookup hc y)) = Some (fmupd ?ver 1 fmempty)"
      using Cons.prems(2,5) by (auto simp: c1)
    obtain h' where h': "res = Inl (h', count, [])"
      "cfgs h' (rc_key c) = fmfilter (\<lambda>y. y \<notin> set (take (nat (num - 1) + 1) xs)) (cfgs h1 (rc_key c))"
      using Cons.IH [OF ts _ _ _ oth rest Cons.prems(7)] Cons.prems(2-4) False by auto
    have "set (take (nat num + 1) (x # xs)) = insert x (set (take (nat (num - 1) + 1) xs))"
      using Cons.prems(3) False by (simp add: nat_diff_distrib)
    then have "cfgs h' (rc_key c) = fmfilter (\<lambda>y. y \<notin> set (take (nat num + 1) (x # xs))) (cfgs h (rc_key c))"
      unfolding h'(2) c1 by (intro fmap_ext) auto
    then show ?thesis using h'(1) by blast
  qed
qed simp

end

subsection \<open>Adding instances\<close>

context host_config_manager
begin

lemma add_one_cfgs:
  assumes "add_one_instance ifc c x h = Some (h', es)"
  shows "\<exists>s f. fmlookup (cfgs h (rc_key c)) x = Some s \<and> ds_info s = Some f
    \<and> cfgs h' (rc_key c) = fmupd x (s\<lparr>ds_info := Some (fmupd (rc_expectVersion c) (info_exp (rc_expectVersion c) (Some f) + 1) f)\<rparr>)
        (cfgs h (rc_key c))"
proof -
  let ?spec = "case hcm_get ifc h (rc_key c) x of None \<Rightarrow> zero_spec | Some s \<Rightarrow> s"
  obtain f where f: "ds_info ?spec = Some f"
    using assms by (cases "ds_info ?spec") (simp_all add: add_one_instance_def Let_def)
  obtain s where s: "fmlookup (cfgs h (rc_key c)) x = Some s"
  proof (cases "fmlookup (cfgs h (rc_key c)) x")
    case None
    then have "?spec = zero_spec" by (simp add: get_fresh)
    then show ?thesis using f by (simp add: zero_spec_def)
  qed simp
  have sp: "?spec = s" by (simp add: get_Some [OF s])
  have "h' = fst (put_spec ifc (rc_key c) x (s\<lparr>ds_info := Some (fmupd (rc_expectVersion c) (gm_get 0 (Some f) (rc_expectVersion c) + 1) f)\<rparr>) h)"
    using assms f unfolding add_one_instance_def Let_def sp by simp
  then show ?thesis using s f sp by (intro exI [of _ s] exI [of _ f]) (simp add: info_exp_def)
qed

lemma add_one_stat:
  assumes "add_one_instance ifc c x h = Some (h', es)" "counts_ok (hcm_list ifc h (rc_key c))"
    "hc_stat (rc_expectVersion c) (hcm_list ifc h (rc_key c)) = (e, u)"
  shows "hc_stat (rc_expectVersion c) (hcm_list ifc h' (rc_key c)) = (e + 1, u)
    \<and> counts_ok (hcm_list ifc h' (rc_key c))
    \<and> legacy_hosts (rc_expectVersion c) (hcm_list ifc h' (rc_key c)) = legacy_hosts (rc_expectVersion c) (hcm_list ifc h (rc_key c))"
proof -
  let ?ver = "rc_expectVersion c"
  obtain s f where s: "fmlookup (cfgs h (rc_key c)) x = Some s" "ds_info s = Some f"
    and h': "cfgs h' (rc_key c) = fmupd x (s\<lparr>ds_info := Some (fmupd ?ver (info_exp ?ver (Some f) + 1) f)\<rparr>) (cfgs h (rc_key c))"
    using add_one_cfgs [OF assms(1)] by blast
  have ok: "1 \<le> n" if "fmlookup (cfgs h (rc_key c)) y = Some t" "gm_look (ds_info t) v = Some n" for y t v n
    using assms(2) that by (auto simp: counts_ok_def gm_look_map)
  have pos: "0 \<le> info_exp ?ver (Some f)"
    using ok [OF s(1), of ?ver] s(2) by (auto simp: info_exp_def gm_get_def split: option.split)
  have "hc_stat ?ver (hcm_list ifc h' (rc_key c)) = (e + 1, u)"
    using assms(3) s unfolding stat_cfgs h' hc_stat_upd
    by (simp add: info_exp_def info_unexp_def gm_get_def fmfilter_upd)
  moreover have "counts_ok (hcm_list ifc h' (rc_key c))"
    using ok s pos unfolding counts_ok_def gm_look_map [of "hcm_list _ _ _"] h' by (auto split: if_splits)
  moreover have "legacy_hosts ?ver (hcm_list ifc h' (rc_key c)) = legacy_hosts ?ver (hcm_list ifc h (rc_key c))"
  proof -
    have "has_legacy ?ver (s\<lparr>ds_info := Some (fmupd ?ver (info_exp ?ver (Some f) + 1) f)\<rparr>) \<longleftrightarrow> has_legacy ?ver s"
      using s(2) by (simp add: has_legacy_def fmfilter_upd)
    then show ?thesis using s(1) unfolding legacy_hosts_def gm_look_map [of "hcm_list _ _ _"] h'
      by (auto split: if_splits)
  qed
  ultimately show ?thesis by blast
qed

text \<open>A call that returns no error has added exactly the instances it was asked for.\<close>

lemma add_loop_stat:
  "add_loop ifc c evs num h errs = Returns (h', []) \<Longrightarrow> 0 \<le> num \<Longrightarrow> counts_ok (hcm_list ifc h (rc_key c)) \<Longrightarrow>
   hc_stat (rc_expectVersion c) (hcm_list ifc h (rc_key c)) = (e, u) \<Longrightarrow>
   errs = [] \<and> hc_stat (rc_expectVersion c) (hcm_list ifc h' (rc_key c)) = (e + num, u)
   \<and> counts_ok (hcm_list ifc h' (rc_key c))
   \<and> legacy_hosts (rc_expectVersion c) (hcm_list ifc h' (rc_key c)) = legacy_hosts (rc_expectVersion c) (hcm_list ifc h (rc_key c))"
proof (induction evs arbitrary: num h errs e)
  case Nil
  then show ?case by (simp split: if_splits)
next
  case (Cons ev evs)
  show ?case
  proof (cases "num > 0")
    case False
    then show ?thesis using Cons.prems by simp
  next
    case True
    show ?thesis
    proof (cases ev)
      case AddCancelled
      then show ?thesis using Cons.prems(1) True by simp
    next
      case NextPanics
      then show ?thesis using Cons.prems(1) True by simp
    next
      case (NoHost er)
      then have "add_loop ifc c evs num h (errs @ [HostError er]) = Returns (h', [])" using Cons.prems(1) True by simp
      from Cons.IH [OF this Cons.prems(2-4)] show ?thesis by simp
    next
      case (HostChosen x)
      show ?thesis
      proof (cases "add_one_instance ifc c x h")
        case None
        then show ?thesis using Cons.prems(1) True HostChosen by simp
      next
        case (Some r)
        obtain h1 es where r: "r = (h1, es)" by fastforce
        have rest: "add_loop ifc c evs (num - 1) h1 (errs @ es) = Returns (h', [])"
          using Cons.prems(1) True HostChosen Some r by simp
        note one = add_one_stat [OF Some [unfolded r] Cons.prems(3,4)]
        from Cons.IH [OF rest] one True show ?thesis by auto
      qed
    qed
  qed
qed

lemma rolling_update_all:
  assumes "orders_ok env" "counts_ok (hcm_list ifc h (rc_key c))" "True \<notin> set (se_ticks env)"
    "hc_stat (rc_expectVersion c) (hcm_list ifc h (rc_key c)) = (e, u)" "e \<le> dc_numOfInstance (rc_dc c)"
    "rolling_update ifc env c h = Returns (h', [])"
    "L = int (card (legacy_hosts (rc_expectVersion c) (hcm_list ifc h (rc_key c))))"
  shows "hc_stat (rc_expectVersion c) (hcm_list ifc h' (rc_key c)) =
    (dc_numOfInstance (rc_dc c) - max 0 (min (dc_numOfInstance (rc_dc c) - e) u - L), 0)"
proof -
  let ?N = "dc_numOfInstance (rc_dc c)" and ?ver = "rc_expectVersion c"
  have ord: "gm_order (hcm_list ifc g (rc_key c)) (se_hosts env 0 (hcm_list ifc g (rc_key c)))" for g
    using assms(1) by (simp add: orders_ok_def)
  have L: "0 \<le> L" by (simp add: assms(7))
  have u: "0 \<le> u" using counts_unexp [OF assms(2), of ?ver] assms(4) by simp
  consider (same) "e = ?N" | (swap) "e < ?N" "?N - e \<le> u" | (add) "e < ?N" "u < ?N - e" using assms(5) by linarith
  then show ?thesis
  proof cases
    case same
    then have "h' = fst (remove_legacy_configs ifc env c h)"
      using assms(6) by (simp add: rolling_update_def assms(4) Let_def)
    then show ?thesis using remove_legacy_stat [OF ord] assms(4) same L u by simp
  next
    case swap
    then show ?thesis using rolling_update_stat [OF assms(1-4) swap assms(6)] assms(7) by simp
  next
    case add
    obtain h1 where h1: "add_instances ifc env c (?N - e - u) h = Returns (h1, [])"
      and up: "(case update_instances ifc env c u h1 of (h2, n, es) \<Rightarrow>
          if es \<noteq> [] then Returns (h2, es) else Returns (remove_legacy_configs ifc env c h2)) = Returns (h', [])"
      using assms(6) add by (auto simp: rolling_update_def assms(4) Let_def split: outcome.splits if_splits)
    note a = add_loop_stat [OF h1 [unfolded add_instances_def] _ assms(2,4)]
    obtain h2 n es where u2: "update_instances ifc env c u h1 = (h2, n, es)" by (metis prod_cases3)
    then have h': "h' = fst (remove_legacy_configs ifc env c h2)" using up by (auto split: if_splits)
    have "hc_stat ?ver (hcm_list ifc h2 (rc_key c)) = (?N - u + n, u - n) \<and> n = min u L"
    proof (cases "0 < u")
      case True
      have st: "hc_stat ?ver (hcm_list ifc h1 (rc_key c)) = (?N - u, u)" using a add by simp
      show ?thesis
        using update_instances_stat [OF assms(1) _ True st u2] assms(3,7) a add by simp
    next
      case False
      then have "h2 = h1" "n = 0" using u2 u by (auto simp: update_instances_def)
      then show ?thesis using a add False u L by simp
    qed
    then show ?thesis using remove_legacy_stat [OF ord [of h2]] h' add by simp
  qed
qed

end

end
