(* ===== verification/Replica_Props.thy ===== *)
theory Replica_Props
  imports Replica_Steps
begin

text \<open>
  The properties of the controller on the program's own manager of host configurations: the lemmas of the
  locale \<open>host_config_manager\<close>, taken from its interpretation.
\<close>

subsection \<open>Removing one instance too many\<close>

definition singles :: "bytes \<Rightarrow> (bytes, deploy_spec) gmap \<Rightarrow> bool" where
  "singles ver hc \<longleftrightarrow> (\<forall>x s. gm_look hc x = Some s \<longrightarrow> ds_info s = Some (fmupd ver 1 fmempty))"

lemma singles_stat:
  assumes "singles ver hc"
  shows "fst (hc_stat ver hc) = int (gm_len hc)"
proof -
  have "info_exp ver (ds_info (the (fmlookup (gm_map hc) x))) = 1" if "x \<in> fset (fmdom (gm_map hc))" for x
    using assms that by (auto simp: singles_def gm_look_map info_exp_def gm_get_def fmlookup_dom_iff)
  then have "fst (hc_stat ver hc) = int (card (fset (fmdom (gm_map hc))))" by (simp add: hc_stat_def fm_sum_def)
  then show ?thesis by (cases hc) (simp_all add: gm_len_def fcard.rep_eq)
qed

lemma gm_len_filter:
  assumes "gm_order hc xs" "gm_map hc' = fmfilter (\<lambda>x. x \<notin> set (take k xs)) (gm_map hc)"
  shows "gm_len hc' = length xs - k"
proof -
  have "distinct xs" by (rule gm_order_distinct [OF assms(1)])
  then have d: "distinct (drop k xs)" "x \<in> set (drop k xs) \<longleftrightarrow> x \<in> set xs \<and> x \<notin> set (take k xs)" for x
    by (auto dest: in_set_dropD) (metis append_take_drop_id distinct_append Un_iff disjoint_iff set_append)+
  have "x \<in> fset (fmdom (gm_map hc')) \<longleftrightarrow> x \<in> set (drop k xs)" for x
    using gm_order_mem [OF assms(1), of x] by (auto simp: assms(2) d(2) gm_look_map fmlookup_dom_iff)
  then have "fset (fmdom (gm_map hc')) = set (drop k xs)" by blast
  then have "card (fset (fmdom (gm_map hc'))) = length xs - k" using d(1) by (simp add: distinct_card)
  then show ?thesis by (cases hc') (simp_all add: gm_len_def fcard.rep_eq)
qed

context host_config_manager
begin

lemma remove_expect_singles:
  assumes "orders_ok env" "True \<notin> set (se_ticks env)" "singles (rc_expectVersion c) (hcm_list ifc h (rc_key c))"
    "0 < num" "num < int (gm_len (hcm_list ifc h (rc_key c)))"
    "remove_expect_instances ifc env c num h = Returns (h', n, [])"
  shows "n = num \<and> singles (rc_expectVersion c) (hcm_list ifc h' (rc_key c))
    \<and> int (gm_len (hcm_list ifc h' (rc_key c))) = int (gm_len (hcm_list ifc h (rc_key c))) - (num + 1)"
proof -
  let ?hc = "hcm_list ifc h (rc_key c)" and ?ver = "rc_expectVersion c"
  let ?xs = "se_hosts env 0 ?hc"
  have ord: "gm_order ?hc ?xs" using assms(1) by (simp add: orders_ok_def)
  note len = gm_len_order [OF ord]
  obtain fuel where fuel: "nat num = Suc fuel" using assms(4) by (cases "nat num") auto
  define r where "r = remove_round ifc c (gm_map ?hc) ?xs (se_ticks env) num num h"
  have res: "(case r of Inl res \<Rightarrow> Returns res
      | Inr (h1, num1, ticks1) \<Rightarrow> remove_rounds ifc env c fuel (Suc 0) ticks1 num num1 h1) = Returns (h', n, [])"
    using assms(4,6) by (simp add: remove_expect_instances_def fuel r_def Let_def)
  have look: "\<forall>x \<in> set ?xs. fmlookup (cfgs h (rc_key c)) x = Some (the (fmlookup (gm_map ?hc) x))
      \<and> ds_info (the (fmlookup (gm_map ?hc) x)) = Some (fmupd ?ver 1 fmempty)"
    using gm_order_mem [OF ord] assms(3) by (auto simp: singles_def gm_look_map)
  have "\<forall>h' n es. r = Inl (h', n, es) \<longrightarrow> es = []" using res by auto
  then obtain h1 where h1: "r = Inl (h1, num, [])"
    "cfgs h1 (rc_key c) = fmfilter (\<lambda>x. x \<notin> set (take (nat num + 1) ?xs)) (cfgs h (rc_key c))"
    using remove_round_singles [OF assms(2) gm_order_distinct [OF ord] _ _ look r_def [symmetric]] assms(4,5) len
    by auto
  then have "h' = h1" "n = num" using res by simp_all
  moreover have "singles ?ver (hcm_list ifc h1 (rc_key c))"
    using assms(3) by (auto simp: singles_def gm_look_map [of "hcm_list _ _ _"] h1(2) split: if_splits)
  moreover have "gm_len (hcm_list ifc h1 (rc_key c)) = length ?xs - (nat num + 1)"
    by (rule gm_len_filter [OF ord h1(2)])
  ultimately show ?thesis using assms(4,5) len by simp
qed

text \<open>A rolling update with more instances of the expected version than wanted: what is removed, and then the old ones.\<close>

lemma rolling_update_over:
  assumes "orders_ok env" "hc_stat (rc_expectVersion c) (hcm_list ifc h (rc_key c)) = (e, u)" "dc_numOfInstance (rc_dc c) < e"
    "rolling_update ifc env c h = Returns (h', [])"
  shows "snd (hc_stat (rc_expectVersion c) (hcm_list ifc h' (rc_key c))) = 0
    \<and> (True \<notin> set (se_ticks env) \<and> singles (rc_expectVersion c) (hcm_list ifc h (rc_key c)) \<and> 0 < dc_numOfInstance (rc_dc c) \<longrightarrow>
        fst (hc_stat (rc_expectVersion c) (hcm_list ifc h' (rc_key c))) = dc_numOfInstance (rc_dc c) - 1)"
proof -
  let ?N = "dc_numOfInstance (rc_dc c)" and ?ver = "rc_expectVersion c"
  obtain h1 n where r: "remove_expect_instances ifc env c (e - ?N) h = Returns (h1, n, [])"
      and h': "h' = fst (remove_legacy_configs ifc env c h1)"
    using assms(3,4) by (auto simp: rolling_update_def assms(2) Let_def split: outcome.splits if_splits)
  have ord: "gm_order (hcm_list ifc h1 (rc_key c)) (se_hosts env 0 (hcm_list ifc h1 (rc_key c)))"
    using assms(1) by (simp add: orders_ok_def)
  have "fst (hc_stat ?ver (hcm_list ifc h1 (rc_key c))) = ?N - 1"
    if s: "True \<notin> set (se_ticks env)" "singles ?ver (hcm_list ifc h (rc_key c))" "0 < ?N"
  proof -
    have len: "int (gm_len (hcm_list ifc h (rc_key c))) = e" using singles_stat [OF s(2)] assms(2) by simp
    have "0 < e - ?N" "e - ?N < int (gm_len (hcm_list ifc h (rc_key c)))" using assms(3) s(3) by (simp_all add: len)
    from remove_expect_singles [OF assms(1) s(1,2) this r] show ?thesis by (auto simp: singles_stat len)
  qed
  then show ?thesis using remove_legacy_stat [OF ord] h' by simp
qed

end

subsection \<open>Examples\<close>

text \<open>A store in memory on which deleting a key that is not there succeeds, so that no operation fails.\<close>

definition plain_env :: "(bytes \<times> bytes) list hc_env" where
  "plain_env = \<lparr>he_kv = mem_kv\<lparr>kv_take := \<lambda>e k. (AList.delete k e, Inr (Some []))\<rparr>,
     he_codec = \<lparr>cd_encode = \<lambda>s. Some [], cd_decode = \<lambda>d. Some zero_spec, cd_zero = zero_spec\<rparr>,
     he_conn = \<lambda>e. None\<rparr>"

definition spec_of :: "(bytes \<times> int) list \<Rightarrow> deploy_spec" where
  "spec_of vs = \<lparr>ds_info = Some (foldr (\<lambda>(v, n) f. fmupd v n f) vs fmempty)\<rparr>"

text \<open>A manager in which the deployment \<open>java/crm\<close> has the given specifications.\<close>

definition crm_hosts :: "(bytes \<times> (bytes \<times> int) list) list \<Rightarrow> (bytes \<times> bytes) list hc_manager" where
  "crm_hosts hs = \<lparr>hc_stage = Dev,
     hc_cfgs = fmupd ''java/crm'' (foldr (\<lambda>(h, vs) f. fmupd h (spec_of vs) f) hs fmempty) fmempty,
     hc_etcd = map (\<lambda>(h, vs). (deploy_host_expect_path_of Dev h ''java/crm'', [])) hs\<rparr>"

definition crm_config :: "int \<Rightarrow> (unit, unit) deploy_config" where
  "crm_config n = \<lparr>dc_type = ''java'', dc_name = ''crm'', dc_numOfInstance = n, dc_serviceType = ServiceDaemon,
     dc_stage = Dev, dc_maxInstancesPerNode = 0, dc_imageVersion = Some ''v2'', dc_deployDir = [],
     dc_values = [], dc_deployPolicy = [], dc_labels = [], dc_Selector = [], dc_selector = None, dc_resourceQuota = None, dc_resourceRequired = None,
     dc_restartPolicy = None, dc_updatePolicy = None\<rparr>"

text \<open>The controller of \<open>java/crm\<close> that is to run \<open>n\<close> instances of version \<open>ver\<close>.\<close>

definition crm_ctrl :: "bytes \<Rightarrow> int \<Rightarrow> (unit, unit) replica_ctrl" where
  "crm_ctrl ver n = \<lparr>rc_opt = \<lparr>so_maxTries = 3, so_cocurrency = 0, so_legacyVerionTimeout = 0, so_dryMode = False\<rparr>,
     rc_stage = Dev, rc_key = ''java/crm'', rc_dc = crm_config n, rc_legacyTimer = False, rc_expectVersion = ver\<rparr>"

lemma plain_env_simps [simp]:
  "kv_put (he_kv plain_env) = kv_put mem_kv" "kv_grant (he_kv plain_env) = kv_grant mem_kv"
  "kv_take (he_kv plain_env) e k = (AList.delete k e, Inr (Some []))" "he_conn plain_env e = None"
  "cd_encode (he_codec plain_env) s = Some []"
  by (simp_all add: plain_env_def)

lemma plain_set [simp]: "snd (set_host_config plain_env m k h s) = None"
  by (simp add: set_host_config_def set_host_deployspec_def store_update_def Let_def ttl_opts_def mem_kv_def
      split: prod.split option.split)

lemma plain_put_spec:
  "put_spec (hc_iface plain_env) k x s m = (fst (set_host_config plain_env m k x s), [])"
  by (cases "set_host_config plain_env m k x s") (use plain_set [of m k x s] in \<open>simp add: put_spec_def\<close>)

lemma plain_delete_loop [simp]: "snd (snd (delete_loop plain_env st key hs e km errs)) = errs"
  by (induction hs arbitrary: e km errs)
    (simp_all add: delete_host_deployspec_def store_delete_def Let_def)

lemma plain_drop_hosts [simp]: "snd (drop_hosts (hc_iface plain_env) k xs m) = []"
proof -
  have "snd (delete_host_configs plain_env m k xs) = []"
    by (auto simp: delete_host_configs_def split: option.split prod.split) (metis plain_delete_loop snd_conv)
  then show ?thesis by (simp add: drop_hosts_def prod.case_eq_if)
qed

lemma plain_remove_loop: "snd (remove_legacy_loop (hc_iface plain_env) key ver hc xs m errs) = errs"
proof (induction xs arbitrary: m errs)
  case (Cons x xs)
  let ?cfg = "the (fmlookup hc x)"
  let ?i = "map_option (fmfilter (\<lambda>v. v = ver)) (ds_info ?cfg)"
  have "snd (if gm_len ?i \<le> 0 then drop_hosts (hc_iface plain_env) key [x] m
      else if ?i \<noteq> ds_info ?cfg then put_spec (hc_iface plain_env) key x (?cfg\<lparr>ds_info := ?i\<rparr>) m else (m, [])) = []"
    by (simp only: plain_put_spec snd_conv plain_drop_hosts split: if_split) simp
  then show ?case using Cons.IH unfolding remove_legacy_loop.simps(2) Let_def prod.case_eq_if
    by (simp only: append_Nil2)
qed simp

lemma plain_remove_legacy [simp]: "snd (remove_legacy_configs (hc_iface plain_env) env c m) = []"
  by (simp add: remove_legacy_configs_def Let_def plain_remove_loop)

lemma plain_remove_one [simp]: "snd (remove_one_instance (hc_iface plain_env) c ver x m) = []"
  by (simp add: remove_one_instance_def Let_def plain_put_spec split: option.split)

lemma plain_remove_round:
  "case remove_round (hc_iface plain_env) ctrl hc xs [] count num m of
     Inl r \<Rightarrow> snd r = (count, []) | Inr r \<Rightarrow> snd (snd r) = []"
  by (induction xs arbitrary: num m) (simp_all add: prod.case_eq_if)

lemma plain_remove_rounds:
  "remove_rounds (hc_iface plain_env) env ctrl fuel n [] count num m = Returns r \<Longrightarrow> snd r = (count, [])"
proof (induction fuel arbitrary: n num m)
  case (Suc fuel)
  let ?hc = "list_host_configs m (rc_key ctrl)"
  show ?case
  proof (cases "remove_round (hc_iface plain_env) ctrl (gm_map ?hc) (se_hosts env n ?hc) [] count num m")
    case (Inl res)
    then show ?thesis
      using Suc.prems plain_remove_round [of count ctrl "gm_map ?hc" "se_hosts env n ?hc" num m]
      by (auto simp: Let_def split: if_splits)
  next
    case (Inr res)
    then have "snd (snd res) = []"
      using plain_remove_round [of count ctrl "gm_map ?hc" "se_hosts env n ?hc" num m] by simp
    then show ?thesis using Suc Inr by (cases res) (auto simp: Let_def split: if_splits)
  qed
qed (auto split: if_splits)

lemma crm_list [simp]:
  "hs \<noteq> [] \<Longrightarrow> list_host_configs (crm_hosts hs) ''java/crm'' = Some (foldr (\<lambda>(h, vs) f. fmupd h (spec_of vs) f) hs fmempty)"
proof -
  assume "hs \<noteq> []"
  then obtain h vs hs' where hs: "hs = (h, vs) # hs'" by (cases hs) auto
  have "fm_norm (foldr (\<lambda>(h, vs) f. fmupd h (spec_of vs) f) hs fmempty) = Some (foldr (\<lambda>(h, vs) f. fmupd h (spec_of vs) f) hs fmempty)"
    unfolding hs by simp
  then show ?thesis by (simp add: list_host_configs_norm crm_hosts_def)
qed

lemma crm_ctrl_simps [simp]:
  "rc_key (crm_ctrl ver n) = ''java/crm''" "rc_expectVersion (crm_ctrl ver n) = ver"
  "dc_numOfInstance (rc_dc (crm_ctrl ver n)) = n" "\<not> rc_legacyTimer (crm_ctrl ver n)"
  by (simp_all add: crm_ctrl_def crm_config_def)

lemma sorted_env_simps [simp]: "se_ticks (sorted_env a t) = t" "se_add (sorted_env a t) = a"
  by (simp_all add: sorted_env_def)

lemma info_exp_simps [simp]:
  "info_exp ver None = 0" "info_exp ver (Some f) = (case fmlookup f ver of None \<Rightarrow> 0 | Some n \<Rightarrow> n)"
  by (simp_all add: info_exp_def gm_get_def)

lemma info_unexp_simps [simp]:
  "info_unexp ver None = 0" "info_unexp ver (Some fmempty) = 0"
  "info_unexp ver (Some (fmupd v n f)) =
     (if v = ver then info_unexp ver (Some f)
      else info_unexp ver (Some f) - (case fmlookup f v of None \<Rightarrow> 0 | Some w \<Rightarrow> w) + n)"
  by (simp_all add: info_unexp_def fmfilter_upd fm_sum_upd split: option.split)

lemma hc_stat_simps [simp]:
  "hc_stat ver None = (0, 0)" "hc_stat ver (Some fmempty) = (0, 0)"
  by (simp_all add: hc_stat_def)

lemma sorted_single [simp]:
  "se_hosts (sorted_env a t) n (Some (fmupd x s fmempty)) = [x]"
  "se_vers (sorted_env a t) (Some (fmupd v k fmempty)) = [v]"
  by (simp_all add: sorted_env_def sorted_list_of_fset.rep_eq)

lemma legacy_hosts_simps [simp]:
  "legacy_hosts ver None = {}" "legacy_hosts ver (Some fmempty) = {}"
  "legacy_hosts ver (Some (fmupd x s f)) =
     (if has_legacy ver s then insert x (legacy_hosts ver (Some f)) else legacy_hosts ver (Some f) - {x})"
  by (auto simp: legacy_hosts_def)

lemma counts_ok_upd [simp]:
  "counts_ok None" "counts_ok (Some fmempty)"
  "\<forall>v n. gm_look (ds_info s) v = Some n \<longrightarrow> 1 \<le> n \<Longrightarrow> counts_ok (Some f) \<Longrightarrow> counts_ok (Some (fmupd x s f))"
  by (auto simp: counts_ok_def)

lemma sorted_vers: "gm_order i (se_vers (sorted_env a t) i)"
  by (simp add: sorted_env_def gm_order_sorted)

lemma spec_of_simps [simp]:
  "ds_info (spec_of []) = Some fmempty" "ds_info (spec_of ((v, n) # vs)) = Some (fmupd v n (the (ds_info (spec_of vs))))"
  by (simp_all add: spec_of_def)

lemma expected_only_other:
  assumes "expected_only ver s = Some t" "v \<noteq> ver"
  shows "info_exp v (ds_info t) = 0"
  using assms by (cases "ds_info s") (auto simp: expected_only_def Let_def info_exp_def gm_get_def split: if_splits)

subsection \<open>Properties\<close>

text \<open>
  C4: a rolling update that returns without an error leaves no instance of another version.  Of the expected version, with
  \<open>e\<close> instances of it and \<open>u\<close> others at first and \<open>N\<close> wanted: if \<open>e\<close> is at most \<open>N\<close>, it leaves \<open>N\<close> less what it could not
  replace, as it updates at most one instance per host (with \<open>L\<close> hosts that have old instances) and then deletes all the
  other old ones; if \<open>e\<close> is larger and every host runs one instance, it removes one too many and leaves \<open>N - 1\<close>.
\<close>

theorem rolling_update_effect:
  assumes "orders_ok env" "counts_ok (list_host_configs m (rc_key c))" "True \<notin> set (se_ticks env)"
    "hc_stat (rc_expectVersion c) (list_host_configs m (rc_key c)) = (e, u)"
    "rolling_update (hc_iface henv) env c m = Returns (m', [])"
    "L = int (card (legacy_hosts (rc_expectVersion c) (list_host_configs m (rc_key c))))"
  shows "snd (hc_stat (rc_expectVersion c) (list_host_configs m' (rc_key c))) = 0
    \<and> (e \<le> dc_numOfInstance (rc_dc c) \<longrightarrow>
        fst (hc_stat (rc_expectVersion c) (list_host_configs m' (rc_key c))) =
          dc_numOfInstance (rc_dc c) - max 0 (min (dc_numOfInstance (rc_dc c) - e) u - L))
    \<and> (0 < dc_numOfInstance (rc_dc c) \<and> dc_numOfInstance (rc_dc c) < e \<and> singles (rc_expectVersion c) (list_host_configs m (rc_key c)) \<longrightarrow>
        fst (hc_stat (rc_expectVersion c) (list_host_configs m' (rc_key c))) = dc_numOfInstance (rc_dc c) - 1)"
proof (cases "e \<le> dc_numOfInstance (rc_dc c)")
  case True
  then show ?thesis using hc.rolling_update_all [of env henv m c e u m' L] assms by simp
next
  case False
  then show ?thesis using hc.rolling_update_over [of env c henv m e u m'] assms(1,3-5) by simp
qed

theorem rolling_update_effect_witness:
  "\<exists>m'. rolling_update (hc_iface plain_env) (sorted_env [] []) (crm_ctrl ''v2'' 2) (crm_hosts [(''h1'', [(''v1'', 2)])])
     = Returns (m', [])
   \<and> hc_stat ''v2'' (list_host_configs m' ''java/crm'') = (1, 0)"
proof -
  let ?m = "crm_hosts [(''h1'', [(''v1'', 2)])]" and ?c = "crm_ctrl ''v2'' 2" and ?env = "sorted_env [] []"
  let ?s = "spec_of [(''v1'', 2)]"
  have l: "list_host_configs ?m ''java/crm'' = Some (fmupd ''h1'' ?s fmempty)" by simp
  have leg: "has_legacy ''v2'' ?s" by (simp add: has_legacy_iff)
  have st: "hc_stat ''v2'' (Some (fmupd ''h1'' ?s fmempty)) = (0, 2)" by (simp add: hc_stat_upd)
  define m2 where "m2 = fst (set_host_config plain_env ?m ''java/crm'' ''h1'' (moved (se_vers ?env) ''v2'' ?s))"
  have up: "update_instances (hc_iface plain_env) ?env ?c 2 ?m = (m2, 1, [])"
    unfolding update_instances_def
    by (simp add: st update_loop_step sorted_vers leg plain_put_spec m2_def moved_def)
  obtain m' where m': "rolling_update (hc_iface plain_env) ?env ?c ?m = Returns (m', [])"
    using that [of "fst (remove_legacy_configs (hc_iface plain_env) ?env ?c m2)"] plain_remove_legacy [of ?env ?c m2]
    by (simp add: rolling_update_def st up Let_def prod_eq_iff)
  have "hc_stat ''v2'' (list_host_configs m' ''java/crm'') = (1, 0)"
    using rolling_update_effect [of ?env ?m ?c 0 2 plain_env m' 1] m' by (simp add: st leg prod_eq_iff)
  then show ?thesis using m' by blast
qed

text \<open>
  C21: \<open>updateInstances\<close> turns instances of other versions into instances of the expected one, one for one:
  with \<open>n\<close> the number it returns, the total does not change, and \<open>n\<close> is bounded by what was asked for and by
  the number of old instances.
\<close>

theorem update_instances_conserves:
  assumes "orders_ok env" "counts_ok (list_host_configs m (rc_key c))" "0 < num"
    "hc_stat (rc_expectVersion c) (list_host_configs m (rc_key c)) = (e, u)"
    "update_instances (hc_iface henv) env c num m = (m', n, es)"
  shows "hc_stat (rc_expectVersion c) (list_host_configs m' (rc_key c)) = (e + n, u - n) \<and> 0 \<le> n \<and> n \<le> min num u"
  using hc.update_instances_stat(1,2) [of env henv m c num e u m' n es] assms by simp

theorem update_instances_conserves_witness:
  "\<exists>m' n es. update_instances (hc_iface plain_env) (sorted_env [] []) (crm_ctrl ''v2'' 2) 1 (crm_hosts [(''h1'', [(''v1'', 2)])])
     = (m', n, es)
   \<and> hc_stat ''v2'' (list_host_configs m' ''java/crm'') = (0 + n, 2 - n) \<and> 0 \<le> n \<and> n \<le> min 1 2"
proof -
  let ?m = "crm_hosts [(''h1'', [(''v1'', 2)])]" and ?c = "crm_ctrl ''v2'' 2" and ?env = "sorted_env [] []"
  obtain m' n es where u: "update_instances (hc_iface plain_env) ?env ?c 1 ?m = (m', n, es)" by (metis prod_cases3)
  have "hc_stat ''v2'' (Some (fmupd ''h1'' (spec_of [(''v1'', 2)]) fmempty)) = (0, 2)" by (simp add: hc_stat_upd)
  then show ?thesis using update_instances_conserves [of ?env ?m ?c 1 0 2 plain_env m' n es] u by simp
qed

text \<open>
  \<open>removeExpectInstances\<close> always returns when it is asked for at most as many instances as there are:
  every round over the hosts removes one at least, so no more rounds are needed than instances asked for.
\<close>

theorem remove_expect_terminates:
  assumes "orders_ok env" "counts_ok (list_host_configs m (rc_key c))"
    "num \<le> fst (hc_stat (rc_expectVersion c) (list_host_configs m (rc_key c)))"
  shows "\<exists>res. remove_expect_instances (hc_iface henv) env c num m = Returns res"
  using hc.remove_expect_return [of env henv m c num] assms by simp

theorem remove_expect_terminates_witness:
  "\<exists>res. remove_expect_instances (hc_iface plain_env) (sorted_env [] []) (crm_ctrl ''v1'' 1) 1
     (crm_hosts [(''h1'', [(''v1'', 2)])]) = Returns res"
proof -
  have "hc_stat ''v1'' (Some (fmupd ''h1'' (spec_of [(''v1'', 2)]) fmempty)) = (2, 0)" by (simp add: hc_stat_upd)
  then show ?thesis
    by (intro remove_expect_terminates) simp_all
qed

text \<open>
  \<open>addInstances\<close> that returns without an error has added exactly the instances of the expected version it
  was asked for, and left the others alone.
\<close>

theorem add_instances_exact:
  assumes "counts_ok (list_host_configs m (rc_key c))" "0 \<le> num"
    "hc_stat (rc_expectVersion c) (list_host_configs m (rc_key c)) = (e, u)"
    "add_instances (hc_iface henv) env c num m = Returns (m', [])"
  shows "hc_stat (rc_expectVersion c) (list_host_configs m' (rc_key c)) = (e + num, u)"
  using hc.add_loop_stat [of henv c "se_add env" num m "[]" m' e u] assms by (simp add: add_instances_def)

theorem add_instances_exact_witness:
  "\<exists>m'. add_instances (hc_iface plain_env) (sorted_env [HostChosen ''h1''] []) (crm_ctrl ''v1'' 3) 1
     (crm_hosts [(''h1'', [(''v1'', 2)])]) = Returns (m', [])
   \<and> hc_stat ''v1'' (list_host_configs m' ''java/crm'') = (3, 0)"
proof -
  let ?m = "crm_hosts [(''h1'', [(''v1'', 2)])]" and ?c = "crm_ctrl ''v1'' 3" and ?env = "sorted_env [HostChosen ''h1''] []"
  have "get_host_config ?m ''java/crm'' ''h1'' = Some (spec_of [(''v1'', 2)])"
    using hc.get_Some [of plain_env ?m "''java/crm''" "''h1''" "spec_of [(''v1'', 2)]"] by simp
  then obtain m' where "add_instances (hc_iface plain_env) ?env ?c 1 ?m = Returns (m', [])"
    by (simp add: add_instances_def add_one_instance_def Let_def plain_put_spec)
  moreover have "hc_stat ''v1'' (Some (fmupd ''h1'' (spec_of [(''v1'', 2)]) fmempty)) = (2, 0)" by (simp add: hc_stat_upd)
  ultimately show ?thesis using add_instances_exact [of ?m ?c 1 2 0 plain_env ?env m'] by simp
qed

text \<open>
  the first instance on a host cannot be added: for a host that has no specification of the deployment
  \<open>addOneInstance\<close> writes to a nil map.
\<close>

theorem first_instance_panics:
  assumes "0 < num" "se_add env = HostChosen x # evs" "fmlookup (gm_map (list_host_configs m (rc_key c))) x = None"
  shows "add_instances (hc_iface henv) env c num m = Panics"
proof -
  have "get_host_config m (rc_key c) x = None \<or> get_host_config m (rc_key c) x = Some zero_spec"
    using hc.get_fresh [of henv m "rc_key c" x] assms(3) by simp
  then show ?thesis
    using assms(1,2) by (auto simp: add_instances_def add_one_instance_def Let_def zero_spec_def)
qed

theorem first_instance_panics_witness:
  "add_instances (hc_iface plain_env) (sorted_env [HostChosen ''h2''] []) (crm_ctrl ''v1'' 3) 1
     (crm_hosts [(''h1'', [(''v1'', 2)])]) = Panics"
  using first_instance_panics [of 1 "sorted_env [HostChosen ''h2''] []" "''h2''" "[]"
      "crm_hosts [(''h1'', [(''v1'', 2)])]" "crm_ctrl ''v1'' 3" plain_env] by simp

text \<open>
  when every host has one instance, \<open>removeExpectInstances\<close> that is asked for \<open>num\<close> instances and returns
  without an error has removed \<open>num + 1\<close>, although it returns \<open>num\<close>: the test after the decrement is
  \<open>num < 0\<close>.
\<close>

theorem remove_expect_overshoots:
  assumes "orders_ok env" "True \<notin> set (se_ticks env)" "singles (rc_expectVersion c) (list_host_configs m (rc_key c))"
    "0 < num" "num < int (gm_len (list_host_configs m (rc_key c)))"
    "remove_expect_instances (hc_iface henv) env c num m = Returns (m', n, [])"
  shows "n = num \<and> fst (hc_stat (rc_expectVersion c) (list_host_configs m' (rc_key c))) =
    fst (hc_stat (rc_expectVersion c) (list_host_configs m (rc_key c))) - (num + 1)"
  using hc.remove_expect_singles [of env c henv m num m' n] assms by (auto simp: singles_stat)

theorem remove_expect_overshoots_witness:
  "\<exists>m'. remove_expect_instances (hc_iface plain_env) (sorted_env [] []) (crm_ctrl ''v1'' 1) 1
     (crm_hosts [(''h1'', [(''v1'', 1)]), (''h2'', [(''v1'', 1)])]) = Returns (m', 1, [])
   \<and> fst (hc_stat ''v1'' (list_host_configs m' ''java/crm'')) = 0"
proof -
  let ?m = "crm_hosts [(''h1'', [(''v1'', 1)]), (''h2'', [(''v1'', 1)])]" and ?c = "crm_ctrl ''v1'' 1"
  let ?env = "sorted_env [] []"
  let ?hc = "Some (fmupd ''h1'' (spec_of [(''v1'', 1)]) (fmupd ''h2'' (spec_of [(''v1'', 1)]) fmempty))"
  have s: "singles ''v1'' ?hc" by (auto simp: singles_def)
  have len: "gm_len ?hc = 2" by (simp add: gm_len_def fcard_finsert_if)
  obtain m' where "remove_expect_instances (hc_iface plain_env) ?env ?c 1 ?m = Returns (m', 1, [])"
  proof -
    obtain r where "remove_expect_instances (hc_iface plain_env) ?env ?c 1 ?m = Returns r"
      using hc.remove_expect_return [of ?env plain_env ?m ?c 1] singles_stat [OF s] len
      by (auto simp del: of_nat_numeral)
    moreover from this have "snd r = (1, [])"
      unfolding remove_expect_instances_def using plain_remove_rounds [of ?env ?c "nat 1" 0 1 1 ?m r] by (simp only: sorted_env_simps)
    ultimately show thesis using that by (metis prod.collapse)
  qed
  then show ?thesis using remove_expect_overshoots [of ?env ?c ?m 1 plain_env m' 1] s len
    by (simp add: singles_stat)
qed

text \<open>
  \<open>checkStatus\<close> reports no error exactly when the hosts are to run as many instances of the expected version
  as the configuration asks for, exactly as many instances of it and of the others run as the hosts are to
  run, and old instances only run while the timer that will remove them is set.
\<close>

theorem check_status_exact:
  "snd (check_status (hc_iface henv) env c running m) = [] \<longleftrightarrow>
     hc_stat (rc_expectVersion c) (list_host_configs m (rc_key c)) =
       (int (length (filter (\<lambda>v. v = rc_expectVersion c) running)), int (length (filter (\<lambda>v. v \<noteq> rc_expectVersion c) running)))
   \<and> fst (hc_stat (rc_expectVersion c) (list_host_configs m (rc_key c))) = dc_numOfInstance (rc_dc c)
   \<and> (snd (hc_stat (rc_expectVersion c) (list_host_configs m (rc_key c))) \<le> 0 \<or> rc_legacyTimer c)"
  by (cases "hc_stat (rc_expectVersion c) (list_host_configs m (rc_key c))")
    (auto simp: check_status_def Let_def split: prod.split)

text \<open>
  a new image version is never rolled out: \<open>Deploy\<close> takes the new configuration over but not its version, so
  when the old version runs in the right number, a rolling update to another version \<open>v\<close> keeps the old
  instances and starts none of \<open>v\<close>.
\<close>

theorem deploy_ignores_new_version:
  assumes "orders_ok env" "dc_updatePolicy config = Some upo" "uo_policy upo = RollingUpdate"
    "dc_imageVersion config = Some v" "v \<noteq> rc_expectVersion c"
    "hc_stat (rc_expectVersion c) (list_host_configs m (rc_key c)) = (dc_numOfInstance config, u)"
  shows "\<exists>m' c' es. deploy new_num zero (hc_iface henv) env c config m = Returns (m', c', es)
    \<and> hc_stat (rc_expectVersion c) (list_host_configs m' (rc_key c)) = (dc_numOfInstance config, 0)
    \<and> fst (hc_stat v (list_host_configs m' (rc_key c))) = 0"
proof -
  let ?c = "c\<lparr>rc_dc := config\<rparr>"
  let ?m' = "fst (remove_legacy_configs (hc_iface henv) env ?c m)"
  have ord: "gm_order (hcm_list (hc_iface henv) m (rc_key ?c)) (se_hosts env 0 (hcm_list (hc_iface henv) m (rc_key ?c)))"
    using assms(1) by (simp add: orders_ok_def)
  have d: "deploy new_num zero (hc_iface henv) env c config m =
      Returns (?m', ?c, snd (remove_legacy_configs (hc_iface henv) env ?c m))"
    using assms(2,3,6) by (simp add: deploy_def Let_def rolling_update_def with_ctrl_def prod.case_eq_if)
  have "info_exp v (ds_info s) = 0" if "fmlookup (gm_map (list_host_configs ?m' (rc_key c))) x = Some s" for x s
  proof -
    have "Option.bind (fmlookup (gm_map (list_host_configs m (rc_key c))) x) (expected_only (rc_expectVersion c)) = Some s"
      using that hc.remove_legacy_cfgs [of henv m ?c env x, OF ord] by simp
    then show ?thesis using assms(5) by (auto simp: bind_eq_Some_conv intro: expected_only_other)
  qed
  then have "fst (hc_stat v (list_host_configs ?m' (rc_key c))) = 0"
    by (auto simp: hc_stat_def fm_sum_def fmlookup_dom_iff intro!: sum.neutral)
  then show ?thesis using d hc.remove_legacy_stat [of henv m ?c env, OF ord] assms(6) by simp
qed

theorem deploy_ignores_new_version_witness:
  "\<exists>m' c' es. deploy (\<lambda>n f. n) () (hc_iface plain_env) (sorted_env [] []) (crm_ctrl ''v1'' 2)
     ((crm_config 2)\<lparr>dc_updatePolicy := Some \<lparr>uo_policy = RollingUpdate, uo_step = 0, uo_newPercent = (), uo_timeout = 0\<rparr>\<rparr>)
     (crm_hosts [(''h1'', [(''v1'', 2)])]) = Returns (m', c', es)
   \<and> hc_stat ''v1'' (list_host_configs m' ''java/crm'') = (2, 0)
   \<and> fst (hc_stat ''v2'' (list_host_configs m' ''java/crm'')) = 0"
proof -
  let ?u = "\<lparr>uo_policy = RollingUpdate, uo_step = 0, uo_newPercent = (), uo_timeout = 0\<rparr>"
  have "hc_stat ''v1'' (Some (fmupd ''h1'' (spec_of [(''v1'', 2)]) fmempty)) = (2, 0)" by (simp add: hc_stat_upd)
  then show ?thesis
    using deploy_ignores_new_version [of "sorted_env [] []" "(crm_config 2)\<lparr>dc_updatePolicy := Some ?u\<rparr>" ?u "''v2''"
        "crm_ctrl ''v1'' 2" "crm_hosts [(''h1'', [(''v1'', 2)])]" 0 "\<lambda>n f. n" "()" plain_env]
    by (simp add: crm_config_def)
qed

text \<open>
  a mixed update ends short: if there are at most \<open>N\<close> old instances more than the new version is to get, it
  adds \<open>N - numUpdate\<close> instances only and returns without an error and without replacing any old one.
\<close>

theorem mix_update_ends_short:
  assumes "counts_ok (list_host_configs m (rc_key c))" "dc_updatePolicy (rc_dc c) = Some upo"
    "hc_stat (rc_expectVersion c) (list_host_configs m (rc_key c)) = (e, u)" "e < dc_numOfInstance (rc_dc c)"
    "numUpdate = u - new_num (dc_numOfInstance (rc_dc c)) (uo_newPercent upo)"
    "0 < numUpdate" "numUpdate \<le> dc_numOfInstance (rc_dc c)"
    "mix_update new_num (hc_iface henv) env c m = Returns (m', [])"
  shows "hc_stat (rc_expectVersion c) (list_host_configs m' (rc_key c)) = (e + (dc_numOfInstance (rc_dc c) - numUpdate), u)"
proof (cases "numUpdate = dc_numOfInstance (rc_dc c)")
  case True
  then show ?thesis using assms by (simp add: mix_update_def Let_def)
next
  case False
  then have "add_instances (hc_iface henv) env c (dc_numOfInstance (rc_dc c) - numUpdate) m = Returns (m', [])"
    using assms(2-8) by (auto simp: mix_update_def Let_def split: outcome.splits if_splits)
  then show ?thesis
    using hc.add_loop_stat [of henv c "se_add env" _ m "[]" m' e u] assms(1,3,7) by (simp add: add_instances_def)
qed

theorem mix_update_ends_short_witness:
  "\<exists>m'. mix_update (\<lambda>n f. 1) (hc_iface plain_env) (sorted_env [] [])
     ((crm_ctrl ''v2'' 2)\<lparr>rc_dc := (crm_config 2)\<lparr>dc_updatePolicy := Some \<lparr>uo_policy = MixedUpdate, uo_step = 0, uo_newPercent = (), uo_timeout = 0\<rparr>\<rparr>\<rparr>)
     (crm_hosts [(''h1'', [(''v1'', 3)])]) = Returns (m', [])
   \<and> hc_stat ''v2'' (list_host_configs m' ''java/crm'') = (0, 3)"
proof -
  let ?u = "\<lparr>uo_policy = MixedUpdate, uo_step = 0, uo_newPercent = (), uo_timeout = 0\<rparr>"
  define c where "c = (crm_ctrl ''v2'' 2)\<lparr>rc_dc := (crm_config 2)\<lparr>dc_updatePolicy := Some ?u\<rparr>\<rparr>"
  have c: "rc_key c = ''java/crm''" "rc_expectVersion c = ''v2''" "dc_numOfInstance (rc_dc c) = 2"
    "dc_updatePolicy (rc_dc c) = Some ?u"
    by (simp_all add: c_def crm_config_def)
  let ?m = "crm_hosts [(''h1'', [(''v1'', 3)])]"
  have st: "hc_stat ''v2'' (list_host_configs ?m ''java/crm'') = (0, 3)" by (simp add: hc_stat_upd)
  have ok: "counts_ok (list_host_configs ?m ''java/crm'')" by simp
  have mix: "mix_update (\<lambda>n f. 1) (hc_iface plain_env) (sorted_env [] []) c ?m = Returns (?m, [])"
    unfolding mix_update_def c hc_iface_simps st by simp
  have "hc_stat ''v2'' (list_host_configs ?m ''java/crm'') = (0 + (2 - 2), 3)"
  proof (rule mix_update_ends_short [of ?m c ?u 0 3 2 "\<lambda>n f. 1" plain_env "sorted_env [] []" ?m, unfolded c])
    show "hc_stat ''v2'' (list_host_configs ?m ''java/crm'') = (0, 3)" by (rule st)
    show "counts_ok (list_host_configs ?m ''java/crm'')" by (rule ok)
    show "mix_update (\<lambda>n f. 1) (hc_iface plain_env) (sorted_env [] []) c ?m = Returns (?m, [])" by (rule mix)
  qed simp_all
  then show ?thesis unfolding c_def [symmetric] using mix by (intro exI [of _ ?m]) simp
qed

end
