(* ===== verification/Sched_Manager.thy ===== *)
theory Sched_Manager
  imports Host_Choice Replica_Props
begin

text \<open>
  The manager of the controllers (\<open>controllers/scheduler/manager.go\<close>), and the composition of a controller with
  the choice of hosts.  The controllers are held by value and written back after every call that changes one.
\<close>

subsection \<open>State\<close>

datatype mgr_error =
  MgrArgsNil | MgrDc dc_error | WrongStage stage stage | UnknownDeployment stage bytes | InProcess stage bytes
| MgrCtrl "rc_error list" | Unmanaged "bytes list"

text \<open>A controller in the map may be nil; the map itself may be nil.\<close>

record ('f, 's) manager =
  mg_stage :: stage
  mg_lease :: int
  mg_controllers :: "(bytes, ('f, 's) replica_ctrl option) gmap"

text \<open>\<open>deps\<close> says that the two managers it works with are not nil.\<close>

definition new_schedular :: "stage \<Rightarrow> int \<Rightarrow> bool \<Rightarrow> mgr_error + ('f, 's) manager" where
  "new_schedular st lease deps =
     (if \<not> deps then Inl MgrArgsNil
      else Inr \<lparr>mg_stage = st, mg_lease = lease, mg_controllers = None\<rparr>)"

subsection \<open>Controllers\<close>

definition get_controller :: "('f, 's) manager \<Rightarrow> bytes \<Rightarrow> ('f, 's) replica_ctrl option \<times> bool" where
  "get_controller m key = (case gm_look (mg_controllers m) key of None \<Rightarrow> (None, False) | Some c \<Rightarrow> (c, True))"

definition update_controller :: "('f, 's) manager \<Rightarrow> bytes \<Rightarrow> ('f, 's) replica_ctrl \<Rightarrow> ('f, 's) manager go" where
  "update_controller m key c =
     map_option (\<lambda>cs. m\<lparr>mg_controllers := cs\<rparr>) (gm_set key (Some c) (mg_controllers m))"

definition delete_controller :: "('f, 's) manager \<Rightarrow> bytes \<Rightarrow> ('f, 's) manager" where
  "delete_controller m key = m\<lparr>mg_controllers := gm_del key (mg_controllers m)\<rparr>"

definition controler_ready :: "('f, 's) manager \<Rightarrow> bytes \<Rightarrow> mgr_error + ('f, 's) replica_ctrl" where
  "controler_ready m key =
     (case get_controller m key of
        (Some c, _) \<Rightarrow> Inr c
      | (None, ok) \<Rightarrow> if \<not> ok then Inl (UnknownDeployment (mg_stage m) key) else Inl (InProcess (mg_stage m) key))"

subsection \<open>Operations\<close>

text \<open>
  \<open>Update\<close>: a nil controller panics.  The result is the state of the hosts, the manager and the errors.
\<close>

definition mgr_update ::
  "(bytes \<Rightarrow> 's option) \<Rightarrow> (int \<Rightarrow> 'f \<Rightarrow> int) \<Rightarrow> 'f \<Rightarrow> 'h hcm_iface \<Rightarrow> sched_env \<Rightarrow> ('f, 's) manager
     \<Rightarrow> ('f, 's) deploy_config option \<Rightarrow> 'h \<Rightarrow> ('h \<times> ('f, 's) manager \<times> mgr_error list) outcome" where
  "mgr_update parse new_num zero ifc env m dc h =
     (case dc of
        None \<Rightarrow> Returns (h, m, [])
      | Some c \<Rightarrow>
          (case dc_validate parse c of
             Inl e \<Rightarrow> Returns (h, m, [MgrDc e])
           | Inr d \<Rightarrow>
               if dc_stage d \<noteq> mg_stage m then Returns (h, m, [WrongStage (dc_stage d) (mg_stage m)])
               else
                 (let key = dc_key d in
                  case get_controller m key of
                    (_, False) \<Rightarrow> Returns (h, m, [UnknownDeployment (mg_stage m) key])
                  | (None, True) \<Rightarrow> Panics
                  | (Some ctl, True) \<Rightarrow>
                      (case deploy new_num zero ifc env ctl d h of
                         Returns (h', ctl', es) \<Rightarrow>
                           (case update_controller m key ctl' of
                              None \<Rightarrow> Panics
                            | Some m' \<Rightarrow> Returns (h', m', if es = [] then [] else [MgrCtrl es]))
                       | Panics \<Rightarrow> Panics | Exits \<Rightarrow> Exits | Waits \<Rightarrow> Waits))))"

definition mgr_deploy ::
  "(bytes \<Rightarrow> 's option) \<Rightarrow> (int \<Rightarrow> 'f \<Rightarrow> int) \<Rightarrow> 'f \<Rightarrow> 'h hcm_iface \<Rightarrow> sched_env \<Rightarrow> ('f, 's) manager
     \<Rightarrow> ('f, 's) deploy_config option \<Rightarrow> 'h \<Rightarrow> ('h \<times> ('f, 's) manager \<times> mgr_error list) outcome" where
  "mgr_deploy parse new_num zero ifc env m dc h =
     (case dc of
        None \<Rightarrow> Returns (h, m, [])
      | Some c \<Rightarrow>
          (case dc_validate parse c of
             Inl e \<Rightarrow> Returns (h, m, [MgrDc e])
           | Inr d \<Rightarrow>
               (let key = dc_key d in
                case controler_ready m key of
                  Inl e \<Rightarrow> Returns (h, m, [e])
                | Inr _ \<Rightarrow>
                    (case new_replica_ctrl parse (Some d)
                            \<lparr>so_maxTries = 3, so_cocurrency = 0, so_legacyVerionTimeout = mg_lease m, so_dryMode = False\<rparr> of
                       Inl e \<Rightarrow> Returns (h, delete_controller m key, [MgrCtrl [e]])
                     | Inr c \<Rightarrow>
                         (case mgr_update parse new_num zero ifc env m (Some d) h of
                            Returns (h', m', es) \<Rightarrow>
                              (case update_controller m' key c of None \<Rightarrow> Panics | Some m'' \<Rightarrow> Returns (h', m'', es))
                          | Panics \<Rightarrow> Panics | Exits \<Rightarrow> Exits | Waits \<Rightarrow> Waits)))))"

text \<open>The new timeout of the timer, in nanoseconds, if there is a timer.\<close>

definition renew_lease :: "('f, 's) replica_ctrl \<Rightarrow> int option" where
  "renew_lease c = (if rc_legacyTimer c then Some (so_legacyVerionTimeout (rc_opt c)) else None)"

definition revoke_lease :: "('f, 's) replica_ctrl \<Rightarrow> int option" where
  "revoke_lease c = (if rc_legacyTimer c then Some 1000000 else None)"

definition revoke_legacy_lease :: "('f, 's) manager \<Rightarrow> bytes \<Rightarrow> mgr_error + int option" where
  "revoke_legacy_lease m key = map_sum id revoke_lease (controler_ready m key)"

definition renew_legacy_lease :: "('f, 's) manager \<Rightarrow> bytes \<Rightarrow> mgr_error + int option" where
  "renew_legacy_lease m key = map_sum id renew_lease (controler_ready m key)"

definition mgr_destroy :: "'h hcm_iface \<Rightarrow> ('f, 's) manager \<Rightarrow> bytes \<Rightarrow> 'h \<Rightarrow> 'h \<times> mgr_error list" where
  "mgr_destroy ifc m key h =
     (case controler_ready m key of
        Inl e \<Rightarrow> (h, [e])
      | Inr c \<Rightarrow> (case rc_destroy ifc c h of (h', es) \<Rightarrow> (h', if es = [] then [] else [MgrCtrl es])))"

subsection \<open>The check\<close>

text \<open>An alert has labels and the errors it reports.\<close>

record alert_message =
  al_labels :: "(bytes \<times> bytes) list"
  al_errors :: "mgr_error list"

text \<open>\<open>running k\<close> has the versions of the running instances of \<open>k\<close>.\<close>

fun check_loop ::
  "'h hcm_iface \<Rightarrow> sched_env \<Rightarrow> ('f, 's) manager \<Rightarrow> (bytes \<Rightarrow> bytes list) \<Rightarrow> bytes list \<Rightarrow> 'h
     \<Rightarrow> 'h \<times> mgr_error list \<times> alert_message list" where
  "check_loop ifc env m running [] h = (h, [], [])"
| "check_loop ifc env m running (k # ks) h =
     (case get_controller m k of
        (None, _) \<Rightarrow> check_loop ifc env m running ks h
      | (Some c, _) \<Rightarrow>
          (case check_status ifc env c (running k) h of
             (h', []) \<Rightarrow> check_loop ifc env m running ks h'
           | (h', es) \<Rightarrow>
               (let (pt, dn, _) = parse_deploy_key k;
                    alert = \<lparr>al_labels = [(''env'', stage_string (mg_stage m)), (''from'', ''dolphin scheduler''),
                      (''deployKey'', k), (''ptype'', pt), (''proj'', dn)], al_errors = [MgrCtrl es]\<rparr>
                in case check_loop ifc env m running ks h' of
                     (h'', merr, alerts) \<Rightarrow> (h'', MgrCtrl es # merr, alert # alerts))))"

text \<open>\<open>order\<close> is the order of the loops over the keys.\<close>

definition mgr_check_status ::
  "'h hcm_iface \<Rightarrow> sched_env \<Rightarrow> (bytes fset \<Rightarrow> bytes list) \<Rightarrow> ins_manager \<Rightarrow> (bytes \<Rightarrow> bytes list) \<Rightarrow> ('f, 's) manager \<Rightarrow> 'h
     \<Rightarrow> 'h \<times> mgr_error list \<times> alert_message list" where
  "mgr_check_status ifc env order info running m h =
     (let keys = order (ins_list_deploykeys info);
          unmanaged = filter (\<lambda>k. gm_look (mg_controllers m) k = None) keys;
          managed = filter (\<lambda>k. gm_look (mg_controllers m) k \<noteq> None) keys
      in case check_loop ifc env m running managed h of
           (h', merr, alerts) \<Rightarrow>
             if unmanaged \<noteq> []
             then (h', merr @ [Unmanaged unmanaged],
               alerts @ [\<lparr>al_labels = [(''env'', stage_string (mg_stage m)), (''from'', ''dolphin scheduler''),
                 (''key'', ''monitor'')], al_errors = [Unmanaged unmanaged]\<rparr>])
             else (h', merr, alerts))"

subsection \<open>Adding instances with the scheduler\<close>

text \<open>
  What \<open>addInstances\<close> meets at its next \<open>n\<close> ticks when it asks the scheduler: while it runs neither the store nor
  the running instances change.
\<close>

definition next_event ::
  "('e, 'f, 's) sched_world \<Rightarrow> ins_manager \<Rightarrow> bytes list \<Rightarrow> (nat \<Rightarrow> nat \<Rightarrow> nat) \<Rightarrow> 'e \<Rightarrow> 's scheduler \<Rightarrow> 's scheduler \<times> add_event" where
  "next_event w m ks rnd e s =
     (case next_host w m ks rnd e s of
        None \<Rightarrow> (s, NextPanics)
      | Some (s', h, None) \<Rightarrow> (s', HostChosen h)
      | Some (s', h, Some err) \<Rightarrow> (s', NoHost err))"

fun next_events ::
  "('e, 'f, 's) sched_world \<Rightarrow> ins_manager \<Rightarrow> bytes list \<Rightarrow> (nat \<Rightarrow> nat \<Rightarrow> nat) \<Rightarrow> 'e \<Rightarrow> nat \<Rightarrow> 's scheduler \<Rightarrow> add_event list" where
  "next_events w m ks rnd e 0 s = []"
| "next_events w m ks rnd e (Suc n) s =
     (case next_event w m ks rnd e s of (s', ev) \<Rightarrow> ev # next_events w m ks rnd e n s')"

text \<open>\<open>addInstances\<close> with its own scheduler, for \<open>n\<close> ticks.\<close>

definition add_instances_sched ::
  "('e, 'g, 's) sched_world \<Rightarrow> ins_manager \<Rightarrow> bytes list \<Rightarrow> (nat \<Rightarrow> nat \<Rightarrow> nat) \<Rightarrow> 'e \<Rightarrow> nat \<Rightarrow> default_registry
     \<Rightarrow> 'h hcm_iface \<Rightarrow> sched_env \<Rightarrow> ('f, 's) replica_ctrl \<Rightarrow> int \<Rightarrow> 'h \<Rightarrow> ('h \<times> rc_error list) outcome" where
  "add_instances_sched w m ks rnd e n g ifc env c num h =
     (let (g', req) = to_require g (rc_dc c);
          s = new_scheduler (rc_stage c) (rc_key c) req
      in add_instances ifc (env\<lparr>se_add := next_events w m ks rnd e n s\<rparr>) c num h)"

subsection \<open>Reachable managers\<close>

text \<open>The managers that calls of \<open>Deploy\<close> and \<open>Update\<close> can lead to, with any parameters and states of the hosts.\<close>

inductive mgr_reach ::
  "(bytes \<Rightarrow> 's option) \<Rightarrow> (int \<Rightarrow> 'f \<Rightarrow> int) \<Rightarrow> 'f \<Rightarrow> 'h hcm_iface \<Rightarrow> ('f, 's) manager \<Rightarrow> bool"
  for parse new_num zero ifc where
  mgr_new: "new_schedular st lease True = Inr m \<Longrightarrow> mgr_reach parse new_num zero ifc m"
| mgr_deployed: "mgr_reach parse new_num zero ifc m \<Longrightarrow> mgr_deploy parse new_num zero ifc env m dc h = Returns (h', m', es) \<Longrightarrow>
    mgr_reach parse new_num zero ifc m'"
| mgr_updated: "mgr_reach parse new_num zero ifc m \<Longrightarrow> mgr_update parse new_num zero ifc env m dc h = Returns (h', m', es) \<Longrightarrow>
    mgr_reach parse new_num zero ifc m'"

lemma no_controllers_ready: "mg_controllers m = None \<Longrightarrow> controler_ready m key = Inl (UnknownDeployment (mg_stage m) key)"
  by (simp add: controler_ready_def get_controller_def)

lemma no_controllers_deploy:
  assumes "mg_controllers m = None"
  shows "\<exists>es. mgr_deploy parse new_num zero ifc env m (Some dc) h = Returns (h, m, es) \<and> es \<noteq> []"
  by (cases "dc_validate parse dc") (simp_all add: mgr_deploy_def no_controllers_ready [OF assms] Let_def)

lemma no_controllers_update:
  assumes "mg_controllers m = None"
  shows "\<exists>es. mgr_update parse new_num zero ifc env m (Some dc) h = Returns (h, m, es) \<and> es \<noteq> []"
  using assms by (cases "dc_validate parse dc") (simp_all add: mgr_update_def get_controller_def Let_def)

lemma reach_no_controllers: "mgr_reach parse new_num zero ifc m \<Longrightarrow> mg_controllers m = None"
proof (induction rule: mgr_reach.induct)
  case (mgr_new st lease m)
  then show ?case by (auto simp: new_schedular_def)
next
  case (mgr_deployed m env dc h h' m' es)
  show ?case
  proof (cases dc)
    case None
    then show ?thesis using mgr_deployed by (simp add: mgr_deploy_def)
  next
    case (Some d)
    then show ?thesis
      using mgr_deployed no_controllers_deploy [OF mgr_deployed.IH, of parse new_num zero ifc env d h] by auto
  qed
next
  case (mgr_updated m env dc h h' m' es)
  show ?case
  proof (cases dc)
    case None
    then show ?thesis using mgr_updated by (simp add: mgr_update_def)
  next
    case (Some d)
    then show ?thesis
      using mgr_updated no_controllers_update [OF mgr_updated.IH, of parse new_num zero ifc env d h] by auto
  qed
qed

lemma dc_validate_idem: "dc_validate parse dc = Inr d \<Longrightarrow> dc_validate parse d = Inr d"
proof -
  assume v: "dc_validate parse dc = Inr d"
  then have c: "dc_type dc \<noteq> []" "dc_name dc \<noteq> []" "dc_serviceType dc \<noteq> []" "\<not> dc_numOfInstance dc \<le> 0" "dc_stage dc \<noteq> UnknownStage"
    unfolding dc_validate_def by (simp_all only: if_True if_False split: if_splits) auto
  obtain d1 where d1: "dc_Selector d1 = [] \<or> dc_selector d1 \<noteq> None" "dc_type d1 = dc_type dc" "dc_name d1 = dc_name dc"
    "dc_serviceType d1 = dc_serviceType dc" "dc_numOfInstance d1 = dc_numOfInstance dc" "dc_stage d1 = dc_stage dc"
    "d = (if dc_restartPolicy d1 = None then d1\<lparr>dc_restartPolicy := Some (RestartPolicy ''always'' 0)\<rparr> else d1)"
  proof (cases "dc_Selector dc \<noteq> [] \<and> dc_selector dc = None")
    case True
    then obtain s where "to_selector parse (dc_Selector dc) = Inr s"
      using v c by (cases "to_selector parse (dc_Selector dc)") (simp_all add: dc_validate_def)
    then show thesis using v c True by (intro that [of "dc\<lparr>dc_selector := Some s\<rparr>"]) (simp_all add: dc_validate_def)
  next
    case False
    then show thesis using v c by (intro that [of dc]) (auto simp: dc_validate_def)
  qed
  have "dc_restartPolicy d \<noteq> None \<and> (dc_Selector d = [] \<or> dc_selector d \<noteq> None) \<and> dc_type d \<noteq> [] \<and> dc_name d \<noteq> []
      \<and> dc_serviceType d \<noteq> [] \<and> \<not> dc_numOfInstance d \<le> 0 \<and> dc_stage d \<noteq> UnknownStage"
    unfolding d1(7) using d1(1-6) c by simp
  then show ?thesis by (auto simp: dc_validate_def)
qed

subsection \<open>Properties\<close>

text \<open>
  nothing is ever deployed: the manager is made without controllers and every call first looks for one, so
  in every reachable state \<open>Deploy\<close> and \<open>Update\<close> of any configuration, and \<open>Destroy\<close> of any deployment, return an error
  and change neither the hosts nor the manager.
\<close>

theorem manager_never_deploys:
  assumes "mgr_reach parse new_num zero ifc m"
  shows "(\<exists>es. mgr_deploy parse new_num zero ifc env m (Some dc) h = Returns (h, m, es) \<and> es \<noteq> [])
    \<and> (\<exists>es. mgr_update parse new_num zero ifc env m (Some dc) h = Returns (h, m, es) \<and> es \<noteq> [])
    \<and> (\<exists>err. mgr_destroy ifc m key h = (h, [err]))"
proof -
  note none = reach_no_controllers [OF assms]
  have "mgr_destroy ifc m key h = (h, [UnknownDeployment (mg_stage m) key])"
    by (simp add: mgr_destroy_def no_controllers_ready [OF none])
  then show ?thesis
    by (intro conjI no_controllers_deploy [OF none] no_controllers_update [OF none]) blast
qed

definition new_manager :: "(unit, unit) manager" where
  "new_manager = \<lparr>mg_stage = Dev, mg_lease = 0, mg_controllers = None\<rparr>"

lemma new_manager_reach: "mgr_reach parse new_num zero ifc new_manager"
  by (rule mgr_new [of Dev 0]) (simp add: new_schedular_def new_manager_def)

theorem manager_never_deploys_witness:
  "\<exists>es. mgr_deploy (\<lambda>b. None) (\<lambda>n f. n) () (hc_iface plain_env) (sorted_env [] []) new_manager (Some (crm_config 2)) (crm_hosts [])
     = Returns (crm_hosts [], new_manager, es) \<and> es \<noteq> []"
  using manager_never_deploys [OF new_manager_reach, of "\<lambda>b. None" "\<lambda>n f. n" "()" "hc_iface plain_env" "sorted_env [] []"
      "crm_config 2" "crm_hosts []" "[]"]
  by (rule conjunct1)

text \<open>
  if a controller of the deployment were there, \<open>Deploy\<close> would run the update with it, for the version it was
  made with, and only then put a controller for the new version in its place: the version that is rolled out
  lags one call behind.
\<close>

theorem deploy_lags_one_version:
  assumes "dc_validate parse dc = Inr d" "gm_look (mg_controllers m) (dc_key d) = Some (Some c)"
    "mgr_deploy parse new_num zero ifc env m (Some dc) h = Returns (h', m', es)" "dc_stage d = mg_stage m"
  shows "\<exists>c1 es1 c2. deploy new_num zero ifc env c d h = Returns (h', c1, es1)
    \<and> gm_look (mg_controllers m') (dc_key d) = Some (Some c2)
    \<and> rc_expectVersion c2 = (case dc_imageVersion d of None \<Rightarrow> [] | Some v \<Rightarrow> v)"
proof -
  note d = dc_validate_idem [OF assms(1)]
  obtain c2 where c2: "new_replica_ctrl parse (Some d)
      \<lparr>so_maxTries = 3, so_cocurrency = 0, so_legacyVerionTimeout = mg_lease m, so_dryMode = False\<rparr> = Inr c2"
    "rc_expectVersion c2 = (case dc_imageVersion d of None \<Rightarrow> [] | Some v \<Rightarrow> v)"
    using d by (simp add: new_replica_ctrl_def Let_def)
  have r: "controler_ready m (dc_key d) = Inr c" using assms(2) by (simp add: controler_ready_def get_controller_def)
  obtain h1 m1 es1 where u: "mgr_update parse new_num zero ifc env m (Some d) h = Returns (h1, m1, es1)"
    "(case update_controller m1 (dc_key d) c2 of None \<Rightarrow> Panics | Some m'' \<Rightarrow> Returns (h1, m'', es1)) = Returns (h', m', es)"
    using assms(1,3) c2(1) r by (auto simp: mgr_deploy_def Let_def split: outcome.splits)
  have dep: "\<exists>c1 es2. deploy new_num zero ifc env c d h = Returns (h1, c1, es2)"
    using u(1) d assms(2,4) by (auto simp: mgr_update_def get_controller_def Let_def split: outcome.splits option.splits)
  have h1: "h1 = h'" using u(2) by (auto split: option.splits)
  have "gm_look (mg_controllers m') (dc_key d) = Some (Some c2)"
    using u(2) by (cases "mg_controllers m1") (auto simp: update_controller_def)
  then show ?thesis using dep c2(2) unfolding h1 by blast
qed

definition known_manager :: "(unit, unit) manager" where
  "known_manager = \<lparr>mg_stage = Dev, mg_lease = 0, mg_controllers = Some (fmupd ''java/crm'' (Some (crm_ctrl ''v1'' 2)) fmempty)\<rparr>"

theorem deploy_lags_one_version_witness:
  "\<exists>h' m' es c2. mgr_deploy (\<lambda>b. None) (\<lambda>n f. n) () (hc_iface plain_env) (sorted_env [] []) known_manager (Some (crm_config 2))
       (crm_hosts [(''h1'', [(''v1'', 2)])]) = Returns (h', m', es)
   \<and> gm_look (mg_controllers m') ''java/crm'' = Some (Some c2) \<and> rc_expectVersion c2 = ''v2''"
proof -
  let ?d = "(crm_config 2)\<lparr>dc_restartPolicy := Some (RestartPolicy ''always'' 0)\<rparr> :: (unit, unit) deploy_config"
  let ?h = "crm_hosts [(''h1'', [(''v1'', 2)])]" and ?c1 = "(crm_ctrl ''v1'' 2)\<lparr>rc_dc := ?d\<rparr>"
  have st: "hc_stat ''v1'' (list_host_configs ?h ''java/crm'') = (2, 0)" by (simp add: hc_stat_upd)
  have d: "dc_validate (\<lambda>b. None) (crm_config 2) = Inr ?d"
    by (simp add: dc_validate_def crm_config_def stage_defs ServiceDaemon_def)
  have f: "dc_key ?d = ''java/crm''" "dc_stage ?d = Dev" "dc_imageVersion ?d = Some ''v2''"
    by (simp_all add: crm_config_def dc_key_def deploy_key_def)
  have k: "get_controller known_manager ''java/crm'' = (Some (crm_ctrl ''v1'' 2), True)" "mg_stage known_manager = Dev"
    by (simp_all add: known_manager_def get_controller_def)
  obtain h' es where r: "deploy (\<lambda>n f. n) () (hc_iface plain_env) (sorted_env [] []) (crm_ctrl ''v1'' 2) ?d ?h = Returns (h', ?c1, es)"
  proof -
    have "rc_expectVersion ?c1 = ''v1''" "rc_key ?c1 = ''java/crm''" "dc_numOfInstance (rc_dc ?c1) = 2"
      by (simp_all add: crm_config_def)
    then have "rolling_update (hc_iface plain_env) (sorted_env [] []) ?c1 ?h =
        Returns (remove_legacy_configs (hc_iface plain_env) (sorted_env [] []) ?c1 ?h)"
      unfolding rolling_update_def hc_iface_simps by (simp only: st Let_def prod.case) simp
    then show thesis
      using that [of "fst (remove_legacy_configs (hc_iface plain_env) (sorted_env [] []) ?c1 ?h)"
          "snd (remove_legacy_configs (hc_iface plain_env) (sorted_env [] []) ?c1 ?h)"]
      by (simp add: deploy_def Let_def default_update_option_def with_ctrl_def prod.case_eq_if crm_config_def
          ServiceDaemon_def ServiceService_def RollingUpdate_def)
  qed
  obtain m1 where m1: "update_controller known_manager ''java/crm'' ?c1 = Some m1"
    by (simp add: known_manager_def update_controller_def)
  then have u: "mgr_update (\<lambda>b. None) (\<lambda>n f. n) () (hc_iface plain_env) (sorted_env [] []) known_manager (Some ?d) ?h =
      Returns (h', m1, if es = [] then [] else [MgrCtrl es])"
    unfolding mgr_update_def option.case dc_validate_idem [OF d] sum.case Let_def f k
    by (simp only: r prod.case bool.case option.case outcome.case) simp
  obtain c2 where c2: "new_replica_ctrl (\<lambda>b. None) (Some ?d)
      \<lparr>so_maxTries = 3, so_cocurrency = 0, so_legacyVerionTimeout = mg_lease known_manager, so_dryMode = False\<rparr> = Inr c2"
    by (simp add: new_replica_ctrl_def dc_validate_idem [OF d] Let_def)
  obtain m2 where m2: "update_controller m1 ''java/crm'' c2 = Some m2"
    using m1 by (auto simp: known_manager_def update_controller_def)
  have r2: "mgr_deploy (\<lambda>b. None) (\<lambda>n f. n) () (hc_iface plain_env) (sorted_env [] []) known_manager (Some (crm_config 2)) ?h
      = Returns (h', m2, if es = [] then [] else [MgrCtrl es])"
    unfolding mgr_deploy_def option.case d sum.case Let_def f controler_ready_def k prod.case u outcome.case c2 m2 ..
  have l: "gm_look (mg_controllers known_manager) (dc_key ?d) = Some (Some (crm_ctrl ''v1'' 2))"
    unfolding f by (simp add: known_manager_def)
  show ?thesis
    using deploy_lags_one_version [OF d l r2] r2 unfolding f k(2) by (simp only: option.case simp_thms) blast
qed

text \<open>
  \<open>CheckStatus\<close> of a reachable manager reports every key the manager of instances has ever seen as an
  unmanaged deployment with instances running, in one error and one alert.
\<close>

theorem check_status_reports_unmanaged:
  assumes "mgr_reach parse new_num zero ifc m" "distinct (order (ins_list_deploykeys info))"
    "set (order (ins_list_deploykeys info)) = fset (ins_list_deploykeys info)" "ins_list_deploykeys info \<noteq> {||}"
  shows "\<exists>ks a. mgr_check_status ifc env order info running m h = (h, [Unmanaged ks], [a])
    \<and> set ks = fset (fmdom (im_instances info))"
proof -
  let ?ks = "order (ins_list_deploykeys info)"
  have none: "mg_controllers m = None" by (rule reach_no_controllers [OF assms(1)])
  have "?ks \<noteq> []" using assms(3,4) by auto
  then show ?thesis using assms(3) none by (simp add: mgr_check_status_def Let_def ins_list_deploykeys_def)
qed

theorem check_status_reports_unmanaged_witness:
  "\<exists>ks a. mgr_check_status (hc_iface plain_env) (sorted_env [] []) sorted_list_of_fset
       \<lparr>im_stage = Dev, im_instances = fmupd ''java/crm'' fmempty fmempty\<rparr> (\<lambda>k. []) new_manager (crm_hosts [])
     = (crm_hosts [], [Unmanaged ks], [a]) \<and> set ks = {''java/crm''}"
  using check_status_reports_unmanaged [OF new_manager_reach [of "\<lambda>b. None" "\<lambda>n f. n" "()" "hc_iface plain_env"], of sorted_list_of_fset
      "\<lparr>im_stage = Dev, im_instances = fmupd ''java/crm'' fmempty fmempty\<rparr>" "sorted_env [] []" "\<lambda>k. []" "crm_hosts []"]
  by (simp add: ins_list_deploykeys_def sorted_list_of_fset.rep_eq)

text \<open>
  a deployment without a host selector can get no instance: once a host is stored, the first time
  \<open>addInstances\<close> asks the scheduler the process panics.
\<close>

theorem no_selector_panics:
  assumes "0 < num" "0 < n" "dc_selector (rc_dc c) = None" "sw_conn w e = None"
    "list_elems (sw_kv w) base_dir e (host_info_dir (rc_stage c)) = Inr ((k, d) # elems)"
    "cd_decode (sw_info w) d = Some hi"
  shows "add_instances_sched w m ks rnd e n g ifc env c num h = Panics"
proof -
  obtain g' req where req: "to_require g (rc_dc c) = (g', req)" by fastforce
  have sel: "rq_hostSelector req = None"
    using req assms(3) by (auto simp: to_require_def Let_def split: option.splits prod.splits)
  let ?s = "new_scheduler (rc_stage c) (rc_key c) req"
  have "simple_filter (host_predicate w None) (Object 2 hi) = None"
    by (simp add: simple_filter_def sp_matches_def sp_empty_def host_predicate_def)
  then have "select_host w e (rc_stage c) None = None"
    using assms(4-6) by (simp add: select_host_def decode_with_def Let_def numeral_2_eq_2)
  then have "next_host w m ks rnd e ?s = None" by (simp add: next_host_def new_scheduler_def sel)
  moreover obtain n' where "n = Suc n'" using assms(2) gr0_conv_Suc by blast
  ultimately show ?thesis
    using assms(1) by (simp add: add_instances_sched_def req add_instances_def next_event_def Let_def)
qed

theorem no_selector_panics_witness:
  "add_instances_sched demo_world (new_infor Dev) [] (\<lambda>i n. 0) [(host_info_dir Dev @ ''h1'', ''h'')] 1
     \<lparr>dg_default = fmempty, dg_unknown = {||}, dg_chan = []\<rparr> (hc_iface plain_env) (sorted_env [] []) (crm_ctrl ''v1'' 2) 1 (crm_hosts [])
   = Panics"
proof -
  have "list_elems mem_kv base_dir [(host_info_dir Dev @ ''h1'', ''h'')] (host_info_dir Dev) = Inr [(''h1'', ''h'')]"
    by (rule demo_elems)
  then show ?thesis
    by (intro no_selector_panics [of _ _ _ _ _ "''h1''" "''h''" "[]" demo_host])
      (simp_all add: demo_world_def crm_ctrl_def crm_config_def)
qed

end
