(* ===== verification/Watch_Pipe.thy ===== *)
theory Watch_Pipe
  imports Watch "HOL-Library.Sublist"
begin

text \<open>
  The goroutines of a watch (\<open>run\<close>, \<open>startWatching\<close>, \<open>processEvent\<close> and the client) as a step relation over the
  channels between them: every \<open>select\<close> is a choice of steps.  The buffered channels hold 100 events; the channel
  of errors holds one.
\<close>

subsection \<open>State and steps\<close>

definition chan_size :: nat where "chan_size = 100"

datatype 'v run_phase = Selecting | Reporting "'v watch_event" | Stopping

text \<open>
  \<open>todo\<close> is what \<open>startWatching\<close> still has to send and \<open>end\<close> what it ends with; \<open>chan\<close> is the channel of incoming events,
  \<open>hand\<close> the event \<open>processEvent\<close> has taken from it and not passed on yet, and \<open>received\<close> what the client has taken from
  the channel of results.
\<close>

record 'v pipe =
  pp_todo :: "event list"
  pp_end :: "watch_error option"
  pp_ended :: bool
  pp_chan :: "event list"
  pp_hand :: "event option"
  pp_result :: "'v watch_event list"
  pp_err :: "watch_error option"
  pp_watchClosed :: bool
  pp_cancelled :: bool
  pp_procDone :: bool
  pp_run :: "'v run_phase"
  pp_closed :: bool
  pp_received :: "'v watch_event list"

definition pipe_start :: "event list \<Rightarrow> watch_error option \<Rightarrow> 'v pipe" where
  "pipe_start es err = \<lparr>pp_todo = es, pp_end = err, pp_ended = False, pp_chan = [], pp_hand = None, pp_result = [],
     pp_err = None, pp_watchClosed = False, pp_cancelled = False, pp_procDone = False, pp_run = Selecting,
     pp_closed = False, pp_received = []\<rparr>"

text \<open>What has been sent to \<open>processEvent\<close> and is not processed yet: the event in hand and what waits in the channel.\<close>

definition pp_incoming :: "'v pipe \<Rightarrow> event list" where
  "pp_incoming s = (case pp_hand s of None \<Rightarrow> [] | Some e \<Rightarrow> [e]) @ pp_chan s"

text \<open>
  \<open>processEvent\<close> takes an event and transforms it; then it waits until the result or the error is taken, or until the
  watch is cancelled.  A \<open>transform\<close> that panics ends the process and is no step.
\<close>

inductive pipe_step :: "'v watch_chan \<Rightarrow> 'v pipe \<Rightarrow> 'v pipe \<Rightarrow> bool" for wc where
  send_event: "pp_todo s = e # es \<Longrightarrow> length (pp_chan s) < chan_size \<Longrightarrow>
    pipe_step wc s (s\<lparr>pp_todo := es, pp_chan := pp_chan s @ [e]\<rparr>)"
| send_event_done: "pp_todo s = e # es \<Longrightarrow> pp_cancelled s \<Longrightarrow> pipe_step wc s (s\<lparr>pp_todo := es\<rparr>)"
| send_error: "pp_todo s = [] \<Longrightarrow> \<not> pp_ended s \<Longrightarrow> pp_end s = Some err \<Longrightarrow> pp_err s = None \<Longrightarrow>
    pipe_step wc s (s\<lparr>pp_err := Some err, pp_ended := True\<rparr>)"
| send_error_done: "pp_todo s = [] \<Longrightarrow> \<not> pp_ended s \<Longrightarrow> pp_end s = Some err \<Longrightarrow> pp_cancelled s \<Longrightarrow>
    pipe_step wc s (s\<lparr>pp_ended := True\<rparr>)"
| watch_closed: "pp_todo s = [] \<Longrightarrow> \<not> pp_ended s \<Longrightarrow> pp_end s = None \<Longrightarrow>
    pipe_step wc s (s\<lparr>pp_watchClosed := True, pp_ended := True\<rparr>)"
| process_receive: "\<not> pp_procDone s \<Longrightarrow> pp_hand s = None \<Longrightarrow> pp_chan s = e # q \<Longrightarrow>
    pipe_step wc s (s\<lparr>pp_chan := q, pp_hand := Some e\<rparr>)"
| process_filtered: "\<not> pp_procDone s \<Longrightarrow> pp_hand s = Some e \<Longrightarrow> transform wc e = Some (Inr None) \<Longrightarrow>
    pipe_step wc s (s\<lparr>pp_hand := None\<rparr>)"
| process_result: "\<not> pp_procDone s \<Longrightarrow> pp_hand s = Some e \<Longrightarrow> transform wc e = Some (Inr (Some w)) \<Longrightarrow>
    length (pp_result s) < chan_size \<Longrightarrow>
    pipe_step wc s (s\<lparr>pp_hand := None, pp_result := pp_result s @ [w]\<rparr>)"
| process_result_done: "\<not> pp_procDone s \<Longrightarrow> pp_hand s = Some e \<Longrightarrow> transform wc e = Some (Inr (Some w)) \<Longrightarrow>
    pp_cancelled s \<Longrightarrow> pipe_step wc s (s\<lparr>pp_hand := None, pp_procDone := True\<rparr>)"
| process_error: "\<not> pp_procDone s \<Longrightarrow> pp_hand s = Some e \<Longrightarrow> transform wc e = Some (Inl err) \<Longrightarrow> pp_err s = None \<Longrightarrow>
    pipe_step wc s (s\<lparr>pp_hand := None, pp_err := Some err\<rparr>)"
| process_error_done: "\<not> pp_procDone s \<Longrightarrow> pp_hand s = Some e \<Longrightarrow> transform wc e = Some (Inl err) \<Longrightarrow>
    pp_cancelled s \<Longrightarrow> pipe_step wc s (s\<lparr>pp_hand := None\<rparr>)"
| process_done: "\<not> pp_procDone s \<Longrightarrow> pp_hand s = None \<Longrightarrow> pp_cancelled s \<Longrightarrow> pipe_step wc s (s\<lparr>pp_procDone := True\<rparr>)"
| run_cancel_error: "pp_run s = Selecting \<Longrightarrow> pp_err s = Some Canceled \<Longrightarrow>
    pipe_step wc s (s\<lparr>pp_err := None, pp_run := Stopping, pp_cancelled := True\<rparr>)"
| run_error: "pp_run s = Selecting \<Longrightarrow> pp_err s = Some err \<Longrightarrow> err \<noteq> Canceled \<Longrightarrow>
    pipe_step wc s (s\<lparr>pp_err := None, pp_run := Reporting (parse_error err)\<rparr>)"
| run_report: "pp_run s = Reporting w \<Longrightarrow> length (pp_result s) < chan_size \<Longrightarrow>
    pipe_step wc s (s\<lparr>pp_result := pp_result s @ [w], pp_run := Stopping, pp_cancelled := True\<rparr>)"
| run_report_done: "pp_run s = Reporting w \<Longrightarrow> pp_cancelled s \<Longrightarrow> pipe_step wc s (s\<lparr>pp_run := Stopping\<rparr>)"
| run_watch_closed: "pp_run s = Selecting \<Longrightarrow> pp_watchClosed s \<Longrightarrow>
    pipe_step wc s (s\<lparr>pp_run := Stopping, pp_cancelled := True\<rparr>)"
| run_cancelled: "pp_run s = Selecting \<Longrightarrow> pp_cancelled s \<Longrightarrow> pipe_step wc s (s\<lparr>pp_run := Stopping\<rparr>)"
| run_close: "pp_run s = Stopping \<Longrightarrow> pp_procDone s \<Longrightarrow> \<not> pp_closed s \<Longrightarrow> pipe_step wc s (s\<lparr>pp_closed := True\<rparr>)"
| client_stop: "pipe_step wc s (s\<lparr>pp_cancelled := True\<rparr>)"
| client_receive: "pp_result s = w # q \<Longrightarrow>
    pipe_step wc s (s\<lparr>pp_result := q, pp_received := pp_received s @ [w]\<rparr>)"

inductive pipe_reach :: "'v watch_chan \<Rightarrow> event list \<Rightarrow> watch_error option \<Rightarrow> 'v pipe \<Rightarrow> bool" for wc es err where
  reach_start: "pipe_reach wc es err (pipe_start es err)"
| reach_step: "pipe_reach wc es err s \<Longrightarrow> pipe_step wc s s' \<Longrightarrow> pipe_reach wc es err s'"

subsection \<open>The invariant\<close>

text \<open>What the events are to be turned into, and what has come out that is not an error.\<close>

definition outs :: "'v watch_chan \<Rightarrow> event list \<Rightarrow> 'v watch_event list" where
  "outs wc es = concat (map (\<lambda>e. case transform wc e of Some (Inr (Some w)) \<Rightarrow> [w] | _ \<Rightarrow> []) es)"

definition is_report :: "'v watch_event \<Rightarrow> bool" where
  "is_report w \<longleftrightarrow> we_type w = ErrorEvent"

definition emitted :: "'v pipe \<Rightarrow> 'v watch_event list" where
  "emitted s = filter (\<lambda>w. \<not> is_report w) (pp_received s @ pp_result s)"

definition reports :: "'v pipe \<Rightarrow> 'v watch_event list" where
  "reports s = filter is_report (pp_received s @ pp_result s)"

lemma outs_simps [simp]:
  "outs wc [] = []" "outs wc (es @ es') = outs wc es @ outs wc es'"
  "outs wc (e # es) = (case transform wc e of Some (Inr (Some w)) \<Rightarrow> w # outs wc es | _ \<Rightarrow> outs wc es)"
  by (auto simp: outs_def split: option.split sum.split)

lemma transform_no_report: "transform wc e = Some (Inr (Some w)) \<Longrightarrow> \<not> is_report w"
  by (auto simp: transform_def is_report_def bind_eq_Some_conv split: sum.splits if_splits)

lemma parse_error_report [simp]: "is_report (parse_error err)"
  by (simp add: is_report_def parse_error_def)

definition pipe_inv :: "'v watch_chan \<Rightarrow> event list \<Rightarrow> 'v pipe \<Rightarrow> bool" where
  "pipe_inv wc es s \<longleftrightarrow>
     subseq (emitted s @ outs wc (pp_incoming s @ pp_todo s)) (outs wc es)
   \<and> (\<not> pp_cancelled s \<longrightarrow> emitted s @ outs wc (pp_incoming s @ pp_todo s) = outs wc es)
   \<and> length (reports s) \<le> (case pp_run s of Stopping \<Rightarrow> 1 | _ \<Rightarrow> 0)
   \<and> (\<forall>w. pp_run s = Reporting w \<longrightarrow> is_report w)
   \<and> length (pp_chan s) \<le> chan_size \<and> length (pp_result s) \<le> chan_size
   \<and> (pp_procDone s \<longrightarrow> pp_cancelled s) \<and> (pp_closed s \<longrightarrow> pp_procDone s \<and> pp_run s = Stopping)"

lemma pipe_inv_start: "pipe_inv wc es (pipe_start es err)"
  by (simp add: pipe_inv_def pipe_start_def emitted_def reports_def pp_incoming_def)

lemma emitted_frame [simp]:
  "emitted (s\<lparr>pp_todo := x0\<rparr>) = emitted s"
  "emitted (s\<lparr>pp_chan := x1\<rparr>) = emitted s"
  "emitted (s\<lparr>pp_hand := x9\<rparr>) = emitted s"
  "emitted (s\<lparr>pp_err := x2\<rparr>) = emitted s"
  "emitted (s\<lparr>pp_watchClosed := x3\<rparr>) = emitted s"
  "emitted (s\<lparr>pp_cancelled := x4\<rparr>) = emitted s"
  "emitted (s\<lparr>pp_procDone := x5\<rparr>) = emitted s"
  "emitted (s\<lparr>pp_run := x6\<rparr>) = emitted s"
  "emitted (s\<lparr>pp_closed := x7\<rparr>) = emitted s"
  "emitted (s\<lparr>pp_ended := x8\<rparr>) = emitted s"
  "reports (s\<lparr>pp_todo := x0\<rparr>) = reports s"
  "reports (s\<lparr>pp_chan := x1\<rparr>) = reports s"
  "reports (s\<lparr>pp_hand := x9\<rparr>) = reports s"
  "reports (s\<lparr>pp_err := x2\<rparr>) = reports s"
  "reports (s\<lparr>pp_watchClosed := x3\<rparr>) = reports s"
  "reports (s\<lparr>pp_cancelled := x4\<rparr>) = reports s"
  "reports (s\<lparr>pp_procDone := x5\<rparr>) = reports s"
  "reports (s\<lparr>pp_run := x6\<rparr>) = reports s"
  "reports (s\<lparr>pp_closed := x7\<rparr>) = reports s"
  "reports (s\<lparr>pp_ended := x8\<rparr>) = reports s"
  by (simp_all add: emitted_def reports_def)

lemma emitted_result [simp]:
  "emitted (s\<lparr>pp_result := pp_result s @ [w]\<rparr>) = (if is_report w then emitted s else emitted s @ [w])"
  "reports (s\<lparr>pp_result := pp_result s @ [w]\<rparr>) = (if is_report w then reports s @ [w] else reports s)"
  "emitted (s\<lparr>pp_hand := h, pp_result := pp_result s @ [w]\<rparr>) = (if is_report w then emitted s else emitted s @ [w])"
  "reports (s\<lparr>pp_hand := h, pp_result := pp_result s @ [w]\<rparr>) = (if is_report w then reports s @ [w] else reports s)"
  by (simp_all add: emitted_def reports_def)

lemma emitted_receive:
  "pp_result s = w # q \<Longrightarrow> emitted (s\<lparr>pp_result := q, pp_received := pp_received s @ [w]\<rparr>) = emitted s"
  "pp_result s = w # q \<Longrightarrow> reports (s\<lparr>pp_result := q, pp_received := pp_received s @ [w]\<rparr>) = reports s"
  by (simp_all add: emitted_def reports_def)

lemma subseq_drop_mid: "subseq (xs @ y @ ys) zs \<Longrightarrow> subseq (xs @ ys) zs"
proof -
  have "subseq (xs @ ys) (xs @ y @ ys)" by (simp add: list_emb_append2 subseq_append')
  then show "subseq (xs @ y @ ys) zs \<Longrightarrow> subseq (xs @ ys) zs" by (rule subseq_order.trans)
qed

lemma outs_one: "outs wc (e # es) = outs wc [e] @ outs wc es"
  by (simp split: option.split sum.split)

lemma pipe_inv_step: "pipe_step wc s s' \<Longrightarrow> pipe_inv wc es s \<Longrightarrow> pipe_inv wc es s'"
proof (induction rule: pipe_step.induct)
  case (send_event s e q)
  then show ?case by (simp add: pipe_inv_def pp_incoming_def)
next
  case (send_event_done s e q)
  then show ?case
    using subseq_drop_mid [of "emitted s @ outs wc (pp_incoming s)" "outs wc [e]" "outs wc q" "outs wc es"]
    unfolding pipe_inv_def by (simp add: pp_incoming_def outs_one [of wc e q] del: outs_simps(3))
next
  case (process_result_done s e w)
  then show ?case
    using subseq_drop_mid [of "emitted s" "[w]" "outs wc (pp_chan s @ pp_todo s)" "outs wc es"]
    by (simp add: pipe_inv_def pp_incoming_def)
next
  case (process_result s e w)
  then show ?case
    using transform_no_report [OF process_result(3)] by (simp add: pipe_inv_def pp_incoming_def)
next
  case (client_receive s w q)
  note e = emitted_receive [OF client_receive(1)]
  show ?case using client_receive unfolding pipe_inv_def e by (simp add: pp_incoming_def)
qed (simp_all add: pipe_inv_def pp_incoming_def split: run_phase.splits option.splits)

lemma pipe_reach_inv: "pipe_reach wc es err s \<Longrightarrow> pipe_inv wc es s"
  by (induction rule: pipe_reach.induct) (auto intro: pipe_inv_start pipe_inv_step)

inductive_cases pipe_stepE: "pipe_step wc s s'"

lemma closed_step:
  "pipe_step wc s s' \<Longrightarrow> pp_closed s \<Longrightarrow> pp_procDone s \<Longrightarrow> pp_run s = Stopping \<Longrightarrow>
   suffix (pp_result s') (pp_result s) \<and> pp_closed s'"
  by (induction rule: pipe_step.induct) (auto simp: suffix_def)

subsection \<open>Properties\<close>

text \<open>
  C6: the client of a watch gets its events in the order of etcd and none twice; until the watch is cancelled
  none is missing, so once everything has been processed it has been sent exactly the events of the history; and
  at most one error is reported.
\<close>

theorem watch_stream_order:
  assumes "pipe_reach wc es err s"
  shows "subseq (emitted s) (outs wc es) \<and> length (reports s) \<le> 1
    \<and> (\<not> pp_cancelled s \<longrightarrow> prefix (emitted s) (outs wc es))
    \<and> (\<not> pp_cancelled s \<longrightarrow> pp_incoming s = [] \<longrightarrow> pp_todo s = [] \<longrightarrow> emitted s = outs wc es)"
proof -
  have inv: "pipe_inv wc es s" by (rule pipe_reach_inv [OF assms])
  then have "subseq (emitted s @ outs wc (pp_incoming s @ pp_todo s)) (outs wc es)" by (simp add: pipe_inv_def)
  then have "subseq (emitted s) (outs wc es)"
    using subseq_drop_mid [of "emitted s" "outs wc (pp_incoming s @ pp_todo s)" "[]"] by simp
  moreover have "length (reports s) \<le> 1" using inv by (auto simp: pipe_inv_def split: run_phase.splits)
  moreover have "prefix (emitted s) (outs wc es)" if "\<not> pp_cancelled s"
    using inv that unfolding pipe_inv_def by (metis prefixI)
  ultimately show ?thesis using inv by (auto simp: pipe_inv_def)
qed

definition all_chan :: "bytes watch_chan" where
  "all_chan = \<lparr>wc_typ = 0, wc_decode = Inr, wc_key = ''/d/'', wc_initialRev = 1, wc_recursive = True, wc_filter = None\<rparr>"

definition new_a :: event where
  "new_a = \<lparr>e_key = ''/d/a'', e_value = ''up'', e_prevValue = [], e_rev = 2, e_isDeleted = False, e_isCreated = True\<rparr>"

definition added_a :: "bytes watch_event" where
  "added_a = \<lparr>we_type = Added, we_key = ''/d/a'', we_object = Object 1 ''up''\<rparr>"

lemma new_a_added: "transform all_chan new_a = Some (Inr (Some added_a))"
  by (simp add: transform_def prepare_objs_def new_a_def all_chan_def decode_obj_def filter_obj_def added_a_def)

lemma all_chan_reach:
  "pipe_reach all_chan [new_a] None ((pipe_start [new_a] None)\<lparr>pp_todo := [], pp_result := [added_a]\<rparr>)"
proof -
  let ?s0 = "pipe_start [new_a] None :: bytes pipe"
  let ?s1 = "?s0\<lparr>pp_todo := [], pp_chan := [new_a]\<rparr>" and ?s2 = "?s0\<lparr>pp_todo := [], pp_hand := Some new_a\<rparr>"
  have "pipe_step all_chan ?s0 (?s0\<lparr>pp_todo := [], pp_chan := pp_chan ?s0 @ [new_a]\<rparr>)"
    by (rule send_event) (simp_all add: pipe_start_def chan_size_def)
  then have "pipe_step all_chan ?s0 ?s1" by (simp add: pipe_start_def)
  then have r1: "pipe_reach all_chan [new_a] None ?s1" by (rule reach_step [OF reach_start])
  have "pipe_step all_chan ?s1 (?s1\<lparr>pp_chan := [], pp_hand := Some new_a\<rparr>)"
    by (rule process_receive) (simp_all add: pipe_start_def)
  then have "pipe_step all_chan ?s1 ?s2" by (simp add: pipe_start_def)
  from reach_step [OF r1 this] have r2: "pipe_reach all_chan [new_a] None ?s2" .
  have "pipe_step all_chan ?s2 (?s2\<lparr>pp_hand := None, pp_result := pp_result ?s2 @ [added_a]\<rparr>)"
    by (rule process_result [OF _ _ new_a_added]) (simp_all add: pipe_start_def chan_size_def)
  from reach_step [OF r2 this] show ?thesis by (simp add: pipe_start_def)
qed

theorem watch_stream_order_witness:
  "emitted ((pipe_start [new_a] None)\<lparr>pp_todo := [], pp_result := [added_a]\<rparr>) = outs all_chan [new_a]"
  using watch_stream_order [OF all_chan_reach] by (simp add: pipe_start_def pp_incoming_def)

text \<open>
  nothing is sent on the channel of results after it was closed, which would panic.
\<close>

theorem closed_is_final:
  assumes "pipe_reach wc es err s" "pp_closed s" "pipe_step wc s s'"
  shows "suffix (pp_result s') (pp_result s) \<and> pp_closed s'"
  using closed_step [OF assms(3,2)] pipe_reach_inv [OF assms(1)] assms(2) by (simp add: pipe_inv_def)

subsection \<open>Winding up\<close>

text \<open>A step of one of the goroutines: not of the client, who takes an event or stops the watch again.\<close>

definition works :: "'v watch_chan \<Rightarrow> 'v pipe \<Rightarrow> 'v pipe \<Rightarrow> bool" where
  "works wc s t \<longleftrightarrow> pipe_step wc s t \<and> t \<noteq> s \<and> pp_received t = pp_received s"

definition work_left :: "'v pipe \<Rightarrow> nat" where
  "work_left s = 3 * length (pp_todo s) + 2 * length (pp_chan s) + (case pp_hand s of None \<Rightarrow> 0 | Some e \<Rightarrow> 1)
     + (if pp_ended s then 0 else 1) + (if pp_procDone s then 0 else 1) + (if pp_closed s then 0 else 1)
     + (case pp_run s of Selecting \<Rightarrow> 2 | Reporting w \<Rightarrow> 1 | Stopping \<Rightarrow> 0)"

lemma step_work_left:
  "pipe_step wc s t \<Longrightarrow> pp_cancelled s \<Longrightarrow> pp_cancelled t \<and> (t = s \<or> pp_received t \<noteq> pp_received s \<or> work_left t < work_left s)"
  by (induction rule: pipe_step.induct) (simp_all add: work_left_def)

lemma works_left: "works wc s t \<Longrightarrow> pp_cancelled s \<Longrightarrow> pp_cancelled t \<and> work_left t < work_left s"
  using step_work_left [of wc s t] by (auto simp: works_def)

lemma works_run: "(works wc)\<^sup>*\<^sup>* s t \<Longrightarrow> pp_cancelled s \<Longrightarrow> pp_cancelled t \<and> pp_received t = pp_received s"
proof (induction rule: rtranclp_induct)
  case (step t u)
  then show ?case using works_left [of wc t u] by (simp add: works_def)
qed simp

lemma worksI: "pipe_step wc s t \<Longrightarrow> pp_received t = pp_received s \<Longrightarrow> work_left t \<noteq> work_left s \<Longrightarrow> \<exists>t. works wc s t"
  by (auto simp: works_def)

text \<open>A cancelled watch that is not wound up has a step.\<close>

lemma works_progress:
  assumes "pp_cancelled s" "\<forall>e. transform wc e \<noteq> None" "\<not> (pp_ended s \<and> pp_procDone s \<and> pp_closed s)"
  shows "\<exists>t. works wc s t"
proof -
  consider (todo) e es where "pp_todo s = e # es"
    | (ending) "pp_todo s = []" "\<not> pp_ended s"
    | (processing) "\<not> pp_procDone s"
    | (running) "pp_procDone s" "\<not> pp_closed s"
    using assms(3) by (cases "pp_todo s") auto
  then show ?thesis
  proof cases
    case todo
    show ?thesis by (rule worksI [OF send_event_done [OF todo assms(1)]]) (simp_all add: work_left_def todo)
  next
    case ending
    show ?thesis
    proof (cases "pp_end s")
      case None
      show ?thesis by (rule worksI [OF watch_closed [OF ending None]]) (simp_all add: work_left_def ending)
    next
      case (Some err)
      show ?thesis by (rule worksI [OF send_error_done [OF ending Some assms(1)]]) (simp_all add: work_left_def ending)
    qed
  next
    case processing
    show ?thesis
    proof (cases "pp_hand s")
      case None
      show ?thesis by (rule worksI [OF process_done [OF processing None assms(1)]]) (simp_all add: work_left_def processing)
    next
      case (Some e)
      consider err where "transform wc e = Some (Inl err)" | "transform wc e = Some (Inr None)"
        | w where "transform wc e = Some (Inr (Some w))"
        using assms(2) by (metis option.exhaust sum.exhaust)
      then show ?thesis
      proof cases
        case 1
        show ?thesis by (rule worksI [OF process_error_done [OF processing Some 1 assms(1)]]) (simp_all add: work_left_def Some)
      next
        case 2
        show ?thesis by (rule worksI [OF process_filtered [OF processing Some 2]]) (simp_all add: work_left_def Some)
      next
        case 3
        show ?thesis
          by (rule worksI [OF process_result_done [OF processing Some 3 assms(1)]]) (simp_all add: work_left_def Some processing)
      qed
    qed
  next
    case running
    show ?thesis
    proof (cases "pp_run s")
      case Selecting
      show ?thesis by (rule worksI [OF run_cancelled [OF Selecting assms(1)]]) (simp_all add: work_left_def Selecting)
    next
      case (Reporting w)
      show ?thesis by (rule worksI [OF run_report_done [OF Reporting assms(1)]]) (simp_all add: work_left_def Reporting)
    next
      case Stopping
      show ?thesis by (rule worksI [OF run_close [OF Stopping running]]) (simp_all add: work_left_def running)
    qed
  qed
qed

lemma all_chan_closed: "\<exists>s. pipe_reach all_chan [new_a] None s \<and> pp_closed s"
proof -
  let ?s0 = "pipe_start [new_a] None :: bytes pipe"
  let ?s1 = "?s0\<lparr>pp_cancelled := True\<rparr>" and ?s2 = "?s0\<lparr>pp_cancelled := True, pp_run := Stopping\<rparr>"
  let ?s3 = "?s0\<lparr>pp_cancelled := True, pp_run := Stopping, pp_procDone := True\<rparr>"
  have r1: "pipe_reach all_chan [new_a] None ?s1" by (rule reach_step [OF reach_start client_stop])
  have "pipe_step all_chan ?s1 (?s1\<lparr>pp_run := Stopping\<rparr>)" by (rule run_cancelled) (simp_all add: pipe_start_def)
  then have r2: "pipe_reach all_chan [new_a] None ?s2" using reach_step [OF r1] by simp
  have "pipe_step all_chan ?s2 (?s2\<lparr>pp_procDone := True\<rparr>)" by (rule process_done) (simp_all add: pipe_start_def)
  then have r3: "pipe_reach all_chan [new_a] None ?s3" using reach_step [OF r2] by simp
  have "pipe_step all_chan ?s3 (?s3\<lparr>pp_closed := True\<rparr>)" by (rule run_close) (simp_all add: pipe_start_def)
  from reach_step [OF r3 this] show ?thesis by (intro exI [of _ "?s3\<lparr>pp_closed := True\<rparr>"] conjI) simp_all
qed

theorem closed_is_final_witness:
  "\<exists>s. pipe_reach all_chan [new_a] None s \<and> pp_closed s \<and> (\<forall>s'. pipe_step all_chan s s' \<longrightarrow> suffix (pp_result s') (pp_result s))"
  using all_chan_closed closed_is_final [of all_chan "[new_a]" None] by blast

text \<open>
  C37: a watch that was stopped is wound up whatever its goroutines do, whatever the channels hold, and without the client
  taking anything from them: no run of the goroutines goes on forever, and a run that cannot go on has ended all three,
  \<open>startWatching\<close>, \<open>processEvent\<close> and \<open>run\<close>, and closed the channel of results.  (An event whose \<open>transform\<close> panics would
  end the process.)
\<close>

theorem stopped_watch_closes:
  assumes "pp_cancelled s" "\<forall>e. transform wc e \<noteq> None"
  shows "(\<nexists>f. f 0 = s \<and> (\<forall>n. works wc (f n) (f (Suc n))))
    \<and> (\<forall>t. (works wc)\<^sup>*\<^sup>* s t \<and> (\<nexists>u. works wc t u) \<longrightarrow>
        pp_ended t \<and> pp_procDone t \<and> pp_closed t \<and> pp_received t = pp_received s)"
proof (intro conjI allI impI notI)
  assume "\<exists>f. f 0 = s \<and> (\<forall>n. works wc (f n) (f (Suc n)))"
  then obtain f where f: "f 0 = s" "\<And>n. works wc (f n) (f (Suc n))" by blast
  have "pp_cancelled (f n) \<and> work_left (f n) + n \<le> work_left s" for n
  proof (induction n)
    case (Suc n)
    then show ?case using works_left [OF f(2) [of n]] by auto
  qed (simp add: f(1) assms(1))
  from this [of "Suc (work_left s)"] show False by simp
next
  fix t assume t: "(works wc)\<^sup>*\<^sup>* s t \<and> (\<nexists>u. works wc t u)"
  then have c: "pp_cancelled t \<and> pp_received t = pp_received s" using works_run assms(1) by blast
  moreover have "pp_ended t \<and> pp_procDone t \<and> pp_closed t" using works_progress [OF _ assms(2)] c t by blast
  ultimately show "pp_ended t" "pp_procDone t" "pp_closed t" "pp_received t = pp_received s" by simp_all
qed

lemma all_chan_transforms: "transform all_chan e \<noteq> None"
  by (auto simp: transform_def prepare_objs_def all_chan_def decode_obj_def filter_obj_def split: sum.split)

theorem stopped_watch_closes_witness:
  "\<nexists>f. f 0 = (pipe_start [new_a] None)\<lparr>pp_cancelled := True\<rparr> \<and> (\<forall>n. works all_chan (f n) (f (Suc n)))"
  using stopped_watch_closes [of "(pipe_start [new_a] None)\<lparr>pp_cancelled := True\<rparr>" all_chan] all_chan_transforms by auto

end
