(* ===== verification/Compactor.thy ===== *)
theory Compactor
  imports Prelude
begin

text \<open>
  The compaction of etcd by several processes (\<open>registry/generic/compact.go\<close>): each keeps the version of one key
  as its logical time and wins a round by comparing and incrementing it in one transaction.

  What etcd does in the transaction is the predicate \<open>txn_ok\<close>: it states what is documented of it, including
  that the answer may be lost after the transaction took effect.
\<close>

subsection \<open>One round\<close>

text \<open>The answer: an error, or whether the comparison held, the revision, and the versions of the pairs it read.\<close>

datatype txn_resp = TxnError bytes | TxnResp bool int "int list"

text \<open>
  \<open>compact\<close>: the new logical time and revision, the error, and the revision it asked etcd to compact, if it did;
  \<open>err\<close> is the error of that call.
\<close>

definition compact :: "txn_resp \<Rightarrow> (int \<Rightarrow> bytes option) \<Rightarrow> int \<Rightarrow> int \<Rightarrow> (int \<times> int \<times> bytes option \<times> int option) go" where
  "compact resp err t rv =
     (case resp of
        TxnError e \<Rightarrow> Some (t, rv, Some e, None)
      | TxnResp succeeded curRev vs \<Rightarrow>
          if \<not> succeeded then
            (case vs of [] \<Rightarrow> None | curTime # _ \<Rightarrow> Some (curTime, curRev, None, None))
          else
            (let curTime = t + 1 in
             if rv = 0 then Some (curTime, curRev, None, None)
             else (case err rv of
                Some e \<Rightarrow> Some (curTime, curRev, Some e, Some rv)
              | None \<Rightarrow> Some (curTime, curRev, None, Some rv))))"

text \<open>\<open>StartCompactor\<close>: the endpoints that have a compactor, and whether one was started.\<close>

definition start_compactor :: "bytes set \<Rightarrow> bytes list \<Rightarrow> bytes set \<times> bool" where
  "start_compactor endpointsMap eps =
     (if list_ex (\<lambda>ep. ep \<in> endpointsMap) eps then (endpointsMap, False)
      else (endpointsMap \<union> set eps, True))"

subsection \<open>Several compactors\<close>

definition compact_interval :: int where "compact_interval = 5 * 60 * 1000000000"

text \<open>A compactor: its logical time, its revision, and when it last took part in a round.\<close>

record compactor =
  cp_time :: int
  cp_rev :: int
  cp_tick :: int

text \<open>
  etcd and the compactors: the version of the key, the revision, when a transaction last took effect, the revisions
  the compactors were told and when, and the compactions asked for.
\<close>

record compact_sys =
  cs_version :: int
  cs_revision :: int
  cs_last :: "int option"
  cs_seen :: "(int \<times> int) set"
  cs_compacted :: "(int \<times> int) set"
  cs_procs :: "compactor list"

definition txn_ok :: "int \<Rightarrow> int \<Rightarrow> int \<Rightarrow> txn_resp \<Rightarrow> int \<Rightarrow> int \<Rightarrow> bool" where
  "txn_ok version revision t resp version' revision' \<longleftrightarrow>
     (case resp of
        TxnError _ \<Rightarrow> version' = version \<and> revision' = revision \<or> t = version \<and> version' = version + 1 \<and> revision' = revision + 1
      | TxnResp True rv _ \<Rightarrow> t = version \<and> version' = version + 1 \<and> revision' = revision + 1 \<and> rv = revision'
      | TxnResp False rv vs \<Rightarrow> t \<noteq> version \<and> version' = version \<and> revision' = revision \<and> rv = revision
          \<and> vs = (if version = 0 then [] else [version]))"

inductive compact_step :: "compact_sys \<Rightarrow> compact_sys \<Rightarrow> bool" where
  other_write: "cs_revision s \<le> r \<Longrightarrow> compact_step s (s\<lparr>cs_revision := r\<rparr>)"
| join: "compact_step s (s\<lparr>cs_procs := cs_procs s @ [\<lparr>cp_time = 0, cp_rev = 0, cp_tick = now\<rparr>]\<rparr>)"
| tick: "i < length (cs_procs s) \<Longrightarrow> c = cs_procs s ! i \<Longrightarrow> cp_tick c + compact_interval \<le> now \<Longrightarrow>
    (\<forall>T. cs_last s = Some T \<longrightarrow> T \<le> now) \<Longrightarrow>
    txn_ok (cs_version s) (cs_revision s) (cp_time c) resp v' r' \<Longrightarrow>
    compact resp err (cp_time c) (cp_rev c) = Some (t', rv', e, done) \<Longrightarrow>
    compact_step s (s\<lparr>cs_version := v', cs_revision := r',
      cs_last := (if v' \<noteq> cs_version s then Some now else cs_last s),
      cs_seen := (case resp of TxnError _ \<Rightarrow> cs_seen s | TxnResp _ rv _ \<Rightarrow> insert (now, rv) (cs_seen s)),
      cs_compacted := (case done of None \<Rightarrow> cs_compacted s | Some rv \<Rightarrow> insert (now, rv) (cs_compacted s)),
      cs_procs := (cs_procs s)[i := \<lparr>cp_time = t', cp_rev = rv', cp_tick = now\<rparr>]\<rparr>)"

text \<open>A system that starts with no compactor; the key may be there from earlier.\<close>

definition compact_start :: "int \<Rightarrow> int \<Rightarrow> compact_sys" where
  "compact_start v r = \<lparr>cs_version = v, cs_revision = r, cs_last = None, cs_seen = {}, cs_compacted = {}, cs_procs = []\<rparr>"

inductive compact_reach :: "compact_sys \<Rightarrow> bool" where
  creach_start: "0 \<le> v \<Longrightarrow> 0 < r \<Longrightarrow> compact_reach (compact_start v r)"
| creach_step: "compact_reach s \<Longrightarrow> compact_step s s' \<Longrightarrow> compact_reach s'"

subsection \<open>The invariant\<close>

text \<open>
  The logical time of a compactor is at most the version, and if it is the version, no transaction took effect
  after the compactor's last round; its revision is one it was told, at its last round or before.
\<close>

definition proc_inv :: "compact_sys \<Rightarrow> compactor \<Rightarrow> bool" where
  "proc_inv s c \<longleftrightarrow> 0 \<le> cp_time c \<and> cp_time c \<le> cs_version s
     \<and> (cp_time c = cs_version s \<longrightarrow> (\<forall>T. cs_last s = Some T \<longrightarrow> T \<le> cp_tick c))
     \<and> (cp_rev c \<noteq> 0 \<longrightarrow> (\<exists>T \<le> cp_tick c. (T, cp_rev c) \<in> cs_seen s))"

definition compact_inv :: "compact_sys \<Rightarrow> bool" where
  "compact_inv s \<longleftrightarrow> (\<forall>c \<in> set (cs_procs s). proc_inv s c)
     \<and> 0 \<le> cs_version s \<and> 0 < cs_revision s \<and> (cs_last s \<noteq> None \<longrightarrow> 0 < cs_version s)
     \<and> (\<forall>T rv. (T, rv) \<in> cs_compacted s \<longrightarrow> (\<exists>T'. (T', rv) \<in> cs_seen s \<and> T' + compact_interval \<le> T))
     \<and> (\<forall>T rv. (T, rv) \<in> cs_seen s \<longrightarrow> rv \<le> cs_revision s)"

text \<open>What a round does to the compactor that takes part in it.\<close>

lemma compact_cases:
  assumes "txn_ok version revision t resp v' r'" "compact resp err t rv = Some (t', rv', e, done)"
  obtains (error) msg where "resp = TxnError msg" "t' = t" "rv' = rv" "done = None"
      "v' = version \<and> r' = revision \<or> t = version \<and> v' = version + 1 \<and> r' = revision + 1"
    | (lost) vs where "resp = TxnResp False revision vs" "t \<noteq> version" "v' = version" "r' = revision" "t' = version"
      "rv' = revision" "done = None" "version \<noteq> 0"
    | (won) vs where "resp = TxnResp True (revision + 1) vs" "t = version" "v' = version + 1" "r' = revision + 1"
      "t' = version + 1" "rv' = revision + 1" "done = (if rv = 0 then None else Some rv)"
proof (cases resp)
  case (TxnError msg)
  then show ?thesis using assms by (intro error) (auto simp: txn_ok_def compact_def)
next
  case (TxnResp b rv1 vs)
  show ?thesis
  proof (cases b)
    case True
    then show ?thesis using assms TxnResp by (intro won) (auto simp: txn_ok_def compact_def Let_def split: if_splits option.splits)
  next
    case False
    then show ?thesis using assms TxnResp by (intro lost) (auto simp: txn_ok_def compact_def split: if_splits list.splits)
  qed
qed

lemma proc_inv_mono:
  assumes "proc_inv s c" "cs_version s \<le> cs_version s'" "cs_seen s \<subseteq> cs_seen s'"
    "cs_version s' = cs_version s \<longrightarrow> cs_last s' = cs_last s"
  shows "proc_inv s' c"
  using assms by (fastforce simp: proc_inv_def)

lemma compact_inv_start: "0 \<le> v \<Longrightarrow> 0 < r \<Longrightarrow> compact_inv (compact_start v r)"
  by (simp add: compact_inv_def compact_start_def)

lemma set_update_subset: "c \<in> set (xs[i := x]) \<Longrightarrow> c = x \<or> c \<in> set xs"
  using set_update_subset_insert by fastforce

lemma compact_inv_step: "compact_step s s' \<Longrightarrow> compact_inv s \<Longrightarrow> compact_inv s'"
proof (induction rule: compact_step.induct)
  case (other_write s r)
  then show ?case by (fastforce simp: compact_inv_def proc_inv_def)
next
  case (join s now)
  then show ?case by (fastforce simp: compact_inv_def proc_inv_def)
next
  case (tick i s c now resp v' r' err t' rv' e "done")
  have c: "proc_inv s c" using tick.hyps(1,2) tick.prems by (simp add: compact_inv_def)
  let ?s' = "s\<lparr>cs_version := v', cs_revision := r',
      cs_last := (if v' \<noteq> cs_version s then Some now else cs_last s),
      cs_seen := (case resp of TxnError _ \<Rightarrow> cs_seen s | TxnResp _ rv _ \<Rightarrow> insert (now, rv) (cs_seen s)),
      cs_compacted := (case done of None \<Rightarrow> cs_compacted s | Some rv \<Rightarrow> insert (now, rv) (cs_compacted s)),
      cs_procs := (cs_procs s)[i := \<lparr>cp_time = t', cp_rev = rv', cp_tick = now\<rparr>]\<rparr>"
  let ?c' = "\<lparr>cp_time = t', cp_rev = rv', cp_tick = now\<rparr>"
  have time: "cp_tick c \<le> now" using tick.hyps(3) by (simp add: compact_interval_def)
  have v: "cs_version s \<le> v'" "cs_revision s \<le> r'" "0 \<le> cs_version s"
    using tick.hyps(5,6) tick.prems by (cases rule: compact_cases; auto simp: compact_inv_def)+
  have old: "proc_inv ?s' d" if "d \<in> set (cs_procs s)" for d
  proof (rule proc_inv_mono)
    show "proc_inv s d" using tick.prems that by (simp add: compact_inv_def)
  qed (use v in \<open>auto split: txn_resp.split\<close>)
  have new: "proc_inv ?s' ?c'"
    using tick.hyps(5,6)
  proof (cases rule: compact_cases)
    case (error msg)
    have seen: "cp_rev c \<noteq> 0 \<Longrightarrow> \<exists>T \<le> now. (T, cp_rev c) \<in> cs_seen s"
      using c time by (auto simp: proc_inv_def intro: order_trans)
    show ?thesis using error c v time tick.hyps(4) seen by (auto simp: proc_inv_def)
  next
    case (lost vs)
    then show ?thesis using c v tick.hyps(4) by (auto simp: proc_inv_def)
  next
    case (won vs)
    then show ?thesis using c v by (auto simp: proc_inv_def)
  qed
  have "proc_inv ?s' d" if "d \<in> set (cs_procs ?s')" for d
    using that set_update_subset [of d "cs_procs s" i ?c'] old new by auto
  moreover have "\<exists>T'. (T', rv) \<in> cs_seen ?s' \<and> T' + compact_interval \<le> T" if tr: "(T, rv) \<in> cs_compacted ?s'" for T rv
  proof -
    have sub: "cs_seen s \<subseteq> cs_seen ?s'" by (auto split: txn_resp.split)
    consider "(T, rv) \<in> cs_compacted s" | "T = now" "done = Some rv" using tr by (cases "done") auto
    then show ?thesis
    proof cases
      case 1
      then show ?thesis using tick.prems sub by (fastforce simp: compact_inv_def)
    next
      case 2
      have "cp_rev c \<noteq> 0 \<and> rv = cp_rev c"
        using tick.hyps(5,6) by (cases rule: compact_cases) (use 2 in \<open>auto split: if_splits\<close>)
      then obtain T' where "T' \<le> cp_tick c" "(T', rv) \<in> cs_seen s" using c by (auto simp: proc_inv_def)
      then show ?thesis using sub 2(1) tick.hyps(3) by force
    qed
  qed
  moreover have "rv \<le> cs_revision ?s'" if "(T, rv) \<in> cs_seen ?s'" for T rv
  proof -
    have "(T, rv) \<in> cs_seen s \<Longrightarrow> rv \<le> cs_revision s" using tick.prems by (auto simp: compact_inv_def)
    then show ?thesis
      using that v tick.hyps(5) by (cases resp) (auto simp: txn_ok_def split: bool.splits)
  qed
  moreover have "v' \<noteq> cs_version s \<Longrightarrow> 0 < v'" using v by simp
  ultimately show ?case
    using tick.prems v unfolding compact_inv_def by auto
qed

lemma compact_reach_inv: "compact_reach s \<Longrightarrow> compact_inv s"
  by (induction rule: compact_reach.induct) (auto intro: compact_inv_start compact_inv_step)

subsection \<open>Properties\<close>

text \<open>
  C10: what is compacted is old: every revision a compactor asks etcd to compact was reported to it as the current
  revision at least one interval of five minutes earlier, however many compactors there are and whatever answers
  are lost; so no revision of the last five minutes is ever compacted.
\<close>

theorem compacted_is_old:
  assumes "compact_reach s" "(T, rv) \<in> cs_compacted s"
  shows "\<exists>T'. (T', rv) \<in> cs_seen s \<and> T' + 5 * 60 * 1000000000 \<le> T \<and> rv \<le> cs_revision s"
  using compact_reach_inv [OF assms(1)] assms(2) unfolding compact_inv_def compact_interval_def by blast

text \<open>A compactor that joins, wins two rounds and compacts in the second.\<close>

definition round1 :: compact_sys where
  "round1 = (compact_start 0 7)\<lparr>cs_procs := [\<lparr>cp_time = 0, cp_rev = 0, cp_tick = 0\<rparr>]\<rparr>"

definition round2 :: compact_sys where
  "round2 = \<lparr>cs_version = 1, cs_revision = 8, cs_last = Some compact_interval, cs_seen = {(compact_interval, 8)},
     cs_compacted = {}, cs_procs = [\<lparr>cp_time = 1, cp_rev = 8, cp_tick = compact_interval\<rparr>]\<rparr>"

definition round3 :: compact_sys where
  "round3 = \<lparr>cs_version = 2, cs_revision = 9, cs_last = Some (2 * compact_interval),
     cs_seen = {(2 * compact_interval, 9), (compact_interval, 8)}, cs_compacted = {(2 * compact_interval, 8)},
     cs_procs = [\<lparr>cp_time = 2, cp_rev = 9, cp_tick = 2 * compact_interval\<rparr>]\<rparr>"

lemma round2_reach: "compact_reach round2"
proof -
  have "compact_step (compact_start 0 7) round1"
    using join [of "compact_start 0 7" 0] by (simp add: round1_def compact_start_def)
  then have "compact_reach round1" by (rule creach_step [rotated]) (rule creach_start, simp_all)
  moreover have "compact_step round1 round2"
  proof -
    let ?c = "\<lparr>cp_time = 0, cp_rev = 0, cp_tick = 0\<rparr>"
    have c: "?c = cs_procs round1 ! 0" "0 < length (cs_procs round1)" by (simp_all add: round1_def compact_start_def)
    have T: "cp_tick ?c + compact_interval \<le> compact_interval" by simp
    have L: "\<forall>T. cs_last round1 = Some T \<longrightarrow> T \<le> compact_interval" by (simp add: round1_def compact_start_def)
    have ok: "txn_ok (cs_version round1) (cs_revision round1) (cp_time ?c) (TxnResp True 8 []) 1 8"
      by (simp add: round1_def compact_start_def txn_ok_def)
    have r: "compact (TxnResp True 8 []) (\<lambda>r. None) (cp_time ?c) (cp_rev ?c) = Some (1, 8, None, None)"
      by (simp add: compact_def)
    note step = tick [OF c(2,1) T L ok r]
    have "round1\<lparr>cs_version := 1, cs_revision := 8, cs_last := (if 1 \<noteq> cs_version round1 then Some compact_interval else cs_last round1),
      cs_seen := (case TxnResp True 8 [] of TxnError _ \<Rightarrow> cs_seen round1 | TxnResp _ rv _ \<Rightarrow> insert (compact_interval, rv) (cs_seen round1)),
      cs_compacted := (case None of None \<Rightarrow> cs_compacted round1 | Some rv \<Rightarrow> insert (compact_interval, rv) (cs_compacted round1)),
      cs_procs := (cs_procs round1)[0 := \<lparr>cp_time = 1, cp_rev = 8, cp_tick = compact_interval\<rparr>]\<rparr> = round2"
      by (simp add: round1_def round2_def compact_start_def)
    with step show ?thesis by (simp only:)
  qed
  ultimately show ?thesis by (rule creach_step)
qed

lemma round3_reach: "compact_reach round3"
proof -
  let ?c = "\<lparr>cp_time = 1, cp_rev = 8, cp_tick = compact_interval\<rparr>"
  have c: "?c = cs_procs round2 ! 0" "0 < length (cs_procs round2)" by (simp_all add: round2_def)
  have T: "cp_tick ?c + compact_interval \<le> 2 * compact_interval" by simp
  have L: "\<forall>T. cs_last round2 = Some T \<longrightarrow> T \<le> 2 * compact_interval" by (simp add: round2_def compact_interval_def)
  have ok: "txn_ok (cs_version round2) (cs_revision round2) (cp_time ?c) (TxnResp True 9 []) 2 9"
    by (simp add: round2_def txn_ok_def)
  have r: "compact (TxnResp True 9 []) (\<lambda>r. None) (cp_time ?c) (cp_rev ?c) = Some (2, 9, None, Some 8)"
    by (simp add: compact_def)
  note step = tick [OF c(2,1) T L ok r]
  have "round2\<lparr>cs_version := 2, cs_revision := 9, cs_last := (if 2 \<noteq> cs_version round2 then Some (2 * compact_interval) else cs_last round2),
      cs_seen := (case TxnResp True 9 [] of TxnError _ \<Rightarrow> cs_seen round2 | TxnResp _ rv _ \<Rightarrow> insert (2 * compact_interval, rv) (cs_seen round2)),
      cs_compacted := (case Some 8 of None \<Rightarrow> cs_compacted round2 | Some rv \<Rightarrow> insert (2 * compact_interval, rv) (cs_compacted round2)),
      cs_procs := (cs_procs round2)[0 := \<lparr>cp_time = 2, cp_rev = 9, cp_tick = 2 * compact_interval\<rparr>]\<rparr> = round3"
    by (simp add: round2_def round3_def)
  then show ?thesis using creach_step [OF round2_reach step] by (simp only:)
qed

theorem compacted_is_old_witness:
  "\<exists>T'. (T', 8) \<in> cs_seen round3 \<and> T' + 5 * 60 * 1000000000 \<le> 2 * compact_interval \<and> 8 \<le> cs_revision round3"
proof -
  have "(2 * compact_interval, 8) \<in> cs_compacted round3" by (simp add: round3_def)
  from compacted_is_old [OF round3_reach this] show ?thesis .
qed

text \<open>
  the rounds of all compactors together are at least one interval apart: when the transaction of one takes
  effect, the last one that did, of any of them, was five minutes earlier or more.  And a round of a compactor
  never panics.
\<close>

theorem rounds_spaced:
  assumes "compact_reach s" "i < length (cs_procs s)" "c = cs_procs s ! i" "cp_tick c + 5 * 60 * 1000000000 \<le> now"
    "txn_ok (cs_version s) (cs_revision s) (cp_time c) resp v' r'"
  shows "(\<forall>T. v' \<noteq> cs_version s \<longrightarrow> cs_last s = Some T \<longrightarrow> T + 5 * 60 * 1000000000 \<le> now)
    \<and> compact resp err (cp_time c) (cp_rev c) \<noteq> None"
proof -
  have inv: "proc_inv s c" using compact_reach_inv [OF assms(1)] assms(2,3) by (simp add: compact_inv_def)
  have "cp_time c = cs_version s" if "v' \<noteq> cs_version s"
    using assms(5) that by (auto simp: txn_ok_def split: txn_resp.splits bool.splits)
  then have "\<forall>T. v' \<noteq> cs_version s \<longrightarrow> cs_last s = Some T \<longrightarrow> T + 5 * 60 * 1000000000 \<le> now"
    using inv assms(4) unfolding proc_inv_def by fastforce
  moreover have "compact resp err (cp_time c) (cp_rev c) \<noteq> None"
  proof (cases resp)
    case (TxnResp b rv vs)
    then show ?thesis
      using assms(5) inv by (cases b) (auto simp: txn_ok_def compact_def proc_inv_def Let_def split: option.split if_splits)
  qed (simp add: compact_def)
  ultimately show ?thesis by blast
qed

theorem rounds_spaced_witness:
  "compact (TxnResp True 9 []) (\<lambda>r. None) 1 8 \<noteq> None \<and> compact_interval + 5 * 60 * 1000000000 \<le> 2 * compact_interval"
  using rounds_spaced [OF round2_reach, of 0 "\<lparr>cp_time = 1, cp_rev = 8, cp_tick = compact_interval\<rparr>" "2 * compact_interval"
      "TxnResp True 9 []" 2 9 "\<lambda>r. None"]
  by (simp add: round2_def txn_ok_def compact_interval_def)

end
