(* ===== verification/Metric_Scan.thy ===== *)
theory Metric_Scan
  imports GoLib
begin

text \<open>
  The scanner of the line protocol (\<open>report/metric/parse.go\<close>): a point is
  \<open>measurement[,tag=value...] field=value[,...] [timestamp]\<close>.  Each scan function takes the buffer and a
  position and returns a new position or an error with the position it was found at, as in the code.
  Every read of the buffer and every slice is one that panics out of range (\<open>byte_at\<close>, \<open>bslice\<close>), so the
  lemmas of \<open>Metric_Parse\<close> that the result is never \<open>None\<close> say that no index is ever out of range.
\<close>

subsection \<open>Results and errors\<close>

datatype perr =
  MakeError bytes bytes nat
| IntegerError bytes num_error bytes nat
| ErrInvalidNumber
| MissingMeasurement
| MaxKeyLengthExceeded nat
| MissingFields
| TimestampError num_error

text \<open>A scan panics, fails at a position, or succeeds.\<close>

type_synonym 'a scan = "(nat \<times> perr + 'a) go"

definition scan_err :: "nat \<Rightarrow> perr \<Rightarrow> 'a scan" where
  "scan_err i e = Some (Inl (i, e))"

definition scan_ok :: "'a \<Rightarrow> 'a scan" where
  "scan_ok x = Some (Inr x)"

definition scan_then :: "'a scan \<Rightarrow> ('a \<Rightarrow> 'b scan) \<Rightarrow> 'b scan" where
  "scan_then m f = (case m of None \<Rightarrow> None | Some (Inl e) \<Rightarrow> Some (Inl e) | Some (Inr x) \<Rightarrow> f x)"

lemma scan_then_cong [fundef_cong]:
  "m = m' \<Longrightarrow> (\<And>x. m' = Some (Inr x) \<Longrightarrow> f x = f' x) \<Longrightarrow> scan_then m f = scan_then m' f'"
  by (auto simp: scan_then_def split: option.splits sum.splits)

lemma scan_then_simps [simp]:
  "scan_then (scan_ok x) f = f x"
  "scan_then (scan_err i e) f = scan_err i e"
  by (simp_all add: scan_then_def scan_ok_def scan_err_def)

lemma scan_then_eq_ok:
  "scan_then m f = Some (Inr y) \<longleftrightarrow> (\<exists>x. m = Some (Inr x) \<and> f x = Some (Inr y))"
  by (auto simp: scan_then_def split: option.splits sum.splits)

lemma scan_then_not_None:
  "m \<noteq> None \<Longrightarrow> (\<And>x. m = Some (Inr x) \<Longrightarrow> f x \<noteq> None) \<Longrightarrow> scan_then m f \<noteq> None"
  by (auto simp: scan_then_def split: option.splits sum.splits)

lemma scan_ok_err [simp]:
  "scan_ok x = Some r \<longleftrightarrow> r = Inr x" "scan_err i e = Some r \<longleftrightarrow> r = Inl (i, e)"
  "scan_ok x \<noteq> None" "scan_err i e \<noteq> None"
  by (auto simp: scan_ok_def scan_err_def)

text \<open>
  \<open>scan_safe E Q m\<close>: the scan does not panic, a position it fails at satisfies \<open>E\<close>, and a result satisfies
  \<open>Q\<close>.  It is the weakest precondition of a scan with the exception branch.
\<close>

definition scan_safe :: "(nat \<Rightarrow> bool) \<Rightarrow> ('a \<Rightarrow> bool) \<Rightarrow> 'a scan \<Rightarrow> bool" where
  "scan_safe E Q m =
     (case m of None \<Rightarrow> False | Some (Inl (j, e)) \<Rightarrow> E j | Some (Inr x) \<Rightarrow> Q x)"

lemma scan_safe_simps [simp]:
  "scan_safe E Q (scan_err j e) = E j" "scan_safe E Q (scan_ok x) = Q x" "\<not> scan_safe E Q None"
  by (simp_all add: scan_safe_def scan_ok_def scan_err_def)

lemma scan_safe_mono:
  "scan_safe E Q m \<Longrightarrow> (\<And>j. E j \<Longrightarrow> E' j) \<Longrightarrow> (\<And>x. Q x \<Longrightarrow> Q' x) \<Longrightarrow> scan_safe E' Q' m"
  by (auto simp: scan_safe_def split: option.splits sum.splits)

lemma scan_safe_then:
  "scan_safe E Q m \<Longrightarrow> (\<And>x. Q x \<Longrightarrow> scan_safe E R (f x)) \<Longrightarrow> scan_safe E R (scan_then m f)"
proof -
  assume m: "scan_safe E Q m" and f: "\<And>x. Q x \<Longrightarrow> scan_safe E R (f x)"
  from m consider (err) j e where "m = Some (Inl (j, e))" "E j" | (ok) x where "m = Some (Inr x)" "Q x"
    by (auto simp: scan_safe_def split: option.splits sum.splits)
  then show ?thesis using f by cases (simp_all add: scan_then_def scan_safe_def [of _ _ "Some (Inl _)"])
qed

lemma scan_safe_ok: "scan_safe E Q m \<Longrightarrow> m = Some (Inr x) \<Longrightarrow> Q x"
  by (simp add: scan_safe_def)

lemma scan_safe_err: "scan_safe E Q m \<Longrightarrow> m = Some (Inl (j, e)) \<Longrightarrow> E j"
  by (simp add: scan_safe_def)

lemma scan_safe_not_None: "scan_safe E Q m \<Longrightarrow> m \<noteq> None"
  by (cases m) (auto simp: scan_safe_def)

text \<open>\<open>buf[i-k]\<close>, which panics when the index is negative.\<close>

definition byte_before :: "bytes \<Rightarrow> nat \<Rightarrow> nat \<Rightarrow> char go" where
  "byte_before buf i k = (if k \<le> i then byte_at buf (i - k) else None)"

lemma byte_before_Some [simp]:
  "k \<le> i \<Longrightarrow> i - k < length buf \<Longrightarrow> byte_before buf i k = Some (buf ! (i - k))"
  by (simp add: byte_before_def)

subsection \<open>Whitespace\<close>

definition is_space :: "char \<Rightarrow> bool" where
  "is_space c \<longleftrightarrow> c = CHR '' '' \<or> c = tabchar \<or> c = nulchar"

function skip_whitespace :: "bytes \<Rightarrow> nat \<Rightarrow> nat" where
  "skip_whitespace buf i =
     (if i < length buf \<and> is_space (buf ! i) then skip_whitespace buf (Suc i) else i)"
  by pat_completeness auto
termination by (relation "measure (\<lambda>(buf, i). length buf - i)") auto

declare skip_whitespace.simps [simp del]

subsection \<open>Measurement and tags\<close>

datatype scan_state = TagKeyState | TagValueState | FieldsState

function scan_measurement_loop :: "bytes \<Rightarrow> nat \<Rightarrow> (scan_state \<times> nat) scan" where
  "scan_measurement_loop buf i =
     (let i' = Suc i in
      if i' \<ge> length buf then scan_err i' (MakeError ''missing fields'' buf i')
      else do {
        p \<leftarrow> byte_before buf i' 1;
        if p = backslash then scan_measurement_loop buf i'
        else do {
          c \<leftarrow> byte_at buf i';
          if c = CHR '','' then scan_ok (TagKeyState, i' + 1)
          else if c = CHR '' '' then scan_ok (FieldsState, i')
          else scan_measurement_loop buf i'
        }
      })"
  by pat_completeness auto
termination by (relation "measure (\<lambda>(buf, i). length buf - i)") auto

declare scan_measurement_loop.simps [simp del]

definition scan_measurement :: "bytes \<Rightarrow> nat \<Rightarrow> (scan_state \<times> nat) scan" where
  "scan_measurement buf i =
     (if i \<ge> length buf then scan_err i (MakeError ''missing measurement'' buf i)
      else do {
        c \<leftarrow> byte_at buf i;
        if c = CHR '','' then scan_err i (MakeError ''missing measurement'' buf i)
        else scan_measurement_loop buf i
      })"

function scan_tags_key_loop :: "bytes \<Rightarrow> nat \<Rightarrow> nat scan" where
  "scan_tags_key_loop buf i =
     (let i' = Suc i in
      if i' \<ge> length buf then scan_err i' (MakeError ''missing tag value'' buf i')
      else do {
        c \<leftarrow> byte_at buf i';
        p \<leftarrow> byte_before buf i' 1;
        if (c = CHR '' '' \<or> c = CHR '','') \<and> p \<noteq> backslash
        then scan_err i' (MakeError ''missing tag value'' buf i')
        else if c = CHR ''='' \<and> p \<noteq> backslash then scan_ok (i' + 1)
        else scan_tags_key_loop buf i'
      })"
  by pat_completeness auto
termination by (relation "measure (\<lambda>(buf, i). length buf - i)") auto

declare scan_tags_key_loop.simps [simp del]

definition scan_tags_key :: "bytes \<Rightarrow> nat \<Rightarrow> nat scan" where
  "scan_tags_key buf i =
     (if i \<ge> length buf then scan_err i (MakeError ''missing tag key'' buf i)
      else do {
        c \<leftarrow> byte_at buf i;
        if c = CHR '' '' \<or> c = CHR '','' \<or> c = CHR ''=''
        then scan_err i (MakeError ''missing tag key'' buf i)
        else scan_tags_key_loop buf i
      })"

function scan_tags_value_loop :: "bytes \<Rightarrow> nat \<Rightarrow> (scan_state \<times> nat) scan" where
  "scan_tags_value_loop buf i =
     (let i' = Suc i in
      if i' \<ge> length buf then scan_err i' (MakeError ''missing fields'' buf i')
      else do {
        c \<leftarrow> byte_at buf i';
        p \<leftarrow> byte_before buf i' 1;
        if c = CHR ''='' \<and> p \<noteq> backslash then scan_err i' (MakeError ''invalid tag format'' buf i')
        else if c = CHR '','' \<and> p \<noteq> backslash then scan_ok (TagKeyState, i' + 1)
        else if c = CHR '' '' \<and> p \<noteq> backslash then scan_ok (FieldsState, i')
        else scan_tags_value_loop buf i'
      })"
  by pat_completeness auto
termination by (relation "measure (\<lambda>(buf, i). length buf - i)") auto

declare scan_tags_value_loop.simps [simp del]

definition scan_tags_value :: "bytes \<Rightarrow> nat \<Rightarrow> (scan_state \<times> nat) scan" where
  "scan_tags_value buf i =
     (if i \<ge> length buf then scan_err i (MakeError ''missing tag value'' buf i)
      else do {
        c \<leftarrow> byte_at buf i;
        if c = CHR '','' \<or> c = CHR '' '' then scan_err i (MakeError ''missing tag value'' buf i)
        else scan_tags_value_loop buf i
      })"

subsection \<open>Positions move forward and stay in the buffer\<close>

lemma skip_whitespace_bounds [scan_bounds]:
  "i \<le> length buf \<Longrightarrow> i \<le> skip_whitespace buf i \<and> skip_whitespace buf i \<le> length buf"
proof (induction buf i rule: skip_whitespace.induct)
  case (1 buf i)
  then show ?case
    by (subst (1 2) skip_whitespace.simps) (auto simp: Suc_le_eq)
qed

lemma skip_whitespace_stop:
  "skip_whitespace buf i < length buf \<Longrightarrow> \<not> is_space (buf ! skip_whitespace buf i)"
proof (induction buf i rule: skip_whitespace.induct)
  case (1 buf i)
  then show ?case
    by (cases "i < length buf \<and> is_space (buf ! i)")
      (simp_all add: skip_whitespace.simps [of buf i])
qed

text \<open>The loops without the reads, at a position inside the buffer.\<close>

lemma scan_measurement_loop_step:
  "i < length buf \<Longrightarrow>
   scan_measurement_loop buf i =
     (if Suc i = length buf then scan_err (Suc i) (MakeError ''missing fields'' buf (Suc i))
      else if buf ! i = backslash then scan_measurement_loop buf (Suc i)
      else if buf ! Suc i = CHR '','' then scan_ok (TagKeyState, Suc (Suc i))
      else if buf ! Suc i = CHR '' '' then scan_ok (FieldsState, Suc i)
      else scan_measurement_loop buf (Suc i))"
  by (subst scan_measurement_loop.simps) (auto simp: Let_def)

lemma scan_tags_key_loop_step:
  "i < length buf \<Longrightarrow>
   scan_tags_key_loop buf i =
     (if Suc i = length buf then scan_err (Suc i) (MakeError ''missing tag value'' buf (Suc i))
      else if buf ! i = backslash then scan_tags_key_loop buf (Suc i)
      else if buf ! Suc i = CHR '' '' \<or> buf ! Suc i = CHR '',''
        then scan_err (Suc i) (MakeError ''missing tag value'' buf (Suc i))
      else if buf ! Suc i = CHR ''='' then scan_ok (Suc (Suc i))
      else scan_tags_key_loop buf (Suc i))"
  by (subst scan_tags_key_loop.simps) (auto simp: Let_def)

lemma scan_tags_value_loop_step:
  "i < length buf \<Longrightarrow>
   scan_tags_value_loop buf i =
     (if Suc i = length buf then scan_err (Suc i) (MakeError ''missing fields'' buf (Suc i))
      else if buf ! i = backslash then scan_tags_value_loop buf (Suc i)
      else if buf ! Suc i = CHR ''='' then scan_err (Suc i) (MakeError ''invalid tag format'' buf (Suc i))
      else if buf ! Suc i = CHR '','' then scan_ok (TagKeyState, Suc (Suc i))
      else if buf ! Suc i = CHR '' '' then scan_ok (FieldsState, Suc i)
      else scan_tags_value_loop buf (Suc i))"
  by (subst scan_tags_value_loop.simps) (auto simp: Let_def)

text \<open>Where the state machine may be after a step that began at \<open>i\<close>.\<close>

definition scan_next :: "bytes \<Rightarrow> nat \<Rightarrow> scan_state \<times> nat \<Rightarrow> bool" where
  "scan_next buf i r \<longleftrightarrow>
     i < snd r \<and> snd r \<le> length buf \<and>
     (fst r = TagKeyState \<or> fst r = FieldsState \<and> snd r < length buf \<and> buf ! snd r = CHR '' '')"

lemma scan_next_mono: "scan_next buf (Suc i) r \<Longrightarrow> scan_next buf i r"
  by (auto simp: scan_next_def)

lemma scan_measurement_loop_safe:
  "i < length buf \<Longrightarrow>
   scan_safe (\<lambda>j. i < j \<and> j \<le> length buf) (scan_next buf i) (scan_measurement_loop buf i)"
proof (induction "length buf - i" arbitrary: i rule: less_induct)
  case less
  have "Suc i \<noteq> length buf \<Longrightarrow>
        scan_safe (\<lambda>j. i < j \<and> j \<le> length buf) (scan_next buf i) (scan_measurement_loop buf (Suc i))"
    by (rule scan_safe_mono [OF less(1)]) (use less in \<open>auto simp: scan_next_mono\<close>)
  with less show ?case
    by (auto simp: scan_measurement_loop_step [of i] scan_next_def)
qed

lemma scan_tags_key_loop_safe:
  "i < length buf \<Longrightarrow>
   scan_safe (\<lambda>j. i < j \<and> j \<le> length buf) (\<lambda>j. i < j \<and> j \<le> length buf) (scan_tags_key_loop buf i)"
proof (induction "length buf - i" arbitrary: i rule: less_induct)
  case less
  have "Suc i \<noteq> length buf \<Longrightarrow>
        scan_safe (\<lambda>j. i < j \<and> j \<le> length buf) (\<lambda>j. i < j \<and> j \<le> length buf)
          (scan_tags_key_loop buf (Suc i))"
    by (rule scan_safe_mono [OF less(1)]) (use less in auto)
  with less show ?case
    by (auto simp: scan_tags_key_loop_step [of i])
qed

lemma scan_tags_value_loop_safe:
  "i < length buf \<Longrightarrow>
   scan_safe (\<lambda>j. i < j \<and> j \<le> length buf) (scan_next buf i) (scan_tags_value_loop buf i)"
proof (induction "length buf - i" arbitrary: i rule: less_induct)
  case less
  have "Suc i \<noteq> length buf \<Longrightarrow>
        scan_safe (\<lambda>j. i < j \<and> j \<le> length buf) (scan_next buf i) (scan_tags_value_loop buf (Suc i))"
    by (rule scan_safe_mono [OF less(1)]) (use less in \<open>auto simp: scan_next_mono\<close>)
  with less show ?case
    by (auto simp: scan_tags_value_loop_step [of i] scan_next_def)
qed

lemma scan_measurement_safe [scan_bounds]:
  "i \<le> length buf \<Longrightarrow>
   scan_safe (\<lambda>j. i \<le> j \<and> j \<le> length buf) (scan_next buf i) (scan_measurement buf i)"
  by (auto simp: scan_measurement_def intro: scan_safe_mono [OF scan_measurement_loop_safe])

lemma scan_tags_key_safe [scan_bounds]:
  "i \<le> length buf \<Longrightarrow>
   scan_safe (\<lambda>j. i \<le> j \<and> j \<le> length buf) (\<lambda>j. i < j \<and> j \<le> length buf) (scan_tags_key buf i)"
  by (auto simp: scan_tags_key_def intro: scan_safe_mono [OF scan_tags_key_loop_safe])

lemma scan_tags_value_safe [scan_bounds]:
  "i \<le> length buf \<Longrightarrow>
   scan_safe (\<lambda>j. i \<le> j \<and> j \<le> length buf) (scan_next buf i) (scan_tags_value buf i)"
  by (auto simp: scan_tags_value_def intro: scan_safe_mono [OF scan_tags_value_loop_safe])

subsection \<open>The tag state machine and the key\<close>

lemma scan_tags_key_forward:
  "scan_tags_key buf i = Some (Inr j) \<Longrightarrow> i < j \<and> j \<le> length buf"
proof (cases "i \<le> length buf")
  case True
  assume "scan_tags_key buf i = Some (Inr j)"
  with scan_safe_ok [OF scan_tags_key_safe [OF True]] show ?thesis by blast
qed (simp add: scan_tags_key_def)

lemma scan_tags_value_forward:
  "scan_tags_value buf i = Some (Inr r) \<Longrightarrow> scan_next buf i r"
proof (cases "i \<le> length buf")
  case True
  assume "scan_tags_value buf i = Some (Inr r)"
  with scan_safe_ok [OF scan_tags_value_safe [OF True]] show ?thesis by blast
qed (simp add: scan_tags_value_def)

function scan_tags :: "bytes \<Rightarrow> scan_state \<Rightarrow> nat \<Rightarrow> nat scan" where
  "scan_tags buf TagKeyState i =
     scan_then (scan_tags_key buf i) (\<lambda>j. scan_tags buf TagValueState j)"
| "scan_tags buf TagValueState i =
     scan_then (scan_tags_value buf i) (\<lambda>(st, j). scan_tags buf st j)"
| "scan_tags buf FieldsState i = scan_ok i"
  by pat_completeness auto
termination
  by (relation "measure (\<lambda>(buf, st, i). length buf - i)")
    (auto dest!: scan_tags_key_forward scan_tags_value_forward simp: scan_next_def)

definition scan_key :: "bytes \<Rightarrow> nat \<Rightarrow> (nat \<times> bytes) scan" where
  "scan_key buf i0 =
     (let start = skip_whitespace buf i0;
          finish = (\<lambda>r. case r of
                      Inl (i, e) \<Rightarrow> do { _ \<leftarrow> bslice buf start i; scan_err i e }
                    | Inr i \<Rightarrow> do { key \<leftarrow> bslice buf start i; scan_ok (i, key) })
      in do {
        r \<leftarrow> scan_measurement buf start;
        case r of
          Inl e \<Rightarrow> finish (Inl e)
        | Inr (st, i) \<Rightarrow>
            if st = TagKeyState then do { t \<leftarrow> scan_tags buf TagKeyState i; finish t }
            else finish (Inr i)
      })"

declare scan_tags.simps [simp del]

lemma scan_tags_safe:
  "i \<le> length buf \<Longrightarrow> (st = FieldsState \<Longrightarrow> i < length buf \<and> buf ! i = CHR '' '') \<Longrightarrow>
   scan_safe (\<lambda>j. i \<le> j \<and> j \<le> length buf)
     (\<lambda>j. i \<le> j \<and> j < length buf \<and> buf ! j = CHR '' '') (scan_tags buf st i)"
proof (induction buf st i rule: scan_tags.induct)
  case (1 buf i)
  show ?case
  proof (subst scan_tags.simps, rule scan_safe_then)
    show "scan_safe (\<lambda>j. i \<le> j \<and> j \<le> length buf)
            (\<lambda>j. scan_tags_key buf i = Some (Inr j) \<and> i < j \<and> j \<le> length buf) (scan_tags_key buf i)"
      using scan_tags_key_safe [OF 1(2)] by (auto simp: scan_safe_def split: option.splits sum.splits)
    fix j assume "scan_tags_key buf i = Some (Inr j) \<and> i < j \<and> j \<le> length buf"
    with 1(1) [of j]
    show "scan_safe (\<lambda>j. i \<le> j \<and> j \<le> length buf)
        (\<lambda>j. i \<le> j \<and> j < length buf \<and> buf ! j = CHR '' '') (scan_tags buf TagValueState j)"
      by (auto elim!: scan_safe_mono)
  qed
next
  case (2 buf i)
  show ?case
  proof (subst scan_tags.simps, rule scan_safe_then)
    show "scan_safe (\<lambda>j. i \<le> j \<and> j \<le> length buf)
            (\<lambda>r. scan_tags_value buf i = Some (Inr r) \<and> scan_next buf i r) (scan_tags_value buf i)"
      using scan_tags_value_safe [OF 2(2)] by (auto simp: scan_safe_def split: option.splits sum.splits)
    fix r assume "scan_tags_value buf i = Some (Inr r) \<and> scan_next buf i r"
    with 2(1) [of r "fst r" "snd r"]
    show "scan_safe (\<lambda>j. i \<le> j \<and> j \<le> length buf)
        (\<lambda>j. i \<le> j \<and> j < length buf \<and> buf ! j = CHR '' '') (case r of (st, j) \<Rightarrow> scan_tags buf st j)"
      by (auto simp: scan_next_def split: prod.splits elim!: scan_safe_mono)
  qed
qed (simp add: scan_tags.simps)

text \<open>
  The key is the part of the buffer from its first character that is no space up to the space that ends
  it, and it is not empty.
\<close>

lemma scan_key_safe:
  "i \<le> length buf \<Longrightarrow>
   scan_safe (\<lambda>j. True)
     (\<lambda>(j, key). let s = skip_whitespace buf i in
        s < j \<and> j < length buf \<and> buf ! j = CHR '' '' \<and> key = take (j - s) (drop s buf))
     (scan_key buf i)"
proof -
  assume i: "i \<le> length buf"
  define s where "s = skip_whitespace buf i"
  have s: "s \<le> length buf" using skip_whitespace_bounds [OF i] by (simp add: s_def)
  from scan_measurement_safe [OF s]
  consider (err) j e where "scan_measurement buf s = Some (Inl (j, e))" "s \<le> j" "j \<le> length buf"
    | (ok) st j where "scan_measurement buf s = Some (Inr (st, j))" "scan_next buf s (st, j)"
    by (auto simp: scan_safe_def split: option.splits sum.splits)
  then show ?thesis
  proof cases
    case err
    then show ?thesis by (simp add: scan_key_def s_def [symmetric])
  next
    case ok
    show ?thesis
    proof (cases "st = TagKeyState")
      case False
      with ok show ?thesis by (auto simp: scan_key_def scan_next_def s_def [symmetric])
    next
      case True
      with ok have "s < j" "j \<le> length buf" by (auto simp: scan_next_def)
      moreover have "scan_safe (\<lambda>k. j \<le> k \<and> k \<le> length buf)
          (\<lambda>k. j \<le> k \<and> k < length buf \<and> buf ! k = CHR '' '') (scan_tags buf TagKeyState j)"
        using \<open>j \<le> length buf\<close> by (rule scan_tags_safe) simp
      ultimately show ?thesis
        using ok True
        by (auto simp: scan_key_def s_def [symmetric] scan_safe_def [of _ _ "scan_tags _ _ _"]
            split: option.splits sum.splits)
    qed
  qed
qed

subsection \<open>Numbers and booleans\<close>

definition is_numeric :: "char \<Rightarrow> bool" where
  "is_numeric b \<longleftrightarrow> is_digit b \<or> b = CHR ''.''"

record num_scan =
  ns_int :: bool
  ns_decimal :: bool
  ns_scientific :: bool

text \<open>A sign inside a number is only valid right after an exponent mark.\<close>

definition exponent_sign :: "bytes \<Rightarrow> nat \<Rightarrow> char \<Rightarrow> bool go" where
  "exponent_sign buf i c =
     (if c = CHR ''+'' \<or> c = CHR ''-''
      then do { p \<leftarrow> byte_before buf i 1; Some (p = CHR ''e'' \<or> p = CHR ''E'') }
      else Some False)"

lemma exponent_sign_Some:
  "0 < i \<Longrightarrow> i < length buf \<Longrightarrow>
   exponent_sign buf i c =
     Some ((c = CHR ''+'' \<or> c = CHR ''-'') \<and> (buf ! (i - 1) = CHR ''e'' \<or> buf ! (i - 1) = CHR ''E''))"
  by (simp add: exponent_sign_def)

function scan_number_loop :: "bytes \<Rightarrow> nat \<Rightarrow> nat \<Rightarrow> num_scan \<Rightarrow> (nat \<times> num_scan) scan" where
  "scan_number_loop buf start i r =
     (if i \<ge> length buf then scan_ok (i, r)
      else do {
        c \<leftarrow> byte_at buf i;
        if c = CHR '','' \<or> c = CHR '' '' then scan_ok (i, r)
        else if c = CHR ''i'' \<and> start < i \<and> \<not> ns_int r
        then scan_number_loop buf start (Suc i) (r\<lparr>ns_int := True\<rparr>)
        else if c = CHR ''.'' \<and> ns_decimal r then scan_err i ErrInvalidNumber
        else let r1 = (if c = CHR ''.'' then r\<lparr>ns_decimal := True\<rparr> else r) in
        if start < i \<and> (c = CHR ''e'' \<or> c = CHR ''E'')
        then scan_number_loop buf start (Suc i) (r1\<lparr>ns_scientific := True\<rparr>)
        else do {
          sign \<leftarrow> exponent_sign buf i c;
          if sign then scan_number_loop buf start (Suc i) r1
          else if i + 2 < length buf \<and> (c = CHR ''N'' \<or> c = CHR ''n'') then scan_err i ErrInvalidNumber
          else if \<not> is_numeric c then scan_err i ErrInvalidNumber
          else scan_number_loop buf start (Suc i) r1
        }
      })"
  by pat_completeness auto
termination by (relation "measure (\<lambda>(buf, start, i, r). length buf - i)") auto

declare scan_number_loop.simps [simp del]

definition max_int64_digits :: nat where "max_int64_digits = 19"
definition min_int64_digits :: nat where "min_int64_digits = 20"
definition max_float64_digits :: nat where "max_float64_digits = 25"
definition min_float64_digits :: nat where "min_float64_digits = 27"

text \<open>The checks after the scan of a number that runs from \<open>start\<close> to \<open>i\<close>.\<close>

definition number_end :: "bytes \<Rightarrow> nat \<Rightarrow> nat \<Rightarrow> num_scan \<Rightarrow> nat scan" where
  "number_end buf start i r =
     (if ns_int r \<and> (ns_decimal r \<or> ns_scientific r) then scan_err i ErrInvalidNumber
      else do {
        c0 \<leftarrow> byte_at buf start;
        let numeric_digits = int i - int start - (if ns_int r then 1 else 0)
              - (if ns_decimal r then 1 else 0) - (if c0 = CHR ''-'' then 1 else 0);
        if numeric_digits = 0 then scan_err i ErrInvalidNumber
        else if ns_int r then do {
          l \<leftarrow> byte_before buf i 1;
          if l \<noteq> CHR ''i'' then scan_err i ErrInvalidNumber
          else do {
            ds \<leftarrow> bslice buf start (i - 1);
            if length ds \<ge> max_int64_digits \<or> length ds \<ge> min_int64_digits
            then (case snd (parse_int64 ds) of
                    Some e \<Rightarrow> scan_err i (IntegerError ds e buf i)
                  | None \<Rightarrow> scan_ok i)
            else scan_ok i
          }
        }
        else do {
          ds \<leftarrow> bslice buf start i;
          if ns_scientific r \<or> length ds \<ge> max_float64_digits \<or> length ds \<ge> min_float64_digits
          then (case parse_float_err ds of
                  Some e \<Rightarrow> scan_err i (MakeError ''invalid float'' buf i)
                | None \<Rightarrow> scan_ok i)
          else scan_ok i
        }
      })"

definition scan_number :: "bytes \<Rightarrow> nat \<Rightarrow> nat scan" where
  "scan_number buf start = do {
     neg \<leftarrow> (if start < length buf then do { c \<leftarrow> byte_at buf start; Some (c = CHR ''-'') } else Some False);
     let i0 = (if neg then Suc start else start);
     if neg \<and> i0 = length buf then scan_err i0 ErrInvalidNumber
     else scan_then
       (scan_number_loop buf start i0 \<lparr>ns_int = False, ns_decimal = False, ns_scientific = False\<rparr>)
       (\<lambda>(i, r). number_end buf start i r)
   }"

text \<open>\<open>for \<dots> && buf[i] != ',' && buf[i] != ' '\<close>.\<close>

function value_end :: "bytes \<Rightarrow> nat \<Rightarrow> nat" where
  "value_end buf i =
     (if i < length buf \<and> buf ! i \<noteq> CHR '','' \<and> buf ! i \<noteq> CHR '' '' then value_end buf (Suc i) else i)"
  by pat_completeness auto
termination by (relation "measure (\<lambda>(buf, i). length buf - i)") auto

declare value_end.simps [simp del]

definition boolean_words :: "char \<Rightarrow> bytes list" where
  "boolean_words c =
     (if c = CHR ''t'' then [''true''] else if c = CHR ''f'' then [''false'']
      else if c = CHR ''T'' then [''TRUE'', ''True''] else if c = CHR ''F'' then [''FALSE'', ''False'']
      else [])"

definition scan_boolean :: "bytes \<Rightarrow> nat \<Rightarrow> (nat \<times> bytes) scan" where
  "scan_boolean buf start =
     (if start < length buf \<and> buf ! start \<notin> {CHR ''t'', CHR ''f'', CHR ''T'', CHR ''F''}
      then do { _ \<leftarrow> bslice buf start start; scan_err start (MakeError ''invalid value'' buf start) }
      else do {
        let i = value_end buf (Suc start);
        w \<leftarrow> bslice buf start i;
        if i - start = 1 then scan_ok (i, w)
        else do {
          c \<leftarrow> byte_at buf start;
          if (c = CHR ''t'' \<or> c = CHR ''T'') \<and> i - start \<noteq> 4
            \<or> (c = CHR ''f'' \<or> c = CHR ''F'') \<and> i - start \<noteq> 5
            \<or> w \<notin> set (boolean_words c)
          then scan_err i (MakeError ''invalid boolean'' buf i)
          else scan_ok (i, w)
        }
      })"

lemma value_end_bounds:
  "i \<le> length buf \<Longrightarrow> i \<le> value_end buf i \<and> value_end buf i \<le> length buf"
proof (induction buf i rule: value_end.induct)
  case (1 buf i)
  then show ?case by (subst (1 2) value_end.simps) (auto simp: Suc_le_eq)
qed

lemma scan_number_loop_step:
  "start \<le> i \<Longrightarrow> 0 < i \<Longrightarrow> i < length buf \<Longrightarrow>
   scan_number_loop buf start i r =
     (if buf ! i = CHR '','' \<or> buf ! i = CHR '' '' then scan_ok (i, r)
      else if buf ! i = CHR ''i'' \<and> start < i \<and> \<not> ns_int r
      then scan_number_loop buf start (Suc i) (r\<lparr>ns_int := True\<rparr>)
      else if buf ! i = CHR ''.'' \<and> ns_decimal r then scan_err i ErrInvalidNumber
      else let r1 = (if buf ! i = CHR ''.'' then r\<lparr>ns_decimal := True\<rparr> else r) in
      if start < i \<and> (buf ! i = CHR ''e'' \<or> buf ! i = CHR ''E'')
      then scan_number_loop buf start (Suc i) (r1\<lparr>ns_scientific := True\<rparr>)
      else if (buf ! i = CHR ''+'' \<or> buf ! i = CHR ''-'')
              \<and> (buf ! (i - 1) = CHR ''e'' \<or> buf ! (i - 1) = CHR ''E'')
      then scan_number_loop buf start (Suc i) r1
      else if i + 2 < length buf \<and> (buf ! i = CHR ''N'' \<or> buf ! i = CHR ''n'') then scan_err i ErrInvalidNumber
      else if \<not> is_numeric (buf ! i) then scan_err i ErrInvalidNumber
      else scan_number_loop buf start (Suc i) r1)"
  by (subst scan_number_loop.simps) (simp add: Let_def exponent_sign_Some)

lemma scan_number_loop_safe:
  "start \<le> i \<Longrightarrow> 0 < i \<Longrightarrow> i \<le> length buf \<Longrightarrow> (ns_int r \<or> ns_decimal r \<Longrightarrow> start < i) \<Longrightarrow>
   scan_safe (\<lambda>j. start \<le> j \<and> j \<le> length buf)
     (\<lambda>(j, r). i \<le> j \<and> j \<le> length buf \<and> (ns_int r \<or> ns_decimal r \<longrightarrow> start < j))
     (scan_number_loop buf start i r)"
proof (induction "length buf - i" arbitrary: i r rule: less_induct)
  case less
  show ?case
  proof (cases "i < length buf")
    case False
    with less.prems show ?thesis by (subst scan_number_loop.simps) simp
  next
    case True
    have rec: "scan_safe (\<lambda>j. start \<le> j \<and> j \<le> length buf)
        (\<lambda>(j, r). i \<le> j \<and> j \<le> length buf \<and> (ns_int r \<or> ns_decimal r \<longrightarrow> start < j))
        (scan_number_loop buf start (Suc i) r')" for r'
      by (rule scan_safe_mono [OF less(1)]) (use less.prems True in auto)
    show ?thesis
      by (subst scan_number_loop_step) (use less.prems True rec in \<open>auto simp: Let_def\<close>)
  qed
qed

lemma number_end_safe:
  assumes "0 < start" "start < length buf" "start \<le> i" "i \<le> length buf"
    and "ns_int r \<or> ns_decimal r \<or> buf ! start = CHR ''-'' \<Longrightarrow> start < i"
  shows "scan_safe (\<lambda>j. start \<le> j \<and> j \<le> length buf) (\<lambda>j. start < j \<and> j \<le> length buf)
           (number_end buf start i r)"
proof (cases "i = start")
  case True
  with assms show ?thesis by (auto simp: number_end_def Let_def)
next
  case False
  with assms(1-4) show ?thesis by (simp add: number_end_def Let_def split: option.split)
qed

text \<open>A number that is accepted takes at least one character.\<close>

lemma scan_number_safe [scan_bounds]:
  assumes "0 < start" "start < length buf"
  shows "scan_safe (\<lambda>j. start \<le> j \<and> j \<le> length buf) (\<lambda>j. start < j \<and> j \<le> length buf)
           (scan_number buf start)"
proof -
  define i0 where "i0 = (if buf ! start = CHR ''-'' then Suc start else start)"
  define r0 where "r0 = \<lparr>ns_int = False, ns_decimal = False, ns_scientific = False\<rparr>"
  have i0: "start \<le> i0" "0 < i0" "i0 \<le> length buf" using assms by (auto simp: i0_def)
  have "scan_safe (\<lambda>j. start \<le> j \<and> j \<le> length buf) (\<lambda>j. start < j \<and> j \<le> length buf)
      (scan_then (scan_number_loop buf start i0 r0) (\<lambda>(i, r). number_end buf start i r))"
  proof (rule scan_safe_then [OF scan_number_loop_safe [OF i0]], simp add: r0_def, clarify)
    fix i and r :: num_scan
    assume "i0 \<le> i" "i \<le> length buf" "ns_int r \<or> ns_decimal r \<longrightarrow> start < i"
    with assms show "scan_safe (\<lambda>j. start \<le> j \<and> j \<le> length buf) (\<lambda>j. start < j \<and> j \<le> length buf)
        (number_end buf start i r)"
      by (intro number_end_safe) (auto simp: i0_def split: if_splits)
  qed
  with assms show ?thesis
    by (simp add: scan_number_def i0_def r0_def Let_def)
qed

lemma scan_boolean_safe [scan_bounds]:
  assumes "start < length buf"
  shows "scan_safe (\<lambda>j. start \<le> j \<and> j \<le> length buf) (\<lambda>(j, w). start < j \<and> j \<le> length buf)
           (scan_boolean buf start)"
  using value_end_bounds [of "Suc start" buf] assms by (auto simp: scan_boolean_def Let_def)

text \<open>The words a boolean field may be written with.\<close>

definition boolean_literals :: "bytes set" where
  "boolean_literals = {''t'', ''T'', ''true'', ''True'', ''TRUE'', ''f'', ''F'', ''false'', ''False'', ''FALSE''}"

lemma scan_boolean_literal:
  assumes "start < length buf" and "scan_boolean buf start = Some (Inr (j, w))"
  shows "w \<in> boolean_literals"
proof -
  let ?i = "value_end buf (Suc start)"
  have b: "Suc start \<le> ?i" "?i \<le> length buf" using value_end_bounds [of "Suc start" buf] assms by auto
  have c: "buf ! start \<in> {CHR ''t'', CHR ''f'', CHR ''T'', CHR ''F''}"
    using assms by (auto simp: scan_boolean_def split: if_splits)
  show ?thesis
  proof (cases "?i - start = 1")
    case True
    with assms b c show ?thesis
      by (auto simp: scan_boolean_def Let_def boolean_literals_def take_Suc hd_drop_conv_nth)
  next
    case False
    with assms b c have "w \<in> set (boolean_words (buf ! start))"
      by (auto simp: scan_boolean_def Let_def split: if_splits)
    then show ?thesis by (auto simp: boolean_words_def boolean_literals_def split: if_splits)
  qed
qed

subsection \<open>Fields\<close>

record field_scan =
  fs_quoted :: bool
  fs_equals :: nat
  fs_commas :: nat

text \<open>
  What an unquoted \<open>=\<close> at \<open>i\<close> leads to: an error, the position after the number or boolean that follows it,
  or \<open>None\<close> when a quoted value follows and the scan goes on with the next character.
\<close>

definition scan_value :: "bytes \<Rightarrow> nat \<Rightarrow> nat option scan" where
  "scan_value buf i = do {
     p \<leftarrow> byte_before buf i 1;
     no_key_space \<leftarrow> (if p = CHR '' '' then do { q \<leftarrow> byte_before buf i 2; Some (q \<noteq> backslash) } else Some False);
     no_key_comma \<leftarrow> (if p = CHR '','' then do { q \<leftarrow> byte_before buf i 2; Some (q \<noteq> backslash) } else Some False);
     if no_key_space \<or> no_key_comma then scan_err i (MakeError ''missing field key'' buf i)
     else if i + 1 \<ge> length buf then scan_err i (MakeError ''missing field value'' buf i)
     else do {
       c \<leftarrow> byte_at buf (i + 1);
       if c = CHR '','' \<or> c = CHR '' '' then scan_err i (MakeError ''missing field value'' buf i)
       else if is_numeric c \<or> c = CHR ''-'' \<or> c = CHR ''N'' \<or> c = CHR ''n''
       then scan_then (scan_number buf (i + 1)) (\<lambda>j. scan_ok (Some j))
       else if c \<noteq> dquote then scan_then (scan_boolean buf (i + 1)) (\<lambda>(j, w). scan_ok (Some j))
       else scan_ok None
     }
   }"

lemma scan_value_safe:
  assumes "2 \<le> i" "i < length buf"
  shows "scan_safe (\<lambda>j. i \<le> j \<and> j \<le> length buf)
           (\<lambda>r. case r of None \<Rightarrow> True | Some j \<Rightarrow> i + 1 < j \<and> j \<le> length buf) (scan_value buf i)"
proof (cases "i + 1 < length buf")
  case False
  with assms show ?thesis by (simp add: scan_value_def)
next
  case True
  have num: "scan_safe (\<lambda>j. i \<le> j \<and> j \<le> length buf)
      (\<lambda>r. case r of None \<Rightarrow> True | Some j \<Rightarrow> Suc i < j \<and> j \<le> length buf)
      (scan_then (scan_number buf (Suc i)) (\<lambda>j. scan_ok (Some j)))"
    using True assms
    by (intro scan_safe_then [OF scan_safe_mono [OF scan_number_safe [of "Suc i" buf]]]) auto
  have bool: "scan_safe (\<lambda>j. i \<le> j \<and> j \<le> length buf)
      (\<lambda>r. case r of None \<Rightarrow> True | Some j \<Rightarrow> Suc i < j \<and> j \<le> length buf)
      (scan_then (scan_boolean buf (Suc i)) (\<lambda>(j, w). scan_ok (Some j)))"
    using True assms
    by (intro scan_safe_then [OF scan_safe_mono [OF scan_boolean_safe [of "Suc i" buf]]]) auto
  from assms True num bool show ?thesis by (simp add: scan_value_def)
qed

lemma scan_value_forward:
  "scan_value buf i = Some (Inr (Some j)) \<Longrightarrow> i < length buf \<Longrightarrow> i < j \<and> j \<le> length buf"
proof -
  assume v: "scan_value buf i = Some (Inr (Some j))" and i: "i < length buf"
  then consider "scan_number buf (Suc i) = Some (Inr j)" "Suc i < length buf"
    | w where "scan_boolean buf (Suc i) = Some (Inr (j, w))" "Suc i < length buf"
    by (cases "Suc i < length buf")
      (auto simp: scan_value_def scan_then_eq_ok bind_eq_Some_conv split: if_splits)
  then show ?thesis
  proof cases
    case 1
    with scan_safe_ok [OF scan_number_safe, of "Suc i" buf j] show ?thesis by auto
  next
    case 2
    with scan_safe_ok [OF scan_boolean_safe, of "Suc i" buf "(j, w)"] show ?thesis by auto
  qed
qed

function scan_fields_loop :: "bytes \<Rightarrow> nat \<Rightarrow> field_scan \<Rightarrow> (nat \<times> field_scan) scan" where
  "scan_fields_loop buf i r =
     (if i \<ge> length buf then scan_ok (i, r)
      else if buf ! i = backslash \<and> i + 1 < length buf then scan_fields_loop buf (i + 2) r
      else if buf ! i = dquote \<and> fs_equals r > fs_commas r
      then scan_fields_loop buf (Suc i) (r\<lparr>fs_quoted := \<not> fs_quoted r\<rparr>)
      else if buf ! i = CHR ''='' \<and> \<not> fs_quoted r then
        scan_then (scan_value buf i)
          (\<lambda>v. case v of
                 Some j \<Rightarrow> scan_fields_loop buf j (r\<lparr>fs_equals := Suc (fs_equals r)\<rparr>)
               | None \<Rightarrow> scan_fields_loop buf (Suc i) (r\<lparr>fs_equals := Suc (fs_equals r)\<rparr>))
      else if buf ! i = CHR '' '' \<and> \<not> fs_quoted r then scan_ok (i, r)
      else scan_fields_loop buf (Suc i)
             (if buf ! i = CHR '','' \<and> \<not> fs_quoted r then r\<lparr>fs_commas := Suc (fs_commas r)\<rparr> else r))"
  by pat_completeness auto
termination
  by (relation "measure (\<lambda>(buf, i, r). length buf - i)") (auto dest: scan_value_forward intro: diff_less_mono2)

declare scan_fields_loop.simps [simp del]

definition scan_fields :: "bytes \<Rightarrow> nat \<Rightarrow> (nat \<times> bytes) scan" where
  "scan_fields buf i0 =
     (let start = skip_whitespace buf i0 in do {
        res \<leftarrow> scan_fields_loop buf start \<lparr>fs_quoted = False, fs_equals = 0, fs_commas = 0\<rparr>;
        case res of
          Inl (i, e) \<Rightarrow> do { _ \<leftarrow> bslice buf start i; scan_err i e }
        | Inr (i, r) \<Rightarrow> do {
            fields \<leftarrow> bslice buf start i;
            if fs_quoted r then scan_err i (MakeError ''unbalanced quotes'' buf i)
            else if fs_equals r = 0 \<or> int (fs_commas r) \<noteq> int (fs_equals r) - 1
            then scan_err i (MakeError ''invalid field format'' buf i)
            else scan_ok (i, fields)
          }
      })"

lemma scan_fields_loop_safe:
  "2 \<le> i \<Longrightarrow> i \<le> length buf \<Longrightarrow>
   scan_safe (\<lambda>j. i \<le> j \<and> j \<le> length buf)
     (\<lambda>(j, r'). i \<le> j \<and> j \<le> length buf \<and> (fs_equals r < fs_equals r' \<longrightarrow> i < j)
        \<and> (j < length buf \<and> \<not> fs_quoted r' \<longrightarrow> buf ! j = CHR '' ''))
     (scan_fields_loop buf i r)"
proof (induction "length buf - i" arbitrary: i r rule: less_induct)
  case less
  let ?Q = "\<lambda>i r (j, r'). i \<le> j \<and> j \<le> length buf \<and> (fs_equals r < fs_equals r' \<longrightarrow> i < j)
        \<and> (j < length buf \<and> \<not> fs_quoted r' \<longrightarrow> buf ! j = CHR '' '')"
  show ?case
  proof (cases "i < length buf")
    case False
    with less.prems show ?thesis by (subst scan_fields_loop.simps) simp
  next
    case True
    have rec: "scan_safe (\<lambda>j. i \<le> j \<and> j \<le> length buf) (?Q i r) (scan_fields_loop buf k r')"
      if "i < k" "k \<le> length buf" for k r'
      by (rule scan_safe_mono [OF less(1)]) (use less.prems that in auto)
    have val: "scan_safe (\<lambda>j. i \<le> j \<and> j \<le> length buf) (?Q i r)
        (scan_then (scan_value buf i) (\<lambda>v. case v of
            Some j \<Rightarrow> scan_fields_loop buf j r' | None \<Rightarrow> scan_fields_loop buf (Suc i) r'))" for r'
      by (rule scan_safe_then [OF scan_value_safe])
        (use less.prems True rec in \<open>auto split: option.splits\<close>)
    show ?thesis
      by (subst scan_fields_loop.simps) (use less.prems True rec val in auto)
  qed
qed

text \<open>The field section that is accepted is not empty and ends at a space or at the end.\<close>

lemma scan_fields_safe:
  assumes "2 \<le> skip_whitespace buf i" and "i \<le> length buf"
  shows "scan_safe (\<lambda>j. True)
     (\<lambda>(j, fields). let s = skip_whitespace buf i in
        s < j \<and> j \<le> length buf \<and> (j < length buf \<longrightarrow> buf ! j = CHR '' '')
        \<and> fields = take (j - s) (drop s buf))
     (scan_fields buf i)"
proof -
  define s where "s = skip_whitespace buf i"
  define r0 where "r0 = \<lparr>fs_quoted = False, fs_equals = 0, fs_commas = 0\<rparr>"
  have s: "2 \<le> s" "s \<le> length buf" using assms skip_whitespace_bounds [of i buf] by (auto simp: s_def)
  from scan_fields_loop_safe [OF s, of r0]
  consider (err) j e where "scan_fields_loop buf s r0 = Some (Inl (j, e))" "s \<le> j" "j \<le> length buf"
    | (ok) j r where "scan_fields_loop buf s r0 = Some (Inr (j, r))" "s \<le> j" "j \<le> length buf"
        "0 < fs_equals r \<longrightarrow> s < j" "j < length buf \<and> \<not> fs_quoted r \<longrightarrow> buf ! j = CHR '' ''"
    by (fastforce simp: scan_safe_def r0_def split: option.splits sum.splits)
  then show ?thesis
  proof cases
    case err
    then show ?thesis by (simp add: scan_fields_def s_def [symmetric] r0_def [symmetric])
  next
    case ok
    then show ?thesis by (simp add: scan_fields_def s_def [symmetric] r0_def [symmetric])
  qed
qed

subsection \<open>The timestamp\<close>

function scan_time_loop :: "bytes \<Rightarrow> nat \<Rightarrow> nat \<Rightarrow> nat scan" where
  "scan_time_loop buf start i =
     (if i \<ge> length buf then scan_ok i
      else if buf ! i = newline \<or> buf ! i = CHR '' '' then scan_ok i
      else if i = start \<and> buf ! i = CHR ''-'' then scan_time_loop buf start (Suc i)
      else if \<not> is_digit (buf ! i) then scan_err i (MakeError ''invalid timestamp'' buf i)
      else scan_time_loop buf start (Suc i))"
  by pat_completeness auto
termination by (relation "measure (\<lambda>(buf, start, i). length buf - i)") auto

declare scan_time_loop.simps [simp del]

definition scan_time :: "bytes \<Rightarrow> nat \<Rightarrow> (nat \<times> bytes) scan" where
  "scan_time buf i0 =
     (let start = skip_whitespace buf i0 in do {
        res \<leftarrow> scan_time_loop buf start start;
        case res of
          Inl (i, e) \<Rightarrow> do { _ \<leftarrow> bslice buf start i; scan_err i e }
        | Inr i \<Rightarrow> do { ts \<leftarrow> bslice buf start i; scan_ok (i, ts) }
      })"

text \<open>A timestamp that is accepted is a run of digits after an optional minus sign.\<close>

definition timestamp_shape :: "bytes \<Rightarrow> bool" where
  "timestamp_shape ts \<longleftrightarrow>
     (\<forall>c \<in> set (if ts \<noteq> [] \<and> hd ts = CHR ''-'' then tl ts else ts). is_digit c)"

lemma scan_time_loop_safe:
  "start \<le> i \<Longrightarrow> i \<le> length buf \<Longrightarrow>
   scan_safe (\<lambda>j. i \<le> j \<and> j \<le> length buf)
     (\<lambda>j. i \<le> j \<and> j \<le> length buf \<and>
        (\<forall>k. i \<le> k \<and> k < j \<longrightarrow> is_digit (buf ! k) \<or> k = start \<and> buf ! k = CHR ''-''))
     (scan_time_loop buf start i)"
proof (induction "length buf - i" arbitrary: i rule: less_induct)
  case less
  show ?case
  proof (cases "i < length buf")
    case False
    with less.prems show ?thesis by (subst scan_time_loop.simps) auto
  next
    case True
    let ?Q = "\<lambda>i j. i \<le> j \<and> j \<le> length buf \<and>
        (\<forall>k. i \<le> k \<and> k < j \<longrightarrow> is_digit (buf ! k) \<or> k = start \<and> buf ! k = CHR ''-'')"
    have rec: "scan_safe (\<lambda>j. i \<le> j \<and> j \<le> length buf) (?Q i) (scan_time_loop buf start (Suc i))"
      if "is_digit (buf ! i) \<or> i = start \<and> buf ! i = CHR ''-''"
    proof (rule scan_safe_mono [OF less(1)])
      fix j assume j: "?Q (Suc i) j"
      have "is_digit (buf ! k) \<or> k = start \<and> buf ! k = CHR ''-''" if "i \<le> k" "k < j" for k
        using j that \<open>is_digit (buf ! i) \<or> i = start \<and> buf ! i = CHR ''-''\<close>
        by (cases "k = i") (simp_all add: Suc_le_eq)
      with j show "?Q i j" by simp
    qed (use less.prems True in auto)
    show ?thesis
      by (subst scan_time_loop.simps) (use less.prems True rec in auto)
  qed
qed

lemma scan_time_safe:
  assumes "i \<le> length buf"
  shows "scan_safe (\<lambda>j. True) (\<lambda>(j, ts). timestamp_shape ts) (scan_time buf i)"
proof -
  define s where "s = skip_whitespace buf i"
  have s: "s \<le> length buf" using skip_whitespace_bounds [OF assms] by (simp add: s_def)
  have shape: "timestamp_shape (take (j - s) (drop s buf))"
    if "s \<le> j" "j \<le> length buf"
      and k: "\<forall>k. s \<le> k \<and> k < j \<longrightarrow> is_digit (buf ! k) \<or> k = s \<and> buf ! k = CHR ''-''" for j
  proof (cases "s < j")
    case True
    then have eq: "take (j - s) (drop s buf) = buf ! s # take (j - Suc s) (drop (Suc s) buf)"
      using that by (metis Cons_nth_drop_Suc Suc_diff_Suc le_less_trans less_le_trans take_Suc_Cons)
    have "is_digit (buf ! n)" if "s < n" "n < j" for n
      using k [rule_format, of n] that by simp
    then have "is_digit c" if "c \<in> set (take (j - Suc s) (drop (Suc s) buf))" for c
      using that \<open>j \<le> length buf\<close> by (auto simp: in_set_conv_nth)
    with k True show ?thesis by (auto simp: eq timestamp_shape_def)
  qed (simp add: timestamp_shape_def)
  from scan_time_loop_safe [OF order_refl s]
  consider (err) j e where "scan_time_loop buf s s = Some (Inl (j, e))" "s \<le> j" "j \<le> length buf"
    | (ok) j where "scan_time_loop buf s s = Some (Inr j)" "s \<le> j" "j \<le> length buf"
        "\<forall>k. s \<le> k \<and> k < j \<longrightarrow> is_digit (buf ! k) \<or> k = s \<and> buf ! k = CHR ''-''"
    by (auto simp: scan_safe_def split: option.splits sum.splits)
  then show ?thesis
    by cases (simp_all add: scan_time_def s_def [symmetric] shape)
qed

end
