(* ===== verification/Metric_Data.thy ===== *)
theory Metric_Data
  imports GoLib "HOL-Library.Word" "HOL-Library.List_Lexorder" "HOL-Library.Char_ord"
begin

text \<open>
  Metrics of the line protocol (\<open>report/metric/metric.go\<close>, \<open>escape.go\<close>, \<open>types.go\<close>): the escaping of
  names, tags and string fields, the search for unescaped bytes, the \<open>metric\<close> record that keeps every
  part in its serialized form, and each operation of the \<open>Metric\<close> interface.

  The formatting of floating point numbers (\<open>strconv.AppendFloat\<close> with format \<open>'f'\<close> and precision -1) is
  an argument, as is \<open>strconv.ParseFloat\<close> where its value is kept.  A slice whose bound is past the length
  panics here; in Go it panics past the capacity, which is the length for every metric that \<open>Copy\<close> built.
\<close>

subsection \<open>Escaping\<close>

definition escaper :: "(bytes \<times> bytes) list" where
  "escaper = [('','', [backslash, CHR '','']), ([dquote], [backslash, dquote]),
              ('' '', [backslash, CHR '' '']), (''='', [backslash, CHR ''=''])]"

definition un_escaper :: "(bytes \<times> bytes) list" where
  "un_escaper = [([backslash, CHR '',''], '',''), ([backslash, dquote], [dquote]),
                 ([backslash, CHR '' ''], '' ''), ([backslash, CHR ''=''], ''='')]"

definition name_escaper :: "(bytes \<times> bytes) list" where
  "name_escaper = [('','', [backslash, CHR '','']), ('' '', [backslash, CHR '' ''])]"

definition name_un_escaper :: "(bytes \<times> bytes) list" where
  "name_un_escaper = [([backslash, CHR '',''], '',''), ([backslash, CHR '' ''], '' '')]"

definition string_field_escaper :: "(bytes \<times> bytes) list" where
  "string_field_escaper = [([dquote], [backslash, dquote])]"

definition string_field_un_escaper :: "(bytes \<times> bytes) list" where
  "string_field_un_escaper = [([backslash, dquote], [dquote])]"

definition escape :: "bytes \<Rightarrow> string \<Rightarrow> bytes" where
  "escape s t =
     (if t = ''fieldkey'' \<or> t = ''tagkey'' \<or> t = ''tagval'' then replace_all escaper s
      else if t = ''name'' then replace_all name_escaper s
      else if t = ''fieldval'' then replace_all string_field_escaper s
      else s)"

definition unescape :: "bytes \<Rightarrow> string \<Rightarrow> bytes" where
  "unescape s t =
     (if t = ''fieldkey'' \<or> t = ''tagkey'' \<or> t = ''tagval'' then replace_all un_escaper s
      else if t = ''name'' then replace_all name_un_escaper s
      else if t = ''fieldval'' then replace_all string_field_un_escaper s
      else s)"

text \<open>The reference: each character of the set gets a backslash in front.\<close>

definition esc :: "char set \<Rightarrow> bytes \<Rightarrow> bytes" where
  "esc S s = concat (map (\<lambda>c. if c \<in> S then [backslash, c] else [c]) s)"

definition key_specials :: "char set" where
  "key_specials = {CHR '','', dquote, CHR '' '', CHR ''=''}"

definition name_specials :: "char set" where
  "name_specials = {CHR '','', CHR '' ''}"

definition string_specials :: "char set" where
  "string_specials = {dquote}"

lemma esc_simps [simp]:
  "esc S [] = []" "esc S (c # s) = (if c \<in> S then backslash # c # esc S s else c # esc S s)"
  "esc S (s @ t) = esc S s @ esc S t"
  by (simp_all add: esc_def)

lemma esc_eq_Nil [simp]: "esc S s = [] \<longleftrightarrow> s = []"
  by (cases s) auto

lemma escape_key: "replace_all escaper s = esc key_specials s"
  by (induction s) (auto simp: escaper_def key_specials_def)

lemma escape_name: "replace_all name_escaper s = esc name_specials s"
  by (induction s) (auto simp: name_escaper_def name_specials_def)

lemma escape_string: "replace_all string_field_escaper s = esc string_specials s"
  by (induction s) (auto simp: string_field_escaper_def string_specials_def)

lemma escape_eqs [simp]:
  "escape s ''tagkey'' = esc key_specials s" "escape s ''tagval'' = esc key_specials s"
  "escape s ''fieldkey'' = esc key_specials s" "escape s ''name'' = esc name_specials s"
  "escape s ''fieldval'' = esc string_specials s"
  by (simp_all add: escape_def escape_key escape_name escape_string)

lemma unescape_key: "backslash \<notin> set s \<Longrightarrow> replace_all un_escaper (esc key_specials s) = s"
  by (induction s) (auto simp: un_escaper_def key_specials_def)

lemma unescape_name: "backslash \<notin> set s \<Longrightarrow> replace_all name_un_escaper (esc name_specials s) = s"
  by (induction s) (auto simp: name_un_escaper_def name_specials_def)

lemma unescape_string:
  "backslash \<notin> set s \<Longrightarrow> replace_all string_field_un_escaper (esc string_specials s) = s"
  by (induction s) (auto simp: string_field_un_escaper_def string_specials_def)

lemma unescape_esc:
  assumes "backslash \<notin> set s"
  shows "unescape (esc key_specials s) ''tagkey'' = s" "unescape (esc key_specials s) ''tagval'' = s"
    "unescape (esc key_specials s) ''fieldkey'' = s" "unescape (esc name_specials s) ''name'' = s"
    "unescape (esc string_specials s) ''fieldval'' = s"
  using assms by (simp_all add: unescape_def unescape_key unescape_name unescape_string)

subsection \<open>Unescaped bytes\<close>

text \<open>\<open>countBackslashes(buf, n - 1)\<close>: the backslashes that end at position \<open>n - 1\<close>.\<close>

fun count_backslashes :: "bytes \<Rightarrow> nat \<Rightarrow> nat" where
  "count_backslashes buf 0 = 0"
| "count_backslashes buf (Suc n) =
     (if buf ! n = backslash then Suc (count_backslashes buf n) else 0)"

function index_unescaped_from :: "bytes \<Rightarrow> char \<Rightarrow> nat \<Rightarrow> nat option" where
  "index_unescaped_from buf b keyi =
     (case index_byte (drop keyi buf) b of
        None \<Rightarrow> None
      | Some 0 \<Rightarrow> Some keyi
      | Some (Suc i) \<Rightarrow>
          (let k = keyi + Suc i in
           if even (count_backslashes buf k) then Some k
           else index_unescaped_from buf b (Suc k)))"
  by pat_completeness auto
termination
  by (relation "measure (\<lambda>(buf, b, keyi). length buf - keyi)")
    (auto simp: index_byte_Some less_diff_conv)

declare index_unescaped_from.simps [simp del]

definition index_unescaped_byte :: "bytes \<Rightarrow> char \<Rightarrow> nat option" where
  "index_unescaped_byte buf b = index_unescaped_from buf b 0"

lemma index_unescaped_from_step:
  "index_unescaped_from buf b k =
     (case index_byte (drop k buf) b of
        None \<Rightarrow> None
      | Some i \<Rightarrow>
          if i = 0 \<or> even (count_backslashes buf (k + i)) then Some (k + i)
          else index_unescaped_from buf b (Suc (k + i)))"
proof (cases "index_byte (drop k buf) b")
  case (Some i)
  then show ?thesis
    by (cases i) (subst index_unescaped_from.simps, simp add: Let_def)+
qed (subst index_unescaped_from.simps, simp)

lemma index_unescaped_from_bounds:
  "index_unescaped_from buf b k = Some j \<Longrightarrow> k \<le> j \<and> j < length buf \<and> buf ! j = b"
proof (induction "length buf - k" arbitrary: k rule: less_induct)
  case less
  then obtain i where i: "index_byte (drop k buf) b = Some i"
    by (auto simp: index_unescaped_from_step [of buf b k] split: option.splits)
  then have b: "k + i < length buf" "buf ! (k + i) = b" by (auto simp: index_byte_Some)
  show ?case
  proof (cases "i = 0 \<or> even (count_backslashes buf (k + i))")
    case True
    with less.prems i b show ?thesis by (simp add: index_unescaped_from_step [of buf b k])
  next
    case False
    with less.prems i have "index_unescaped_from buf b (Suc (k + i)) = Some j"
      by (simp add: index_unescaped_from_step [of buf b k])
    moreover have "length buf - Suc (k + i) < length buf - k" using b by linarith
    ultimately show ?thesis using less(1) [of "Suc (k + i)"] by (meson Suc_leD add_leD1)
  qed
qed

lemma index_unescaped_byte_bounds:
  "index_unescaped_byte buf b = Some j \<Longrightarrow> j < length buf \<and> buf ! j = b"
  unfolding index_unescaped_byte_def by (drule index_unescaped_from_bounds) simp

lemma index_unescaped_byte_None: "b \<notin> set buf \<Longrightarrow> index_unescaped_byte buf b = None"
  using index_byte_None [of buf b]
  by (simp add: index_unescaped_byte_def index_unescaped_from_step [of buf b 0])

text \<open>
  What the search finds when every occurrence of \<open>b\<close> in front of position \<open>j\<close> is escaped.
\<close>

lemma index_unescaped_from_hit:
  assumes "b \<noteq> backslash" and "k \<le> j" and "j < length buf" and "buf ! j = b"
    and "even (count_backslashes buf j)"
    and "\<And>n. k \<le> n \<Longrightarrow> n < j \<Longrightarrow> buf ! n = b \<Longrightarrow> k < n \<and> odd (count_backslashes buf n)"
  shows "index_unescaped_from buf b k = Some j"
  using assms
proof (induction "j - k" arbitrary: k rule: less_induct)
  case less
  have "drop k buf ! (j - k) = b" "j - k < length (drop k buf)" using less.prems by auto
  then have "b \<in> set (drop k buf)" by (metis nth_mem)
  then obtain i where i: "index_byte (drop k buf) b = Some i"
    using index_byte_None [of "drop k buf" b] by blast
  then have bi: "k + i < length buf" "buf ! (k + i) = b" "b \<notin> set (take i (drop k buf))"
    by (auto simp: index_byte_Some)
  have "k + i \<le> j"
  proof (rule ccontr)
    assume "\<not> k + i \<le> j"
    then have "j - k < length (take i (drop k buf))" "take i (drop k buf) ! (j - k) = b"
      using less.prems by auto
    with bi(3) show False by (metis nth_mem)
  qed
  show ?case
  proof (cases "k + i = j")
    case True
    with i less.prems show ?thesis by (auto simp: index_unescaped_from_step [of buf b k])
  next
    case False
    with \<open>k + i \<le> j\<close> bi less.prems(6) [of "k + i"]
    have o: "0 < i" "odd (count_backslashes buf (k + i))" "k + i < j" by auto
    have "index_unescaped_from buf b (Suc (k + i)) = Some j"
    proof (rule less(1))
      fix n assume n: "Suc (k + i) \<le> n" "n < j" "buf ! n = b"
      with less.prems(6) [of n] have "odd (count_backslashes buf n)" by simp
      with n bi(2) less.prems(1) show "Suc (k + i) < n \<and> odd (count_backslashes buf n)"
        by (cases "n = Suc (k + i)") auto
    qed (use less.prems o in auto)
    with i o show ?thesis by (simp add: index_unescaped_from_step [of buf b k])
  qed
qed

lemma index_unescaped_byte_hit:
  assumes "b \<noteq> backslash" and "j < length buf" and "buf ! j = b"
    and "even (count_backslashes buf j)"
    and "\<And>n. n < j \<Longrightarrow> buf ! n = b \<Longrightarrow> 0 < n \<and> odd (count_backslashes buf n)"
  shows "index_unescaped_byte buf b = Some j"
  unfolding index_unescaped_byte_def by (rule index_unescaped_from_hit) (use assms in auto)

lemma index_unescaped_byte_miss:
  assumes "b \<noteq> backslash"
    and "\<And>n. n < length buf \<Longrightarrow> buf ! n = b \<Longrightarrow> 0 < n \<and> odd (count_backslashes buf n)"
  shows "index_unescaped_byte buf b = None"
proof -
  have "index_unescaped_from buf b k = None"
    if "\<And>n. k \<le> n \<Longrightarrow> n < length buf \<Longrightarrow> buf ! n = b \<Longrightarrow> k < n \<and> odd (count_backslashes buf n)" for k
    using that
  proof (induction "length buf - k" arbitrary: k rule: less_induct)
    case less
    show ?case
    proof (cases "index_byte (drop k buf) b")
      case None
      then show ?thesis by (simp add: index_unescaped_from_step [of buf b k])
    next
      case (Some i)
      then have bi: "k + i < length buf" "buf ! (k + i) = b" by (auto simp: index_byte_Some)
      with less.prems [of "k + i"] have o: "0 < i" "odd (count_backslashes buf (k + i))" by auto
      have "index_unescaped_from buf b (Suc (k + i)) = None"
      proof (rule less(1))
        fix n assume n: "Suc (k + i) \<le> n" "n < length buf" "buf ! n = b"
        with less.prems [of n] have "odd (count_backslashes buf n)" by simp
        with n bi(2) assms(1) show "Suc (k + i) < n \<and> odd (count_backslashes buf n)"
          by (cases "n = Suc (k + i)") auto
      qed (use bi in auto)
      with Some o show ?thesis by (simp add: index_unescaped_from_step [of buf b k])
    qed
  qed
  then show ?thesis using assms by (simp add: index_unescaped_byte_def)
qed

text \<open>
  In an escaped string each special byte follows exactly one backslash, and the last byte is no backslash.
\<close>

lemma count_backslashes_append [simp]:
  "n \<le> length s \<Longrightarrow> count_backslashes (s @ r) n = count_backslashes s n"
  by (induction n) (auto simp: nth_append)

lemma count_backslashes_drop_prefix:
  "p = [] \<or> last p \<noteq> backslash \<Longrightarrow> count_backslashes (p @ s) (length p + n) = count_backslashes s n"
proof (induction n)
  case 0
  then show ?case by (cases p rule: rev_cases) auto
qed auto

lemma last_esc:
  "backslash \<notin> set s \<Longrightarrow> s \<noteq> [] \<Longrightarrow> last (esc S s) \<noteq> backslash"
  by (cases s rule: rev_cases) auto

lemma esc_special:
  assumes "backslash \<notin> set s" "backslash \<notin> S" "n < length (esc S s)" "esc S s ! n \<in> S"
  shows "0 < n \<and> count_backslashes (esc S s) n = 1"
  using assms
proof (induction s arbitrary: n rule: rev_induct)
  case (snoc c s)
  show ?case
  proof (cases "n < length (esc S s)")
    case True
    with snoc show ?thesis by (auto simp: nth_append)
  next
    case False
    show ?thesis
    proof (cases "c \<in> S")
      case True
      with snoc.prems False have n: "n = Suc (length (esc S s))"
        by (auto simp: nth_append nth_Cons split: nat.splits if_splits)
      have "s = [] \<or> last (esc S s) \<noteq> backslash" using last_esc [of s S] snoc.prems by auto
      then have "count_backslashes (esc S s @ [backslash, c]) (length (esc S s) + 1) =
          count_backslashes [backslash, c] 1"
        by (intro count_backslashes_drop_prefix) auto
      with True n show ?thesis by simp
    next
      case c: False
      with snoc.prems False show ?thesis by (auto simp: nth_append split: if_splits)
    qed
  qed
qed simp

lemma index_unescaped_esc:
  assumes "backslash \<notin> set s" "backslash \<notin> S" "b \<in> S"
  shows "index_unescaped_byte (esc S s @ b # r) b = Some (length (esc S s))"
    and "index_unescaped_byte (esc S s) b = None"
proof -
  have bb: "b \<noteq> backslash" using assms by auto
  have z: "count_backslashes (esc S s) (length (esc S s)) = 0"
    using last_esc [OF assms(1), of S]
    by (cases "s = []"; cases "esc S s" rule: rev_cases) (auto simp: nth_append)
  have special: "0 < n \<and> odd (count_backslashes (esc S s) n)"
    if "n < length (esc S s)" "esc S s ! n = b" for n
    using esc_special [of s S n] assms that by auto
  show "index_unescaped_byte (esc S s @ b # r) b = Some (length (esc S s))"
    by (rule index_unescaped_byte_hit) (use bb special z in \<open>auto simp: nth_append\<close>)
  show "index_unescaped_byte (esc S s) b = None"
    by (rule index_unescaped_byte_miss) (use bb special in auto)
qed

subsection \<open>The metric\<close>

datatype value_type = Counter | Gauge | Untyped | NoType

text \<open>\<open>NoType\<close> is the zero value of \<open>ValueType\<close>, which the enumeration leaves without a name.\<close>

record metric =
  m_name :: bytes
  m_tags :: bytes
  m_fields :: bytes
  m_t :: bytes
  m_type :: value_type
  m_aggregate :: bool
  m_hashID :: "64 word"
  m_nsec :: int

text \<open>\<open>copy(dst[i:], src)\<close>: the new destination and the number of bytes copied; \<open>dst[i:]\<close> may panic.\<close>

definition copy_at :: "bytes \<Rightarrow> nat \<Rightarrow> bytes \<Rightarrow> (bytes \<times> nat) go" where
  "copy_at dst i src =
     (if i \<le> length dst
      then (let n = min (length src) (length dst - i)
            in Some (take i dst @ take n src @ drop (i + n) dst, n))
      else None)"

definition set_byte :: "bytes \<Rightarrow> nat \<Rightarrow> char \<Rightarrow> bytes go" where
  "set_byte dst i c = (if i < length dst then Some (dst[i := c]) else None)"

definition copy_with :: "bytes \<Rightarrow> bytes \<Rightarrow> bytes \<Rightarrow> bytes \<Rightarrow> metric" where
  "copy_with name tags flds t =
     \<lparr>m_name = name, m_tags = tags, m_fields = flds, m_t = t, m_type = NoType,
      m_aggregate = False, m_hashID = 0, m_nsec = 0\<rparr>"

definition metric_copy :: "metric \<Rightarrow> metric" where
  "metric_copy m = copy_with (m_name m) (m_tags m) (m_fields m) (m_t m)"

definition metric_string :: "metric \<Rightarrow> bytes" where
  "metric_string m = m_name m @ m_tags m @ '' '' @ m_fields m @ '' '' @ m_t m @ [newline]"

definition metric_len :: "metric \<Rightarrow> nat" where
  "metric_len m = length (m_name m) + length (m_tags m) + length (m_fields m) + length (m_t m) + 3"

definition set_aggregate :: "metric \<Rightarrow> bool \<Rightarrow> metric" where
  "set_aggregate m b = m\<lparr>m_aggregate := b\<rparr>"

text \<open>
  Both serializers write the same seven parts one after the other: a part is a byte slice that is
  \<open>copy\<close>'d or one byte that is stored.  \<open>Serialize\<close> writes into a buffer of length \<open>Len()\<close>;
  \<open>SerializeTo\<close> stops before a part as soon as the destination is full.
\<close>

datatype part = Chunk bytes | Byte char

definition metric_parts :: "metric \<Rightarrow> part list" where
  "metric_parts m =
     [Chunk (m_name m), Chunk (m_tags m), Byte CHR '' '', Chunk (m_fields m), Byte CHR '' '',
      Chunk (m_t m), Byte newline]"

fun write_part :: "bytes \<Rightarrow> nat \<Rightarrow> part \<Rightarrow> (bytes \<times> nat) go" where
  "write_part dst i (Chunk src) = do { (dst', n) \<leftarrow> copy_at dst i src; Some (dst', i + n) }"
| "write_part dst i (Byte c) = do { dst' \<leftarrow> set_byte dst i c; Some (dst', Suc i) }"

fun write_all :: "bytes \<Rightarrow> nat \<Rightarrow> part list \<Rightarrow> (bytes \<times> nat) go" where
  "write_all dst i [] = Some (dst, i)"
| "write_all dst i (p # ps) = do { (dst', i') \<leftarrow> write_part dst i p; write_all dst' i' ps }"

fun write_until_full :: "bytes \<Rightarrow> nat \<Rightarrow> part list \<Rightarrow> (bytes \<times> nat) go" where
  "write_until_full dst i [] = Some (dst, i)"
| "write_until_full dst i (p # ps) =
     (if i \<ge> length dst then Some (dst, i)
      else do { (dst', i') \<leftarrow> write_part dst i p; write_until_full dst' i' ps })"

definition serialize :: "metric \<Rightarrow> bytes go" where
  "serialize m = do {
     (tmp, i) \<leftarrow> write_all (replicate (metric_len m) nulchar) 0 (metric_parts m);
     Some tmp
   }"

definition serialize_to :: "metric \<Rightarrow> bytes \<Rightarrow> (bytes \<times> nat) go" where
  "serialize_to m dst = write_until_full dst 0 (metric_parts m)"

fun part_bytes :: "part \<Rightarrow> bytes" where
  "part_bytes (Chunk src) = src"
| "part_bytes (Byte c) = [c]"

definition parts_bytes :: "part list \<Rightarrow> bytes" where
  "parts_bytes ps = concat (map part_bytes ps)"

lemma parts_bytes_simps [simp]:
  "parts_bytes [] = []" "parts_bytes (p # ps) = part_bytes p @ parts_bytes ps"
  by (simp_all add: parts_bytes_def)

lemma metric_parts_bytes: "parts_bytes (metric_parts m) = metric_string m"
  by (simp add: metric_parts_def metric_string_def)

lemma metric_string_length [simp]: "length (metric_string m) = metric_len m"
  by (simp add: metric_string_def metric_len_def)

lemma write_part_prefix:
  assumes "length done < length dst"
  shows "\<exists>n. write_part (done @ drop (length done) dst) (length done) p =
               Some (take n (done @ part_bytes p) @ drop n dst, n)
           \<and> n = min (length done + length (part_bytes p)) (length dst)"
proof (cases p)
  case (Chunk src)
  with assms show ?thesis by (auto simp: copy_at_def Let_def min_def add.commute)
next
  case (Byte c)
  have "drop (length done) dst = dst ! length done # drop (Suc (length done)) dst"
    using assms by (simp add: Cons_nth_drop_Suc)
  with Byte assms show ?thesis by (auto simp: set_byte_def list_update_append min_def)
qed

text \<open>Writing until the buffer is full leaves the longest prefix of the parts that fits.\<close>

lemma write_until_full_prefix:
  assumes "length done \<le> length dst"
  shows "write_until_full (done @ drop (length done) dst) (length done) ps =
           (let n = min (length done + length (parts_bytes ps)) (length dst)
            in Some (take n (done @ parts_bytes ps) @ drop n dst, n))"
  using assms
proof (induction ps arbitrary: "done")
  case (Cons p ps)
  show ?case
  proof (cases "length done = length dst")
    case True
    then show ?thesis by (simp add: Let_def)
  next
    case False
    with Cons.prems have l: "length done < length dst" by simp
    obtain n where n: "write_part (done @ drop (length done) dst) (length done) p =
               Some (take n (done @ part_bytes p) @ drop n dst, n)"
        "n = min (length done + length (part_bytes p)) (length dst)"
      using write_part_prefix [OF l, of p] by auto
    define d where "d = take n (done @ part_bytes p)"
    have d: "length d = n" "n \<le> length dst" using n(2) by (auto simp: d_def)
    have "write_until_full (d @ drop n dst) n ps =
        (let k = min (n + length (parts_bytes ps)) (length dst)
         in Some (take k (d @ parts_bytes ps) @ drop k dst, k))"
      using Cons.IH [of d] d by simp
    moreover have "take (min (n + length (parts_bytes ps)) (length dst)) (d @ parts_bytes ps) =
        take (min (length done + length (parts_bytes (p # ps))) (length dst)) (done @ parts_bytes (p # ps))"
      using n(2) by (auto simp: d_def min_def)
    moreover have "min (n + length (parts_bytes ps)) (length dst) =
        min (length done + length (parts_bytes (p # ps))) (length dst)"
      using n(2) by auto
    moreover have "write_until_full (done @ drop (length done) dst) (length done) (p # ps) =
        write_until_full (d @ drop n dst) n ps"
      using n(1) l by (simp add: d_def del: take_append)
    ultimately show ?thesis by (simp add: Let_def del: take_append)
  qed
qed (simp add: Let_def)

lemma write_all_exact:
  assumes "length dst = length done + length (parts_bytes ps)"
  shows "write_all (done @ drop (length done) dst) (length done) ps =
           Some (done @ parts_bytes ps, length dst)"
  using assms
proof (induction ps arbitrary: "done")
  case (Cons p ps)
  show ?case
  proof (cases "length done < length dst")
    case True
    obtain n where n: "write_part (done @ drop (length done) dst) (length done) p =
               Some (take n (done @ part_bytes p) @ drop n dst, n)"
        "n = min (length done + length (part_bytes p)) (length dst)"
      using write_part_prefix [OF True, of p] by auto
    then have "n = length (done @ part_bytes p)" using Cons.prems by simp
    with n(1) Cons.IH [of "done @ part_bytes p"] Cons.prems show ?thesis by simp
  next
    case False
    with Cons.prems have z: "part_bytes p = []" "parts_bytes ps = []" "length dst = length done" by auto
    then obtain src where "p = Chunk src" "src = []" by (cases p) auto
    with Cons.IH [of "done"] z show ?thesis by (simp add: copy_at_def Let_def)
  qed
qed simp

lemma serialize_eq [simp]: "serialize m = Some (metric_string m)"
  using write_all_exact [of "replicate (metric_len m) nulchar" "[]" "metric_parts m"]
  by (simp add: serialize_def metric_parts_bytes)

lemma serialize_to_eq:
  "serialize_to m dst =
     (let n = min (metric_len m) (length dst)
      in Some (take n (metric_string m) @ drop n dst, n))"
  using write_until_full_prefix [of "[]" dst "metric_parts m"]
  by (simp add: serialize_to_def metric_parts_bytes)

end
