(* ===== verification/Metric_Ops.thy ===== *)
theory Metric_Ops
  imports Metric_Data
begin

text \<open>
  The operations of a metric (\<open>report/metric/metric.go\<close>): construction, splitting, the maps of tags and
  fields, the edits of name, tags and fields, and the cached hash.
\<close>

subsection \<open>Field values\<close>

text \<open>
  The dynamic types \<open>appendField\<close> distinguishes.  \<open>GOther s\<close> is a value of any other type, \<open>s\<close> what
  \<open>fmt.Sprintf("%v", v)\<close> makes of it.  \<open>'f\<close> is the type of floating point numbers, and \<open>fmt bits v\<close> is
  \<open>strconv.AppendFloat(nil, v, 'f', -1, bits)\<close>.
\<close>

datatype 'f gval =
  GNil
| GFloat64 'f
| GInt64 "64 word"
| GString bytes
| GBool bool
| GInt32 "32 word"
| GInt16 "16 word"
| GInt8 "8 word"
| GInt "64 word"
| GUint64 "64 word"
| GUint32 "32 word"
| GUint16 "16 word"
| GUint8 "8 word"
| GUint "64 word"
| GFloat32 'f
| GBytes bytes
| GOther bytes

definition max_int :: nat where
  "max_int = 2 ^ 63 - 1"

definition cap_uint :: "64 word \<Rightarrow> int" where
  "cap_uint v = (if unat v \<le> max_int then sint v else int max_int)"

definition quoted :: "bytes \<Rightarrow> bytes" where
  "quoted s = [dquote] @ escape s ''fieldval'' @ [dquote]"

fun field_value_bytes :: "(nat \<Rightarrow> 'f \<Rightarrow> bytes) \<Rightarrow> 'f gval \<Rightarrow> bytes" where
  "field_value_bytes fmt GNil = []"
| "field_value_bytes fmt (GFloat64 v) = fmt 64 v"
| "field_value_bytes fmt (GInt64 v) = int_str (sint v) @ ''i''"
| "field_value_bytes fmt (GString v) = quoted v"
| "field_value_bytes fmt (GBool v) = (if v then ''true'' else ''false'')"
| "field_value_bytes fmt (GInt32 v) = int_str (sint v) @ ''i''"
| "field_value_bytes fmt (GInt16 v) = int_str (sint v) @ ''i''"
| "field_value_bytes fmt (GInt8 v) = int_str (sint v) @ ''i''"
| "field_value_bytes fmt (GInt v) = int_str (sint v) @ ''i''"
| "field_value_bytes fmt (GUint64 v) = int_str (cap_uint v) @ ''i''"
| "field_value_bytes fmt (GUint32 v) = int_str (uint v) @ ''i''"
| "field_value_bytes fmt (GUint16 v) = int_str (uint v) @ ''i''"
| "field_value_bytes fmt (GUint8 v) = int_str (uint v) @ ''i''"
| "field_value_bytes fmt (GUint v) = int_str (cap_uint v) @ ''i''"
| "field_value_bytes fmt (GFloat32 v) = fmt 32 v"
| "field_value_bytes fmt (GBytes v) = v"
| "field_value_bytes fmt (GOther s) = quoted s"

definition append_field :: "(nat \<Rightarrow> 'f \<Rightarrow> bytes) \<Rightarrow> bytes \<Rightarrow> bytes \<Rightarrow> 'f gval \<Rightarrow> bytes" where
  "append_field fmt b k v =
     (case v of GNil \<Rightarrow> b | _ \<Rightarrow> b @ escape k ''tagkey'' @ ''='' @ field_value_bytes fmt v)"

subsection \<open>New\<close>

text \<open>The tag buffer is allocated with its exact length first and then filled.\<close>

definition tag_skip :: "bytes \<times> bytes \<Rightarrow> bool" where
  "tag_skip kv \<longleftrightarrow> length (fst kv) = 0 \<or> length (snd kv) = 0"

fun tag_length :: "(bytes \<times> bytes) list \<Rightarrow> nat" where
  "tag_length [] = 0"
| "tag_length (kv # kvs) =
     (if tag_skip kv then tag_length kvs
      else 2 + length (escape (fst kv) ''tagkey'') + length (escape (snd kv) ''tagval'') + tag_length kvs)"

fun fill_tags :: "bytes \<Rightarrow> nat \<Rightarrow> (bytes \<times> bytes) list \<Rightarrow> bytes go" where
  "fill_tags tags i [] = Some tags"
| "fill_tags tags i (kv # kvs) =
     (if tag_skip kv then fill_tags tags i kvs
      else do {
        tags \<leftarrow> set_byte tags i CHR '','';
        let i = i + 1;
        (tags, n) \<leftarrow> copy_at tags i (escape (fst kv) ''tagkey'');
        let i = i + n;
        tags \<leftarrow> set_byte tags i CHR ''='';
        let i = i + 1;
        (tags, n) \<leftarrow> copy_at tags i (escape (snd kv) ''tagval'');
        let i = i + n;
        fill_tags tags i kvs
      })"

fun fill_fields :: "(nat \<Rightarrow> 'f \<Rightarrow> bytes) \<Rightarrow> bytes \<Rightarrow> nat \<Rightarrow> (bytes \<times> 'f gval) list \<Rightarrow> bytes" where
  "fill_fields fmt b i [] = b"
| "fill_fields fmt b i ((k, v) # kvs) =
     fill_fields fmt (append_field fmt (if i \<noteq> 0 then b @ '','' else b) k v) (Suc i) kvs"

datatype new_error = NoFields | EmptyName

text \<open>
  The maps of tags and fields are given by the orders in which Go visits them: the tags are visited
  twice, \<open>tags1\<close> for the length and \<open>tags2\<close> for the bytes.
\<close>

definition new_metric ::
  "(nat \<Rightarrow> 'f \<Rightarrow> bytes) \<Rightarrow> bytes \<Rightarrow> (bytes \<times> bytes) list \<Rightarrow> (bytes \<times> bytes) list \<Rightarrow>
   (bytes \<times> 'f gval) list \<Rightarrow> int \<Rightarrow> value_type option \<Rightarrow> (new_error + metric) go" where
  "new_metric fmt name tags1 tags2 flds nano ty =
     (if flds = [] then Some (Inl NoFields)
      else if name = [] then Some (Inl EmptyName)
      else do {
        tags \<leftarrow> fill_tags (replicate (tag_length tags1) nulchar) 0 tags2;
        Some (Inr
          \<lparr>m_name = escape name ''name'', m_tags = tags, m_fields = fill_fields fmt [] 0 flds,
           m_t = int_str nano, m_type = (case ty of Some y \<Rightarrow> y | None \<Rightarrow> Untyped),
           m_aggregate = False, m_hashID = 0, m_nsec = nano\<rparr>)
      })"

text \<open>What the tag buffer holds: \<open>,key=value\<close> for each tag that is kept.\<close>

definition tag_bytes :: "bytes \<times> bytes \<Rightarrow> bytes" where
  "tag_bytes kv = CHR '','' # esc key_specials (fst kv) @ CHR ''='' # esc key_specials (snd kv)"

definition tags_bytes :: "(bytes \<times> bytes) list \<Rightarrow> bytes" where
  "tags_bytes kvs = concat (map tag_bytes (filter (\<lambda>kv. \<not> tag_skip kv) kvs))"

lemma tags_bytes_simps [simp]:
  "tags_bytes [] = []"
  "tags_bytes (kv # kvs) = (if tag_skip kv then tags_bytes kvs else tag_bytes kv @ tags_bytes kvs)"
  by (simp_all add: tags_bytes_def)

lemma tag_length_eq: "tag_length kvs = length (tags_bytes kvs)"
  by (induction kvs) (auto simp: tag_bytes_def)

lemma tag_length_perm:
  assumes "distinct xs" "distinct ys" "set xs = set ys"
  shows "tag_length xs = tag_length ys"
proof -
  let ?f = "\<lambda>kv. if tag_skip kv then 0 else length (tag_bytes kv)"
  have "tag_length zs = sum_list (map ?f zs)" for zs
    by (induction zs) (auto simp: tag_bytes_def)
  with assms show ?thesis by (simp add: sum_list_perm)
qed

lemma set_byte_after:
  "length d < length dst \<Longrightarrow>
   set_byte (d @ drop (length d) dst) (length d) c = Some ((d @ [c]) @ drop (length (d @ [c])) dst)"
  by (simp add: set_byte_def list_update_append Cons_nth_drop_Suc [symmetric])

lemma copy_at_after:
  "length d + length src \<le> length dst \<Longrightarrow>
   copy_at (d @ drop (length d) dst) (length d) src =
     Some ((d @ src) @ drop (length (d @ src)) dst, length src)"
  by (simp add: copy_at_def Let_def add.commute)

lemma fill_tags_exact:
  "length d + length (tags_bytes kvs) = length dst \<Longrightarrow>
   fill_tags (d @ drop (length d) dst) (length d) kvs = Some (d @ tags_bytes kvs)"
proof (induction kvs arbitrary: d)
  case (Cons kv kvs)
  show ?case
  proof (cases "tag_skip kv")
    case True
    with Cons show ?thesis by simp
  next
    case False
    let ?k = "esc key_specials (fst kv)" and ?v = "esc key_specials (snd kv)"
    let ?d1 = "d @ '',''" let ?d2 = "?d1 @ ?k" let ?d3 = "?d2 @ ''=''" let ?d4 = "?d3 @ ?v"
    from Cons.prems False
    have len: "length ?d4 + length (tags_bytes kvs) = length dst" by (simp add: tag_bytes_def)
    have 1: "set_byte (d @ drop (length d) dst) (length d) CHR '','' =
        Some (?d1 @ drop (length ?d1) dst)"
      using len by (intro set_byte_after) simp
    have 2: "copy_at (?d1 @ drop (length ?d1) dst) (length ?d1) ?k =
        Some (?d2 @ drop (length ?d2) dst, length ?k)"
      using len by (intro copy_at_after) simp
    have 3: "set_byte (?d2 @ drop (length ?d2) dst) (length ?d2) CHR ''='' =
        Some (?d3 @ drop (length ?d3) dst)"
      using len by (intro set_byte_after) simp
    have 4: "copy_at (?d3 @ drop (length ?d3) dst) (length ?d3) ?v =
        Some (?d4 @ drop (length ?d4) dst, length ?v)"
      using len by (intro copy_at_after) simp
    from Cons.IH [OF len] 1 2 3 4 False show ?thesis
      by (simp add: tag_bytes_def add.assoc)
  qed
qed simp

lemma fill_tags_eq:
  assumes "distinct tags1" "distinct tags2" "set tags1 = set tags2"
  shows "fill_tags (replicate (tag_length tags1) nulchar) 0 tags2 = Some (tags_bytes tags2)"
  using fill_tags_exact [of "[]" tags2 "replicate (tag_length tags1) nulchar"]
    tag_length_perm [OF assms] by (simp add: tag_length_eq)

text \<open>What the field buffer holds when no value is nil.\<close>

definition field_bytes :: "(nat \<Rightarrow> 'f \<Rightarrow> bytes) \<Rightarrow> bytes \<times> 'f gval \<Rightarrow> bytes" where
  "field_bytes fmt kv = esc key_specials (fst kv) @ CHR ''='' # field_value_bytes fmt (snd kv)"

lemma append_field_eq: "v \<noteq> GNil \<Longrightarrow> append_field fmt b k v = b @ field_bytes fmt (k, v)"
  by (cases v) (simp_all add: append_field_def field_bytes_def)

lemma fill_fields_eq_aux:
  "0 < i \<Longrightarrow> \<forall>kv \<in> set kvs. snd kv \<noteq> GNil \<Longrightarrow>
   fill_fields fmt b i kvs = b @ concat (map (\<lambda>kv. CHR '','' # field_bytes fmt kv) kvs)"
  by (induction kvs arbitrary: b i) (auto simp: append_field_eq)

lemma join_comma: "join '','' (x # xs) = x @ concat (map (\<lambda>y. CHR '','' # y) xs)"
  by (induction xs arbitrary: x) auto

lemma fill_fields_eq:
  "\<forall>kv \<in> set kvs. snd kv \<noteq> GNil \<Longrightarrow> fill_fields fmt [] 0 kvs = join '','' (map (field_bytes fmt) kvs)"
  by (cases kvs) (auto simp: fill_fields_eq_aux append_field_eq join_comma comp_def)

lemma new_metric_eq:
  assumes "flds \<noteq> []" "name \<noteq> []" "distinct tags1" "distinct tags2" "set tags1 = set tags2"
    and "\<forall>kv \<in> set flds. snd kv \<noteq> GNil"
  shows "new_metric fmt name tags1 tags2 flds nano ty = Some (Inr
          \<lparr>m_name = esc name_specials name, m_tags = tags_bytes tags2,
           m_fields = join '','' (map (field_bytes fmt) flds),
           m_t = int_str nano, m_type = (case ty of Some y \<Rightarrow> y | None \<Rightarrow> Untyped),
           m_aggregate = False, m_hashID = 0, m_nsec = nano\<rparr>)"
  using assms by (simp add: new_metric_def fill_tags_eq fill_fields_eq)

subsection \<open>Split\<close>

text \<open>The end of the field that starts at \<open>i\<close>.\<close>

definition field_end :: "bytes \<Rightarrow> nat \<Rightarrow> nat" where
  "field_end fs i =
     (case index_unescaped_byte (drop i fs) CHR '','' of None \<Rightarrow> length fs | Some j \<Rightarrow> j + i)"

lemma field_end_bounds: "i < length fs \<Longrightarrow> i \<le> field_end fs i \<and> field_end fs i \<le> length fs"
  by (auto simp: field_end_def dest: index_unescaped_byte_bounds split: option.splits)

function split_loop :: "metric \<Rightarrow> int \<Rightarrow> nat \<Rightarrow> bytes \<Rightarrow> nat \<Rightarrow> metric list go" where
  "split_loop m max_size constant flds i =
     (let flush = (if flds \<noteq> [] then [copy_with (m_name m) (m_tags m) flds (m_t m)] else []) in
      if i \<ge> length (m_fields m) then Some flush
      else do {
        let j = field_end (m_fields m) i;
        fld \<leftarrow> bslice (m_fields m) i j;
        let full = int (length fld + length flds + constant) \<ge> max_size;
        let out = (if full then flush else []);
        let flds1 = (if full then [] else flds);
        let flds2 = (if flds1 \<noteq> [] then flds1 @ '','' else flds1);
        rest \<leftarrow> split_loop m max_size constant (flds2 @ fld) (j + 1);
        Some (out @ rest)
      })"
  by pat_completeness auto
termination
  by (relation "measure (\<lambda>(m, max_size, constant, flds, i). length (m_fields m) - i)")
    (auto dest: field_end_bounds simp: bslice_eq_Some)

declare split_loop.simps [simp del]

text \<open>\<open>make([]byte, 0, maxSize)\<close> panics for a negative size.\<close>

definition metric_split :: "metric \<Rightarrow> int \<Rightarrow> metric list go" where
  "metric_split m max_size =
     (if int (metric_len m) \<le> max_size then Some [m]
      else if max_size < 0 then None
      else split_loop m max_size (length (m_name m) + length (m_tags m) + length (m_t m) + 3) [] 0)"

text \<open>The reference: the fields are grouped greedily, a group per metric.\<close>

function field_pieces :: "bytes \<Rightarrow> nat \<Rightarrow> bytes list" where
  "field_pieces fs i =
     (if i \<ge> length fs then []
      else take (field_end fs i - i) (drop i fs) # field_pieces fs (Suc (field_end fs i)))"
  by pat_completeness auto
termination
  by (relation "measure (\<lambda>(fs, i). length fs - i)")
    (auto simp: not_le dest: field_end_bounds intro!: diff_less_mono2)

declare field_pieces.simps [simp del]

fun field_groups :: "int \<Rightarrow> nat \<Rightarrow> bytes \<Rightarrow> bytes list \<Rightarrow> bytes list" where
  "field_groups n c acc [] = (if acc \<noteq> [] then [acc] else [])"
| "field_groups n c acc (p # ps) =
     (if int (length p + length acc + c) \<ge> n
      then (if acc \<noteq> [] then [acc] else []) @ field_groups n c p ps
      else field_groups n c (if acc \<noteq> [] then acc @ '','' @ p else p) ps)"

lemma split_loop_groups:
  "split_loop m n c acc i =
     Some (map (\<lambda>f. copy_with (m_name m) (m_tags m) f (m_t m))
             (field_groups n c acc (field_pieces (m_fields m) i)))"
proof (induction "length (m_fields m) - i" arbitrary: acc i rule: less_induct)
  case less
  show ?case
  proof (cases "i < length (m_fields m)")
    case False
    then show ?thesis
      by (subst split_loop.simps, subst field_pieces.simps) simp
  next
    case True
    let ?j = "field_end (m_fields m) i"
    have j: "i \<le> ?j" "?j \<le> length (m_fields m)" using field_end_bounds [OF True] by auto
    have "length (m_fields m) - Suc ?j < length (m_fields m) - i" using True j by linarith
    note IH = less [OF this]
    show ?thesis
      by (subst split_loop.simps, subst field_pieces.simps) (use True j IH in \<open>simp add: Let_def\<close>)
  qed
qed

lemma metric_split_groups:
  "0 \<le> n \<Longrightarrow>
   metric_split m n = Some
     (if int (metric_len m) \<le> n then [m]
      else map (\<lambda>f. copy_with (m_name m) (m_tags m) f (m_t m))
             (field_groups n (length (m_name m) + length (m_tags m) + length (m_t m) + 3) []
               (field_pieces (m_fields m) 0)))"
  by (simp add: metric_split_def split_loop_groups)

lemma join_field_groups:
  "[] \<notin> set ps \<Longrightarrow>
   join '','' (field_groups n c acc ps) = join '','' ((if acc \<noteq> [] then [acc] else []) @ ps)"
proof (induction n c acc ps rule: field_groups.induct)
  case (2 n c acc p ps)
  have eq: "join '','' ((acc @ '','' @ p) # ps) = join '','' (acc # p # ps)" by (cases ps) auto
  have ne: "field_groups n c p ps \<noteq> []" if "p \<noteq> []" for p :: bytes
    using that
  proof (induction ps arbitrary: p)
    case (Cons q ps)
    then show ?case by simp
  qed simp
  from 2 ne [of p] eq show ?case by (auto simp: join_Cons)
qed auto

lemma field_groups_bound:
  assumes "g \<in> set (field_groups n c acc ps)"
    and "acc = [] \<or> acc \<in> P \<or> int (length acc + c) \<le> n" and "set ps \<subseteq> P"
  shows "g \<in> P \<or> int (length g + c) \<le> n"
  using assms
proof (induction n c acc ps rule: field_groups.induct)
  case (1 n c acc)
  then show ?case by (auto split: if_splits)
next
  case (2 n c acc p ps)
  show ?case
  proof (cases "int (length p + length acc + c) \<ge> n")
    case True
    with 2 show ?thesis by (auto split: if_splits)
  next
    case False
    moreover have "(if acc \<noteq> [] then acc @ '','' @ p else p) = [] \<or>
        (if acc \<noteq> [] then acc @ '','' @ p else p) \<in> P \<or>
        int (length (if acc \<noteq> [] then acc @ '','' @ p else p) + c) \<le> n"
      using False 2(5) by auto
    ultimately show ?thesis using 2 by auto
  qed
qed

lemma join_field_pieces:
  "i < length fs \<Longrightarrow> last fs \<noteq> CHR '','' \<Longrightarrow> join '','' (field_pieces fs i) = drop i fs"
proof (induction "length fs - i" arbitrary: i rule: less_induct)
  case less
  let ?j = "field_end fs i"
  have j: "i \<le> ?j" "?j \<le> length fs" using field_end_bounds less.prems by auto
  show ?case
  proof (cases "?j = length fs")
    case True
    then show ?thesis using less.prems
      by (subst field_pieces.simps, subst field_pieces.simps) simp
  next
    case False
    then obtain k where k: "index_unescaped_byte (drop i fs) CHR '','' = Some k" "?j = k + i"
      by (auto simp: field_end_def split: option.splits)
    then have c: "?j < length fs" "fs ! ?j = CHR '',''"
      using False j index_unescaped_byte_bounds [OF k(1)] less.prems by (auto simp: add.commute)
    then have "Suc ?j < length fs"
      using less.prems by (metis Suc_lessI diff_Suc_1 last_conv_nth length_0_conv not_less_zero)
    moreover from this have "join '','' (field_pieces fs (Suc ?j)) = drop (Suc ?j) fs"
      using less.prems j by (intro less(1)) auto
    moreover have "drop i fs = take (?j - i) (drop i fs) @ fs ! ?j # drop (Suc ?j) fs"
      using c(1) j by (metis Cons_nth_drop_Suc append_take_drop_id drop_drop le_add_diff_inverse2)
    moreover have "field_pieces fs (Suc ?j) \<noteq> []"
      using \<open>Suc ?j < length fs\<close> by (subst field_pieces.simps) simp
    ultimately show ?thesis
      using less.prems c by (subst field_pieces.simps) (simp add: join_Cons)
  qed
qed

subsection \<open>Fields and Tags\<close>

datatype 'f fval = FVString bytes | FVInt int | FVFloat 'f | FVBool bool

text \<open>The value a field \<open>rest = key=value...\<close> is read as: the key ends at \<open>i1\<close>, the value runs from \<open>i2\<close> to \<open>i3\<close>.\<close>

definition field_value ::
  "(bytes \<Rightarrow> 'f option) \<Rightarrow> bytes \<Rightarrow> nat \<Rightarrow> nat \<Rightarrow> 'f fval option go" where
  "field_value pf rest i2 i3 = do {
     c \<leftarrow> byte_at rest i2;
     if c = dquote then do {
       v \<leftarrow> (if i3 = 0 then None else bslice rest (i2 + 1) (i3 - 1));
       Some (Some (FVString (unescape v ''fieldval'')))
     }
     else if c = CHR ''-'' \<or> is_digit c then do {
       l \<leftarrow> (if i3 = 0 then None else byte_at rest (i3 - 1));
       if l = CHR ''i'' then do {
         v \<leftarrow> bslice rest i2 (i3 - 1);
         Some (case parse_int64 v of (n, None) \<Rightarrow> Some (FVInt n) | (n, Some e) \<Rightarrow> None)
       }
       else do {
         v \<leftarrow> bslice rest i2 i3;
         Some (map_option FVFloat (pf v))
       }
     }
     else if c = CHR ''T'' \<or> c = CHR ''t'' then Some (Some (FVBool True))
     else if c = CHR ''F'' \<or> c = CHR ''f'' then Some (Some (FVBool False))
     else Some None
   }"

definition field_value_end :: "bytes \<Rightarrow> nat \<Rightarrow> nat go" where
  "field_value_end rest i2 = do {
     c \<leftarrow> byte_at rest i2;
     if c = dquote
     then Some ((case index_unescaped_byte (drop (i2 + 1) rest) dquote of
                   None \<Rightarrow> length rest | Some j \<Rightarrow> j) + i2 + 2)
     else Some (case index_unescaped_byte rest CHR '','' of None \<Rightarrow> length rest | Some j \<Rightarrow> j)
   }"

function fields_loop ::
  "(bytes \<Rightarrow> 'f option) \<Rightarrow> bytes \<Rightarrow> nat \<Rightarrow> (bytes \<rightharpoonup> 'f fval) \<Rightarrow> (bytes \<rightharpoonup> 'f fval) go" where
  "fields_loop pf fs i m =
     (if i \<ge> length fs then Some m
      else let rest = drop i fs in
      case index_unescaped_byte rest CHR ''='' of
        None \<Rightarrow> Some m
      | Some i1 \<Rightarrow> do {
          let i2 = i1 + 1;
          i3 \<leftarrow> field_value_end rest i2;
          v \<leftarrow> field_value pf rest i2 i3;
          let m' = (case v of None \<Rightarrow> m | Some x \<Rightarrow> m(unescape (take i1 rest) ''fieldkey'' \<mapsto> x));
          fields_loop pf fs (i + i3 + 1) m'
        })"
  by pat_completeness auto
termination by (relation "measure (\<lambda>(pf, fs, i, m). length fs - i)") auto

declare fields_loop.simps [simp del]

definition metric_fields :: "(bytes \<Rightarrow> 'f option) \<Rightarrow> metric \<Rightarrow> (bytes \<rightharpoonup> 'f fval) go" where
  "metric_fields pf m = fields_loop pf (m_fields m) 0 Map.empty"

function tags_loop :: "bytes \<Rightarrow> nat \<Rightarrow> (bytes \<rightharpoonup> bytes) \<Rightarrow> (bytes \<rightharpoonup> bytes) go" where
  "tags_loop ts i m =
     (let rest = drop i ts in
      case index_unescaped_byte rest CHR '','' of
        None \<Rightarrow> Some m
      | Some c \<Rightarrow>
          (let i0 = c + 1 in
           case index_unescaped_byte rest CHR ''='' of
             None \<Rightarrow> None
           | Some i1 \<Rightarrow>
               (let i2 = i1 + 1 in
                case index_unescaped_byte (drop (i + i2) ts) CHR '','' of
                  None \<Rightarrow> do {
                    k \<leftarrow> bslice rest i0 i1;
                    Some (m(unescape k ''tagkey'' \<mapsto> unescape (drop i2 rest) ''tagval''))
                  }
                | Some i3 \<Rightarrow> do {
                    k \<leftarrow> bslice rest i0 i1;
                    v \<leftarrow> bslice rest i2 (i2 + i3);
                    tags_loop ts (i + (i2 + i3)) (m(unescape k ''tagkey'' \<mapsto> unescape v ''tagval''))
                  })))"
  by pat_completeness auto
termination
  by (relation "measure (\<lambda>(ts, i, m). length ts - i)")
    (auto dest!: index_unescaped_byte_bounds)

declare tags_loop.simps [simp del]

definition metric_tags :: "metric \<Rightarrow> (bytes \<rightharpoonup> bytes) go" where
  "metric_tags m =
     (if length (m_tags m) = 0 then Some Map.empty else tags_loop (m_tags m) 0 Map.empty)"

definition metric_name :: "metric \<Rightarrow> bytes" where
  "metric_name m = unescape (m_name m) ''name''"

text \<open>\<open>Time\<close> and \<open>UnixNano\<close> cache the parsed timestamp; a parse error leaves the value \<open>ParseInt\<close> returned.\<close>

definition unix_nano :: "metric \<Rightarrow> metric \<times> int" where
  "unix_nano m =
     (let m' = (if m_nsec m = 0 then m\<lparr>m_nsec := fst (parse_int64 (m_t m))\<rparr> else m) in (m', m_nsec m'))"

subsection \<open>Edits\<close>

definition set_name :: "metric \<Rightarrow> bytes \<Rightarrow> metric" where
  "set_name m name = m\<lparr>m_hashID := 0, m_name := replace_all name_escaper name\<rparr>"

definition set_prefix :: "metric \<Rightarrow> bytes \<Rightarrow> metric" where
  "set_prefix m prefix = m\<lparr>m_hashID := 0, m_name := replace_all name_escaper prefix @ m_name m\<rparr>"

definition set_suffix :: "metric \<Rightarrow> bytes \<Rightarrow> metric" where
  "set_suffix m suffix = m\<lparr>m_hashID := 0, m_name := m_name m @ replace_all name_escaper suffix\<rparr>"

definition has_tag :: "metric \<Rightarrow> bytes \<Rightarrow> bool" where
  "has_tag m key = (index_sub (m_tags m) (escape key ''tagkey'' @ ''='') \<noteq> None)"

definition remove_tag :: "metric \<Rightarrow> bytes \<Rightarrow> metric go" where
  "remove_tag m key =
     (let m0 = m\<lparr>m_hashID := 0\<rparr> in
      case index_sub (m_tags m) (escape key ''tagkey'' @ ''='') of
        None \<Rightarrow> Some m0
      | Some i \<Rightarrow> do {
          tmp \<leftarrow> (if i = 0 then None else bslice (m_tags m) 0 (i - 1));
          let tail = (case index_unescaped_byte (drop i (m_tags m)) CHR '','' of
                        None \<Rightarrow> [] | Some j \<Rightarrow> drop (i + j) (m_tags m));
          Some (m0\<lparr>m_tags := tmp @ tail\<rparr>)
        })"

definition add_tag :: "metric \<Rightarrow> bytes \<Rightarrow> bytes \<Rightarrow> metric go" where
  "add_tag m key value = do {
     m1 \<leftarrow> remove_tag m key;
     Some (m1\<lparr>m_tags := m_tags m1 @ '','' @ escape key ''tagkey'' @ ''='' @ escape value ''tagval''\<rparr>)
   }"

definition add_field :: "(nat \<Rightarrow> 'f \<Rightarrow> bytes) \<Rightarrow> metric \<Rightarrow> bytes \<Rightarrow> 'f gval \<Rightarrow> metric" where
  "add_field fmt m key value = m\<lparr>m_fields := append_field fmt (m_fields m @ '','') key value\<rparr>"

definition has_field :: "metric \<Rightarrow> bytes \<Rightarrow> bool" where
  "has_field m key = (index_sub (m_fields m) (escape key ''tagkey'' @ ''='') \<noteq> None)"

text \<open>The new metric and whether the call failed because no field would be left.\<close>

definition remove_field :: "metric \<Rightarrow> bytes \<Rightarrow> metric \<times> bool" where
  "remove_field m key =
     (case index_sub (m_fields m) (escape key ''tagkey'' @ ''='') of
        None \<Rightarrow> (m, False)
      | Some i \<Rightarrow>
          (let tmp = (if i \<noteq> 0 then take (i - 1) (m_fields m) else []);
               tmp = tmp @ (case index_unescaped_byte (drop i (m_fields m)) CHR '','' of
                              None \<Rightarrow> [] | Some j \<Rightarrow> drop (i + j) (m_fields m))
           in if tmp = [] then (m, True) else (m\<lparr>m_fields := tmp\<rparr>, False)))"

subsection \<open>The hash\<close>

text \<open>\<open>hash/fnv\<close>'s 64-bit FNV-1a.\<close>

definition fnv1a :: "64 word \<Rightarrow> bytes \<Rightarrow> 64 word" where
  "fnv1a h s = foldl (\<lambda>h c. (Bit_Operations.xor h (word_of_nat (of_char c))) * 1099511628211) h s"

definition tag_hash_words :: "(bytes \<rightharpoonup> bytes) \<Rightarrow> bytes list \<Rightarrow> bytes list" where
  "tag_hash_words tags ks = sort (map (\<lambda>k. k @ map_get [] tags k) ks)"

definition fresh_hash :: "metric \<Rightarrow> (bytes \<rightharpoonup> bytes) \<Rightarrow> bytes list \<Rightarrow> 64 word" where
  "fresh_hash m tags ks =
     foldl fnv1a (fnv1a 14695981039346656037 (m_name m)) (tag_hash_words tags ks)"

text \<open>\<open>ks\<close> is the order in which Go visits the map of tags.\<close>

definition hash_id :: "metric \<Rightarrow> bytes list \<Rightarrow> (metric \<times> 64 word) go" where
  "hash_id m ks =
     (if m_hashID m = 0 then do {
        tags \<leftarrow> metric_tags m;
        let h = fresh_hash m tags ks;
        Some (m\<lparr>m_hashID := h\<rparr>, h)
      }
      else Some (m, m_hashID m))"

end
