(* ===== verification/Metric_Parse.thy ===== *)
theory Metric_Parse
  imports Metric_Scan Metric_Ops
begin

text \<open>
  Parsing of points (\<open>parseMetric\<close> and \<open>ParseWithDefaultTimePrecision\<close> in \<open>report/metric/parse.go\<close>): what
  every accepted line looks like, that no input makes the parser panic, and that a metric built by
  \<open>New\<close> comes back from its serialized form.
\<close>

subsection \<open>The parser\<close>

definition max_key_length :: nat where
  "max_key_length = 65535"

text \<open>Nanoseconds per unit of the precision.\<close>

definition precision_multiplier :: "string \<Rightarrow> int" where
  "precision_multiplier p =
     (if p = ''u'' then 1000 else if p = ''ms'' then 1000000 else if p = ''s'' then 1000000000
      else if p = ''m'' then 60 * 1000000000 else if p = ''h'' then 3600 * 1000000000 else 1)"

text \<open>The result of \<open>parseMetric\<close>: a panic, an error, or a metric.\<close>

definition parse_metric :: "bytes \<Rightarrow> int \<Rightarrow> string \<Rightarrow> (perr + metric) go" where
  "parse_metric buf default_time precision = do {
     k \<leftarrow> scan_key buf 0;
     case k of Inl (_, e) \<Rightarrow> Some (Inl e) | Inr (pos, key) \<Rightarrow>
     if length key = 0 then Some (Inl MissingMeasurement)
     else if length key > max_key_length then Some (Inl (MaxKeyLengthExceeded (length key)))
     else do {
       f \<leftarrow> scan_fields buf pos;
       case f of Inl (_, e) \<Rightarrow> Some (Inl e) | Inr (pos, flds) \<Rightarrow>
       if length flds = 0 then Some (Inl MissingFields)
       else do {
         t \<leftarrow> scan_time buf pos;
         case t of Inl (_, e) \<Rightarrow> Some (Inl e) | Inr (pos, ts) \<Rightarrow>
         let multiplier = precision_multiplier precision in
         case (if length ts > 0 \<and> multiplier > 1
               then (case parse_int64 ts of
                       (tsint, None) \<Rightarrow> Inr (int_str (wrap64 (multiplier * tsint)))
                     | (_, Some e) \<Rightarrow> Inl (TimestampError e))
               else Inr ts) of
           Inl e \<Rightarrow> Some (Inl e)
         | Inr ts \<Rightarrow>
             let (name, tags) =
                   (case index_unescaped_byte key CHR '','' of
                      None \<Rightarrow> (key, [])
                    | Some namei \<Rightarrow> if namei < 1 then (key, []) else (take namei key, drop namei key));
                 t = (if length ts = 0 then int_str default_time else ts)
             in Some (Inr (metric_copy (copy_with name tags flds t)))
       }
     }
   }"

text \<open>The loop over the lines: the metrics and the errors, in order.\<close>

function parse_lines :: "bytes \<Rightarrow> int \<Rightarrow> string \<Rightarrow> nat \<Rightarrow> (metric list \<times> perr list) go" where
  "parse_lines buf t precision i =
     (case index_byte (drop i buf) newline of
        None \<Rightarrow> Some ([], [])
      | Some j \<Rightarrow>
          (let line = take j (drop i buf) in
           if length line < 2 then parse_lines buf t precision (i + j + 1)
           else do {
             r \<leftarrow> parse_metric line t precision;
             (ms, es) \<leftarrow> parse_lines buf t precision (i + j + 1);
             Some (case r of Inl e \<Rightarrow> (ms, e # es) | Inr m \<Rightarrow> (m # ms, es))
           }))"
  by pat_completeness auto
termination
  by (relation "measure (\<lambda>(buf, t, p, i). length buf - i)") (auto simp: index_byte_Some)

declare parse_lines.simps [simp del]

text \<open>An error is returned when the list of errors is not empty.\<close>

definition parse_points :: "bytes \<Rightarrow> int \<Rightarrow> string \<Rightarrow> (metric list \<times> perr list) go" where
  "parse_points buf t precision =
     (if length buf = 0 then Some ([], [])
      else if length buf \<le> 6 then Some ([], [MakeError ''buffer too short'' buf 0])
      else parse_lines buf t precision 0)"

subsection \<open>Every accepted line is well formed, and nothing panics\<close>

definition wf_metric :: "metric \<Rightarrow> bool" where
  "wf_metric m \<longleftrightarrow>
     m_name m \<noteq> [] \<and> m_fields m \<noteq> [] \<and> m_t m \<noteq> []
     \<and> length (m_name m) + length (m_tags m) \<le> max_key_length
     \<and> (m_tags m = [] \<or> hd (m_tags m) = CHR '','') \<and> timestamp_shape (m_t m)"

lemma timestamp_shape_int_str: "timestamp_shape (int_str i)"
proof -
  have "timestamp_shape (nat_str n)" for n
    using nat_str_digits [of _ n] digit_not_sign [of "hd (nat_str n)"]
    by (auto simp: timestamp_shape_def)
  moreover have "timestamp_shape (CHR ''-'' # nat_str n)" for n
    using nat_str_digits [of _ n] by (auto simp: timestamp_shape_def)
  ultimately show ?thesis by (simp add: int_str_def)
qed

lemma int_str_not_Nil [simp]: "int_str i \<noteq> []"
  by (simp add: int_str_def)

lemma parse_metric_wf:
  "case parse_metric buf t p of None \<Rightarrow> False | Some (Inl e) \<Rightarrow> True | Some (Inr m) \<Rightarrow> wf_metric m"
proof -
  from scan_key_safe [of 0 buf]
  consider (kerr) j e where "scan_key buf 0 = Some (Inl (j, e))"
    | (kok) pos key where "scan_key buf 0 = Some (Inr (pos, key))"
        "skip_whitespace buf 0 < pos" "pos < length buf" "buf ! pos = CHR '' ''"
        "key = take (pos - skip_whitespace buf 0) (drop (skip_whitespace buf 0) buf)"
    by (auto simp: scan_safe_def Let_def split: option.splits sum.splits)
  then show ?thesis
  proof cases
    case kerr
    then show ?thesis by (simp add: parse_metric_def)
  next
    case kok
    then have key: "key \<noteq> []" by auto
    have skip: "skip_whitespace buf pos = skip_whitespace buf (Suc pos)"
      using kok by (subst skip_whitespace.simps) (simp add: is_space_def)
    have two: "2 \<le> skip_whitespace buf pos"
      using skip_whitespace_bounds [of "Suc pos" buf] kok(2,3) by (simp add: skip)
    have pos: "pos \<le> length buf" using kok by simp
    show ?thesis
    proof (cases "length key > max_key_length")
      case True
      with kok key show ?thesis by (simp add: parse_metric_def)
    next
      case short: False
      from scan_fields_safe [OF two pos]
      consider (ferr) j e where "scan_fields buf pos = Some (Inl (j, e))"
        | (fok) q flds where "scan_fields buf pos = Some (Inr (q, flds))" "flds \<noteq> []" "q \<le> length buf"
        by (fastforce simp: scan_safe_def Let_def split: option.splits sum.splits)
      then show ?thesis
      proof cases
        case ferr
        with kok(1) key short show ?thesis by (simp add: parse_metric_def)
      next
        case fok
        from scan_time_safe [OF fok(3)]
        consider (terr) j e where "scan_time buf q = Some (Inl (j, e))"
          | (tok) r ts where "scan_time buf q = Some (Inr (r, ts))" "timestamp_shape ts"
          by (auto simp: scan_safe_def split: option.splits sum.splits)
        then show ?thesis
        proof cases
          case terr
          with kok(1) fok key short show ?thesis by (simp add: parse_metric_def)
        next
          case tok
          have wf: "wf_metric (metric_copy (copy_with name tags flds t'))"
            if "name @ tags = key" "name \<noteq> []" "tags = [] \<or> hd tags = CHR '',''"
              "t' \<noteq> []" "timestamp_shape t'" for name tags t'
            using that fok(2) short
            by (auto simp: wf_metric_def metric_copy_def copy_with_def simp flip: length_append)
          have split: "hd (drop namei key) = CHR '',''" "drop namei key \<noteq> []"
            if "index_unescaped_byte key CHR '','' = Some namei" for namei
            using index_unescaped_byte_bounds [OF that] by (auto simp: hd_drop_conv_nth)
          show ?thesis
            using kok(1) fok(1,2) tok key short
            by (auto simp: parse_metric_def Let_def timestamp_shape_int_str split
                intro!: wf split: option.splits prod.splits)
        qed
      qed
    qed
  qed
qed

text \<open>The parser on a line without tags and with the default precision, step by step.\<close>

lemma parse_metric_no_tags:
  assumes "scan_key buf 0 = Some (Inr (i, key))" "key \<noteq> []" "length key \<le> max_key_length"
    and "index_unescaped_byte key CHR '','' = None"
    and "scan_fields buf i = Some (Inr (j, flds))" "flds \<noteq> []"
    and "scan_time buf j = Some (Inr (k, ts))"
  shows "parse_metric buf t [] =
           Some (Inr (copy_with key [] flds (if ts = [] then int_str t else ts)))"
  using assms
  by (simp add: parse_metric_def precision_multiplier_def Let_def metric_copy_def copy_with_def)

lemma parse_metric_bad_fields:
  assumes "scan_key buf 0 = Some (Inr (i, key))" "key \<noteq> []" "length key \<le> max_key_length"
    and "scan_fields buf i = Some (Inl (j, e))"
  shows "parse_metric buf t p = Some (Inl e)"
  using assms by (simp add: parse_metric_def)

lemma split_at_index:
  assumes "index_byte s c = Some j"
  shows "split_byte c s = take j s # split_byte c (drop (Suc j) s)"
proof -
  have j: "j < length s" "s ! j = c" "c \<notin> set (take j s)" using assms by (simp_all add: index_byte_Some)
  have "s = take j s @ c # drop (Suc j) s" using id_take_nth_drop [OF j(1)] j(2) by simp
  then show ?thesis using split_byte_append [OF j(3), of "drop (Suc j) s"] by simp
qed

text \<open>One result for each complete line of two bytes or more.\<close>

lemma parse_lines_each:
  "\<exists>rs. list_all2 (\<lambda>line r. parse_metric line t p = Some r \<and> (case r of Inl e \<Rightarrow> True | Inr m \<Rightarrow> wf_metric m))
       (filter (\<lambda>line. 2 \<le> length line) (butlast (split_byte newline (drop i buf)))) rs
     \<and> parse_lines buf t p i = Some ([m. Inr m \<leftarrow> rs], [e. Inl e \<leftarrow> rs])"
proof (induction buf t p i rule: parse_lines.induct)
  case (1 buf t p i)
  show ?case
  proof (cases "index_byte (drop i buf) newline")
    case None
    then show ?thesis by (simp add: parse_lines.simps [of buf t p i] index_byte_None)
  next
    case (Some j)
    let ?line = "take j (drop i buf)"
    have split: "butlast (split_byte newline (drop i buf)) = ?line # butlast (split_byte newline (drop (i + j + 1) buf))"
      by (simp add: split_at_index [OF Some] add_ac)
    show ?thesis
    proof (cases "length ?line < 2")
      case True
      have "parse_lines buf t p i = parse_lines buf t p (i + j + 1)"
        using Some True by (simp add: parse_lines.simps [of buf t p i] Let_def)
      moreover have "filter (\<lambda>line. 2 \<le> length line) (butlast (split_byte newline (drop i buf))) =
          filter (\<lambda>line. 2 \<le> length line) (butlast (split_byte newline (drop (i + j + 1) buf)))"
        using True unfolding split by auto
      ultimately show ?thesis using 1(1) [OF Some refl True] by simp
    next
      case False
      from parse_metric_wf [of ?line t p] obtain r
        where r: "parse_metric ?line t p = Some r" "case r of Inl e \<Rightarrow> True | Inr m \<Rightarrow> wf_metric m"
        by (auto split: option.splits)
      from 1(2) [OF Some refl False r(1)] obtain rs
        where rs: "list_all2 (\<lambda>line r. parse_metric line t p = Some r \<and> (case r of Inl e \<Rightarrow> True | Inr m \<Rightarrow> wf_metric m))
            (filter (\<lambda>line. 2 \<le> length line) (butlast (split_byte newline (drop (i + j + 1) buf)))) rs"
          "parse_lines buf t p (i + j + 1) = Some ([m. Inr m \<leftarrow> rs], [e. Inl e \<leftarrow> rs])" by blast
      have "parse_lines buf t p i = Some ([m. Inr m \<leftarrow> r # rs], [e. Inl e \<leftarrow> r # rs])"
        using Some False r(1) rs(2) by (cases r) (simp_all add: parse_lines.simps [of buf t p i] Let_def)
      moreover have "filter (\<lambda>line. 2 \<le> length line) (butlast (split_byte newline (drop i buf))) =
          ?line # filter (\<lambda>line. 2 \<le> length line) (butlast (split_byte newline (drop (i + j + 1) buf)))"
        using False unfolding split by (simp add: not_less)
      ultimately show ?thesis using r rs(1) by (intro exI [of _ "r # rs"]) simp
    qed
  qed
qed

text \<open>
  C1: parsing never panics and accounts for every line: for every buffer, default time and precision the code returns.
  A buffer of at most six bytes gives no metric, and one error unless it is empty.  Of any other, every line that ends
  with a newline and has two bytes or more gives either a metric or an error, and the metrics and the errors come in the
  order of their lines; shorter lines, and what follows the last newline, give nothing.  Each metric is well formed: its
  name, fields and timestamp are not empty, name and tags together are no longer than \<open>MaxKeyLength\<close>, the tags start with
  a comma, and the timestamp consists of digits after an optional minus sign.
\<close>

theorem parse_points_total:
  "\<exists>rs. list_all2 (\<lambda>line r. parse_metric line t p = Some r \<and> (case r of Inl e \<Rightarrow> True | Inr m \<Rightarrow> wf_metric m))
       (filter (\<lambda>line. 2 \<le> length line) (butlast (split_byte newline buf))) rs
     \<and> parse_points buf t p =
         Some (if buf = [] then ([], [])
               else if length buf \<le> 6 then ([], [MakeError ''buffer too short'' buf 0])
               else ([m. Inr m \<leftarrow> rs], [e. Inl e \<leftarrow> rs]))"
proof -
  obtain rs where "list_all2 (\<lambda>line r. parse_metric line t p = Some r \<and> (case r of Inl e \<Rightarrow> True | Inr m \<Rightarrow> wf_metric m))
      (filter (\<lambda>line. 2 \<le> length line) (butlast (split_byte newline buf))) rs"
    "parse_lines buf t p 0 = Some ([m. Inr m \<leftarrow> rs], [e. Inl e \<leftarrow> rs])"
    using parse_lines_each [of t p 0 buf] by auto
  then show ?thesis by (intro exI [of _ rs]) (simp add: parse_points_def)
qed

end
