(* ===== verification/Metric_Roundtrip.thy ===== *)
theory Metric_Roundtrip
  imports Metric_Parse
begin

text \<open>
  A metric that \<open>New\<close> builds comes back from its serialized form.  A position \<open>i\<close> of the buffer is
  described by what follows it, \<open>drop i buf = s @ r\<close>; each scan function passes over the part it is made
  for by induction on \<open>s\<close>.
\<close>

subsection \<open>Positions described by what follows them\<close>

named_theorems at_intros

lemma atD:
  "drop i buf = c # r \<Longrightarrow> i < length buf \<and> buf ! i = c \<and> drop (Suc i) buf = r"
  by (metis drop_eq_Nil2 leI list.distinct(1) nth_via_drop drop_Suc tl_drop list.sel(3))

lemma at_append: "drop i buf = s @ r \<Longrightarrow> drop (i + length s) buf = r"
  by (metis add.commute append_eq_conv_conj drop_drop)

lemma at_length: "drop i buf = s @ r \<Longrightarrow> i \<le> length buf \<Longrightarrow> i + length s \<le> length buf"
  by (drule arg_cong [of _ _ length]) simp

text \<open>No byte of \<open>S\<close> in the string that is not right after a backslash.\<close>

fun escaped_run :: "char set \<Rightarrow> char \<Rightarrow> bytes \<Rightarrow> bool" where
  "escaped_run S prev [] = True"
| "escaped_run S prev (c # u) = ((c \<in> S \<longrightarrow> prev = backslash) \<and> escaped_run S c u)"

lemma escaped_run_append:
  "escaped_run S p (u @ v) \<longleftrightarrow> escaped_run S p u \<and> escaped_run S (last (p # u)) v"
  by (induction u arbitrary: p) auto

lemma escaped_run_esc: "backslash \<notin> S \<Longrightarrow> T \<subseteq> S \<Longrightarrow> escaped_run T p (esc S s)"
  by (induction s arbitrary: p) auto

lemma escaped_run_tl: "escaped_run S p s \<Longrightarrow> s = c # u \<Longrightarrow> escaped_run S c u"
  by simp

lemma last_not_backslash:
  "backslash \<notin> set s \<Longrightarrow> c \<noteq> backslash \<or> s \<noteq> [] \<Longrightarrow> last (c # esc S s) \<noteq> backslash"
  by (auto simp: last_esc)

subsection \<open>The key\<close>

lemma scan_measurement_run:
  "drop i buf = c # u @ d # r \<Longrightarrow> escaped_run {CHR '','', CHR '' ''} c u \<Longrightarrow>
   last (c # u) \<noteq> backslash \<Longrightarrow> d \<in> {CHR '','', CHR '' ''} \<Longrightarrow>
   scan_measurement_loop buf i =
     (if d = CHR '','' then scan_ok (TagKeyState, i + length u + 2)
      else scan_ok (FieldsState, i + length u + 1))"
proof (induction u arbitrary: i c)
  case Nil
  then have "drop i buf = c # d # r" by simp
  with Nil show ?case by (subst scan_measurement_loop_step) (auto dest!: atD)
next
  case (Cons c' u)
  then have "drop i buf = c # c' # u @ d # r" by simp
  from atD [OF this] have i: "i < length buf" "buf ! i = c" "drop (Suc i) buf = c' # u @ d # r" by auto
  note i' = atD [OF i(3)]
  from Cons.IH [OF i(3)] Cons.prems i i' show ?case by (subst scan_measurement_loop_step) auto
qed

lemma scan_tags_key_run:
  "drop i buf = c # u @ CHR ''='' # r \<Longrightarrow> escaped_run {CHR '','', CHR '' '', CHR ''=''} c u \<Longrightarrow>
   last (c # u) \<noteq> backslash \<Longrightarrow>
   scan_tags_key_loop buf i = scan_ok (i + length u + 2)"
proof (induction u arbitrary: i c)
  case Nil
  then have "drop i buf = c # CHR ''='' # r" by simp
  with Nil show ?case by (subst scan_tags_key_loop_step) (auto dest!: atD)
next
  case (Cons c' u)
  then have "drop i buf = c # c' # u @ CHR ''='' # r" by simp
  from atD [OF this] have i: "i < length buf" "buf ! i = c" "drop (Suc i) buf = c' # u @ CHR ''='' # r" by auto
  note i' = atD [OF i(3)]
  from Cons.IH [OF i(3)] Cons.prems i i' show ?case by (subst scan_tags_key_loop_step) auto
qed

lemma scan_tags_value_run:
  "drop i buf = c # u @ d # r \<Longrightarrow> escaped_run {CHR '','', CHR '' '', CHR ''=''} c u \<Longrightarrow>
   last (c # u) \<noteq> backslash \<Longrightarrow> d \<in> {CHR '','', CHR '' ''} \<Longrightarrow>
   scan_tags_value_loop buf i =
     (if d = CHR '','' then scan_ok (TagKeyState, i + length u + 2)
      else scan_ok (FieldsState, i + length u + 1))"
proof (induction u arbitrary: i c)
  case Nil
  then have "drop i buf = c # d # r" by simp
  with Nil show ?case by (subst scan_tags_value_loop_step) (auto dest!: atD)
next
  case (Cons c' u)
  then have "drop i buf = c # c' # u @ d # r" by simp
  from atD [OF this] have i: "i < length buf" "buf ! i = c" "drop (Suc i) buf = c' # u @ d # r" by auto
  note i' = atD [OF i(3)]
  from Cons.IH [OF i(3)] Cons.prems i i' show ?case by (subst scan_tags_value_loop_step) auto
qed

text \<open>An escaped word starts with a byte that is no separator, and contains no bare one.\<close>

lemma esc_key_word:
  assumes "s \<noteq> []" "backslash \<notin> set s"
  obtains c u where "esc key_specials s = c # u" "c \<notin> key_specials"
    "escaped_run {CHR '','', CHR '' '', CHR ''=''} c u" "last (c # u) \<noteq> backslash"
proof -
  obtain c u where cu: "esc key_specials s = c # u"
    using assms by (cases "esc key_specials s") auto
  have "c \<notin> key_specials" using assms cu by (cases s) (auto simp: key_specials_def split: if_splits)
  moreover have "escaped_run {CHR '','', CHR '' '', CHR ''=''} c u"
    using escaped_run_esc [of key_specials "{CHR '','', CHR '' '', CHR ''=''}" c s] cu
    by (auto simp: key_specials_def)
  moreover have "last (c # u) \<noteq> backslash" using last_esc [OF assms(2,1), of key_specials] cu by simp
  ultimately show thesis using cu that by blast
qed

lemma esc_name_word:
  assumes "s \<noteq> []" "backslash \<notin> set s"
  obtains c u where "esc name_specials s = c # u" "c \<notin> name_specials"
    "c = backslash \<or> c = hd s" "escaped_run {CHR '','', CHR '' ''} c u" "last (c # u) \<noteq> backslash"
proof -
  obtain c u where cu: "esc name_specials s = c # u"
    using assms by (cases "esc name_specials s") auto
  have "c \<notin> name_specials" "c = backslash \<or> c = hd s"
    using assms cu by (cases s; auto simp: name_specials_def split: if_splits)+
  moreover have "escaped_run {CHR '','', CHR '' ''} c u"
    using escaped_run_esc [of name_specials "{CHR '','', CHR '' ''}" c s] cu
    by (auto simp: name_specials_def)
  moreover have "last (c # u) \<noteq> backslash" using last_esc [OF assms(2,1), of name_specials] cu by simp
  ultimately show thesis using cu that by blast
qed

definition tag_ok :: "bytes \<times> bytes \<Rightarrow> bool" where
  "tag_ok kv \<longleftrightarrow> fst kv \<noteq> [] \<and> snd kv \<noteq> [] \<and> backslash \<notin> set (fst kv) \<and> backslash \<notin> set (snd kv)"

text \<open>The scan of the tags, from right after the comma in front of the first one.\<close>

lemma scan_tags_run:
  assumes "list_all tag_ok kvs" "kvs \<noteq> []"
    and "drop i buf = tl (tags_bytes kvs) @ CHR '' '' # r"
  shows "scan_tags buf TagKeyState i = scan_ok (i + length (tl (tags_bytes kvs)))"
  using assms
proof (induction kvs arbitrary: i)
  case (Cons kv kvs)
  obtain k v where kv: "kv = (k, v)" by (cases kv)
  with Cons.prems have ok: "k \<noteq> []" "v \<noteq> []" "backslash \<notin> set k" "backslash \<notin> set v"
    by (auto simp: tag_ok_def)
  obtain ck uk where k: "esc key_specials k = ck # uk" "ck \<notin> key_specials"
      "escaped_run {CHR '','', CHR '' '', CHR ''=''} ck uk" "last (ck # uk) \<noteq> backslash"
    by (rule esc_key_word [OF ok(1,3)])
  obtain cv uv where v: "esc key_specials v = cv # uv" "cv \<notin> key_specials"
      "escaped_run {CHR '','', CHR '' '', CHR ''=''} cv uv" "last (cv # uv) \<noteq> backslash"
    by (rule esc_key_word [OF ok(2,4)])
  have sep: "\<exists>d r'. tags_bytes kvs @ CHR '' '' # r = d # r' \<and> d \<in> {CHR '','', CHR '' ''} \<and>
      (d = CHR '','' \<longleftrightarrow> kvs \<noteq> []) \<and> (kvs \<noteq> [] \<longrightarrow> r' = tl (tags_bytes kvs) @ CHR '' '' # r)"
    using Cons.prems by (cases kvs) (auto simp: tag_bytes_def tag_ok_def tag_skip_def)
  then obtain d r' where d: "tags_bytes kvs @ CHR '' '' # r = d # r'" "d \<in> {CHR '','', CHR '' ''}"
      "d = CHR '','' \<longleftrightarrow> kvs \<noteq> []" "kvs \<noteq> [] \<longrightarrow> r' = tl (tags_bytes kvs) @ CHR '' '' # r" by blast
  have at: "drop i buf = ck # uk @ CHR ''='' # cv # uv @ d # r'"
    using Cons.prems kv k(1) v(1) d(1) ok by (simp add: tag_bytes_def tag_skip_def)
  let ?j = "i + length uk + 2"
  have at2: "drop ?j buf = cv # uv @ d # r'"
    using at_append [of i buf "ck # uk @ ''=''" "cv # uv @ d # r'"] at by simp
  have key: "scan_tags_key buf i = scan_ok ?j"
    using atD [OF at] k scan_tags_key_run [OF at k(3,4)] by (auto simp: scan_tags_key_def key_specials_def)
  have val: "scan_tags_value buf ?j =
      (if d = CHR '','' then scan_ok (TagKeyState, ?j + length uv + 2)
       else scan_ok (FieldsState, ?j + length uv + 1))"
    using atD [OF at2] v scan_tags_value_run [OF at2 v(3,4) d(2)]
    by (auto simp: scan_tags_value_def key_specials_def)
  show ?case
  proof (cases "kvs = []")
    case True
    with key val d(3) kv k(1) v(1) ok show ?thesis
      by (simp add: scan_tags.simps tag_bytes_def tag_skip_def add.assoc)
  next
    case False
    have at3: "drop (?j + length uv + 2) buf = tl (tags_bytes kvs) @ CHR '' '' # r"
      using at_append [of ?j buf "cv # uv @ [d]" r'] at2 d(4) False by simp
    obtain x xs where ne: "tags_bytes kvs = x # xs"
      using False Cons.prems by (cases kvs) (auto simp: tag_bytes_def tag_ok_def tag_skip_def)
    from Cons.IH [OF _ False at3] Cons.prems key val d(3) False kv k(1) v(1) ok ne
    show ?thesis by (simp add: scan_tags.simps tag_bytes_def tag_skip_def add.assoc)
  qed
qed simp

lemma skip_whitespace_at:
  "drop i buf = c # r \<Longrightarrow> \<not> is_space c \<Longrightarrow> skip_whitespace buf i = i"
  by (subst skip_whitespace.simps) (auto dest!: atD)

lemma skip_whitespace_space:
  "drop i buf = CHR '' '' # c # r \<Longrightarrow> \<not> is_space c \<Longrightarrow> skip_whitespace buf i = Suc i"
proof -
  assume a: "drop i buf = CHR '' '' # c # r" and c: "\<not> is_space c"
  from atD [OF a] have "drop (Suc i) buf = c # r" by simp
  from skip_whitespace_at [OF this c] atD [OF a] show ?thesis
    by (subst skip_whitespace.simps) (simp add: is_space_def)
qed

definition name_ok :: "bytes \<Rightarrow> bool" where
  "name_ok name \<longleftrightarrow> name \<noteq> [] \<and> backslash \<notin> set name \<and> hd name \<noteq> tabchar \<and> hd name \<noteq> nulchar"

lemma scan_key_run:
  assumes "name_ok name" "list_all tag_ok kvs"
    and buf: "buf = esc name_specials name @ tags_bytes kvs @ CHR '' '' # r"
  shows "scan_key buf 0 =
           scan_ok (length (esc name_specials name @ tags_bytes kvs), esc name_specials name @ tags_bytes kvs)"
proof -
  from assms(1) have n: "name \<noteq> []" "backslash \<notin> set name" by (auto simp: name_ok_def)
  obtain c u where cu: "esc name_specials name = c # u" "c \<notin> name_specials" "c = backslash \<or> c = hd name"
      "escaped_run {CHR '','', CHR '' ''} c u" "last (c # u) \<noteq> backslash"
    by (rule esc_name_word [OF n])
  have c: "\<not> is_space c" "c \<noteq> CHR '',''" using assms(1) cu(2,3) by (auto simp: is_space_def name_ok_def name_specials_def)
  show ?thesis
  proof (cases "kvs = []")
    case True
    then have at: "drop 0 buf = c # u @ CHR '' '' # r" using buf cu(1) by simp
    have "scan_measurement buf 0 = scan_ok (FieldsState, length u + 1)"
      using scan_measurement_run [OF at cu(4,5)] atD [OF at] c by (simp add: scan_measurement_def)
    with skip_whitespace_at [OF at c(1)] True buf cu(1) show ?thesis
      by (simp add: scan_key_def scan_ok_def Let_def)
  next
    case False
    then obtain s where s: "tags_bytes kvs = CHR '','' # s"
      using assms(2) by (cases kvs) (auto simp: tag_bytes_def tag_ok_def tag_skip_def)
    then have at: "drop 0 buf = c # u @ CHR '','' # s @ CHR '' '' # r" using buf cu(1) by simp
    have m: "scan_measurement buf 0 = scan_ok (TagKeyState, length u + 2)"
      using scan_measurement_run [OF at cu(4,5)] atD [OF at] c by (simp add: scan_measurement_def)
    have "drop (length u + 2) buf = tl (tags_bytes kvs) @ CHR '' '' # r"
      using at_append [of 0 buf "c # u @ '',''"] at s by simp
    from scan_tags_run [OF assms(2) False this]
    have t: "scan_tags buf TagKeyState (length u + 2) = scan_ok (length u + 2 + length s)"
      using s by simp
    from m t skip_whitespace_at [OF at c(1)] buf cu(1) s show ?thesis
      by (simp add: scan_key_def scan_ok_def Let_def)
  qed
qed

subsection \<open>Field values\<close>

text \<open>What \<open>AppendFloat\<close> writes for a finite number: an optional sign, a digit, and more digits with at most
  one point.\<close>

definition decimal_text :: "bytes \<Rightarrow> bool" where
  "decimal_text s \<longleftrightarrow>
     (let b = (if s \<noteq> [] \<and> hd s = CHR ''-'' then tl s else s)
      in b \<noteq> [] \<and> is_digit (hd b) \<and> list_all is_numeric b \<and> count_list b CHR ''.'' \<le> 1)"

definition float_text :: "bytes \<Rightarrow> bool" where
  "float_text s \<longleftrightarrow> decimal_text s \<and> parse_float_err s = None"

text \<open>The field values the line protocol can carry back.\<close>

fun value_ok :: "(nat \<Rightarrow> 'f \<Rightarrow> bytes) \<Rightarrow> 'f gval \<Rightarrow> bool" where
  "value_ok fmt GNil = False"
| "value_ok fmt (GBytes b) = False"
| "value_ok fmt (GFloat64 x) = float_text (fmt 64 x)"
| "value_ok fmt (GFloat32 x) = float_text (fmt 32 x)"
| "value_ok fmt (GString s) = (backslash \<notin> set s)"
| "value_ok fmt (GOther s) = (backslash \<notin> set s)"
| "value_ok fmt _ = True"

lemma numeric_distinct:
  "is_numeric c \<Longrightarrow> c \<notin> {CHR '','', CHR '' '', CHR ''i'', CHR ''e'', CHR ''E'', CHR ''+'', CHR ''-'',
     CHR ''N'', CHR ''n'', dquote, backslash, CHR ''='', CHR ''t'', CHR ''f'', CHR ''T'', CHR ''F''}"
  by (auto simp: is_numeric_def is_digit_def)

lemma digit_numeric: "is_digit c \<Longrightarrow> is_numeric c \<and> c \<noteq> CHR ''.''"
  by (auto simp: is_numeric_def is_digit_def)

text \<open>A value ends where the buffer ends or at a comma or space.\<close>

definition value_stop :: "bytes \<Rightarrow> bool" where
  "value_stop r \<longleftrightarrow> r = [] \<or> hd r = CHR '','' \<or> hd r = CHR '' ''"

lemma scan_number_numeric:
  assumes "drop i buf = ds @ r" "list_all is_numeric ds" "start \<le> i" "0 < i"
    and "count_list ds CHR ''.'' \<le> (if ns_decimal x then 0 else 1)"
  shows "scan_number_loop buf start i x =
           scan_number_loop buf start (i + length ds)
             (if CHR ''.'' \<in> set ds then x\<lparr>ns_decimal := True\<rparr> else x)"
  using assms
proof (induction ds arbitrary: i x)
  case (Cons c ds)
  then have "drop i buf = c # ds @ r" by simp
  from atD [OF this] have i: "i < length buf" "buf ! i = c" "drop (Suc i) buf = ds @ r" by auto
  let ?x = "if c = CHR ''.'' then x\<lparr>ns_decimal := True\<rparr> else x"
  have dec: "c = CHR ''.'' \<Longrightarrow> \<not> ns_decimal x" using Cons.prems by (auto split: if_splits)
  have n: "is_numeric c" using Cons.prems by simp
  have "scan_number_loop buf start i x = scan_number_loop buf start (Suc i) ?x"
    using i Cons.prems numeric_distinct [OF n] n dec
    by (subst scan_number_loop_step) (auto simp: Let_def)
  also have "\<dots> = scan_number_loop buf start (Suc i + length ds)
             (if CHR ''.'' \<in> set ds then ?x\<lparr>ns_decimal := True\<rparr> else ?x)"
    using i Cons.prems by (intro Cons.IH) (auto split: if_splits)
  finally show ?case by (auto split: if_splits)
qed simp

lemma scan_number_stop:
  "drop i buf = r \<Longrightarrow> value_stop r \<Longrightarrow> start \<le> i \<Longrightarrow> 0 < i \<Longrightarrow>
   scan_number_loop buf start i x = scan_ok (i, x)"
proof (cases r)
  case Nil
  then show "drop i buf = r \<Longrightarrow> ?thesis" by (subst scan_number_loop.simps) simp
next
  case (Cons c r')
  assume "drop i buf = r" "value_stop r" "start \<le> i" "0 < i"
  with Cons atD [of i buf c r'] show ?thesis
    by (subst scan_number_loop_step) (auto simp: value_stop_def)
qed

text \<open>An integer text is an optional sign and digits within the range of 64 bits.\<close>

lemma int_str_parts:
  obtains sg ds where "int_str n = sg @ ds" "sg = [] \<or> sg = ''-''" "ds \<noteq> []" "list_all is_digit ds"
proof (cases "n < 0")
  case True
  then show thesis using that [of "''-''" "nat_str (nat (- n))"] nat_str_digits
    by (auto simp: int_str_def list_all_iff)
next
  case False
  then show thesis using that [of "[]" "nat_str (nat n)"] nat_str_digits
    by (auto simp: int_str_def list_all_iff)
qed

lemma scan_number_int:
  assumes at: "drop i buf = int_str n @ ''i'' @ r" and i: "0 < i" and stop: "value_stop r"
    and range: "- (2 ^ 63) \<le> n" "n < 2 ^ 63"
  shows "scan_number buf i = scan_ok (i + length (int_str n) + 1)"
proof -
  obtain sg ds where s: "int_str n = sg @ ds" "sg = [] \<or> sg = ''-''" "ds \<noteq> []" "list_all is_digit ds"
    by (rule int_str_parts)
  let ?none = "\<lparr>ns_int = False, ns_decimal = False, ns_scientific = False\<rparr>"
  let ?k = "i + length sg" and ?j = "i + length (int_str n)"
  have numeric: "list_all is_numeric ds" "CHR ''.'' \<notin> set ds"
    using s(4) digit_numeric by (auto simp: list_all_iff)
  have at1: "drop ?k buf = ds @ ''i'' @ r" using at_append [of i buf sg] at s(1) by simp
  have at2: "drop ?j buf = CHR ''i'' # r" using at_append [OF at] by simp
  note at3 = atD [OF at2]
  obtain d ds' where d: "ds = d # ds'" using s(3) by (cases ds) auto
  have hd: "is_digit d" using s(4) d by simp
  have at0: "i < length buf" "buf ! i = (if sg = [] then d else CHR ''-'')"
    using at s(1,2) d by (auto dest!: atD)
  have "CHR ''-'' \<noteq> d" using hd digit_not_sign by blast
  have loop: "scan_number_loop buf i ?k ?none = scan_ok (Suc ?j, ?none\<lparr>ns_int := True\<rparr>)"
  proof -
    have "scan_number_loop buf i ?k ?none = scan_number_loop buf i (?k + length ds) ?none"
      using scan_number_numeric [OF at1 numeric(1), of i ?none] i numeric(2) by (simp add: count_notin)
    also have "\<dots> = scan_number_loop buf i ?j ?none" using s(1) by (simp add: add.assoc)
    also have "\<dots> = scan_number_loop buf i (Suc ?j) (?none\<lparr>ns_int := True\<rparr>)"
      using at3 i s(1) d by (subst scan_number_loop_step) auto
    also have "\<dots> = scan_ok (Suc ?j, ?none\<lparr>ns_int := True\<rparr>)"
      using at3 i stop by (intro scan_number_stop) auto
    finally show ?thesis .
  qed
  have fin: "number_end buf i (Suc ?j) (?none\<lparr>ns_int := True\<rparr>) = scan_ok (Suc ?j)"
  proof -
    have "bslice buf i ?j = Some (int_str n)"
      using at at3 by (simp add: bslice_def)
    with at0 at3 s d \<open>CHR ''-'' \<noteq> d\<close> parse_int64_int_str [OF range] show ?thesis
      by (auto simp: number_end_def Let_def split: if_splits)
  qed
  have "scan_number buf i = scan_then (scan_number_loop buf i ?k ?none) (\<lambda>(j, r). number_end buf i j r)"
    using at0 s(2) at1 d \<open>CHR ''-'' \<noteq> d\<close> atD [of ?k buf d]
    by (auto simp: scan_number_def Let_def)
  with loop fin show ?thesis by simp
qed

lemma scan_number_float:
  assumes at: "drop i buf = s @ r" and i: "0 < i" and stop: "value_stop r" and s: "float_text s"
  shows "scan_number buf i = scan_ok (i + length s)"
proof -
  define sg where "sg = (if s \<noteq> [] \<and> hd s = CHR ''-'' then ''-'' else [])"
  define ds where "ds = (if s \<noteq> [] \<and> hd s = CHR ''-'' then tl s else s)"
  have sd: "s = sg @ ds" by (cases s) (auto simp: sg_def ds_def)
  from s have "ds \<noteq> []" "is_digit (hd ds)"
    by (auto simp: float_text_def decimal_text_def Let_def ds_def)
  then have ds0: "\<exists>c \<in> set ds. is_digit c" by (meson hd_in_set)
  from s have ds1: "list_all is_numeric ds" "count_list ds CHR ''.'' \<le> 1"
    "parse_float_err s = None"
    by (auto simp: float_text_def decimal_text_def Let_def ds_def)
  note ds = ds0 ds1
  let ?none = "\<lparr>ns_int = False, ns_decimal = False, ns_scientific = False\<rparr>"
  let ?dec = "if CHR ''.'' \<in> set ds then ?none\<lparr>ns_decimal := True\<rparr> else ?none"
  let ?k = "i + length sg" and ?j = "i + length s"
  have at1: "drop ?k buf = ds @ r" using at_append [of i buf sg] at sd by simp
  obtain d ds' where d: "ds = d # ds'" using ds(1) by (cases ds) auto
  have nd: "d \<noteq> CHR ''-''" using numeric_distinct [of d] ds(2) d by auto
  have sg: "sg = [] \<or> sg = ''-''" by (simp add: sg_def)
  have at0: "i < length buf" "buf ! i = (if sg = [] then d else CHR ''-'')"
  proof -
    have "drop i buf = hd (sg @ ds) # tl (sg @ ds) @ r" using at sd d by simp
    from atD [OF this] show "i < length buf" "buf ! i = (if sg = [] then d else CHR ''-'')"
      using sg d by auto
  qed
  have len: "?j \<le> length buf" using at_length [OF at] at0 by simp
  have loop: "scan_number_loop buf i ?k ?none = scan_ok (?j, ?dec)"
  proof -
    have "scan_number_loop buf i ?k ?none = scan_number_loop buf i (?k + length ds) ?dec"
      using scan_number_numeric [OF at1 ds(2), of i ?none] i ds(3) by simp
    also have "?k + length ds = ?j" using sd by (metis add.assoc length_append)
    also have "scan_number_loop buf i ?j ?dec = scan_ok (?j, ?dec)"
      using at_append [OF at] stop i by (intro scan_number_stop) auto
    finally show ?thesis .
  qed
  have many: "CHR ''.'' \<in> set ds \<Longrightarrow> 2 \<le> length ds"
    using ds(1) digit_numeric by (cases ds; cases "tl ds") auto
  have fin: "number_end buf i ?j ?dec = scan_ok ?j"
  proof -
    have "bslice buf i ?j = Some s" using at len by (simp add: bslice_def)
    with at0 nd sd d ds(4) many sg show ?thesis
      by (auto simp: number_end_def Let_def split: if_splits)
  qed
  have "scan_number buf i = scan_then (scan_number_loop buf i ?k ?none) (\<lambda>(j, r). number_end buf i j r)"
    using at0 at1 d nd atD [of ?k buf d] sg
    by (auto simp: scan_number_def Let_def)
  with loop fin show ?thesis by simp
qed

subsection \<open>Fields\<close>

lemma scan_fields_key:
  "drop i buf = esc key_specials k @ r \<Longrightarrow> r \<noteq> [] \<Longrightarrow> backslash \<notin> set k \<Longrightarrow> \<not> fs_quoted x \<Longrightarrow>
   scan_fields_loop buf i x = scan_fields_loop buf (i + length (esc key_specials k)) x"
proof (induction k arbitrary: i)
  case (Cons c k)
  show ?case
  proof (cases "c \<in> key_specials")
    case True
    then have "drop i buf = backslash # c # esc key_specials k @ r" using Cons.prems by simp
    note i = atD [OF this]
    then have "Suc i < length buf \<and> drop (Suc (Suc i)) buf = esc key_specials k @ r"
      by (auto dest!: atD)
    with i True Cons show ?thesis by (subst scan_fields_loop.simps) auto
  next
    case False
    then have "drop i buf = c # esc key_specials k @ r" using Cons.prems by simp
    note i = atD [OF this]
    with False Cons show ?thesis
      by (subst scan_fields_loop.simps) (auto simp: key_specials_def)
  qed
qed simp

lemma scan_fields_string:
  "drop i buf = esc string_specials s @ r \<Longrightarrow> r \<noteq> [] \<Longrightarrow> backslash \<notin> set s \<Longrightarrow> fs_quoted x \<Longrightarrow>
   scan_fields_loop buf i x = scan_fields_loop buf (i + length (esc string_specials s)) x"
proof (induction s arbitrary: i)
  case (Cons c s)
  show ?case
  proof (cases "c \<in> string_specials")
    case True
    then have "drop i buf = backslash # c # esc string_specials s @ r" using Cons.prems by simp
    note i = atD [OF this]
    then have "Suc i < length buf \<and> drop (Suc (Suc i)) buf = esc string_specials s @ r"
      by (auto dest!: atD)
    with i True Cons show ?thesis by (subst scan_fields_loop.simps) auto
  next
    case False
    then have "drop i buf = c # esc string_specials s @ r" using Cons.prems by simp
    note i = atD [OF this]
    with False Cons show ?thesis
      by (subst scan_fields_loop.simps) (auto simp: string_specials_def)
  qed
qed simp

text \<open>The byte in front of the \<open>=\<close> after an escaped key is no bare separator.\<close>

lemma key_before:
  assumes "drop i buf = esc key_specials k @ r" "i \<le> length buf" "k \<noteq> []" "backslash \<notin> set k" "2 \<le> i"
  shows "\<exists>p. byte_before buf (i + length (esc key_specials k)) 1 = Some p \<and>
     (p = CHR '' '' \<or> p = CHR '','' \<longrightarrow>
        byte_before buf (i + length (esc key_specials k)) 2 = Some backslash)"
proof -
  let ?e = "esc key_specials k"
  obtain ks c where k: "k = ks @ [c]" using assms(3) by (cases k rule: rev_cases) auto
  have nth: "buf ! (i + n) = ?e ! n" if "n < length ?e" for n
    using assms(1,2) that by (metis append_eq_conv_conj nth_drop nth_take)
  have len: "i + length ?e \<le> length buf" using at_length [OF assms(1,2)] .
  show ?thesis
  proof (cases "c \<in> key_specials")
    case True
    then have e: "length ?e = length (esc key_specials ks) + 2"
      "?e ! (length ?e - 1) = c" "?e ! (length ?e - 2) = backslash"
      using k by (auto simp: nth_append)
    then have "i + length ?e - 1 = i + (length ?e - 1)" "i + length ?e - 2 = i + (length ?e - 2)"
      "length ?e - 1 < length ?e" "length ?e - 2 < length ?e" by simp_all
    with e nth [of "length ?e - 1"] nth [of "length ?e - 2"] len show ?thesis
      by (auto simp: byte_before_def byte_at_def)
  next
    case False
    then have e: "length ?e = length (esc key_specials ks) + 1" "?e ! (length ?e - 1) = c"
      using k by (auto simp: nth_append)
    then have "i + length ?e - 1 = i + (length ?e - 1)" "length ?e - 1 < length ?e" by simp_all
    with e nth [of "length ?e - 1"] len False show ?thesis
      by (auto simp: byte_before_def byte_at_def key_specials_def)
  qed
qed

lemma value_end_word:
  "drop i buf = w @ r \<Longrightarrow> value_stop r \<Longrightarrow> CHR '','' \<notin> set w \<Longrightarrow> CHR '' '' \<notin> set w \<Longrightarrow>
   i \<le> length buf \<Longrightarrow> value_end buf i = i + length w"
proof (induction w arbitrary: i)
  case Nil
  then show ?case
    by (cases r) (subst value_end.simps, auto simp: value_stop_def dest!: atD)+
next
  case (Cons c w)
  then have "drop i buf = c # w @ r" by simp
  with atD [OF this] Cons show ?case by (subst value_end.simps) auto
qed

lemma scan_boolean_word:
  assumes "drop i buf = w @ r" "value_stop r" "w = ''true'' \<or> w = ''false''"
  shows "scan_boolean buf i = scan_ok (i + length w, w)"
proof -
  define c u where "c = hd w" and "u = tl w"
  then have w: "w = c # u" "CHR '','' \<notin> set u" "CHR '' '' \<notin> set u" using assms(3) by auto
  then have at: "drop i buf = c # u @ r" using assms(1) by simp
  note i = atD [OF at]
  have e: "value_end buf (Suc i) = i + length w"
    using value_end_word [of "Suc i" buf u r] i assms(2) w by simp
  have "i + length w \<le> length buf" using at_length [OF assms(1)] i by simp
  then have "bslice buf i (i + length w) = Some w" using assms(1) by simp
  moreover have "c = CHR ''t'' \<and> w = ''true'' \<or> c = CHR ''f'' \<and> w = ''false''"
    using assms(3) by (auto simp: c_def)
  ultimately show ?thesis
    using i e by (elim disjE) (simp_all add: scan_boolean_def Let_def boolean_words_def)
qed

lemma range64: "- (2 ^ 63) \<le> sint (w :: 64 word)" "sint (w :: 64 word) < 2 ^ 63"
  using sint_ge [of w] sint_lt [of w] by simp_all

lemma range_signed:
  "- (2 ^ 63) \<le> sint (w32 :: 32 word)" "sint (w32 :: 32 word) < 2 ^ 63"
  "- (2 ^ 63) \<le> sint (w16 :: 16 word)" "sint (w16 :: 16 word) < 2 ^ 63"
  "- (2 ^ 63) \<le> sint (w8 :: 8 word)" "sint (w8 :: 8 word) < 2 ^ 63"
  using sint_ge [of w32] sint_lt [of w32] sint_ge [of w16] sint_lt [of w16]
    sint_ge [of w8] sint_lt [of w8]
  by simp_all

lemma uint_above: "- (2 ^ 63) \<le> uint w"
  by (rule order_trans [OF _ uint_ge_0]) simp

lemma range_unsigned:
  "- (2 ^ 63) \<le> uint (w32 :: 32 word)" "uint (w32 :: 32 word) < 2 ^ 63"
  "- (2 ^ 63) \<le> uint (w16 :: 16 word)" "uint (w16 :: 16 word) < 2 ^ 63"
  "- (2 ^ 63) \<le> uint (w8 :: 8 word)" "uint (w8 :: 8 word) < 2 ^ 63"
  using uint_lt2p [of w32] uint_lt2p [of w16] uint_lt2p [of w8] by (simp_all only: uint_above) simp_all

lemma range_cap: "- (2 ^ 63) \<le> cap_uint w" "cap_uint w < 2 ^ 63"
  using range64 [of w] by (auto simp: cap_uint_def max_int_def)

text \<open>What \<open>Fields\<close> is to read back for a value, \<open>pf\<close> being \<open>strconv.ParseFloat\<close>.\<close>

fun value_read :: "(bytes \<Rightarrow> 'f option) \<Rightarrow> (nat \<Rightarrow> 'f \<Rightarrow> bytes) \<Rightarrow> 'f gval \<Rightarrow> 'f fval option" where
  "value_read pf fmt GNil = None"
| "value_read pf fmt (GBytes b) = None"
| "value_read pf fmt (GFloat64 x) = map_option FVFloat (pf (fmt 64 x))"
| "value_read pf fmt (GFloat32 x) = map_option FVFloat (pf (fmt 32 x))"
| "value_read pf fmt (GString s) = Some (FVString s)"
| "value_read pf fmt (GOther s) = Some (FVString s)"
| "value_read pf fmt (GBool b) = Some (FVBool b)"
| "value_read pf fmt (GInt64 w) = Some (FVInt (sint w))"
| "value_read pf fmt (GInt32 w) = Some (FVInt (sint w))"
| "value_read pf fmt (GInt16 w) = Some (FVInt (sint w))"
| "value_read pf fmt (GInt8 w) = Some (FVInt (sint w))"
| "value_read pf fmt (GInt w) = Some (FVInt (sint w))"
| "value_read pf fmt (GUint64 w) = Some (FVInt (cap_uint w))"
| "value_read pf fmt (GUint w) = Some (FVInt (cap_uint w))"
| "value_read pf fmt (GUint32 w) = Some (FVInt (uint w))"
| "value_read pf fmt (GUint16 w) = Some (FVInt (uint w))"
| "value_read pf fmt (GUint8 w) = Some (FVInt (uint w))"

text \<open>A value is an integer, a float, a boolean word or a quoted string.\<close>

lemma field_value_kinds:
  assumes "value_ok fmt v"
  obtains (int) n where "field_value_bytes fmt v = int_str n @ ''i''" "- (2 ^ 63) \<le> n" "n < 2 ^ 63"
      "\<And>pf. value_read pf fmt v = Some (FVInt n)"
  | (float) s where "field_value_bytes fmt v = s" "float_text s"
      "\<And>pf. value_read pf fmt v = map_option FVFloat (pf s)"
  | (bool) w where "field_value_bytes fmt v = w" "w = ''true'' \<or> w = ''false''"
      "\<And>pf. value_read pf fmt v = Some (FVBool (w = ''true''))"
  | (string) s where "field_value_bytes fmt v = [dquote] @ esc string_specials s @ [dquote]"
      "backslash \<notin> set s" "\<And>pf. value_read pf fmt v = Some (FVString s)"
proof (cases v)
  case GNil with assms show thesis by simp
next
  case (GFloat64 x) with assms show thesis by (intro float) simp_all
next
  case (GFloat32 x) with assms show thesis by (intro float) simp_all
next
  case (GBytes b) with assms show thesis by simp
next
  case (GString s) with assms show thesis by (intro string) (simp_all add: quoted_def)
next
  case (GOther s) with assms show thesis by (intro string) (simp_all add: quoted_def)
next
  case (GBool b) then show thesis by (intro bool [OF refl]) simp_all
next
  case (GInt64 w) show thesis by (rule int [OF _ range64 [of w]]) (simp_all add: GInt64)
next
  case (GInt w) show thesis by (rule int [OF _ range64 [of w]]) (simp_all add: GInt)
next
  case (GUint64 w) show thesis by (rule int [OF _ range_cap [of w]]) (simp_all add: GUint64)
next
  case (GUint w) show thesis by (rule int [OF _ range_cap [of w]]) (simp_all add: GUint)
next
  case (GInt32 w) show thesis by (rule int [OF _ range_signed(1,2) [of w]]) (simp_all add: GInt32)
next
  case (GInt16 w) show thesis by (rule int [OF _ range_signed(3,4) [of w]]) (simp_all add: GInt16)
next
  case (GInt8 w) show thesis by (rule int [OF _ range_signed(5,6) [of w]]) (simp_all add: GInt8)
next
  case (GUint32 w) show thesis by (rule int [OF _ range_unsigned(1,2) [of w]]) (simp_all add: GUint32)
next
  case (GUint16 w) show thesis by (rule int [OF _ range_unsigned(3,4) [of w]]) (simp_all add: GUint16)
next
  case (GUint8 w) show thesis by (rule int [OF _ range_unsigned(5,6) [of w]]) (simp_all add: GUint8)
qed

lemma int_text_hd:
  obtains c u where "int_str n = c # u" "is_numeric c \<or> c = CHR ''-''"
proof -
  obtain sg ds where s: "int_str n = sg @ ds" "sg = [] \<or> sg = ''-''" "ds \<noteq> []" "list_all is_digit ds"
    by (rule int_str_parts)
  then show thesis using that digit_numeric by (cases ds) auto
qed

lemma float_text_hd:
  assumes "float_text s"
  obtains c u where "s = c # u" "is_numeric c \<or> c = CHR ''-''"
  using assms that
  by (cases s) (auto simp: float_text_def decimal_text_def Let_def split: if_splits)

definition field_ok :: "(nat \<Rightarrow> 'f \<Rightarrow> bytes) \<Rightarrow> bytes \<times> 'f gval \<Rightarrow> bool" where
  "field_ok fmt kv \<longleftrightarrow> fst kv \<noteq> [] \<and> backslash \<notin> set (fst kv) \<and> value_ok fmt (snd kv)"

lemma scan_fields_field:
  assumes "drop i buf = field_bytes fmt kv @ r" "value_stop r" "field_ok fmt kv" "2 \<le> i" "i \<le> length buf"
    and "\<not> fs_quoted x" "fs_equals x = fs_commas x"
  shows "scan_fields_loop buf i x =
           scan_fields_loop buf (i + length (field_bytes fmt kv)) (x\<lparr>fs_equals := Suc (fs_equals x)\<rparr>)"
proof -
  obtain k v where kv: "kv = (k, v)" by (cases kv)
  let ?e = "esc key_specials k" and ?v = "field_value_bytes fmt v"
  let ?j = "i + length ?e"
  let ?x1 = "x\<lparr>fs_equals := Suc (fs_equals x)\<rparr>"
  from assms(3) kv have k: "k \<noteq> []" "backslash \<notin> set k" "value_ok fmt v" by (auto simp: field_ok_def)
  have at: "drop i buf = ?e @ (CHR ''='' # ?v @ r)" using assms(1) kv by (simp add: field_bytes_def)
  have at1: "drop ?j buf = CHR ''='' # ?v @ r" using at_append [OF at] by simp
  note j = atD [OF at1]
  have key: "scan_fields_loop buf i x = scan_fields_loop buf ?j x"
    using scan_fields_key [OF at] k(2) assms(6) by simp
  from key_before [OF at assms(5) k(1,2) assms(4)]
  obtain p where p: "byte_before buf ?j 1 = Some p"
      "p = CHR '' '' \<or> p = CHR '','' \<longrightarrow> byte_before buf ?j 2 = Some backslash" by blast
  have eq: "scan_fields_loop buf ?j x =
      scan_then (scan_value buf ?j) (\<lambda>v. case v of
        Some n \<Rightarrow> scan_fields_loop buf n ?x1 | None \<Rightarrow> scan_fields_loop buf (Suc ?j) ?x1)"
    using j assms(6) by (subst scan_fields_loop.simps) (simp cong: option.case_cong)
  have len: "length (field_bytes fmt kv) = length ?e + length ?v + 1" by (simp add: kv field_bytes_def)
  have nosep: "\<not> (p = CHR '' '' \<and> byte_before buf ?j 2 \<noteq> Some backslash)"
    using p by auto
  from k(3) show ?thesis
  proof (cases rule: field_value_kinds)
    case (int n)
    obtain c u where c: "int_str n = c # u" "is_numeric c \<or> c = CHR ''-''" by (rule int_text_hd)
    have at2: "drop (Suc ?j) buf = int_str n @ ''i'' @ r" using j int(1) by simp
    then have "drop (Suc ?j) buf = c # u @ ''i'' @ r" using c by simp
    note c' = atD [OF this]
    have "scan_value buf ?j = scan_then (scan_number buf (Suc ?j)) (\<lambda>n. scan_ok (Some n))"
      using p c' c(2) numeric_distinct [of c] by (auto simp: scan_value_def)
    also have "\<dots> = scan_ok (Some (Suc ?j + length (int_str n) + 1))"
      using scan_number_int [OF at2 _ assms(2) int(2,3)] by simp
    finally show ?thesis using key eq len int(1) by (simp add: add.assoc)
  next
    case (float s)
    obtain c u where c: "s = c # u" "is_numeric c \<or> c = CHR ''-''" by (rule float_text_hd [OF float(2)])
    have at2: "drop (Suc ?j) buf = s @ r" using j float(1) by simp
    then have "drop (Suc ?j) buf = c # u @ r" using c by simp
    note c' = atD [OF this]
    have "scan_value buf ?j = scan_then (scan_number buf (Suc ?j)) (\<lambda>n. scan_ok (Some n))"
      using p c' c(2) numeric_distinct [of c] by (auto simp: scan_value_def)
    also have "\<dots> = scan_ok (Some (Suc ?j + length s))"
      using scan_number_float [OF at2 _ assms(2) float(2)] by simp
    finally show ?thesis using key eq len float(1) by (simp add: add.assoc)
  next
    case (bool w)
    have at2: "drop (Suc ?j) buf = w @ r" using j bool(1) by simp
    define c u where "c = hd w" and "u = tl w"
    then have c: "w = c # u" "c = CHR ''t'' \<or> c = CHR ''f''" using bool(2) by auto
    then have "drop (Suc ?j) buf = c # u @ r" using at2 by simp
    note c' = atD [OF this]
    have "scan_value buf ?j = scan_then (scan_boolean buf (Suc ?j)) (\<lambda>(n, w). scan_ok (Some n))"
      using p c' c(2) by (auto simp: scan_value_def is_numeric_def is_digit_def)
    also have "\<dots> = scan_ok (Some (Suc ?j + length w))"
      using scan_boolean_word [OF at2 assms(2) bool(2)] by simp
    finally show ?thesis using key eq len bool(1) by (simp add: add.assoc)
  next
    case (string s)
    let ?q = "esc string_specials s"
    have at2: "drop (Suc ?j) buf = dquote # ?q @ dquote # r" using j string(1) by simp
    note q = atD [OF at2]
    have "scan_value buf ?j = scan_ok None"
      using p q by (auto simp: scan_value_def is_numeric_def is_digit_def)
    with eq have "scan_fields_loop buf ?j x = scan_fields_loop buf (Suc ?j) ?x1" by simp
    also have "\<dots> = scan_fields_loop buf (Suc (Suc ?j)) (?x1\<lparr>fs_quoted := True\<rparr>)"
      using q assms(6,7) by (subst scan_fields_loop.simps) simp
    also have "\<dots> = scan_fields_loop buf (Suc (Suc ?j) + length ?q) (?x1\<lparr>fs_quoted := True\<rparr>)"
      using q string(2) by (intro scan_fields_string) auto
    also have "\<dots> = scan_fields_loop buf (Suc (Suc (Suc ?j) + length ?q)) ?x1"
    proof -
      have "drop (Suc (Suc ?j) + length ?q) buf = dquote # r"
        using at_append [of "Suc (Suc ?j)" buf ?q] q by simp
      moreover obtain n where "x = \<lparr>fs_quoted = False, fs_equals = n, fs_commas = n\<rparr>"
        using assms(6,7) by (cases x) auto
      ultimately show ?thesis
        using atD [of "Suc (Suc ?j) + length ?q" buf dquote r] assms(6,7)
        by (subst scan_fields_loop.simps) simp
    qed
    finally show ?thesis using key len string(1) by (simp add: add.assoc)
  qed
qed

lemma scan_fields_list:
  assumes "list_all (field_ok fmt) flds" "flds \<noteq> []"
    and "drop i buf = join '','' (map (field_bytes fmt) flds) @ CHR '' '' # r" "2 \<le> i" "i \<le> length buf"
    and "\<not> fs_quoted x" "fs_equals x = fs_commas x"
  shows "\<exists>x'. scan_fields_loop buf i x =
             scan_ok (i + length (join '','' (map (field_bytes fmt) flds)), x')
           \<and> \<not> fs_quoted x' \<and> fs_equals x' = Suc (fs_commas x')"
  using assms
proof (induction flds arbitrary: i x)
  case (Cons kv flds)
  let ?n = "length (field_bytes fmt kv)"
  let ?x = "x\<lparr>fs_equals := Suc (fs_equals x)\<rparr>"
  show ?case
  proof (cases "flds = []")
    case True
    then have at: "drop i buf = field_bytes fmt kv @ CHR '' '' # r" using Cons.prems by simp
    have "scan_fields_loop buf i x = scan_fields_loop buf (i + ?n) ?x"
      using Cons.prems by (intro scan_fields_field [OF at]) (auto simp: value_stop_def)
    also have "\<dots> = scan_ok (i + ?n, ?x)"
      using atD [OF at_append [OF at]] Cons.prems by (subst scan_fields_loop.simps) simp
    finally show ?thesis using True Cons.prems by (intro exI [of _ ?x]) simp
  next
    case False
    let ?rest = "join '','' (map (field_bytes fmt) flds) @ CHR '' '' # r"
    let ?y = "?x\<lparr>fs_commas := Suc (fs_commas x)\<rparr>"
    have at: "drop i buf = field_bytes fmt kv @ CHR '','' # ?rest"
      using Cons.prems False by (simp add: join_Cons)
    note c = atD [OF at_append [OF at]]
    have "scan_fields_loop buf i x = scan_fields_loop buf (i + ?n) ?x"
      using Cons.prems by (intro scan_fields_field [OF at]) (auto simp: value_stop_def)
    also have "\<dots> = scan_fields_loop buf (Suc (i + ?n)) ?y"
      using c Cons.prems by (subst scan_fields_loop.simps) simp
    finally have "scan_fields_loop buf i x = scan_fields_loop buf (Suc (i + ?n)) ?y" .
    moreover from Cons.IH [of "Suc (i + ?n)" ?y] False Cons.prems c
    obtain x' where "scan_fields_loop buf (Suc (i + ?n)) ?y =
        scan_ok (Suc (i + ?n) + length (join '','' (map (field_bytes fmt) flds)), x')"
      "\<not> fs_quoted x'" "fs_equals x' = Suc (fs_commas x')" by auto
    ultimately show ?thesis using False by (intro exI [of _ x']) (simp add: join_Cons add.assoc)
  qed
qed simp

definition fields_ok :: "(nat \<Rightarrow> 'f \<Rightarrow> bytes) \<Rightarrow> (bytes \<times> 'f gval) list \<Rightarrow> bool" where
  "fields_ok fmt flds \<longleftrightarrow>
     flds \<noteq> [] \<and> list_all (field_ok fmt) flds
     \<and> hd (fst (hd flds)) \<noteq> tabchar \<and> hd (fst (hd flds)) \<noteq> nulchar"

lemma fields_first:
  assumes "fields_ok fmt flds"
  obtains c u where "join '','' (map (field_bytes fmt) flds) = c # u" "\<not> is_space c"
proof -
  obtain kv fs where f: "flds = kv # fs" using assms by (cases flds) (auto simp: fields_ok_def)
  obtain k v where kv: "kv = (k, v)" by (cases kv)
  obtain a k' where k: "k = a # k'" using assms f kv by (cases k) (auto simp: fields_ok_def field_ok_def)
  have "\<exists>c u. field_bytes fmt kv = c # u \<and> \<not> is_space c"
    using assms f kv k
    by (cases "a \<in> key_specials") (auto simp: field_bytes_def fields_ok_def is_space_def key_specials_def)
  then show thesis using that f by (cases fs) auto
qed

lemma scan_fields_run:
  assumes "fields_ok fmt flds" "0 < i"
    and at: "drop i buf = CHR '' '' # join '','' (map (field_bytes fmt) flds) @ CHR '' '' # r"
  shows "scan_fields buf i =
           scan_ok (Suc i + length (join '','' (map (field_bytes fmt) flds)),
                    join '','' (map (field_bytes fmt) flds))"
proof -
  let ?f = "join '','' (map (field_bytes fmt) flds)"
  obtain c u where cu: "?f = c # u" "\<not> is_space c" by (rule fields_first [OF assms(1)])
  have skip: "skip_whitespace buf i = Suc i"
    using skip_whitespace_space [of i buf c "u @ CHR '' '' # r"] at cu by simp
  have at1: "drop (Suc i) buf = ?f @ CHR '' '' # r" "i < length buf" using atD [OF at] by auto
  let ?x = "\<lparr>fs_quoted = False, fs_equals = 0, fs_commas = 0\<rparr>"
  from scan_fields_list [of fmt flds "Suc i" buf r ?x] assms at1
  obtain x' where x': "scan_fields_loop buf (Suc i) ?x = scan_ok (Suc i + length ?f, x')"
      "\<not> fs_quoted x'" "fs_equals x' = Suc (fs_commas x')"
    by (auto simp: fields_ok_def)
  have "bslice buf (Suc i) (Suc i + length ?f) = Some ?f"
    using at1 at_length [OF at1(1)] by simp
  with skip x' show ?thesis by (simp add: scan_fields_def scan_ok_def Let_def)
qed

subsection \<open>The timestamp and the whole line\<close>

lemma scan_time_digits:
  "drop i buf = ds \<Longrightarrow> list_all is_digit ds \<Longrightarrow> i \<le> length buf \<Longrightarrow>
   scan_time_loop buf start i = scan_ok (length buf)"
proof (induction ds arbitrary: i)
  case Nil
  then show ?case by (subst scan_time_loop.simps) auto
next
  case (Cons c ds)
  have "c \<noteq> newline" "c \<noteq> CHR '' ''" "c \<noteq> CHR ''-''" using Cons.prems(2) by (auto simp: is_digit_def)
  with atD [OF Cons.prems(1)] Cons show ?case by (subst scan_time_loop.simps) auto
qed

lemma scan_time_run:
  assumes at: "drop i buf = CHR '' '' # int_str n"
  shows "scan_time buf i = scan_ok (length buf, int_str n)"
proof -
  obtain sg ds where s: "int_str n = sg @ ds" "sg = [] \<or> sg = ''-''" "ds \<noteq> []" "list_all is_digit ds"
    by (rule int_str_parts)
  note i = atD [OF at]
  obtain c u where c: "int_str n = c # u" "\<not> is_space c"
    using s(2-4) unfolding s(1) by (cases ds) (force simp: is_space_def is_digit_def)+
  have skip: "skip_whitespace buf i = Suc i"
    using skip_whitespace_space [of i buf c u] at c by simp
  have "scan_time_loop buf (Suc i) (Suc i) = scan_ok (length buf)"
  proof (cases "sg = []")
    case True
    with i s show ?thesis by (intro scan_time_digits) auto
  next
    case False
    then have "drop (Suc i) buf = CHR ''-'' # ds" using i s by simp
    note j = atD [OF this]
    then have "scan_time_loop buf (Suc i) (Suc (Suc i)) = scan_ok (length buf)"
      using s by (intro scan_time_digits) auto
    with j show ?thesis by (subst scan_time_loop.simps) simp
  qed
  moreover have "bslice buf (Suc i) (length buf) = Some (int_str n)"
    using i by (simp add: bslice_eq_Some Suc_le_eq) (metis length_drop order_refl take_all)
  ultimately show ?thesis using skip by (simp add: scan_time_def scan_ok_def Let_def)
qed

text \<open>The line of a metric is its serialized form without the newline.\<close>

definition metric_line :: "metric \<Rightarrow> bytes" where
  "metric_line m = m_name m @ m_tags m @ '' '' @ m_fields m @ '' '' @ m_t m"

lemma metric_string_line: "metric_string m = metric_line m @ [newline]"
  by (simp add: metric_string_def metric_line_def)

lemma name_index:
  assumes "name_ok name" "list_all tag_ok kvs"
  shows "index_unescaped_byte (esc name_specials name @ tags_bytes kvs) CHR '','' =
           (if kvs = [] then None else Some (length (esc name_specials name)))"
proof (cases kvs)
  case Nil
  then show ?thesis
    using assms index_unescaped_esc(2) [of name name_specials "CHR '',''"]
    by (simp add: name_ok_def name_specials_def)
next
  case (Cons kv kvs')
  then obtain s where "tags_bytes kvs = CHR '','' # s"
    using assms(2) by (auto simp: tag_bytes_def tag_ok_def tag_skip_def)
  then show ?thesis
    using Cons assms index_unescaped_esc(1) [of name name_specials "CHR '',''" s]
    by (simp add: name_ok_def name_specials_def)
qed

lemma parse_metric_line:
  assumes "name_ok name" "list_all tag_ok kvs" "fields_ok fmt flds"
    and m: "m_name m = esc name_specials name" "m_tags m = tags_bytes kvs"
      "m_fields m = join '','' (map (field_bytes fmt) flds)" "m_t m = int_str nano"
    and "length (m_name m) + length (m_tags m) \<le> max_key_length" and "precision_multiplier p = 1"
  shows "parse_metric (metric_line m) t p = Some (Inr (metric_copy m))"
proof -
  let ?key = "esc name_specials name @ tags_bytes kvs"
  let ?f = "join '','' (map (field_bytes fmt) flds)"
  let ?buf = "metric_line m"
  have buf: "?buf = ?key @ CHR '' '' # ?f @ CHR '' '' # int_str nano" by (simp add: metric_line_def m)
  have ne: "esc name_specials name \<noteq> []" using assms(1) by (auto simp: name_ok_def)
  have key: "scan_key ?buf 0 = scan_ok (length ?key, ?key)"
    using scan_key_run [OF assms(1,2), of ?buf] buf by simp
  have at: "drop (length ?key) ?buf = CHR '' '' # ?f @ CHR '' '' # int_str nano" using buf by simp
  have pos: "0 < length ?key" using ne by simp
  have flds: "scan_fields ?buf (length ?key) = scan_ok (Suc (length ?key) + length ?f, ?f)"
    by (rule scan_fields_run [OF assms(3) pos at])
  have at2: "drop (Suc (length ?key) + length ?f) ?buf = CHR '' '' # int_str nano"
    using buf by simp
  have time: "scan_time ?buf (Suc (length ?key) + length ?f) = scan_ok (length ?buf, int_str nano)"
    by (rule scan_time_run [OF at2])
  obtain c u where f: "?f = c # u" by (rule fields_first [OF assms(3)])
  have "m_tags m = []" if "kvs = []" using m that by simp
  with key flds time f ne assms(8,9) m name_index [OF assms(1,2)] show ?thesis
    by (simp add: parse_metric_def scan_ok_def Let_def metric_copy_def copy_with_def)
qed

text \<open>The metrics that can be sent: those \<open>New\<close> builds from parts the line protocol can carry.\<close>

definition sendable :: "(nat \<Rightarrow> 'f \<Rightarrow> bytes) \<Rightarrow> metric \<Rightarrow> bool" where
  "sendable fmt m \<longleftrightarrow>
     (\<exists>name tags1 tags2 flds nano ty.
        new_metric fmt name tags1 tags2 flds nano ty = Some (Inr m)
        \<and> distinct tags1 \<and> distinct tags2 \<and> set tags1 = set tags2
        \<and> name_ok name \<and> list_all tag_ok tags2 \<and> fields_ok fmt flds)
     \<and> length (m_name m) + length (m_tags m) \<le> max_key_length \<and> newline \<notin> set (metric_line m)"

lemma value_ok_not_nil: "field_ok fmt kv \<Longrightarrow> snd kv \<noteq> GNil"
  by (auto simp: field_ok_def)

lemma sendable_line:
  assumes "sendable fmt m" "precision_multiplier p = 1"
  shows "parse_metric (metric_line m) t p = Some (Inr (metric_copy m))"
    and "6 \<le> length (metric_line m)" and "newline \<notin> set (metric_line m)"
proof -
  from assms(1) obtain name tags1 tags2 flds nano ty where
    n: "new_metric fmt name tags1 tags2 flds nano ty = Some (Inr m)"
      "distinct tags1" "distinct tags2" "set tags1 = set tags2"
      "name_ok name" "list_all tag_ok tags2" "fields_ok fmt flds"
      "length (m_name m) + length (m_tags m) \<le> max_key_length" "newline \<notin> set (metric_line m)"
    unfolding sendable_def by blast
  have "\<forall>kv \<in> set flds. snd kv \<noteq> GNil" using n(7) value_ok_not_nil by (auto simp: fields_ok_def list_all_iff)
  then have m: "m = \<lparr>m_name = esc name_specials name, m_tags = tags_bytes tags2,
           m_fields = join '','' (map (field_bytes fmt) flds), m_t = int_str nano,
           m_type = (case ty of Some y \<Rightarrow> y | None \<Rightarrow> Untyped),
           m_aggregate = False, m_hashID = 0, m_nsec = nano\<rparr>"
    using n new_metric_eq [of flds name tags1 tags2 fmt nano ty]
    by (auto simp: name_ok_def fields_ok_def)
  show "parse_metric (metric_line m) t p = Some (Inr (metric_copy m))"
    by (rule parse_metric_line [OF n(5,6,7)]) (use m n(8) assms(2) in auto)
  show "newline \<notin> set (metric_line m)" by (rule n(9))
  obtain kv fs where f: "flds = kv # fs" using n(7) by (cases flds) (auto simp: fields_ok_def)
  have kv: "fst kv \<noteq> []" "value_ok fmt (snd kv)" using n(7) f by (auto simp: fields_ok_def field_ok_def)
  from kv(2) have "field_value_bytes fmt (snd kv) \<noteq> []"
    by (cases rule: field_value_kinds) (auto simp: float_text_def decimal_text_def)
  then have "3 \<le> length (field_bytes fmt kv)"
    using kv(1) by (cases "fst kv"; cases "field_value_bytes fmt (snd kv)") (auto simp: field_bytes_def)
  then have "3 \<le> length (join '','' (map (field_bytes fmt) flds))" using f by (cases fs) auto
  moreover have "1 \<le> length (esc name_specials name)" "1 \<le> length (int_str nano)"
    using n(5) by (auto simp: name_ok_def Suc_le_eq)
  ultimately show "6 \<le> length (metric_line m)" by (simp add: metric_line_def m)
qed

lemma parse_lines_sendable:
  assumes "list_all (sendable fmt) ms" "precision_multiplier p = 1"
    and "drop i buf = concat (map metric_string ms)"
  shows "parse_lines buf t p i = Some (map metric_copy ms, [])"
  using assms(1,3)
proof (induction ms arbitrary: i)
  case Nil
  then show ?case by (subst parse_lines.simps) simp
next
  case (Cons m ms)
  from Cons.prems(1) have sm: "sendable fmt m" and sms: "list_all (sendable fmt) ms" by simp_all
  note line = sendable_line [OF sm assms(2)]
  have at: "drop i buf = metric_line m @ newline # concat (map metric_string ms)"
    using Cons.prems(2) by (simp add: metric_string_line [of m])
  have ix: "index_byte (drop i buf) newline = Some (length (metric_line m))"
    using line(3) at by simp
  have "drop (i + length (metric_line m) + 1) buf = concat (map metric_string ms)"
    using at_append [of i buf "metric_line m @ [newline]"] at by simp
  with Cons.IH [OF sms this] ix at line(1,2) show ?case
    by (subst parse_lines.simps) (simp add: Let_def)
qed

lemma parse_points_long: "6 < length buf \<Longrightarrow> parse_points buf t p = parse_lines buf t p 0"
  by (auto simp: parse_points_def)


text \<open>Metrics with a tag, an escaped name, and fields of four kinds; the only float is 1.5.\<close>

definition demo_fmt :: "nat \<Rightarrow> unit \<Rightarrow> bytes" where
  "demo_fmt bits x = ''1.5''"

definition demo_metric :: "metric" where
  "demo_metric =
     copy_with [CHR ''c'', backslash, CHR '' '', CHR ''u''] '',host=a''
       (''n=-7i,ok=true,msg='' @ [dquote] @ ''x y'' @ [dquote] @ '',f=1.5'') ''99''"

definition demo_new :: "metric" where
  "demo_new = demo_metric\<lparr>m_type := Gauge, m_nsec := 99\<rparr>"

lemma demo_copy: "metric_copy demo_new = demo_metric"
  by (simp add: metric_copy_def copy_with_def demo_metric_def demo_new_def)

lemma demo_sendable: "sendable demo_fmt demo_new"
proof -
  let ?tags = "[(''host'', ''a'')]"
  let ?flds = "[(''n'', GInt8 (- 7)), (''ok'', GBool True), (''msg'', GString ''x y''), (''f'', GFloat64 ())]"
  have digits: "int_str (- 7) = ''-7''" "int_str 99 = ''99''"
    by code_simp+
  have new: "new_metric demo_fmt ''c u'' ?tags ?tags ?flds 99 (Some Gauge) = Some (Inr demo_new)"
    by (subst new_metric_eq)
      (simp_all add: demo_new_def demo_metric_def copy_with_def digits field_bytes_def tag_bytes_def
        tag_skip_def key_specials_def name_specials_def quoted_def string_specials_def demo_fmt_def)
  have name: "name_ok ''c u''" and tags: "list_all tag_ok ?tags" by (simp_all add: name_ok_def tag_ok_def)
  have "float_text ''1.5''"
    by (simp add: float_text_def decimal_text_def is_numeric_def is_digit_def parse_float_err_def
        exponent_part_def float_overflow_def digit_val_def)
  then have flds: "fields_ok demo_fmt ?flds"
    by (simp add: fields_ok_def field_ok_def demo_fmt_def)
  have "length (m_name demo_new) + length (m_tags demo_new) \<le> max_key_length"
    "newline \<notin> set (metric_line demo_new)"
    by (simp_all add: demo_new_def demo_metric_def copy_with_def max_key_length_def metric_line_def)
  with new name tags flds show ?thesis
    unfolding sendable_def
    by (intro conjI exI [of _ "''c u''"] exI [of _ ?tags] exI [of _ ?flds] exI [of _ "99 :: int"]
        exI [of _ "Some Gauge"]) simp_all
qed


end
