(* ===== verification/Metric_Props.thy ===== *)
theory Metric_Props
  imports Metric_Roundtrip "HOL-Library.Multiset"
begin

text \<open>
  What the operations of a metric promise: serializing into a buffer, splitting, the map of tags, the
  edits and the cached hash; and where the code does not do what it means to.
\<close>

subsection \<open>Serializing\<close>

text \<open>
  C20: \<open>Serialize\<close> gives the bytes of \<open>String\<close>, which has \<open>Len()\<close> of them, and \<open>SerializeTo\<close> writes the longest prefix of
  them that fits into the destination, leaves the rest of the destination alone, returns the number of bytes written and
  never panics.
\<close>

theorem serialize_agree:
  "serialize m = Some (metric_string m) \<and> length (metric_string m) = metric_len m
     \<and> serialize_to m dst =
        (let n = min (metric_len m) (length dst) in Some (take n (metric_string m) @ drop n dst, n))"
  by (simp add: serialize_to_eq)

subsection \<open>Searching over several parts\<close>

text \<open>Every \<open>b\<close> in the string is escaped.\<close>

definition guarded :: "char \<Rightarrow> bytes \<Rightarrow> bool" where
  "guarded b u \<longleftrightarrow> (\<forall>n < length u. u ! n = b \<longrightarrow> 0 < n \<and> odd (count_backslashes u n))"

lemma guarded_absent: "b \<notin> set u \<Longrightarrow> guarded b u"
  by (auto simp: guarded_def)

lemma guarded_esc: "backslash \<notin> set s \<Longrightarrow> backslash \<notin> S \<Longrightarrow> b \<in> S \<Longrightarrow> guarded b (esc S s)"
  using esc_special [of s S] by (fastforce simp: guarded_def)

lemma guarded_append:
  assumes "guarded b u" "guarded b v" "u = [] \<or> last u \<noteq> backslash"
  shows "guarded b (u @ v)"
  unfolding guarded_def
proof (intro allI impI)
  fix n assume n: "n < length (u @ v)" "(u @ v) ! n = b"
  show "0 < n \<and> odd (count_backslashes (u @ v) n)"
  proof (cases "n < length u")
    case True
    with n assms(1) show ?thesis by (auto simp: guarded_def nth_append)
  next
    case False
    define k where "k = n - length u"
    with False n have k: "n = length u + k" "k < length v" "v ! k = b" by (auto simp: nth_append)
    with assms count_backslashes_drop_prefix [of u v k] show ?thesis by (auto simp: guarded_def)
  qed
qed

lemma count_backslashes_end:
  "u = [] \<or> last u \<noteq> backslash \<Longrightarrow> count_backslashes u (length u) = 0"
  by (cases u rule: rev_cases) (auto simp: nth_append)

lemma index_guarded:
  assumes "guarded b u" "b \<noteq> backslash" "u = [] \<or> last u \<noteq> backslash"
  shows "index_unescaped_byte (u @ b # r) b = Some (length u)"
proof (rule index_unescaped_byte_hit)
  show "even (count_backslashes (u @ b # r) (length u))"
    using count_backslashes_end [OF assms(3)] by simp
  fix n assume "n < length u" "(u @ b # r) ! n = b"
  with assms(1) show "0 < n \<and> odd (count_backslashes (u @ b # r) n)"
    by (auto simp: guarded_def nth_append)
qed (use assms in auto)

lemma index_guarded_None:
  "guarded b u \<Longrightarrow> b \<noteq> backslash \<Longrightarrow> index_unescaped_byte u b = None"
  by (rule index_unescaped_byte_miss) (auto simp: guarded_def)

lemma guarded_key:
  assumes "backslash \<notin> set s" "b \<in> key_specials"
  shows "guarded b (esc key_specials s)" "guarded dquote (esc string_specials s)"
  using guarded_esc [of s key_specials b] guarded_esc [of s string_specials dquote] assms
  by (auto simp: key_specials_def string_specials_def)

lemma last_esc_iff: "backslash \<notin> set s \<Longrightarrow> esc S s = [] \<or> last (esc S s) \<noteq> backslash"
  by (cases "s = []") (auto simp: last_esc)

subsection \<open>Splitting fields\<close>

lemma field_pieces_parts:
  "list_all (\<lambda>p. guarded CHR '','' p \<and> p \<noteq> [] \<and> last p \<noteq> backslash) ps \<Longrightarrow> drop i fs = join '','' ps \<Longrightarrow> field_pieces fs i = ps"
proof (induction ps arbitrary: i)
  case Nil
  then show ?case by (subst field_pieces.simps) simp
next
  case (Cons p ps)
  have p: "guarded CHR '','' p" "p \<noteq> []" "last p \<noteq> backslash" using Cons.prems(1) by simp_all
  show ?case
  proof (cases "ps = []")
    case True
    then have "field_end fs i = length fs" "drop i fs = p"
      using Cons.prems(2) index_guarded_None [OF p(1)] by (simp_all add: field_end_def)
    moreover from this have "i < length fs" "length fs - i = length p" using p(2) by (metis drop_all not_le, metis length_drop)
    ultimately show ?thesis using True by (subst field_pieces.simps, subst field_pieces.simps) simp
  next
    case False
    then have at: "drop i fs = p @ CHR '','' # join '','' ps" using Cons.prems(2) by (simp add: join_Cons)
    then have e: "field_end fs i = length p + i" using index_guarded [OF p(1), of "join '','' ps"] p(3) by (simp add: field_end_def)
    have "drop (Suc (length p + i)) fs = join '','' ps"
      using at_append [of i fs "p @ '',''" "join '','' ps"] at by (simp add: add_ac)
    then have "field_pieces fs (Suc (length p + i)) = ps" using Cons by simp
    moreover have "i < length fs" using at by (metis drop_all not_le append_is_Nil_conv list.distinct(1))
    ultimately show ?thesis using e at by (subst field_pieces.simps) simp
  qed
qed

lemma join_snoc: "xs \<noteq> [] \<Longrightarrow> join sep (xs @ [x]) = join sep xs @ sep @ x"
  by (induction xs rule: induct_list012) simp_all

lemma join_map_Nil: "\<forall>x \<in> set as. f x \<noteq> [] \<Longrightarrow> join sep (map f as) = [] \<longleftrightarrow> as = []"
  by (induction as rule: induct_list012) auto

text \<open>The groups are runs of whole fields; one of several fields is no longer than asked for.\<close>

lemma field_groups_runs:
  assumes "\<forall>x \<in> set (as @ xs). f x \<noteq> []" "as = [] \<or> length as = 1 \<or> int (length (join '','' (map f as)) + c) \<le> n"
  shows "\<exists>gs. concat gs = as @ xs
    \<and> field_groups n c (join '','' (map f as)) (map f xs) = map (\<lambda>g. join '','' (map f g)) gs
    \<and> list_all (\<lambda>g. length g = 1 \<or> int (length (join '','' (map f g)) + c) \<le> n) gs"
  using assms
proof (induction xs arbitrary: as)
  case Nil
  have "join '','' (map f as) = [] \<longleftrightarrow> as = []" using Nil.prems(1) by (intro join_map_Nil) simp
  then show ?case using Nil.prems(2) by (intro exI [of _ "if as = [] then [] else [as]"]) auto
next
  case (Cons x xs)
  have ne: "join '','' (map f as) = [] \<longleftrightarrow> as = []" using Cons.prems(1) by (intro join_map_Nil) simp
  show ?case
  proof (cases "int (length (f x) + length (join '','' (map f as)) + c) \<ge> n")
    case True
    obtain gs where gs: "concat gs = [x] @ xs" "field_groups n c (f x) (map f xs) = map (\<lambda>g. join '','' (map f g)) gs"
      "list_all (\<lambda>g. length g = 1 \<or> int (length (join '','' (map f g)) + c) \<le> n) gs"
      using Cons.IH [of "[x]"] Cons.prems(1) by auto
    then show ?thesis using True ne Cons.prems(2) by (intro exI [of _ "(if as = [] then [] else [as]) @ gs"]) auto
  next
    case False
    have acc: "(if join '','' (map f as) \<noteq> [] then join '','' (map f as) @ '','' @ f x else f x) = join '','' (map f (as @ [x]))"
      using ne by (simp add: join_snoc)
    have small: "as @ [x] = [] \<or> length (as @ [x]) = 1 \<or> int (length (join '','' (map f (as @ [x]))) + c) \<le> n"
      using False by (cases "as = []") (simp_all add: join_snoc)
    have step: "field_groups n c (join '','' (map f as)) (map f (x # xs)) = field_groups n c (join '','' (map f (as @ [x]))) (map f xs)"
      unfolding acc [symmetric] using False by simp
    show ?thesis unfolding step using Cons.IH [OF _ small] Cons.prems(1) by simp
  qed
qed

lemma field_bytes_whole:
  assumes "field_ok fmt kv" "CHR '','' \<notin> set (field_value_bytes fmt (snd kv))"
  shows "guarded CHR '','' (field_bytes fmt kv) \<and> field_bytes fmt kv \<noteq> [] \<and> last (field_bytes fmt kv) \<noteq> backslash"
proof -
  obtain k v where kv: "kv = (k, v)" by (cases kv)
  have k: "k \<noteq> []" "backslash \<notin> set k" and v: "value_ok fmt v" using assms(1) by (simp_all add: field_ok_def kv)
  have val: "field_value_bytes fmt v \<noteq> [] \<and> last (field_value_bytes fmt v) \<noteq> backslash"
    using v
  proof (cases rule: field_value_kinds)
    case (float s)
    then have "s \<noteq> []" "last s = CHR ''-'' \<or> is_numeric (last s)"
      by (cases s; auto simp: float_text_def decimal_text_def list_all_iff Let_def split: if_splits)+
    then show ?thesis using float(1) numeric_distinct [of "last s"] by auto
  qed auto
  have "guarded CHR '','' (''='' @ field_value_bytes fmt v)" using assms(2) by (intro guarded_absent) (simp add: kv)
  with guarded_append [OF guarded_key(1) [OF k(2)] this last_esc_iff [OF k(2)]]
  have "guarded CHR '','' (esc key_specials k @ ''='' @ field_value_bytes fmt v)" by (simp add: key_specials_def)
  then show ?thesis using val by (simp add: kv field_bytes_def)
qed



text \<open>A metric with one string field that holds a comma, and the two pieces \<open>Split\<close> makes of it.\<close>

definition comma_metric :: "metric" where
  "comma_metric = \<lparr>m_name = ''m'', m_tags = [], m_fields = ''s='' @ [dquote] @ ''x,y'' @ [dquote], m_t = ''9'',
     m_type = Untyped, m_aggregate = False, m_hashID = 0, m_nsec = 9\<rparr>"

definition comma_left :: "metric" where
  "comma_left = copy_with ''m'' [] (''s='' @ [dquote] @ ''x'') ''9''"

definition comma_right :: "metric" where
  "comma_right = copy_with ''m'' [] (''y'' @ [dquote]) ''9''"

lemmas comma_defs = comma_metric_def comma_left_def comma_right_def metric_line_def copy_with_def

text \<open>
  \<open>Split\<close> looks for unescaped commas only, and \<open>New\<close> does not escape a comma inside a string field
  (it is quoted), so splitting cuts a string field that holds a comma in two: the metric parses, but
  neither of the two metrics \<open>Split\<close> makes of it can be parsed again.
\<close>

theorem split_breaks_string_field:
  "new_metric demo_fmt ''m'' [] [] [(''s'', GString ''x,y'')] 9 None = Some (Inr comma_metric)
   \<and> metric_split comma_metric 10 = Some [comma_left, comma_right]
   \<and> parse_metric (metric_line comma_metric) 0 [] = Some (Inr (metric_copy comma_metric))
   \<and> (\<exists>e. parse_metric (metric_line comma_left) 0 [] = Some (Inl e))
   \<and> (\<exists>e. parse_metric (metric_line comma_right) 0 [] = Some (Inl e))"
proof (intro conjI)
  show "new_metric demo_fmt ''m'' [] [] [(''s'', GString ''x,y'')] 9 None = Some (Inr comma_metric)"
    unfolding comma_defs by code_simp
  show "metric_split comma_metric 10 = Some [comma_left, comma_right]"
    unfolding comma_defs by code_simp
  let ?w = "metric_line comma_metric" and ?l = "metric_line comma_left" and ?r = "metric_line comma_right"
  have k: "scan_key ?w 0 = Some (Inr (1, ''m''))" "scan_key ?l 0 = Some (Inr (1, ''m''))"
      "scan_key ?r 0 = Some (Inr (1, ''m''))"
    and f: "scan_fields ?w 1 = Some (Inr (9, ''s='' @ [dquote] @ ''x,y'' @ [dquote]))"
    and t: "scan_time ?w 9 = Some (Inr (11, ''9''))"
    and n: "index_unescaped_byte ''m'' CHR '','' = None"
    unfolding comma_defs by code_simp+
  have len: "length ''m'' \<le> max_key_length" by (simp add: max_key_length_def)
  have e: "\<exists>j e. scan_fields ?l 1 = Some (Inl (j, e))" "\<exists>j e. scan_fields ?r 1 = Some (Inl (j, e))"
  proof -
    have "scan_fields ?l 1 = Some (Inl (8, MakeError ''unbalanced quotes'' ?l 8))"
      "scan_fields ?r 1 = Some (Inl (4, MakeError ''invalid field format'' ?r 4))"
      unfolding comma_defs by code_simp+
    then show "\<exists>j e. scan_fields ?l 1 = Some (Inl (j, e))" "\<exists>j e. scan_fields ?r 1 = Some (Inl (j, e))"
      by blast+
  qed
  show "parse_metric ?w 0 [] = Some (Inr (metric_copy comma_metric))"
    using parse_metric_no_tags [OF k(1) _ len n f _ t]
    by (simp add: comma_metric_def metric_copy_def copy_with_def)
  show "\<exists>e. parse_metric ?l 0 [] = Some (Inl e)" "\<exists>e. parse_metric ?r 0 [] = Some (Inl e)"
    using e parse_metric_bad_fields [OF k(2) _ len] parse_metric_bad_fields [OF k(3) _ len] by auto
qed

subsection \<open>The map of tags\<close>

lemma tags_loop_run:
  assumes "list_all tag_ok kvs" "kvs \<noteq> []" "distinct (map fst kvs)"
    and "drop i ts = tags_bytes kvs" "fst ` set kvs \<inter> dom m = {}"
  shows "tags_loop ts i m = Some (m ++ map_of kvs)"
  using assms
proof (induction kvs arbitrary: i m)
  case (Cons kv kvs)
  obtain k v where kv: "kv = (k, v)" by (cases kv)
  with Cons.prems have ok: "k \<noteq> []" "v \<noteq> []" "backslash \<notin> set k" "backslash \<notin> set v"
    by (auto simp: tag_ok_def)
  let ?k = "esc key_specials k" and ?v = "esc key_specials v"
  let ?rest = "drop i ts"
  have skip: "\<not> tag_skip kv" using ok kv by (simp add: tag_skip_def)
  have rest: "?rest = CHR '','' # ?k @ CHR ''='' # ?v @ tags_bytes kvs"
    using Cons.prems skip kv by (simp add: tag_bytes_def)
  have c: "index_unescaped_byte ?rest CHR '','' = Some 0"
    using index_guarded [of "CHR '',''" "[]"] rest by (simp add: guarded_def)
  have e: "index_unescaped_byte ?rest CHR ''='' = Some (Suc (length ?k))"
  proof -
    have "guarded CHR ''='' ('','' @ ?k)"
      using guarded_append [OF guarded_absent guarded_key(1) [OF ok(3)], of "CHR ''=''" "'',''"]
      by (simp add: key_specials_def)
    then show ?thesis
      using index_guarded [of "CHR ''=''" "'','' @ ?k" "?v @ tags_bytes kvs"] rest last_esc_iff [OF ok(3)] ok(1)
      by auto
  qed
  have d: "drop (i + (Suc (length ?k) + 1)) ts = ?v @ tags_bytes kvs"
    using at_append [of i ts "'','' @ ?k @ ''=''"] rest by simp
  have gv: "guarded CHR '','' ?v" using guarded_key(1) [OF ok(4)] by (simp add: key_specials_def)
  have un: "unescape ?k ''tagkey'' = k" "unescape ?v ''tagval'' = v" using unescape_esc ok by auto
  have key: "bslice ?rest 1 (Suc (length ?k)) = Some ?k" using rest by (simp add: bslice_eq_Some)
  show ?case
  proof (cases "kvs = []")
    case True
    then have "index_unescaped_byte (drop (i + (Suc (length ?k) + 1)) ts) CHR '','' = None"
      using index_guarded_None [OF gv] d by simp
    moreover have "drop (Suc (length ?k) + 1) ?rest = ?v" using rest True by simp
    ultimately show ?thesis
      using c e key un True kv by (subst tags_loop.simps) (simp add: Let_def del: drop_drop)
  next
    case False
    obtain s where s: "tags_bytes kvs = CHR '','' # s"
      using False Cons.prems(1) by (cases kvs) (auto simp: tag_bytes_def tag_ok_def tag_skip_def)
    have i3: "index_unescaped_byte (drop (i + (Suc (length ?k) + 1)) ts) CHR '','' = Some (length ?v)"
      using index_guarded [OF gv] d s last_esc_iff [OF ok(4)] by auto
    have val: "bslice ?rest (Suc (length ?k) + 1) (Suc (length ?k) + 1 + length ?v) = Some ?v"
      using rest by (simp add: bslice_eq_Some)
    have d2: "drop (i + (Suc (length ?k) + 1 + length ?v)) ts = tags_bytes kvs"
      using at_append [OF d] by (simp add: add.assoc)
    have "tags_loop ts (i + (Suc (length ?k) + 1 + length ?v)) (m(k \<mapsto> v)) =
        Some (m(k \<mapsto> v) ++ map_of kvs)"
    proof (rule Cons.IH)
      have "k \<notin> fst ` set kvs" "fst ` set kvs \<inter> dom m = {}" using Cons.prems kv by auto
      then show "fst ` set kvs \<inter> dom (m(k \<mapsto> v)) = {}" by (simp add: dom_fun_upd)
    qed (use Cons.prems False d2 in auto)
    moreover have "m(k \<mapsto> v) ++ map_of kvs = m ++ map_of (kv # kvs)"
      using Cons.prems kv by (simp add: map_add_upd_left dom_map_of_conv_image_fst)
    ultimately show ?thesis
      using c e key un i3 val by (subst tags_loop.simps) (simp add: Let_def del: drop_drop)
  qed
qed simp

text \<open>
  the tags and the name given to \<open>New\<close> are the ones \<open>Tags\<close> and \<open>Name\<close> return, whatever order the map
  of tags is visited in, when no key or value is empty or holds a backslash.
\<close>

theorem new_metric_tags:
  assumes "new_metric fmt name tags1 tags2 flds nano ty = Some (Inr m)"
    and "distinct tags1" "set tags1 = set tags2" "distinct (map fst tags2)" "list_all tag_ok tags2"
    and "backslash \<notin> set name"
  shows "metric_tags m = Some (map_of tags2) \<and> metric_name m = name"
proof -
  have d: "distinct tags2" using assms(4) by (simp add: distinct_map)
  have m: "m_tags m = tags_bytes tags2" "m_name m = esc name_specials name"
    using assms(1) fill_tags_eq [OF assms(2) d assms(3)] by (auto simp: new_metric_def split: if_splits)
  have "metric_tags m = Some (map_of tags2)"
  proof (cases "tags2 = []")
    case True
    with m show ?thesis by (simp add: metric_tags_def)
  next
    case False
    then have "m_tags m \<noteq> []"
      using assms(5) m by (cases tags2) (auto simp: tag_bytes_def tag_ok_def tag_skip_def)
    with tags_loop_run [OF assms(5) False assms(4), of 0 "m_tags m" Map.empty] m show ?thesis
      by (simp add: metric_tags_def)
  qed
  with m unescape_esc(4) [OF assms(6)] show ?thesis by (simp add: metric_name_def)
qed

theorem new_metric_tags_witness:
  "\<exists>m. new_metric demo_fmt ''c u'' [(''b'', ''2''), (''a,'', ''1'')] [(''a,'', ''1''), (''b'', ''2'')]
         [(''f'', GBool True)] 5 None = Some (Inr m)
     \<and> metric_tags m = Some (map_of [(''a,'', ''1''), (''b'', ''2'')]) \<and> metric_name m = ''c u''"
proof -
  obtain m where m: "new_metric demo_fmt ''c u'' [(''b'', ''2''), (''a,'', ''1'')] [(''a,'', ''1''), (''b'', ''2'')]
         [(''f'', GBool True)] 5 None = Some (Inr m)"
    using new_metric_eq [of "[(''f'', GBool True)]" "''c u''" "[(''b'', ''2''), (''a,'', ''1'')]"
        "[(''a,'', ''1''), (''b'', ''2'')]" demo_fmt 5 None] by auto
  have "metric_tags m = Some (map_of [(''a,'', ''1''), (''b'', ''2'')]) \<and> metric_name m = ''c u''"
    by (rule new_metric_tags [OF m]) (auto simp: tag_ok_def)
  with m show ?thesis by blast
qed

subsection \<open>The map of fields\<close>

lemma nth_after: "(u @ v) ! length u = hd v" if "v \<noteq> []"
  using that by (cases v) auto

lemma comma_after_value:
  assumes "backslash \<notin> set k" "CHR '','' \<notin> set w" "w \<noteq> []" "last w \<noteq> backslash"
    and "tail = [] \<or> hd tail = CHR '',''"
  shows "(case index_unescaped_byte (esc key_specials k @ CHR ''='' # w @ tail) CHR '','' of
            None \<Rightarrow> length (esc key_specials k @ CHR ''='' # w @ tail) | Some j \<Rightarrow> j) =
         length (esc key_specials k @ CHR ''='' # w)"
proof -
  let ?u = "esc key_specials k @ CHR ''='' # w"
  have g: "guarded CHR '','' ?u"
    using guarded_append [OF guarded_key(1) [OF assms(1)] guarded_absent, of "CHR '',''" "CHR ''='' # w"]
      last_esc_iff [OF assms(1)] assms(2) by (simp add: key_specials_def)
  show ?thesis
  proof (cases tail)
    case Nil
    with index_guarded_None [OF g] show ?thesis by simp
  next
    case (Cons c r)
    with index_guarded [OF g, of r] assms show ?thesis by simp
  qed
qed

lemma field_step:
  assumes "field_ok fmt kv" "tail = [] \<or> hd tail = CHR '',''"
    and "rest = field_bytes fmt kv @ tail"
  shows "index_unescaped_byte rest CHR ''='' = Some (length (esc key_specials (fst kv)))"
    and "field_value_end rest (length (esc key_specials (fst kv)) + 1) = Some (length (field_bytes fmt kv))"
    and "field_value pf rest (length (esc key_specials (fst kv)) + 1) (length (field_bytes fmt kv)) =
           Some (value_read pf fmt (snd kv))"
proof -
  obtain k v where kv: "kv = (k, v)" by (cases kv)
  from assms(1) kv have k: "k \<noteq> []" "backslash \<notin> set k" "value_ok fmt v" by (auto simp: field_ok_def)
  let ?k = "esc key_specials k" and ?v = "field_value_bytes fmt v"
  have rest: "rest = ?k @ CHR ''='' # ?v @ tail" using assms(3) kv by (simp add: field_bytes_def)
  have len: "length (field_bytes fmt kv) = Suc (length ?k) + length ?v" using kv by (simp add: field_bytes_def)
  have "guarded CHR ''='' ?k" using guarded_key(1) [OF k(2)] by (simp add: key_specials_def)
  then show "index_unescaped_byte rest CHR ''='' = Some (length (esc key_specials (fst kv)))"
    using index_guarded [of "CHR ''=''" ?k "?v @ tail"] last_esc_iff [OF k(2)] rest kv by auto
  have d: "drop (Suc (length ?k)) rest = ?v @ tail" using rest by simp
  have i2: "Suc (length ?k) < length rest \<and> rest ! Suc (length ?k) = c" if "?v @ tail = c # u" for c u
    using atD [of "Suc (length ?k)" rest c u] d that by simp
  have sl: "bslice rest (Suc (length ?k)) (Suc (length ?k) + n) = Some (take n ?v)" if "n \<le> length ?v" for n
    using rest that by (simp add: bslice_eq_Some)
  have ca: "field_value_end rest (Suc (length ?k)) = Some (Suc (length ?k) + length ?v)"
    if "CHR '','' \<notin> set ?v" "?v \<noteq> []" "last ?v \<noteq> backslash"
      "Suc (length ?k) < length rest" "rest ! Suc (length ?k) \<noteq> dquote"
  proof -
    have "(case index_unescaped_byte rest CHR '','' of None \<Rightarrow> length rest | Some j \<Rightarrow> j) =
        Suc (length ?k) + length ?v"
      using comma_after_value [OF k(2) that(1-3) assms(2)] unfolding rest by simp
    with that(4,5) show ?thesis by (simp add: field_value_end_def)
  qed
  have "field_value_end rest (Suc (length ?k)) = Some (Suc (length ?k) + length ?v)
    \<and> field_value pf rest (Suc (length ?k)) (Suc (length ?k) + length ?v) = Some (value_read pf fmt v)"
    using k(3)
  proof (cases rule: field_value_kinds)
    case (int n)
    obtain c u where c: "int_str n = c # u" "is_numeric c \<or> c = CHR ''-''" by (rule int_text_hd)
    have c': "Suc (length ?k) < length rest" "rest ! Suc (length ?k) = c" using i2 int(1) c(1) by auto
    have ne: "c \<noteq> dquote" "c = CHR ''-'' \<or> is_digit c"
    proof -
      obtain sg ds where "int_str n = sg @ ds" "sg = [] \<or> sg = ''-''" "ds \<noteq> []" "list_all is_digit ds"
        by (rule int_str_parts)
      with c show "c = CHR ''-'' \<or> is_digit c" by (cases ds) auto
      then show "c \<noteq> dquote" by (auto simp: is_digit_def)
    qed
    have nocomma: "CHR '','' \<notin> set ?v"
    proof -
      obtain sg ds where "int_str n = sg @ ds" "sg = [] \<or> sg = ''-''" "list_all is_digit ds"
        by (rule int_str_parts)
      then show ?thesis using int(1) by (auto simp: list_all_iff is_digit_def)
    qed
    have e: "field_value_end rest (Suc (length ?k)) = Some (Suc (length ?k) + length ?v)"
      using c' ne int(1) by (intro ca [OF nocomma]) auto
    have l: "rest ! (length ?k + length ?v) = CHR ''i''" using rest int(1) by (simp add: nth_append)
    have s: "bslice rest (Suc (length ?k)) (length ?k + length ?v) = Some (int_str n)"
      using sl [of "length (int_str n)"] int(1) by simp
    have lt: "length ?k + length ?v < length rest" using rest by simp
    show ?thesis
      using e l s c' ne lt parse_int64_int_str [OF int(2,3)] int(4)
      by (auto simp: field_value_def)
  next
    case (float s)
    then have sd: "decimal_text s" by (simp add: float_text_def)
    have shape: "\<forall>c \<in> set s. is_numeric c \<or> c = CHR ''-''" "s \<noteq> []"
      using sd by (cases s; auto simp: decimal_text_def Let_def list_all_iff split: if_splits)+
    obtain c u where c: "s = c # u" "is_numeric c \<or> c = CHR ''-''" by (rule float_text_hd [OF float(2)])
    have c': "Suc (length ?k) < length rest" "rest ! Suc (length ?k) = c" using i2 float(1) c(1) by auto
    have num: "x \<noteq> CHR '','' \<and> x \<noteq> backslash \<and> x \<noteq> CHR ''i'' \<and> x \<noteq> dquote" if "x \<in> set s" for x
    proof -
      consider "is_numeric x" | "x = CHR ''-''" using shape(1) \<open>x \<in> set s\<close> by blast
      then show ?thesis using numeric_distinct [of x] by cases simp_all
    qed
    have lastv: "last ?v \<noteq> backslash" "last ?v \<noteq> CHR ''i''" "CHR '','' \<notin> set ?v" "c \<noteq> dquote"
    proof -
      have "last s \<in> set s" "c \<in> set s" using shape(2) c(1) by simp_all
      from num [OF this(1)] num [OF this(2)] num [of "CHR '',''"] float(1)
      show "last ?v \<noteq> backslash" "last ?v \<noteq> CHR ''i''" "CHR '','' \<notin> set ?v" "c \<noteq> dquote"
        by blast+
    qed
    have e: "field_value_end rest (Suc (length ?k)) = Some (Suc (length ?k) + length ?v)"
      using c' lastv(4) float(1) shape(2) by (intro ca [OF lastv(3) _ lastv(1)]) auto
    have l: "rest ! (length ?k + length ?v) = last ?v" "length ?k + length ?v < length rest"
      using rest float(1) shape(2) by (auto simp: nth_append nth_Cons last_conv_nth split: nat.splits)
    have dot: "c = CHR ''-'' \<or> is_digit c"
      using sd c(1) by (auto simp: decimal_text_def split: if_splits)
    have s: "bslice rest (Suc (length ?k)) (Suc (length ?k) + length ?v) = Some s"
      using sl [of "length ?v"] float(1) by simp
    show ?thesis
      using e l s c' lastv dot float(3) by (auto simp: field_value_def)
  next
    case (bool w)
    define c u where "c = hd w" and "u = tl w"
    then have c: "w = c # u" "c = CHR ''t'' \<and> w = ''true'' \<or> c = CHR ''f'' \<and> w = ''false''"
      using bool(2) by auto
    have c': "Suc (length ?k) < length rest" "rest ! Suc (length ?k) = c" using i2 bool(1) c(1) by auto
    have v: "CHR '','' \<notin> set ?v" "?v \<noteq> []" "last ?v \<noteq> backslash" using bool(1,2) by auto
    have e: "field_value_end rest (Suc (length ?k)) = Some (Suc (length ?k) + length ?v)"
      using c' c(2) by (intro ca [OF v]) auto
    show ?thesis
      using e c' c(2) bool(3) by (auto simp: field_value_def is_digit_def)
  next
    case (string s)
    let ?s = "esc string_specials s"
    have c': "Suc (length ?k) < length rest" "rest ! Suc (length ?k) = dquote" using i2 string(1) by auto
    have "drop (Suc (length ?k) + 1) rest = ?s @ dquote # tail" using rest string(1) by simp
    then have "index_unescaped_byte (drop (Suc (length ?k) + 1) rest) dquote = Some (length ?s)"
      using index_guarded [of dquote ?s tail] guarded_key(2) [OF string(2), of dquote]
        last_esc_iff [OF string(2)] by (auto simp: key_specials_def)
    with c' string(1) have e: "field_value_end rest (Suc (length ?k)) = Some (Suc (length ?k) + length ?v)"
      by (simp add: field_value_end_def)
    have "bslice rest (Suc (Suc (length ?k))) (length ?k + length ?v) = Some ?s"
      using rest string(1) by (simp add: bslice_eq_Some)
    with e c' string unescape_esc(5) [OF string(2)] show ?thesis by (simp add: field_value_def)
  qed
  then show "field_value_end rest (length (esc key_specials (fst kv)) + 1) = Some (length (field_bytes fmt kv))"
    "field_value pf rest (length (esc key_specials (fst kv)) + 1) (length (field_bytes fmt kv)) =
       Some (value_read pf fmt (snd kv))"
    using kv len by simp_all
qed

text \<open>The map that results when each field is stored under its key in turn, skipping those that cannot be read.\<close>

definition store_field :: "(bytes \<Rightarrow> 'f option) \<Rightarrow> (nat \<Rightarrow> 'f \<Rightarrow> bytes) \<Rightarrow> (bytes \<rightharpoonup> 'f fval) \<Rightarrow>
    bytes \<times> 'f gval \<Rightarrow> (bytes \<rightharpoonup> 'f fval)" where
  "store_field pf fmt m kv = (case value_read pf fmt (snd kv) of None \<Rightarrow> m | Some x \<Rightarrow> m(fst kv \<mapsto> x))"

lemma fields_loop_run:
  assumes "list_all (field_ok fmt) flds" "flds \<noteq> []"
    and "drop i fs = join '','' (map (field_bytes fmt) flds)"
  shows "fields_loop pf fs i m = Some (foldl (store_field pf fmt) m flds)"
  using assms
proof (induction flds arbitrary: i m)
  case (Cons kv flds)
  let ?n = "length (field_bytes fmt kv)" and ?k = "esc key_specials (fst kv)"
  define tail where "tail = (if flds = [] then [] else CHR '','' # join '','' (map (field_bytes fmt) flds))"
  have rest: "drop i fs = field_bytes fmt kv @ tail"
    using Cons.prems by (cases flds) (simp_all add: tail_def)
  have ok: "field_ok fmt kv" "tail = [] \<or> hd tail = CHR '',''" using Cons.prems by (auto simp: tail_def)
  note step = field_step [OF ok rest]
  have "drop i fs \<noteq> []" unfolding rest by (simp add: field_bytes_def)
  then have ne: "i < length fs" by simp
  have key: "unescape (take (length ?k) (drop i fs)) ''fieldkey'' = fst kv"
    using rest ok(1) unescape_esc(3) [of "fst kv"] by (simp add: field_bytes_def field_ok_def)
  let ?m = "store_field pf fmt m kv"
  have eq: "fields_loop pf fs i m = fields_loop pf fs (i + ?n + 1) ?m"
    using step ne key
    by (subst fields_loop.simps) (simp add: Let_def store_field_def split: option.split)
  show ?case
  proof (cases "flds = []")
    case True
    moreover have "length fs - i = ?n + length tail" using arg_cong [OF rest, of length] by simp
    ultimately have "length fs \<le> i + ?n + 1" using ne by (simp add: tail_def)
    then have "fields_loop pf fs (i + ?n + 1) ?m = Some ?m" by (subst fields_loop.simps) simp
    with eq True show ?thesis by simp
  next
    case False
    then have "drop (i + ?n + 1) fs = join '','' (map (field_bytes fmt) flds)"
      using at_append [of i fs "field_bytes fmt kv @ '',''"] rest by (simp add: tail_def)
    with eq Cons False show ?thesis by simp
  qed
qed simp

lemma store_fields_map:
  "distinct (map fst flds) \<Longrightarrow> fst ` set flds \<inter> dom m = {} \<Longrightarrow>
   foldl (store_field pf fmt) m flds =
     (\<lambda>k. case map_of flds k of None \<Rightarrow> m k | Some v \<Rightarrow> value_read pf fmt v)"
proof (induction flds arbitrary: m)
  case (Cons kv flds)
  then have k: "fst kv \<notin> fst ` set flds" "fst kv \<notin> dom m" by auto
  then have none: "map_of flds (fst kv) = None" by (simp add: map_of_eq_None_iff)
  have "fst ` set flds \<inter> dom (store_field pf fmt m kv) = {}"
    using Cons.prems k by (auto simp: store_field_def split: option.splits if_splits)
  with Cons show ?case
    using k none by (auto simp: fun_eq_iff store_field_def split: option.splits)
qed simp

text \<open>
  the fields given to \<open>New\<close> are the ones \<open>Fields\<close> returns, each with its own type: integers of every
  width as 64-bit integers (unsigned ones capped at the largest), strings and booleans as they were,
  floats as what \<open>ParseFloat\<close> makes of the text \<open>AppendFloat\<close> wrote.
\<close>

theorem new_metric_fields:
  assumes "new_metric fmt name tags1 tags2 flds nano ty = Some (Inr m)"
    and "list_all (field_ok fmt) flds" "distinct (map fst flds)"
  shows "metric_fields pf m =
           Some (\<lambda>k. case map_of flds k of None \<Rightarrow> None | Some v \<Rightarrow> value_read pf fmt v)"
proof -
  have "\<forall>kv \<in> set flds. snd kv \<noteq> GNil" using assms(2) value_ok_not_nil by (auto simp: list_all_iff)
  then have m: "m_fields m = join '','' (map (field_bytes fmt) flds)" "flds \<noteq> []"
    using assms(1) by (auto simp: new_metric_def fill_fields_eq bind_eq_Some_conv split: if_splits)
  then have "metric_fields pf m = Some (foldl (store_field pf fmt) Map.empty flds)"
    using fields_loop_run [OF assms(2) m(2), of 0 "m_fields m" pf Map.empty] by (simp add: metric_fields_def)
  with store_fields_map [OF assms(3), of Map.empty pf fmt] show ?thesis by simp
qed

theorem new_metric_fields_witness:
  "\<exists>m (fs :: bytes \<rightharpoonup> unit fval). new_metric demo_fmt ''c'' [] [] [(''a'', GUint8 250), (''b='', GString '',i'')] 5 None = Some (Inr m)
     \<and> metric_fields (\<lambda>_. None) m = Some fs \<and> fs ''a'' = Some (FVInt 250) \<and> fs ''b='' = Some (FVString '',i'')
     \<and> fs ''c'' = None"
proof -
  let ?flds = "[(''a'', GUint8 250), (''b='', GString '',i'')] :: (bytes \<times> unit gval) list"
  obtain m where m: "new_metric demo_fmt ''c'' [] [] ?flds 5 None = Some (Inr m)"
    using new_metric_eq [of ?flds "''c''" "[]" "[]" demo_fmt 5 None] by auto
  define fs where "fs = (\<lambda>k. case map_of ?flds k of None \<Rightarrow> None | Some v \<Rightarrow> value_read (\<lambda>_. None) demo_fmt v)"
  have "metric_fields (\<lambda>_. None) m = Some fs"
    unfolding fs_def by (rule new_metric_fields [OF m]) (simp_all add: field_ok_def)
  moreover have "fs ''a'' = Some (FVInt 250)" "fs ''b='' = Some (FVString '',i'')" "fs ''c'' = None"
    by (simp_all add: fs_def)
  ultimately show ?thesis using m by blast
qed

subsection \<open>Where Fields and the edits go wrong\<close>

text \<open>
  the parser accepts a field section on which \<open>Fields\<close> panics: after a quoted value it skips an
  escaped equals sign, while \<open>Fields\<close> steps over the backslash and then finds a bare equals sign at
  the end.
\<close>

theorem fields_panics_on_accepted_line:
  "\<exists>m. parse_metric (''m a='' @ [dquote] @ ''x'' @ [dquote, backslash] @ ''= 9'') t [] = Some (Inr m)
     \<and> metric_fields pf m = None"
proof -
  let ?f = "''a='' @ [dquote] @ ''x'' @ [dquote, backslash] @ ''=''"
  let ?w = "''m a='' @ [dquote] @ ''x'' @ [dquote, backslash] @ ''= 9''"
  have k: "scan_key ?w 0 = Some (Inr (1, ''m''))" and f: "scan_fields ?w 1 = Some (Inr (9, ?f))"
    and s: "scan_time ?w 9 = Some (Inr (11, ''9''))" and n: "index_unescaped_byte ''m'' CHR '','' = None"
    by code_simp+
  have len: "length ''m'' \<le> max_key_length" by (simp add: max_key_length_def)
  have p: "parse_metric ?w t [] = Some (Inr (copy_with ''m'' [] ?f ''9''))"
    using parse_metric_no_tags [OF k _ len n f _ s] by simp
  have i: "index_unescaped_byte ?f CHR ''='' = Some 1" "index_unescaped_byte ''='' CHR ''='' = Some 0"
    "field_value_end ?f 2 = Some 5" "field_value_end ''='' 1 = None"
    by code_simp+
  have v: "field_value pf ?f 2 5 = Some (Some (FVString ''x''))"
    by (simp add: field_value_def bslice_def unescape_def string_field_un_escaper_def)
  have "fields_loop pf ?f 6 m = None" for m
    using i(2,4) by (subst fields_loop.simps) (simp add: Let_def)
  with i v have "fields_loop pf ?f 0 Map.empty = None"
    by (subst fields_loop.simps) (simp add: Let_def numeral_2_eq_2)
  with p show ?thesis by (auto simp: metric_fields_def copy_with_def)
qed

text \<open>
  removing the first of several fields leaves the comma behind it at the front of the field section,
  whatever the fields are; a metric whose section then is \<open>,b=2\<close> makes \<open>Fields\<close> panic, and its line is
  rejected by the parser.
\<close>

theorem remove_first_field_leaves_comma:
  assumes "index_sub (m_fields m) (escape key ''tagkey'' @ ''='') = Some 0"
    and "index_unescaped_byte (m_fields m) CHR '','' = Some j"
  shows "(\<exists>m' r. remove_field m key = (m', False) \<and> m_fields m' = CHR '','' # r)
     \<and> metric_fields pf (copy_with ''m'' [] '',b=2'' ''9'') = None
     \<and> (\<exists>e. parse_metric ''m ,b=2 9'' t p = Some (Inl e))"
proof (intro conjI)
  have j: "j < length (m_fields m)" "m_fields m ! j = CHR '',''"
    using index_unescaped_byte_bounds [OF assms(2)] by auto
  then have "drop j (m_fields m) = CHR '','' # drop (Suc j) (m_fields m)" by (metis Cons_nth_drop_Suc)
  then show "\<exists>m' r. remove_field m key = (m', False) \<and> m_fields m' = CHR '','' # r"
    using assms by (simp add: remove_field_def Let_def)
  have "index_unescaped_byte '',b=2'' CHR ''='' = Some 2" "field_value_end '',b=2'' 3 = Some 0"
    by code_simp+
  then show "metric_fields pf (copy_with ''m'' [] '',b=2'' ''9'') = None"
    by (simp add: metric_fields_def copy_with_def field_value_def is_digit_def
        fields_loop.simps [of _ _ 0] Let_def)
  have k: "scan_key ''m ,b=2 9'' 0 = Some (Inr (1, ''m''))"
    and f: "scan_fields ''m ,b=2 9'' 1 = Some (Inl (6, MakeError ''invalid field format'' ''m ,b=2 9'' 6))"
    by code_simp+
  have len: "length ''m'' \<le> max_key_length" by (simp add: max_key_length_def)
  show "\<exists>e. parse_metric ''m ,b=2 9'' t p = Some (Inl e)"
    using parse_metric_bad_fields [OF k _ len f] by auto
qed

theorem remove_first_field_leaves_comma_witness:
  "\<exists>m' r. remove_field (copy_with ''m'' [] ''a=1,b=2'' ''9'') ''a'' = (m', False) \<and> m_fields m' = CHR '','' # r"
proof -
  have f: "m_fields (copy_with ''m'' [] ''a=1,b=2'' ''9'') = ''a=1,b=2''" by (simp add: copy_with_def)
  have c: "index_unescaped_byte ''a=1,b=2'' CHR '','' = Some 3"
    "index_sub ''a=1,b=2'' (escape ''a'' ''tagkey'' @ ''='') = Some 0" by code_simp+
  show ?thesis
    by (rule remove_first_field_leaves_comma [THEN conjunct1]) (unfold f, rule c(2), rule c(1))
qed

subsection \<open>The cached hash is never stale\<close>

text \<open>The metrics a sequence of operations can lead to, from one whose hash is not computed yet.\<close>

inductive edited :: "(nat \<Rightarrow> 'f \<Rightarrow> bytes) \<Rightarrow> metric \<Rightarrow> bool" for fmt where
  fresh: "m_hashID m = 0 \<Longrightarrow> edited fmt m"
| set_name: "edited fmt m \<Longrightarrow> edited fmt (set_name m s)"
| set_prefix: "edited fmt m \<Longrightarrow> edited fmt (set_prefix m s)"
| set_suffix: "edited fmt m \<Longrightarrow> edited fmt (set_suffix m s)"
| add_tag: "edited fmt m \<Longrightarrow> add_tag m k v = Some m' \<Longrightarrow> edited fmt m'"
| remove_tag: "edited fmt m \<Longrightarrow> remove_tag m k = Some m' \<Longrightarrow> edited fmt m'"
| add_field: "edited fmt m \<Longrightarrow> edited fmt (add_field fmt m k x)"
| remove_field: "edited fmt m \<Longrightarrow> edited fmt (fst (remove_field m k))"
| set_aggregate: "edited fmt m \<Longrightarrow> edited fmt (set_aggregate m b)"
| unix_nano: "edited fmt m \<Longrightarrow> edited fmt (fst (unix_nano m))"
| hash_id: "edited fmt m \<Longrightarrow> metric_tags m = Some tags \<Longrightarrow> map_order tags ks \<Longrightarrow>
         hash_id m ks = Some (m', h) \<Longrightarrow> edited fmt m'"

definition hash_ok :: "metric \<Rightarrow> bool" where
  "hash_ok m \<longleftrightarrow> m_hashID m = 0 \<or>
     (\<exists>tags ks. metric_tags m = Some tags \<and> map_order tags ks \<and> m_hashID m = fresh_hash m tags ks)"

lemma fresh_hash_cong:
  "m_name m = m_name m' \<Longrightarrow> fresh_hash m tags ks = fresh_hash m' tags ks"
  by (simp add: fresh_hash_def)

lemma metric_tags_cong: "m_tags m = m_tags m' \<Longrightarrow> metric_tags m = metric_tags m'"
  by (simp add: metric_tags_def)

lemma hash_ok_cong:
  "hash_ok m \<Longrightarrow> m_name m' = m_name m \<Longrightarrow> m_tags m' = m_tags m \<Longrightarrow> m_hashID m' = m_hashID m \<Longrightarrow> hash_ok m'"
  using metric_tags_cong [of m' m] fresh_hash_cong [of m' m] by (auto simp: hash_ok_def)

text \<open>The hash does not depend on the order in which the map is visited.\<close>

lemma fresh_hash_order:
  assumes "map_order tags ks" "map_order tags ks'"
  shows "fresh_hash m tags ks = fresh_hash m tags ks'"
proof -
  have "mset ks = mset ks'" using assms by (metis map_order_def set_eq_iff_mset_eq_distinct)
  then have "mset (map (\<lambda>k. k @ map_get [] tags k) ks) = mset (map (\<lambda>k. k @ map_get [] tags k) ks')"
    by simp
  then have "tag_hash_words tags ks = tag_hash_words tags ks'"
    unfolding tag_hash_words_def by (metis mset_sort properties_for_sort sorted_sort)
  then show ?thesis by (simp add: fresh_hash_def)
qed

lemma edited_hash_ok: "edited fmt m \<Longrightarrow> hash_ok m"
proof (induction rule: edited.induct)
  case (add_tag m k v m')
  then show ?case
    by (auto simp: add_tag_def remove_tag_def hash_ok_def Let_def bind_eq_Some_conv split: option.splits)
next
  case (remove_tag m k m')
  then show ?case by (auto simp: remove_tag_def hash_ok_def Let_def bind_eq_Some_conv split: option.splits)
next
  case (add_field m k x)
  show ?case by (rule hash_ok_cong [OF add_field.IH]) (simp_all add: add_field_def)
next
  case (remove_field m k)
  show ?case
    by (rule hash_ok_cong [OF remove_field.IH]) (simp_all add: remove_field_def Let_def split: option.split)
next
  case (set_aggregate m b)
  show ?case by (rule hash_ok_cong [OF set_aggregate.IH]) (simp_all add: set_aggregate_def)
next
  case (unix_nano m)
  show ?case by (rule hash_ok_cong [OF unix_nano.IH]) (simp_all add: unix_nano_def Let_def)
next
  case (hash_id m tags ks m' h)
  show ?case
  proof (cases "m_hashID m = 0")
    case True
    then have m': "m' = m\<lparr>m_hashID := fresh_hash m tags ks\<rparr>" using hash_id by (auto simp: hash_id_def Let_def)
    with hash_id metric_tags_cong [of m' m] fresh_hash_cong [of m' m] show ?thesis
      by (auto simp: hash_ok_def)
  next
    case False
    with hash_id show ?thesis by (simp add: hash_id_def)
  qed
qed (simp_all add: hash_ok_def set_name_def set_prefix_def set_suffix_def)

text \<open>
  after any sequence of operations, \<open>HashID\<close> returns the hash of the name and tags the metric has
  now, whatever order the map of tags is visited in: every operation that changes the name or the tags
  clears the cached value.
\<close>

theorem hash_id_current:
  assumes "edited fmt m" "metric_tags m = Some tags" "map_order tags ks"
  shows "\<exists>m'. hash_id m ks = Some (m', fresh_hash m tags ks)"
proof (cases "m_hashID m = 0")
  case True
  with assms show ?thesis by (simp add: hash_id_def Let_def)
next
  case False
  with edited_hash_ok [OF assms(1)] assms(2)
  obtain ks' where "map_order tags ks'" "m_hashID m = fresh_hash m tags ks'" by (auto simp: hash_ok_def)
  then have "m_hashID m = fresh_hash m tags ks" using fresh_hash_order [OF _ assms(3)] by simp
  with False show ?thesis by (simp add: hash_id_def)
qed

theorem hash_id_current_witness:
  "\<exists>m'. hash_id (set_name (copy_with ''m'' [] ''a=1'' ''9'') ''n'') [] =
     Some (m', fresh_hash (set_name (copy_with ''m'' [] ''a=1'' ''9'') ''n'') Map.empty [])"
proof -
  let ?m = "copy_with ''m'' [] ''a=1'' ''9''"
  have "edited demo_fmt (set_name ?m ''n'')"
    by (rule edited.set_name [OF edited.fresh]) (simp add: copy_with_def)
  moreover have "metric_tags (set_name ?m ''n'') = Some Map.empty"
    by (simp add: copy_with_def set_name_def metric_tags_def)
  moreover have "map_order Map.empty []" by simp
  ultimately show ?thesis by (rule hash_id_current)
qed

end
