(* ===== verification/Reader.thy ===== *)
theory Reader
  imports Metric_Props
begin

text \<open>
  The reader that streams a list of metrics through buffers of any size (\<open>report/metric/reader.go\<close>), and
  the client that sends the stream to one server after another until one accepts it
  (\<open>InfluxDB.Write\<close> in \<open>report/client.go\<close>).
\<close>

subsection \<open>The reader\<close>

datatype reader_state = RNormal | RSplit | ROverflow | RSplitOverflow | RDone

record reader =
  r_metrics :: "metric list"
  r_splitMetrics :: "metric list"
  r_buf :: bytes
  r_state :: reader_state
  r_iM :: nat
  r_iSM :: nat
  r_iB :: nat

definition new_reader :: "metric list \<Rightarrow> reader" where
  "new_reader ms =
     \<lparr>r_metrics = ms, r_splitMetrics = [], r_buf = [], r_state = RNormal, r_iM = 0, r_iSM = 0, r_iB = 0\<rparr>"

text \<open>What a \<open>Read\<close> returns: the reader, the buffer, the number of bytes and whether the error is \<open>io.EOF\<close>.\<close>

type_synonym read_result = "reader \<times> bytes \<times> nat \<times> bool"

text \<open>\<open>SerializeTo(p[i:])\<close>.\<close>

definition serialize_at :: "metric \<Rightarrow> bytes \<Rightarrow> nat \<Rightarrow> (bytes \<times> nat) go" where
  "serialize_at m p i =
     (if i \<le> length p
      then do { (q, n) \<leftarrow> serialize_to m (drop i p); Some (take i p @ q, n) }
      else None)"

text \<open>Copy as many whole metrics as fit; the last component says that all of them are written.\<close>

function read_whole :: "metric list \<Rightarrow> nat \<Rightarrow> bytes \<Rightarrow> nat \<Rightarrow> (nat \<times> bytes \<times> nat \<times> bool) go" where
  "read_whole ms iM p i =
     (if iM < length ms then
        if metric_len (ms ! iM) \<le> length p - i then do {
          (p', n) \<leftarrow> serialize_at (ms ! iM) p i;
          if Suc iM = length ms then Some (Suc iM, p', i + n, True)
          else read_whole ms (Suc iM) p' (i + n)
        }
        else Some (iM, p, i, False)
      else None)"
  by pat_completeness auto
termination by (relation "measure (\<lambda>(ms, iM, p, i). length ms - iM)") auto

declare read_whole.simps [simp del]

text \<open>The end of a metric: on to the next one, or to the end of the stream.\<close>

definition next_metric :: "reader \<Rightarrow> bytes \<Rightarrow> nat \<Rightarrow> read_result" where
  "next_metric r p i =
     (let r1 = r\<lparr>r_iM := Suc (r_iM r)\<rparr>
      in if r_iM r1 = length (r_metrics r1) then (r1\<lparr>r_state := RDone\<rparr>, p, i, True)
         else (r1\<lparr>r_state := RNormal\<rparr>, p, i, False))"

text \<open>\<open>copy(p, r.buf[r.iB:])\<close> and the move of \<open>iB\<close>.\<close>

definition copy_buf :: "reader \<Rightarrow> bytes \<Rightarrow> (reader \<times> bytes \<times> nat) go" where
  "copy_buf r p =
     (if r_iB r \<le> length (r_buf r)
      then do {
        (p', n) \<leftarrow> copy_at p 0 (drop (r_iB r) (r_buf r));
        Some (r\<lparr>r_iB := r_iB r + n\<rparr>, p', n)
      }
      else None)"

definition read_normal :: "reader \<Rightarrow> bytes \<Rightarrow> read_result go" where
  "read_normal r p = do {
     (iM, p1, i, fin) \<leftarrow> read_whole (r_metrics r) (r_iM r) p 0;
     let r1 = r\<lparr>r_iM := iM\<rparr>;
     if fin then Some (r1\<lparr>r_state := RDone\<rparr>, p1, i, True)
     else do {
       m \<leftarrow> byte_at (r_metrics r1) iM;
       (r2, p2, i2) \<leftarrow>
         (if i = 0 then do {
            tmp \<leftarrow> metric_split m (int (length p1));
            if length tmp > 1 then do {
              let r' = r1\<lparr>r_splitMetrics := tmp, r_state := RSplit\<rparr>;
              if metric_len (hd tmp) \<le> length p1 then do {
                (p', n) \<leftarrow> serialize_at (hd tmp) p1 0;
                Some (r'\<lparr>r_iSM := 1\<rparr>, p', n)
              }
              else Some (r'\<lparr>r_state := RNormal, r_iSM := 0\<rparr>, p1, 0)
            }
            else Some (r1, p1, 0)
          }
          else Some (r1, p1, i));
       if i2 = 0 then do {
         s \<leftarrow> serialize m;
         (r3, p3, n) \<leftarrow> copy_buf (r2\<lparr>r_buf := s\<rparr>) p2;
         Some (r3\<lparr>r_state := ROverflow\<rparr>, p3, n, False)
       }
       else Some (r2, p2, i2, False)
     }
   }"

definition read :: "reader \<Rightarrow> bytes \<Rightarrow> read_result go" where
  "read r p =
     (case r_state r of
        RDone \<Rightarrow> Some (r, p, 0, True)
      | RNormal \<Rightarrow> read_normal r p
      | RSplit \<Rightarrow> do {
          m \<leftarrow> byte_at (r_splitMetrics r) (r_iSM r);
          if metric_len m \<le> length p then do {
            (p', n) \<leftarrow> serialize_at m p 0;
            let r1 = r\<lparr>r_iSM := Suc (r_iSM r)\<rparr>;
            Some (if r_iSM r1 \<ge> length (r_splitMetrics r1)
                  then next_metric (r1\<lparr>r_iSM := 0\<rparr>) p' n
                  else (r1, p', n, False))
          }
          else do {
            s \<leftarrow> serialize m;
            (r1, p', n) \<leftarrow> copy_buf (r\<lparr>r_buf := s\<rparr>) p;
            Some (r1\<lparr>r_state := RSplitOverflow\<rparr>, p', n, False)
          }
        }
      | RSplitOverflow \<Rightarrow> do {
          (r1, p', n) \<leftarrow> copy_buf r p;
          Some (if r_iB r1 \<ge> length (r_buf r1)
                then let r2 = r1\<lparr>r_iB := 0, r_iSM := Suc (r_iSM r1)\<rparr>
                     in if r_iSM r2 = length (r_splitMetrics r2) then next_metric r2 p' n
                        else (r2\<lparr>r_state := RSplit\<rparr>, p', n, False)
                else (r1, p', n, False))
        }
      | ROverflow \<Rightarrow> do {
          (r1, p', n) \<leftarrow> copy_buf r p;
          Some (if r_iB r1 \<ge> length (r_buf r1) then next_metric (r1\<lparr>r_iB := 0\<rparr>) p' n
                else (r1, p', n, False))
        })"

subsection \<open>What the stream holds\<close>

text \<open>A metric appears in the stream as the metrics \<open>Split\<close> makes of it for some size, possibly just itself.\<close>

definition renders :: "metric \<Rightarrow> bytes \<Rightarrow> bool" where
  "renders m s \<longleftrightarrow>
     (\<exists>n out. metric_split m (int n) = Some out \<and> s = concat (map metric_string out))"

definition rendered :: "metric list \<Rightarrow> bytes \<Rightarrow> bool" where
  "rendered ms out \<longleftrightarrow> (\<exists>ss. list_all2 renders ms ss \<and> out = concat ss)"

lemma renders_self: "renders m (metric_string m)"
  unfolding renders_def
  by (rule exI [of _ "metric_len m"], rule exI [of _ "[m]"]) (simp add: metric_split_groups)

lemma rendered_Nil [simp]: "rendered [] []"
  by (simp add: rendered_def)

lemma rendered_app:
  assumes "rendered ms out" "list_all2 renders ms' ss"
  shows "rendered (ms @ ms') (out @ concat ss)"
proof -
  from assms(1) obtain ss0 where "list_all2 renders ms ss0" "out = concat ss0" by (auto simp: rendered_def)
  with assms(2) show ?thesis
    unfolding rendered_def by (intro exI [of _ "ss0 @ ss"]) (simp add: list_all2_appendI)
qed

lemma rendered_next:
  "rendered (take i ms) out \<Longrightarrow> i < length ms \<Longrightarrow> renders (ms ! i) s \<Longrightarrow>
   rendered (take (Suc i) ms) (out @ s)"
  using rendered_app [of "take i ms" out "[ms ! i]" "[s]"] by (simp add: take_Suc_conv_app_nth)

text \<open>The state of the reader after it has written the bytes \<open>out\<close>.\<close>

definition split_inv :: "reader \<Rightarrow> bytes \<Rightarrow> bool" where
  "split_inv r pre \<longleftrightarrow>
     r_iSM r < length (r_splitMetrics r)
     \<and> (\<exists>n. metric_split (r_metrics r ! r_iM r) (int n) = Some (r_splitMetrics r))
     \<and> (\<exists>pre0. rendered (take (r_iM r) (r_metrics r)) pre0
          \<and> pre = pre0 @ concat (map metric_string (take (r_iSM r) (r_splitMetrics r))))"

definition reader_inv :: "reader \<Rightarrow> bytes \<Rightarrow> bool" where
  "reader_inv r out \<longleftrightarrow>
     (case r_state r of
        RDone \<Rightarrow> rendered (r_metrics r) out \<and> r_iM r = length (r_metrics r)
      | RNormal \<Rightarrow> r_iM r < length (r_metrics r) \<and> r_iB r = 0 \<and> rendered (take (r_iM r) (r_metrics r)) out
      | ROverflow \<Rightarrow> r_iM r < length (r_metrics r) \<and> r_buf r = metric_string (r_metrics r ! r_iM r)
          \<and> r_iB r < length (r_buf r)
          \<and> (\<exists>pre. rendered (take (r_iM r) (r_metrics r)) pre \<and> out = pre @ take (r_iB r) (r_buf r))
      | RSplit \<Rightarrow> r_iM r < length (r_metrics r) \<and> r_iB r = 0 \<and> split_inv r out
      | RSplitOverflow \<Rightarrow> r_iM r < length (r_metrics r)
          \<and> r_buf r = metric_string (r_splitMetrics r ! r_iSM r) \<and> r_iB r < length (r_buf r)
          \<and> (\<exists>pre. split_inv r pre \<and> out = pre @ take (r_iB r) (r_buf r)))"

text \<open>What every \<open>Read\<close> guarantees, \<open>out\<close> being the bytes read before.\<close>

definition reader_rel :: "(reader \<times> reader) set" where
  "reader_rel = measures
     [\<lambda>r. length (r_metrics r) - r_iM r, \<lambda>r. if r_state r = RNormal then 1 else 0,
      \<lambda>r. length (r_splitMetrics r) - r_iSM r, \<lambda>r. if r_state r = RSplit then 1 else 0,
      \<lambda>r. length (r_buf r) - r_iB r]"

definition read_post :: "reader \<Rightarrow> bytes \<Rightarrow> bytes \<Rightarrow> read_result \<Rightarrow> bool" where
  "read_post r p out res \<longleftrightarrow>
     (case res of (r', p', n, eof) \<Rightarrow>
        reader_inv r' (out @ take n p') \<and> n \<le> length p \<and> length p' = length p
        \<and> r_metrics r' = r_metrics r \<and> (eof \<longleftrightarrow> r_state r' = RDone)
        \<and> (r_state r \<noteq> RDone \<and> p \<noteq> [] \<longrightarrow> 0 < n \<and> (r', r) \<in> reader_rel))"

lemma metric_len_pos: "3 \<le> metric_len m"
  by (simp add: metric_len_def)

lemma serialize_at_fits:
  assumes "i \<le> length p" "metric_len m \<le> length p - i"
  shows "serialize_at m p i =
           Some (take i p @ metric_string m @ drop (i + metric_len m) p, metric_len m)"
  using assms by (simp add: serialize_at_def serialize_to_eq Let_def min_def add.commute)

text \<open>The loop over whole metrics.\<close>

lemma read_whole_spec:
  "iM < length ms \<Longrightarrow> i \<le> length p \<Longrightarrow>
   \<exists>iM' p' i' fin. read_whole ms iM p i = Some (iM', p', i', fin)
     \<and> iM \<le> iM' \<and> length p' = length p \<and> i \<le> i' \<and> i' \<le> length p
     \<and> take i' p' = take i p @ concat (map metric_string (take (iM' - iM) (drop iM ms)))
     \<and> (fin \<longleftrightarrow> iM' = length ms) \<and> iM' \<le> length ms
     \<and> (\<not> fin \<longrightarrow> length p - i' < metric_len (ms ! iM')) \<and> (i' = i \<longrightarrow> iM' = iM) \<and> (i' = i \<longrightarrow> p' = p)"
proof (induction "length ms - iM" arbitrary: iM p i rule: less_induct)
  case less
  let ?m = "ms ! iM"
  have split: "drop iM ms = ?m # drop (Suc iM) ms" using less.prems(1) by (simp add: Cons_nth_drop_Suc)
  show ?case
  proof (cases "metric_len ?m \<le> length p - i")
    case False
    with less.prems show ?thesis by (subst read_whole.simps) simp
  next
    case True
    let ?p = "take i p @ metric_string ?m @ drop (i + metric_len ?m) p"
    let ?i = "i + metric_len ?m"
    have fit: "serialize_at ?m p i = Some (?p, metric_len ?m)"
      by (rule serialize_at_fits [OF less.prems(2) True])
    have i: "?i \<le> length p" "length ?p = length p" "i < ?i"
      using True less.prems metric_len_pos [of ?m] by auto
    have tk: "take ?i ?p = take i p @ metric_string ?m" using less.prems by simp
    show ?thesis
    proof (cases "Suc iM = length ms")
      case last: True
      then have "read_whole ms iM p i = Some (Suc iM, ?p, ?i, True)"
        using fit True less.prems by (subst read_whole.simps) simp
      with last i tk split show ?thesis by (simp add: Suc_diff_le)
    next
      case False
      then have eq: "read_whole ms iM p i = read_whole ms (Suc iM) ?p ?i"
        using fit True less.prems by (subst read_whole.simps) simp
      have "length ms - Suc iM < length ms - iM" "Suc iM < length ms" "?i \<le> length ?p"
        using False less.prems i by auto
      from less(1) [OF this] obtain iM' p' i' fin where IH:
        "read_whole ms (Suc iM) ?p ?i = Some (iM', p', i', fin)" "Suc iM \<le> iM'" "length p' = length ?p"
        "?i \<le> i'" "i' \<le> length ?p"
        "take i' p' = take ?i ?p @ concat (map metric_string (take (iM' - Suc iM) (drop (Suc iM) ms)))"
        "fin \<longleftrightarrow> iM' = length ms" "iM' \<le> length ms"
        "\<not> fin \<longrightarrow> length ?p - i' < metric_len (ms ! iM')"
        by blast
      have "take (iM' - iM) (drop iM ms) = ?m # take (iM' - Suc iM) (drop (Suc iM) ms)"
        using split IH(2) by (metis Suc_diff_Suc Suc_le_eq take_Suc_Cons)
      with eq IH i tk show ?thesis by auto
    qed
  qed
qed

lemma list_all2_renders: "list_all2 renders ms (map metric_string ms)"
  by (simp add: list_all2_map2 list.rel_refl renders_self)

lemma copy_buf_eq:
  assumes "r_iB r \<le> length (r_buf r)"
  shows "copy_buf r p =
     (let n = min (length (r_buf r) - r_iB r) (length p)
      in Some (r\<lparr>r_iB := r_iB r + n\<rparr>, take n (drop (r_iB r) (r_buf r)) @ drop n p, n))"
  using assms by (simp add: copy_buf_def copy_at_def Let_def)

subsection \<open>Every state of the reader\<close>

lemma next_metric_post:
  assumes "r_iM r < length (r_metrics r)" "r_iB r = 0" "rendered (take (Suc (r_iM r)) (r_metrics r)) (out @ take n p')"
    and "n \<le> length p" "length p' = length p" "0 < n"
    and "r_metrics r0 = r_metrics r" "r_iM r0 = r_iM r"
  shows "read_post r0 p out (next_metric r p' n)"
  using assms
  by (auto simp: read_post_def next_metric_def Let_def reader_inv_def reader_rel_def)

lemma read_overflow:
  assumes inv: "reader_inv r out" and st: "r_state r = ROverflow"
  shows "\<exists>res. read r p = Some res \<and> read_post r p out res"
proof -
  from inv st obtain pre where i: "r_iM r < length (r_metrics r)"
      "r_buf r = metric_string (r_metrics r ! r_iM r)" "r_iB r < length (r_buf r)"
      "rendered (take (r_iM r) (r_metrics r)) pre" "out = pre @ take (r_iB r) (r_buf r)"
    by (auto simp: reader_inv_def)
  define n where "n = min (length (r_buf r) - r_iB r) (length p)"
  let ?r1 = "r\<lparr>r_iB := r_iB r + n\<rparr>" and ?p1 = "take n (drop (r_iB r) (r_buf r)) @ drop n p"
  have copy: "copy_buf r p = Some (?r1, ?p1, n)"
    using copy_buf_eq [of r p] i(3) by (simp add: n_def Let_def)
  have out: "out @ take n ?p1 = pre @ take (r_iB r + n) (r_buf r)"
    using i(5) by (simp add: n_def take_add min_def)
  have n: "n \<le> length p" "length ?p1 = length p" "p \<noteq> [] \<longrightarrow> 0 < n" using i(3) by (auto simp: n_def min_def)
  show ?thesis
  proof (cases "length (r_buf r) \<le> r_iB r + n")
    case True
    have "rendered (take (Suc (r_iM r)) (r_metrics r)) (out @ take n ?p1)"
      using rendered_next [OF i(4,1) renders_self] out True i(2) by simp
    moreover have "0 < n" using True i(3) by simp
    ultimately have "read_post r p out (next_metric (?r1\<lparr>r_iB := 0\<rparr>) ?p1 n)"
      using i n by (intro next_metric_post) simp_all
    then show ?thesis using st copy True by (simp add: read_def)
  next
    case False
    have "read_post r p out (?r1, ?p1, n, False)"
      using i st n out False
      by (auto simp: read_post_def reader_inv_def reader_rel_def)
    then show ?thesis using st copy False by (simp add: read_def)
  qed
qed

lemma split_inv_step:
  assumes "split_inv r pre" "r_iM r < length (r_metrics r)"
  shows "Suc (r_iSM r) < length (r_splitMetrics r) \<Longrightarrow>
      split_inv (r\<lparr>r_iSM := Suc (r_iSM r)\<rparr>) (pre @ metric_string (r_splitMetrics r ! r_iSM r))"
    and "Suc (r_iSM r) \<ge> length (r_splitMetrics r) \<Longrightarrow>
      rendered (take (Suc (r_iM r)) (r_metrics r)) (pre @ metric_string (r_splitMetrics r ! r_iSM r))"
proof -
  let ?sm = "r_splitMetrics r"
  from assms obtain n pre0 where i: "r_iSM r < length ?sm"
    "metric_split (r_metrics r ! r_iM r) (int n) = Some ?sm"
    "rendered (take (r_iM r) (r_metrics r)) pre0"
    "pre = pre0 @ concat (map metric_string (take (r_iSM r) ?sm))" by (auto simp: split_inv_def)
  have pre: "pre @ metric_string (?sm ! r_iSM r) = pre0 @ concat (map metric_string (take (Suc (r_iSM r)) ?sm))"
    using i by (simp add: take_Suc_conv_app_nth)
  then show "split_inv (r\<lparr>r_iSM := Suc (r_iSM r)\<rparr>) (pre @ metric_string (?sm ! r_iSM r))"
    if "Suc (r_iSM r) < length ?sm"
    using i that by (auto simp: split_inv_def)
  assume "Suc (r_iSM r) \<ge> length ?sm"
  then have "pre @ metric_string (?sm ! r_iSM r) = pre0 @ concat (map metric_string ?sm)"
    using pre by simp
  moreover have "renders (r_metrics r ! r_iM r) (concat (map metric_string ?sm))"
    using i(2) unfolding renders_def by blast
  ultimately show "rendered (take (Suc (r_iM r)) (r_metrics r)) (pre @ metric_string (?sm ! r_iSM r))"
    using rendered_next [OF i(3) assms(2)] by simp
qed

lemma split_inv_cong:
  "split_inv r pre \<Longrightarrow> r_iSM r' = r_iSM r \<Longrightarrow> r_splitMetrics r' = r_splitMetrics r \<Longrightarrow>
   r_metrics r' = r_metrics r \<Longrightarrow> r_iM r' = r_iM r \<Longrightarrow> split_inv r' pre"
  by (simp add: split_inv_def)

lemma read_split_overflow:
  assumes inv: "reader_inv r out" and st: "r_state r = RSplitOverflow"
  shows "\<exists>res. read r p = Some res \<and> read_post r p out res"
proof -
  let ?sm = "r_splitMetrics r"
  from inv st obtain pre where i: "r_iM r < length (r_metrics r)"
      "r_buf r = metric_string (?sm ! r_iSM r)" "r_iB r < length (r_buf r)"
      "split_inv r pre" "out = pre @ take (r_iB r) (r_buf r)"
    by (auto simp: reader_inv_def)
  have sm: "r_iSM r < length ?sm" using i(4) by (simp add: split_inv_def)
  define n where "n = min (length (r_buf r) - r_iB r) (length p)"
  let ?r1 = "r\<lparr>r_iB := r_iB r + n\<rparr>" and ?p1 = "take n (drop (r_iB r) (r_buf r)) @ drop n p"
  have copy: "copy_buf r p = Some (?r1, ?p1, n)"
    using copy_buf_eq [of r p] i(3) by (simp add: n_def Let_def)
  have out: "out @ take n ?p1 = pre @ take (r_iB r + n) (r_buf r)"
    using i(5) by (simp add: n_def take_add min_def)
  have n: "n \<le> length p" "length ?p1 = length p" "p \<noteq> [] \<longrightarrow> 0 < n" using i(3) by (auto simp: n_def min_def)
  show ?thesis
  proof (cases "length (r_buf r) \<le> r_iB r + n")
    case False
    have "split_inv ?r1 pre" by (rule split_inv_cong [OF i(4)]) simp_all
    then have "read_post r p out (?r1, ?p1, n, False)"
      using i st n out False
      by (auto simp: read_post_def reader_inv_def reader_rel_def)
    then show ?thesis using st copy False by (simp add: read_def)
  next
    case True
    have full: "out @ take n ?p1 = pre @ metric_string (?sm ! r_iSM r)" using out True i(2) by simp
    have n0: "0 < n" using True i(3) by simp
    let ?r2 = "?r1\<lparr>r_iB := 0, r_iSM := Suc (r_iSM r)\<rparr>"
    show ?thesis
    proof (cases "Suc (r_iSM r) = length ?sm")
      case last: True
      have "read_post r p out (next_metric ?r2 ?p1 n)"
        using i n n0 full split_inv_step(2) [OF i(4,1)] last by (intro next_metric_post) simp_all
      then show ?thesis using st copy True last by (simp add: read_def Let_def)
    next
      case more: False
      have "split_inv ?r2 (out @ take n ?p1)"
        using split_inv_step(1) [OF i(4,1)] more sm full by (auto elim: split_inv_cong)
      then have "split_inv (?r2\<lparr>r_state := RSplit\<rparr>) (out @ take n ?p1)"
        by (rule split_inv_cong) simp_all
      then have "read_post r p out (?r2\<lparr>r_state := RSplit\<rparr>, ?p1, n, False)"
        using i st n n0 sm by (auto simp: read_post_def reader_inv_def reader_rel_def)
      then show ?thesis using st copy True more by (simp add: read_def Let_def)
    qed
  qed
qed

lemma read_split:
  assumes inv: "reader_inv r out" and st: "r_state r = RSplit"
  shows "\<exists>res. read r p = Some res \<and> read_post r p out res"
proof -
  let ?sm = "r_splitMetrics r" and ?m = "r_splitMetrics r ! r_iSM r"
  from inv st have i: "r_iM r < length (r_metrics r)" "r_iB r = 0" "split_inv r out"
    by (auto simp: reader_inv_def)
  have sm: "r_iSM r < length ?sm" using i(3) by (simp add: split_inv_def)
  show ?thesis
  proof (cases "metric_len ?m \<le> length p")
    case True
    let ?n = "metric_len ?m" and ?p1 = "metric_string ?m @ drop (metric_len ?m) p"
    have fit: "serialize_at ?m p 0 = Some (?p1, ?n)" using serialize_at_fits [of 0 p ?m] True by simp
    have full: "out @ take ?n ?p1 = out @ metric_string ?m" by simp
    have n: "?n \<le> length p" "length ?p1 = length p" "0 < ?n"
      using True metric_len_pos [of ?m] by auto
    show ?thesis
    proof (cases "Suc (r_iSM r) \<ge> length ?sm")
      case last: True
      have "read_post r p out (next_metric (r\<lparr>r_iSM := 0\<rparr>) ?p1 ?n)"
        using i n full split_inv_step(2) [OF i(3,1)] last by (intro next_metric_post) simp_all
      then show ?thesis using st fit True last sm by (simp add: read_def Let_def)
    next
      case more: False
      let ?r1 = "r\<lparr>r_iSM := Suc (r_iSM r)\<rparr>"
      have "split_inv ?r1 (out @ take ?n ?p1)"
        using split_inv_step(1) [OF i(3,1)] more full by simp
      then have "read_post r p out (?r1, ?p1, ?n, False)"
        using i st n sm by (auto simp: read_post_def reader_inv_def reader_rel_def)
      then show ?thesis using st fit True more sm by (simp add: read_def Let_def)
    qed
  next
    case False
    let ?r0 = "r\<lparr>r_buf := metric_string ?m\<rparr>"
    define n where "n = min (metric_len ?m) (length p)"
    let ?r1 = "?r0\<lparr>r_iB := n\<rparr>" and ?p1 = "take n (metric_string ?m) @ drop n p"
    have copy: "copy_buf ?r0 p = Some (?r1, ?p1, n)"
      using copy_buf_eq [of ?r0 p] i(2) by (simp add: n_def Let_def)
    have n: "n = length p" "n < metric_len ?m" using False by (auto simp: n_def)
    have "split_inv (?r1\<lparr>r_state := RSplitOverflow\<rparr>) out" by (rule split_inv_cong [OF i(3)]) simp_all
    then have "read_post r p out (?r1\<lparr>r_state := RSplitOverflow\<rparr>, ?p1, n, False)"
      using i st n by (auto simp: read_post_def reader_inv_def reader_rel_def)
    then show ?thesis using st copy False sm by (simp add: read_def)
  qed
qed

lemma read_normal_step:
  assumes inv: "reader_inv r out" and st: "r_state r = RNormal"
  shows "\<exists>res. read r p = Some res \<and> read_post r p out res"
proof -
  let ?ms = "r_metrics r"
  from inv st have i: "r_iM r < length ?ms" "r_iB r = 0" "rendered (take (r_iM r) ?ms) out"
    by (auto simp: reader_inv_def)
  from read_whole_spec [OF i(1), of 0 p] obtain iM p1 k fin where w:
    "read_whole ?ms (r_iM r) p 0 = Some (iM, p1, k, fin)" "r_iM r \<le> iM" "length p1 = length p"
    "k \<le> length p" "take k p1 = concat (map metric_string (take (iM - r_iM r) (drop (r_iM r) ?ms)))"
    "fin \<longleftrightarrow> iM = length ?ms" "iM \<le> length ?ms" "\<not> fin \<longrightarrow> length p - k < metric_len (?ms ! iM)"
    "k = 0 \<longrightarrow> iM = r_iM r \<and> p1 = p"
    by auto
  have ren: "rendered (take iM ?ms) (out @ take k p1)"
  proof -
    have "take iM ?ms = take (r_iM r) ?ms @ take (iM - r_iM r) (drop (r_iM r) ?ms)"
      using w(2) by (metis take_drop_split le_add_diff_inverse take_add)
    with rendered_app [OF i(3) list_all2_renders] w(5) show ?thesis by simp
  qed
  show ?thesis
  proof (cases fin)
    case True
    have "0 < k" using w(6,9) True i(1) by (cases k) auto
    with True w ren i st
    have "read_post r p out (r\<lparr>r_iM := iM, r_state := RDone\<rparr>, p1, k, True)"
      by (auto simp: read_post_def reader_inv_def reader_rel_def)
    then show ?thesis using st w(1) True by (simp add: read_def read_normal_def Let_def)
  next
    case False
    then have iM: "iM < length ?ms" using w(6,7) by simp
    show ?thesis
    proof (cases "k = 0")
      case kpos: False
      then have "iM \<noteq> r_iM r"
        using w(5) kpos by (cases "iM = r_iM r") (use w(3,4) in \<open>auto simp: take_eq_Nil\<close>)
      with kpos w ren i st iM
      have "read_post r p out (r\<lparr>r_iM := iM\<rparr>, p1, k, False)"
        by (auto simp: read_post_def reader_inv_def reader_rel_def)
      then show ?thesis
        using st w(1) False kpos iM by (simp add: read_def read_normal_def Let_def)
    next
      case k0: True
      then have same: "iM = r_iM r" "p1 = p" using w(9) by auto
      let ?m = "?ms ! r_iM r"
      have big: "length p < metric_len ?m" using w(8) False k0 same by simp
      have tmp: "\<exists>tmp. metric_split ?m (int (length p)) = Some tmp" by (simp add: metric_split_groups)
      then obtain tmp where tmp: "metric_split ?m (int (length p)) = Some tmp" by blast
      let ?r1 = "r\<lparr>r_iM := r_iM r\<rparr>"
      have over: "read_post r p out (rx\<lparr>r_buf := metric_string ?m, r_iB := length p, r_state := ROverflow\<rparr>,
          take (length p) (metric_string ?m), length p, False)"
        if "r_iM rx = r_iM r" "r_metrics rx = ?ms" for rx
        using that i st big by (auto simp: read_post_def reader_inv_def reader_rel_def)
      have copy: "copy_buf (rx\<lparr>r_buf := metric_string ?m\<rparr>) p =
          Some (rx\<lparr>r_buf := metric_string ?m, r_iB := length p\<rparr>, take (length p) (metric_string ?m), length p)"
        if "r_iB rx = 0" for rx
        using that big copy_buf_eq [of "rx\<lparr>r_buf := metric_string ?m\<rparr>" p] by (simp add: Let_def)
      show ?thesis
      proof (cases "length tmp > 1 \<and> metric_len (hd tmp) \<le> length p")
        case True
        let ?h = "hd tmp"
        let ?r2 = "r\<lparr>r_splitMetrics := tmp, r_state := RSplit, r_iSM := 1\<rparr>"
        let ?p2 = "metric_string ?h @ drop (metric_len ?h) p"
        have fit: "serialize_at ?h p 0 = Some (?p2, metric_len ?h)"
          using serialize_at_fits [of 0 p ?h] True by simp
        have pos: "0 < metric_len ?h" using metric_len_pos [of ?h] by simp
        have "split_inv ?r2 (out @ metric_string ?h)"
          using True tmp i(3) by (cases tmp) (auto simp: split_inv_def)
        then have "read_post r p out (?r2, ?p2, metric_len ?h, False)"
          using True i st pos by (auto simp: read_post_def reader_inv_def reader_rel_def)
        then show ?thesis
          using st w(1) False k0 same tmp True fit pos i(1)
          by (simp add: read_def read_normal_def Let_def)
      next
        case False2: False
        show ?thesis
        proof (cases "length tmp > 1")
          case True
          let ?rx = "r\<lparr>r_splitMetrics := tmp, r_state := RNormal, r_iSM := 0\<rparr>"
          show ?thesis
            using st w(1) False k0 same tmp True False2 i(1,2) over [of ?rx] copy [of ?rx]
            by (simp add: read_def read_normal_def Let_def)
        next
          case F3: False
          show ?thesis
            using st w(1) False k0 same tmp F3 i(1,2) over [of r] copy [of r]
            by (simp add: read_def read_normal_def Let_def)
        qed
      qed
    qed
  qed
qed

lemma read_ok: "reader_inv r out \<Longrightarrow> \<exists>res. read r p = Some res \<and> read_post r p out res"
proof (cases "r_state r")
  case RDone
  assume "reader_inv r out"
  with RDone show ?thesis by (simp add: read_def read_post_def)
qed (blast intro: read_normal_step read_split read_overflow read_split_overflow)+

text \<open>
  whatever sizes the buffers have, every \<open>Read\<close> returns, keeps to its buffer, and writes at least one
  byte into a buffer that is not empty until it reports \<open>io.EOF\<close>, which it does exactly when the
  stream is complete; the bytes read so far are always the rendering of the metrics in front of the
  current one followed by a part of the current one.
\<close>

theorem read_step:
  assumes "reader_inv r out"
  shows "\<exists>r' p' n eof. read r p = Some (r', p', n, eof)
     \<and> reader_inv r' (out @ take n p') \<and> n \<le> length p \<and> length p' = length p
     \<and> (eof \<longleftrightarrow> r_state r' = RDone) \<and> (r_state r \<noteq> RDone \<and> p \<noteq> [] \<longrightarrow> 0 < n)"
  using read_ok [OF assms, of p] by (auto simp: read_post_def)

lemma new_reader_inv: "ms \<noteq> [] \<Longrightarrow> reader_inv (new_reader ms) []"
  by (simp add: new_reader_def reader_inv_def)

theorem read_step_witness:
  "\<exists>r' p' n eof. read (new_reader [copy_with ''m'' [] ''a=1'' ''9'']) ''xxxx'' = Some (r', p', n, eof) \<and> 0 < n"
  using read_step [OF new_reader_inv [of "[copy_with ''m'' [] ''a=1'' ''9'']"], of "''xxxx''"]
  by (fastforce simp: new_reader_def)

text \<open>A run of reads: the reader after it and everything that was read.\<close>

fun reads :: "reader \<Rightarrow> bytes list \<Rightarrow> (reader \<times> bytes) go" where
  "reads r [] = Some (r, [])"
| "reads r (p # ps) = do {
     (r', p', n, eof) \<leftarrow> read r p;
     (r'', out) \<leftarrow> reads r' ps;
     Some (r'', take n p' @ out)
   }"

lemma reads_snoc:
  "reads r ps = Some (r1, out1) \<Longrightarrow> read r1 p = Some (r2, p', n, eof) \<Longrightarrow>
   reads r (ps @ [p]) = Some (r2, out1 @ take n p')"
  by (induction ps arbitrary: r r1 out1) (auto simp: bind_eq_Some_conv split: prod.splits)

lemma wf_reader_rel: "wf reader_rel"
  by (simp add: reader_rel_def)

lemma reads_until_done:
  assumes "\<forall>i. f i \<noteq> []"
  shows "reads r0 (map f [0..<k]) = Some (r, out) \<Longrightarrow> reader_inv r out \<Longrightarrow>
    \<exists>k' r' out'. reads r0 (map f [0..<k']) = Some (r', out') \<and> r_state r' = RDone
      \<and> rendered (r_metrics r) out'"
proof (induction r arbitrary: k out rule: wf_induct_rule [OF wf_reader_rel])
  case (1 r)
  show ?case
  proof (cases "r_state r = RDone")
    case True
    with 1 show ?thesis by (auto simp: reader_inv_def)
  next
    case False
    from read_ok [OF 1(3), of "f k"] obtain r' p' n eof where
      r: "read r (f k) = Some (r', p', n, eof)" "read_post r (f k) out (r', p', n, eof)" by auto
    then have "(r', r) \<in> reader_rel" "reader_inv r' (out @ take n p')" "r_metrics r' = r_metrics r"
      using False assms by (auto simp: read_post_def)
    moreover have "reads r0 (map f [0..<Suc k]) = Some (r', out @ take n p')"
      using reads_snoc [OF 1(2) r(1)] by simp
    ultimately show ?thesis using 1(1) by metis
  qed
qed



subsection \<open>Sending a stream to a cluster\<close>

text \<open>
  \<open>WriteStream\<close> of client \<open>n\<close> takes the reader and returns it as it left it, with its error; the failures the
  client tells apart are the ones whose text it looks for.  \<open>perm\<close> is \<open>rand.Perm\<close>, and \<open>query n\<close> says that
  the \<open>CREATE DATABASE\<close> query of client \<open>n\<close> failed (it is only logged).
\<close>

datatype stream_error = DatabaseNotFound | FieldTypeConflict | OtherStreamError

fun write_servers ::
  "(nat \<Rightarrow> reader \<Rightarrow> reader \<times> stream_error option) \<Rightarrow> nat list \<Rightarrow> reader \<Rightarrow> reader \<times> bool" where
  "write_servers ws [] r = (r, False)"
| "write_servers ws (n # p) r =
     (case ws n r of
        (r', None) \<Rightarrow> (r', True)
      | (r', Some FieldTypeConflict) \<Rightarrow> (r', True)
      | (r', Some e) \<Rightarrow> write_servers ws p r')"

text \<open>\<open>True\<close> is a nil error: the metrics are taken as written.\<close>

definition influx_write ::
  "(nat \<Rightarrow> reader \<Rightarrow> reader \<times> stream_error option) \<Rightarrow> nat list \<Rightarrow> metric list \<Rightarrow> bool" where
  "influx_write ws perm ms = snd (write_servers ws perm (new_reader ms))"

text \<open>
  one reader is shared by all servers, so a failed attempt is not repeated from the start: when the
  first server reads the whole stream and then fails, the next one is handed a reader that is at its
  end, gets \<open>io.EOF\<close> and no byte at once, and the write counts as successful although no server stored
  anything.
\<close>

theorem write_failover_loses_stream:
  assumes "ws a (new_reader ms) = (r, Some OtherStreamError)" and "r_state r = RDone"
    and "\<And>r'. snd (ws b r') = None"
  shows "influx_write ws [a, b] ms \<and> (\<forall>p. read r p = Some (r, p, 0, True))"
  using assms(1,2) assms(3) [of r]
  by (cases "ws b r") (simp add: influx_write_def read_def)

definition demo_server :: "nat \<Rightarrow> reader \<Rightarrow> reader \<times> stream_error option" where
  "demo_server n r =
     (if n = 0 then (r\<lparr>r_state := RDone\<rparr>, Some OtherStreamError) else (r, None))"

theorem write_failover_loses_stream_witness:
  "influx_write demo_server [0, 1] [copy_with ''m'' [] ''a=1'' ''9'']"
  using write_failover_loses_stream
    [of demo_server 0 "[copy_with ''m'' [] ''a=1'' ''9'']"
        "(new_reader [copy_with ''m'' [] ''a=1'' ''9''])\<lparr>r_state := RDone\<rparr>" 1]
  by (simp add: demo_server_def)

text \<open>
  a reader of no metrics panics on its first \<open>Read\<close>, since it looks at the metric at index 0 before it
  checks that there is one.
\<close>

theorem empty_reader_panics: "read (new_reader []) p = None"
  by (simp add: read_def new_reader_def read_normal_def read_whole.simps)

end
