(* ===== verification/Router.thy ===== *)
theory Router
  imports GoLib
begin

text \<open>
  Route configurations of java services and the nodes of their instances
  (\<open>controllers/java/router/types.go\<close>, \<open>zknode.go\<close>).

  The two regular expressions are matched by scanning: at each place the characters that may go on a part are
  disjoint from those that may follow it, so the leftmost match has only one way to split the text.
\<close>

subsection \<open>Characters\<close>

text \<open>The classes \<open>\s\<close> and \<open>\w\<close>, and those of keys and values in version 2.0 and 4.0.\<close>

definition re_space :: "char \<Rightarrow> bool" where
  "re_space c \<longleftrightarrow> c \<in> {tabchar, newline, CHR 0x0C, CHR 0x0D, CHR '' ''}"

definition re_word :: "char \<Rightarrow> bool" where
  "re_word c \<longleftrightarrow> (let n = of_char c :: nat in 48 \<le> n \<and> n \<le> 57 \<or> 65 \<le> n \<and> n \<le> 90 \<or> 97 \<le> n \<and> n \<le> 122 \<or> n = 95)"

definition key_char2 :: "char \<Rightarrow> bool" where
  "key_char2 c \<longleftrightarrow> re_word c \<or> c = CHR ''-''"

definition val_char2 :: "char \<Rightarrow> bool" where
  "val_char2 c \<longleftrightarrow> re_word c \<or> c \<in> set ''-/.:;,''"

definition key_char4 :: "char \<Rightarrow> bool" where
  "key_char4 c \<longleftrightarrow> re_word c \<or> c \<in> set ''-*''"

definition val_char4 :: "char \<Rightarrow> bool" where
  "val_char4 c \<longleftrightarrow> re_word c \<or> c \<in> set ''-,.:/*''"

lemma char_class_disjoint:
  "key_char2 c \<Longrightarrow> \<not> re_space c" "val_char2 c \<Longrightarrow> \<not> re_space c"
  "key_char4 c \<Longrightarrow> \<not> re_space c" "val_char4 c \<Longrightarrow> \<not> re_space c"
  by (auto simp: key_char2_def val_char2_def key_char4_def val_char4_def re_space_def re_word_def)

lemma op_char_disjoint [simp]:
  "\<not> key_char2 CHR ''=''" "\<not> key_char4 CHR ''=''" "\<not> key_char4 CHR ''!''" "\<not> val_char4 CHR ''=''"
  "\<not> re_space CHR ''=''" "\<not> re_space CHR ''!''" "re_space CHR '' ''" "\<not> key_char4 CHR '' ''" "\<not> val_char4 CHR '' ''"
  "\<not> val_char2 newline" "\<not> val_char4 newline" "\<not> key_char2 newline" "\<not> key_char4 newline"
  by (simp_all add: key_char2_def val_char2_def key_char4_def val_char4_def re_space_def re_word_def)

subsection \<open>Configurations\<close>

definition APIV2 :: bytes where "APIV2 = ''2.0''"
definition APIV4 :: bytes where "APIV4 = ''4.0''"

record route_match =
  mt_key :: bytes
  mt_op :: bytes
  mt_value :: "bytes list"

record route_item =
  ri_src :: route_match
  ri_dst :: route_match

record route_cfg =
  rt_apiVersion :: bytes
  rt_items :: "route_item list"

definition no_match :: route_match where
  "no_match = \<lparr>mt_key = [], mt_op = [], mt_value = []\<rparr>"

definition match_value :: "bytes \<Rightarrow> route_match \<Rightarrow> bytes" where
  "match_value sep m = trim (mt_key m @ mt_op m @ join sep (mt_value m)) [CHR '' '', tabchar]"

definition item_value :: "bytes \<Rightarrow> bytes \<Rightarrow> route_item \<Rightarrow> bytes" where
  "item_value sep fsep ri =
     trim (match_value fsep (ri_src ri) @ '' '' @ sep @ '' '' @ match_value fsep (ri_dst ri) @ [newline]) [CHR '' '', tabchar]"

definition route_header :: bytes where
  "route_header = ''# auto generated, please donnot  modify'' @ [newline]"

definition route_string :: "route_cfg \<Rightarrow> bytes" where
  "route_string rc =
     (let ret = (if rt_apiVersion rc = APIV2 then route_header else []);
          sep = (if rt_apiVersion rc = APIV2 then [] else if rt_apiVersion rc = APIV4 then ''=>'' else []);
          fsep = (if rt_apiVersion rc = APIV4 then '','' else '';'')
      in foldl (\<lambda>ret item. ret @ item_value sep fsep item) ret (rt_items rc))"

subsection \<open>Parsing\<close>

definition skip_space :: "bytes \<Rightarrow> bytes" where
  "skip_space s = dropWhile re_space s"

text \<open>The groups of \<open>v2Re\<close>: key and value around an equals sign.\<close>

definition match_v2 :: "bytes \<Rightarrow> (bytes \<times> bytes \<times> bytes) option" where
  "match_v2 s =
     (let s1 = skip_space s; k = takeWhile key_char2 s1 in
      case skip_space (dropWhile key_char2 s1) of
        c # r \<Rightarrow>
          (let r1 = skip_space r; v = takeWhile val_char2 r1 in
           if k \<noteq> [] \<and> c = CHR ''='' \<and> v \<noteq> [] \<and> skip_space (dropWhile val_char2 r1) = []
           then Some (k, ''='', v) else None)
      | [] \<Rightarrow> None)"

text \<open>One side of \<open>v4Re\<close>, with what is left behind it.\<close>

definition match_op :: "bytes \<Rightarrow> (bytes \<times> bytes) option" where
  "match_op s =
     (if has_prefix s ''='' then Some (''='', drop 1 s)
      else if has_prefix s ''!='' then Some (''!='', drop 2 s) else None)"

definition match_term :: "bytes \<Rightarrow> (bytes \<times> bytes \<times> bytes \<times> bytes) option" where
  "match_term s =
     (let k = takeWhile key_char4 s in
      if k = [] then None
      else case match_op (skip_space (dropWhile key_char4 s)) of
        None \<Rightarrow> None
      | Some (opr, r) \<Rightarrow>
          (let r1 = skip_space r; v = takeWhile val_char4 r1 in
           if v = [] then None else Some (k, opr, v, skip_space (dropWhile val_char4 r1))))"

definition match_v4 :: "bytes \<Rightarrow> ((bytes \<times> bytes \<times> bytes) \<times> (bytes \<times> bytes \<times> bytes)) option" where
  "match_v4 s =
     (let s1 = skip_space s;
          (src, r) = (case match_term s1 of None \<Rightarrow> (([], [], []), s1) | Some (k, opr, v, r) \<Rightarrow> ((k, opr, v), r))
      in if has_prefix r ''=>'' then
           (case match_term (skip_space (drop 2 r)) of
              Some (k, opr, v, []) \<Rightarrow> Some (src, (k, opr, v))
            | _ \<Rightarrow> None)
         else None)"

datatype route_error = UnknownItem bytes | UnknownApiVersion bytes

text \<open>A line: an error, nothing, or an item.\<close>

definition parse_route_item :: "bytes \<Rightarrow> bytes \<Rightarrow> route_error + route_item option" where
  "parse_route_item p version =
     (if version = APIV2 then
        (if has_prefix (skip_space p) ''#'' \<or> skip_space p = [] then Inr None
         else case match_v2 p of
           None \<Rightarrow> Inl (UnknownItem p)
         | Some (k, opr, v) \<Rightarrow>
             Inr (Some \<lparr>ri_src = no_match,
                        ri_dst = \<lparr>mt_key = k, mt_op = opr, mt_value = split_byte CHR '';'' v\<rparr>\<rparr>))
      else if version = APIV4 then
        (if skip_space p = [] then Inr None
         else case match_v4 p of
           None \<Rightarrow> Inl (UnknownItem p)
         | Some ((k, opr, v), (k', opr', v')) \<Rightarrow>
             Inr (Some \<lparr>ri_src = \<lparr>mt_key = k, mt_op = opr,
                          mt_value = (if length v > 0 then split_byte CHR '','' v else [])\<rparr>,
                        ri_dst = \<lparr>mt_key = k', mt_op = opr', mt_value = split_byte CHR '','' v'\<rparr>\<rparr>))
      else Inl (UnknownApiVersion version))"

fun parse_items :: "bytes list \<Rightarrow> bytes \<Rightarrow> route_item list \<times> route_error list" where
  "parse_items [] version = ([], [])"
| "parse_items (p # ps) version =
     (case parse_items ps version of
        (items, errs) \<Rightarrow>
          (case parse_route_item p version of
             Inl err \<Rightarrow> (items, err # errs)
           | Inr None \<Rightarrow> (items, errs)
           | Inr (Some ri) \<Rightarrow> (ri # items, errs)))"

definition parse_route :: "bytes \<Rightarrow> bytes \<Rightarrow> route_cfg \<times> route_error list" where
  "parse_route content apiVersion =
     (case parse_items (split_byte newline content) apiVersion of
        (items, errs) \<Rightarrow> (\<lparr>rt_apiVersion = apiVersion, rt_items = items\<rparr>, errs))"

subsection \<open>Scanning\<close>

lemma takeWhile_run:
  "\<forall>c \<in> set k. P c \<Longrightarrow> r = [] \<or> \<not> P (hd r) \<Longrightarrow> takeWhile P (k @ r) = k"
  "\<forall>c \<in> set k. P c \<Longrightarrow> r = [] \<or> \<not> P (hd r) \<Longrightarrow> dropWhile P (k @ r) = r"
  by (cases r; simp add: takeWhile_append dropWhile_append)+

lemma dropWhile_id: "s = [] \<or> \<not> P (hd s) \<Longrightarrow> dropWhile P s = s"
  by (cases s) auto

lemma skip_space_id: "s = [] \<or> \<not> re_space (hd s) \<Longrightarrow> skip_space s = s"
  by (simp add: skip_space_def dropWhile_id)

lemma trim_keep:
  assumes "s \<noteq> []" "hd s \<notin> set cs" "last s \<notin> set cs"
  shows "trim s cs = s"
  using assms by (simp add: trim_def trim_left_def trim_right_def dropWhile_id hd_rev)

lemma trim_id: "\<forall>c \<in> set s. c \<notin> set cs \<Longrightarrow> trim s cs = s"
  by (cases "s = []") (simp_all add: trim_keep, simp add: trim_def trim_left_def trim_right_def)

lemma trim_Cons: "c \<in> set cs \<Longrightarrow> trim (c # s) cs = trim s cs"
  by (simp add: trim_def trim_left_def)

lemma join_chars: "set (join [c] ps) \<subseteq> insert c (\<Union> (set ` set ps))"
  by (induction ps rule: induct_list012) auto

lemma join_eq_Nil: "join [c] ps = [] \<longleftrightarrow> ps = [] \<or> ps = [[]]"
  by (induction ps rule: induct_list012) auto

lemma split_lines:
  assumes "\<forall>l \<in> set ls. newline \<notin> set l"
  shows "split_byte newline (concat (map (\<lambda>l. l @ [newline]) ls)) = ls @ [[]]"
  using assms by (induction ls) auto

text \<open>The text of a match, and when it is of the form that is read.\<close>

definition match_text :: "char \<Rightarrow> route_match \<Rightarrow> bytes" where
  "match_text sep m = mt_key m @ mt_op m @ join [sep] (mt_value m)"

definition values_ok :: "(char \<Rightarrow> bool) \<Rightarrow> char \<Rightarrow> bytes list \<Rightarrow> bool" where
  "values_ok P sep vs \<longleftrightarrow> vs \<noteq> [] \<and> vs \<noteq> [[]] \<and> (\<forall>v \<in> set vs. sep \<notin> set v \<and> (\<forall>c \<in> set v. P c))"

definition match_ok2 :: "route_match \<Rightarrow> bool" where
  "match_ok2 m \<longleftrightarrow> mt_key m \<noteq> [] \<and> (\<forall>c \<in> set (mt_key m). key_char2 c) \<and> mt_op m = ''=''
     \<and> values_ok val_char2 CHR '';'' (mt_value m)"

definition match_ok4 :: "route_match \<Rightarrow> bool" where
  "match_ok4 m \<longleftrightarrow> mt_key m \<noteq> [] \<and> (\<forall>c \<in> set (mt_key m). key_char4 c) \<and> mt_op m \<in> {''='', ''!=''}
     \<and> values_ok val_char4 CHR '','' (mt_value m)"

definition item_ok :: "bytes \<Rightarrow> route_item \<Rightarrow> bool" where
  "item_ok version ri \<longleftrightarrow>
     (if version = APIV2 then ri_src ri = no_match \<and> match_ok2 (ri_dst ri)
      else version = APIV4 \<and> (ri_src ri = no_match \<or> match_ok4 (ri_src ri)) \<and> match_ok4 (ri_dst ri))"

lemma val_char_sep [simp]: "val_char2 CHR '';''" "val_char4 CHR '',''"
  by (simp_all add: val_char2_def val_char4_def)

lemma values_joined:
  assumes "values_ok P sep vs" "P sep"
  shows "join [sep] vs \<noteq> []" "\<forall>c \<in> set (join [sep] vs). P c" "split_byte sep (join [sep] vs) = vs"
  using assms join_chars [of sep vs] by (auto simp: values_ok_def join_eq_Nil intro!: split_join)

lemma values_split:
  assumes "s \<noteq> []" "\<forall>c \<in> set s. P c"
  shows "values_ok P sep (split_byte sep s)"
proof -
  have j: "join [sep] (split_byte sep s) = s" by (rule join_split)
  have "set p \<subseteq> set s" if "p \<in> set (split_byte sep s)" for p
    using that by (rule split_byte_subset)
  moreover have "split_byte sep s \<noteq> [[]]" using j assms(1) by (metis join.simps(2))
  ultimately show ?thesis using assms split_byte_no_sep [of _ sep s] by (auto simp: values_ok_def)
qed

lemma match_term_text:
  assumes "match_ok4 m" "r = [] \<or> \<not> val_char4 (hd r)"
  shows "match_term (match_text CHR '','' m @ r) = Some (mt_key m, mt_op m, join '','' (mt_value m), skip_space r)"
proof -
  let ?v = "join '','' (mt_value m)"
  have k: "mt_key m \<noteq> []" "\<forall>c \<in> set (mt_key m). key_char4 c" "mt_op m = ''='' \<or> mt_op m = ''!=''"
    and vs: "values_ok val_char4 CHR '','' (mt_value m)"
    using assms(1) by (auto simp: match_ok4_def)
  have v: "?v \<noteq> []" "\<forall>c \<in> set ?v. val_char4 c" using values_joined(1,2) [OF vs] by simp_all
  have hd: "\<not> key_char4 (hd (mt_op m @ ?v @ r))" "\<not> re_space (hd (mt_op m @ ?v @ r))" using k(3) by auto
  have sp: "skip_space (?v @ r) = ?v @ r"
    using v char_class_disjoint(4) by (intro skip_space_id) (metis hd_append2 hd_in_set)
  have "match_op (mt_op m @ ?v @ r) = Some (mt_op m, ?v @ r)" using k(3) by (auto simp: match_op_def)
  then show ?thesis
    using k(1) v(1) hd takeWhile_run [OF k(2), of "mt_op m @ ?v @ r"] takeWhile_run [OF v(2) assms(2)] sp
    by (simp add: match_term_def match_text_def skip_space_id Let_def)
qed

lemma match_term_ok:
  assumes "match_term s = Some (k, opr, v, r)"
  shows "match_ok4 \<lparr>mt_key = k, mt_op = opr, mt_value = split_byte CHR '','' v\<rparr>" "v \<noteq> []"
  using assms values_split [of v val_char4 "CHR '',''"] set_takeWhileD [of _ key_char4 s]
  by (auto simp: match_term_def match_ok4_def match_op_def Let_def split: if_splits dest: set_takeWhileD)

lemma match_v2_text:
  assumes "match_ok2 m"
  shows "match_v2 (match_text CHR '';'' m) = Some (mt_key m, ''='', join '';'' (mt_value m))"
proof -
  let ?v = "join '';'' (mt_value m)"
  have k: "mt_key m \<noteq> []" "\<forall>c \<in> set (mt_key m). key_char2 c" "mt_op m = ''=''"
    and vs: "values_ok val_char2 CHR '';'' (mt_value m)"
    using assms by (auto simp: match_ok2_def)
  have v: "?v \<noteq> []" "\<forall>c \<in> set ?v. val_char2 c" using values_joined(1,2) [OF vs] by simp_all
  have sp: "skip_space ?v = ?v" "skip_space (mt_key m @ CHR ''='' # ?v) = mt_key m @ CHR ''='' # ?v"
    using v k char_class_disjoint(1,2) by (intro skip_space_id; metis hd_append2 hd_in_set)+
  have tv: "takeWhile val_char2 ?v = ?v" "dropWhile val_char2 ?v = []" using v(2) by simp_all
  show ?thesis
    using k(1,3) v(1) sp takeWhile_run [OF k(2), of "CHR ''='' # ?v"] tv
    by (simp add: match_v2_def match_text_def skip_space_id [of "CHR ''='' # ?v"] skip_space_id [of "[]"] Let_def
        takeWhile_all dropWhile_eq_Nil_conv [THEN iffD2])
qed

lemma match_v2_ok:
  assumes "match_v2 s = Some (k, opr, v)"
  shows "match_ok2 \<lparr>mt_key = k, mt_op = opr, mt_value = split_byte CHR '';'' v\<rparr>"
  using assms values_split [of v val_char2 "CHR '';''"]
  by (auto simp: match_v2_def match_ok2_def Let_def split: list.splits if_splits dest: set_takeWhileD)

text \<open>A line of a configuration, without the end of the line.\<close>

definition item_line :: "bytes \<Rightarrow> route_item \<Rightarrow> bytes" where
  "item_line version ri =
     (if version = APIV2 then match_text CHR '';'' (ri_dst ri)
      else if ri_src ri = no_match then ''=> '' @ match_text CHR '','' (ri_dst ri)
      else match_text CHR '','' (ri_src ri) @ '' => '' @ match_text CHR '','' (ri_dst ri))"

lemma match_text_chars:
  "match_ok2 m \<Longrightarrow> re_space c \<Longrightarrow> c \<notin> set (match_text CHR '';'' m)"
  "match_ok4 m \<Longrightarrow> re_space c \<Longrightarrow> c \<notin> set (match_text CHR '','' m)"
  using char_class_disjoint values_joined(2) [of val_char2 "CHR '';''" "mt_value m"]
    values_joined(2) [of val_char4 "CHR '',''" "mt_value m"]
  by (auto simp: match_text_def match_ok2_def match_ok4_def)

lemma match_text_hd:
  "match_ok2 m \<Longrightarrow> match_text CHR '';'' m \<noteq> [] \<and> key_char2 (hd (match_text CHR '';'' m))"
  "match_ok4 m \<Longrightarrow> match_text CHR '','' m \<noteq> [] \<and> key_char4 (hd (match_text CHR '','' m))"
  by (auto simp: match_text_def match_ok2_def match_ok4_def)

lemma cut_space: "re_space newline" "re_space CHR '' ''" "re_space tabchar"
  by (auto simp: re_space_def)

lemma match_value_text:
  "match_ok2 m \<Longrightarrow> match_value '';'' m = match_text CHR '';'' m"
  "match_ok4 m \<Longrightarrow> match_value '','' m = match_text CHR '','' m"
  "match_value fsep no_match = []"
proof -
  show "match_value '';'' m = match_text CHR '';'' m" if "match_ok2 m"
    unfolding match_value_def match_text_def [symmetric] using match_text_chars(1) [OF that] cut_space
    by (intro trim_id) auto
  show "match_value '','' m = match_text CHR '','' m" if "match_ok4 m"
    unfolding match_value_def match_text_def [symmetric] using match_text_chars(2) [OF that] cut_space
    by (intro trim_id) auto
  show "match_value fsep no_match = []"
    by (simp add: match_value_def no_match_def trim_def trim_left_def trim_right_def)
qed

lemma item_value_line:
  assumes "item_ok version ri"
  shows "item_value (if version = APIV2 then [] else ''=>'') (if version = APIV4 then '','' else '';'') ri
     = item_line version ri @ [newline]"
proof -
  have tr: "trim (t @ [newline]) [CHR '' '', tabchar] = t @ [newline]" if "t \<noteq> []" "\<not> re_space (hd t)" for t
    using that by (intro trim_keep) (auto simp: re_space_def)
  have v: "APIV2 \<noteq> APIV4" by (simp add: APIV2_def APIV4_def)
  show ?thesis
  proof (cases "version = APIV2")
    case True
    then have ok: "ri_src ri = no_match" "match_ok2 (ri_dst ri)" using assms by (auto simp: item_ok_def)
    then show ?thesis
      using v True match_text_hd(1) [OF ok(2)] char_class_disjoint(1)
      by (simp add: item_value_def item_line_def match_value_text trim_Cons tr)
  next
    case False
    then have ok: "version = APIV4" "ri_src ri = no_match \<or> match_ok4 (ri_src ri)" "match_ok4 (ri_dst ri)"
      using assms by (auto simp: item_ok_def)
    show ?thesis
    proof (cases "ri_src ri = no_match")
      case True
      then show ?thesis
        using ok v tr [of "''=> '' @ match_text CHR '','' (ri_dst ri)"]
        by (simp add: item_value_def item_line_def match_value_text trim_Cons)
    next
      case False
      then have s: "match_ok4 (ri_src ri)" using ok(2) by simp
      show ?thesis
        using ok v s False match_text_hd(2) [OF s] char_class_disjoint(3)
          tr [of "match_text CHR '','' (ri_src ri) @ '' => '' @ match_text CHR '','' (ri_dst ri)"]
        by (simp add: item_value_def item_line_def match_value_text)
    qed
  qed
qed

lemma item_line_no_newline: "item_ok version ri \<Longrightarrow> newline \<notin> set (item_line version ri)"
  using match_text_chars [OF _ cut_space(1)] by (auto simp: item_ok_def item_line_def split: if_splits)

lemma key_char_hash: "key_char2 c \<Longrightarrow> c \<noteq> CHR ''#''"
  by (auto simp: key_char2_def re_word_def)

lemma parse_item_line:
  assumes "item_ok version ri"
  shows "parse_route_item (item_line version ri) version = Inr (Some ri)"
proof (cases "version = APIV2")
  case True
  let ?d = "ri_dst ri"
  have ok: "ri_src ri = no_match" "match_ok2 ?d" using assms True by (auto simp: item_ok_def)
  have "split_byte CHR '';'' (join '';'' (mt_value ?d)) = mt_value ?d"
    using ok(2) values_joined(3) [of val_char2 "CHR '';''" "mt_value ?d"] by (simp add: match_ok2_def)
  moreover have "skip_space (match_text CHR '';'' ?d) = match_text CHR '';'' ?d"
    using match_text_hd(1) [OF ok(2)] char_class_disjoint(1) by (simp add: skip_space_id)
  moreover obtain c s where "match_text CHR '';'' ?d = c # s" "key_char2 c"
    using match_text_hd(1) [OF ok(2)] by (cases "match_text CHR '';'' ?d") auto
  moreover have "mt_op ?d = ''=''" using ok(2) by (simp add: match_ok2_def)
  ultimately show ?thesis
    using True ok(1) match_v2_text [OF ok(2)] key_char_hash [of c]
    by (simp add: parse_route_item_def item_line_def)
next
  case False
  let ?s = "ri_src ri" and ?d = "ri_dst ri"
  have ok: "version = APIV4" "?s = no_match \<or> match_ok4 ?s" "match_ok4 ?d" and v: "APIV4 \<noteq> APIV2"
    using assms False by (auto simp: item_ok_def)
  have split: "split_byte CHR '','' (join '','' (mt_value m)) = mt_value m" "join '','' (mt_value m) \<noteq> []" if "match_ok4 m" for m
    using that values_joined(1,3) [of val_char4 "CHR '',''" "mt_value m"] by (simp_all add: match_ok4_def)
  have sp: "skip_space (match_text CHR '','' m @ r) = match_text CHR '','' m @ r" if "match_ok4 m" for m r
    using match_text_hd(2) [OF that] char_class_disjoint(3) by (simp add: skip_space_id)
  have dst: "match_term (match_text CHR '','' ?d) = Some (mt_key ?d, mt_op ?d, join '','' (mt_value ?d), [])"
    using match_term_text [OF ok(3), of "[]"] by (simp add: skip_space_id)
  have sps: "skip_space (CHR '' '' # r) = skip_space r" "skip_space (CHR ''='' # r) = CHR ''='' # r" for r
    by (simp_all add: skip_space_def)
  show ?thesis
  proof (cases "?s = no_match")
    case True
    have "match_term (''=> '' @ match_text CHR '','' ?d) = None" by (simp add: match_term_def)
    then show ?thesis
      using ok v True dst split [OF ok(3)] sp [OF ok(3), of "[]"]
      by (simp add: parse_route_item_def item_line_def match_v4_def sps no_match_def)
  next
    case False
    then have s: "match_ok4 ?s" using ok(2) by simp
    have "match_term (match_text CHR '','' ?s @ '' => '' @ match_text CHR '','' ?d) =
        Some (mt_key ?s, mt_op ?s, join '','' (mt_value ?s), ''=> '' @ match_text CHR '','' ?d)"
      using match_term_text [OF s, of "'' => '' @ match_text CHR '','' ?d"] by (simp add: sps)
    then show ?thesis
      using ok v False dst split [OF ok(3)] split [OF s] sp [OF ok(3), of "[]"]
        sp [OF s, of "'' => '' @ match_text CHR '','' ?d"] match_text_hd(2) [OF s]
      by (simp add: parse_route_item_def item_line_def match_v4_def sps)
  qed
qed

lemma parse_route_item_ok:
  assumes "parse_route_item p version = Inr (Some ri)"
  shows "item_ok version ri"
  using assms match_v2_ok match_term_ok
  by (auto simp: parse_route_item_def item_ok_def no_match_def match_v4_def Let_def
      split: if_splits option.splits prod.splits list.splits)

lemma route_string_lines:
  assumes "\<forall>ri \<in> set items. item_ok version ri" "version = APIV2 \<or> version = APIV4"
  shows "route_string \<lparr>rt_apiVersion = version, rt_items = items\<rparr> =
    concat (map (\<lambda>l. l @ [newline])
      ((if version = APIV2 then [butlast route_header] else []) @ map (item_line version) items))"
proof -
  have fold: "foldl (\<lambda>ret item. ret @ f item) ret items = ret @ concat (map f items)" for f :: "route_item \<Rightarrow> bytes" and ret items
    by (induction items arbitrary: ret) simp_all
  have "APIV2 \<noteq> APIV4" by (simp add: APIV2_def APIV4_def)
  moreover have "map (item_value (if version = APIV2 then [] else ''=>'') (if version = APIV4 then '','' else '';'')) items
      = map (\<lambda>ri. item_line version ri @ [newline]) items"
    using assms(1) item_value_line by simp
  ultimately show ?thesis
    using assms(2) by (elim disjE) (simp_all add: route_string_def route_header_def fold comp_def Let_def cong: map_cong)
qed

lemma parse_items_lines:
  assumes "\<forall>ri \<in> set items. item_ok version ri"
  shows "parse_items (map (item_line version) items @ ls) version =
    (case parse_items ls version of (is, errs) \<Rightarrow> (items @ is, errs))"
  using assms by (induction items) (auto simp: parse_item_line split: prod.splits)

lemma parse_items_ok: "ri \<in> set (fst (parse_items ps version)) \<Longrightarrow> item_ok version ri"
  by (induction ps) (auto simp: parse_route_item_ok split: prod.splits sum.splits option.splits)

lemma parse_written:
  assumes "rt_apiVersion rc \<in> {APIV2, APIV4}" "\<forall>ri \<in> set (rt_items rc). item_ok (rt_apiVersion rc) ri"
  shows "parse_route (route_string rc) (rt_apiVersion rc) = (rc, [])"
proof -
  let ?v = "rt_apiVersion rc" and ?h = "butlast route_header"
  let ?ls = "(if ?v = APIV2 then [?h] else []) @ map (item_line ?v) (rt_items rc)"
  have nl: "\<forall>l \<in> set ?ls. newline \<notin> set l"
    using assms(2) item_line_no_newline by (auto simp: route_header_def)
  have rc: "rc = \<lparr>rt_apiVersion = ?v, rt_items = rt_items rc\<rparr>" by simp
  have "route_string rc = concat (map (\<lambda>l. l @ [newline]) ?ls)"
    using route_string_lines [OF assms(2)] assms(1) by (subst rc) auto
  then have split: "split_byte newline (route_string rc) = ?ls @ [[]]"
    using split_lines [OF nl] by simp
  have last: "parse_route_item [] ?v = Inr None" "?v = APIV2 \<Longrightarrow> parse_route_item ?h ?v = Inr None"
    using assms(1) by (auto simp: parse_route_item_def skip_space_def route_header_def re_space_def)
  show ?thesis
    using last parse_items_lines [OF assms(2), of "[[]]"]
    by (cases "?v = APIV2") (simp_all add: parse_route_def split)
qed

subsection \<open>Properties\<close>

text \<open>
  C16: a configuration of either version whose items are well formed is written by \<open>String\<close> to a text that
  \<open>Parse\<close> reads back to the same configuration, without an error.
\<close>

theorem parse_route_string:
  assumes "rt_apiVersion rc \<in> {APIV2, APIV4}" "\<forall>ri \<in> set (rt_items rc). item_ok (rt_apiVersion rc) ri"
  shows "parse_route (route_string rc) (rt_apiVersion rc) = (rc, [])"
  using assms by (rule parse_written)

definition sample_cfg :: route_cfg where
  "sample_cfg = \<lparr>rt_apiVersion = APIV4, rt_items =
     [\<lparr>ri_src = \<lparr>mt_key = ''host'', mt_op = ''!='', mt_value = [''10.0.0.1'', ''10.0.0.2'']\<rparr>,
       ri_dst = \<lparr>mt_key = ''version'', mt_op = ''='', mt_value = [''97'']\<rparr>\<rparr>]\<rparr>"

theorem parse_route_string_witness:
  "parse_route (''host!=10.0.0.1,10.0.0.2 => version=97'' @ [newline]) APIV4 = (sample_cfg, [])"
proof -
  have ok: "\<forall>ri \<in> set (rt_items sample_cfg). item_ok (rt_apiVersion sample_cfg) ri"
    by (simp add: sample_cfg_def item_ok_def match_ok4_def values_ok_def key_char4_def val_char4_def re_word_def
        APIV2_def APIV4_def)
  have "route_string sample_cfg = ''host!=10.0.0.1,10.0.0.2 => version=97'' @ [newline]"
    using route_string_lines [of "rt_items sample_cfg" APIV4] ok
    by (simp add: sample_cfg_def item_line_def match_text_def no_match_def APIV2_def APIV4_def)
  then show ?thesis
    using parse_route_string [of sample_cfg] ok by (simp add: sample_cfg_def)
qed

text \<open>
  whatever text \<open>Parse\<close> is given, with errors or not, what it accepts is written in a form that is parsed
  back to the same and without an error: parsing a written configuration is idempotent.
\<close>

theorem parse_route_normal:
  assumes "version \<in> {APIV2, APIV4}"
  shows "parse_route (route_string (fst (parse_route content version))) version = (fst (parse_route content version), [])"
proof -
  let ?rc = "fst (parse_route content version)"
  have v: "rt_apiVersion ?rc = version" by (simp add: parse_route_def split: prod.split)
  have "\<forall>ri \<in> set (rt_items ?rc). item_ok version ri"
    using parse_items_ok [of _ "split_byte newline content" version] by (auto simp: parse_route_def split: prod.split)
  moreover have "parse_route (route_string rc) (rt_apiVersion rc) = (rc, [])"
    if "rt_apiVersion rc \<in> {APIV2, APIV4}" "\<forall>ri \<in> set (rt_items rc). item_ok (rt_apiVersion rc) ri" for rc
    using that by (rule parse_written)
  ultimately show ?thesis using assms v by metis
qed

theorem parse_route_normal_witness:
  "parse_route (route_string (fst (parse_route (''version = 1;2'' @ [newline] @ ''bad'') APIV2))) APIV2
     = (\<lparr>rt_apiVersion = APIV2,
         rt_items = [\<lparr>ri_src = no_match, ri_dst = \<lparr>mt_key = ''version'', mt_op = ''='', mt_value = [''1'', ''2'']\<rparr>\<rparr>]\<rparr>, [])"
proof -
  have "fst (parse_route (''version = 1;2'' @ [newline] @ ''bad'') APIV2) = \<lparr>rt_apiVersion = APIV2,
      rt_items = [\<lparr>ri_src = no_match, ri_dst = \<lparr>mt_key = ''version'', mt_op = ''='', mt_value = [''1'', ''2'']\<rparr>\<rparr>]\<rparr>"
    by code_simp
  then show ?thesis using parse_route_normal [of APIV2 "''version = 1;2'' @ [newline] @ ''bad''"] by simp
qed

subsection \<open>Nodes\<close>

text \<open>
  \<open>ServiceNode\<close>, and the structure its JSON text is decoded to: it has three spellings of the start time and two
  of the address.  Times are seconds; parsing one is a parameter.
\<close>

record service_node =
  sn_apiVersion :: bytes
  sn_nodeName :: bytes
  sn_host :: bytes
  sn_type :: int
  sn_port :: int
  sn_startTime :: int
  sn_mainClass :: bytes
  sn_pid :: int
  sn_reconnectZK :: int
  sn_version :: bytes

record node_json =
  nj_host :: bytes
  nj_ip :: bytes
  nj_type :: int
  nj_port :: int
  nj_startTime :: bytes
  nj_starttime :: bytes
  nj_time :: bytes
  nj_mainClass :: bytes
  nj_pid :: int
  nj_reconnectZK :: int
  nj_version :: bytes

definition zero_node :: service_node where
  "zero_node = \<lparr>sn_apiVersion = [], sn_nodeName = [], sn_host = [], sn_type = 0, sn_port = 0, sn_startTime = 0,
     sn_mainClass = [], sn_pid = 0, sn_reconnectZK = 0, sn_version = []\<rparr>"

definition unmarshal_node ::
  "(bytes \<Rightarrow> bytes + node_json) \<Rightarrow> (bytes \<Rightarrow> bytes + int) \<Rightarrow> bytes \<Rightarrow> service_node \<Rightarrow> bytes + service_node" where
  "unmarshal_node dec parse_time b sn =
     (case dec b of
        Inl err \<Rightarrow> Inl err
      | Inr j \<Rightarrow>
          (let st = nj_startTime j;
               st = (if st = [] \<and> nj_time j \<noteq> [] then nj_time j else st);
               st = (if st = [] \<and> nj_starttime j \<noteq> [] then nj_starttime j else st);
               fill = (\<lambda>sn. sn\<lparr>sn_host := (if nj_host j \<noteq> [] then nj_host j else nj_ip j), sn_type := nj_type j,
                 sn_port := nj_port j, sn_mainClass := nj_mainClass j, sn_pid := nj_pid j, sn_version := nj_version j,
                 sn_reconnectZK := nj_reconnectZK j\<rparr>)
           in if st \<noteq> [] then
                (case parse_time st of Inl err \<Rightarrow> Inl err | Inr t \<Rightarrow> Inr (fill (sn\<lparr>sn_startTime := t - 8 * 3600\<rparr>)))
              else Inr (fill sn)))"

lemma unmarshal_node_names:
  "unmarshal_node dec parse_time b sn = Inr n \<Longrightarrow> sn_apiVersion n = sn_apiVersion sn \<and> sn_nodeName n = sn_nodeName sn"
  by (auto simp: unmarshal_node_def Let_def split: sum.splits if_splits)

end
