(* ===== verification/Zk_Paths.thy ===== *)
theory Zk_Paths
  imports Router Watch
begin

text \<open>
  The paths of java services in ZooKeeper and in etcd, and the names of their deployments
  (\<open>controllers/java/zk/path_util.go\<close>, \<open>zkpath.go\<close>, \<open>controllers/java/project\<close>).

  Projects of the version 2.0 of the interface have a service name of their own, kept in two maps that follow the
  objects of the store.
\<close>

subsection \<open>Projects\<close>

record project_info =
  pi_desc :: bytes
  pi_apiVersion :: bytes
  pi_serviceName :: bytes
  pi_project :: bytes
  pi_zkRoute :: bytes
  pi_zkInstance :: bytes

text \<open>\<open>simplePathInfo\<close>: from services to projects and back; the channel to stop is there or nil.\<close>

record simple_path_info =
  spi_serviceMap :: "(bytes, bytes) fmap"
  spi_projectMap :: "(bytes, bytes) fmap"
  spi_stopC :: bool

datatype zk_error =
  DeployNameFormat bytes | ZkPathFormat bytes | UnknownApi2Service bytes | EmptyZkPath | InvalidV4Path bytes
| IncompleteV4Path bytes | UnknownV4Path bytes | InvalidZkPath | UnknownZkPath bytes | InvalidMappedPath bytes
| InvalidEtcdPath | NoServiceSync | UnknownEtcdType bytes | InvalidRouteEtcdPath bytes | InvalidCluster bytes
| UnknownPathVersion bytes

definition map_str :: "(bytes, bytes) fmap \<Rightarrow> bytes \<Rightarrow> bytes" where
  "map_str m k = (case fmlookup m k of None \<Rightarrow> [] | Some v \<Rightarrow> v)"

text \<open>The version of the interface and the name of the service, or the version and the project.\<close>

definition get_service_name :: "simple_path_info \<Rightarrow> bytes \<Rightarrow> zk_error + bytes \<times> bytes" where
  "get_service_name sp deployName =
     (let parts = split_byte CHR '':'' deployName in
      if length parts \<noteq> 2 then Inl (DeployNameFormat deployName)
      else
        (let project = parts ! 0; s = map_str (spi_projectMap sp) project in
         if s = [] then Inr (APIV4, parts ! 0 @ ''/'' @ parts ! 1) else Inr (APIV2, s)))"

definition get_project_name :: "simple_path_info \<Rightarrow> bytes \<Rightarrow> bytes \<times> bytes" where
  "get_project_name sp servicename =
     (let s = map_str (spi_serviceMap sp) servicename in if s = [] then (APIV4, servicename) else (APIV2, s))"

definition get_route_path :: "simple_path_info \<Rightarrow> bytes \<Rightarrow> zk_error + bytes" where
  "get_route_path sp name =
     (case get_service_name sp name of
        Inl err \<Rightarrow> Inl err
      | Inr (ver, s) \<Rightarrow> if ver = APIV2 then Inr (''/service/'' @ s) else Inr (''/biz/'' @ s @ ''/policy/default/route''))"

definition get_instance_path :: "simple_path_info \<Rightarrow> bytes \<Rightarrow> zk_error + bytes" where
  "get_instance_path sp name =
     (case get_service_name sp name of
        Inl err \<Rightarrow> Inl err
      | Inr (ver, s) \<Rightarrow> if ver = APIV2 then Inr (''/service/'' @ s @ ''/'') else Inr (''/biz/'' @ s @ ''/instance/''))"

definition get_api_version :: "simple_path_info \<Rightarrow> bytes \<Rightarrow> bytes" where
  "get_api_version sp name = (case get_service_name sp name of Inl err \<Rightarrow> [] | Inr (ver, s) \<Rightarrow> ver)"

text \<open>
  The group of \<open>binRe\<close>: an underscore and one to three digits at the end.  The match starts as far to the left as
  possible, which is where all the digits at the end begin.
\<close>

definition bin_suffix :: "bytes \<Rightarrow> bytes" where
  "bin_suffix s =
     (let n = length (takeWhile is_digit (rev s)) in
      if 1 \<le> n \<and> n \<le> 3 \<and> n < length s \<and> s ! (length s - n - 1) = CHR ''_''
      then drop (length s - n - 1) s else [])"

definition get_deploy_name :: "simple_path_info \<Rightarrow> bytes \<Rightarrow> zk_error + bytes" where
  "get_deploy_name sp zkPath =
     (let parts = split_byte CHR ''/'' zkPath in
      if length parts \<le> 2 then Inl (ZkPathFormat zkPath)
      else
        (let name = parts ! 2 in
         if parts ! 1 = ''biz'' then
           if length parts < 4 then Inl (ZkPathFormat zkPath) else Inr (name @ '':'' @ parts ! 3)
         else
           (let (ver, s) = get_project_name sp name in
            if ver \<noteq> APIV2 then Inl (UnknownApi2Service name)
            else if length parts = 3 \<or> parts ! 1 \<noteq> ''service'' then Inr s
            else Inr (s @ '':'' @ trim_suffix (parts ! 3) (bin_suffix (parts ! 3))))))"

subsection \<open>From ZooKeeper to etcd\<close>

definition zkConfig :: bytes where "zkConfig = ''config''"
definition zkRoute :: bytes where "zkRoute = ''route''"
definition zkInstance :: bytes where "zkInstance = ''instance''"

definition java_zk_rel_config_dir :: bytes where "java_zk_rel_config_dir = ''java/zk/config/''"
definition java_zk_rel_instance_dir :: bytes where "java_zk_rel_instance_dir = ''java/zk/instances/''"
definition java_zk_rel_route_dir :: bytes where "java_zk_rel_route_dir = ''java/zk/route/''"

text \<open>The kind of a node and the path relative to the stage.\<close>

definition parse_zk_path_v4 :: "bytes \<Rightarrow> zk_error + bytes \<times> bytes" where
  "parse_zk_path_v4 zkPath =
     (if \<not> has_prefix zkPath ''/biz/'' then Inl (InvalidV4Path zkPath)
      else
        (let p = trim_prefix zkPath ''/biz/''; parts = split_byte CHR ''/'' p in
         if length parts < 3 then Inl (IncompleteV4Path zkPath)
         else
           (let typStr = parts ! 2;
                (typ, prefix) =
                  (if typStr = ''daemon'' \<or> typStr = ''instance'' then (zkInstance, java_zk_rel_instance_dir)
                   else if typStr = ''policy'' then (zkRoute, java_zk_rel_route_dir)
                   else if typStr = ''config'' then (zkConfig, java_zk_rel_config_dir) else ([], []))
            in if typ = [] then Inl (UnknownV4Path zkPath)
               else
                 (let service = join ''.'' (take 2 parts)
                  in Inr (typ, path_join ([prefix, ''4'', service] @ drop 3 parts))))))"

definition parse_zk_path_v2 :: "simple_path_info \<Rightarrow> bytes \<Rightarrow> zk_error + bytes \<times> bytes" where
  "parse_zk_path_v2 sp zkPath =
     (let parts = split_byte CHR ''/'' zkPath in
      if length parts < 3 then Inl InvalidZkPath
      else
        (let typStr = parts ! 1 in
         if typStr \<noteq> ''config'' \<and> typStr \<noteq> ''service'' then Inl (UnknownZkPath zkPath)
         else
           (let (typ, prefix) =
                  (if typStr = ''service'' then
                     (if length parts = 3 then (zkRoute, java_zk_rel_route_dir) else (zkInstance, java_zk_rel_instance_dir))
                   else (zkConfig, java_zk_rel_config_dir));
                projectname = map_str (spi_serviceMap sp) (parts ! 2)
            in if projectname = [] then Inl (UnknownApi2Service (parts ! 2))
               else Inr (typ, path_join ([prefix, ''2'', projectname] @ drop 3 parts)))))"

definition spi_get_etcd_path :: "simple_path_info \<Rightarrow> stage \<Rightarrow> bytes \<Rightarrow> zk_error + bytes \<times> bytes" where
  "spi_get_etcd_path sp env zkPath =
     (if length zkPath = 0 then Inl EmptyZkPath
      else case (if has_prefix zkPath ''/biz/'' then parse_zk_path_v4 zkPath else parse_zk_path_v2 sp zkPath) of
             Inl err \<Rightarrow> Inl err
           | Inr (typ, p) \<Rightarrow> Inr (typ, path_join [stage_base_dir env, p]))"

text \<open>The functions of \<open>path_util.go\<close>: \<open>parseZKPathv2\<close> there is a stub.\<close>

definition parse_zk_path_v2_stub :: "bytes \<Rightarrow> zk_error + bytes \<times> bytes" where
  "parse_zk_path_v2_stub zkPath = Inr ([], [])"

definition get_etcd_path :: "stage \<Rightarrow> bytes \<Rightarrow> zk_error + bytes \<times> bytes" where
  "get_etcd_path env zkPath =
     (if length zkPath = 0 then Inl EmptyZkPath
      else case (if has_prefix zkPath ''/biz/'' then parse_zk_path_v4 zkPath else parse_zk_path_v2_stub zkPath) of
             Inl err \<Rightarrow> Inl err
           | Inr (typ, p) \<Rightarrow> Inr (typ, path_join [stage_base_dir env, p]))"

subsection \<open>From etcd to ZooKeeper\<close>

definition get_zk_path0 :: "bytes \<Rightarrow> zk_error + bytes" where
  "get_zk_path0 path =
     (let parts = split_byte CHR ''/'' path in
      if length parts < 3 then Inl InvalidEtcdPath
      else
        (let typ = parts ! 0; version = parts ! 1; cluster = parts ! 2;
             other = (if length parts > 3 then join ''/'' (drop 3 parts) else [])
         in if typ = ''instance'' then Inl NoServiceSync
            else if typ \<noteq> ''config'' \<and> typ \<noteq> ''route'' then Inl (UnknownEtcdType path)
            else if version = ''2'' then
              (if typ = ''route'' then
                 (if other \<noteq> [] then Inl (InvalidRouteEtcdPath path) else Inr (path_join [''/'', ''service'', cluster]))
               else Inr (path_join [''/'', typ, cluster, other]))
            else if version = ''4'' then
              (case last_index cluster CHR ''.'' of
                 None \<Rightarrow> Inl (InvalidCluster path)
               | Some idx \<Rightarrow>
                   if idx + 1 = length cluster then Inl (InvalidCluster path)
                   else
                     (let biz = take idx cluster; app = drop (idx + 1) cluster in
                      if typ = ''route'' then Inr (path_join [''/biz'', biz, app, ''policy/'', other])
                      else Inr (path_join [''/biz'', biz, app, ''config/'', other])))
            else Inl (UnknownPathVersion path)))"

definition get_zk_path :: "stage \<Rightarrow> bytes \<Rightarrow> zk_error + bytes" where
  "get_zk_path st etcdPath =
     (let prefix = java_zk_dir st;
          prefix = (if \<not> has_suffix prefix ''/'' then prefix @ ''/'' else prefix)
      in if \<not> has_prefix etcdPath prefix then Inl (InvalidMappedPath etcdPath)
         else
           (let path = trim_prefix etcdPath prefix;
                path = (case index_byte path CHR ''/'' of
                          None \<Rightarrow> path
                        | Some idx \<Rightarrow> if idx > 0 \<and> idx + 1 < length path then drop (idx + 1) path else path)
            in get_zk_path0 path))"

subsection \<open>Paths made of pieces\<close>

definition piece :: "bytes \<Rightarrow> bool" where
  "piece c \<longleftrightarrow> plain_elem c \<or> c = []"

lemma pieceD: "piece c \<Longrightarrow> CHR ''/'' \<notin> set c"
  by (auto simp: piece_def dest: plain_elemD)

lemma foldl_clean_pieces:
  "\<forall>c \<in> set cs. piece c \<Longrightarrow> foldl (clean_step r) st cs = rev (filter (\<lambda>c. c \<noteq> []) cs) @ st"
  by (induction cs arbitrary: st) (auto simp: piece_def dest: plain_elemD)

lemma split_join_pieces:
  "cs \<noteq> [] \<Longrightarrow> \<forall>c \<in> set cs. piece c \<Longrightarrow> split_byte CHR ''/'' (join ''/'' cs) = cs"
  by (rule split_join) (auto dest: pieceD)

lemma path_clean_pieces:
  assumes "plain_elem c" "\<forall>c \<in> set cs. piece c"
  shows "path_clean (join ''/'' (c # cs)) = join ''/'' (c # filter (\<lambda>c. c \<noteq> []) cs)"
proof -
  have "\<not> has_prefix (join ''/'' (c # cs)) ''/''" by (rule join_plain_hd [OF assms(1)])
  moreover have "join ''/'' (c # filter (\<lambda>c. c \<noteq> []) cs) \<noteq> []"
    using assms(1) by (cases "filter (\<lambda>c. c \<noteq> []) cs") (auto dest: plain_elemD)
  ultimately show ?thesis
    using assms foldl_clean_pieces [of cs False "[c]"] split_join_pieces [of "c # cs"]
    by (simp add: path_clean_def Let_def piece_def)
qed

lemma path_clean_rooted_pieces:
  assumes "cs \<noteq> []" "\<forall>c \<in> set cs. piece c"
  shows "path_clean (CHR ''/'' # join ''/'' cs) = CHR ''/'' # join ''/'' (filter (\<lambda>c. c \<noteq> []) cs)"
  using assms by (simp add: path_clean_def Let_def split_join_pieces foldl_clean_pieces)

lemma join_concat:
  "pss \<noteq> [] \<Longrightarrow> \<forall>ps \<in> set pss. ps \<noteq> [] \<Longrightarrow> join s (map (join s) pss) = join s (concat pss)"
proof (induction pss)
  case (Cons ps pss)
  then show ?case by (cases "pss = []") (auto simp: join_Cons join_append)
qed simp

lemma filter_plain: "\<forall>c \<in> set cs. plain_elem c \<Longrightarrow> filter (\<lambda>c. c \<noteq> []) cs = cs"
  by (auto simp: filter_id_conv dest: plain_elemD)

lemma plain_piece: "plain_elem c \<Longrightarrow> piece c" "piece []"
  by (simp_all add: piece_def)

text \<open>The relative path of a node of version 4.0, and back.\<close>

lemma plain_consts [simp]:
  "plain_elem ''java''" "plain_elem ''zk''" "plain_elem ''route''" "plain_elem ''config''" "plain_elem ''instances''"
  "plain_elem ''4''" "plain_elem ''biz''" "plain_elem ''policy''" "plain_elem ''dolphin''"
  by (simp_all add: plain_elem_def)

lemma plain_service: "plain_elem biz \<Longrightarrow> plain_elem app \<Longrightarrow> plain_elem (biz @ ''.'' @ app)"
  by (auto simp: plain_elem_def append_eq_Cons_conv Cons_eq_append_conv)

lemma etcd_rel_path:
  assumes "prefix = ''java/zk/'' @ kind @ ''/''" "plain_elem kind" "plain_elem svc" "\<forall>r \<in> set rest. plain_elem r" "plain_elem v"
  shows "path_join ([prefix, v, svc] @ rest) = join ''/'' ([''java'', ''zk'', kind, v, svc] @ rest)"
proof -
  have p: "prefix = join ''/'' [''java'', ''zk'', kind, []]" using assms(1) by simp
  have "join ''/'' ([prefix, v, svc] @ rest) = join ''/'' ([''java'', ''zk'', kind, []] @ [v, svc] @ rest)"
    unfolding p by (subst join_append) (auto simp: join_Cons)
  then show ?thesis
    using assms path_clean_pieces [of "''java''" "[''zk'', kind, [], v, svc] @ rest"]
    by (simp add: path_join_def plain_piece filter_plain plain_elemD(1))
qed

lemma split_v4_path:
  assumes "plain_elem biz" "plain_elem app" "plain_elem kind" "\<forall>r \<in> set rest. plain_elem r"
  shows "split_byte CHR ''/'' (trim_prefix (''/biz/'' @ join ''/'' ([biz, app, kind] @ rest)) ''/biz/'') = [biz, app, kind] @ rest"
  unfolding trim_prefix_append by (rule split_join_plain) (use assms in auto)

lemma parse_v4_parts:
  assumes "has_prefix zk ''/biz/''" "split_byte CHR ''/'' (trim_prefix zk ''/biz/'') = [biz, app, kind] @ rest"
    and "(kind, typ, dir) \<in> {(''policy'', zkRoute, ''route''), (''config'', zkConfig, ''config''),
      (''instance'', zkInstance, ''instances''), (''daemon'', zkInstance, ''instances'')}"
  shows "parse_zk_path_v4 zk = Inr (typ, path_join ([''java/zk/'' @ dir @ ''/'', ''4'', biz @ ''.'' @ app] @ rest))"
  using assms(3)
  by (auto simp: parse_zk_path_v4_def assms(1,2) zkRoute_def zkConfig_def zkInstance_def
      java_zk_rel_route_dir_def java_zk_rel_config_dir_def java_zk_rel_instance_dir_def)

lemma parse_v4:
  assumes "plain_elem biz" "plain_elem app" "\<forall>r \<in> set rest. plain_elem r"
    and "(kind, typ, dir) \<in> {(''policy'', zkRoute, ''route''), (''config'', zkConfig, ''config''),
      (''instance'', zkInstance, ''instances''), (''daemon'', zkInstance, ''instances'')}"
  shows "parse_zk_path_v4 (''/biz/'' @ join ''/'' ([biz, app, kind] @ rest)) =
    Inr (typ, join ''/'' ([''java'', ''zk'', dir, ''4'', biz @ ''.'' @ app] @ rest))"
proof -
  have k: "plain_elem kind" "plain_elem dir" using assms(4) by (auto simp: plain_elem_def)
  show ?thesis
    using parse_v4_parts [OF has_prefix_append split_v4_path [OF assms(1,2) k(1) assms(3)] assms(4)]
      etcd_rel_path [OF refl k(2) plain_service [OF assms(1,2)] assms(3), of "''4''"]
    by (simp only: plain_consts)
qed

lemma path_join_hd: "e \<noteq> [] \<Longrightarrow> join ''/'' (e # r) = p \<Longrightarrow> path_join (e # r) = path_clean p"
  by (simp add: path_join_def)

lemma biz_path_join:
  assumes "plain_elem biz" "plain_elem app" "plain_elem kind" "\<forall>r \<in> set rest. plain_elem r"
  shows "path_join [''/biz'', biz, app, kind @ ''/'', join ''/'' rest] = ''/biz/'' @ join ''/'' ([biz, app, kind] @ rest)"
proof -
  let ?o = "if rest = [] then [[]] else rest"
  have "join ''/'' [''/biz'', biz, app, kind @ ''/'', join ''/'' rest]
      = join ''/'' (map (join ''/'') [[[], ''biz''], [biz], [app], [kind, []], ?o])"
    by simp
  also have "\<dots> = join ''/'' ([] # [''biz'', biz, app, kind, []] @ ?o)"
    by (subst join_concat) simp_all
  finally have j: "join ''/'' [''/biz'', biz, app, kind @ ''/'', join ''/'' rest]
      = CHR ''/'' # join ''/'' ([''biz'', biz, app, kind, []] @ ?o)"
    by (simp add: join_Cons)
  have "path_join [''/biz'', biz, app, kind @ ''/'', join ''/'' rest]
      = path_clean (CHR ''/'' # join ''/'' ([''biz'', biz, app, kind, []] @ ?o))"
    by (rule path_join_hd [OF _ j]) simp
  also have "\<dots> = CHR ''/'' # join ''/'' (filter (\<lambda>c. c \<noteq> []) ([''biz'', biz, app, kind, []] @ ?o))"
    using assms by (intro path_clean_rooted_pieces) (auto simp: plain_piece)
  also have "filter (\<lambda>c. c \<noteq> []) ([''biz'', biz, app, kind, []] @ ?o) = ''biz'' # [biz, app, kind] @ rest"
    using assms by (auto simp: filter_plain dest: plain_elemD)
  finally show ?thesis by (simp add: join_Cons)
qed

lemma zk_path0_parts:
  assumes "split_byte CHR ''/'' p = [dir, ''4'', biz @ ''.'' @ app] @ rest" "CHR ''.'' \<notin> set app" "app \<noteq> []"
    and "(kind, dir) \<in> {(''policy'', ''route''), (''config'', ''config'')}"
  shows "get_zk_path0 p = Inr (path_join [''/biz'', biz, app, kind @ ''/'', join ''/'' rest])"
proof -
  have o: "(if 3 < length ([dir, ''4'', biz @ ''.'' @ app] @ rest) then join ''/'' rest else []) = join ''/'' rest"
    by simp
  have l: "last_index (biz @ CHR ''.'' # app) CHR ''.'' = Some (length biz)" using assms(2) by simp
  show ?thesis
    using assms(3,4) o by (auto simp: get_zk_path0_def assms(1) l)
qed

lemma zk_path0_v4:
  assumes "plain_elem biz" "plain_elem app" "\<forall>r \<in> set rest. plain_elem r" "CHR ''.'' \<notin> set app"
    and "(kind, dir) \<in> {(''policy'', ''route''), (''config'', ''config'')}"
  shows "get_zk_path0 (join ''/'' ([dir, ''4'', biz @ ''.'' @ app] @ rest)) = Inr (''/biz/'' @ join ''/'' ([biz, app, kind] @ rest))"
proof -
  have k: "plain_elem kind" "plain_elem dir" using assms(5) by (auto simp: plain_elem_def)
  have "split_byte CHR ''/'' (join ''/'' ([dir, ''4'', biz @ ''.'' @ app] @ rest)) = [dir, ''4'', biz @ ''.'' @ app] @ rest"
    using assms k plain_service [OF assms(1,2)] by (intro split_join_plain) auto
  then have "get_zk_path0 (join ''/'' ([dir, ''4'', biz @ ''.'' @ app] @ rest))
      = Inr (path_join [''/biz'', biz, app, kind @ ''/'', join ''/'' rest])"
    using assms(2,4,5) by (intro zk_path0_parts) (auto dest: plain_elemD)
  then show ?thesis by (simp only: biz_path_join [OF assms(1,2) k(1) assms(3)])
qed

text \<open>What \<open>getEtcdPath\<close> gives is below the directory of the stage, but \<open>getZKPath\<close> takes the kind of it away.\<close>

lemma stage_string_plain: "plain_elem (stage_string st)"
  by (auto simp: stage_string_def stages_def plain_elem_def split: option.splits if_splits dest!: map_of_SomeD)

lemma stage_path_join:
  assumes "plain_elem c" "\<forall>r \<in> set rest. plain_elem r"
  shows "path_join [stage_base_dir st, join ''/'' (c # rest)] = stage_base_dir st @ join ''/'' (c # rest)"
proof -
  have b: "stage_base_dir st = join ''/'' [[], ''dolphin'', stage_string st, []]"
    by (simp add: stage_base_dir_def base_dir_def)
  have "join ''/'' [stage_base_dir st, join ''/'' (c # rest)]
      = join ''/'' (map (join ''/'') [[[], ''dolphin'', stage_string st, []], c # rest])"
    by (simp only: b list.map)
  also have "\<dots> = join ''/'' ([] # [''dolphin'', stage_string st, []] @ c # rest)"
    by (subst join_concat) simp_all
  finally have j: "join ''/'' [stage_base_dir st, join ''/'' (c # rest)]
      = CHR ''/'' # join ''/'' ([''dolphin'', stage_string st, []] @ c # rest)"
    by (simp add: join_Cons)
  have "path_join [stage_base_dir st, join ''/'' (c # rest)]
      = path_clean (CHR ''/'' # join ''/'' ([''dolphin'', stage_string st, []] @ c # rest))"
    by (rule path_join_hd [OF _ j]) (simp add: stage_base_dir_def base_dir_def)
  also have "\<dots> = CHR ''/'' # join ''/'' (filter (\<lambda>c. c \<noteq> []) ([''dolphin'', stage_string st, []] @ c # rest))"
    using assms stage_string_plain by (intro path_clean_rooted_pieces) (auto simp: plain_piece)
  also have "filter (\<lambda>c. c \<noteq> []) ([''dolphin'', stage_string st, []] @ c # rest) = ''dolphin'' # stage_string st # c # rest"
    using assms stage_string_plain [of st] by (auto simp: filter_plain dest: plain_elemD)
  finally show ?thesis by (simp add: stage_base_dir_def base_dir_def join_Cons)
qed

lemma get_etcd_path_v4:
  assumes "plain_elem biz" "plain_elem app" "\<forall>r \<in> set rest. plain_elem r"
    and "(kind, typ, dir) \<in> {(''policy'', zkRoute, ''route''), (''config'', zkConfig, ''config''),
      (''instance'', zkInstance, ''instances''), (''daemon'', zkInstance, ''instances'')}"
  shows "get_etcd_path st (''/biz/'' @ join ''/'' ([biz, app, kind] @ rest)) =
    Inr (typ, java_zk_dir st @ join ''/'' ([dir, ''4'', biz @ ''.'' @ app] @ rest))"
proof -
  let ?zk = "''/biz/'' @ join ''/'' ([biz, app, kind] @ rest)" and ?r = "[''zk'', dir, ''4'', biz @ ''.'' @ app] @ rest"
  have r: "\<forall>c \<in> set ?r. plain_elem c" using assms plain_service [OF assms(1,2)] by auto
  have "has_prefix ?zk ''/biz/''" by (rule has_prefix_append)
  then have "get_etcd_path st ?zk = Inr (typ, path_join [stage_base_dir st, join ''/'' (''java'' # ?r)])"
    using parse_v4 [OF assms] by (simp add: get_etcd_path_def del: join.simps)
  also have "path_join [stage_base_dir st, join ''/'' (''java'' # ?r)] = stage_base_dir st @ join ''/'' (''java'' # ?r)"
    using r by (intro stage_path_join) auto
  finally show ?thesis by (simp add: java_zk_dir_def)
qed

lemma get_zk_path_below:
  assumes "dir \<noteq> []" "CHR ''/'' \<notin> set dir" "q \<noteq> []"
  shows "get_zk_path st (java_zk_dir st @ dir @ CHR ''/'' # q) = get_zk_path0 q"
proof -
  have "has_suffix (java_zk_dir st) ''/''" by (auto simp: java_zk_dir_def has_suffix_iff)
  then show ?thesis using assms by (simp add: get_zk_path_def)
qed

subsection \<open>Properties\<close>

text \<open>
  for routes and configurations of version 4.0 the two translations are inverse: what \<open>parseZKPathv4\<close> makes
  of a path, under the directory of all the nodes, \<open>getZKPath0\<close> turns back into the path, if the name of the
  application has no dot.
\<close>

theorem zk_paths_inverse:
  assumes "plain_elem biz" "plain_elem app" "CHR ''.'' \<notin> set app" "\<forall>r \<in> set rest. plain_elem r"
    "(kind, dir) \<in> {(''policy'', ''route''), (''config'', ''config'')}"
    "zk = ''/biz/'' @ join ''/'' ([biz, app, kind] @ rest)"
  shows "\<exists>typ p. parse_zk_path_v4 zk = Inr (typ, ''java/zk/'' @ p) \<and> get_zk_path0 p = Inr zk"
proof -
  let ?p = "join ''/'' ([dir, ''4'', biz @ ''.'' @ app] @ rest)"
  obtain ty where "parse_zk_path_v4 zk = Inr (ty, join ''/'' ([''java'', ''zk'', dir, ''4'', biz @ ''.'' @ app] @ rest))"
    using parse_v4 [OF assms(1,2,4), of kind _ dir] assms(5) unfolding assms(6) by blast
  then show ?thesis
    using zk_path0_v4 [OF assms(1,2,4,3,5)] assms(6) by auto
qed

theorem zk_paths_inverse_witness:
  "\<exists>typ p. parse_zk_path_v4 ''/biz/sem/app/policy/default'' = Inr (typ, ''java/zk/'' @ p)
   \<and> get_zk_path0 p = Inr ''/biz/sem/app/policy/default''"
  using zk_paths_inverse [of "''sem''" "''app''" "[''default'']" "''policy''" "''route''"]
  by (simp add: plain_elem_def)

text \<open>
  two paths of version 4.0, of routes or configurations, never share an object of etcd.
\<close>

theorem zk_paths_distinct:
  assumes "plain_elem biz" "plain_elem app" "CHR ''.'' \<notin> set app" "\<forall>r \<in> set rest. plain_elem r" "kind \<in> {''policy'', ''config''}"
    "plain_elem biz'" "plain_elem app'" "CHR ''.'' \<notin> set app'" "\<forall>r \<in> set rest'. plain_elem r" "kind' \<in> {''policy'', ''config''}"
    "(biz, app, kind, rest) \<noteq> (biz', app', kind', rest')"
  shows "\<exists>ty p ty' p'. get_etcd_path st (''/biz/'' @ join ''/'' ([biz, app, kind] @ rest)) = Inr (ty, p)
    \<and> get_etcd_path st (''/biz/'' @ join ''/'' ([biz', app', kind'] @ rest')) = Inr (ty', p') \<and> p \<noteq> p'"
proof -
  obtain dir t where d: "(kind, t, dir) \<in> {(''policy'', zkRoute, ''route''), (''config'', zkConfig, ''config'')}"
    using assms(5) by auto
  obtain dir' t' where d': "(kind', t', dir') \<in> {(''policy'', zkRoute, ''route''), (''config'', zkConfig, ''config'')}"
    using assms(10) by auto
  let ?e = "join ''/'' ([dir, ''4'', biz @ ''.'' @ app] @ rest)" and ?e' = "join ''/'' ([dir', ''4'', biz' @ ''.'' @ app'] @ rest')"
  have "plain_elem kind" "plain_elem kind'" using d d' by (auto simp: plain_elem_def)
  then have sp: "split_byte CHR ''/'' (join ''/'' ([biz, app, kind] @ rest)) = [biz, app, kind] @ rest"
    "split_byte CHR ''/'' (join ''/'' ([biz', app', kind'] @ rest')) = [biz', app', kind'] @ rest'"
    using assms(1,2,4,6,7,9) by (intro split_join_plain; auto)+
  have "get_zk_path0 ?e \<noteq> get_zk_path0 ?e'"
  proof
    assume "get_zk_path0 ?e = get_zk_path0 ?e'"
    then have j: "join ''/'' ([biz, app, kind] @ rest) = join ''/'' ([biz', app', kind'] @ rest')"
      using zk_path0_v4 [OF assms(1,2,4,3), of kind dir] zk_path0_v4 [OF assms(6,7,9,8), of kind' dir'] d d' by auto
    show False using sp assms(11) unfolding j by simp
  qed
  then have "?e \<noteq> ?e'" by metis
  moreover have "get_etcd_path st (''/biz/'' @ join ''/'' ([biz, app, kind] @ rest)) = Inr (t, java_zk_dir st @ ?e)"
    using d by (intro get_etcd_path_v4 [OF assms(1,2,4)]) auto
  moreover have "get_etcd_path st (''/biz/'' @ join ''/'' ([biz', app', kind'] @ rest')) = Inr (t', java_zk_dir st @ ?e')"
    using d' by (intro get_etcd_path_v4 [OF assms(6,7,9)]) auto
  ultimately show ?thesis by blast
qed

theorem zk_paths_distinct_witness:
  "\<exists>ty p ty' p'. get_etcd_path Dev ''/biz/sem/app/policy/a'' = Inr (ty, p)
   \<and> get_etcd_path Dev ''/biz/sem/app/policy/b'' = Inr (ty', p') \<and> p \<noteq> p'"
  using zk_paths_distinct [of "''sem''" "''app''" "[''a'']" "''policy''" "''sem''" "''app''" "[''b'']" "''policy''" Dev]
  by (simp add: plain_elem_def)

text \<open>
  \<open>getZKPath\<close> is not the inverse of \<open>getEtcdPath\<close> the comment says it is, nor of any use on its results: it
  strips the kind of the node as if it were a stage, and so fails on the path of every route, configuration
  or instance.
\<close>

theorem zk_path_of_etcd_fails:
  assumes "plain_elem biz" "plain_elem app" "\<forall>r \<in> set rest. plain_elem r"
    "kind \<in> {''policy'', ''config'', ''instance'', ''daemon''}"
  shows "\<exists>ty p err. get_etcd_path st (''/biz/'' @ join ''/'' ([biz, app, kind] @ rest)) = Inr (ty, p)
    \<and> get_zk_path st p = Inl err"
proof -
  obtain ty dir where d: "(kind, ty, dir) \<in> {(''policy'', zkRoute, ''route''), (''config'', zkConfig, ''config''),
      (''instance'', zkInstance, ''instances''), (''daemon'', zkInstance, ''instances'')}"
    using assms(4) by auto
  let ?svc = "biz @ ''.'' @ app" and ?q = "join ''/'' (''4'' # (biz @ ''.'' @ app) # rest)"
  have "plain_elem dir" using d by (auto simp: plain_elem_def)
  then have dir: "dir \<noteq> []" "CHR ''/'' \<notin> set dir" by (auto dest: plain_elemD)
  have e: "join ''/'' ([dir, ''4'', ?svc] @ rest) = dir @ CHR ''/'' # ?q" by (simp add: join_Cons)
  have "get_zk_path st (java_zk_dir st @ dir @ CHR ''/'' # ?q) = get_zk_path0 ?q"
    by (rule get_zk_path_below [OF dir]) simp
  moreover have "\<exists>err. get_zk_path0 ?q = Inl err"
  proof -
    have "split_byte CHR ''/'' ?q = ''4'' # ?svc # rest"
      using plain_service [OF assms(1,2)] assms(3) by (intro split_join_plain) auto
    then show ?thesis by (simp add: get_zk_path0_def Let_def)
  qed
  ultimately show ?thesis using get_etcd_path_v4 [OF assms(1-3) d, of st] unfolding e by auto
qed

theorem zk_path_of_etcd_fails_witness:
  "\<exists>ty p err. get_etcd_path Dev ''/biz/sem/app/policy'' = Inr (ty, p) \<and> get_zk_path Dev p = Inl err"
  using zk_path_of_etcd_fails [of "''sem''" "''app''" "[]" "''policy''" Dev] by (simp add: plain_elem_def)

subsection \<open>Names of deployments\<close>

text \<open>What the two maps have to be: inverse to each other, without empty names.\<close>

definition inverse_names :: "(bytes, bytes) fmap \<Rightarrow> (bytes, bytes) fmap \<Rightarrow> bool" where
  "inverse_names A B \<longleftrightarrow> (\<forall>s p. fmlookup A s = Some p \<longleftrightarrow> fmlookup B p = Some s)
     \<and> (\<forall>s p. fmlookup A s = Some p \<longrightarrow> s \<noteq> [] \<and> p \<noteq> [])"

definition spi_ok :: "simple_path_info \<Rightarrow> bool" where
  "spi_ok sp \<longleftrightarrow> inverse_names (spi_serviceMap sp) (spi_projectMap sp)"

lemma map_str_eq: "map_str m k \<noteq> [] \<Longrightarrow> fmlookup m k = Some (map_str m k)"
  by (auto simp: map_str_def split: option.splits)

lemma bin_suffix_append: "\<exists>b. s = b @ bin_suffix s"
proof (cases "bin_suffix s = []")
  case False
  then have "bin_suffix s = drop (length s - length (takeWhile is_digit (rev s)) - 1) s"
    by (auto simp: bin_suffix_def Let_def split: if_splits)
  then show ?thesis by (metis append_take_drop_id)
qed simp

text \<open>An instance number at the end of a name that has none itself is found.\<close>

lemma bin_suffix_number:
  assumes "ds \<noteq> []" "length ds \<le> 3" "\<forall>d \<in> set ds. is_digit d"
  shows "bin_suffix (b @ CHR ''_'' # ds) = CHR ''_'' # ds"
proof -
  have "\<not> is_digit CHR ''_''" by (simp add: is_digit_def)
  then have "takeWhile is_digit (rev (b @ CHR ''_'' # ds)) = rev ds" using assms(3) by (simp add: takeWhile_append)
  then show ?thesis using assms(1,2) by (simp add: bin_suffix_def Let_def nth_append Suc_le_eq)
qed

lemma split_colon:
  assumes "length (split_byte c s) = 2"
  obtains a b where "s = a @ c # b" "split_byte c s = [a, b]" "c \<notin> set a" "c \<notin> set b"
proof -
  obtain a r where "split_byte c s = a # r" by (cases "split_byte c s") auto
  moreover from this obtain b where "r = [b]" using assms by (cases r) auto
  ultimately have ab: "split_byte c s = [a, b]" by simp
  have "s = a @ c # b" using join_split [of c s] unfolding ab by simp
  moreover have "c \<notin> set a" "c \<notin> set b" using split_byte_no_sep [of _ c s] unfolding ab by auto
  ultimately show ?thesis using ab that by blast
qed

lemma split_slash3:
  "CHR ''/'' \<notin> set a \<Longrightarrow> CHR ''/'' \<notin> set b \<Longrightarrow>
   split_byte CHR ''/'' (CHR ''/'' # a @ CHR ''/'' # b @ CHR ''/'' # r) = [] # a # b # split_byte CHR ''/'' r"
  by simp

lemma get_deploy_name_biz:
  "split_byte CHR ''/'' z = x # ''biz'' # a # b # r \<Longrightarrow> get_deploy_name sp z = Inr (a @ '':'' @ b)"
  by (simp add: get_deploy_name_def)

lemma get_deploy_name_service:
  assumes "split_byte CHR ''/'' z = [x, ''service'', s, node]" "map_str (spi_serviceMap sp) s \<noteq> []"
  shows "get_deploy_name sp z = Inr (map_str (spi_serviceMap sp) s @ '':'' @ trim_suffix node (bin_suffix node))"
  using assms by (simp add: get_deploy_name_def get_project_name_def Let_def)

text \<open>
  the name of a deployment is found again from the path of any of its instances: the instance is a node
  below the path of the instances, named after the program or, in version 2.0, the program with a number.
\<close>

theorem deploy_name_of_instance:
  assumes "spi_ok sp" "get_instance_path sp name = Inr p" "CHR ''/'' \<notin> set name" "CHR ''/'' \<notin> set node"
    "\<forall>s \<in> fset (fmdom (spi_serviceMap sp)). CHR ''/'' \<notin> set s"
    "get_api_version sp name = APIV2 \<longrightarrow>
       (\<exists>proj bin. name = proj @ CHR '':'' # bin \<and> CHR '':'' \<notin> set proj \<and> node = bin @ bin_suffix node)"
  shows "get_deploy_name sp (p @ node) = Inr name"
proof -
  have v: "APIV4 \<noteq> APIV2" by (simp add: APIV2_def APIV4_def)
  have "length (split_byte CHR '':'' name) = 2"
    using assms(2) by (auto simp: get_instance_path_def get_service_name_def Let_def split: sum.splits if_splits)
  then obtain proj bin where n: "name = proj @ CHR '':'' # bin" "split_byte CHR '':'' name = [proj, bin]"
    "CHR '':'' \<notin> set proj" "CHR '':'' \<notin> set bin"
    by (rule split_colon)
  have sl: "CHR ''/'' \<notin> set proj" "CHR ''/'' \<notin> set bin" using assms(3) n(1) by auto
  show ?thesis
  proof (cases "map_str (spi_projectMap sp) proj = []")
    case True
    then have "p = ''/biz/'' @ (proj @ ''/'' @ bin) @ ''/instance/''"
      using assms(2) n(2) v by (simp add: get_instance_path_def get_service_name_def)
    then have z: "p @ node = CHR ''/'' # ''biz'' @ CHR ''/'' # proj @ CHR ''/'' # bin @ CHR ''/'' # ''instance/'' @ node"
      by simp
    have "split_byte CHR ''/'' (p @ node) = [] # ''biz'' # proj # bin # split_byte CHR ''/'' (''instance/'' @ node)"
      unfolding z using sl by (simp del: append.append_Cons add: split_byte_append)
    then show ?thesis using get_deploy_name_biz n(1) by simp
  next
    case False
    let ?s = "map_str (spi_projectMap sp) proj"
    have "fmlookup (spi_projectMap sp) proj = Some ?s" by (rule map_str_eq [OF False])
    then have sm: "fmlookup (spi_serviceMap sp) ?s = Some proj" using assms(1) unfolding spi_ok_def inverse_names_def by blast
    have pr: "map_str (spi_serviceMap sp) ?s = proj" using sm by (simp add: map_str_def)
    have pn: "proj \<noteq> []" using sm assms(1) unfolding spi_ok_def inverse_names_def by blast
    have ps: "CHR ''/'' \<notin> set ?s" using fmdomI [OF sm] assms(5) by blast
    have "get_service_name sp name = Inr (APIV2, ?s)" using n(2) False by (simp add: get_service_name_def)
    then have p: "p = ''/service/'' @ ?s @ ''/''" and ver: "get_api_version sp name = APIV2"
      using assms(2) by (simp_all add: get_instance_path_def get_api_version_def)
    obtain proj' bin' where n': "name = proj' @ CHR '':'' # bin'" "CHR '':'' \<notin> set proj'" "node = bin' @ bin_suffix node"
      using assms(6) ver by blast
    have "bin' = bin"
      using split2_hit [OF n(3), of bin] split2_hit [OF n'(2), of bin'] unfolding n(1) [symmetric] n'(1) [symmetric] by simp
    then have nb: "bin @ bin_suffix node = node" using n'(3) by metis
    have "trim_suffix node (bin_suffix node) = bin" using trim_suffix_append [of bin "bin_suffix node"] unfolding nb .
    moreover have z: "p @ node = CHR ''/'' # ''service'' @ CHR ''/'' # ?s @ CHR ''/'' # node" using p by simp
    have "split_byte CHR ''/'' (p @ node) = [[], ''service'', ?s, node]"
      unfolding z using ps assms(4) by (simp del: append.append_Cons add: split_byte_append)
    ultimately show ?thesis using get_deploy_name_service [of "p @ node" "[]" ?s node sp] pr pn n(1) by simp
  qed
qed

definition crm_paths :: simple_path_info where
  "crm_paths = \<lparr>spi_serviceMap = fmupd ''com.crm'' ''crm'' fmempty, spi_projectMap = fmupd ''crm'' ''com.crm'' fmempty,
     spi_stopC = False\<rparr>"

lemma crm_paths_ok: "spi_ok crm_paths"
  by (auto simp: spi_ok_def inverse_names_def crm_paths_def split: if_splits)

theorem deploy_name_of_instance_witness:
  "get_deploy_name crm_paths ''/service/com.crm/server_12'' = Inr ''crm:server''"
proof -
  have "get_instance_path crm_paths ''crm:server'' = Inr ''/service/com.crm/''"
    by (simp add: get_instance_path_def get_service_name_def crm_paths_def map_str_def APIV2_def APIV4_def)
  moreover have "bin_suffix ''server_12'' = ''_12''" by code_simp
  ultimately show ?thesis
    using deploy_name_of_instance [OF crm_paths_ok, of "''crm:server''" "''/service/com.crm/''" "''server_12''"]
    by (force simp: crm_paths_def)
qed

text \<open>
  the path of the route of a service of version 2.0 leads to the name of the project, not of a deployment,
  and for the name of a project there is no version of the interface.
\<close>

theorem route_path_loses_deployment:
  assumes "spi_ok sp" "get_route_path sp name = Inr p" "get_api_version sp name = APIV2"
    "\<forall>s \<in> fset (fmdom (spi_serviceMap sp)). CHR ''/'' \<notin> set s"
  shows "\<exists>project. get_deploy_name sp p = Inr project \<and> project \<noteq> name \<and> get_api_version sp project = []"
proof -
  have "length (split_byte CHR '':'' name) = 2"
    using assms(2) by (auto simp: get_route_path_def get_service_name_def Let_def split: sum.splits if_splits)
  then obtain proj bin where n: "name = proj @ CHR '':'' # bin" "split_byte CHR '':'' name = [proj, bin]"
    "CHR '':'' \<notin> set proj" "CHR '':'' \<notin> set bin"
    by (rule split_colon)
  let ?s = "map_str (spi_projectMap sp) proj"
  have "?s \<noteq> []"
    using assms(3) n(2) by (auto simp: get_api_version_def get_service_name_def APIV2_def APIV4_def)
  then have sm: "fmlookup (spi_serviceMap sp) ?s = Some proj"
    using assms(1) map_str_eq unfolding spi_ok_def inverse_names_def by blast
  have ps: "CHR ''/'' \<notin> set ?s" using fmdomI [OF sm] assms(4) by blast
  have pn: "map_str (spi_serviceMap sp) ?s = proj" "proj \<noteq> []"
    using sm assms(1) by (simp add: map_str_def) (use sm assms(1) in \<open>unfold spi_ok_def inverse_names_def, blast\<close>)
  have "p = CHR ''/'' # ''service'' @ CHR ''/'' # ?s"
    using assms(2) n(2) \<open>?s \<noteq> []\<close> by (simp add: get_route_path_def get_service_name_def)
  then have "split_byte CHR ''/'' p = [[], ''service'', ?s]"
    using ps by (simp del: append.append_Cons add: split_byte_append)
  then have "get_deploy_name sp p = Inr proj" using pn by (simp add: get_deploy_name_def get_project_name_def Let_def)
  moreover have "get_api_version sp proj = []" using n(3) by (simp add: get_api_version_def get_service_name_def)
  ultimately show ?thesis using n(1) by auto
qed

theorem route_path_loses_deployment_witness:
  "\<exists>project. get_deploy_name crm_paths ''/service/com.crm'' = Inr project \<and> project \<noteq> ''crm:server''
   \<and> get_api_version crm_paths project = []"
  using route_path_loses_deployment [OF crm_paths_ok, of "''crm:server''" "''/service/com.crm''"]
  by (simp add: get_route_path_def get_api_version_def get_service_name_def crm_paths_def map_str_def APIV2_def APIV4_def)

subsection \<open>Following the projects of the store\<close>

text \<open>\<open>load\<close> and the handler of the events of its watch; objects that are no projects end the process.\<close>

fun load_projects :: "simple_path_info \<Rightarrow> project_info list \<Rightarrow> simple_path_info" where
  "load_projects sp [] = sp"
| "load_projects sp (v # vs) =
     (if pi_apiVersion v \<noteq> APIV2 then load_projects sp vs
      else load_projects
        (sp\<lparr>spi_serviceMap := fmupd (pi_serviceName v) (pi_project v) (spi_serviceMap sp),
            spi_projectMap := fmupd (pi_project v) (pi_serviceName v) (spi_projectMap sp)\<rparr>) vs)"

definition new_simple_path_info ::
  "store_error option \<Rightarrow> 'e kv_client \<Rightarrow> project_info codec \<Rightarrow> 'e \<Rightarrow> ((bytes, project_info) fmap \<Rightarrow> bytes list)
     \<Rightarrow> store_error option \<Rightarrow> store_error + simple_path_info" where
  "new_simple_path_info conn kv cd e order watch =
     (case conn of
        Some err \<Rightarrow> Inl err
      | None \<Rightarrow>
          (case store_list_map kv cd java_project_dir e [] (\<lambda>v. True) fmempty of
             (_, Some err) \<Rightarrow> Inl err
           | (projects, None) \<Rightarrow>
               (let sp = load_projects \<lparr>spi_serviceMap = fmempty, spi_projectMap = fmempty, spi_stopC = False\<rparr>
                           (map (\<lambda>k. the (fmlookup projects k)) (order projects))
                in case watch of Some err \<Rightarrow> Inl err | None \<Rightarrow> Inr sp)))"

definition project_event :: "simple_path_info \<Rightarrow> project_info watch_event \<Rightarrow> simple_path_info outcome" where
  "project_event sp e =
     (case we_object e of
        Object n dat \<Rightarrow>
          if n \<noteq> 1 then Exits
          else if pi_apiVersion dat \<noteq> APIV2 then Returns sp
          else if we_type e = Added \<or> we_type e = Modified then
            Returns (sp\<lparr>spi_serviceMap := fmupd (pi_serviceName dat) (pi_project dat) (spi_serviceMap sp),
                        spi_projectMap := fmupd (pi_project dat) (pi_serviceName dat) (spi_projectMap sp)\<rparr>)
          else if we_type e = Deleted then
            Returns (sp\<lparr>spi_serviceMap := fmdrop (pi_serviceName dat) (spi_serviceMap sp),
                        spi_projectMap := fmdrop (pi_project dat) (spi_projectMap sp)\<rparr>)
          else Returns sp
      | _ \<Rightarrow> Exits)"

text \<open>\<open>Stop\<close> closes the channel: closing a nil channel panics.\<close>

definition spi_stop :: "simple_path_info \<Rightarrow> simple_path_info go" where
  "spi_stop sp = (if spi_stopC sp then Some sp else None)"


lemma inverse_names_empty: "inverse_names fmempty fmempty"
  by (simp add: inverse_names_def)

lemma inverse_names_add:
  assumes "inverse_names A B" "s \<noteq> []" "p \<noteq> []" "fmlookup A s = Some p \<or> fmlookup A s = None \<and> fmlookup B p = None"
  shows "inverse_names (fmupd s p A) (fmupd p s B)"
proof -
  have inv: "fmlookup A a = Some b \<longleftrightarrow> fmlookup B b = Some a" for a b using assms(1) by (simp add: inverse_names_def)
  have "fmlookup (fmupd s p A) a = Some b \<longleftrightarrow> fmlookup (fmupd p s B) b = Some a" for a b
    using inv [of a b] inv [of s b] inv [of a p] assms(4) by auto
  moreover have "fmlookup (fmupd s p A) a = Some b \<longrightarrow> a \<noteq> [] \<and> b \<noteq> []" for a b
    using assms(1-3) by (auto simp: inverse_names_def)
  ultimately show ?thesis unfolding inverse_names_def by blast
qed

lemma inverse_names_drop:
  assumes "inverse_names A B" "fmlookup A s = Some p"
  shows "inverse_names (fmdrop s A) (fmdrop p B)"
proof -
  have inv: "fmlookup A a = Some b \<longleftrightarrow> fmlookup B b = Some a" for a b using assms(1) by (simp add: inverse_names_def)
  have "fmlookup (fmdrop s A) a = Some b \<longleftrightarrow> fmlookup (fmdrop p B) b = Some a" for a b
    using inv [of a b] inv [of s b] inv [of a p] assms(2) by auto
  moreover have "fmlookup (fmdrop s A) a = Some b \<longrightarrow> a \<noteq> [] \<and> b \<noteq> []" for a b
    using assms(1) by (auto simp: inverse_names_def)
  ultimately show ?thesis unfolding inverse_names_def by blast
qed

text \<open>
  as long as projects are added and deleted but their names do not change, the two maps stay inverse to each
  other and hold exactly the pairs of names of the projects that are there.
\<close>

theorem project_event_keeps:
  assumes "spi_ok sp" "we_object e = Object 1 dat" "pi_apiVersion dat = APIV2" "s = pi_serviceName dat" "p = pi_project dat"
    "s \<noteq> []" "p \<noteq> []"
    "we_type e \<in> {Added, Modified} \<and> (fmlookup (spi_serviceMap sp) s = Some p \<or>
       fmlookup (spi_serviceMap sp) s = None \<and> fmlookup (spi_projectMap sp) p = None)
     \<or> we_type e = Deleted \<and> fmlookup (spi_serviceMap sp) s = Some p"
  shows "\<exists>sp'. project_event sp e = Returns sp' \<and> spi_ok sp'
    \<and> (\<forall>a b. fmlookup (spi_serviceMap sp') a = Some b \<longleftrightarrow>
         (if we_type e = Deleted then fmlookup (spi_serviceMap sp) a = Some b \<and> a \<noteq> s
          else fmlookup (spi_serviceMap sp) a = Some b \<or> (a, b) = (s, p)))"
proof (cases "we_type e = Deleted")
  case False
  then have t: "we_type e \<in> {Added, Modified}"
    and f: "fmlookup (spi_serviceMap sp) s = Some p \<or> fmlookup (spi_serviceMap sp) s = None \<and> fmlookup (spi_projectMap sp) p = None"
    using assms(8) by blast+
  show ?thesis
    using t f inverse_names_add [OF assms(1) [unfolded spi_ok_def] assms(6,7) f] assms(2-5)
    by (intro exI [of _ "sp\<lparr>spi_serviceMap := fmupd s p (spi_serviceMap sp), spi_projectMap := fmupd p s (spi_projectMap sp)\<rparr>"])
      (auto simp: project_event_def spi_ok_def split: if_splits)
next
  case True
  then have t: "we_type e = Deleted" "fmlookup (spi_serviceMap sp) s = Some p" using assms(8) by auto
  show ?thesis
    using t inverse_names_drop [OF assms(1) [unfolded spi_ok_def] t(2)] assms(2-5)
    by (intro exI [of _ "sp\<lparr>spi_serviceMap := fmdrop s (spi_serviceMap sp), spi_projectMap := fmdrop p (spi_projectMap sp)\<rparr>"])
      (auto simp: project_event_def spi_ok_def split: if_splits)
qed

definition web_project :: project_info where
  "web_project = \<lparr>pi_desc = [], pi_apiVersion = APIV2, pi_serviceName = ''com.web'', pi_project = ''web'', pi_zkRoute = [],
     pi_zkInstance = []\<rparr>"

theorem project_event_keeps_witness:
  "\<exists>sp'. project_event crm_paths \<lparr>we_type = Added, we_key = ''web'', we_object = Object 1 web_project\<rparr> = Returns sp' \<and> spi_ok sp'
   \<and> fmlookup (spi_serviceMap sp') ''com.web'' = Some ''web''"
proof -
  let ?e = "\<lparr>we_type = Added, we_key = ''web'', we_object = Object 1 web_project\<rparr>"
  have "\<exists>sp'. project_event crm_paths ?e = Returns sp' \<and> spi_ok sp'
    \<and> (\<forall>a b. fmlookup (spi_serviceMap sp') a = Some b \<longleftrightarrow>
         (if we_type ?e = Deleted then fmlookup (spi_serviceMap crm_paths) a = Some b \<and> a \<noteq> ''com.web''
          else fmlookup (spi_serviceMap crm_paths) a = Some b \<or> (a, b) = (''com.web'', ''web'')))"
    by (rule project_event_keeps [OF crm_paths_ok, where dat = web_project]) (simp_all add: web_project_def crm_paths_def)
  then obtain sp' where "project_event crm_paths ?e = Returns sp'" "spi_ok sp'"
    "fmlookup (spi_serviceMap sp') ''com.web'' = Some ''web''"
    by (metis event_type.distinct(3) watch_event.select_convs(1))
  then show ?thesis by blast
qed

text \<open>A project that gets another service name keeps the old one as well.\<close>

lemma renamed_service_stays:
  assumes "get_project_name sp s = (APIV2, p)" "we_object e = Object 1 dat" "we_type e = Modified" "pi_serviceName dat \<noteq> s"
  shows "\<exists>sp'. project_event sp e = Returns sp' \<and> get_project_name sp' s = (APIV2, p)"
proof -
  have "APIV4 \<noteq> APIV2" by (simp add: APIV2_def APIV4_def)
  then have p: "map_str (spi_serviceMap sp) s = p" "p \<noteq> []"
    using assms(1) by (cases "map_str (spi_serviceMap sp) s = []"; simp add: get_project_name_def)+
  then have "map_str (fmupd (pi_serviceName dat) (pi_project dat) (spi_serviceMap sp)) s = p"
    using assms(4) by (simp add: map_str_def)
  then show ?thesis
    using p assms(2,3) by (cases "pi_apiVersion dat = APIV2") (simp_all add: project_event_def get_project_name_def)
qed

lemma new_path_info_stop:
  "new_simple_path_info conn kv cd e order watch = Inr sp \<Longrightarrow> spi_stop sp = None"
proof -
  have "spi_stopC (load_projects sp vs) = spi_stopC sp" for sp vs
    by (induction sp vs rule: load_projects.induct) auto
  then show "new_simple_path_info conn kv cd e order watch = Inr sp \<Longrightarrow> spi_stop sp = None"
    by (auto simp: new_simple_path_info_def spi_stop_def Let_def split: option.splits prod.splits)
qed

end
