(* ===== verification/Zk_Sync.thy ===== *)
theory Zk_Sync
  imports Zk_Paths
begin

text \<open>
  Keeping the java services of ZooKeeper in memory and in etcd (\<open>controllers/java/zk/sync_zk.go\<close>, \<open>zk.go\<close>).

  The connection to ZooKeeper is a record of its answers; a nil byte slice is the empty one.  The manager works on
  an interface for paths, \<open>PathInfor\<close>, and on the object store.
\<close>

subsection \<open>The client of ZooKeeper\<close>

text \<open>The children of a node, with the number of them in its status; the data; whether it can be set.\<close>

record zk_client =
  zc_children :: "bytes \<Rightarrow> bytes + bytes list \<times> nat"
  zc_get :: "bytes \<Rightarrow> bytes + bytes"
  zc_exists :: "bytes \<Rightarrow> bytes option"
  zc_set :: "bytes \<Rightarrow> bytes \<Rightarrow> bytes option"

definition child_path :: "bytes \<Rightarrow> bytes \<Rightarrow> bytes" where
  "child_path prefix key = (if has_suffix prefix ''/'' then prefix @ key else prefix @ ''/'' @ key)"

text \<open>
  \<open>nodeWalk\<close>: the values that were found, and the error.  What happens below a child is not looked at.  The tree is
  as deep as the fuel at most, or the result is \<open>None\<close>.
\<close>

fun node_walk ::
  "zk_client \<Rightarrow> (bytes \<Rightarrow> bool) option \<Rightarrow> bool \<Rightarrow> nat \<Rightarrow> bytes \<Rightarrow> (bytes, bytes) fmap
     \<Rightarrow> ((bytes, bytes) fmap \<times> bytes option) option"
and walk_children ::
  "zk_client \<Rightarrow> (bytes \<Rightarrow> bool) option \<Rightarrow> bool \<Rightarrow> nat \<Rightarrow> bytes \<Rightarrow> bytes list \<Rightarrow> (bytes, bytes) fmap
     \<Rightarrow> (bytes, bytes) fmap option" where
  "node_walk c pathMatcher keysOnly 0 prefix vars = None"
| "node_walk c pathMatcher keysOnly (Suc fuel) prefix vars =
     (case zc_children c prefix of
        Inl err \<Rightarrow> Some (vars, Some err)
      | Inr (l, numChildren) \<Rightarrow>
          if numChildren = 0 \<and> (case pathMatcher of None \<Rightarrow> False | Some m \<Rightarrow> \<not> m prefix) then Some (vars, None)
          else (case (if keysOnly then Inr [] else zc_get c prefix) of
                  Inl err \<Rightarrow> Some (vars, Some err)
                | Inr d \<Rightarrow>
                    if numChildren > 0 then
                      map_option (\<lambda>vars. (vars, None))
                        (walk_children c pathMatcher keysOnly fuel prefix l (fmupd prefix d vars))
                    else Some (fmupd prefix d vars, None)))"
| "walk_children c pathMatcher keysOnly fuel prefix [] vars = Some vars"
| "walk_children c pathMatcher keysOnly fuel prefix (key # l) vars =
     (case node_walk c pathMatcher keysOnly fuel (child_path prefix key) vars of
        None \<Rightarrow> None
      | Some (vars, _) \<Rightarrow> walk_children c pathMatcher keysOnly fuel prefix l vars)"

text \<open>\<open>GetValues\<close> of several keys, and setting and reading the value of a node.\<close>

fun get_values ::
  "zk_client \<Rightarrow> (bytes \<Rightarrow> bool) option \<Rightarrow> bool \<Rightarrow> nat \<Rightarrow> bytes list \<Rightarrow> (bytes, bytes) fmap
     \<Rightarrow> ((bytes, bytes) fmap \<times> bytes option) option" where
  "get_values c re keysOnly fuel [] vars = Some (vars, None)"
| "get_values c re keysOnly fuel (key # keys) vars =
     (case node_walk c re keysOnly fuel key vars of
        None \<Rightarrow> None
      | Some (vars, Some err) \<Rightarrow> Some (vars, Some err)
      | Some (vars, None) \<Rightarrow> get_values c re keysOnly fuel keys vars)"

definition set_node_value :: "zk_client \<Rightarrow> bytes \<Rightarrow> bytes \<Rightarrow> bytes option" where
  "set_node_value c key value =
     (let key = replace_all [(''/*'', [])] key in
      case zc_exists c key of Some err \<Rightarrow> Some err | None \<Rightarrow> zc_set c key value)"

definition get_node_value :: "zk_client \<Rightarrow> bytes \<Rightarrow> bytes + bytes" where
  "get_node_value c key = (case zc_exists c key of Some err \<Rightarrow> Inl err | None \<Rightarrow> zc_get c key)"

fun get_nodes_values :: "zk_client \<Rightarrow> bytes list \<Rightarrow> (bytes, bytes) fmap \<Rightarrow> (bytes, bytes) fmap \<times> bytes option" where
  "get_nodes_values c [] vars = (vars, None)"
| "get_nodes_values c (v # vs) vars =
     (let nv = replace_all [(''/*'', [])] v in
      case zc_exists c nv of
        Some err \<Rightarrow> (vars, Some err)
      | None \<Rightarrow>
          (case zc_get c nv of
             Inl err \<Rightarrow> (vars, Some err)
           | Inr b \<Rightarrow> get_nodes_values c vs (fmupd v b vars)))"

subsection \<open>The manager\<close>

text \<open>The interface \<open>PathInfor\<close>.\<close>

record path_infor =
  pin_route_path :: "bytes \<Rightarrow> zk_error + bytes"
  pin_instance_path :: "bytes \<Rightarrow> zk_error + bytes"
  pin_deploy_name :: "bytes \<Rightarrow> zk_error + bytes"
  pin_api_version :: "bytes \<Rightarrow> bytes"
  pin_etcd_path :: "stage \<Rightarrow> bytes \<Rightarrow> zk_error + bytes \<times> bytes"

definition simple_paths :: "simple_path_info \<Rightarrow> path_infor" where
  "simple_paths sp = \<lparr>pin_route_path = get_route_path sp, pin_instance_path = get_instance_path sp,
     pin_deploy_name = get_deploy_name sp, pin_api_version = get_api_version sp, pin_etcd_path = spi_get_etcd_path sp\<rparr>"

text \<open>A route configuration is kept by pointer, which may be nil.\<close>

record zk_manager =
  zm_stage :: stage
  zm_zkIns :: "(bytes, service_node list) fmap"
  zm_routeCfg :: "(bytes, route_cfg option) fmap"

datatype sync_error =
  PathError zk_error | UnrecognizedPath bytes | NodeJson bytes | RouteErrors "route_error list" | ZkError bytes
| SyncStore store_error | NoRoutePath bytes

definition node_list :: "zk_manager \<Rightarrow> bytes \<Rightarrow> service_node list" where
  "node_list m name = (case fmlookup (zm_zkIns m) name of None \<Rightarrow> [] | Some ss \<Rightarrow> ss)"

text \<open>\<open>parseZKData\<close>; decoding the JSON text and parsing a time are parameters.\<close>

record node_codec =
  nc_dec :: "bytes \<Rightarrow> bytes + node_json"
  nc_time :: "bytes \<Rightarrow> bytes + int"

definition parse_zk_data ::
  "path_infor \<Rightarrow> node_codec \<Rightarrow> bytes \<Rightarrow> bytes \<Rightarrow> bytes \<Rightarrow> zk_manager \<Rightarrow> zk_manager \<times> sync_error option" where
  "parse_zk_data pin nc ty path dat m =
     (case pin_deploy_name pin path of
        Inl err \<Rightarrow> (m, Some (PathError err))
      | Inr name \<Rightarrow>
          if name = [] then (m, Some (UnrecognizedPath path))
          else if ty = zkInstance then
            (case unmarshal_node (nc_dec nc) (nc_time nc) dat zero_node of
               Inl err \<Rightarrow> (m, Some (NodeJson err))
             | Inr s \<Rightarrow>
                 (let s = s\<lparr>sn_nodeName := path_base path,
                            sn_apiVersion := (if has_prefix path ''/biz/'' then APIV4 else APIV2)\<rparr>
                  in (m\<lparr>zm_zkIns := fmupd name (node_list m name @ [s]) (zm_zkIns m)\<rparr>, None)))
          else if ty = zkRoute then
            (let ver = pin_api_version pin name in
             case parse_route dat ver of
               (rc, []) \<Rightarrow> (m\<lparr>zm_routeCfg := fmupd name (Some rc) (zm_routeCfg m)\<rparr>, None)
             | (rc, errs) \<Rightarrow> (m, Some (RouteErrors errs)))
          else (m, None))"

definition get_route_config :: "zk_manager \<Rightarrow> bytes \<Rightarrow> route_cfg option" where
  "get_route_config m name = (case fmlookup (zm_routeCfg m) name of None \<Rightarrow> None | Some rc \<Rightarrow> rc)"

definition set_route_config ::
  "path_infor \<Rightarrow> zk_client \<Rightarrow> bytes \<Rightarrow> route_cfg option \<Rightarrow> zk_manager \<Rightarrow> zk_manager \<times> sync_error option" where
  "set_route_config pin c name cfg m =
     (case pin_route_path pin name of
        Inl err \<Rightarrow> (m, Some (PathError err))
      | Inr path \<Rightarrow>
          if path = [] then (m, Some (NoRoutePath name))
          else
            (let val = (case cfg of None \<Rightarrow> [] | Some rc \<Rightarrow> route_string rc) in
             case set_node_value c path val of
               Some err \<Rightarrow> (m, Some (ZkError err))
             | None \<Rightarrow> (m\<lparr>zm_routeCfg := fmupd name cfg (zm_routeCfg m)\<rparr>, None)))"

text \<open>
  \<open>GetInstanceList\<close> appends the address of the variable of the loop, which is one and the same for all nodes: when
  the loop is over they all are the last node.
\<close>

definition get_instance_list :: "zk_manager \<Rightarrow> bytes \<Rightarrow> service_node list" where
  "get_instance_list m name =
     (case fmlookup (zm_zkIns m) name of
        None \<Rightarrow> []
      | Some ins \<Rightarrow> if ins = [] then [] else replicate (length ins) (last ins))"

definition list_deployment :: "zk_manager \<Rightarrow> bytes fset" where
  "list_deployment m = fmdom (zm_zkIns m)"

subsection \<open>Reloading\<close>

definition raw_codec :: "bytes codec" where
  "raw_codec = \<lparr>cd_encode = Some, cd_decode = Some, cd_zero = []\<rparr>"

text \<open>What \<open>ReloadData\<close> does with the values of a path: the errors are only logged.\<close>

fun reload_values ::
  "path_infor \<Rightarrow> node_codec \<Rightarrow> 'e kv_client \<Rightarrow> (bytes, bytes) fmap \<Rightarrow> bytes list \<Rightarrow> zk_manager \<times> 'e \<Rightarrow> zk_manager \<times> 'e" where
  "reload_values pin nc kv dat [] s = s"
| "reload_values pin nc kv dat (k # ks) (m, e) =
     (case pin_etcd_path pin (zm_stage m) k of
        Inl err \<Rightarrow> reload_values pin nc kv dat ks (m, e)
      | Inr (ty, etcdPath) \<Rightarrow>
          (let d = the (fmlookup dat k);
               (m1, _) = parse_zk_data pin nc ty k d m;
               (e1, _) = store_update kv raw_codec [] e etcdPath d False 0
           in reload_values pin nc kv dat ks (m1, e1)))"

text \<open>The configured paths with their expressions; the outer option is the fuel of the walk.\<close>

fun reload_paths ::
  "path_infor \<Rightarrow> node_codec \<Rightarrow> zk_client \<Rightarrow> 'e kv_client \<Rightarrow> nat \<Rightarrow> ((bytes, bytes) fmap \<Rightarrow> bytes list)
     \<Rightarrow> (bytes \<times> (bytes \<Rightarrow> bool) option) list \<Rightarrow> zk_manager \<times> 'e \<Rightarrow> ((zk_manager \<times> 'e) \<times> sync_error option) option" where
  "reload_paths pin nc c kv fuel order [] s = Some (s, None)"
| "reload_paths pin nc c kv fuel order ((base, re) # ps) s =
     (case get_values c re False fuel [base] fmempty of
        None \<Rightarrow> None
      | Some (dat, Some err) \<Rightarrow> Some (s, Some (ZkError err))
      | Some (dat, None) \<Rightarrow> reload_paths pin nc c kv fuel order ps (reload_values pin nc kv dat (order dat) s))"

text \<open>\<open>conn\<close> is the error of \<open>generic.GetStoreInstance\<close>, if it gives one.\<close>

definition reload_data ::
  "path_infor \<Rightarrow> node_codec \<Rightarrow> zk_client \<Rightarrow> store_error option \<Rightarrow> 'e kv_client \<Rightarrow> nat \<Rightarrow> ((bytes, bytes) fmap \<Rightarrow> bytes list)
     \<Rightarrow> (bytes \<times> (bytes \<Rightarrow> bool) option) list \<Rightarrow> zk_manager \<times> 'e \<Rightarrow> ((zk_manager \<times> 'e) \<times> sync_error option) option" where
  "reload_data pin nc c conn kv fuel order ps s =
     (case conn of Some err \<Rightarrow> Some (s, Some (SyncStore err)) | None \<Rightarrow> reload_paths pin nc c kv fuel order ps s)"

subsection \<open>Events\<close>

datatype zk_event_type = NodeChildrenChanged | NodeDataChanged | NodeDeleted | OtherZkEvent

record zk_event =
  ze_type :: zk_event_type
  ze_path :: bytes

text \<open>Deleting the keys that are no children any more; errors are only logged.\<close>

definition delete_stale :: "'e kv_client \<Rightarrow> bytes \<Rightarrow> bytes list \<Rightarrow> bytes list \<Rightarrow> 'e \<Rightarrow> 'e" where
  "delete_stale kv path l keys e =
     foldl (\<lambda>e k. if k \<in> set l then e
       else fst (store_delete kv raw_codec [] e (path @ ''/'' @ k) False :: 'e \<times> (store_error + bytes option))) e keys"

text \<open>
  The nodes that stay are appended to the local slice \<open>new\<close>, which begins as the slice in the map and shares its
  array; the slice in the map keeps its own length.  So an append at index \<open>n\<close> overwrites the element of the map's
  slice at \<open>n\<close>, if it has one by then, and is not seen otherwise.  \<open>set_nodes\<close> is the slice in the map.
\<close>

definition set_nodes :: "bytes \<Rightarrow> service_node list \<Rightarrow> zk_manager \<Rightarrow> zk_manager" where
  "set_nodes name ss m = m\<lparr>zm_zkIns := fmupd name ss (zm_zkIns m)\<rparr>"

fun append_local :: "bytes \<Rightarrow> service_node list \<Rightarrow> nat \<Rightarrow> zk_manager \<Rightarrow> nat \<times> zk_manager" where
  "append_local name [] n m = (n, m)"
| "append_local name (v # vs) n m = append_local name vs (Suc n) (set_nodes name ((node_list m name)[n := v]) m)"

fun children_loop ::
  "path_infor \<Rightarrow> node_codec \<Rightarrow> zk_client \<Rightarrow> 'e kv_client \<Rightarrow> bytes \<Rightarrow> bytes \<Rightarrow> service_node list \<Rightarrow> bytes fset
     \<Rightarrow> bytes list \<Rightarrow> nat \<Rightarrow> zk_manager \<times> 'e \<Rightarrow> zk_manager \<times> 'e" where
  "children_loop pin nc c kv path name ss keys [] n s = s"
| "children_loop pin nc c kv path name ss keys (k # l) n (m, e) =
     (let same = filter (\<lambda>v. sn_nodeName v = path_base k) ss;
          (n, m) = append_local name same n m
      in if k |\<in>| keys then children_loop pin nc c kv path name ss keys l n (m, e)
         else
           (let s = path @ ''/'' @ k in
            case zc_get c s of
              Inl err \<Rightarrow> children_loop pin nc c kv path name ss keys l n (m, e)
            | Inr data \<Rightarrow>
                (let m = (if same = [] then fst (parse_zk_data pin nc zkInstance s data m) else m) in
                 case pin_etcd_path pin (zm_stage m) s of
                   Inl err \<Rightarrow> children_loop pin nc c kv path name ss keys l n (m, e)
                 | Inr (_, etcdPath) \<Rightarrow>
                     children_loop pin nc c kv path name ss keys l n
                       (m, fst (store_update kv raw_codec [] e etcdPath data False 0)))))"

definition children_changed ::
  "path_infor \<Rightarrow> node_codec \<Rightarrow> zk_client \<Rightarrow> store_error option \<Rightarrow> 'e kv_client \<Rightarrow> (bytes fset \<Rightarrow> bytes list) \<Rightarrow> bytes
     \<Rightarrow> zk_manager \<times> 'e \<Rightarrow> ((zk_manager \<times> 'e) \<times> sync_error option) go" where
  "children_changed pin nc c conn kv order path s =
     (case zc_children c path of
        Inl err \<Rightarrow> Some (s, Some (ZkError err))
      | Inr (l, _) \<Rightarrow>
          (case conn of
             Some err \<Rightarrow> Some (s, Some (SyncStore err))
           | None \<Rightarrow>
               (case s of (m, e) \<Rightarrow>
                  (case list_keys kv [] e path of
                     None \<Rightarrow> None
                   | Some (Inl err) \<Rightarrow> Some (s, Some (SyncStore err))
                   | Some (Inr keys) \<Rightarrow>
                       (let e = delete_stale kv path l (order keys) e in
                        case pin_deploy_name pin path of
                          Inl err \<Rightarrow> Some ((m, e), Some (PathError err))
                        | Inr name \<Rightarrow>
                            Some (children_loop pin nc c kv path name (node_list m name) keys l 0 (set_nodes name [] m, e), None))))))"

text \<open>
  Removing a node: the loop goes over the slice it began with, and sees in it what it wrote itself.
\<close>

fun remove_node_loop :: "bytes \<Rightarrow> nat \<Rightarrow> nat \<Rightarrow> service_node list \<Rightarrow> service_node list option \<Rightarrow> service_node list option" where
  "remove_node_loop nodeName 0 idx ss res = res"
| "remove_node_loop nodeName (Suc r) idx ss res =
     (if sn_nodeName (ss ! idx) = nodeName
      then (let ss = ss[idx := last ss] in remove_node_loop nodeName r (Suc idx) ss (Some (butlast ss)))
      else remove_node_loop nodeName r (Suc idx) ss res)"

definition remove_node :: "bytes \<Rightarrow> bytes \<Rightarrow> zk_manager \<Rightarrow> zk_manager" where
  "remove_node name nodeName m =
     (let ss = node_list m name in
      case remove_node_loop nodeName (length ss) 0 ss None of
        None \<Rightarrow> m
      | Some ss' \<Rightarrow> set_nodes name ss' m)"

definition handle_zk_event ::
  "path_infor \<Rightarrow> node_codec \<Rightarrow> zk_client \<Rightarrow> store_error option \<Rightarrow> 'e kv_client \<Rightarrow> (bytes fset \<Rightarrow> bytes list) \<Rightarrow> zk_event
     \<Rightarrow> zk_manager \<times> 'e \<Rightarrow> ((zk_manager \<times> 'e) \<times> sync_error option) go" where
  "handle_zk_event pin nc c conn kv order ev s =
     (case s of (m, e) \<Rightarrow>
        (let path = ze_path ev in
         case ze_type ev of
           NodeChildrenChanged \<Rightarrow> children_changed pin nc c conn kv order path s
         | NodeDataChanged \<Rightarrow>
             (case zc_get c path of
                Inl err \<Rightarrow> Some (s, None)
              | Inr data \<Rightarrow>
                  (case pin_etcd_path pin (zm_stage m) path of
                     Inl err \<Rightarrow> Some (s, None)
                   | Inr (ty, etcdPath) \<Rightarrow>
                       (let m = (if ty = zkRoute then fst (parse_zk_data pin nc ty path data m) else m) in
                        case conn of
                          Some err \<Rightarrow> Some ((m, e), Some (SyncStore err))
                        | None \<Rightarrow> Some ((m, fst (store_update kv raw_codec [] e etcdPath data False 0)), None))))
         | NodeDeleted \<Rightarrow>
             (case pin_etcd_path pin (zm_stage m) path of
                Inl err \<Rightarrow> Some (s, None)
              | Inr (ty, etcdPath) \<Rightarrow>
                  (case pin_deploy_name pin path of
                     Inl err \<Rightarrow> Some (s, None)
                   | Inr name \<Rightarrow>
                       (let m = (if ty = zkRoute then m\<lparr>zm_routeCfg := fmdrop name (zm_routeCfg m)\<rparr>
                                 else if ty = zkInstance then remove_node name (path_base path) m else m) in
                        case conn of
                          Some err \<Rightarrow> Some ((m, e), Some (SyncStore err))
                        | None \<Rightarrow> Some ((m, fst (store_delete kv raw_codec [] e etcdPath False)), None))))
         | OtherZkEvent \<Rightarrow> Some (s, None)))"

end
