(* ===== verification/Zk_Sync_Props.thy ===== *)
theory Zk_Sync_Props
  imports Zk_Sync "HOL-Library.Multiset"
begin

text \<open>
  What the manager of the java services keeps in memory, and how it follows the events of ZooKeeper.

  The interface of paths is a locale: from the path of a route or an instance the name of the deployment is found
  again.  It is interpreted on the paths of version 4.0.
\<close>

subsection \<open>The interface of paths\<close>

locale service_paths =
  fixes pin :: path_infor and good :: "bytes \<Rightarrow> bool"
  assumes name_not_empty: "good name \<Longrightarrow> name \<noteq> []"
    and version: "good name \<Longrightarrow> pin_api_version pin name = APIV4"
    and route: "good name \<Longrightarrow> \<exists>p q. pin_route_path pin name = Inr p \<and> p \<noteq> [] \<and> CHR ''*'' \<notin> set p
      \<and> pin_deploy_name pin p = Inr name \<and> pin_etcd_path pin st p = Inr (zkRoute, q)"
    and instance_node: "good name \<Longrightarrow> plain_elem node \<Longrightarrow> \<exists>p q. pin_instance_path pin name = Inr p \<and> has_prefix (p @ node) ''/biz/''
      \<and> path_base (p @ node) = node \<and> pin_deploy_name pin (p @ node) = Inr name
      \<and> pin_etcd_path pin st (p @ node) = Inr (zkInstance, q)"

lemma replace_star: "CHR ''*'' \<notin> set s \<Longrightarrow> replace_all [(''/*'', [])] s = s"
proof (induction s)
  case (Cons x s)
  then show ?case by (cases s) (auto simp: has_prefix_def)
qed simp

lemma kinds_distinct [simp]: "zkRoute \<noteq> zkInstance" "zkInstance \<noteq> zkRoute" "zkInstance \<noteq> []" "zkRoute \<noteq> []"
  by (simp_all add: zkRoute_def zkInstance_def)

text \<open>What is set through one connection is read through the other.\<close>

definition writes_seen :: "zk_client \<Rightarrow> zk_client \<Rightarrow> bool" where
  "writes_seen c c' \<longleftrightarrow> (\<forall>k v. zc_set c k v = None \<longrightarrow> zc_get c' k = Inr v)"

context service_paths
begin

lemma set_route:
  assumes "good name" "set_route_config pin c name (Some rc) m = (m', None)"
  shows "\<exists>p. pin_route_path pin name = Inr p \<and> zc_set c p (route_string rc) = None \<and> get_route_config m' name = Some rc"
proof -
  obtain p where p: "pin_route_path pin name = Inr p" "p \<noteq> []" "CHR ''*'' \<notin> set p"
    using route [OF assms(1)] by blast
  then show ?thesis
    using assms(2) replace_star [OF p(3)]
    by (auto simp: set_route_config_def set_node_value_def get_route_config_def Let_def split: option.splits)
qed

lemma route_event:
  assumes "good name" "pin_route_path pin name = Inr p" "zc_get c p = Inr txt" "parse_route txt APIV4 = (rc, [])"
  shows "\<exists>m' e'. handle_zk_event pin nc c conn kv order \<lparr>ze_type = NodeDataChanged, ze_path = p\<rparr> (m, e) = Some ((m', e'), map_option SyncStore conn)
    \<and> get_route_config m' name = Some rc \<and> zm_zkIns m' = zm_zkIns m
    \<and> (\<forall>other. other \<noteq> name \<longrightarrow> get_route_config m' other = get_route_config m other)"
proof -
  obtain q where q: "pin_deploy_name pin p = Inr name" "pin_etcd_path pin (zm_stage m) p = Inr (zkRoute, q)"
    using route [OF assms(1), of "zm_stage m"] assms(2) by auto
  have "parse_zk_data pin nc zkRoute p txt m = (m\<lparr>zm_routeCfg := fmupd name (Some rc) (zm_routeCfg m)\<rparr>, None)"
    using q(1) name_not_empty [OF assms(1)] version [OF assms(1)] assms(4) by (simp add: parse_zk_data_def)
  then show ?thesis
    using q(2) assms(3) by (cases conn) (simp_all add: handle_zk_event_def get_route_config_def Let_def)
qed

lemma instance_read:
  assumes "good name" "plain_elem node" "pin_instance_path pin name = Inr p"
    "unmarshal_node (nc_dec nc) (nc_time nc) dat zero_node = Inr s"
  shows "parse_zk_data pin nc zkInstance (p @ node) dat m =
    (set_nodes name (node_list m name @ [s\<lparr>sn_nodeName := node, sn_apiVersion := APIV4\<rparr>]) m, None)"
proof -
  obtain q where "has_prefix (p @ node) ''/biz/''" "path_base (p @ node) = node" "pin_deploy_name pin (p @ node) = Inr name"
    using instance_node [OF assms(1,2), of "zm_stage m"] assms(3) by auto
  then show ?thesis using name_not_empty [OF assms(1)] assms(4) by (simp add: parse_zk_data_def set_nodes_def Let_def)
qed

lemma instance_deleted:
  assumes "good name" "plain_elem node" "pin_instance_path pin name = Inr p"
  shows "\<exists>e'. handle_zk_event pin nc c conn kv order \<lparr>ze_type = NodeDeleted, ze_path = p @ node\<rparr> (m, e)
    = Some ((remove_node name node m, e'), map_option SyncStore conn)"
proof -
  obtain q where "path_base (p @ node) = node" "pin_deploy_name pin (p @ node) = Inr name"
    "pin_etcd_path pin (zm_stage m) (p @ node) = Inr (zkInstance, q)"
    using instance_node [OF assms(1,2), of "zm_stage m"] assms(3) by auto
  then show ?thesis by (cases conn) (simp_all add: handle_zk_event_def)
qed

end

subsection \<open>The paths of version 4.0\<close>

definition v4_name :: "simple_path_info \<Rightarrow> bytes \<Rightarrow> bool" where
  "v4_name sp name \<longleftrightarrow> (case split_byte CHR '':'' name of
     [biz, app] \<Rightarrow> plain_elem biz \<and> plain_elem app \<and> CHR ''*'' \<notin> set name \<and> map_str (spi_projectMap sp) biz = []
   | _ \<Rightarrow> False)"

lemma v4_nameE:
  assumes "v4_name sp name"
  obtains biz app where "name = biz @ '':'' @ app" "plain_elem biz" "plain_elem app" "CHR ''*'' \<notin> set biz" "CHR ''*'' \<notin> set app"
    "get_service_name sp name = Inr (APIV4, biz @ ''/'' @ app)"
proof -
  have "length (split_byte CHR '':'' name) = 2" using assms by (auto simp: v4_name_def split: list.splits)
  then obtain biz app where "name = biz @ CHR '':'' # app" "split_byte CHR '':'' name = [biz, app]" by (rule split_colon)
  then show ?thesis using assms that by (auto simp: v4_name_def get_service_name_def)
qed

lemma apiv_distinct [simp]: "APIV4 \<noteq> APIV2" "APIV2 \<noteq> APIV4"
  by (simp_all add: APIV2_def APIV4_def)

lemma v4_node_paths:
  assumes "plain_elem biz" "plain_elem app" "\<forall>r \<in> set rest. plain_elem r"
    and "(kind, ty, dir) \<in> {(''policy'', zkRoute, ''route''), (''instance'', zkInstance, ''instances'')}"
    and "z = ''/biz/'' @ join ''/'' ([biz, app, kind] @ rest)"
  shows "get_deploy_name sp z = Inr (biz @ '':'' @ app)" "\<exists>q. spi_get_etcd_path sp st z = Inr (ty, q)"
proof -
  have k: "plain_elem kind" using assms(4) by (auto simp: plain_elem_def)
  have "z = join ''/'' ([[], ''biz'', biz, app, kind] @ rest)" by (simp add: assms(5) join_Cons)
  then have "split_byte CHR ''/'' z = [[], ''biz'', biz, app, kind] @ rest"
    using assms(1-3) k by (simp only:, intro split_join_pieces) (auto simp: plain_piece)
  then show "get_deploy_name sp z = Inr (biz @ '':'' @ app)" by (simp add: get_deploy_name_def)
  have "has_prefix z ''/biz/''" unfolding assms(5) by (rule has_prefix_append)
  moreover have "parse_zk_path_v4 z = Inr (ty, join ''/'' ([''java'', ''zk'', dir, ''4'', biz @ ''.'' @ app] @ rest))"
    unfolding assms(5) by (rule parse_v4 [OF assms(1-3)]) (use assms(4) in auto)
  ultimately show "\<exists>q. spi_get_etcd_path sp st z = Inr (ty, q)"
    by (auto simp: spi_get_etcd_path_def has_prefix_iff)
qed

lemma path_base_last: "plain_elem node \<Longrightarrow> path_base (p @ ''/'' @ node) = node"
proof -
  assume n: "plain_elem node"
  then have "node \<noteq> []" "last node \<noteq> CHR ''/''" by (auto simp: plain_elem_def dest: last_in_set)
  then obtain b x where "node = b @ [x]" "x \<noteq> CHR ''/''" by (metis append_butlast_last_id)
  then have "trim_right (p @ CHR ''/'' # node) ''/'' = p @ CHR ''/'' # node" by (simp add: trim_right_def)
  then show ?thesis using n by (simp add: path_base_def plain_elem_def)
qed

lemma plain_v4_consts: "plain_elem ''default''" "plain_elem ''instance''" "plain_elem ''policy''"
  by (simp_all add: plain_elem_def)

interpretation v4: service_paths "simple_paths sp" "v4_name sp" for sp
proof
  fix name st assume "v4_name sp name"
  then obtain biz app where n: "name = biz @ '':'' @ app" "plain_elem biz" "plain_elem app" "CHR ''*'' \<notin> set biz" "CHR ''*'' \<notin> set app"
    "get_service_name sp name = Inr (APIV4, biz @ ''/'' @ app)"
    by (rule v4_nameE)
  show "name \<noteq> []" using n(1) by simp
  show "pin_api_version (simple_paths sp) name = APIV4" using n(6) by (simp add: simple_paths_def get_api_version_def)
  let ?r = "''/biz/'' @ join ''/'' ([biz, app, ''policy''] @ [''default'', ''route''])"
  have "get_deploy_name sp ?r = Inr name" "\<exists>q. spi_get_etcd_path sp st ?r = Inr (zkRoute, q)"
    unfolding n(1) using v4_node_paths [OF n(2,3), of "[''default'', ''route'']" "''policy''" zkRoute "''route''" ?r] plain_v4_consts
    by auto
  moreover have "get_route_path sp name = Inr ?r" using n(6) by (simp add: get_route_path_def)
  moreover have "CHR ''*'' \<notin> set ?r" using n(4,5) by simp
  ultimately show "\<exists>p q. pin_route_path (simple_paths sp) name = Inr p \<and> p \<noteq> [] \<and> CHR ''*'' \<notin> set p
      \<and> pin_deploy_name (simple_paths sp) p = Inr name \<and> pin_etcd_path (simple_paths sp) st p = Inr (zkRoute, q)"
    by (auto simp: simple_paths_def)
next
  fix name node st assume g: "v4_name sp name" and node: "plain_elem node"
  obtain biz app where n: "name = biz @ '':'' @ app" "plain_elem biz" "plain_elem app" "CHR ''*'' \<notin> set biz" "CHR ''*'' \<notin> set app"
    "get_service_name sp name = Inr (APIV4, biz @ ''/'' @ app)"
    using g by (rule v4_nameE)
  let ?p = "''/biz/'' @ biz @ ''/'' @ app @ ''/instance/''" and ?z = "''/biz/'' @ join ''/'' ([biz, app, ''instance''] @ [node])"
  have z: "?z = ?p @ node" by simp
  have "get_deploy_name sp ?z = Inr name" "\<exists>q. spi_get_etcd_path sp st ?z = Inr (zkInstance, q)"
    unfolding n(1) using v4_node_paths [OF n(2,3), of "[node]" "''instance''" zkInstance "''instances''" ?z] node
    by auto
  then have "get_deploy_name sp (?p @ node) = Inr name" "\<exists>q. spi_get_etcd_path sp st (?p @ node) = Inr (zkInstance, q)"
    unfolding z .
  moreover have "has_prefix (?p @ node) ''/biz/''" by (simp only: append_assoc has_prefix_append)
  moreover have "path_base (?p @ node) = node"
    using path_base_last [OF node, of "''/biz/'' @ biz @ ''/'' @ app @ ''/instance''"] by simp
  moreover have "get_instance_path sp name = Inr ?p" using n(6) by (simp add: get_instance_path_def)
  ultimately show "\<exists>p q. pin_instance_path (simple_paths sp) name = Inr p \<and> has_prefix (p @ node) ''/biz/''
      \<and> path_base (p @ node) = node \<and> pin_deploy_name (simple_paths sp) (p @ node) = Inr name
      \<and> pin_etcd_path (simple_paths sp) st (p @ node) = Inr (zkInstance, q)"
    by (auto simp: simple_paths_def)
qed

subsection \<open>Removing a node\<close>

lemma remove_loop_none:
  "\<forall>i. idx \<le> i \<and> i < idx + r \<longrightarrow> sn_nodeName (ss ! i) \<noteq> nodeName \<Longrightarrow> remove_node_loop nodeName r idx ss res = res"
  by (induction r arbitrary: idx) auto

lemma remove_loop_hit:
  assumes "distinct (map sn_nodeName ss)" "i < length ss" "sn_nodeName (ss ! i) = nodeName" "idx \<le> i" "idx + r = length ss"
  shows "remove_node_loop nodeName r idx ss res = Some (butlast (ss[i := last ss]))"
  using assms(4,5)
proof (induction r arbitrary: idx)
  case (Suc r)
  have uniq: "j = i" if "j < length ss" "sn_nodeName (ss ! j) = nodeName" for j
    using assms(1-3) that by (metis length_map nth_eq_iff_index_eq nth_map)
  show ?case
  proof (cases "idx = i")
    case True
    have ne: "ss \<noteq> []" using assms(2) by auto
    have "sn_nodeName (ss[i := last ss] ! j) \<noteq> nodeName" if "Suc idx \<le> j \<and> j < Suc idx + r" for j
      using uniq [of j] that True Suc.prems(2) by auto
    then have "remove_node_loop nodeName r (Suc idx) (ss[i := last ss]) (Some (butlast (ss[i := last ss])))
        = Some (butlast (ss[i := last ss]))"
      by (intro remove_loop_none) blast
    then show ?thesis using True assms(3) by (simp add: Let_def)
  next
    case False
    then have "sn_nodeName (ss ! idx) \<noteq> nodeName" using uniq [of idx] Suc.prems by auto
    then show ?thesis using Suc.IH [of "Suc idx"] Suc.prems False by simp
  qed
qed (use assms(2) in simp)

lemma mset_swap_out:
  assumes "i < length xs"
  shows "mset (butlast (xs[i := last xs])) = mset xs - {#xs ! i#}"
proof (cases "i = length xs - 1")
  case True
  have "xs \<noteq> []" using assms by auto
  then have "xs ! i = last xs" "xs[i := last xs] = xs" using True by (simp_all add: last_conv_nth)
  moreover have "mset xs = add_mset (last xs) (mset (butlast xs))" using \<open>xs \<noteq> []\<close>
    by (metis append_butlast_last_id mset.simps(2) mset_append union_mset_add_mset_right mset.simps(1) add.right_neutral)
  ultimately show ?thesis by simp
next
  case False
  have ne: "xs \<noteq> []" and lt: "i < length (butlast xs)" using assms False by auto
  have "xs = butlast xs @ [last xs]" using ne by simp
  then have m: "mset xs = add_mset (last xs) (mset (butlast xs))"
    by (metis mset.simps(2) mset_append union_mset_add_mset_right mset.simps(1) add.right_neutral)
  have "butlast (xs[i := last xs]) = (butlast xs)[i := last xs]" using lt by (simp add: butlast_list_update)
  moreover have "butlast xs ! i = xs ! i" using lt by (simp add: nth_butlast)
  moreover have "xs ! i \<in># mset (butlast xs)" using lt by (metis nth_butlast nth_mem set_mset_mset)
  ultimately show ?thesis using lt m by (simp add: mset_update)
qed

lemma remove_node_exact:
  assumes "distinct (map sn_nodeName (node_list m name))"
  shows "mset (node_list (remove_node name nodeName m) name) = filter_mset (\<lambda>s. sn_nodeName s \<noteq> nodeName) (mset (node_list m name))"
proof (cases "\<exists>i < length (node_list m name). sn_nodeName (node_list m name ! i) = nodeName")
  case False
  then have "remove_node_loop nodeName (length (node_list m name)) 0 (node_list m name) None = None"
    by (intro remove_loop_none) auto
  moreover have "filter (\<lambda>s. sn_nodeName s \<noteq> nodeName) (node_list m name) = node_list m name"
    using False by (auto simp: filter_id_conv in_set_conv_nth)
  ultimately show ?thesis by (simp add: remove_node_def flip: mset_filter)
next
  case True
  let ?ss = "node_list m name"
  obtain i where i: "i < length ?ss" "sn_nodeName (?ss ! i) = nodeName" using True by blast
  have "remove_node name nodeName m = set_nodes name (butlast (?ss[i := last ?ss])) m"
    using remove_loop_hit [OF assms i, of 0 "length ?ss" None] by (simp add: remove_node_def Let_def)
  then have "mset (node_list (remove_node name nodeName m) name) = mset ?ss - {#?ss ! i#}"
    using mset_swap_out [OF i(1)] by (simp add: set_nodes_def node_list_def)
  moreover have "filter (\<lambda>s. sn_nodeName s \<noteq> nodeName) ?ss = take i ?ss @ drop (Suc i) ?ss"
  proof -
    have d: "?ss = take i ?ss @ ?ss ! i # drop (Suc i) ?ss" using i(1) by (simp add: id_take_nth_drop)
    have "distinct (map sn_nodeName (take i ?ss @ ?ss ! i # drop (Suc i) ?ss))" using assms d by simp
    then have "\<forall>s \<in> set (take i ?ss) \<union> set (drop (Suc i) ?ss). sn_nodeName s \<noteq> nodeName"
      using i(2) by (auto simp del: distinct_map) (metis image_eqI)+
    then show ?thesis using i(2) by (subst d) (simp add: filter_id_conv)
  qed
  moreover have "mset ?ss - {#?ss ! i#} = mset (take i ?ss @ drop (Suc i) ?ss)"
    using i(1) by (subst (1) id_take_nth_drop [OF i(1)]) simp
  ultimately show ?thesis by (metis mset_filter)
qed

text \<open>Whatever names repeat, one hit or more shortens the list by one.\<close>

lemma remove_loop_length:
  assumes "(\<exists>i. idx \<le> i \<and> i < idx + r \<and> sn_nodeName (ss ! i) = nodeName) \<or> (\<exists>ss'. res = Some ss' \<and> length ss' = length ss - 1)"
  shows "\<exists>ss'. remove_node_loop nodeName r idx ss res = Some ss' \<and> length ss' = length ss - 1"
  using assms
proof (induction r arbitrary: idx ss res)
  case (Suc r)
  show ?case
  proof (cases "sn_nodeName (ss ! idx) = nodeName")
    case True
    then show ?thesis using Suc.IH [of "Suc idx" "ss[idx := last ss]" "Some (butlast (ss[idx := last ss]))"] by (simp add: Let_def)
  next
    case False
    have "(\<exists>i. Suc idx \<le> i \<and> i < Suc idx + r \<and> sn_nodeName (ss ! i) = nodeName) \<or> (\<exists>ss'. res = Some ss' \<and> length ss' = length ss - 1)"
      using Suc.prems False by (metis add_Suc add_Suc_right le_neq_implies_less Suc_le_eq)
    from Suc.IH [OF this] show ?thesis using False by simp
  qed
qed auto

lemma remove_node_length:
  "length (node_list (remove_node name nodeName m) name) =
    (if nodeName \<in> sn_nodeName ` set (node_list m name) then length (node_list m name) - 1 else length (node_list m name))"
proof (cases "nodeName \<in> sn_nodeName ` set (node_list m name)")
  case True
  then have "\<exists>i. 0 \<le> i \<and> i < 0 + length (node_list m name) \<and> sn_nodeName (node_list m name ! i) = nodeName"
    by (metis add_0 image_iff in_set_conv_nth le0)
  then obtain ss' where "remove_node_loop nodeName (length (node_list m name)) 0 (node_list m name) None = Some ss'"
    "length ss' = length (node_list m name) - 1"
    using remove_loop_length [of 0 "length (node_list m name)" "node_list m name" nodeName None] by blast
  then show ?thesis using True by (simp add: remove_node_def set_nodes_def node_list_def)
next
  case False
  then have "remove_node_loop nodeName (length (node_list m name)) 0 (node_list m name) None = None"
    by (intro remove_loop_none) auto
  then show ?thesis using False by (simp add: remove_node_def)
qed

lemma set_nodes_others: "name' \<noteq> name \<Longrightarrow> node_list (set_nodes name ss m) name' = node_list m name'"
  by (simp add: set_nodes_def node_list_def)

lemma remove_node_others:
  "name' \<noteq> name \<Longrightarrow> node_list (remove_node name nodeName m) name' = node_list m name'"
  by (simp add: remove_node_def set_nodes_def node_list_def split: option.splits)

subsection \<open>Children that stay\<close>

text \<open>Appending to the local slice changes no other list, and not the length of the one in the map.\<close>

lemma append_local_length:
  "append_local name vs n m = (n', m') \<Longrightarrow> length (node_list m' name') = length (node_list m name')
   \<and> (name' \<noteq> name \<longrightarrow> node_list m' name' = node_list m name') \<and> zm_stage m' = zm_stage m"
  by (induction name vs n m rule: append_local.induct) (auto simp: set_nodes_def node_list_def)

lemma children_loop_known:
  assumes "\<forall>k \<in> set l. k |\<in>| keys \<or> (\<exists>v \<in> set ss. sn_nodeName v = path_base k)"
  shows "\<exists>m' e'. children_loop pin nc c kv path name ss keys l n (m, e) = (m', e')
    \<and> length (node_list m' name) = length (node_list m name)
    \<and> (\<forall>name'. name' \<noteq> name \<longrightarrow> node_list m' name' = node_list m name')"
  using assms
proof (induction l arbitrary: n m e)
  case (Cons k l)
  let ?same = "filter (\<lambda>v. sn_nodeName v = path_base k) ss"
  obtain n1 m1 where a: "append_local name ?same n m = (n1, m1)" by fastforce
  have m1: "length (node_list m1 name) = length (node_list m name)"
    "\<forall>name'. name' \<noteq> name \<longrightarrow> node_list m1 name' = node_list m name'"
    using append_local_length [OF a] by blast+
  have IH: "\<exists>m' e'. children_loop pin nc c kv path name ss keys l n1 (m1, e1) = (m', e')
      \<and> length (node_list m' name) = length (node_list m name) \<and> (\<forall>name'. name' \<noteq> name \<longrightarrow> node_list m' name' = node_list m name')"
    for e1
    using Cons.IH [of n1 m1 e1] Cons.prems m1 by auto
  show ?case
  proof (cases "k |\<in>| keys")
    case False
    then have "?same \<noteq> []" using Cons.prems by (auto simp: filter_empty_conv)
    then have "\<exists>e1. children_loop pin nc c kv path name ss keys (k # l) n (m, e) = children_loop pin nc c kv path name ss keys l n1 (m1, e1)"
      using a False by (auto simp: Let_def split: sum.splits)
    then show ?thesis using IH by metis
  qed (use a IH in simp)
qed simp

subsection \<open>Walking over the nodes\<close>

text \<open>The nodes below a node, by the answers of the connection, and those whose values are wanted.\<close>

inductive below :: "zk_client \<Rightarrow> bytes \<Rightarrow> bytes \<Rightarrow> bool" for c :: zk_client where
  below_refl: "below c p p"
| below_child: "zc_children c p = Inr (l, n) \<Longrightarrow> k \<in> set l \<Longrightarrow> below c (child_path p k) q \<Longrightarrow> below c p q"

inductive_simps below_simps: "below c p q"

definition wanted :: "zk_client \<Rightarrow> (bytes \<Rightarrow> bool) option \<Rightarrow> bytes \<Rightarrow> bool" where
  "wanted c pm q \<longleftrightarrow> (case pm of None \<Rightarrow> True | Some m \<Rightarrow> m q \<or> (\<exists>l n. zc_children c q = Inr (l, Suc n)))"

text \<open>Answers of a connection that does not fail, with the depth of the tree below each node.\<close>

definition answers :: "zk_client \<Rightarrow> (bytes \<Rightarrow> bytes) \<Rightarrow> (bytes \<Rightarrow> nat) \<Rightarrow> bool" where
  "answers c val depth \<longleftrightarrow> (\<forall>p. zc_get c p = Inr (val p) \<and>
     (\<exists>l. zc_children c p = Inr (l, length l) \<and> (\<forall>k \<in> set l. depth (child_path p k) < depth p)))"

definition walked :: "zk_client \<Rightarrow> (bytes \<Rightarrow> bytes) \<Rightarrow> (bytes \<Rightarrow> bool) option \<Rightarrow> (bytes \<Rightarrow> bool) \<Rightarrow> (bytes, bytes) fmap
     \<Rightarrow> (bytes, bytes) fmap \<Rightarrow> bool" where
  "walked c val pm at vars vars' \<longleftrightarrow>
     (\<forall>q. fmlookup vars' q = (if at q \<and> wanted c pm q then Some (val q) else fmlookup vars q))"

lemma walk_children_walked:
  assumes "\<And>k vars. k \<in> set l \<Longrightarrow> \<exists>vars'. node_walk c pm False fuel (child_path p k) vars = Some (vars', None)
      \<and> walked c val pm (below c (child_path p k)) vars vars'"
  shows "\<exists>vars'. walk_children c pm False fuel p l vars = Some vars'
    \<and> walked c val pm (\<lambda>q. \<exists>k \<in> set l. below c (child_path p k) q) vars vars'"
  using assms
proof (induction l arbitrary: vars)
  case (Cons k l)
  obtain v1 where v1: "node_walk c pm False fuel (child_path p k) vars = Some (v1, None)"
    "walked c val pm (below c (child_path p k)) vars v1"
    using Cons.prems [of k vars] by auto
  obtain v2 where v2: "walk_children c pm False fuel p l v1 = Some v2"
    "walked c val pm (\<lambda>q. \<exists>k \<in> set l. below c (child_path p k) q) v1 v2"
    using Cons.IH [of v1, OF Cons.prems] by auto
  show ?case using v1 v2 by (auto simp: walked_def)
qed (simp add: walked_def)

lemma node_walk_walked:
  assumes "answers c val depth"
  shows "depth p < fuel \<Longrightarrow> \<exists>vars'. node_walk c pm False fuel p vars = Some (vars', None)
    \<and> walked c val pm (below c p) vars vars'"
proof (induction fuel arbitrary: p vars)
  case (Suc fuel)
  obtain l where l: "zc_children c p = Inr (l, length l)" "\<forall>k \<in> set l. depth (child_path p k) < depth p"
    and g: "zc_get c p = Inr (val p)"
    using assms unfolding answers_def by blast
  have bl: "below c p q \<longleftrightarrow> q = p \<or> (\<exists>k \<in> set l. below c (child_path p k) q)" for q
    unfolding below_simps [of c p q] l(1) by auto
  show ?case
  proof (cases "l = []")
    case True
    then have "wanted c pm p \<longleftrightarrow> (case pm of None \<Rightarrow> True | Some m \<Rightarrow> m p)"
      using l(1) by (auto simp: wanted_def split: option.splits)
    then show ?thesis using True l(1) g bl by (cases pm) (auto simp: walked_def)
  next
    case False
    have d: "depth (child_path p k) < fuel" if "k \<in> set l" for k using l(2) Suc.prems that by fastforce
    obtain v where v: "walk_children c pm False fuel p l (fmupd p (val p) vars) = Some v"
      "walked c val pm (\<lambda>q. \<exists>k \<in> set l. below c (child_path p k) q) (fmupd p (val p) vars) v"
      using walk_children_walked [of l c pm fuel p val "fmupd p (val p) vars"] Suc.IH d by blast
    have "wanted c pm p" using False l(1) by (cases l) (auto simp: wanted_def split: option.splits)
    then have "walked c val pm (below c p) vars v" using v(2) bl by (auto simp: walked_def)
    moreover have "node_walk c pm False (Suc fuel) p vars = Some (v, None)" using False l(1) g v(1) by simp
    ultimately show ?thesis by blast
  qed
qed simp

lemma get_values_walked:
  assumes "answers c val depth" "\<forall>k \<in> set keys. depth k < fuel"
  shows "\<exists>vars'. get_values c pm False fuel keys vars = Some (vars', None)
    \<and> walked c val pm (\<lambda>q. \<exists>k \<in> set keys. below c k q) vars vars'"
  using assms(2)
proof (induction keys arbitrary: vars)
  case (Cons k keys)
  obtain v1 where v1: "node_walk c pm False fuel k vars = Some (v1, None)" "walked c val pm (below c k) vars v1"
    using node_walk_walked [OF assms(1), of k fuel pm vars] Cons.prems by auto
  obtain v2 where v2: "get_values c pm False fuel keys v1 = Some (v2, None)"
    "walked c val pm (\<lambda>q. \<exists>k \<in> set keys. below c k q) v1 v2"
    using Cons.IH [of v1] Cons.prems by auto
  show ?case using v1 v2 by (auto simp: walked_def)
qed (simp add: walked_def)

subsection \<open>Properties\<close>

text \<open>
  C15: the route of version 4.0 that one manager has set for a deployment with a name of version 4.0 (business and
  application, with a colon between them) and with well formed items reaches every other one: when the event comes, the
  text is read from ZooKeeper, parsed for the version of the deployment, and becomes the route of this deployment and of
  no other; if the store cannot be reached then, the handler reports it and the route is taken over nonetheless.  The
  routes of version 2.0 are never read (\<open>v2_route_refused\<close>).
\<close>

theorem route_reaches_others:
  assumes "v4_name sp name" "writes_seen c c'" "set_route_config (simple_paths sp) c name (Some rc) m = (m', None)"
    "rt_apiVersion rc = APIV4" "\<forall>ri \<in> set (rt_items rc). item_ok APIV4 ri"
  shows "\<exists>p m2 e2. get_route_path sp name = Inr p
    \<and> handle_zk_event (simple_paths sp) nc c' conn kv order \<lparr>ze_type = NodeDataChanged, ze_path = p\<rparr> (m1, e)
        = Some ((m2, e2), map_option SyncStore conn)
    \<and> get_route_config m2 name = get_route_config m' name \<and> get_route_config m2 name = Some rc
    \<and> (\<forall>other. other \<noteq> name \<longrightarrow> get_route_config m2 other = get_route_config m1 other)"
proof -
  obtain p where p: "get_route_path sp name = Inr p" "zc_set c p (route_string rc) = None" "get_route_config m' name = Some rc"
    using v4.set_route [OF assms(1,3)] by (auto simp: simple_paths_def)
  have "zc_get c' p = Inr (route_string rc)" using assms(2) p(2) by (simp add: writes_seen_def)
  moreover have "parse_route (route_string rc) APIV4 = (rc, [])"
    using parse_written [of rc] assms(4,5) by simp
  ultimately show ?thesis
    using v4.route_event [OF assms(1), of p c' "route_string rc" rc nc conn kv order m1 e] p by (auto simp: simple_paths_def)
qed

definition zk_one_value :: "bytes \<Rightarrow> zk_client" where
  "zk_one_value txt = \<lparr>zc_children = (\<lambda>p. Inr ([], 0)), zc_get = (\<lambda>p. Inr txt), zc_exists = (\<lambda>p. None),
     zc_set = (\<lambda>p v. if v = txt then None else Some ''other value'')\<rparr>"

definition no_codec :: node_codec where
  "no_codec = \<lparr>nc_dec = (\<lambda>d. Inl ''no node''), nc_time = (\<lambda>t. Inl ''no time'')\<rparr>"

definition no_nodes :: zk_manager where
  "no_nodes = \<lparr>zm_stage = Dev, zm_zkIns = fmempty, zm_routeCfg = fmempty\<rparr>"

lemma sem_app_v4: "v4_name crm_paths ''sem:app''"
  by (simp add: v4_name_def crm_paths_def map_str_def plain_elem_def)

lemma sem_app_service: "get_service_name crm_paths ''sem:app'' = Inr (APIV4, ''sem/app'')"
  by (simp add: get_service_name_def crm_paths_def map_str_def)

lemma sample_cfg_ok: "\<forall>ri \<in> set (rt_items sample_cfg). item_ok APIV4 ri"
  by (simp add: sample_cfg_def item_ok_def match_ok4_def values_ok_def key_char4_def val_char4_def re_word_def)

theorem route_reaches_others_witness:
  "\<exists>m2 e2. handle_zk_event (simple_paths crm_paths) no_codec (zk_one_value (route_string sample_cfg)) None mem_kv (\<lambda>_. [])
      \<lparr>ze_type = NodeDataChanged, ze_path = ''/biz/sem/app/policy/default/route''\<rparr> (no_nodes, []) = Some ((m2, e2), None)
    \<and> get_route_config m2 ''sem:app'' = Some sample_cfg"
proof -
  let ?c = "zk_one_value (route_string sample_cfg)"
  have r: "get_route_path crm_paths ''sem:app'' = Inr ''/biz/sem/app/policy/default/route''"
    by (simp add: get_route_path_def sem_app_service)
  have "replace_all [(''/*'', [])] ''/biz/sem/app/policy/default/route'' = ''/biz/sem/app/policy/default/route''"
    by (rule replace_star) simp
  then have "\<exists>m'. set_route_config (simple_paths crm_paths) ?c ''sem:app'' (Some sample_cfg) no_nodes = (m', None)"
    using r by (simp add: set_route_config_def simple_paths_def set_node_value_def zk_one_value_def)
  then obtain m' where m': "set_route_config (simple_paths crm_paths) ?c ''sem:app'' (Some sample_cfg) no_nodes = (m', None)" ..
  have w: "writes_seen ?c ?c" by (simp add: writes_seen_def zk_one_value_def)
  have v: "rt_apiVersion sample_cfg = APIV4" by (simp add: sample_cfg_def)
  show ?thesis
    using route_reaches_others [OF sem_app_v4 w m' v sample_cfg_ok, of no_codec None mem_kv "\<lambda>_. []" no_nodes "[]"] r by auto
qed

text \<open>
  C24: when the node of an instance of a deployment with a name of version 4.0 is deleted, the list of the deployment gets
  shorter by one if an instance has the name of the node, else it stays as long as it is, and no other deployment and no
  route is touched; an error of the store is reported after that.  If the names of the list are distinct, exactly the
  instance of the name is taken out; \<open>ReloadData\<close> appends instances that are there already, and then the list loses one
  entry only.
\<close>

theorem deleted_instance_removed:
  assumes "v4_name sp name" "plain_elem node" "get_instance_path sp name = Inr p"
  shows "\<exists>m' e'. handle_zk_event (simple_paths sp) nc c conn kv order \<lparr>ze_type = NodeDeleted, ze_path = p @ node\<rparr> (m, e)
        = Some ((m', e'), map_option SyncStore conn)
    \<and> length (node_list m' name) =
        (if node \<in> sn_nodeName ` set (node_list m name) then length (node_list m name) - 1 else length (node_list m name))
    \<and> (distinct (map sn_nodeName (node_list m name)) \<longrightarrow>
        mset (node_list m' name) = filter_mset (\<lambda>s. sn_nodeName s \<noteq> node) (mset (node_list m name)))
    \<and> (\<forall>other. other \<noteq> name \<longrightarrow> node_list m' other = node_list m other) \<and> zm_routeCfg m' = zm_routeCfg m"
proof -
  have "pin_instance_path (simple_paths sp) name = Inr p" using assms(3) by (simp add: simple_paths_def)
  then have "\<exists>e'. handle_zk_event (simple_paths sp) nc c conn kv order \<lparr>ze_type = NodeDeleted, ze_path = p @ node\<rparr> (m, e)
      = Some ((remove_node name node m, e'), map_option SyncStore conn)"
    by (rule v4.instance_deleted [OF assms(1,2)])
  then obtain e' where "handle_zk_event (simple_paths sp) nc c conn kv order \<lparr>ze_type = NodeDeleted, ze_path = p @ node\<rparr> (m, e)
      = Some ((remove_node name node m, e'), map_option SyncStore conn)"
    by (rule exE)
  moreover have "zm_routeCfg (remove_node name node m) = zm_routeCfg m"
    by (simp add: remove_node_def set_nodes_def Let_def split: option.splits)
  ultimately show ?thesis
    by (intro exI [of _ "remove_node name node m"] exI [of _ e'])
      (simp add: remove_node_exact remove_node_others remove_node_length)
qed

definition node_named :: "bytes \<Rightarrow> service_node" where
  "node_named n = zero_node\<lparr>sn_nodeName := n\<rparr>"

theorem deleted_instance_removed_witness:
  "\<exists>m' e'. handle_zk_event (simple_paths crm_paths) no_codec (zk_one_value []) None mem_kv (\<lambda>_. [])
      \<lparr>ze_type = NodeDeleted, ze_path = ''/biz/sem/app/instance/a''\<rparr>
      (set_nodes ''sem:app'' [node_named ''a'', node_named ''b''] no_nodes, []) = Some ((m', e'), None)
    \<and> mset (node_list m' ''sem:app'') = {#node_named ''b''#}"
proof -
  let ?m = "set_nodes ''sem:app'' [node_named ''a'', node_named ''b''] no_nodes"
  have ip: "get_instance_path crm_paths ''sem:app'' = Inr ''/biz/sem/app/instance/''"
    by (simp add: get_instance_path_def sem_app_service)
  have nl: "node_list ?m ''sem:app'' = [node_named ''a'', node_named ''b'']" by (simp add: node_list_def set_nodes_def)
  have pl: "plain_elem ''a''" by (simp add: plain_elem_def)
  have d: "distinct (map sn_nodeName (node_list ?m ''sem:app''))" unfolding nl by (simp add: node_named_def)
  have f: "filter_mset (\<lambda>s. sn_nodeName s \<noteq> ''a'') (mset (node_list ?m ''sem:app'')) = {#node_named ''b''#}"
    unfolding nl by (simp add: node_named_def)
  show ?thesis
    using deleted_instance_removed [OF sem_app_v4 pl ip, of no_codec "zk_one_value []" None mem_kv "\<lambda>_. []" ?m "[]"] d
    unfolding f by auto
qed

text \<open>
  when the children of a node change but none of them is new, because etcd has a key for it or the list of the
  deployment an instance of the name, the handler forgets all the instances of the deployment: the ones that stay are
  collected in a slice that is never put into the map.
\<close>

theorem children_event_forgets:
  assumes "zc_children c path = Inr (l, n)" "list_keys kv [] e path = Some (Inr keys)" "pin_deploy_name pin path = Inr name"
    "\<forall>k \<in> set l. k |\<in>| keys \<or> (\<exists>v \<in> set (node_list m name). sn_nodeName v = path_base k)"
  shows "\<exists>m' e'. children_changed pin nc c None kv order path (m, e) = Some ((m', e'), None) \<and> node_list m' name = []
    \<and> (\<forall>other. other \<noteq> name \<longrightarrow> node_list m' other = node_list m other)"
proof -
  let ?e = "delete_stale kv path l (order keys) e"
  obtain m' e' where m': "children_loop pin nc c kv path name (node_list m name) keys l 0 (set_nodes name [] m, ?e) = (m', e')"
    "length (node_list m' name) = length (node_list (set_nodes name [] m) name)"
    "\<forall>other. other \<noteq> name \<longrightarrow> node_list m' other = node_list (set_nodes name [] m) other"
    using children_loop_known [OF assms(4), of pin nc c kv path name 0 "set_nodes name [] m" ?e] by auto
  have "children_changed pin nc c None kv order path (m, e) = Some ((m', e'), None)"
    using assms(1-3) m'(1) by (simp add: children_changed_def)
  moreover have "node_list m' name = []" using m'(2) by (simp add: set_nodes_def node_list_def)
  moreover have "\<forall>other. other \<noteq> name \<longrightarrow> node_list m' other = node_list m other"
    using m'(3) set_nodes_others by metis
  ultimately show ?thesis by blast
qed

theorem children_event_forgets_witness:
  "\<exists>m' e'. children_changed (simple_paths crm_paths) no_codec (zk_one_value []\<lparr>zc_children := \<lambda>p. Inr ([''a''], 1)\<rparr>) None mem_kv (\<lambda>_. [])
      ''/biz/sem/app/instance'' (set_nodes ''sem:app'' [node_named ''a''] no_nodes, []) = Some ((m', e'), None)
    \<and> node_list m' ''sem:app'' = []"
proof -
  let ?c = "zk_one_value []\<lparr>zc_children := \<lambda>p. Inr ([''a''], 1)\<rparr>" and ?m = "set_nodes ''sem:app'' [node_named ''a''] no_nodes"
  have c: "zc_children ?c ''/biz/sem/app/instance'' = Inr ([''a''], 1)" by simp
  have k: "list_keys mem_kv [] [] ''/biz/sem/app/instance'' = Some (Inr {||})" by (simp add: list_keys_def mem_kv_def)
  have "get_deploy_name crm_paths ''/biz/sem/app/instance'' = Inr ''sem:app''" by (simp add: get_deploy_name_def)
  then have d: "pin_deploy_name (simple_paths crm_paths) ''/biz/sem/app/instance'' = Inr ''sem:app''"
    by (simp add: simple_paths_def)
  have "path_base ''a'' = ''a''" by (simp add: path_base_def trim_right_def)
  then have a: "\<forall>k \<in> set [''a'']. k |\<in>| {||} \<or> (\<exists>v \<in> set (node_list ?m ''sem:app''). sn_nodeName v = path_base k)"
    by (simp add: node_list_def set_nodes_def node_named_def)
  show ?thesis using children_event_forgets [OF c k d a, of no_codec "\<lambda>_. []"] by blast
qed

text \<open>
  the values of some keys are read without an error as soon as the fuel exceeds their depth, and they are the
  values of exactly the nodes at or below the keys that are wanted: all of them, or those that match the expression
  or have children.
\<close>

theorem get_values_exact:
  assumes "answers c val depth" "\<forall>k \<in> set keys. depth k < fuel"
  shows "\<exists>dat. get_values c pm False fuel keys fmempty = Some (dat, None)
    \<and> (\<forall>q. fmlookup dat q = (if (\<exists>k \<in> set keys. below c k q) \<and> wanted c pm q then Some (val q) else None))"
  using get_values_walked [OF assms, of pm fmempty] by (auto simp: walked_def)

definition zk_tree :: zk_client where
  "zk_tree = \<lparr>zc_children = (\<lambda>p. if p = ''/biz'' then Inr ([''a'', ''b''], 2) else Inr ([], 0)),
     zc_get = (\<lambda>p. Inr p), zc_exists = (\<lambda>p. None), zc_set = (\<lambda>p v. None)\<rparr>"

theorem get_values_exact_witness:
  "\<exists>dat. get_values zk_tree (Some (\<lambda>p. p = ''/biz/b'')) False 2 [''/biz''] fmempty = Some (dat, None)
    \<and> fmlookup dat ''/biz/b'' = Some ''/biz/b'' \<and> fmlookup dat ''/biz/a'' = None"
proof -
  have a: "answers zk_tree id (\<lambda>p. if p = ''/biz'' then 1 else 0)"
    by (auto simp: answers_def zk_tree_def child_path_def has_suffix_def)
  have b: "below zk_tree ''/biz'' ''/biz/b''"
    by (rule below_child [where k = "''b''" and l = "[''a'', ''b'']" and n = 2])
      (auto simp: zk_tree_def child_path_def has_suffix_def intro: below_refl)
  have w: "wanted zk_tree (Some (\<lambda>p. p = ''/biz/b'')) ''/biz/b''" "\<not> wanted zk_tree (Some (\<lambda>p. p = ''/biz/b'')) ''/biz/a''"
    by (simp_all add: wanted_def zk_tree_def)
  show ?thesis
    using get_values_exact [OF a, of "[''/biz'']" 2 "Some (\<lambda>p. p = ''/biz/b'')"] b w by auto
qed

text \<open>
  the route of a service of version 2.0 is never loaded: the path of it leads to the name of a project, for
  which there is no version, and no text can be parsed without one.
\<close>

lemma v2_route_refused:
  assumes "get_deploy_name sp path = Inr project" "get_api_version sp project = []"
  shows "\<exists>err. parse_zk_data (simple_paths sp) nc zkRoute path dat m = (m, Some err)"
proof (cases "project = []")
  case False
  have "snd (parse_route dat []) \<noteq> []"
  proof -
    obtain p ps where "split_byte newline dat = p # ps" by (cases "split_byte newline dat") auto
    then show ?thesis by (simp add: parse_route_def parse_route_item_def APIV2_def APIV4_def split: prod.splits)
  qed
  then show ?thesis
    using assms False by (auto simp: parse_zk_data_def simple_paths_def split: prod.splits list.splits)
qed (use assms in \<open>simp add: parse_zk_data_def simple_paths_def\<close>)

end
