(* ===== verification/Pools.thy ===== *)
theory Pools
  imports Types
begin

text \<open>
  The pools of \<open>deploy/sync\<close>: locks by identity, a table of states, and a queue without duplicates.

  The goroutines that use a pool are a list; each step of one of them is what happens under the mutex of the pool, or
  the taking of a lock.  It is shown that at most one goroutine is in the pool under an identity, that a check out
  never panics, and that nothing is kept for identities nobody uses.
\<close>

subsection \<open>\<open>ExclusivePool\<close>\<close>

text \<open>The locks are values of a heap: the pool has pointers to them, and so have the goroutines that wait.\<close>

record exclusive_pool =
  ep_pool :: "(bytes, nat) fmap"
  ep_count :: "(bytes, nat) fmap"
  ep_locked :: "nat \<Rightarrow> bool"
  ep_next :: nat

definition new_exclusive_pool :: exclusive_pool where
  "new_exclusive_pool = \<lparr>ep_pool = fmempty, ep_count = fmempty, ep_locked = (\<lambda>_. False), ep_next = 0\<rparr>"

definition count_of :: "exclusive_pool \<Rightarrow> bytes \<Rightarrow> nat" where
  "count_of p i = (case fmlookup (ep_count p) i of None \<Rightarrow> 0 | Some n \<Rightarrow> n)"

text \<open>\<open>CheckIn\<close> up to the end of its critical section: the pool, and the lock that is waited for.\<close>

definition check_in :: "bytes \<Rightarrow> exclusive_pool \<Rightarrow> exclusive_pool \<times> nat" where
  "check_in i p =
     (let (p, l) = (case fmlookup (ep_pool p) i of
            Some l \<Rightarrow> (p, l)
          | None \<Rightarrow> (p\<lparr>ep_pool := fmupd i (ep_next p) (ep_pool p), ep_next := Suc (ep_next p)\<rparr>, ep_next p))
      in (p\<lparr>ep_count := fmupd i (count_of p i + 1) (ep_count p)\<rparr>, l))"

definition lock_mutex :: "nat \<Rightarrow> exclusive_pool \<Rightarrow> exclusive_pool option" where
  "lock_mutex l p = (if ep_locked p l then None else Some (p\<lparr>ep_locked := (ep_locked p)(l := True)\<rparr>))"

text \<open>\<open>CheckOut\<close>: unlocking through a nil pointer or a lock that is free ends the program.\<close>

definition check_out :: "bytes \<Rightarrow> exclusive_pool \<Rightarrow> exclusive_pool go" where
  "check_out i p =
     (case fmlookup (ep_pool p) i of
        None \<Rightarrow> None
      | Some l \<Rightarrow>
          if \<not> ep_locked p l then None
          else
            (let p = p\<lparr>ep_locked := (ep_locked p)(l := False)\<rparr>
             in Some (if count_of p i = 1
                      then p\<lparr>ep_pool := fmdrop i (ep_pool p), ep_count := fmdrop i (ep_count p)\<rparr>
                      else p\<lparr>ep_count := fmupd i (count_of p i - 1) (ep_count p)\<rparr>)))"

text \<open>A goroutine waits for a lock, is in the pool, or neither; or its check out has panicked.\<close>

datatype worker = Outside | Waiting bytes nat | Inside bytes | Crashed

inductive ep_step :: "exclusive_pool \<times> worker list \<Rightarrow> exclusive_pool \<times> worker list \<Rightarrow> bool" where
  step_in: "t < length ws \<Longrightarrow> ws ! t = Outside \<Longrightarrow> check_in i p = (p', l) \<Longrightarrow> ep_step (p, ws) (p', ws[t := Waiting i l])"
| step_lock: "t < length ws \<Longrightarrow> ws ! t = Waiting i l \<Longrightarrow> lock_mutex l p = Some p' \<Longrightarrow> ep_step (p, ws) (p', ws[t := Inside i])"
| step_out: "t < length ws \<Longrightarrow> ws ! t = Inside i \<Longrightarrow> check_out i p = Some p' \<Longrightarrow> ep_step (p, ws) (p', ws[t := Outside])"
| step_crash: "t < length ws \<Longrightarrow> ws ! t = Inside i \<Longrightarrow> check_out i p = None \<Longrightarrow> ep_step (p, ws) (p, ws[t := Crashed])"

inductive ep_reach :: "nat \<Rightarrow> exclusive_pool \<times> worker list \<Rightarrow> bool" for n where
  ep_start: "ep_reach n (new_exclusive_pool, replicate n Outside)"
| ep_more: "ep_reach n s \<Longrightarrow> ep_step s s' \<Longrightarrow> ep_reach n s'"

subsection \<open>The invariant of the pool\<close>

definition uses :: "bytes \<Rightarrow> worker \<Rightarrow> bool" where
  "uses i w \<longleftrightarrow> (\<exists>l. w = Waiting i l) \<or> w = Inside i"

definition how_many :: "('a \<Rightarrow> bool) \<Rightarrow> 'a list \<Rightarrow> nat" where
  "how_many P ws = length (filter P ws)"

lemma how_many_upd:
  "t < length ws \<Longrightarrow> how_many P (ws[t := w]) + (if P (ws ! t) then 1 else 0) = how_many P ws + (if P w then 1 else 0)"
proof (induction ws arbitrary: t)
  case (Cons x ws)
  then show ?case by (cases t) (force simp: how_many_def)+
qed simp

lemma how_many_pos: "t < length ws \<Longrightarrow> P (ws ! t) \<Longrightarrow> 0 < how_many P ws"
  unfolding how_many_def by (auto simp: filter_empty_conv)

lemma how_many_one:
  assumes "how_many P ws \<le> 1" "t < length ws" "u < length ws" "P (ws ! t)" "P (ws ! u)"
  shows "t = u"
proof (rule ccontr)
  let ?S = "{k. k < length ws \<and> P (ws ! k)}"
  assume "t \<noteq> u"
  then have "card {t, u} = 2" by simp
  moreover have "card {t, u} \<le> card ?S" using assms by (intro card_mono) auto
  ultimately show False using assms(1) by (simp add: how_many_def length_filter_conv_card)
qed

text \<open>
  For each identity: the count is the number of those that wait or are inside, at most one is inside, and the lock is
  there exactly if it is used, held exactly if someone is inside, and the one everybody waits for.  Locks of different
  identities differ.
\<close>

definition ep_inv :: "exclusive_pool \<times> worker list \<Rightarrow> bool" where
  "ep_inv s \<longleftrightarrow> (case s of (p, ws) \<Rightarrow>
     Crashed \<notin> set ws
   \<and> (\<forall>i. fmlookup (ep_count p) i = (if how_many (uses i) ws = 0 then None else Some (how_many (uses i) ws)))
   \<and> (\<forall>i. (fmlookup (ep_pool p) i = None) = (how_many (uses i) ws = 0))
   \<and> (\<forall>i l. fmlookup (ep_pool p) i = Some l \<longrightarrow>
        l < ep_next p \<and> how_many ((=) (Inside i)) ws = (if ep_locked p l then 1 else 0))
   \<and> (\<forall>i l. Waiting i l \<in> set ws \<longrightarrow> fmlookup (ep_pool p) i = Some l)
   \<and> (\<forall>i j l. fmlookup (ep_pool p) i = Some l \<longrightarrow> fmlookup (ep_pool p) j = Some l \<longrightarrow> i = j)
   \<and> (\<forall>l \<ge> ep_next p. \<not> ep_locked p l))"

lemma uses_simps [simp]:
  "uses i Outside \<longleftrightarrow> False" "uses i (Waiting j l) \<longleftrightarrow> j = i" "uses i (Inside j) \<longleftrightarrow> j = i" "uses i Crashed \<longleftrightarrow> False"
  by (auto simp: uses_def)

lemma ep_inv_start: "ep_inv (new_exclusive_pool, replicate n Outside)"
  by (auto simp: ep_inv_def new_exclusive_pool_def how_many_def filter_replicate)

lemma how_many_set:
  assumes "t < length ws"
  shows "how_many P (ws[t := w]) = how_many P ws + (if P w then 1 else 0) - (if P (ws ! t) then 1 else 0)"
  using how_many_upd [OF assms, of P w] how_many_pos [OF assms, of P] by (auto split: if_splits)

lemma count_of_inv: "ep_inv (p, ws) \<Longrightarrow> count_of p i = how_many (uses i) ws"
  by (simp add: ep_inv_def count_of_def)

lemma in_set_upd: "x \<in> set (ws[t := w]) \<Longrightarrow> x = w \<or> x \<in> set ws"
  using set_update_subset_insert [of ws t w] by auto

lemma ep_inv_in:
  assumes "ep_inv (p, ws)" "t < length ws" "ws ! t = Outside" "check_in i p = (p', l)"
  shows "ep_inv (p', ws[t := Waiting i l])"
proof -
  note inv = assms(1) [unfolded ep_inv_def split]
  have hu: "how_many (uses j) (ws[t := Waiting i k]) = how_many (uses j) ws + (if j = i then 1 else 0)" for j k
    using how_many_set [OF assms(2), of "uses j"] assms(3) by simp
  have hi: "how_many ((=) (Inside j)) (ws[t := Waiting i k]) = how_many ((=) (Inside j)) ws" for j k
    using how_many_set [OF assms(2), of "(=) (Inside j)"] assms(3) by simp
  have c: "count_of p i = how_many (uses i) ws" by (rule count_of_inv [OF assms(1)])
  show ?thesis
  proof (cases "fmlookup (ep_pool p) i")
    case (Some l0)
    then have e: "l = l0" "p' = p\<lparr>ep_count := fmupd i (count_of p i + 1) (ep_count p)\<rparr>" using assms(4) by (simp_all add: check_in_def)
    have "how_many (uses i) ws \<noteq> 0" using inv Some by (metis option.distinct(1))
    then show ?thesis unfolding ep_inv_def split e hu hi using inv Some c e(1)
      by (auto dest!: in_set_upd)
  next
    case None
    then have z: "how_many (uses i) ws = 0" using inv by auto
    have e: "l = ep_next p" "p' = p\<lparr>ep_pool := fmupd i (ep_next p) (ep_pool p), ep_next := Suc (ep_next p),
        ep_count := fmupd i (count_of p i + 1) (ep_count p)\<rparr>"
      using assms(4) None by (auto simp: check_in_def count_of_def)
    have "how_many ((=) (Inside i)) ws = 0"
      using z by (auto simp: how_many_def filter_empty_conv)
    moreover have "k < Suc (ep_next p)" "k \<noteq> ep_next p" if "fmlookup (ep_pool p) j = Some k" for j k
      using inv that by (metis less_SucI, metis less_not_refl)
    moreover have "\<not> ep_locked p (ep_next p)" using inv by blast
    moreover have "Waiting i k \<notin> set ws" for k using inv None by (metis option.distinct(1))
    ultimately show ?thesis unfolding ep_inv_def split e hu hi using inv None c z
      by (auto dest!: in_set_upd)
  qed
qed

lemma ep_inv_lock:
  assumes "ep_inv (p, ws)" "t < length ws" "ws ! t = Waiting i l" "lock_mutex l p = Some p'"
  shows "ep_inv (p', ws[t := Inside i])"
proof -
  note inv = assms(1) [unfolded ep_inv_def split]
  have hu: "how_many (uses j) (ws[t := Inside i]) = how_many (uses j) ws" for j
    using how_many_set [OF assms(2), of "uses j"] assms(3) by simp
  have hi: "how_many ((=) (Inside j)) (ws[t := Inside i]) = how_many ((=) (Inside j)) ws + (if j = i then 1 else 0)" for j
    using how_many_set [OF assms(2), of "(=) (Inside j)"] assms(3) by simp
  have "Waiting i l \<in> set ws" using assms(2,3) by (metis nth_mem)
  then have l: "fmlookup (ep_pool p) i = Some l" using inv by blast
  have p': "\<not> ep_locked p l" "p' = p\<lparr>ep_locked := (ep_locked p)(l := True)\<rparr>"
    using assms(4) by (auto simp: lock_mutex_def split: if_splits)
  have other: "k \<noteq> l" if "fmlookup (ep_pool p) j = Some k" "j \<noteq> i" for j k using inv l that by metis
  have lt: "\<not> ep_next p \<le> l" using inv l by (metis leD)
  show ?thesis unfolding ep_inv_def split p'(2) hu hi using inv l p'(1) other lt
    by (auto dest!: in_set_upd)
qed

lemma ep_inv_out:
  assumes "ep_inv (p, ws)" "t < length ws" "ws ! t = Inside i"
  shows "\<exists>p'. check_out i p = Some p' \<and> ep_inv (p', ws[t := Outside])"
proof -
  note inv = assms(1) [unfolded ep_inv_def split]
  have hu: "how_many (uses j) (ws[t := Outside]) = how_many (uses j) ws - (if j = i then 1 else 0)" for j
    using how_many_set [OF assms(2), of "uses j"] assms(3) by simp
  have hi: "how_many ((=) (Inside j)) (ws[t := Outside]) = how_many ((=) (Inside j)) ws - (if j = i then 1 else 0)" for j
    using how_many_set [OF assms(2), of "(=) (Inside j)"] assms(3) by simp
  have c: "count_of p i = how_many (uses i) ws" by (rule count_of_inv [OF assms(1)])
  have pos: "0 < how_many (uses i) ws" "0 < how_many ((=) (Inside i)) ws"
    using how_many_pos [OF assms(2), of "uses i"] how_many_pos [OF assms(2), of "(=) (Inside i)"] assms(3) by simp_all
  then obtain l where l: "fmlookup (ep_pool p) i = Some l" using inv by (metis less_not_refl option.exhaust)
  then have lk: "ep_locked p l" "how_many ((=) (Inside i)) ws = 1" "l < ep_next p"
    using inv pos by (metis less_not_refl, metis less_not_refl, blast)
  have other: "k \<noteq> l" if "fmlookup (ep_pool p) j = Some k" "j \<noteq> i" for j k using inv l that by metis
  let ?p = "p\<lparr>ep_locked := (ep_locked p)(l := False)\<rparr>"
  have cp: "count_of ?p i = how_many (uses i) ws" using c by (simp add: count_of_def)
  show ?thesis
  proof (cases "how_many (uses i) ws = 1")
    case True
    have none: "j \<noteq> i" if "Waiting j k \<in> set ws" for j k
    proof
      assume "j = i"
      obtain u where u: "u < length ws" "ws ! u = Waiting j k" using \<open>Waiting j k \<in> set ws\<close> unfolding in_set_conv_nth by blast
      then have "u = t" using how_many_one [of "uses i" ws u t] True assms(2,3) \<open>j = i\<close> by simp
      then show False using u(2) assms(3) by simp
    qed
    have "check_out i p = Some (?p\<lparr>ep_pool := fmdrop i (ep_pool p), ep_count := fmdrop i (ep_count p)\<rparr>)"
      using l lk(1) cp True by (simp add: check_out_def Let_def)
    moreover have "ep_inv (?p\<lparr>ep_pool := fmdrop i (ep_pool p), ep_count := fmdrop i (ep_count p)\<rparr>, ws[t := Outside])"
      unfolding ep_inv_def split hu hi using inv True other lk none
      by (auto dest!: in_set_upd)
    ultimately show ?thesis by blast
  next
    case False
    have "check_out i p = Some (?p\<lparr>ep_count := fmupd i (how_many (uses i) ws - 1) (ep_count p)\<rparr>)"
      using l lk(1) cp False by (simp add: check_out_def Let_def)
    moreover have "ep_inv (?p\<lparr>ep_count := fmupd i (how_many (uses i) ws - 1) (ep_count p)\<rparr>, ws[t := Outside])"
      unfolding ep_inv_def split hu hi using inv False other lk l pos
      by (auto dest!: in_set_upd)
    ultimately show ?thesis by blast
  qed
qed

lemma ep_inv_step: "ep_step s s' \<Longrightarrow> ep_inv s \<Longrightarrow> ep_inv s'"
proof (induction rule: ep_step.induct)
  case (step_out t ws i p p')
  then show ?case using ep_inv_out [of p ws t i] by auto
next
  case (step_crash t ws i p)
  then show ?case using ep_inv_out [of p ws t i] by auto
qed (auto intro: ep_inv_in ep_inv_lock)

lemma ep_reach_inv: "ep_reach n s \<Longrightarrow> ep_inv s"
  by (induction rule: ep_reach.induct) (auto intro: ep_inv_start ep_inv_step)

subsection \<open>\<open>StatusTable\<close> and \<open>UniqueQueue\<close>\<close>

type_synonym status_table = "(bytes, bool) fmap"

definition new_status_table :: status_table where
  "new_status_table = fmempty"

definition status_start :: "bytes \<Rightarrow> status_table \<Rightarrow> status_table" where
  "status_start name p = fmupd name True p"

definition status_stop :: "bytes \<Rightarrow> status_table \<Rightarrow> status_table" where
  "status_stop name p = fmupd name False p"

definition is_running :: "status_table \<Rightarrow> bytes \<Rightarrow> bool" where
  "is_running p name = (case fmlookup p name of None \<Rightarrow> False | Some b \<Rightarrow> b)"

record unique_queue =
  uq_table :: status_table
  uq_queue :: "bytes list"
  uq_size :: nat

definition new_unique_queue :: "int \<Rightarrow> unique_queue" where
  "new_unique_queue queueLength =
     \<lparr>uq_table = new_status_table, uq_queue = [], uq_size = nat (if queueLength \<le> 0 then 100 else queueLength)\<rparr>"

definition uq_exist :: "unique_queue \<Rightarrow> bytes \<Rightarrow> bool" where
  "uq_exist q x = is_running (uq_table q) x"

text \<open>
  \<open>AddFunc\<close> in the steps another goroutine can come between: the test, the mark under the lock of the table, with the
  function that changes something else, and the sending, which waits while the queue is full.
\<close>

definition uq_mark :: "bytes \<Rightarrow> unique_queue \<Rightarrow> unique_queue" where
  "uq_mark x q = q\<lparr>uq_table := status_start x (uq_table q)\<rparr>"

definition uq_send :: "bytes \<Rightarrow> unique_queue \<Rightarrow> unique_queue option" where
  "uq_send x q = (if length (uq_queue q) < uq_size q then Some (q\<lparr>uq_queue := uq_queue q @ [x]\<rparr>) else None)"

definition add_func :: "bytes \<Rightarrow> ('s \<Rightarrow> 's) option \<Rightarrow> unique_queue \<times> 's \<Rightarrow> (unique_queue \<times> 's) outcome" where
  "add_func x fn s =
     (case s of (q, e) \<Rightarrow>
        if uq_exist q x then Returns (q, e)
        else (case uq_send x (uq_mark x q) of
                None \<Rightarrow> Waits
              | Some q \<Rightarrow> Returns (q, case fn of None \<Rightarrow> e | Some f \<Rightarrow> f e)))"

definition uq_add :: "bytes \<Rightarrow> unique_queue \<Rightarrow> unique_queue outcome" where
  "uq_add x q =
     (case add_func x None (q, ()) of Returns (q, _) \<Rightarrow> Returns q | Panics \<Rightarrow> Panics | Exits \<Rightarrow> Exits | Waits \<Rightarrow> Waits)"

definition uq_remove :: "bytes \<Rightarrow> unique_queue \<Rightarrow> unique_queue" where
  "uq_remove x q = q\<lparr>uq_table := status_stop x (uq_table q)\<rparr>"

text \<open>The client receives from the channel that \<open>Queue\<close> returns.\<close>

definition uq_receive :: "unique_queue \<Rightarrow> (bytes \<times> unique_queue) option" where
  "uq_receive q = (case uq_queue q of [] \<Rightarrow> None | x # xs \<Rightarrow> Some (x, q\<lparr>uq_queue := xs\<rparr>))"

text \<open>
  Goroutines that add, and a consumer that removes what it has received and handled.  A goroutine is about to add
  (\<open>Adding\<close>), has tested that the identity is not there (\<open>Tested\<close>), or has marked it and sends (\<open>Sending\<close>).
\<close>

datatype adder = Idle | Tested bytes | Sending bytes

inductive uq_step :: "unique_queue \<times> adder list \<times> bytes list \<Rightarrow> unique_queue \<times> adder list \<times> bytes list \<Rightarrow> bool" where
  uq_test: "t < length ads \<Longrightarrow> ads ! t = Idle \<Longrightarrow> \<not> uq_exist q x \<Longrightarrow> uq_step (q, ads, hs) (q, ads[t := Tested x], hs)"
| uq_marked: "t < length ads \<Longrightarrow> ads ! t = Tested x \<Longrightarrow> uq_step (q, ads, hs) (uq_mark x q, ads[t := Sending x], hs)"
| uq_sent: "t < length ads \<Longrightarrow> ads ! t = Sending x \<Longrightarrow> uq_send x q = Some q' \<Longrightarrow> uq_step (q, ads, hs) (q', ads[t := Idle], hs)"
| uq_received: "uq_receive q = Some (x, q') \<Longrightarrow> uq_step (q, ads, hs) (q', ads, x # hs)"
| uq_removed: "hs = hs1 @ x # hs2 \<Longrightarrow> uq_step (q, ads, hs) (uq_remove x q, ads, hs1 @ hs2)"

inductive uq_reach :: "int \<Rightarrow> nat \<Rightarrow> unique_queue \<times> adder list \<times> bytes list \<Rightarrow> bool" for len n where
  uq_start: "uq_reach len n (new_unique_queue len, replicate n Idle, [])"
| uq_more: "uq_reach len n s \<Longrightarrow> uq_step s s' \<Longrightarrow> uq_reach len n s'"

subsection \<open>One goroutine that adds\<close>

definition sending :: "adder \<Rightarrow> bytes list" where
  "sending a = (case a of Sending x \<Rightarrow> [x] | _ \<Rightarrow> [])"

definition uq_inv :: "unique_queue \<times> adder list \<times> bytes list \<Rightarrow> bool" where
  "uq_inv s \<longleftrightarrow> (case s of (q, ads, hs) \<Rightarrow> \<exists>a. ads = [a]
     \<and> distinct (uq_queue q @ hs @ sending a) \<and> (\<forall>x \<in> set (uq_queue q @ hs @ sending a). uq_exist q x)
     \<and> (\<forall>x. a = Tested x \<longrightarrow> \<not> uq_exist q x))"

lemma uq_exist_simps [simp]:
  "uq_exist (uq_mark x q) y \<longleftrightarrow> y = x \<or> uq_exist q y" "uq_exist (uq_remove x q) y \<longleftrightarrow> y \<noteq> x \<and> uq_exist q y"
  "uq_queue (uq_mark x q) = uq_queue q" "uq_queue (uq_remove x q) = uq_queue q"
  by (auto simp: uq_exist_def uq_mark_def uq_remove_def status_start_def status_stop_def is_running_def)

lemma uq_exist_queue [simp]: "uq_exist (q\<lparr>uq_queue := xs\<rparr>) y = uq_exist q y"
  by (simp add: uq_exist_def)

lemma uq_inv_step: "uq_step s s' \<Longrightarrow> uq_inv s \<Longrightarrow> uq_inv s'"
proof (induction rule: uq_step.induct)
  case (uq_marked t ads x q hs)
  then show ?case by (fastforce simp: uq_inv_def sending_def)
next
  case (uq_removed hs hs1 x hs2 q ads)
  then show ?case by (fastforce simp: uq_inv_def)
qed (auto simp: uq_inv_def sending_def uq_send_def uq_receive_def split: if_splits list.splits)

lemma uq_reach_inv: "uq_reach len 1 s \<Longrightarrow> uq_inv s"
proof (induction rule: uq_reach.induct)
  case uq_start
  then show ?case by (simp add: uq_inv_def new_unique_queue_def sending_def)
qed (rule uq_inv_step)

text \<open>Two goroutines that add can both test before either marks.\<close>

lemma unique_queue_race: "\<exists>q. uq_reach 2 2 (q, [Idle, Idle], []) \<and> uq_queue q = [x, x]"
proof -
  let ?q = "new_unique_queue 2"
  let ?q2 = "uq_mark x (uq_mark x ?q)"
  have n: "replicate 2 Idle = [Idle, Idle]" by (simp add: numeral_2_eq_2)
  have "uq_reach 2 2 (?q, [Idle, Idle], [])" using uq_start [of 2 2] unfolding n .
  then have "uq_reach 2 2 (?q, [Tested x, Idle], [])"
    using uq_more uq_test [of 0 "[Idle, Idle]" ?q x "[]"]
    by (force simp: new_unique_queue_def uq_exist_def is_running_def new_status_table_def)
  then have "uq_reach 2 2 (?q, [Tested x, Tested x], [])"
    using uq_more uq_test [of 1 "[Tested x, Idle]" ?q x "[]"]
    by (force simp: new_unique_queue_def uq_exist_def is_running_def new_status_table_def)
  then have "uq_reach 2 2 (uq_mark x ?q, [Sending x, Tested x], [])"
    using uq_more uq_marked [of 0 "[Tested x, Tested x]" x ?q "[]"] by force
  then have "uq_reach 2 2 (?q2, [Sending x, Sending x], [])"
    using uq_more uq_marked [of 1 "[Sending x, Tested x]" x "uq_mark x ?q" "[]"] by force
  moreover have "uq_send x ?q2 = Some (?q2\<lparr>uq_queue := [x]\<rparr>)"
    by (simp add: uq_send_def uq_mark_def new_unique_queue_def)
  ultimately have "uq_reach 2 2 (?q2\<lparr>uq_queue := [x]\<rparr>, [Idle, Sending x], [])"
    using uq_more uq_sent [of 0 "[Sending x, Sending x]" x ?q2 "?q2\<lparr>uq_queue := [x]\<rparr>" "[]"] by force
  moreover have "uq_send x (?q2\<lparr>uq_queue := [x]\<rparr>) = Some (?q2\<lparr>uq_queue := [x, x]\<rparr>)"
    by (simp add: uq_send_def uq_mark_def new_unique_queue_def)
  ultimately have "uq_reach 2 2 (?q2\<lparr>uq_queue := [x, x]\<rparr>, [Idle, Idle], [])"
    using uq_more uq_sent [of 1 "[Idle, Sending x]" x "?q2\<lparr>uq_queue := [x]\<rparr>" "?q2\<lparr>uq_queue := [x, x]\<rparr>" "[]"] by force
  then show ?thesis by (intro exI) auto
qed

subsection \<open>Properties\<close>

text \<open>
  C7: in every state the goroutines can reach, at most one is in the pool under an identity, none has panicked in a
  check out, and the pool holds locks and counts for exactly the identities that are in use.
\<close>

theorem exclusive_pool_safe:
  assumes "ep_reach n (p, ws)"
  shows "(\<forall>t u i. t < length ws \<and> u < length ws \<and> ws ! t = Inside i \<and> ws ! u = Inside i \<longrightarrow> t = u)
    \<and> Crashed \<notin> set ws
    \<and> (\<forall>i. fmlookup (ep_pool p) i \<noteq> None \<longleftrightarrow> (\<exists>w \<in> set ws. uses i w))
    \<and> (\<forall>i. count_of p i = how_many (uses i) ws)"
proof -
  have inv: "ep_inv (p, ws)" by (rule ep_reach_inv [OF assms])
  note i = inv [unfolded ep_inv_def split]
  have one: "how_many ((=) (Inside j)) ws \<le> 1" for j
  proof (cases "fmlookup (ep_pool p) j")
    case None
    then have "how_many (uses j) ws = 0" using i by blast
    then have "Inside j \<notin> set ws" by (auto simp: how_many_def filter_empty_conv)
    then have "filter ((=) (Inside j)) ws = []" by (auto simp: filter_empty_conv)
    then show ?thesis by (simp add: how_many_def)
  qed (use i in auto)
  have "t = u" if "t < length ws" "u < length ws" "ws ! t = Inside j" "ws ! u = Inside j" for t u j
    by (rule how_many_one [OF one [of j] that(1,2)]) (simp_all add: that)
  moreover have "fmlookup (ep_pool p) j \<noteq> None \<longleftrightarrow> (\<exists>w \<in> set ws. uses j w)" for j
    using i by (auto simp: how_many_def filter_empty_conv)
  ultimately show ?thesis using i count_of_inv [OF inv] by blast
qed

text \<open>Two goroutines and one image: the first is in the pool, the second waits for it.\<close>

definition pool_in_use :: exclusive_pool where
  "pool_in_use = \<lparr>ep_pool = fmupd ''img'' 0 fmempty, ep_count = fmupd ''img'' 2 fmempty,
     ep_locked = (\<lambda>_. False)(0 := True), ep_next = 1\<rparr>"

lemma pool_in_use_reached: "ep_reach 2 (pool_in_use, [Inside ''img'', Waiting ''img'' 0])"
proof -
  let ?p1 = "\<lparr>ep_pool = fmupd ''img'' 0 fmempty, ep_count = fmupd ''img'' 1 fmempty, ep_locked = (\<lambda>_. False), ep_next = 1\<rparr>"
  let ?p2 = "?p1\<lparr>ep_locked := (\<lambda>_. False)(0 := True)\<rparr>"
  have "ep_reach 2 (new_exclusive_pool, [Outside, Outside])" using ep_start [of 2] by (simp add: numeral_2_eq_2)
  moreover have "check_in ''img'' new_exclusive_pool = (?p1, 0)" by (simp add: check_in_def new_exclusive_pool_def count_of_def)
  ultimately have "ep_reach 2 (?p1, [Waiting ''img'' 0, Outside])"
    using ep_more step_in [of 0 "[Outside, Outside]" "''img''" new_exclusive_pool ?p1 0] by force
  moreover have "lock_mutex 0 ?p1 = Some ?p2" by (simp add: lock_mutex_def)
  ultimately have "ep_reach 2 (?p2, [Inside ''img'', Outside])"
    using ep_more step_lock [of 0 "[Waiting ''img'' 0, Outside]" "''img''" 0 ?p1 ?p2] by force
  moreover have "check_in ''img'' ?p2 = (pool_in_use, 0)" by (simp add: check_in_def pool_in_use_def count_of_def numeral_2_eq_2)
  ultimately show ?thesis
    using ep_more step_in [of 1 "[Inside ''img'', Outside]" "''img''" ?p2 pool_in_use 0] by force
qed

theorem exclusive_pool_safe_witness: "count_of pool_in_use ''img'' = 2"
  using exclusive_pool_safe [OF pool_in_use_reached] by (simp add: how_many_def)

text \<open>
  C36: while a goroutine waits to get in under an identity some goroutine can make a step for it: the one that is
  inside under the identity can check out, or the one that waits can take the lock.
\<close>

theorem exclusive_pool_progress:
  assumes "ep_reach n (p, ws)" "t < length ws" "ws ! t = Waiting i l"
  shows "(\<exists>p'. lock_mutex l p = Some p') \<or> (\<exists>u p'. u < length ws \<and> ws ! u = Inside i \<and> check_out i p = Some p'
    \<and> (\<exists>p''. lock_mutex l p' = Some p''))"
proof (cases "ep_locked p l")
  case True
  have inv: "ep_inv (p, ws)" by (rule ep_reach_inv [OF assms(1)])
  have l: "fmlookup (ep_pool p) i = Some l" using inv assms(2,3) unfolding ep_inv_def split by (metis nth_mem)
  then have "how_many ((=) (Inside i)) ws = 1" using inv True unfolding ep_inv_def split by auto
  then have "filter ((=) (Inside i)) ws \<noteq> []" by (auto simp: how_many_def)
  then have "Inside i \<in> set ws" by (auto simp: filter_empty_conv)
  then obtain u where u: "u < length ws" "ws ! u = Inside i" unfolding in_set_conv_nth by blast
  obtain p' where p': "check_out i p = Some p'" using ep_inv_out [OF inv u] by blast
  then have "\<not> ep_locked p' l" using l by (auto simp: check_out_def Let_def split: if_splits)
  then show ?thesis using u p' by (auto simp: lock_mutex_def)
qed (simp add: lock_mutex_def)

theorem exclusive_pool_progress_witness:
  "\<exists>u p'. u < 2 \<and> [Inside ''img'', Waiting ''img'' 0] ! u = Inside ''img'' \<and> check_out ''img'' pool_in_use = Some p'
   \<and> (\<exists>p''. lock_mutex 0 p' = Some p'')"
  using exclusive_pool_progress [OF pool_in_use_reached, of 1 "''img''" 0]
  by (simp add: lock_mutex_def pool_in_use_def numeral_2_eq_2)

text \<open>
  if one goroutine only adds to the queue, what is in the line or has been received and not yet removed is without
  duplicates, and every one of it is marked, whatever the consumer does in between.
\<close>

theorem unique_queue_distinct:
  assumes "uq_reach len 1 (q, ads, hs)"
  shows "distinct (uq_queue q @ hs) \<and> (\<forall>x \<in> set (uq_queue q @ hs). uq_exist q x)"
  using uq_reach_inv [OF assms] by (auto simp: uq_inv_def)

theorem unique_queue_distinct_witness:
  "uq_exist (uq_mark ''a'' (new_unique_queue 2)\<lparr>uq_queue := [''a'']\<rparr>) ''a''"
proof -
  let ?q = "new_unique_queue 2"
  have "uq_reach 2 1 (?q, [Idle], [])" using uq_start [of 2 1] by simp
  then have "uq_reach 2 1 (?q, [Tested ''a''], [])"
    using uq_more uq_test [of 0 "[Idle]" ?q "''a''" "[]"]
    by (force simp: new_unique_queue_def uq_exist_def is_running_def new_status_table_def)
  then have "uq_reach 2 1 (uq_mark ''a'' ?q, [Sending ''a''], [])"
    using uq_more uq_marked [of 0 "[Tested ''a'']" "''a''" ?q "[]"] by force
  moreover have "uq_send ''a'' (uq_mark ''a'' ?q) = Some (uq_mark ''a'' ?q\<lparr>uq_queue := [''a'']\<rparr>)"
    by (simp add: uq_send_def uq_mark_def new_unique_queue_def)
  ultimately have "uq_reach 2 1 (uq_mark ''a'' ?q\<lparr>uq_queue := [''a'']\<rparr>, [Idle], [])"
    using uq_more uq_sent [of 0 "[Sending ''a'']" "''a''" "uq_mark ''a'' ?q" "uq_mark ''a'' ?q\<lparr>uq_queue := [''a'']\<rparr>" "[]"] by force
  then have "\<forall>x \<in> set (uq_queue (uq_mark ''a'' ?q\<lparr>uq_queue := [''a'']\<rparr>) @ []). uq_exist (uq_mark ''a'' ?q\<lparr>uq_queue := [''a'']\<rparr>) x"
    using unique_queue_distinct by blast
  then show ?thesis by simp
qed

end
