(* ===== verification/Images.thy ===== *)
theory Images
  imports Types
begin

text \<open>
  Names and versions of images (\<open>types/image.go\<close>, \<open>types/version.go\<close>).

  The semantic versions of \<open>github.com/blang/semver\<close> are a record of operations; \<open>semver_ok\<close> says what is relied on.
  The regular expressions are written out as recognizers.
\<close>

subsection \<open>Versions\<close>

record 'v semver =
  sv_parse :: "bytes \<Rightarrow> bytes + 'v"
  sv_string :: "'v \<Rightarrow> bytes"
  sv_lt :: "'v \<Rightarrow> 'v \<Rightarrow> bool"
  sv_equals :: "'v \<Rightarrow> 'v \<Rightarrow> bool"
  sv_build :: "'v \<Rightarrow> bytes list"

text \<open>
  A version is printed and parsed back, the text has neither a colon nor a newline and is not empty; the order is a
  linear preorder with \<open>Equals\<close> as its equivalence.
\<close>

definition semver_ok :: "'v semver \<Rightarrow> bool" where
  "semver_ok sv \<longleftrightarrow> (\<forall>v. sv_parse sv (sv_string sv v) = Inr v \<and> sv_string sv v \<noteq> []
     \<and> CHR '':'' \<notin> set (sv_string sv v) \<and> newline \<notin> set (sv_string sv v))
   \<and> (\<forall>a b c. \<not> sv_lt sv a a \<and> (sv_lt sv a b \<longrightarrow> \<not> sv_lt sv b a) \<and> (\<not> sv_lt sv a b \<longrightarrow> \<not> sv_lt sv b c \<longrightarrow> \<not> sv_lt sv a c))
   \<and> (\<forall>a b. sv_equals sv a b \<longleftrightarrow> \<not> sv_lt sv a b \<and> \<not> sv_lt sv b a)"

record 'v version =
  ve_version :: 'v
  ve_gitCommit :: bytes
  ve_desc :: bytes
  ve_createTime :: int

datatype image_error =
  NoVersionPrefix bytes | VersionError bytes | ImageNameFormat bytes | InvalidImageName | ImageJson bytes

text \<open>\<open>versionRexp\<close>: a v and at least one more character, none of them the end of a line.\<close>

definition version_match :: "bytes \<Rightarrow> bool" where
  "version_match s \<longleftrightarrow> (case s of [] \<Rightarrow> False | c # r \<Rightarrow> c = CHR ''v'' \<and> r \<noteq> [] \<and> newline \<notin> set r)"

definition parse_version :: "'v semver \<Rightarrow> bytes \<Rightarrow> image_error + 'v version" where
  "parse_version sv ver =
     (if \<not> version_match ver then Inl (NoVersionPrefix ver)
      else (case sv_parse sv (drop 1 ver) of
              Inl err \<Rightarrow> Inl (VersionError err)
            | Inr v \<Rightarrow> Inr \<lparr>ve_version = v, ve_gitCommit = [], ve_desc = [], ve_createTime = 0\<rparr>))"

definition must_parse_version :: "'v semver \<Rightarrow> bytes \<Rightarrow> 'v version outcome" where
  "must_parse_version sv ver = (case parse_version sv ver of Inl err \<Rightarrow> Exits | Inr v \<Rightarrow> Returns v)"

definition version_string :: "'v semver \<Rightarrow> 'v version \<Rightarrow> bytes" where
  "version_string sv v = ''v'' @ sv_string sv (ve_version v)"

text \<open>The JSON of a version is a text; reading one keeps the other fields.\<close>

definition version_marshal :: "'v semver \<Rightarrow> 'v version \<Rightarrow> bytes" where
  "version_marshal sv v = (let ver = ''v'' @ sv_string sv (ve_version v) in ver)"

definition version_unmarshal :: "'v semver \<Rightarrow> bytes + bytes \<Rightarrow> 'v version \<Rightarrow> image_error + 'v version" where
  "version_unmarshal sv dat v =
     (case dat of
        Inl err \<Rightarrow> Inl (ImageJson err)
      | Inr s \<Rightarrow> (case parse_version sv s of Inl err \<Rightarrow> Inl err | Inr ver \<Rightarrow> Inr (v\<lparr>ve_version := ve_version ver\<rparr>)))"

definition version_lt :: "'v semver \<Rightarrow> 'v version \<Rightarrow> 'v version \<Rightarrow> bool" where
  "version_lt sv v u = sv_lt sv (ve_version v) (ve_version u)"

definition version_eq :: "'v semver \<Rightarrow> 'v version \<Rightarrow> 'v version \<Rightarrow> bool" where
  "version_eq sv v u = sv_equals sv (ve_version v) (ve_version u)"

text \<open>The order in which \<open>ParseStage\<close> walks over its map is a parameter.\<close>

definition get_stage :: "'v semver \<Rightarrow> (stage \<times> string) list \<Rightarrow> 'v version \<Rightarrow> stage" where
  "get_stage sv ord v =
     (let b = sv_build sv (ve_version v) in
      if length b = 0 then Production
      else (let st = (if length b > 1 then b ! 0 else []) in fst (parse_stage ord st)))"

subsection \<open>Names\<close>

definition is_lower :: "char \<Rightarrow> bool" where
  "is_lower c \<longleftrightarrow> c \<in> set ''abcdefghijklmnopqrstuvwxyz''"

text \<open>\<open>[a-z]+([.-][a-z]+)*\<close>; the flag says that the last character was a letter.\<close>

fun part_ok :: "bool \<Rightarrow> bytes \<Rightarrow> bool" where
  "part_ok b [] = b"
| "part_ok b (c # cs) =
     (if is_lower c then part_ok True cs else if c = CHR ''.'' \<or> c = CHR ''-'' then b \<and> part_ok False cs else False)"

text \<open>\<open>imageName\<close>: a namespace and a name.\<close>

definition image_name_valid :: "bytes \<Rightarrow> bool" where
  "image_name_valid s = (case split_byte CHR ''/'' s of [a, b] \<Rightarrow> part_ok False a \<and> part_ok False b | _ \<Rightarrow> False)"

text \<open>The groups 1 and 5 of a match of \<open>image\<close>; the second one is empty if it did not take part.\<close>

definition image_match :: "bytes \<Rightarrow> (bytes \<times> bytes) option" where
  "image_match s =
     (case index_byte s CHR '':'' of
        None \<Rightarrow> if image_name_valid s then Some (s, []) else None
      | Some i \<Rightarrow>
          (let n = take i s; v = drop (Suc i) s in
           if image_name_valid n \<and> has_prefix v ''v'' \<and> CHR '':'' \<notin> set v then Some (n, v) else None))"

datatype image_update_policy = NoPolicy | NotExist | AlwaysUpdate | OtherPolicy bytes

record 'v image_t =
  im_name :: bytes
  im_updatePolicy :: image_update_policy
  im_version :: "'v version option"

definition image_validate :: "'v image_t \<Rightarrow> image_error option" where
  "image_validate i = (if image_match (im_name i) = None then Some (ImageNameFormat (im_name i)) else None)"

definition image_name_validate :: "bytes \<Rightarrow> image_error option" where
  "image_name_validate n = (if image_name_valid n then None else Some InvalidImageName)"

definition parse_image_name :: "'v semver \<Rightarrow> bytes \<Rightarrow> image_error + 'v image_t" where
  "parse_image_name sv name =
     (case image_match name of
        None \<Rightarrow> Inl (ImageNameFormat name)
      | Some (n, ver) \<Rightarrow>
          if length ver > 0 then
            (case parse_version sv ver of
               Inl err \<Rightarrow> Inl err
             | Inr v \<Rightarrow> Inr \<lparr>im_name = n, im_updatePolicy = NoPolicy, im_version = Some v\<rparr>)
          else Inr \<lparr>im_name = n, im_updatePolicy = NoPolicy, im_version = None\<rparr>)"

definition must_parse_image_name :: "'v semver \<Rightarrow> bytes \<Rightarrow> 'v image_t go" where
  "must_parse_image_name sv name = (case parse_image_name sv name of Inl err \<Rightarrow> None | Inr i \<Rightarrow> Some i)"

text \<open>
  The JSON of an image: a text, or an object, of which the fields that are there are given, the version as its text.
  Reading an object keeps the fields that are not there.
\<close>

datatype image_json =
  ImageText bytes | ImageObject "bytes option" "image_update_policy option" "bytes option" | ImageBadJson bytes

definition image_marshal :: "'v semver \<Rightarrow> 'v image_t \<Rightarrow> image_error + image_json" where
  "image_marshal sv i =
     (case image_validate i of
        Some err \<Rightarrow> Inl err
      | None \<Rightarrow>
          if im_updatePolicy i = NoPolicy then
            (let ret = im_name i;
                 ret = (case im_version i of Some v \<Rightarrow> ret @ '':'' @ version_string sv v | None \<Rightarrow> ret)
             in Inr (ImageText ret))
          else Inr (ImageObject (if im_name i = [] then None else Some (im_name i)) (Some (im_updatePolicy i)) (map_option (version_marshal sv) (im_version i))))"

definition image_unmarshal :: "'v semver \<Rightarrow> image_json \<Rightarrow> 'v image_t \<Rightarrow> image_error + 'v image_t" where
  "image_unmarshal sv dat i =
     (case dat of
        ImageText s \<Rightarrow> (case parse_image_name sv s of Inl err \<Rightarrow> Inl err | Inr tm \<Rightarrow> Inr tm)
      | ImageObject n p v \<Rightarrow>
          (let i = i\<lparr>im_name := (case n of None \<Rightarrow> im_name i | Some n \<Rightarrow> n),
                     im_updatePolicy := (case p of None \<Rightarrow> im_updatePolicy i | Some p \<Rightarrow> p)\<rparr>
           in case v of
                None \<Rightarrow> Inr i
              | Some txt \<Rightarrow>
                  (case (case im_version i of None \<Rightarrow> parse_version sv txt | Some old \<Rightarrow> version_unmarshal sv (Inr txt) old) of
                     Inl err \<Rightarrow> Inl err
                   | Inr ver \<Rightarrow> Inr (i\<lparr>im_version := Some ver\<rparr>)))
      | ImageBadJson err \<Rightarrow> Inl (ImageJson err))"

subsection \<open>Lemmas\<close>

lemma part_ok_chars: "part_ok b s \<Longrightarrow> c \<in> set s \<Longrightarrow> is_lower c \<or> c = CHR ''.'' \<or> c = CHR ''-''"
  by (induction b s rule: part_ok.induct) (auto split: if_splits)

lemma image_name_parts:
  assumes "image_name_valid s"
  obtains a b where "s = a @ CHR ''/'' # b" "part_ok False a" "part_ok False b" "CHR ''/'' \<notin> set a" "CHR ''/'' \<notin> set b"
proof -
  obtain a b where ab: "split_byte CHR ''/'' s = [a, b]" "part_ok False a" "part_ok False b"
    using assms by (auto simp: image_name_valid_def split: list.splits)
  have "s = a @ CHR ''/'' # b" using join_split [of "CHR ''/''" s] unfolding ab(1) by simp
  moreover have "CHR ''/'' \<notin> set a" "CHR ''/'' \<notin> set b" using split_byte_no_sep [of _ "CHR ''/''" s] unfolding ab(1) by auto
  ultimately show ?thesis using ab(2,3) that by blast
qed

lemma image_name_chars:
  assumes "image_name_valid s" "c \<in> set s"
  shows "is_lower c \<or> c = CHR ''.'' \<or> c = CHR ''-'' \<or> c = CHR ''/''"
  using assms(1)
proof (rule image_name_parts)
  fix a b assume "s = a @ CHR ''/'' # b" "part_ok False a" "part_ok False b"
  then show ?thesis using assms(2) part_ok_chars [of False a c] part_ok_chars [of False b c] by auto
qed

lemma image_name_no_colon: "image_name_valid s \<Longrightarrow> CHR '':'' \<notin> set s"
  using image_name_chars [of s "CHR '':''"] by (auto simp: is_lower_def)

lemma image_match_name: "image_name_valid n \<Longrightarrow> image_match n = Some (n, [])"
  using image_name_no_colon [of n] index_byte_None [of n "CHR '':''"] by (simp add: image_match_def)

lemma image_match_version:
  assumes "image_name_valid n" "CHR '':'' \<notin> set v"
  shows "image_match (n @ '':'' @ ''v'' @ v) = Some (n, ''v'' @ v)"
proof -
  have "index_byte (n @ CHR '':'' # CHR ''v'' # v) CHR '':'' = Some (length n)"
    using image_name_no_colon [OF assms(1)] by simp
  then show ?thesis using assms by (simp add: image_match_def has_prefix_def)
qed

lemma parse_version_string:
  assumes "semver_ok sv"
  shows "parse_version sv (''v'' @ sv_string sv v) = Inr \<lparr>ve_version = v, ve_gitCommit = [], ve_desc = [], ve_createTime = 0\<rparr>"
  using assms by (simp add: parse_version_def version_match_def semver_ok_def)

subsection \<open>Properties\<close>

definition parsed_version :: "'v version \<Rightarrow> bool" where
  "parsed_version v \<longleftrightarrow> ve_gitCommit v = [] \<and> ve_desc v = [] \<and> ve_createTime v = 0"

definition zero_image :: "'v image_t" where
  "zero_image = \<lparr>im_name = [], im_updatePolicy = NoPolicy, im_version = None\<rparr>"

text \<open>
  C25: an image with a valid name is written as JSON, as a text or an object depending on its policy, and read back
  to itself; versions come from \<open>ParseVersion\<close>, which sets nothing but the version.
\<close>

theorem image_json_roundtrip:
  assumes "semver_ok sv" "image_name_valid (im_name i)" "\<forall>v. im_version i = Some v \<longrightarrow> parsed_version v"
  shows "\<exists>j. image_marshal sv i = Inr j \<and> image_unmarshal sv j zero_image = Inr i"
proof -
  have val: "image_validate i = None" using image_match_name [OF assms(2)] by (simp add: image_validate_def)
  have ne: "im_name i \<noteq> []" using assms(2) by (auto simp: image_name_valid_def)
  have pv: "parse_version sv (''v'' @ sv_string sv (ve_version v)) = Inr v" if "im_version i = Some v" for v
    using parse_version_string [OF assms(1), of "ve_version v"] assms(3) that by (cases v) (auto simp: parsed_version_def)
  have nc: "CHR '':'' \<notin> set (sv_string sv v)" for v using assms(1) unfolding semver_ok_def by blast
  show ?thesis
  proof (cases "im_updatePolicy i = NoPolicy")
    case False
    then show ?thesis
      using val ne pv
      by (cases i; cases "im_version i")
        (auto simp: image_marshal_def image_unmarshal_def version_marshal_def zero_image_def)
  next
    case True
    show ?thesis
    proof (cases "im_version i")
      case None
      then show ?thesis
        using True val image_match_name [OF assms(2)]
        by (cases i) (auto simp: image_marshal_def image_unmarshal_def parse_image_name_def)
    next
      case (Some v)
      have m: "image_match (im_name i @ '':'' @ ''v'' @ sv_string sv (ve_version v)) = Some (im_name i, ''v'' @ sv_string sv (ve_version v))"
        by (rule image_match_version [OF assms(2) nc])
      have "parse_image_name sv (im_name i @ '':'' @ version_string sv v) = Inr i"
        unfolding parse_image_name_def version_string_def m using pv [OF Some] Some True by (cases i) simp
      then show ?thesis using True Some val by (auto simp: image_marshal_def image_unmarshal_def)
    qed
  qed
qed

text \<open>A library of versions that are numbers, written in unary.\<close>

definition unary_semver :: "nat semver" where
  "unary_semver = \<lparr>sv_parse = (\<lambda>s. if s \<noteq> [] \<and> set s \<subseteq> {CHR ''1''} then Inr (length s - 1) else Inl ''no number''),
     sv_string = (\<lambda>n. replicate (Suc n) CHR ''1''), sv_lt = (<), sv_equals = (=), sv_build = (\<lambda>n. if n = 0 then [] else [''prd''])\<rparr>"

lemma unary_semver_ok: "semver_ok unary_semver"
  by (auto simp: semver_ok_def unary_semver_def)

definition unary_version :: "nat \<Rightarrow> nat version" where
  "unary_version n = \<lparr>ve_version = n, ve_gitCommit = [], ve_desc = [], ve_createTime = 0\<rparr>"

theorem image_json_roundtrip_witness:
  "\<exists>j. image_marshal unary_semver \<lparr>im_name = ''db/redis'', im_updatePolicy = NoPolicy, im_version = Some (unary_version 2)\<rparr> = Inr j
   \<and> image_unmarshal unary_semver j zero_image = Inr \<lparr>im_name = ''db/redis'', im_updatePolicy = NoPolicy, im_version = Some (unary_version 2)\<rparr>"
  by (rule image_json_roundtrip [OF unary_semver_ok])
    (simp_all add: image_name_valid_def is_lower_def parsed_version_def unary_version_def)

text \<open>
  a version with a single build tag is for no stage, whatever the tag is: the name of a stage is only looked at
  if there is a second one.
\<close>

theorem single_tag_no_stage:
  assumes "sv_build sv (ve_version v) = [tag]" "set ord = set stages" "distinct (map fst ord)"
  shows "get_stage sv ord v = UnknownStage"
proof -
  have "[] \<notin> snd ` set ord" using assms(2) by (auto simp: stages_def)
  then have "parse_stage_loop ord [] = None" by (simp add: parse_stage_loop_None)
  then show ?thesis using assms(1) by (simp add: get_stage_def parse_stage_def)
qed

theorem single_tag_no_stage_witness: "get_stage unary_semver stages (unary_version 1) = UnknownStage"
  by (rule single_tag_no_stage [of _ _ "''prd''"]) (simp_all add: unary_semver_def unary_version_def stages_def stage_defs)

text \<open>What \<open>ParseImageName\<close> returns: a valid name, no policy, and a version that \<open>ParseVersion\<close> made.\<close>

definition image_wf :: "'v image_t \<Rightarrow> bool" where
  "image_wf i \<longleftrightarrow> image_name_valid (im_name i) \<and> im_updatePolicy i = NoPolicy
   \<and> (case im_version i of None \<Rightarrow> True | Some v \<Rightarrow> parsed_version v)"

lemma image_match_Some:
  assumes "image_match s = Some (n, v)"
  shows "image_name_valid n \<and> (v = [] \<and> s = n \<or> v \<noteq> [] \<and> s = n @ '':'' @ v \<and> CHR '':'' \<notin> set v)"
proof (cases "index_byte s CHR '':''")
  case None
  then show ?thesis using assms by (auto simp: image_match_def split: if_splits)
next
  case (Some i)
  have "s = take i s @ CHR '':'' # drop (Suc i) s" using Some unfolding index_byte_Some by (metis id_take_nth_drop)
  moreover have "n = take i s" "v = drop (Suc i) s" "image_name_valid n" "CHR '':'' \<notin> set v" "has_prefix v ''v''"
    using assms Some by (simp_all add: image_match_def Let_def split: if_splits)
  moreover from this(5) have "v \<noteq> []" by (auto simp: has_prefix_def)
  ultimately show ?thesis by simp
qed

lemma parse_version_parsed: "parse_version sv s = Inr v \<Longrightarrow> parsed_version v"
  by (auto simp: parse_version_def parsed_version_def split: if_splits sum.splits)

text \<open>
  C35: an image that \<open>ParseImageName\<close> accepts is well formed and passes \<open>Validate\<close>; the text it was read from is its
  name, or its name, a colon and a text that \<open>ParseVersion\<close> takes to its version.
\<close>

theorem parsed_image_valid:
  assumes "parse_image_name sv s = Inr i"
  shows "image_wf i \<and> image_validate i = None
   \<and> (case im_version i of None \<Rightarrow> s = im_name i
      | Some v \<Rightarrow> \<exists>ver. s = im_name i @ '':'' @ ver \<and> parse_version sv ver = Inr v)"
proof -
  obtain n ver where m: "image_match s = Some (n, ver)"
    using assms by (auto simp: parse_image_name_def split: option.splits)
  note wf = image_match_Some [OF m]
  show ?thesis
  proof (cases "ver = []")
    case True
    then have "i = \<lparr>im_name = n, im_updatePolicy = NoPolicy, im_version = None\<rparr>"
      using assms m by (simp add: parse_image_name_def)
    then show ?thesis using wf True by (simp add: image_wf_def image_validate_def image_match_name)
  next
    case False
    then obtain v where v: "parse_version sv ver = Inr v" "i = \<lparr>im_name = n, im_updatePolicy = NoPolicy, im_version = Some v\<rparr>"
      using assms m by (auto simp: parse_image_name_def split: sum.splits)
    then show ?thesis using wf False parse_version_parsed [OF v(1)]
      by (auto simp: image_wf_def image_validate_def image_match_name)
  qed
qed

theorem parsed_image_valid_witness:
  "image_wf \<lparr>im_name = ''db/redis'', im_updatePolicy = NoPolicy, im_version = Some (unary_version 2)\<rparr>"
  by (rule conjunct1 [OF parsed_image_valid [of unary_semver "''db/redis:v111''"]])
    (simp add: parse_image_name_def image_match_def image_name_valid_def is_lower_def has_prefix_def
      parse_version_def version_match_def unary_semver_def unary_version_def)

end
