(* ===== verification/Image_Repo.thy ===== *)
theory Image_Repo
  imports Images "HOL-Library.Multiset"
begin

text \<open>
  The local repositories of images and what an agent does to deploy one (\<open>deploy/image/repo.go\<close>,
  \<open>deploy/deploy/deploy.go\<close>).

  Git and the file system are a record of operations on a state \<open>'g\<close>; an open repository is named by its path.
\<close>

subsection \<open>Git and the file system\<close>

datatype git_error = GitNotExist | GitError bytes

datatype file_stat = StatExists | StatNotExist | StatError bytes

record remote_config =
  rc_name :: bytes
  rc_urls :: "bytes list"
  rc_fetch :: "bytes list"

record commit_info =
  ci_when :: int
  ci_author :: bytes
  ci_authorWhen :: int
  ci_message :: bytes

record ('g, 'w) git_ops =
  gi_glob :: "bytes \<Rightarrow> 'g \<Rightarrow> git_error + bytes list"
  gi_open :: "bytes \<Rightarrow> 'g \<Rightarrow> git_error option"
  gi_tags :: "bytes \<Rightarrow> 'g \<Rightarrow> git_error + (bytes \<times> bytes) list"
  gi_commit :: "bytes \<Rightarrow> bytes \<Rightarrow> 'g \<Rightarrow> commit_info option"
  gi_stat :: "bytes \<Rightarrow> 'g \<Rightarrow> file_stat"
  gi_init :: "bytes \<Rightarrow> 'g \<Rightarrow> 'g \<times> git_error option"
  gi_config :: "bytes \<Rightarrow> 'g \<Rightarrow> git_error + (bytes, remote_config) gmap"
  gi_validRemote :: "remote_config \<Rightarrow> git_error option"
  gi_setConfig :: "bytes \<Rightarrow> (bytes, remote_config) gmap \<Rightarrow> 'g \<Rightarrow> 'g"
  gi_fetch :: "bytes \<Rightarrow> bytes \<Rightarrow> int \<Rightarrow> 'g \<Rightarrow> 'g \<times> git_error option"
  gi_switch :: "bytes \<Rightarrow> bytes \<Rightarrow> 'g \<Rightarrow> git_error + 'w"
  gi_worktrees :: "bytes \<Rightarrow> 'g \<Rightarrow> git_error + bytes list"
  gi_newWorktree :: "bytes \<Rightarrow> bytes \<Rightarrow> bytes \<Rightarrow> 'g \<Rightarrow> 'g \<times> git_error option"

datatype repo_error =
  BareError git_error | NameError image_error | OpenError git_error | TagsError git_error | StatGitError bytes
| InitError git_error | ConfigError git_error | RemoteError git_error | FetchError git_error
| ImageVersionNotExist | ImageCanntEmpty | WorktreeNotClean | NoVersionInfo bytes | UnknownDeployPolicy

subsection \<open>The store of repositories\<close>

text \<open>The variables of the package that \<open>init\<close> sets.\<close>

record repo_env =
  en_repoBase :: bytes
  en_releaseTag :: bytes
  en_fetchSpec :: "bytes list"

definition localBase :: bytes where "localBase = ''/data/repos/''"
definition imageBase :: bytes where "imageBase = ''images''"
definition chartsBase :: bytes where "chartsBase = ''charts''"

definition release_stages :: "bytes list" where
  "release_stages = [''dev'', ''test'', ''int'', ''prod'']"

definition fetch_ref :: "bytes \<Rightarrow> bytes" where
  "fetch_ref st = ''+refs/tags/'' @ st @ ''/*:refs/origin/tags/'' @ st @ ''/*''"

fun stage_index :: "bytes \<Rightarrow> nat \<Rightarrow> bytes list \<Rightarrow> nat" where
  "stage_index tag i [] = 0"
| "stage_index tag i (v # vs) = (if v = tag then i else stage_index tag (Suc i) vs)"

definition repo_init :: "bytes \<Rightarrow> bytes \<Rightarrow> repo_env" where
  "repo_init repoENV releaseStag =
     (let base = (if has_prefix repoENV ''git@'' then repoENV else ''git@repo.we.com'');
          idx = stage_index releaseStag 0 release_stages;
          fetchSpec = map fetch_ref (drop idx release_stages);
          fetchSpec = (if length fetchSpec = 0 then [fetch_ref ''prod''] else fetchSpec)
      in \<lparr>en_repoBase = base, en_releaseTag = releaseStag, en_fetchSpec = fetchSpec\<rparr>)"

record git_store =
  gs_localRepoBase :: bytes
  gs_maxHistory :: int
  gs_autoUpdateInterval :: int
  gs_defaultTimeout :: int

definition new_git_store :: git_store where
  "new_git_store = \<lparr>gs_localRepoBase = [], gs_maxHistory = 0, gs_autoUpdateInterval = 0, gs_defaultTimeout = 0\<rparr>"

definition get_charts_path :: "bytes \<Rightarrow> bytes" where
  "get_charts_path name = path_join [localBase, chartsBase, name @ ''.git'']"

definition get_charts_repo :: "bytes \<Rightarrow> bytes" where
  "get_charts_repo name = localBase @ '':'' @ chartsBase @ ''/'' @ name @ ''.git''"

definition get_image_path :: "repo_env \<Rightarrow> bytes \<Rightarrow> bytes" where
  "get_image_path env name = path_join [localBase, en_repoBase env, name @ ''.git'']"

definition get_image_repo :: "repo_env \<Rightarrow> bytes \<Rightarrow> bytes" where
  "get_image_repo env name = en_repoBase env @ '':'' @ imageBase @ ''/'' @ name @ ''.git''"

text \<open>\<open>List\<close>: the names are cut out of the paths with \<open>TrimLeft\<close> and \<open>TrimRight\<close>, which take sets of characters.\<close>

definition list_name :: "bytes \<Rightarrow> bytes \<Rightarrow> bytes" where
  "list_name path v = trim_right (trim_left v path) ''.git''"

definition repo_list :: "('g, 'w) git_ops \<Rightarrow> 'g \<Rightarrow> repo_error + bytes list" where
  "repo_list gi g =
     (let path = path_join [localBase, chartsBase] in
      case gi_glob gi (path @ ''/*/*.git'') g of
        Inl err \<Rightarrow> Inl (BareError err)
      | Inr paths \<Rightarrow> Inr (map (list_name path) paths))"

record 'v info =
  if_name :: bytes
  if_version :: "'v version"
  if_commitID :: bytes
  if_createDate :: int
  if_author :: bytes
  if_authorDate :: int
  if_size :: nat
  if_msg :: bytes
  if_deployCount :: int

text \<open>\<open>Less\<close> of \<open>byVersion\<close>; \<open>sort.Sort\<close> is a parameter.\<close>

definition by_version_less :: "'v semver \<Rightarrow> 'v info \<Rightarrow> 'v info \<Rightarrow> bool" where
  "by_version_less sv a b \<longleftrightarrow> \<not> version_lt sv (if_version a) (if_version b)"

text \<open>The function that is called for each tag: what it has put together is not appended to the result.\<close>

definition tag_callback ::
  "('g, 'w) git_ops \<Rightarrow> 'v semver \<Rightarrow> bytes \<Rightarrow> bytes \<Rightarrow> 'g \<Rightarrow> 'v info list \<Rightarrow> bytes \<times> bytes \<Rightarrow> 'v info list" where
  "tag_callback gi sv name path g ret tag =
     (case tag of (refname, hash) \<Rightarrow>
        (let n = trim_left refname ''refs/tags/'' in
         case parse_version sv n of
           Inl err \<Rightarrow> ret
         | Inr ver \<Rightarrow>
             (case gi_commit gi path hash g of
                None \<Rightarrow> ret
              | Some co \<Rightarrow>
                  (let e = \<lparr>if_name = name, if_version = ver, if_commitID = hash, if_createDate = ci_when co,
                            if_author = ci_author co, if_authorDate = ci_authorWhen co, if_size = 0,
                            if_msg = ci_message co, if_deployCount = 0\<rparr>
                   in ret))))"

definition repo_info ::
  "('g, 'w) git_ops \<Rightarrow> 'v semver \<Rightarrow> (('v info \<Rightarrow> 'v info \<Rightarrow> bool) \<Rightarrow> 'v info list \<Rightarrow> 'v info list)
     \<Rightarrow> bytes \<Rightarrow> 'g \<Rightarrow> 'v info list \<times> repo_error option" where
  "repo_info gi sv sort_by name g =
     (case image_name_validate name of
        Some err \<Rightarrow> ([], Some (NameError err))
      | None \<Rightarrow>
          (let path = path_join [localBase, chartsBase, name @ ''.git''] in
           case gi_open gi path g of
             Some err \<Rightarrow> ([], Some (OpenError err))
           | None \<Rightarrow>
               (case gi_tags gi path g of
                  Inl err \<Rightarrow> ([], Some (TagsError err))
                | Inr rfs \<Rightarrow> (sort_by (by_version_less sv) (foldl (tag_callback gi sv name path g) [] rfs), None))))"

text \<open>The repository is opened and fetched from; it is set up before if it is not there.\<close>

definition init_repo :: "('g, 'w) git_ops \<Rightarrow> repo_env \<Rightarrow> bytes \<Rightarrow> bytes \<Rightarrow> 'g \<Rightarrow> 'g \<times> repo_error option" where
  "init_repo gi env url path g =
     (case gi_init gi path g of
        (g, Some err) \<Rightarrow> (g, Some (InitError err))
      | (g, None) \<Rightarrow>
          (case gi_config gi path g of
             Inl err \<Rightarrow> (g, Some (ConfigError err))
           | Inr remotes \<Rightarrow>
               (let rcfg = \<lparr>rc_name = ''origin'', rc_urls = [url], rc_fetch = en_fetchSpec env\<rparr> in
                case gi_validRemote gi rcfg of
                  Some err \<Rightarrow> (g, Some (RemoteError err))
                | None \<Rightarrow>
                    (let remotes = (case remotes of None \<Rightarrow> fmempty | Some rs \<Rightarrow> rs)
                     in (gi_setConfig gi path (Some (fmupd (rc_name rcfg) rcfg remotes)) g, None)))))"

definition fetch_repo :: "('g, 'w) git_ops \<Rightarrow> git_store \<Rightarrow> bytes \<Rightarrow> 'g \<Rightarrow> 'g \<times> repo_error option" where
  "fetch_repo gi gs path g =
     (case gi_open gi path g of
        Some err \<Rightarrow> (g, Some (OpenError err))
      | None \<Rightarrow>
          (case gi_fetch gi path ''origin'' (gs_maxHistory gs) g of
             (g, Some err) \<Rightarrow> (g, Some (FetchError err))
           | (g, None) \<Rightarrow> (g, None)))"

definition update_from_remote ::
  "('g, 'w) git_ops \<Rightarrow> repo_env \<Rightarrow> git_store \<Rightarrow> bytes \<Rightarrow> bytes \<Rightarrow> 'g \<Rightarrow> 'g \<times> repo_error option" where
  "update_from_remote gi env gs url path g =
     (case gi_stat gi path g of
        StatError err \<Rightarrow> (g, Some (StatGitError err))
      | StatExists \<Rightarrow> fetch_repo gi gs path g
      | StatNotExist \<Rightarrow>
          (case init_repo gi env url path g of
             (g, Some err) \<Rightarrow> (g, Some err)
           | (g, None) \<Rightarrow> fetch_repo gi gs path g))"

definition repo_update :: "('g, 'w) git_ops \<Rightarrow> repo_env \<Rightarrow> git_store \<Rightarrow> bytes \<Rightarrow> 'g \<Rightarrow> 'g \<times> repo_error option" where
  "repo_update gi env gs name g =
     (case image_name_validate name of
        Some err \<Rightarrow> (g, Some (NameError err))
      | None \<Rightarrow>
          (case update_from_remote gi env gs (get_charts_repo name) (get_charts_path name) g of
             (g, Some err) \<Rightarrow> (g, Some err)
           | (g, None) \<Rightarrow> update_from_remote gi env gs (get_image_repo env name) (get_image_path env name) g))"

definition repo_worktree :: "('g, 'w) git_ops \<Rightarrow> repo_env \<Rightarrow> bytes \<Rightarrow> bytes \<Rightarrow> 'g \<Rightarrow> repo_error + 'w" where
  "repo_worktree gi env name wtname g =
     (let path = get_image_path env name in
      case gi_open gi path g of
        Some err \<Rightarrow> Inl (BareError err)
      | None \<Rightarrow> (case gi_switch gi path wtname g of Inl err \<Rightarrow> Inl (BareError err) | Inr w \<Rightarrow> Inr w))"

definition repo_worktrees :: "('g, 'w) git_ops \<Rightarrow> repo_env \<Rightarrow> bytes \<Rightarrow> 'g \<Rightarrow> repo_error + bytes list" where
  "repo_worktrees gi env name g =
     (let path = get_image_path env name in
      case gi_open gi path g of
        Some err \<Rightarrow> Inl (BareError err)
      | None \<Rightarrow> (case gi_worktrees gi path g of Inl err \<Rightarrow> Inl (BareError err) | Inr ws \<Rightarrow> Inr ws))"

definition repo_new_worktree ::
  "('g, 'w) git_ops \<Rightarrow> repo_env \<Rightarrow> bytes \<Rightarrow> bytes \<Rightarrow> bytes \<Rightarrow> 'g \<Rightarrow> 'g \<times> (repo_error + 'w)" where
  "repo_new_worktree gi env name wtname path g =
     (let gitPath = get_image_path env name in
      case gi_open gi gitPath g of
        Some err \<Rightarrow> (g, Inl (BareError err))
      | None \<Rightarrow>
          (case gi_newWorktree gi gitPath wtname path g of
             (g, Some err) \<Rightarrow> (g, Inl (BareError err))
           | (g, None) \<Rightarrow> (g, repo_worktree gi env name wtname g)))"

definition repo_delete :: "bytes \<Rightarrow> 'g \<Rightarrow> 'g \<times> repo_error option" where
  "repo_delete name g = (g, None)"

subsection \<open>Properties\<close>

lemma charts_path: "path_join [localBase, chartsBase] = ''/data/repos/charts''"
  by (simp add: path_join_def localBase_def chartsBase_def path_clean_def clean_step_def Let_def)

lemma trim_right_git: "trim_right (s @ ''.git'') ''.git'' = trim_right s ''.git''"
  by (simp add: trim_right_def)

lemma length_trim_right: "length (trim_right s cs) \<le> length s"
  using length_dropWhile_le [of _ "rev s"] by (simp add: trim_right_def)

lemma trim_right_id: "s \<noteq> [] \<Longrightarrow> trim_right s cs = s \<longleftrightarrow> last s \<notin> set cs"
proof (induction s rule: rev_induct)
  case (snoc x s)
  have "trim_right (s @ [x]) cs = (if x \<in> set cs then trim_right s cs else s @ [x])" by (simp add: trim_right_def)
  moreover have "trim_right s cs \<noteq> s @ [x]" using length_trim_right [of s cs] by auto
  ultimately show ?case by simp
qed simp

text \<open>
  \<open>List\<close> finds the name of an image again exactly if the name neither begins with a character of the directory
  nor ends with one of \<open>.git\<close>.
\<close>

theorem list_name_exact:
  assumes "name \<noteq> []"
  shows "list_name (path_join [localBase, chartsBase]) (path_join [localBase, chartsBase] @ ''/'' @ name @ ''.git'') = name
    \<longleftrightarrow> hd name \<notin> set ''/data/repos/charts'' \<and> last name \<notin> set ''.git''"
proof -
  let ?p = "''/data/repos/charts''" and ?in = "\<lambda>c. c \<in> set ''/data/repos/charts''"
  have "trim_left (?p @ ''/'' @ name @ ''.git'') ?p = dropWhile ?in (name @ ''.git'')"
    by (simp add: trim_left_def)
  also have "\<dots> = dropWhile ?in name @ ''.git''" 
    by (induction name) auto
  finally have e: "list_name ?p (?p @ ''/'' @ name @ ''.git'') = trim_right (dropWhile ?in name) ''.git''"
    unfolding list_name_def by (simp only: trim_right_git)
  show ?thesis
  proof (cases "hd name \<in> set ?p")
    case True
    then have "length (dropWhile ?in name) < length name"
      using assms length_dropWhile_le [of ?in "tl name"] by (cases name) (auto simp: less_Suc_eq_le)
    then have "trim_right (dropWhile ?in name) ''.git'' \<noteq> name"
      using length_trim_right [of "dropWhile ?in name" "''.git''"] by (metis leD)
    then show ?thesis unfolding charts_path e using True by blast
  next
    case False
    then have "dropWhile ?in name = name" using assms by (cases name) auto
    then show ?thesis unfolding charts_path e using False trim_right_id [OF assms] by simp
  qed
qed

theorem list_name_exact_witness:
  "list_name (path_join [localBase, chartsBase]) (path_join [localBase, chartsBase] @ ''/'' @ ''db/redis'' @ ''.git'') \<noteq> ''db/redis''"
  using list_name_exact [of "''db/redis''"] by simp

text \<open>\<open>Info\<close> fails or gives an empty list, whatever tags there are.\<close>

lemma tag_callbacks: "foldl (tag_callback gi sv name path g) ret tags = ret"
  by (induction tags) (auto simp: tag_callback_def Let_def split: sum.splits option.splits)

lemma repo_info_empty:
  assumes "\<And>less xs. mset (sort_by less xs) = mset xs"
  shows "fst (repo_info gi sv sort_by name g) = []"
proof -
  have "sort_by (by_version_less sv) [] = []" using assms [of "by_version_less sv" "[]"] by simp
  then show ?thesis by (simp add: repo_info_def tag_callbacks Let_def split: option.splits sum.splits)
qed

end
