(* ===== verification/Agent_Deploy.thy ===== *)
theory Agent_Deploy
  imports Image_Repo
begin

text \<open>
  Deploying on a host (\<open>deploy/deploy/deploy.go\<close>) over the interface of images, \<open>image.Manager\<close>, which is a record
  of operations; the store of repositories is made one.  It is shown that with it no deployment ever succeeds,
  because \<open>Info\<close> never reports a version.
\<close>

subsection \<open>The interface\<close>

record ('g, 'w, 'v) image_manager =
  mg_update :: "bytes \<Rightarrow> 'g \<Rightarrow> 'g \<times> repo_error option"
  mg_info :: "bytes \<Rightarrow> 'g \<Rightarrow> 'v info list \<times> repo_error option"
  mg_worktree :: "bytes \<Rightarrow> bytes \<Rightarrow> 'g \<Rightarrow> repo_error + 'w"
  mg_newWorktree :: "bytes \<Rightarrow> bytes \<Rightarrow> bytes \<Rightarrow> 'g \<Rightarrow> 'g \<times> (repo_error + 'w)"

definition store_manager ::
  "('g, 'w) git_ops \<Rightarrow> repo_env \<Rightarrow> git_store \<Rightarrow> 'v semver \<Rightarrow> (('v info \<Rightarrow> 'v info \<Rightarrow> bool) \<Rightarrow> 'v info list \<Rightarrow> 'v info list)
     \<Rightarrow> ('g, 'w, 'v) image_manager" where
  "store_manager gi env gs sv sort_by = \<lparr>mg_update = repo_update gi env gs, mg_info = repo_info gi sv sort_by,
     mg_worktree = repo_worktree gi env, mg_newWorktree = repo_new_worktree gi env\<rparr>"

text \<open>The operations on a worktree and the file system.\<close>

record ('g, 'w) worktree_ops =
  wo_clean :: "'w \<Rightarrow> 'g \<Rightarrow> repo_error + bool"
  wo_reset :: "'w \<Rightarrow> bytes \<Rightarrow> 'g \<Rightarrow> 'g \<times> repo_error option"
  wo_evalSymlinks :: "bytes \<Rightarrow> 'g \<Rightarrow> repo_error + bytes"

subsection \<open>Versions of an image\<close>

definition image_exist :: "'v semver \<Rightarrow> ('g, 'w, 'v) image_manager \<Rightarrow> 'v image_t \<Rightarrow> 'g \<Rightarrow> repo_error option" where
  "image_exist sv mg im g =
     (case mg_info mg (im_name im) g of
        (infs, err) \<Rightarrow>
          if length infs = 0 \<and> err \<noteq> None then err
          else
            (let err = (case err of None \<Rightarrow> Some ImageVersionNotExist | Some x \<Rightarrow> Some x) in
             if length infs = 0 then err
             else (case im_version im of
                     None \<Rightarrow> None
                   | Some v \<Rightarrow> if list_ex (\<lambda>vi. version_eq sv (if_version vi) v) infs then None else err)))"

definition pull_image :: "'v semver \<Rightarrow> ('g, 'w, 'v) image_manager \<Rightarrow> 'v image_t option \<Rightarrow> 'g \<Rightarrow> 'g \<times> repo_error option" where
  "pull_image sv mg im g =
     (case im of
        None \<Rightarrow> (g, Some ImageCanntEmpty)
      | Some im \<Rightarrow>
          (let err = image_exist sv mg im g in
           if im_updatePolicy im = AlwaysUpdate \<or> err \<noteq> None then
             (case mg_update mg (im_name im) g of
                (g, Some err) \<Rightarrow> (g, Some err)
              | (g, None) \<Rightarrow> (g, image_exist sv mg im g))
           else (g, image_exist sv mg im g)))"

text \<open>\<open>getLatestVersion\<close> looks from the end of the list; the stage is compared as a number.\<close>

definition get_latest_version ::
  "'v semver \<Rightarrow> (stage \<times> string) list \<Rightarrow> ('g, 'w, 'v) image_manager \<Rightarrow> bytes \<Rightarrow> stage \<Rightarrow> 'g \<Rightarrow> repo_error + 'v version option" where
  "get_latest_version sv ord mg name st g =
     (case mg_info mg name g of
        (infs, Some err) \<Rightarrow> Inl err
      | (infs, None) \<Rightarrow>
          if length infs = 0 then Inl (NoVersionInfo name)
          else Inr (map_option if_version (find (\<lambda>i. st \<le> get_stage sv ord (if_version i)) (rev infs))))"

text \<open>
  \<open>getVersion\<close> sets the version of the image if it had none; the text of a nil version panics, as does a nil image.
\<close>

definition get_version ::
  "'v semver \<Rightarrow> (stage \<times> string) list \<Rightarrow> ('g, 'w, 'v) image_manager \<Rightarrow> stage \<Rightarrow> 'v image_t option \<Rightarrow> 'g
     \<Rightarrow> (repo_error + bytes \<times> 'v image_t) go" where
  "get_version sv ord mg st im g =
     (case im of
        None \<Rightarrow> None
      | Some im \<Rightarrow>
          (case im_version im of
             Some v \<Rightarrow> Some (Inr (version_string sv v, im))
           | None \<Rightarrow>
               (case get_latest_version sv ord mg (im_name im) st g of
                  Inl err \<Rightarrow> Some (Inl err)
                | Inr v \<Rightarrow>
                    (let im = im\<lparr>im_version := v\<rparr> in
                     case v of None \<Rightarrow> None | Some v \<Rightarrow> Some (Inr (version_string sv v, im))))))"

subsection \<open>The worktree of a deployment\<close>

text \<open>A worktree that does not exist is made.\<close>

definition ensure_wt ::
  "('g, 'w, 'v) image_manager \<Rightarrow> bytes \<Rightarrow> bytes \<Rightarrow> bytes \<Rightarrow> 'g \<Rightarrow> 'g \<times> (repo_error + 'w)" where
  "ensure_wt mg img name path g =
     (case mg_worktree mg img name g of
        Inl (BareError GitNotExist) \<Rightarrow> mg_newWorktree mg img name path g
      | wa \<Rightarrow> (g, wa))"

definition Inplace :: string where "Inplace = ''inplace''"
definition ABWorld :: string where "ABWorld = ''abworld''"
definition Versioned :: string where "Versioned = ''versioned''"

text \<open>\<open>getWorktree\<close> gives the image as well, whose version it may have set.\<close>

definition get_worktree ::
  "'v semver \<Rightarrow> (stage \<times> string) list \<Rightarrow> ('g, 'w, 'v) image_manager \<Rightarrow> ('g, 'w) worktree_ops \<Rightarrow> stage
     \<Rightarrow> ('f, 's) deploy_config \<Rightarrow> 'v image_t \<Rightarrow> 'g \<Rightarrow> ('g \<times> (repo_error + 'w) \<times> 'v image_t) go" where
  "get_worktree sv ord mg wo st dc im g =
     (let dd = dc_deploy_dir dc; name = dc_name dc in
      if dc_deployPolicy dc = Inplace then
        (case ensure_wt mg (im_name im) name (path_join [dd, name]) g of (g, w) \<Rightarrow> Some (g, w, im))
      else if dc_deployPolicy dc = ABWorld then
        (let a = name @ ''-A''; b = name @ ''-B'' in
         case ensure_wt mg (im_name im) a (path_join [dd, a]) g of
           (g, Inl err) \<Rightarrow> Some (g, Inl err, im)
         | (g, Inr wa) \<Rightarrow>
             (case ensure_wt mg (im_name im) b (path_join [dd, b]) g of
                (g, Inl err) \<Rightarrow> Some (g, Inl err, im)
              | (g, Inr wb) \<Rightarrow>
                  (case wo_evalSymlinks wo (path_join [dd, name]) g of
                     Inl err \<Rightarrow> Some (g, Inl err, im)
                   | Inr r \<Rightarrow> Some (g, Inr (if path_base r = a then wb else wa), im))))
      else if dc_deployPolicy dc = Versioned then
        (case get_version sv ord mg st (Some im) g of
           None \<Rightarrow> None
         | Some (Inl err) \<Rightarrow> Some (g, Inl err, im)
         | Some (Inr (ver, im)) \<Rightarrow>
             (let a = name @ ''-'' @ ver in
              case ensure_wt mg (im_name im) a (path_join [dd, a]) g of (g, w) \<Rightarrow> Some (g, w, im)))
      else Some (g, Inl UnknownDeployPolicy, im))"

text \<open>\<open>generateConfig\<close> is not written yet.\<close>

definition generate_config :: "'g \<Rightarrow> 'g \<times> repo_error option" where
  "generate_config g = (g, None)"

definition agent_deploy ::
  "'v semver \<Rightarrow> (stage \<times> string) list \<Rightarrow> ('g, 'w, 'v) image_manager \<Rightarrow> ('g, 'w) worktree_ops \<Rightarrow> stage
     \<Rightarrow> (('f, 's) deploy_config \<times> 'v image_t option) option \<Rightarrow> 'g \<Rightarrow> ('g \<times> repo_error option) go" where
  "agent_deploy sv ord mg wo st dc g =
     (case dc of
        None \<Rightarrow> Some (g, None)
      | Some (dc, im) \<Rightarrow>
          (case pull_image sv mg im g of
             (g, Some err) \<Rightarrow> Some (g, Some err)
           | (g, None) \<Rightarrow>
               (case im of
                  None \<Rightarrow> None
                | Some im \<Rightarrow>
                    (case get_worktree sv ord mg wo st dc im g of
                       None \<Rightarrow> None
                     | Some (g, Inl err, im) \<Rightarrow> Some (g, Some err)
                     | Some (g, Inr wt, im) \<Rightarrow>
                         (case wo_clean wo wt g of
                            Inl err \<Rightarrow> Some (g, Some err)
                          | Inr False \<Rightarrow> Some (g, Some WorktreeNotClean)
                          | Inr True \<Rightarrow>
                              (case generate_config g of
                                 (g, Some err) \<Rightarrow> Some (g, Some err)
                               | (g, None) \<Rightarrow>
                                   (case im_version im of
                                      None \<Rightarrow> None
                                    | Some v \<Rightarrow> Some (wo_reset wo wt (version_string sv v) g))))))))"

subsection \<open>Properties\<close>

lemma image_exist_empty: "fst (mg_info mg (im_name im) g) = [] \<Longrightarrow> image_exist sv mg im g \<noteq> None"
  by (auto simp: image_exist_def split: prod.splits)

lemma image_exist_None:
  assumes "image_exist sv mg im g = None" "im_version im = Some v"
  shows "\<exists>vi \<in> set (fst (mg_info mg (im_name im) g)). version_eq sv (if_version vi) v"
  using assms by (auto simp: image_exist_def list_ex_iff Let_def split: prod.splits if_splits option.splits)

lemma pull_image_None:
  assumes "pull_image sv mg im g = (g', None)"
  shows "\<exists>i. im = Some i \<and> image_exist sv mg i g' = None"
  using assms by (auto simp: pull_image_def Let_def split: option.splits prod.splits if_splits)

text \<open>
  C19: with the store of repositories no deployment of a configuration ever succeeds: every call ends with an error,
  and never in a panic, since no version of any image is found, even after the image was updated.
\<close>

theorem store_never_deploys:
  assumes "\<And>less xs. mset (sort_by less xs) = mset xs"
  shows "\<exists>g' err. agent_deploy sv ord (store_manager gi env gs sv sort_by) wo st (Some (dc, im)) g = Some (g', Some err)"
proof -
  let ?mg = "store_manager gi env gs sv sort_by"
  have "image_exist sv ?mg i g1 \<noteq> None" for i g1
    using repo_info_empty [of sort_by gi sv] assms by (intro image_exist_empty) (simp add: store_manager_def)
  then have "snd (pull_image sv ?mg im g) \<noteq> None"
    using pull_image_None [of sv ?mg im g] by (metis prod.collapse)
  then obtain g' err where "pull_image sv ?mg im g = (g', Some err)" by (metis option.exhaust prod.collapse)
  then show ?thesis by (simp add: agent_deploy_def)
qed

definition redis_config :: "(unit, unit) deploy_config" where
  "redis_config = \<lparr>dc_type = ''db'', dc_name = ''redis'', dc_numOfInstance = 1, dc_serviceType = [], dc_stage = Dev,
     dc_maxInstancesPerNode = 0, dc_imageVersion = Some ''v1'', dc_deployDir = [], dc_values = [], dc_deployPolicy = ABWorld, dc_labels = [], dc_Selector = [],
     dc_selector = None, dc_resourceQuota = None, dc_resourceRequired = None, dc_restartPolicy = None, dc_updatePolicy = None\<rparr>"

theorem store_never_deploys_witness:
  "\<exists>g' err. agent_deploy unary_semver stages
      (store_manager \<lparr>gi_glob = (\<lambda>p g. Inr []), gi_open = (\<lambda>p g. None), gi_tags = (\<lambda>p g. Inr [(''refs/tags/v1'', ''abc'')]),
         gi_commit = (\<lambda>p h g. None), gi_stat = (\<lambda>p g. StatExists), gi_init = (\<lambda>p g. (g, None)),
         gi_config = (\<lambda>p g. Inr None), gi_validRemote = (\<lambda>r. None), gi_setConfig = (\<lambda>p c g. g),
         gi_fetch = (\<lambda>p r d g. (g, None)), gi_switch = (\<lambda>p n g. Inr n), gi_worktrees = (\<lambda>p g. Inr []),
         gi_newWorktree = (\<lambda>p n d g. (g, None))\<rparr> (repo_init [] []) new_git_store unary_semver (\<lambda>less xs. xs))
      \<lparr>wo_clean = (\<lambda>w g. Inr True), wo_reset = (\<lambda>w v g. (g, None)), wo_evalSymlinks = (\<lambda>p g. Inr p)\<rparr> Dev
      (Some (redis_config, Some \<lparr>im_name = ''db/redis'', im_updatePolicy = NoPolicy, im_version = Some (unary_version 0)\<rparr>)) ()
    = Some (g', Some err)"
  by (rule store_never_deploys) simp

text \<open>
  Over other managers of images a deployment that succeeds has found the version of the image in the repository, if one
  was given, and has reset a clean worktree to a version, the given one unless the policy chose it.  With the store it never
  succeeds.
\<close>

theorem deploy_success:
  assumes "agent_deploy sv ord mg wo st (Some (dc, im)) g = Some (g', None)"
  shows "\<exists>i g1 g2 wt v. im = Some i \<and> pull_image sv mg im g = (g1, None)
    \<and> wo_clean wo wt g2 = Inr True \<and> wo_reset wo wt (version_string sv v) g2 = (g', None)
    \<and> (\<forall>w. im_version i = Some w \<longrightarrow> v = w \<and> (\<exists>vi \<in> set (fst (mg_info mg (im_name i) g1)). version_eq sv (if_version vi) w))"
proof -
  obtain g1 r where pr: "pull_image sv mg im g = (g1, r)" by (cases "pull_image sv mg im g")
  then have p: "pull_image sv mg im g = (g1, None)" using assms by (cases r) (simp_all add: agent_deploy_def)
  then obtain i where i: "im = Some i" "image_exist sv mg i g1 = None" using pull_image_None [OF p] by blast
  obtain g2 wt i' where w: "get_worktree sv ord mg wo st dc i g1 = Some (g2, Inr wt, i')"
    using assms p i(1) unfolding agent_deploy_def
    by (cases "get_worktree sv ord mg wo st dc i g1") (simp_all split: sum.splits prod.splits)
  then have c: "wo_clean wo wt g2 = Inr True" "\<exists>v. im_version i' = Some v \<and> wo_reset wo wt (version_string sv v) g2 = (g', None)"
    using assms p i(1) unfolding agent_deploy_def generate_config_def
    by (simp_all split: option.splits sum.splits bool.splits)
  have "im_version i' = Some v" if "im_version i = Some v" for v
    using w that by (auto simp: get_worktree_def get_version_def Let_def split: if_splits prod.splits sum.splits option.splits)
  then show ?thesis using p i c image_exist_None [OF i(2)] by fastforce
qed

definition unary_info :: "nat \<Rightarrow> nat info" where
  "unary_info n = \<lparr>if_name = ''db/redis'', if_version = unary_version n, if_commitID = [], if_createDate = 0, if_author = [],
     if_authorDate = 0, if_size = 0, if_msg = [], if_deployCount = 0\<rparr>"

definition unary_manager :: "(unit, bytes, nat) image_manager" where
  "unary_manager = \<lparr>mg_update = (\<lambda>n g. (g, None)), mg_info = (\<lambda>n g. ([unary_info 2, unary_info 1], None)),
     mg_worktree = (\<lambda>n w g. Inr w), mg_newWorktree = (\<lambda>n w p g. (g, Inr w))\<rparr>"

definition clean_worktrees :: "(unit, bytes) worktree_ops" where
  "clean_worktrees = \<lparr>wo_clean = (\<lambda>w g. Inr True), wo_reset = (\<lambda>w v g. (g, None)), wo_evalSymlinks = (\<lambda>p g. Inr p)\<rparr>"

theorem deploy_success_witness:
  "\<exists>vi \<in> set (fst (mg_info unary_manager ''db/redis'' ())). version_eq unary_semver (if_version vi) (unary_version 2)"
proof -
  let ?im = "\<lparr>im_name = ''db/redis'', im_updatePolicy = NoPolicy, im_version = Some (unary_version 2)\<rparr>"
  have "image_exist unary_semver unary_manager ?im () = None"
    by (simp add: image_exist_def unary_manager_def version_eq_def unary_semver_def unary_info_def)
  then have "agent_deploy unary_semver stages unary_manager clean_worktrees Dev
      (Some (redis_config\<lparr>dc_deployPolicy := Inplace\<rparr>, Some ?im)) () = Some ((), None)"
    by (simp add: agent_deploy_def pull_image_def get_worktree_def ensure_wt_def generate_config_def redis_config_def
        unary_manager_def clean_worktrees_def)
  from deploy_success [OF this] show ?thesis by auto
qed

text \<open>
  \<open>getLatestVersion\<close>, given versions in the descending order that \<open>Info\<close> promises, finds the oldest version for
  the stage: no version for it is below the one that is returned.
\<close>

theorem latest_is_oldest:
  assumes "semver_ok sv" "mg_info mg name g = (infs, None)" "sorted_wrt (by_version_less sv) infs"
    "get_latest_version sv ord mg name st g = Inr (Some v)"
  shows "st \<le> get_stage sv ord v \<and> (\<forall>i \<in> set infs. st \<le> get_stage sv ord (if_version i) \<longrightarrow> \<not> version_lt sv (if_version i) v)"
proof -
  let ?P = "\<lambda>i. st \<le> get_stage sv ord (if_version i)"
  obtain i where i: "find ?P (rev infs) = Some i" "if_version i = v"
    using assms(2,4) by (auto simp: get_latest_version_def split: if_splits)
  obtain k where k: "k < length infs" "i = rev infs ! k" "?P i" "\<forall>j < k. \<not> ?P (rev infs ! j)"
    using i(1) by (auto simp: find_Some_iff)
  have "\<not> version_lt sv (if_version x) v" if x: "x \<in> set infs" "?P x" for x
  proof -
    obtain j where j: "j < length infs" "x = rev infs ! j" using x(1) by (metis in_set_conv_nth length_rev set_rev)
    then have "k \<le> j" using k(4) x(2) by (metis not_less)
    have irr: "\<not> version_lt sv v v" using assms(1) by (simp add: semver_ok_def version_lt_def)
    show ?thesis
    proof (cases "j = k")
      case True
      then show ?thesis using irr j(2) k(2) i(2) by simp
    next
      case False
      then have "length infs - Suc j < length infs - Suc k" "length infs - Suc k < length infs" using \<open>k \<le> j\<close> j(1) by auto
      then have "by_version_less sv (infs ! (length infs - Suc j)) (infs ! (length infs - Suc k))"
        using assms(3) by (simp add: sorted_wrt_iff_nth_less)
      then show ?thesis using j k(1,2) i(2) by (simp add: by_version_less_def rev_nth)
    qed
  qed
  then show ?thesis using k(3) i(2) by blast
qed

theorem latest_is_oldest_witness:
  "\<not> version_lt unary_semver (unary_version 2) (unary_version 1)
   \<and> get_latest_version unary_semver stages unary_manager ''db/redis'' UnknownStage () = Inr (Some (unary_version 1))"
proof -
  have st: "0 \<le> get_stage unary_semver stages (unary_version n)" for n
    by (auto simp: get_stage_def parse_stage_def stages_def stage_defs Let_def)
  then have l: "get_latest_version unary_semver stages unary_manager ''db/redis'' UnknownStage () = Inr (Some (unary_version 1))"
    by (simp add: get_latest_version_def unary_manager_def unary_info_def UnknownStage_def)
  have i: "mg_info unary_manager ''db/redis'' () = ([unary_info 2, unary_info 1], None)" by (simp add: unary_manager_def)
  have "sorted_wrt (by_version_less unary_semver) [unary_info 2, unary_info 1]"
    by (simp add: by_version_less_def version_lt_def unary_semver_def unary_info_def unary_version_def)
  from latest_is_oldest [OF unary_semver_ok i this l] show ?thesis using l st by (simp add: unary_info_def UnknownStage_def)
qed

end
