(* ===== verification/Java_Versions.thy ===== *)
theory Java_Versions
  imports Watch
begin

text \<open>
  The versions of java services that are expected to run (\<open>controllers/java/version\<close>).

  The managers of the stages are a map by the name of the stage, each a map from types and clusters to the expected and
  the backup version.  It is shown what a sequence of events leaves in it.
\<close>

subsection \<open>\<open>VersionInfo\<close>\<close>

record version_info =
  vi_Type :: bytes
  vi_Cluster :: bytes
  vi_backup :: bytes
  vi_expected :: bytes

text \<open>The structure that is encoded: fields that are empty are left out, and read as empty.\<close>

record version_json =
  vj_type :: bytes
  vj_cluster :: bytes
  vj_versions :: "bytes list"

definition vi_marshal :: "version_info \<Rightarrow> version_json" where
  "vi_marshal vi = (let versions = [vi_expected vi, vi_backup vi]
     in \<lparr>vj_type = vi_Type vi, vj_cluster = vi_Cluster vi, vj_versions = versions\<rparr>)"

function pad_versions :: "bytes list \<Rightarrow> bytes list" where
  "pad_versions vs = (if length vs < 2 then pad_versions (vs @ [[]]) else vs)"
  by auto
termination by (relation "measure (\<lambda>vs. 2 - length vs)") auto

declare pad_versions.simps [simp del]

definition vi_unmarshal :: "bytes + version_json \<Rightarrow> version_info \<Rightarrow> bytes + version_info" where
  "vi_unmarshal dat vi =
     (case dat of
        Inl err \<Rightarrow> Inl err
      | Inr tmp \<Rightarrow>
          (let versions = pad_versions (vj_versions tmp)
           in Inr (vi\<lparr>vi_Type := vj_type tmp, vi_Cluster := vj_cluster tmp,
                      vi_expected := versions ! 0, vi_backup := versions ! 1\<rparr>)))"

definition vi_AddVersion :: "bytes \<Rightarrow> version_info \<Rightarrow> version_info" where
  "vi_AddVersion version vi = (let vi = vi\<lparr>vi_backup := vi_expected vi\<rparr> in vi\<lparr>vi_expected := version\<rparr>)"

definition vi_SetExpected :: "bytes \<Rightarrow> version_info \<Rightarrow> version_info" where
  "vi_SetExpected ex vi = (let vi = vi\<lparr>vi_backup := vi_expected vi\<rparr> in vi\<lparr>vi_expected := ex\<rparr>)"

definition vi_GetExpected :: "version_info \<Rightarrow> bytes" where "vi_GetExpected vi = vi_expected vi"
definition vi_GetBackup :: "version_info \<Rightarrow> bytes" where "vi_GetBackup vi = vi_backup vi"

definition new_version_info :: "bytes \<Rightarrow> bytes \<Rightarrow> bytes \<Rightarrow> bytes \<Rightarrow> version_info" where
  "new_version_info ty cluster expected backup =
     \<lparr>vi_Type = ty, vi_Cluster = cluster, vi_backup = backup, vi_expected = expected\<rparr>"

subsection \<open>The managers\<close>

definition FieldSperator :: bytes where "FieldSperator = '':''"
definition projectVersionPrefix :: bytes where "projectVersionPrefix = ''version''"
definition VersionNone :: bytes where "VersionNone = []"

record version_manager =
  vm_env :: bytes
  vm_infos :: "(bytes, version_info) fmap"

definition vm_key :: "bytes \<Rightarrow> bytes \<Rightarrow> bytes" where
  "vm_key ty cluster = ty @ FieldSperator @ cluster @ FieldSperator"

text \<open>A nil manager is \<open>None\<close>.\<close>

definition del_config :: "bytes \<Rightarrow> bytes \<Rightarrow> version_manager option \<Rightarrow> version_manager option" where
  "del_config ty cluster vm = map_option (\<lambda>vm. vm\<lparr>vm_infos := fmdrop (vm_key ty cluster) (vm_infos vm)\<rparr>) vm"

definition get_version_info :: "version_manager \<Rightarrow> bytes \<Rightarrow> bytes \<Rightarrow> version_info \<times> bool" where
  "get_version_info vm ty cluster =
     (case fmlookup (vm_infos vm) (vm_key ty cluster) of
        None \<Rightarrow> (new_version_info ty cluster VersionNone VersionNone, False)
      | Some vi \<Rightarrow> (vi, True))"

definition vm_get_backup :: "version_manager \<Rightarrow> bytes \<Rightarrow> bytes \<Rightarrow> bytes" where
  "vm_get_backup vm ty cluster = vi_GetBackup (fst (get_version_info vm ty cluster))"

definition vm_get_expect :: "version_manager \<Rightarrow> bytes \<Rightarrow> bytes \<Rightarrow> bytes" where
  "vm_get_expect vm ty cluster = vi_GetExpected (fst (get_version_info vm ty cluster))"

text \<open>The loop goes down from the last version and stops before the first one; the information is shared with the map.\<close>

fun add_versions :: "bytes list \<Rightarrow> nat \<Rightarrow> version_info \<Rightarrow> version_info" where
  "add_versions version 0 vi = vi"
| "add_versions version (Suc i) vi = add_versions version i (vi_AddVersion (version ! Suc i) vi)"

definition vm_add_version :: "bytes \<Rightarrow> bytes \<Rightarrow> bytes list \<Rightarrow> version_manager \<Rightarrow> version_manager" where
  "vm_add_version ty cluster version vm =
     (let (vi, ok) = get_version_info vm ty cluster
      in vm\<lparr>vm_infos := fmupd (vm_key ty cluster) (add_versions version (length version - 1) vi) (vm_infos vm)\<rparr>)"

definition vm_set_expected :: "bytes \<Rightarrow> bytes \<Rightarrow> bytes \<Rightarrow> version_manager \<Rightarrow> version_manager" where
  "vm_set_expected ty cluster version vm =
     (let (vi, ok) = get_version_info vm ty cluster
      in vm\<lparr>vm_infos := fmupd (vm_key ty cluster) (vi_SetExpected version vi) (vm_infos vm)\<rparr>)"

type_synonym version_managers = "(bytes, version_manager) fmap"

definition get_vm :: "bytes \<Rightarrow> version_managers \<Rightarrow> version_manager \<times> version_managers" where
  "get_vm env vms =
     (case fmlookup vms env of
        Some vm \<Rightarrow> (vm, vms)
      | None \<Rightarrow> (let vm = \<lparr>vm_env = env, vm_infos = fmempty\<rparr> in (vm, fmupd env vm vms)))"

definition AddVersion :: "bytes \<Rightarrow> bytes \<Rightarrow> bytes \<Rightarrow> bytes list \<Rightarrow> version_managers \<Rightarrow> version_managers" where
  "AddVersion env ty cluster version vms =
     (let (vm, vms) = get_vm env vms in fmupd env (vm_add_version ty cluster version vm) vms)"

definition SetExpected :: "bytes \<Rightarrow> bytes \<Rightarrow> bytes \<Rightarrow> bytes \<Rightarrow> version_managers \<Rightarrow> version_managers" where
  "SetExpected env ty cluster version vms =
     (let (vm, vms) = get_vm env vms in fmupd env (vm_set_expected ty cluster version vm) vms)"

definition GetExpected :: "bytes \<Rightarrow> bytes \<Rightarrow> bytes \<Rightarrow> version_managers \<Rightarrow> bytes \<times> version_managers" where
  "GetExpected env ty cluster vms = (let (vm, vms) = get_vm env vms in (vm_get_expect vm ty cluster, vms))"

definition GetBackup :: "bytes \<Rightarrow> bytes \<Rightarrow> bytes \<Rightarrow> version_managers \<Rightarrow> bytes \<times> version_managers" where
  "GetBackup env ty cluster vms = (let (vm, vms) = get_vm env vms in (vm_get_backup vm ty cluster, vms))"

subsection \<open>Events\<close>

text \<open>\<open>eventHandler\<close>: an object of another type ends the process.\<close>

definition version_event :: "version_info watch_event \<Rightarrow> version_managers \<Rightarrow> version_managers outcome" where
  "version_event e vms =
     (case we_object e of
        Object n dat \<Rightarrow>
          if n \<noteq> 1 then Exits
          else
            (let parts = split2 CHR ''/'' (we_key e) in
             if length parts \<noteq> 2 then Returns vms
             else
               (let env = parts ! 0 in
                if we_type e = Deleted then
                  Returns (case del_config (vi_Type dat) (vi_Cluster dat) (fmlookup vms env) of
                             None \<Rightarrow> vms | Some vm \<Rightarrow> fmupd env vm vms)
                else if we_type e = Added \<or> we_type e = Modified then
                  (let back = vi_GetBackup dat; expect = vi_GetExpected dat
                   in Returns (AddVersion env (vi_Type dat) (vi_Cluster dat) [back, expect] vms))
                else Returns vms))
      | _ \<Rightarrow> Exits)"

text \<open>\<open>watchVersionInfo\<close> calls itself; the result would be an error or nil.\<close>

partial_function (option) watch_version_info :: "'c \<Rightarrow> bytes option option" where
  "watch_version_info ctx = watch_version_info ctx"

subsection \<open>Properties\<close>

definition known :: "bytes \<Rightarrow> bytes \<Rightarrow> bytes \<Rightarrow> version_managers \<Rightarrow> version_info" where
  "known env ty cluster vms =
     (case fmlookup vms env of
        None \<Rightarrow> new_version_info ty cluster VersionNone VersionNone
      | Some vm \<Rightarrow> fst (get_version_info vm ty cluster))"

lemma get_known:
  "fst (GetExpected env ty cluster vms) = vi_expected (known env ty cluster vms)"
  "fst (GetBackup env ty cluster vms) = vi_backup (known env ty cluster vms)"
  by (simp_all add: GetExpected_def GetBackup_def known_def get_vm_def vm_get_expect_def vm_get_backup_def
      vi_GetExpected_def vi_GetBackup_def get_version_info_def Let_def split: option.splits)

lemma known_AddVersion:
  "known env ty cluster (AddVersion env ty cluster version vms)
     = add_versions version (length version - 1) (known env ty cluster vms)"
  by (auto simp: AddVersion_def known_def get_vm_def vm_add_version_def get_version_info_def Let_def split: option.splits)

lemma known_others:
  "(env', vm_key ty' cluster') \<noteq> (env, vm_key ty cluster) \<Longrightarrow>
     known env' ty' cluster' (AddVersion env ty cluster version vms) = known env' ty' cluster' vms"
  by (auto simp: AddVersion_def known_def get_vm_def vm_add_version_def get_version_info_def Let_def split: option.splits)

text \<open>An event for an object of version information below the stage.\<close>

definition version_change :: "bytes \<Rightarrow> version_info \<Rightarrow> version_info watch_event \<Rightarrow> bool" where
  "version_change env vi e \<longleftrightarrow> we_object e = Object 1 vi \<and> we_type e \<in> {Added, Modified} \<and> (\<exists>k. we_key e = env @ ''/'' @ k)"

lemma version_event_change:
  assumes "version_change env vi e" "CHR ''/'' \<notin> set env"
  shows "version_event e vms = Returns (AddVersion env (vi_Type vi) (vi_Cluster vi) [vi_backup vi, vi_expected vi] vms)"
proof -
  obtain k where "we_key e = env @ CHR ''/'' # k" using assms(1) by (auto simp: version_change_def)
  then have "split2 CHR ''/'' (we_key e) = [env, k]" using assms(2) by simp
  then show ?thesis using assms(1)
    by (auto simp: version_change_def version_event_def vi_GetBackup_def vi_GetExpected_def)
qed

text \<open>
  the exported \<open>AddVersion\<close> given a single version does nothing: neither the expected nor the backup version of
  any service changes.
\<close>

theorem add_single_version_ignored:
  "fst (GetExpected env' ty' cl' (AddVersion env ty cl [v] vms)) = fst (GetExpected env' ty' cl' vms)
   \<and> fst (GetBackup env' ty' cl' (AddVersion env ty cl [v] vms)) = fst (GetBackup env' ty' cl' vms)"
proof (cases "(env', vm_key ty' cl') = (env, vm_key ty cl)")
  case True
  then have k: "known env' ty' cl' = (\<lambda>vms. known env ty' cl' vms)" "vm_key ty' cl' = vm_key ty cl" by auto
  have "vi_expected (known env ty' cl' (AddVersion env ty cl [v] vms)) = vi_expected (known env ty' cl' vms)
      \<and> vi_backup (known env ty' cl' (AddVersion env ty cl [v] vms)) = vi_backup (known env ty' cl' vms)"
    using k(2) by (auto simp: AddVersion_def known_def get_vm_def vm_add_version_def get_version_info_def
        new_version_info_def Let_def split: option.splits)
  then show ?thesis using True by (simp add: get_known)
qed (simp add: get_known known_others)

text \<open>\<open>watchVersionInfo\<close>, which \<open>Start\<close> runs, never returns: it has no value for any amount of recursion.\<close>

lemma watch_version_info_never: "watch_version_info ctx = None"
proof (rule ccontr)
  assume "watch_version_info ctx \<noteq> None"
  then obtain y where "watch_version_info ctx = Some y" by blast
  then show False
    by (rule watch_version_info.raw_induct [where P = "\<lambda>_ _. False", rotated])
qed

text \<open>
  version information is encoded as a type, a cluster and a list of two versions, and decoded to itself whatever it
  is decoded into.
\<close>

theorem version_info_roundtrip: "vi_unmarshal (Inr (vi_marshal vi)) vi0 = Inr vi"
proof -
  have "pad_versions [a, b] = [a, b]" for a b by (simp add: pad_versions.simps)
  then show ?thesis by (cases vi; cases vi0) (simp add: vi_unmarshal_def vi_marshal_def)
qed

end
