(* ===== verification/Processes.thy ===== *)
theory Processes
  imports Instances Resources Metric_Ops "HOL-Library.Multiset" "HOL-Library.Signed_Division" "HOL-Library.Sublist"
begin

text \<open>
  The instances that run on a host: finding them among the processes (\<open>process/scan.go\<close>, \<open>types/ins\<close>) and checking
  what they use (\<open>process/probe.go\<close>).

  What the operating system says of a process is a record.  Texts of conditions are left out.
\<close>

subsection \<open>The environment of a process\<close>

text \<open>
  \<open>getEnvMap\<close> on the content of the file: what has a \<open>=\<close> is split at the first one.  The test compares the number
  of all the parts of the file, and a part without a \<open>=\<close> is then indexed out of range.
\<close>

fun env_loop :: "nat \<Rightarrow> bytes list \<Rightarrow> (bytes, bytes) fmap \<Rightarrow> (bytes, bytes) fmap go" where
  "env_loop n [] ret = Some ret"
| "env_loop n (e # es) ret =
     (let env = split2 CHR ''='' e in
      if n \<noteq> 2 then env_loop n es ret
      else (case env of [k, v] \<Rightarrow> env_loop n es (fmupd k v ret) | _ \<Rightarrow> None))"

definition get_env_map :: "bytes + bytes \<Rightarrow> (bytes + (bytes, bytes) fmap) go" where
  "get_env_map content =
     (case content of
        Inl err \<Rightarrow> Some (Inl err)
      | Inr content \<Rightarrow>
          (let parts = split_byte nulchar content
           in map_option Inr (env_loop (length parts) parts fmempty)))"

text \<open>A process as the operating system shows it.\<close>

record proc_info =
  pr_pid :: int
  pr_stopped :: bool
  pr_environ :: "bytes + bytes"
  pr_exe :: bytes
  pr_cmdline :: bytes
  pr_createTime :: int
  pr_username :: bytes

text \<open>\<open>insInfo\<close>: the environment is empty if it cannot be read; what is read once is kept.\<close>

record ins_info =
  ii_envMap :: "(bytes, bytes) fmap"
  ii_exe :: bytes
  ii_args :: bytes

definition ins_info_of :: "proc_info \<Rightarrow> ins_info go" where
  "ins_info_of p =
     (case get_env_map (pr_environ p) of
        None \<Rightarrow> None
      | Some r \<Rightarrow> Some \<lparr>ii_envMap = (case r of Inl err \<Rightarrow> fmempty | Inr m \<Rightarrow> m), ii_exe = pr_exe p, ii_args = pr_cmdline p\<rparr>)"

definition env_get :: "ins_info \<Rightarrow> bytes \<Rightarrow> bytes" where
  "env_get i k = (case fmlookup (ii_envMap i) k of None \<Rightarrow> [] | Some v \<Rightarrow> v)"

definition envDeployKey :: bytes where "envDeployKey = ''_depolyKey''"
definition envVersion :: bytes where "envVersion = ''_version''"
definition envNode :: bytes where "envNode = ''_nodeName''"
definition envInstanceID :: bytes where "envInstanceID = ''_instanceID''"

definition ii_version :: "ins_info \<Rightarrow> bytes" where "ii_version i = env_get i envVersion"
definition ii_deploy_key :: "ins_info \<Rightarrow> bytes" where "ii_deploy_key i = env_get i envDeployKey"
definition ii_instance_id :: "ins_info \<Rightarrow> bytes" where "ii_instance_id i = env_get i envInstanceID"

subsection \<open>Types of instances\<close>

datatype probe_result = ProbeUnknown | ProbeSuccess | ProbeWarning | ProbeFailure

record ins_identifier =
  id_exec :: bytes
  id_envMap :: "(bytes, bytes) fmap"
  id_args :: bytes
  id_argsRe :: "(bytes \<Rightarrow> bool) option"

record type_info =
  ti_type :: bytes
  ti_identifier :: "ins_identifier option"
  ti_parse :: "(instance_info \<Rightarrow> ins_info \<Rightarrow> bytes + instance_info) option"
  ti_prober :: "(instance_info \<Rightarrow> bytes + probe_result) option"

text \<open>The types by name, and in the order of \<open>sortedType\<close> with their counts.\<close>

record type_registry =
  tr_registry :: "(bytes, type_info) fmap"
  tr_sorted :: "(bytes \<times> int) list"

datatype register_error = TypeExists | ParseNil | IdentifierNil bytes

definition register_type :: "type_info \<Rightarrow> type_registry \<Rightarrow> type_registry \<times> register_error option" where
  "register_type pt r =
     (let ty = ti_type pt in
      if ty |\<in>| fmdom (tr_registry r) then (r, Some TypeExists)
      else if ti_parse pt = None then (r, Some ParseNil)
      else if ti_identifier pt = None then (r, Some (IdentifierNil ty))
      else (r\<lparr>tr_registry := fmupd ty pt (tr_registry r), tr_sorted := tr_sorted r @ [(ty, 0)]\<rparr>, None))"

definition get_type_info :: "type_registry \<Rightarrow> bytes \<Rightarrow> type_info option" where
  "get_type_info r ty = fmlookup (tr_registry r) ty"

definition PTUnknown :: bytes where "PTUnknown = ''unknown''"

definition type_matches :: "bytes \<Rightarrow> ins_info \<Rightarrow> ins_identifier \<Rightarrow> bool" where
  "type_matches exe i d \<longleftrightarrow>
     id_exec d = exe
     \<and> (\<forall>e \<in> fset (fmdom (id_envMap d)). the (fmlookup (id_envMap d) e) = env_get i e)
     \<and> contains_sub (ii_args i) (id_args d)
     \<and> (case id_argsRe d of None \<Rightarrow> True | Some re \<Rightarrow> re (ii_args i))"

text \<open>The type that matches moves up by one if its count has become larger, but not from the second place.\<close>

fun instance_type_loop ::
  "(bytes, type_info) fmap \<Rightarrow> bytes \<Rightarrow> ins_info \<Rightarrow> nat \<Rightarrow> (bytes \<times> int) list \<Rightarrow> (bytes \<times> int) list \<Rightarrow> bytes \<times> (bytes \<times> int) list" where
  "instance_type_loop reg exe i idx all [] = (PTUnknown, all)"
| "instance_type_loop reg exe i idx all ((ty, n) # rest) =
     (if type_matches exe i (the (ti_identifier (the (fmlookup reg ty)))) then
        (let all = all[idx := (ty, n + 1)];
             all = (if idx > 1 \<and> snd (all ! (idx - 1)) < n + 1
                    then (let pre = all ! (idx - 1) in (all[idx - 1 := (ty, n + 1)])[idx := pre]) else all)
         in (ty, all))
      else instance_type_loop reg exe i (Suc idx) all rest)"

definition get_instance_type :: "ins_info \<Rightarrow> type_registry \<Rightarrow> bytes \<times> type_registry" where
  "get_instance_type i r =
     (let exe = ii_exe i;
          exe = (case last_index exe CHR ''/'' of None \<Rightarrow> exe | Some idx \<Rightarrow> if idx > 0 then drop (Suc idx) exe else exe);
          (ty, all) = instance_type_loop (tr_registry r) exe i 0 (tr_sorted r) (tr_sorted r)
      in (ty, r\<lparr>tr_sorted := all\<rparr>))"

text \<open>\<open>fillInstanceInfo\<close> of java: the arguments that are settings, in their order; the name of the node is kept aside.\<close>

fun java_args :: "bytes list \<Rightarrow> instance_info \<Rightarrow> bytes \<Rightarrow> instance_info \<times> bytes" where
  "java_args [] ins node = (ins, node)"
| "java_args (v # vs) ins node =
     (let parts = split_byte CHR ''='' v in
      if length parts \<noteq> 2 then java_args vs ins node
      else if parts ! 0 = ''-Djava.apps.version'' then java_args vs (ins\<lparr>ins_version := parts ! 1\<rparr>) node
      else if parts ! 0 = ''-Djava.apps.prog'' then
        (let w = parts ! 1 in
         case last_index w CHR ''-'' of
           None \<Rightarrow> java_args vs ins node
         | Some i \<Rightarrow> java_args vs (ins\<lparr>ins_deployName := take i w @ '':'' @ drop (Suc i) w\<rparr>) node)
      else if parts ! 0 = ''-Dinstance.sequence'' then java_args vs ins (parts ! 1)
      else java_args vs ins node)"

definition fill_instance_info :: "instance_info \<Rightarrow> ins_info \<Rightarrow> bytes + instance_info" where
  "fill_instance_info ins ii =
     (let ins = ins\<lparr>ins_projecType := ''java''\<rparr>; cmdline = ii_args ii; args = split_byte CHR '' '' cmdline
      in Inr (fst (java_args args ins [])))"

subsection \<open>The scanner\<close>

text \<open>The facts of the host that are filled in.\<close>

record host_facts =
  hf_hostID :: bytes
  hf_hostName :: bytes
  hf_internalIP :: bytes
  hf_stage :: stage

datatype scan_error = ProcessExisted | DeployKeyError | ParseInsError bytes

text \<open>\<open>parse\<close>: a process that is no instance is \<open>None\<close>; the times are in nanoseconds.\<close>

definition parse_process ::
  "host_facts \<Rightarrow> type_registry \<Rightarrow> int \<Rightarrow> proc_info \<Rightarrow> (type_registry \<times> (scan_error + instance_info option)) go" where
  "parse_process hf reg now p =
     (if pr_stopped p then Some (reg, Inl ProcessExisted)
      else
        (case ins_info_of p of
           None \<Rightarrow> None
         | Some info \<Rightarrow>
             (let dkey = ii_deploy_key info;
                  (kind, reg) =
                    (if dkey = [] then (case get_instance_type info reg of (ty, reg) \<Rightarrow> (Inr (ty, []), reg))
                     else (case parse_deploy_key dkey of
                             (tp, dname, err) \<Rightarrow> (if err then Inl DeployKeyError else Inr (tp, dname), reg)))
              in case kind of
                   Inl err \<Rightarrow> Some (reg, Inl err)
                 | Inr (ty, dname) \<Rightarrow>
                     if dkey = [] \<and> ty = PTUnknown then Some (reg, Inr None)
                     else
                       (case get_type_info reg ty of
                          None \<Rightarrow> Some (reg, Inr None)
                        | Some ti \<Rightarrow>
                            (let instanceID = ii_instance_id info in
                             if instanceID = [] \<and> length (hf_hostID hf) < 7 then None
                             else
                               (let instanceID = (if instanceID = [] then take 7 (hf_hostID hf) @ ''-'' @ int_str (pr_pid p) else instanceID);
                                    ins = \<lparr>ins_projecType = ty, ins_ID = instanceID, ins_pid = pr_pid p, ins_deployName = dname,
                                           ins_user = pr_username p, ins_hostID = hf_hostID hf, ins_host = hf_hostName hf,
                                           ins_ip = hf_internalIP hf, ins_stage = hf_stage hf, ins_serviceType = [],
                                           ins_version = [], ins_startTime = pr_createTime p * 1000000, ins_stopTime = 0,
                                           ins_updateTime = now, ins_lifeCycle = LCStarting, ins_listening = [],
                                           ins_status = [], ins_conditions = [], ins_events = []\<rparr>
                                in case the (ti_parse ti) ins info of
                                     Inl err \<Rightarrow> Some (reg, Inl (ParseInsError err))
                                   | Inr ins \<Rightarrow> Some (reg, Inr (Some ins))))))))"

datatype scan_event_type = ETStarting | ETStarted | ETProbeErr | ETProbeWarn | ETStopping | ETStopped

text \<open>
  The processes by their pid, the instances by deploy key, what was sent and the instances that are watched since.
  Sending waits for a receiver; what is sent is listed here.
\<close>

record scanner =
  sc_procs :: "int fset"
  sc_instances :: "(bytes, instance_info) fmap"
  sc_stopped :: "(bytes, instance_info) fmap"
  sc_events :: "(scan_event_type \<times> instance_info) list"
  sc_watched :: "instance_info list"

definition new_scanner :: scanner where
  "new_scanner = \<lparr>sc_procs = {||}, sc_instances = fmempty, sc_stopped = fmempty, sc_events = [], sc_watched = []\<rparr>"

text \<open>\<open>newProc\<close> is \<open>process.NewProcess\<close>, which fails if the process is gone.\<close>

fun scan_pids ::
  "host_facts \<Rightarrow> int \<Rightarrow> (int \<Rightarrow> proc_info option) \<Rightarrow> int list \<Rightarrow> type_registry \<times> scanner \<Rightarrow> (type_registry \<times> scanner) go" where
  "scan_pids hf now newProc [] rs = Some rs"
| "scan_pids hf now newProc (pid # pids) (reg, s) =
     (if pid |\<in>| sc_procs s then scan_pids hf now newProc pids (reg, s)
      else (case newProc pid of
              None \<Rightarrow> scan_pids hf now newProc pids (reg, s)
            | Some p \<Rightarrow>
                (let s = s\<lparr>sc_procs := finsert pid (sc_procs s)\<rparr> in
                 case parse_process hf reg now p of
                   None \<Rightarrow> None
                 | Some (reg, Inr (Some ins)) \<Rightarrow>
                     scan_pids hf now newProc pids
                       (reg, s\<lparr>sc_instances := fmupd (ins_deploy_key ins) ins (sc_instances s),
                               sc_events := sc_events s @ [(ETStarting, ins)], sc_watched := sc_watched s @ [ins]\<rparr>)
                 | Some (reg, _) \<Rightarrow> scan_pids hf now newProc pids (reg, s))))"

definition scanner_update ::
  "host_facts \<Rightarrow> int \<Rightarrow> (int \<Rightarrow> proc_info option) \<Rightarrow> (int \<Rightarrow> bool) \<Rightarrow> int list \<Rightarrow> type_registry \<times> scanner
     \<Rightarrow> (type_registry \<times> scanner) go" where
  "scanner_update hf now newProc stopped pids rs =
     (case rs of (reg, s) \<Rightarrow>
        scan_pids hf now newProc pids (reg, s\<lparr>sc_procs := ffilter (\<lambda>pid. \<not> stopped pid) (sc_procs s)\<rparr>))"

text \<open>
  \<open>getPids\<close> without a pattern: the entries of the directory in the order of their names, with whether they are
  directories and the number their name stands for.  A file counts as the process 0 and ends the walk.
\<close>

fun get_all_pids :: "(bool \<times> int option) list \<Rightarrow> int list" where
  "get_all_pids [] = []"
| "get_all_pids ((isDir, n) # es) =
     (if isDir then (case n of None \<Rightarrow> get_all_pids es | Some pid \<Rightarrow> pid # get_all_pids es) else [0])"

subsection \<open>What a process uses\<close>

record 'f process_state =
  ps_type :: bytes
  ps_pid :: int
  ps_numFDs :: int
  ps_numThreads :: int
  ps_cpuPercent :: 'f
  ps_updateTime :: int
  ps_memRss :: "64 word"
  ps_memSwap :: "64 word"
  ps_memVms :: "64 word"
  ps_readBytes :: "64 word"
  ps_readCount :: "64 word"
  ps_writeBytes :: "64 word"
  ps_writeCount :: "64 word"
  ps_cpuUser :: 'f
  ps_cpuSys :: 'f
  ps_cpuIOWait :: 'f

definition HighMem :: string where "HighMem = ''highMemory''"
definition HighCPU :: string where "HighCPU = ''highCPU''"
definition HighDiskIO :: string where "HighDiskIO = ''highDiskIO''"
definition HighThreads :: string where "HighThreads = ''highThreads''"
definition ProbeCondition :: string where "ProbeCondition = ''probe''"

text \<open>When the disk was looked at and what had been written then, by pid; the time is in nanoseconds.\<close>

record disk_io_info =
  di_time :: int
  di_count :: "64 word"

type_synonym disk_writes = "(int, disk_io_info) fmap"

text \<open>Each part adds to the conditions and the events.  Dividing by the memory asked for panics if it is 0.\<close>

type_synonym findings = "string list \<times> string list"

definition check_memory :: "64 word \<Rightarrow> deploy_resource \<Rightarrow> findings \<Rightarrow> findings go" where
  "check_memory mem res ce =
     (if dr_memory res = 0 then None
      else
        (let ratio = mem * 100 div dr_memory res in
         case ce of (conditions, events) \<Rightarrow>
           Some (if ratio > 150 \<and> mem \<le> dr_maxAllowedMemory res then (conditions, events @ [HighMem])
                 else if dr_memory res \<ge> dr_maxAllowedMemory res then (conditions @ [HighMem], events)
                 else (conditions, events))))"

definition check_threads :: "int \<Rightarrow> deploy_resource \<Rightarrow> findings \<Rightarrow> findings" where
  "check_threads threads res ce =
     (case ce of (conditions, events) \<Rightarrow>
        if threads > dr_maxAllowdThreads res then (conditions @ [HighThreads], events)
        else if threads > (dr_maxAllowdThreads res * 8) sdiv 10 then (conditions, events @ [HighThreads])
        else (conditions, events))"

text \<open>\<open>cpu\<close> is the conversion of a percentage to the unit of the resources.\<close>

definition check_cpu :: "64 word \<Rightarrow> deploy_resource \<Rightarrow> findings \<Rightarrow> findings" where
  "check_cpu cpuUsage res ce =
     (case ce of (conditions, events) \<Rightarrow>
        if cpuUsage > dr_maxAllowedCPU res then (conditions @ [HighCPU], events)
        else if cpuUsage > dr_maxAllowedCPU res * 8 div 10 \<or> cpuUsage > dr_cpu res * 5 then (conditions, events @ [HighCPU])
        else (conditions, events))"

definition check_disk :: "int \<Rightarrow> int \<Rightarrow> 64 word \<Rightarrow> deploy_resource \<Rightarrow> disk_writes \<Rightarrow> findings \<Rightarrow> disk_writes \<times> findings" where
  "check_disk now pid written res dw ce =
     (case ce of (conditions, events) \<Rightarrow>
        (let (renew, events) =
               (case fmlookup dw pid of
                  None \<Rightarrow> (True, events)
                | Some diskInfo \<Rightarrow>
                    (let day = 12 * 24; d = now - di_time diskInfo; size = written - di_count diskInfo in
                     if d < 300 * second then
                       (if size * day > dr_diskSpace res then (True, events @ [HighDiskIO]) else (False, events))
                     else (True, events)))
         in (if renew then fmupd pid \<lparr>di_time = now, di_count = written\<rparr> dw else dw, conditions, events)))"

definition check_state ::
  "('f \<Rightarrow> 64 word) \<Rightarrow> int \<Rightarrow> 'f process_state option \<Rightarrow> deploy_resource option \<Rightarrow> disk_writes
     \<Rightarrow> (disk_writes \<times> (bytes + findings)) go" where
  "check_state cpu now ps resReq dw =
     (case ps of
        None \<Rightarrow> Some (dw, Inr ([], []))
      | Some ps \<Rightarrow>
          (case resReq of
             None \<Rightarrow> Some (dw, Inl ''ps: check require resource is nil'')
           | Some res \<Rightarrow>
               (case check_memory (ps_memRss ps) res ([], []) of
                  None \<Rightarrow> None
                | Some ce \<Rightarrow>
                    (let ce = check_threads (ps_numThreads ps) res ce; ce = check_cpu (cpu (ps_cpuPercent ps)) res ce
                     in case check_disk now (ps_pid ps) (ps_writeBytes ps) res dw ce of
                          (dw, ce) \<Rightarrow> Some (dw, Inr ce)))))"

subsection \<open>Probing an instance\<close>

definition InstanceWarning :: string where "InstanceWarning = ''warning''"
definition InstanceError :: string where "InstanceError = ''error''"
definition InstanceSuccess :: string where "InstanceSuccess = ''success''"
definition InstanceUnknown :: string where "InstanceUnknown = ''unknown''"

definition status_of :: "findings \<Rightarrow> string" where
  "status_of ce =
     (case ce of (conditions, events) \<Rightarrow>
        if length events > 0 then InstanceWarning else if length conditions > 0 then InstanceError else InstanceSuccess)"

definition set_findings :: "findings \<Rightarrow> instance_info \<Rightarrow> instance_info" where
  "set_findings ce ins = ins\<lparr>ins_conditions := map (\<lambda>t. (t, [])) (fst ce), ins_events := map (\<lambda>t. (t, [])) (snd ce),
     ins_status := status_of ce\<rparr>"

datatype probe_error = UnknownType bytes | CheckError bytes | ProbeFailed bytes

definition probe_instance ::
  "('f \<Rightarrow> 64 word) \<Rightarrow> int \<Rightarrow> type_registry \<Rightarrow> 'f process_state option \<Rightarrow> deploy_resource option
     \<Rightarrow> instance_info option \<Rightarrow> default_registry \<times> disk_writes
     \<Rightarrow> ((default_registry \<times> disk_writes) \<times> instance_info option \<times> probe_error option) go" where
  "probe_instance cpu now reg st resReq ins world =
     (case (ins, world) of
        (None, _) \<Rightarrow> Some (world, None, None)
      | (Some ins, dg, dw) \<Rightarrow>
          (case get_type_info reg (ins_projecType ins) of
             None \<Rightarrow> Some (world, Some ins, Some (UnknownType (ins_projecType ins)))
           | Some pt \<Rightarrow>
               (let (dg, resReq) =
                      (case resReq of
                         Some r \<Rightarrow> (dg, Some r)
                       | None \<Rightarrow>
                           (case get_default_deploy_resource dg (ins_stage ins, ins_projecType ins) of
                              (dg, spec) \<Rightarrow> (dg, map_option rs_medium spec)))
                in case (case resReq of None \<Rightarrow> Some (dw, Inr ([], [])) | Some r \<Rightarrow> check_state cpu now st (Some r) dw) of
                     None \<Rightarrow> None
                   | Some (dw, Inl err) \<Rightarrow> Some ((dg, dw), Some ins, Some (CheckError err))
                   | Some (dw, Inr (conditions, events)) \<Rightarrow>
                       (case (case ti_prober pt of None \<Rightarrow> Inr (conditions, events)
                              | Some prober \<Rightarrow>
                                  (case prober ins of
                                     Inl err \<Rightarrow> Inl err
                                   | Inr ProbeFailure \<Rightarrow> Inr (conditions @ [ProbeCondition], events)
                                   | Inr ProbeWarning \<Rightarrow> Inr (conditions, events @ [ProbeCondition])
                                   | Inr _ \<Rightarrow> Inr (conditions, events))) of
                          Inl err \<Rightarrow> Some ((dg, dw), Some ins, Some (ProbeFailed err))
                        | Inr (conditions, events) \<Rightarrow>
                            Some ((dg, dw), Some (set_findings (conditions, events) ins), None)))))"

text \<open>\<open>getMetrics\<close>: the stage is an integer that is converted to a string.\<close>

record 'f proc_metric =
  pm_name :: bytes
  pm_fields :: "(bytes \<times> 'f gval) list"
  pm_tags :: "(bytes \<times> bytes) list"
  pm_time :: int

definition state_metric :: "'f process_state \<Rightarrow> (bytes \<times> 'f gval) list" where
  "state_metric ps =
     [(''numFDs'', GInt (word_of_int (ps_numFDs ps))), (''numThreads'', GInt (word_of_int (ps_numThreads ps))),
      (''cpuPercent'', GFloat64 (ps_cpuPercent ps)), (''memRss'', GUint64 (ps_memRss ps)), (''memSwap'', GUint64 (ps_memSwap ps)),
      (''memVms'', GUint64 (ps_memVms ps)), (''diskReadBytes'', GUint64 (ps_readBytes ps)),
      (''diskReadCount'', GUint64 (ps_readCount ps)), (''diskWriteBytes'', GUint64 (ps_writeBytes ps)),
      (''diskWriteCount'', GUint64 (ps_writeCount ps)), (''cpuUser'', GFloat64 (ps_cpuUser ps)),
      (''cpuSys'', GFloat64 (ps_cpuSys ps)), (''cpuIOWait'', GFloat64 (ps_cpuIOWait ps))]"

definition get_metrics :: "instance_info \<Rightarrow> 'f process_state \<Rightarrow> 'f proc_metric" where
  "get_metrics ins st = \<lparr>pm_name = ''monitor_'' @ ins_projecType ins,
     pm_fields = state_metric st @ [(''pid'', GInt (word_of_int (ins_pid ins)))],
     pm_tags = [(''dkey'', ins_deploy_key ins), (''ptype'', ins_projecType ins), (''deploy'', ins_deployName ins),
       (''probeStatus'', ins_status ins), (''env'', rune_string (ins_stage ins)), (''esuer'', ins_user ins), (''node'', ins_ID ins)],
     pm_time = ins_updateTime ins\<rparr>"

text \<open>A tick of \<open>watchInstance\<close>: the instance and the status that was sent last, the events and the metrics.\<close>

definition status_event :: "string \<Rightarrow> scan_event_type" where
  "status_event s =
     (if s = InstanceError then ETProbeErr else if s = InstanceWarning then ETProbeWarn
      else if s = InstanceSuccess then ETStarted else ETProbeWarn)"

datatype watch_result = WatchEnds | WatchGoes

definition watch_tick ::
  "('f \<Rightarrow> 64 word) \<Rightarrow> int \<Rightarrow> bool \<Rightarrow> type_registry \<Rightarrow> 'f process_state \<Rightarrow> deploy_resource option
     \<Rightarrow> instance_info \<times> string \<Rightarrow> default_registry \<times> disk_writes
     \<Rightarrow> (watch_result \<times> (instance_info \<times> string) \<times> (default_registry \<times> disk_writes)
          \<times> (scan_event_type \<times> instance_info) list \<times> 'f proc_metric list) go" where
  "watch_tick cpu now stopped reg st rr s world =
     (case s of (ins, prevSt) \<Rightarrow>
        if stopped then Some (WatchEnds, s, world, [(ETStopped, ins)], [])
        else
          (case probe_instance cpu now reg (Some st) rr (Some ins) world of
             None \<Rightarrow> None
           | Some (world, ins', Some err) \<Rightarrow> Some (WatchGoes, (the ins', prevSt), world, [], [get_metrics (the ins') st])
           | Some (world, ins', None) \<Rightarrow>
               (let ins = (the ins')\<lparr>ins_updateTime := now\<rparr> in
                if ins_status ins \<noteq> prevSt
                then Some (WatchGoes, (ins, ins_status ins), world, [(status_event (ins_status ins), ins)], [get_metrics ins st])
                else Some (WatchGoes, (ins, prevSt), world, [], [get_metrics ins st]))))"

subsection \<open>Lemmas\<close>

lemma env_loop_skips: "n \<noteq> 2 \<Longrightarrow> env_loop n es ret = Some ret"
  by (induction n es ret rule: env_loop.induct) (auto simp: Let_def)

text \<open>The file has each variable with a zero byte after it.\<close>

definition environ_of :: "bytes list \<Rightarrow> bytes" where
  "environ_of vars = concat (map (\<lambda>v. v @ [nulchar]) vars)"

lemma split_environ: "\<forall>v \<in> set vars. nulchar \<notin> set v \<Longrightarrow> split_byte nulchar (environ_of vars) = vars @ [[]]"
  by (induction vars) (simp_all add: environ_of_def)

lemma env_map_environ:
  assumes "\<forall>v \<in> set vars. nulchar \<notin> set v"
  shows "get_env_map (Inr (environ_of vars)) = (if length vars = 1 then None else Some (Inr fmempty))"
proof (cases "length vars = 1")
  case True
  then obtain v where v: "vars = [v]" by (cases vars) auto
  have "split2 CHR ''='' [] = [[]]" by (simp add: split2_def)
  then have "env_loop 2 [v, []] fmempty = None" by (auto simp: Let_def split: list.splits)
  moreover have "split_byte nulchar (environ_of vars) = [v, []]" using split_environ [OF assms] v by simp
  ultimately show ?thesis using True by (simp add: get_env_map_def numeral_2_eq_2)
next
  case False
  have "env_loop (length (vars @ [[]])) (vars @ [[]]) fmempty = Some fmempty"
    by (rule env_loop_skips) (use False in auto)
  then show ?thesis using False split_environ [OF assms] by (simp add: get_env_map_def)
qed

subsection \<open>Properties\<close>

text \<open>
  the variables a process was started with are never seen: reading the environment of a process with exactly one
  variable panics, and that of any other process is empty, so that no instance is known by the deploy key, the
  instance id or the version it was started with.
\<close>

theorem environment_unseen:
  assumes "pr_environ p = Inr (environ_of vars)" "\<forall>v \<in> set vars. nulchar \<notin> set v" "\<not> pr_stopped p"
  shows "if length vars = 1 then parse_process hf reg now p = None
    else \<exists>info. ins_info_of p = Some info \<and> ii_deploy_key info = [] \<and> ii_instance_id info = [] \<and> ii_version info = []"
  using env_map_environ [OF assms(2)] assms(1,3)
  by (simp add: parse_process_def ins_info_of_def ii_deploy_key_def ii_instance_id_def ii_version_def env_get_def)

definition sleep_proc :: "bytes list \<Rightarrow> proc_info" where
  "sleep_proc vars = \<lparr>pr_pid = 7, pr_stopped = False, pr_environ = Inr (environ_of vars), pr_exe = ''/bin/sleep'',
     pr_cmdline = ''sleep'', pr_createTime = 0, pr_username = ''root''\<rparr>"

definition no_facts :: host_facts where
  "no_facts = \<lparr>hf_hostID = [], hf_hostName = [], hf_internalIP = [], hf_stage = Dev\<rparr>"

theorem environment_unseen_witness:
  "parse_process no_facts \<lparr>tr_registry = fmempty, tr_sorted = []\<rparr> 0 (sleep_proc [''_depolyKey=java/crm'']) = None
   \<and> (\<exists>info. ins_info_of (sleep_proc [''A=1'', ''_depolyKey=java/crm'']) = Some info \<and> ii_deploy_key info = [])"
  using environment_unseen [of "sleep_proc [''_depolyKey=java/crm'']" "[''_depolyKey=java/crm'']" no_facts "\<lparr>tr_registry = fmempty, tr_sorted = []\<rparr>" 0]
    environment_unseen [of "sleep_proc [''A=1'', ''_depolyKey=java/crm'']" "[''A=1'', ''_depolyKey=java/crm'']"]
  by (auto simp: sleep_proc_def)

lemma HighMem_distinct [simp]:
  "HighThreads \<noteq> HighMem" "HighCPU \<noteq> HighMem" "HighDiskIO \<noteq> HighMem" "HighMem \<noteq> HighThreads" "HighMem \<noteq> HighCPU" "HighMem \<noteq> HighDiskIO"
  by (simp_all add: HighMem_def HighThreads_def HighCPU_def HighDiskIO_def)

lemma check_rest_memory:
  "HighMem \<in> set (fst (check_threads t res ce)) \<longleftrightarrow> HighMem \<in> set (fst ce)"
  "HighMem \<in> set (snd (check_threads t res ce)) \<longleftrightarrow> HighMem \<in> set (snd ce)"
  "HighMem \<in> set (fst (check_cpu u res ce)) \<longleftrightarrow> HighMem \<in> set (fst ce)"
  "HighMem \<in> set (snd (check_cpu u res ce)) \<longleftrightarrow> HighMem \<in> set (snd ce)"
  by (auto simp: check_threads_def check_cpu_def split: prod.splits)

lemma check_disk_memory:
  "check_disk now pid w res dw ce = (dw', ce') \<Longrightarrow>
     (HighMem \<in> set (fst ce') \<longleftrightarrow> HighMem \<in> set (fst ce)) \<and> (HighMem \<in> set (snd ce') \<longleftrightarrow> HighMem \<in> set (snd ce))"
  by (auto simp: check_disk_def Let_def split: prod.splits option.splits if_splits)

text \<open>
  as long as a deployment is allowed more memory than it asked for, a process that uses more than it is allowed is
  reported for its memory neither as an error nor as a warning.
\<close>

theorem memory_over_limit_unreported:
  assumes "0 < dr_memory res" "dr_memory res < dr_maxAllowedMemory res" "dr_maxAllowedMemory res < ps_memRss ps"
  shows "\<exists>dw' conditions events. check_state cpu now (Some ps) (Some res) dw = Some (dw', Inr (conditions, events))
    \<and> HighMem \<notin> set conditions \<and> HighMem \<notin> set events"
proof -
  have m: "check_memory (ps_memRss ps) res ([], []) = Some ([], [])"
    using assms by (auto simp: check_memory_def Let_def)
  let ?ce = "check_cpu (cpu (ps_cpuPercent ps)) res (check_threads (ps_numThreads ps) res ([], []))"
  obtain dw' c e where d: "check_disk now (ps_pid ps) (ps_writeBytes ps) res dw ?ce = (dw', c, e)"
    by (cases "check_disk now (ps_pid ps) (ps_writeBytes ps) res dw ?ce") auto
  then have "check_state cpu now (Some ps) (Some res) dw = Some (dw', Inr (c, e))"
    using m by (simp add: check_state_def Let_def)
  moreover have "HighMem \<notin> set c" "HighMem \<notin> set e"
    using check_disk_memory [OF d] by (simp_all add: check_rest_memory)
  ultimately show ?thesis by blast
qed

definition mem_request :: deploy_resource where
  "mem_request = \<lparr>dr_memory = 100, dr_cpu = 1, dr_networkIn = 0, dr_networkOut = 0, dr_diskSpace = 0,
     dr_maxAllowedMemory = 200, dr_maxAllowedCPU = 1, dr_maxAllowdThreads = 10\<rparr>"

definition mem_hungry :: "unit process_state" where
  "mem_hungry = \<lparr>ps_type = [], ps_pid = 7, ps_numFDs = 0, ps_numThreads = 1, ps_cpuPercent = (), ps_updateTime = 0, ps_memRss = 1000,
     ps_memSwap = 0, ps_memVms = 0, ps_readBytes = 0, ps_readCount = 0, ps_writeBytes = 0, ps_writeCount = 0, ps_cpuUser = (),
     ps_cpuSys = (), ps_cpuIOWait = ()\<rparr>"

theorem memory_over_limit_unreported_witness:
  "\<exists>dw' conditions events. check_state (\<lambda>_. 0) 0 (Some mem_hungry) (Some mem_request) fmempty = Some (dw', Inr (conditions, events))
   \<and> HighMem \<notin> set conditions \<and> HighMem \<notin> set events"
  by (rule memory_over_limit_unreported) (simp_all add: mem_request_def mem_hungry_def)

text \<open>
  an instance that is probed without an error is put into the status that its findings have, and an event of any
  kind hides all the errors: with one the status is a warning, whatever conditions there are.
\<close>

theorem probe_status_exact:
  assumes "probe_instance cpu now reg st res (Some ins) world = Some (world', ins', None)"
  shows "\<exists>i. ins' = Some i \<and> ins_deploy_key i = ins_deploy_key ins
    \<and> (ins_status i = InstanceWarning \<longleftrightarrow> ins_events i \<noteq> [])
    \<and> (ins_status i = InstanceError \<longleftrightarrow> ins_conditions i \<noteq> [] \<and> ins_events i = [])
    \<and> (ins_status i = InstanceSuccess \<longleftrightarrow> ins_conditions i = [] \<and> ins_events i = [])"
proof -
  have "\<exists>ce. ins' = Some (set_findings ce ins)"
    using assms by (auto simp: probe_instance_def Let_def split: prod.splits option.splits sum.splits probe_result.splits)
  then obtain c e where "ins' = Some (set_findings (c, e) ins)" by auto
  then show ?thesis
    by (auto simp: set_findings_def status_of_def ins_deploy_key_def InstanceWarning_def InstanceError_def InstanceSuccess_def)
qed

text \<open>A probe that warns, on an instance that has too many threads.\<close>

definition warn_type :: type_info where
  "warn_type = \<lparr>ti_type = ''java'', ti_identifier = None, ti_parse = None, ti_prober = Some (\<lambda>i. Inr ProbeWarning)\<rparr>"

theorem probe_status_exact_witness:
  "\<exists>world' i. probe_instance (\<lambda>_. 0) 0 \<lparr>tr_registry = fmupd ''java'' warn_type fmempty, tr_sorted = [(''java'', 0)]\<rparr>
      (Some (mem_hungry\<lparr>ps_numThreads := 99\<rparr>)) (Some mem_request) (Some (sample_ins LCRunning))
      (\<lparr>dg_default = fmempty, dg_unknown = {||}, dg_chan = []\<rparr>, fmempty) = Some (world', Some i, None)
    \<and> ins_conditions i \<noteq> [] \<and> ins_status i = InstanceWarning"
proof -
  let ?w = "(\<lparr>dg_default = fmempty, dg_unknown = {||}, dg_chan = []\<rparr>, fmempty :: disk_writes)"
  let ?r = "\<lparr>tr_registry = fmupd ''java'' warn_type fmempty, tr_sorted = [(''java'', 0)]\<rparr>"
  let ?s = "mem_hungry\<lparr>ps_numThreads := 99\<rparr>"
  have c: "check_state (\<lambda>_. 0) 0 (Some ?s) (Some mem_request) fmempty
      = Some (fmupd 7 \<lparr>di_time = 0, di_count = 0\<rparr> fmempty, Inr ([HighThreads], []))"
    by (simp add: check_state_def check_memory_def check_threads_def check_cpu_def check_disk_def mem_hungry_def mem_request_def)
  have p: "ins_projecType (sample_ins LCRunning) = ''java''" by (simp add: sample_ins_def)
  have e: "probe_instance (\<lambda>_. 0) 0 ?r (Some ?s) (Some mem_request) (Some (sample_ins LCRunning)) ?w
      = Some ((fst ?w, fmupd 7 \<lparr>di_time = 0, di_count = 0\<rparr> fmempty),
          Some (set_findings ([HighThreads], [ProbeCondition]) (sample_ins LCRunning)), None)"
    by (simp add: probe_instance_def c p get_type_info_def warn_type_def)
  from probe_status_exact [OF e] show ?thesis unfolding e by (auto simp: set_findings_def)
qed

text \<open>The order of the types is a list of all of them, each once.\<close>

definition registry_ok :: "type_registry \<Rightarrow> bool" where
  "registry_ok r \<longleftrightarrow> distinct (map fst (tr_sorted r)) \<and> set (map fst (tr_sorted r)) = fset (fmdom (tr_registry r))
     \<and> (\<forall>ty ti. fmlookup (tr_registry r) ty = Some ti \<longrightarrow> ti_identifier ti \<noteq> None \<and> ti_parse ti \<noteq> None)"

lemma register_ok: "registry_ok r \<Longrightarrow> registry_ok (fst (register_type pt r))"
  by (auto simp: registry_ok_def register_type_def Let_def split: if_splits)

lemma mset_swap_adjacent:
  "0 < i \<Longrightarrow> i < length xs \<Longrightarrow> mset ((xs[i - 1 := xs ! i])[i := xs ! (i - 1)]) = mset xs"
  using mset_swap [of i xs "i - 1"] by (simp add: list_update_swap)

definition matching :: "type_registry \<Rightarrow> bytes \<Rightarrow> ins_info \<Rightarrow> bytes \<Rightarrow> bool" where
  "matching r exe i ty \<longleftrightarrow> type_matches exe i (the (ti_identifier (the (fmlookup (tr_registry r) ty))))"

lemma instance_type_loop_result:
  assumes "instance_type_loop (tr_registry r) exe i (length pre) (pre @ rest) rest = (ty, all')"
  shows "mset (map fst all') = mset (map fst (pre @ rest))
    \<and> (if \<exists>x \<in> fst ` set rest. matching r exe i x then ty \<in> fst ` set rest \<and> matching r exe i ty else ty = PTUnknown)"
  using assms
proof (induction rest arbitrary: pre)
  case (Cons tn rest)
  obtain x n where tn: "tn = (x, n)" by (cases tn)
  show ?case
  proof (cases "matching r exe i x")
    case True
    let ?a = "(pre @ tn # rest)[length pre := (x, n + 1)]"
    have a: "?a = pre @ (x, n + 1) # rest" by simp
    have ty: "ty = x" and all': "all' = (if length pre > 1 \<and> snd (?a ! (length pre - 1)) < n + 1
        then (?a[length pre - 1 := (x, n + 1)])[length pre := ?a ! (length pre - 1)] else ?a)"
      using Cons.prems True unfolding Let_def by (auto simp: tn matching_def Let_def)
    have "mset all' = mset ?a"
    proof (cases "length pre > 1 \<and> snd (?a ! (length pre - 1)) < n + 1")
      case True
      have n: "?a ! length pre = (x, n + 1)" unfolding a by (rule nth_append_length)
      have "0 < length pre" "length pre < length ?a" using True by auto
      from mset_swap_adjacent [OF this] show ?thesis unfolding all' if_P [OF True] n .
    qed (simp only: all' if_False)
    then have "mset (map fst all') = mset (map fst (pre @ tn # rest))" unfolding a tn by simp
    then show ?thesis using True ty tn by force
  next
    case False
    then have "instance_type_loop (tr_registry r) exe i (length (pre @ [tn])) ((pre @ [tn]) @ rest) rest = (ty, all')"
      using Cons.prems by (simp add: tn matching_def)
    from Cons.IH [OF this] show ?thesis using False tn by auto
  qed
qed simp

text \<open>
  in a registry whose order lists every type once, looking for the type of a process finds a registered type
  that matches if there is one, and is unknown otherwise; it keeps the order a list of all types, each once.
\<close>

theorem instance_type_found:
  assumes "registry_ok r" "get_instance_type i r = (ty, r')"
    "exe = (case last_index (ii_exe i) CHR ''/'' of None \<Rightarrow> ii_exe i | Some k \<Rightarrow> if k > 0 then drop (Suc k) (ii_exe i) else ii_exe i)"
  shows "registry_ok r' \<and> tr_registry r' = tr_registry r
    \<and> (if \<exists>x \<in> fset (fmdom (tr_registry r)). matching r exe i x then ty \<in> fset (fmdom (tr_registry r)) \<and> matching r exe i ty
       else ty = PTUnknown)"
proof -
  obtain all' where l: "instance_type_loop (tr_registry r) exe i 0 (tr_sorted r) (tr_sorted r) = (ty, all')"
    and r': "r' = r\<lparr>tr_sorted := all'\<rparr>"
    using assms(2,3) by (auto simp: get_instance_type_def Let_def split: prod.splits)
  have res: "mset (map fst all') = mset (map fst (tr_sorted r))"
    "if \<exists>x \<in> fst ` set (tr_sorted r). matching r exe i x then ty \<in> fst ` set (tr_sorted r) \<and> matching r exe i ty else ty = PTUnknown"
    using instance_type_loop_result [of r exe i "[]" "tr_sorted r" ty all'] l by simp_all
  have s: "fst ` set (tr_sorted r) = fset (fmdom (tr_registry r))" using assms(1) by (simp add: registry_ok_def)
  have "set (map fst all') = set (map fst (tr_sorted r))" "distinct (map fst all') = distinct (map fst (tr_sorted r))"
    using mset_eq_setD [OF res(1)] mset_eq_imp_distinct_iff [OF res(1)] by auto
  then have "registry_ok r'" using assms(1) r' by (simp add: registry_ok_def)
  then show ?thesis using res(2) r' unfolding s by simp
qed

definition java_type :: type_info where
  "java_type = \<lparr>ti_type = ''java'', ti_identifier = Some \<lparr>id_exec = ''java'', id_envMap = fmempty, id_args = ''Djava.apps.prog'', id_argsRe = None\<rparr>,
     ti_parse = Some fill_instance_info, ti_prober = None\<rparr>"

definition java_registry :: type_registry where
  "java_registry = fst (register_type java_type \<lparr>tr_registry = fmempty, tr_sorted = []\<rparr>)"

lemma java_registry_ok: "registry_ok java_registry"
  unfolding java_registry_def by (rule register_ok) (simp add: registry_ok_def)

theorem instance_type_found_witness:
  "fst (get_instance_type \<lparr>ii_envMap = fmempty, ii_exe = ''/usr/bin/java'', ii_args = ''java -Djava.apps.prog=crm-server''\<rparr> java_registry) = ''java''"
proof -
  let ?i = "\<lparr>ii_envMap = fmempty, ii_exe = ''/usr/bin/java'', ii_args = ''java -Djava.apps.prog=crm-server''\<rparr>"
  have r: "tr_registry java_registry = fmupd ''java'' java_type fmempty"
    by (simp add: java_registry_def register_type_def java_type_def Let_def)
  have c: "contains_sub ''java -Djava.apps.prog=crm-server'' ''Djava.apps.prog''" by code_simp
  have m: "matching java_registry ''java'' ?i ''java''" using c by (simp add: matching_def r java_type_def type_matches_def)
  obtain ty r' where g: "get_instance_type ?i java_registry = (ty, r')" by fastforce
  have "''java'' = (case last_index (ii_exe ?i) CHR ''/'' of None \<Rightarrow> ii_exe ?i | Some k \<Rightarrow> if k > 0 then drop (Suc k) (ii_exe ?i) else ii_exe ?i)"
    by simp
  from instance_type_found [OF java_registry_ok g this] show ?thesis using m r g by auto
qed

text \<open>What parsing makes of several processes one after the other: the instances that are found.\<close>

fun parse_all :: "host_facts \<Rightarrow> int \<Rightarrow> proc_info list \<Rightarrow> type_registry \<Rightarrow> (type_registry \<times> instance_info list) go" where
  "parse_all hf now [] reg = Some (reg, [])"
| "parse_all hf now (p # ps) reg =
     do {
       (reg, r) \<leftarrow> parse_process hf reg now p;
       (reg, fnd) \<leftarrow> parse_all hf now ps reg;
       Some (reg, case r of Inr (Some i) \<Rightarrow> i # fnd | _ \<Rightarrow> fnd)
     }"

definition keep_instances :: "instance_info list \<Rightarrow> (bytes, instance_info) fmap \<Rightarrow> (bytes, instance_info) fmap" where
  "keep_instances fnd m = fold (\<lambda>i m. fmupd (ins_deploy_key i) i m) fnd m"

lemma scan_pids_effect:
  assumes "scan_pids hf now newProc pids (reg, s) = Some (reg', s')"
  shows "\<exists>qs new. subseq qs pids \<and> distinct qs \<and> set qs = {pid \<in> set pids. newProc pid \<noteq> None} - fset (sc_procs s)
    \<and> parse_all hf now (map (\<lambda>pid. the (newProc pid)) qs) reg = Some (reg', new)
    \<and> s' = s\<lparr>sc_procs := sc_procs s |\<union>| fset_of_list qs, sc_instances := keep_instances new (sc_instances s),
            sc_events := sc_events s @ map (\<lambda>i. (ETStarting, i)) new, sc_watched := sc_watched s @ new\<rparr>"
  using assms
proof (induction pids arbitrary: reg s)
  case Nil
  then show ?case by (intro exI [of _ "[]"]) (simp add: keep_instances_def)
next
  case (Cons pid pids)
  show ?case
  proof (cases "pid |\<in>| sc_procs s \<or> newProc pid = None")
    case True
    then have "scan_pids hf now newProc pids (reg, s) = Some (reg', s')" using Cons.prems by (auto split: if_splits)
    from Cons.IH [OF this] obtain qs new where n: "subseq qs pids" "distinct qs"
      "set qs = {pid \<in> set pids. newProc pid \<noteq> None} - fset (sc_procs s)"
      "parse_all hf now (map (\<lambda>pid. the (newProc pid)) qs) reg = Some (reg', new)"
      "s' = s\<lparr>sc_procs := sc_procs s |\<union>| fset_of_list qs, sc_instances := keep_instances new (sc_instances s),
            sc_events := sc_events s @ map (\<lambda>i. (ETStarting, i)) new, sc_watched := sc_watched s @ new\<rparr>"
      by blast
    moreover have "set qs = {q \<in> set (pid # pids). newProc q \<noteq> None} - fset (sc_procs s)" using n(3) True by auto
    ultimately show ?thesis by (intro exI [of _ qs] exI [of _ new]) auto
  next
    case False
    then obtain p where p: "newProc pid = Some p" "pid |\<notin>| sc_procs s" by blast
    let ?s = "s\<lparr>sc_procs := finsert pid (sc_procs s)\<rparr>"
    obtain reg1 r where r: "parse_process hf reg now p = Some (reg1, r)" using Cons.prems p by (auto simp: Let_def split: option.splits)
    define fnd where "fnd = (case r of Inr (Some i) \<Rightarrow> [i] | _ \<Rightarrow> [])"
    let ?s1 = "?s\<lparr>sc_instances := keep_instances fnd (sc_instances s), sc_events := sc_events s @ map (\<lambda>i. (ETStarting, i)) fnd,
        sc_watched := sc_watched s @ fnd\<rparr>"
    have "scan_pids hf now newProc pids (reg1, ?s1) = Some (reg', s')"
      using Cons.prems p r by (auto simp: fnd_def keep_instances_def Let_def split: sum.splits option.splits)
    from Cons.IH [OF this] obtain qs new where n: "subseq qs pids" "distinct qs"
      "set qs = {pid \<in> set pids. newProc pid \<noteq> None} - fset (sc_procs ?s1)"
      "parse_all hf now (map (\<lambda>pid. the (newProc pid)) qs) reg1 = Some (reg', new)"
      "s' = ?s1\<lparr>sc_procs := sc_procs ?s1 |\<union>| fset_of_list qs, sc_instances := keep_instances new (sc_instances ?s1),
            sc_events := sc_events ?s1 @ map (\<lambda>i. (ETStarting, i)) new, sc_watched := sc_watched ?s1 @ new\<rparr>"
      by blast
    have "parse_all hf now (map (\<lambda>pid. the (newProc pid)) (pid # qs)) reg = Some (reg', fnd @ new)"
      using r n(4) p(1) by (cases r) (auto simp: fnd_def split: option.split)
    moreover have "set (pid # qs) = {q \<in> set (pid # pids). newProc q \<noteq> None} - fset (sc_procs s)" using n(3) p by auto
    moreover have "distinct (pid # qs)" using n(2,3) by simp
    moreover have "s' = s\<lparr>sc_procs := sc_procs s |\<union>| fset_of_list (pid # qs), sc_instances := keep_instances (fnd @ new) (sc_instances s),
            sc_events := sc_events s @ map (\<lambda>i. (ETStarting, i)) (fnd @ new), sc_watched := sc_watched s @ (fnd @ new)\<rparr>"
      using n(5) by (simp add: keep_instances_def)
    ultimately show ?thesis using n(1) by (intro exI [of _ "pid # qs"] exI [of _ "fnd @ new"]) simp
  qed
qed

text \<open>
  C22: an update of the scanner that does not panic forgets the processes that have stopped and looks at each running
  one it does not know, once and in order; it knows these from then on.  The instances that parsing makes of them are
  announced and watched, in order, and no others are.  They are kept by their deploy keys: an instance replaces the one
  that was kept under its key, found earlier or in the same update, and an instance that has stopped stays.  (The comment
  on the scanner says that it is removed.)
\<close>

theorem scanner_update_exact:
  assumes "scanner_update hf now newProc stopped pids (reg, s) = Some (reg', s')"
  shows "\<exists>qs new. subseq qs pids \<and> distinct qs
    \<and> set qs = {pid \<in> set pids. newProc pid \<noteq> None} - {pid \<in> fset (sc_procs s). \<not> stopped pid}
    \<and> fset (sc_procs s') = {pid \<in> fset (sc_procs s). \<not> stopped pid} \<union> set qs
    \<and> parse_all hf now (map (\<lambda>pid. the (newProc pid)) qs) reg = Some (reg', new)
    \<and> sc_watched s' = sc_watched s @ new \<and> sc_events s' = sc_events s @ map (\<lambda>i. (ETStarting, i)) new
    \<and> sc_instances s' = fold (\<lambda>i m. fmupd (ins_deploy_key i) i m) new (sc_instances s) \<and> sc_stopped s' = sc_stopped s"
proof -
  let ?s = "s\<lparr>sc_procs := ffilter (\<lambda>pid. \<not> stopped pid) (sc_procs s)\<rparr>"
  have f: "fset (sc_procs ?s) = {pid \<in> fset (sc_procs s). \<not> stopped pid}" by auto
  obtain qs new where n: "subseq qs pids" "distinct qs" "set qs = {pid \<in> set pids. newProc pid \<noteq> None} - fset (sc_procs ?s)"
    "parse_all hf now (map (\<lambda>pid. the (newProc pid)) qs) reg = Some (reg', new)"
    "s' = ?s\<lparr>sc_procs := sc_procs ?s |\<union>| fset_of_list qs, sc_instances := keep_instances new (sc_instances ?s),
       sc_events := sc_events ?s @ map (\<lambda>i. (ETStarting, i)) new, sc_watched := sc_watched ?s @ new\<rparr>"
    using scan_pids_effect [of hf now newProc pids reg ?s reg' s'] assms by (auto simp: scanner_update_def)
  have "fset (sc_procs s') = {pid \<in> fset (sc_procs s). \<not> stopped pid} \<union> set qs"
    by (auto simp: n(5) fset_of_list.rep_eq)
  then show ?thesis using n(1,2,4) n(3) [unfolded f]
    by (intro exI [of _ qs] exI [of _ new]) (simp add: n(5) keep_instances_def)
qed

theorem scanner_update_exact_witness:
  "\<exists>reg' s'. scanner_update no_facts 0 (\<lambda>pid. if pid = 7 then Some (sleep_proc []) else None) (\<lambda>pid. True) [7]
      (java_registry, new_scanner\<lparr>sc_procs := {|5|}\<rparr>) = Some (reg', s') \<and> fset (sc_procs s') = {7}"
proof -
  let ?np = "\<lambda>pid. if pid = 7 then Some (sleep_proc []) else None"
  have "\<exists>r. parse_process no_facts java_registry 0 (sleep_proc []) = Some r"
  proof -
    have "ins_info_of (sleep_proc []) = Some \<lparr>ii_envMap = fmempty, ii_exe = ''/bin/sleep'', ii_args = ''sleep''\<rparr>"
      by (simp add: ins_info_of_def get_env_map_def sleep_proc_def environ_of_def)
    moreover have "get_instance_type \<lparr>ii_envMap = fmempty, ii_exe = ''/bin/sleep'', ii_args = ''sleep''\<rparr> java_registry = (PTUnknown, java_registry)"
      by (simp add: get_instance_type_def java_registry_def register_type_def java_type_def type_matches_def Let_def)
    ultimately show ?thesis by (simp add: parse_process_def sleep_proc_def ii_deploy_key_def env_get_def)
  qed
  then obtain reg1 r where "parse_process no_facts java_registry 0 (sleep_proc []) = Some (reg1, r)" by auto
  then have "\<exists>reg' s'. scanner_update no_facts 0 ?np (\<lambda>pid. True) [7] (java_registry, new_scanner\<lparr>sc_procs := {|5|}\<rparr>) = Some (reg', s')"
    by (auto simp: scanner_update_def new_scanner_def Let_def split: sum.splits option.splits)
  then obtain reg' s' where u: "scanner_update no_facts 0 ?np (\<lambda>pid. True) [7] (java_registry, new_scanner\<lparr>sc_procs := {|5|}\<rparr>) = Some (reg', s')"
    by blast
  from scanner_update_exact [OF u] obtain qs where q: "set qs = {pid \<in> set [7]. ?np pid \<noteq> None} - {pid \<in> fset (sc_procs (new_scanner\<lparr>sc_procs := {|5|}\<rparr>)). \<not> True}"
    "fset (sc_procs s') = {pid \<in> fset (sc_procs (new_scanner\<lparr>sc_procs := {|5|}\<rparr>)). \<not> True} \<union> set qs" by blast
  then have "fset (sc_procs s') = {7}" by auto
  then show ?thesis using u by blast
qed

end
