(* ===== verification/Service_Check.thy ===== *)
theory Service_Check
  imports Processes Zk_Sync_Props Complex_Main "HOL-Library.List_Lexorder" "HOL-Library.Char_ord"
begin

text \<open>
  Checking the java services (\<open>controllers/java/service/service.go\<close>): instances in ZooKeeper against those that run,
  versions against the route, and probing the services through their gateways.

  The ZooKeeper manager is an interface here, made of the model of it in \<open>Zk_Sync\<close>.  Floating point numbers are
  reals that are rounded after each operation.  Texts of alerts are values.
\<close>

subsection \<open>Failure ratios\<close>

record fail_ratio =
  fr_count :: int
  fr_avg1 :: real
  fr_avg5 :: real
  fr_avg15 :: real

definition new_fail_ratio :: fail_ratio where
  "new_fail_ratio = \<lparr>fr_count = 0, fr_avg1 = 0, fr_avg5 = 0, fr_avg15 = 0\<rparr>"

definition fshift :: nat where "fshift = 11"
definition fixed1 :: real where "fixed1 = 2 ^ fshift"
definition exp1 :: real where "exp1 = 1884"
definition exp5 :: real where "exp5 = 2014"
definition exp15 :: real where "exp15 = 2037"

definition cal_fail_ratio :: "(real \<Rightarrow> real) \<Rightarrow> real \<Rightarrow> real \<Rightarrow> real \<Rightarrow> real" where
  "cal_fail_ratio rnd old e n =
     (let old = rnd (old * e);
          old = rnd (old + rnd (n * rnd (fixed1 - e)));
          old = rnd (old / fixed1)
      in old)"

definition fr_update :: "(real \<Rightarrow> real) \<Rightarrow> probe_result \<Rightarrow> fail_ratio \<Rightarrow> fail_ratio" where
  "fr_update rnd result fr =
     (let r = (if result = ProbeFailure then 1 else if result = ProbeWarning then 1 / 2 else 0)
      in fr\<lparr>fr_count := fr_count fr + 1, fr_avg1 := cal_fail_ratio rnd (fr_avg1 fr) exp1 r,
            fr_avg5 := cal_fail_ratio rnd (fr_avg5 fr) exp5 r, fr_avg15 := cal_fail_ratio rnd (fr_avg15 fr) exp15 r\<rparr>)"

text \<open>What is relied on of the rounding of IEEE 754: it is monotone and exact on small integers.\<close>

definition ieee_rounding :: "(real \<Rightarrow> real) \<Rightarrow> bool" where
  "ieee_rounding rnd \<longleftrightarrow> mono rnd \<and> (\<forall>k. \<bar>k\<bar> \<le> 2 ^ 53 \<longrightarrow> rnd (of_int k) = of_int k)"

subsection \<open>The manager\<close>

record esb =
  esb_host :: bytes
  esb_port :: bytes
  esb_failRatio :: fail_ratio

record service =
  se_stage :: stage
  se_name :: bytes
  se_types :: string
  se_apiVersion :: bytes
  se_route :: "route_cfg option"
  se_failRatio :: fail_ratio
  se_expectInstance :: int
  se_esbFailRatio :: "(bytes, fail_ratio) fmap"
  se_instances :: "instance_info list"

text \<open>The manager of ZooKeeper: the names in the order they are listed, the nodes, the routes.\<close>

record zk_view =
  zv_deployments :: "bytes list"
  zv_instances :: "bytes \<Rightarrow> bytes + service_node list"
  zv_route :: "bytes \<Rightarrow> bytes + route_cfg option"

definition view_of :: "zk_manager \<Rightarrow> bytes list \<Rightarrow> zk_view" where
  "view_of m names = \<lparr>zv_deployments = names, zv_instances = (\<lambda>n. Inr (get_instance_list m n)),
     zv_route = (\<lambda>n. Inr (get_route_config m n))\<rparr>"

definition get_route_version :: "route_cfg option \<Rightarrow> bytes" where
  "get_route_version cfg =
     (case cfg of
        None \<Rightarrow> []
      | Some rc \<Rightarrow>
          (case find (\<lambda>v. mt_key (ri_dst v) = ''version'') (rt_items rc) of
             None \<Rightarrow> []
           | Some v \<Rightarrow> if length (mt_value (ri_dst v)) \<ge> 1 then mt_value (ri_dst v) ! 0 else []))"

subsection \<open>Instances and versions\<close>

datatype alert_why = InstancesDiffer nat nat | CheckFailed "bytes list" | VersionsDiffer bytes "(bytes \<times> bytes) list"

record alert_msg =
  al_proj :: bytes
  al_env :: bytes
  al_name :: bytes
  al_why :: alert_why
  al_zkHosts :: bytes
  al_actualHosts :: bytes

text \<open>
  \<open>run\<close> gives the running instances of a deploy key in the order of the map; the hosts are sorted each time one is
  added, which leaves them sorted.
\<close>

fun host_alerts ::
  "stage \<Rightarrow> zk_view \<Rightarrow> (bytes \<Rightarrow> instance_info list) \<Rightarrow> bytes list \<Rightarrow> bytes list \<times> alert_msg list \<Rightarrow> bytes list \<times> alert_msg list" where
  "host_alerts st zk run [] acc = acc"
| "host_alerts st zk run (v # vs) (merr, alerts) =
     (case zv_instances zk v of
        Inl err \<Rightarrow> host_alerts st zk run vs (merr @ [err], alerts)
      | Inr ss \<Rightarrow>
          (let insMap = run (''java/'' @ v) in
           if length ss \<noteq> length insMap then
             host_alerts st zk run vs (merr, alerts @
               [\<lparr>al_proj = hd (split_byte CHR '':'' v), al_env = stage_string st, al_name = v,
                 al_why = InstancesDiffer (length ss) (length insMap),
                 al_zkHosts = join '', '' (sort (map sn_host ss)),
                 al_actualHosts = join '', '' (sort (map ins_ip insMap))\<rparr>])
           else host_alerts st zk run vs (merr, alerts)))"

definition check_hosts :: "stage \<Rightarrow> zk_view \<Rightarrow> (bytes \<Rightarrow> instance_info list) \<Rightarrow> bytes list \<times> alert_msg list" where
  "check_hosts st zk run =
     (case host_alerts st zk run (zv_deployments zk) ([], []) of
        (merr, alerts) \<Rightarrow>
          (merr, if merr = [] then alerts
                 else alerts @ [\<lparr>al_proj = [], al_env = stage_string st, al_name = [], al_why = CheckFailed merr,
                                 al_zkHosts = [], al_actualHosts = []\<rparr>]))"

text \<open>\<open>checkZKVersion\<close> collects errors and alerts and drops both.\<close>

fun version_alerts ::
  "stage \<Rightarrow> zk_view \<Rightarrow> bytes list \<Rightarrow> bytes list \<times> alert_msg list \<Rightarrow> bytes list \<times> alert_msg list" where
  "version_alerts st zk [] acc = acc"
| "version_alerts st zk (v # vs) (merr, alerts) =
     (case zv_instances zk v of
        Inl err \<Rightarrow> version_alerts st zk vs (merr @ [err], alerts)
      | Inr ss \<Rightarrow>
          if length ss = 0 then version_alerts st zk vs (merr, alerts)
          else
            (case zv_route zk v of
               Inl err \<Rightarrow> version_alerts st zk vs (merr @ [err], alerts)
             | Inr rcfg \<Rightarrow>
                 (let ver = get_route_version rcfg in
                  if ver = [] then version_alerts st zk vs (merr, alerts)
                  else
                    (let other = filter (\<lambda>s. sn_version s \<noteq> ver) ss in
                     if length other > 0 then
                       version_alerts st zk vs (merr, alerts @
                         [\<lparr>al_proj = hd (split_byte CHR '':'' v), al_env = stage_string st, al_name = v,
                           al_why = VersionsDiffer ver (map (\<lambda>s. (sn_nodeName s, sn_version s)) other),
                           al_zkHosts = [], al_actualHosts = []\<rparr>])
                     else version_alerts st zk vs (merr, alerts)))))"

definition check_zk_version :: "stage \<Rightarrow> zk_view \<Rightarrow> bytes option" where
  "check_zk_version st zk = (let (merr, alerts) = version_alerts st zk (zv_deployments zk) ([], []) in None)"

text \<open>\<open>load\<close>: what the first node says of the service.\<close>

fun load_services ::
  "stage \<Rightarrow> zk_view \<Rightarrow> (bytes \<Rightarrow> instance_info list) \<Rightarrow> bytes list \<Rightarrow> (bytes, service) fmap \<Rightarrow> (bytes, service) fmap" where
  "load_services st zk run [] services = services"
| "load_services st zk run (v # vs) services =
     (case zv_instances zk v of
        Inl err \<Rightarrow> load_services st zk run vs services
      | Inr [] \<Rightarrow> load_services st zk run vs services
      | Inr (s # ss) \<Rightarrow>
          (let ty = (if sn_type s = 1 \<or> sn_port s > 0 then ServiceService else ServiceDaemon);
               rcfg = (case zv_route zk v of Inl err \<Rightarrow> None | Inr rc \<Rightarrow> rc);
               serv = \<lparr>se_stage = st, se_name = v, se_types = ty, se_apiVersion = sn_apiVersion s, se_route = rcfg,
                       se_failRatio = new_fail_ratio, se_expectInstance = 0, se_esbFailRatio = fmempty,
                       se_instances = run (''java/'' @ v)\<rparr>
           in load_services st zk run vs (fmupd v serv services)))"

subsection \<open>Probing\<close>

text \<open>A nil iterator is \<open>None\<close>; interfaces are of any type.\<close>

record 'i iface_iter =
  it_idx :: nat
  it_interfaces :: "'i list"

definition to_iterator :: "'i list \<Rightarrow> 'i iface_iter option" where
  "to_iterator ifs = (if length ifs = 0 then None else Some \<lparr>it_idx = length ifs, it_interfaces = ifs\<rparr>)"

definition iter_next :: "'i iface_iter option \<Rightarrow> ('i option \<times> 'i iface_iter option) go" where
  "iter_next iter =
     (case iter of
        None \<Rightarrow> Some (None, None)
      | Some it \<Rightarrow>
          if length (it_interfaces it) = 0 then Some (None, Some it)
          else
            (let idx = it_idx it + 1;
                 idx = (if idx \<ge> length (it_interfaces it) then 0 else idx)
             in map_option (\<lambda>i. (Some i, Some (it\<lparr>it_idx := idx\<rparr>))) (byte_at (it_interfaces it) idx)))"

definition num_version :: "service \<Rightarrow> nat" where
  "num_version s = length (remdups (map ins_version (se_instances s)))"

text \<open>The name of the gateway is not used: the label is always the same.\<close>

definition labels_and_fields ::
  "stage \<Rightarrow> bytes \<Rightarrow> bytes \<Rightarrow> fail_ratio \<Rightarrow> (bytes \<times> bytes) list \<times> (bytes \<times> real gval) list" where
  "labels_and_fields st name e fr =
     ([(''env'', stage_string st), (''service'', name), (''esb'', ''all'')],
      [(''failRatio1'', GFloat64 (fr_avg1 fr)), (''failRatio5'', GFloat64 (fr_avg5 fr)), (''failRatio15'', GFloat64 (fr_avg15 fr)),
       (''probecount'', GInt (word_of_int (fr_count fr)))])"

definition measurement :: bytes where "measurement = ''java_service''"

text \<open>
  The metric of a service or of one of its gateways; \<open>new\<close> is \<open>metric.New\<close>, that is \<open>new_metric\<close> in some order of
  the two maps, and a metric that could not be made is nil.
\<close>

type_synonym metric_maker = "bytes \<Rightarrow> (bytes \<times> bytes) list \<Rightarrow> (bytes \<times> real gval) list \<Rightarrow> int \<Rightarrow> (new_error + metric) go"

definition service_metric :: "metric_maker \<Rightarrow> stage \<Rightarrow> bytes \<Rightarrow> bytes \<Rightarrow> fail_ratio \<Rightarrow> service \<Rightarrow> int \<Rightarrow> metric option go" where
  "service_metric new st name e fr s now =
     (let (label, field) = labels_and_fields st name e fr;
          label = label @ [(''version'', se_apiVersion s)];
          field = field @ [(''numInstances'', GInt (of_nat (length (se_instances s)))), (''numVersions'', GInt (of_nat (num_version s)))]
      in map_option (\<lambda>r. case r of Inl err \<Rightarrow> None | Inr mtr \<Rightarrow> Some mtr) (new measurement label field now))"

text \<open>
  \<open>StartProbe\<close>: its local variables with the service, what is probed at each tick, and the metrics that were sent.
  The channel of metrics holds 200 of them.
\<close>

record 'i probe_loop =
  pl_esbs :: "esb list"
  pl_iter :: "'i iface_iter option"
  pl_idx :: nat
  pl_service :: service
  pl_mchan :: "metric option list"
  pl_probed :: "(esb \<times> 'i) list"

definition esb_url :: "esb \<Rightarrow> bytes" where
  "esb_url e = esb_host e @ '':'' @ esb_port e"

text \<open>A tick of the loop; \<open>probe\<close> is \<open>pjava.Probe\<close> at a gateway and an interface.\<close>

definition probe_tick ::
  "(real \<Rightarrow> real) \<Rightarrow> metric_maker \<Rightarrow> stage \<Rightarrow> int \<Rightarrow> (bytes \<Rightarrow> 'i \<Rightarrow> probe_result) \<Rightarrow> 'i probe_loop \<Rightarrow> 'i probe_loop outcome" where
  "probe_tick rnd new st now probe l =
     (if length (pl_esbs l) = 0 then Returns l
      else
        (case iter_next (pl_iter l) of
           None \<Rightarrow> Panics
         | Some (None, iter) \<Rightarrow> Returns (l\<lparr>pl_iter := iter\<rparr>)
         | Some (Some iface, iter) \<Rightarrow>
             (let idx = (if pl_idx l > length (pl_esbs l) then 0 else pl_idx l) in
              case byte_at (pl_esbs l) idx of
                None \<Rightarrow> Panics
              | Some e \<Rightarrow>
                  (let ret = probe (''http://'' @ esb_url e) iface;
                       s = (pl_service l)\<lparr>se_failRatio := fr_update rnd ret (se_failRatio (pl_service l))\<rparr>;
                       url = esb_url e;
                       ef = (case fmlookup (se_esbFailRatio s) url of None \<Rightarrow> new_fail_ratio | Some ef \<Rightarrow> ef);
                       ef = fr_update rnd ret ef;
                       s = s\<lparr>se_esbFailRatio := fmupd url ef (se_esbFailRatio s)\<rparr>
                   in case service_metric new st (se_name s) url ef s now of
                        None \<Rightarrow> Panics
                      | Some mtr \<Rightarrow>
                          if length (pl_mchan l) < 200 then
                            Returns \<lparr>pl_esbs = (pl_esbs l)[idx := e\<lparr>esb_failRatio := fr_update rnd ret (esb_failRatio e)\<rparr>],
                                     pl_iter = iter, pl_idx = idx, pl_service = s, pl_mchan = pl_mchan l @ [mtr],
                                     pl_probed = pl_probed l @ [(e, iface)]\<rparr>
                          else Waits))))"

text \<open>What the timer does, once: new gateways and interfaces, and the errors that are sent for none.\<close>

definition probe_update :: "esb list \<Rightarrow> 'i list option \<Rightarrow> 'i probe_loop \<Rightarrow> 'i probe_loop \<times> bytes list" where
  "probe_update esbs ifs l =
     (l\<lparr>pl_esbs := esbs, pl_iter := to_iterator (case ifs of None \<Rightarrow> [] | Some is \<Rightarrow> is)\<rparr>,
      (if length esbs = 0 then [''no esb for apiVersion''] else []) @
      (if ifs = None then [''no dial interface configed to prbe''] else []))"

definition start_probe :: "(bytes, service) fmap \<Rightarrow> (bytes, esb list) fmap \<Rightarrow> 'i list \<Rightarrow> bytes \<Rightarrow> bytes + 'i probe_loop" where
  "start_probe services esbs ifs name =
     (case fmlookup services name of
        None \<Rightarrow> Inl ''java deployment not exist''
      | Some s \<Rightarrow>
          (case (case fmlookup esbs (se_apiVersion s) of None \<Rightarrow> [] | Some es \<Rightarrow> es) of
             [] \<Rightarrow> Inl ''no esb for apiVersion''
           | es \<Rightarrow> Inr \<lparr>pl_esbs = es, pl_iter = to_iterator ifs, pl_idx = 0, pl_service = s, pl_mchan = [], pl_probed = []\<rparr>))"

text \<open>The rounds of the loop, with the answers of the probes.\<close>

fun probe_ticks ::
  "(real \<Rightarrow> real) \<Rightarrow> metric_maker \<Rightarrow> stage \<Rightarrow> (int \<times> (bytes \<Rightarrow> 'i \<Rightarrow> probe_result)) list \<Rightarrow> 'i probe_loop \<Rightarrow> 'i probe_loop outcome" where
  "probe_ticks rnd new st [] l = Returns l"
| "probe_ticks rnd new st ((now, probe) # ts) l =
     (case probe_tick rnd new st now probe l of
        Returns l \<Rightarrow> probe_ticks rnd new st ts l | Panics \<Rightarrow> Panics | Exits \<Rightarrow> Exits | Waits \<Rightarrow> Waits)"

text \<open>The metrics of a report: the slice is made with as many nil elements as there are services, and appended to.\<close>

fun append_metrics ::
  "metric_maker \<Rightarrow> stage \<Rightarrow> int \<Rightarrow> (bytes \<times> service) list \<Rightarrow> metric option list \<Rightarrow> metric option list go" where
  "append_metrics new st now [] metrics = Some metrics"
| "append_metrics new st now ((n, v) # services) metrics =
     (case service_metric new st n ''all'' (se_failRatio v) v now of
        None \<Rightarrow> None
      | Some mtr \<Rightarrow> append_metrics new st now services (metrics @ [mtr]))"

definition report_metrics :: "metric_maker \<Rightarrow> stage \<Rightarrow> int \<Rightarrow> (bytes \<times> service) list \<Rightarrow> metric option list go" where
  "report_metrics new st now services = append_metrics new st now services (replicate (length services) None)"

subsection \<open>Properties\<close>

definition differ_alert :: "stage \<Rightarrow> zk_manager \<Rightarrow> (bytes \<Rightarrow> instance_info list) \<Rightarrow> bytes \<Rightarrow> alert_msg" where
  "differ_alert st m run v = \<lparr>al_proj = hd (split_byte CHR '':'' v), al_env = stage_string st, al_name = v,
     al_why = InstancesDiffer (length (node_list m v)) (length (run (''java/'' @ v))),
     al_zkHosts = join '', '' (sort (map sn_host (get_instance_list m v))),
     al_actualHosts = join '', '' (sort (map ins_ip (run (''java/'' @ v))))\<rparr>"

lemma length_instance_list: "length (get_instance_list m v) = length (node_list m v)"
  by (auto simp: get_instance_list_def node_list_def split: option.splits)

lemma instance_list_last: "node_list m v \<noteq> [] \<Longrightarrow> get_instance_list m v = replicate (length (node_list m v)) (last (node_list m v))"
  by (auto simp: get_instance_list_def node_list_def split: option.splits)

lemma host_alerts_view:
  "host_alerts st (view_of m ns) run vs (merr, alerts) = (merr, alerts @ map (differ_alert st m run)
     (filter (\<lambda>v. length (node_list m v) \<noteq> length (run (''java/'' @ v))) vs))"
proof (induction vs arbitrary: alerts)
  case (Cons v vs)
  then show ?case by (simp add: view_of_def differ_alert_def length_instance_list Let_def)
qed simp

text \<open>
  the check of the instances raises an alert for exactly the deployments in ZooKeeper of which another number of
  instances runs, in the order in which they are listed.
\<close>

theorem check_hosts_exact:
  "check_hosts st (view_of m names) run = ([], map (differ_alert st m run)
     (filter (\<lambda>v. length (node_list m v) \<noteq> length (run (''java/'' @ v))) names))"
  using host_alerts_view [of st m names run names "[]" "[]"]
  by (simp add: check_hosts_def view_of_def)

definition stale_last :: "zk_manager \<Rightarrow> bytes \<Rightarrow> bool" where
  "stale_last m v \<longleftrightarrow> node_list m v \<noteq> [] \<and> get_route_version (get_route_config m v) \<noteq> []
     \<and> sn_version (last (node_list m v)) \<noteq> get_route_version (get_route_config m v)"

lemma version_alerts_view:
  "map al_name (snd (version_alerts st (view_of m ns) vs (merr, alerts))) = map al_name alerts @ filter (stale_last m) vs
   \<and> fst (version_alerts st (view_of m ns) vs (merr, alerts)) = merr"
proof (induction vs arbitrary: alerts)
  case (Cons v vs)
  let ?ver = "get_route_version (get_route_config m v)"
  show ?case
  proof (cases "node_list m v = []")
    case True
    then have "get_instance_list m v = []" using length_instance_list [of m v] by simp
    then show ?thesis using Cons.IH True by (simp add: view_of_def stale_last_def)
  next
    case False
    then have l: "get_instance_list m v = replicate (length (node_list m v)) (last (node_list m v))" by (rule instance_list_last)
    show ?thesis using Cons.IH False by (simp add: view_of_def stale_last_def l Let_def)
  qed
qed simp

text \<open>
  of the nodes of a deployment only the version of the last one is compared with the route: an alert is made exactly
  if that one differs, however many others do; and then no alert and no error leaves the check.
\<close>

theorem version_check_last_node:
  "map al_name (snd (version_alerts st (view_of m names) names ([], []))) = filter (stale_last m) names
   \<and> check_zk_version st (view_of m names) = None"
  using version_alerts_view [of st m names names "[]" "[]"] by (simp add: check_zk_version_def split: prod.split)

lemma round_int:
  assumes "ieee_rounding rnd" "of_int a \<le> x" "x \<le> of_int b" "\<bar>a\<bar> \<le> 2 ^ 53" "\<bar>b\<bar> \<le> 2 ^ 53"
  shows "of_int a \<le> rnd x" "rnd x \<le> of_int b"
  using assms monoD [of rnd "of_int a" x] monoD [of rnd x "of_int b"] by (auto simp: ieee_rounding_def)

lemma cal_fail_ratio_unit:
  assumes r: "ieee_rounding rnd" and o: "0 \<le> old" "old \<le> 1" and n: "0 \<le> n" "n \<le> 1" and e: "e = of_int k" "0 \<le> k" "k \<le> 2048"
  shows "0 \<le> cal_fail_ratio rnd old e n" "cal_fail_ratio rnd old e n \<le> 1"
proof -
  have small: "\<bar>j\<bar> \<le> 2 ^ 53" if "0 \<le> j" "j \<le> 2048" for j :: int using that by simp
  have fk: "fixed1 - e = of_int (2048 - k)" using e(1) by (simp add: fixed1_def fshift_def)
  have "rnd (of_int (2048 - k)) = of_int (2048 - k)"
    using r small [of "2048 - k"] e(2,3) unfolding ieee_rounding_def by fastforce
  then have d: "rnd (fixed1 - e) = of_int (2048 - k)" unfolding fk .
  have x1: "0 \<le> rnd (old * e)" "rnd (old * e) \<le> of_int k"
    using round_int [OF r, of 0 "old * e" k] small [of k] o e by (auto simp: mult_left_le_one_le)
  have x2: "0 \<le> rnd (n * of_int (2048 - k))" "rnd (n * of_int (2048 - k)) \<le> of_int (2048 - k)"
    using round_int [OF r, of 0 "n * of_int (2048 - k)" "2048 - k"] small [of "2048 - k"] n e
    by (auto simp: mult_left_le_one_le)
  let ?x = "rnd (old * e) + rnd (n * of_int (2048 - k))"
  have x3: "0 \<le> rnd ?x" "rnd ?x \<le> 2048"
    using round_int [OF r, of 0 ?x 2048] x1 x2 by auto
  have "0 \<le> rnd (rnd ?x / 2048)" "rnd (rnd ?x / 2048) \<le> 1"
    using round_int [OF r, of 0 "rnd ?x / 2048" 1] x3 by auto
  then show "0 \<le> cal_fail_ratio rnd old e n" "cal_fail_ratio rnd old e n \<le> 1"
    unfolding cal_fail_ratio_def Let_def d by (simp_all add: fixed1_def fshift_def)
qed

definition unit_ratio :: "fail_ratio \<Rightarrow> bool" where
  "unit_ratio fr \<longleftrightarrow> (\<forall>x \<in> {fr_avg1 fr, fr_avg5 fr, fr_avg15 fr}. 0 \<le> x \<and> x \<le> 1)"

lemma fr_update_unit: "ieee_rounding rnd \<Longrightarrow> unit_ratio fr \<Longrightarrow> unit_ratio (fr_update rnd res fr)"
proof -
  assume r: "ieee_rounding rnd" and u: "unit_ratio fr"
  let ?n = "if res = ProbeFailure then 1 else if res = ProbeWarning then 1 / 2 else 0 :: real"
  have n: "0 \<le> ?n" "?n \<le> 1" by auto
  have c: "0 \<le> cal_fail_ratio rnd x e ?n \<and> cal_fail_ratio rnd x e ?n \<le> 1"
    if "0 \<le> x" "x \<le> 1" "e \<in> {1884, 2014, 2037}" for x e
    using cal_fail_ratio_unit [OF r that(1,2) n, of e "\<lfloor>e\<rfloor>"] that(3) by fastforce
  show "unit_ratio (fr_update rnd res fr)"
    using u c [of "fr_avg1 fr" exp1] c [of "fr_avg5 fr" exp5] c [of "fr_avg15 fr" exp15]
    by (simp add: unit_ratio_def fr_update_def exp1_def exp5_def exp15_def Let_def)
qed

lemma fr_update_count: "fr_count (fr_update rnd res fr) = fr_count fr + 1"
  by (simp add: fr_update_def Let_def)

text \<open>
  C39: whatever the results of the probes, the three averages of failures stay between 0 and 1 under the rounding of
  floating point numbers, and the number of probes is counted.
\<close>

theorem fail_ratio_bounded:
  assumes "ieee_rounding rnd"
  shows "unit_ratio (foldl (\<lambda>fr r. fr_update rnd r fr) new_fail_ratio results)
    \<and> fr_count (foldl (\<lambda>fr r. fr_update rnd r fr) new_fail_ratio results) = int (length results)"
proof (induction results rule: rev_induct)
  case Nil
  then show ?case by (simp add: unit_ratio_def new_fail_ratio_def)
next
  case (snoc r results)
  then show ?case using fr_update_unit [OF assms] by (simp add: fr_update_count)
qed

theorem fail_ratio_bounded_witness:
  "unit_ratio (foldl (\<lambda>fr r. fr_update id r fr) new_fail_ratio [ProbeFailure, ProbeSuccess, ProbeWarning])"
proof -
  have "ieee_rounding id" by (simp add: ieee_rounding_def monoI)
  from fail_ratio_bounded [OF this] show ?thesis by blast
qed

fun iter_calls :: "nat \<Rightarrow> 'i iface_iter option \<Rightarrow> 'i list go" where
  "iter_calls 0 it = Some []"
| "iter_calls (Suc n) it =
     (case iter_next it of
        None \<Rightarrow> None
      | Some (None, it) \<Rightarrow> iter_calls n it
      | Some (Some i, it) \<Rightarrow> map_option ((#) i) (iter_calls n it))"

lemma iter_next_at:
  assumes "k \<le> length ifs" "0 < length ifs"
  shows "iter_next (Some \<lparr>it_idx = k, it_interfaces = ifs\<rparr>)
    = Some (Some (ifs ! (if Suc k < length ifs then Suc k else 0)),
            Some \<lparr>it_idx = (if Suc k < length ifs then Suc k else 0), it_interfaces = ifs\<rparr>)"
  using assms by (auto simp: iter_next_def Let_def)

lemma iter_calls_from:
  assumes "k < length ifs"
  shows "iter_calls n (Some \<lparr>it_idx = k, it_interfaces = ifs\<rparr>) = Some (map (\<lambda>j. ifs ! ((Suc k + j) mod length ifs)) [0..<n])"
  using assms
proof (induction n arbitrary: k)
  case (Suc n)
  let ?k = "if Suc k < length ifs then Suc k else 0"
  have k: "?k < length ifs" using Suc.prems by auto
  have m: "?k = Suc k mod length ifs"
  proof (cases "Suc k < length ifs")
    case False
    then have "Suc k = length ifs" using Suc.prems by simp
    then show ?thesis by simp
  qed simp
  have "(Suc ?k + j) mod length ifs = (Suc k + Suc j) mod length ifs" for j
    unfolding m using mod_add_left_eq [of "Suc k" "length ifs" "Suc j"] by simp
  then have "iter_calls n (Some \<lparr>it_idx = ?k, it_interfaces = ifs\<rparr>) = Some (map (\<lambda>j. ifs ! ((Suc k + Suc j) mod length ifs)) [0..<n])"
    using Suc.IH [OF k] by simp
  moreover have "map f [0..<Suc n] = f 0 # map (\<lambda>j. f (Suc j)) [0..<n]" for f :: "nat \<Rightarrow> 'a"
    by (simp add: upt_conv_Cons map_Suc_upt [symmetric] comp_def del: upt_Suc)
  moreover have "iter_next (Some \<lparr>it_idx = k, it_interfaces = ifs\<rparr>) = Some (Some (ifs ! ?k), Some \<lparr>it_idx = ?k, it_interfaces = ifs\<rparr>)"
    using Suc.prems by (intro iter_next_at) auto
  then have "iter_calls (Suc n) (Some \<lparr>it_idx = k, it_interfaces = ifs\<rparr>)
      = map_option ((#) (ifs ! ?k)) (iter_calls n (Some \<lparr>it_idx = ?k, it_interfaces = ifs\<rparr>))"
    by (simp only: iter_calls.simps option.case prod.case)
  ultimately show ?case using m by (simp del: upt_Suc iter_calls.simps)
qed simp

text \<open>
  the iterator of a service goes over its interfaces one after the other, beginning with the first and starting again
  after the last, and is never out of range; without interfaces it gives none.
\<close>

theorem iterator_round_robin:
  "iter_calls n (to_iterator ifs) = Some (if ifs = [] then [] else map (\<lambda>j. ifs ! (j mod length ifs)) [0..<n])"
proof (cases "ifs = []")
  case True
  have "iter_calls n (None :: 'a iface_iter option) = Some []" by (induction n) (auto simp: iter_next_def)
  then show ?thesis using True by (simp add: to_iterator_def)
next
  case False
  show ?thesis
  proof (cases n)
    case (Suc i)
    have "iter_calls i (Some \<lparr>it_idx = 0, it_interfaces = ifs\<rparr>) = Some (map (\<lambda>j. ifs ! (Suc j mod length ifs)) [0..<i])"
      using iter_calls_from [of 0 ifs i] False by simp
    moreover have "map f [0..<Suc i] = f 0 # map (\<lambda>j. f (Suc j)) [0..<i]" for f :: "nat \<Rightarrow> 'a"
      by (simp add: upt_conv_Cons map_Suc_upt [symmetric] comp_def del: upt_Suc)
    ultimately show ?thesis
      using False Suc iter_next_at [of "length ifs" ifs] by (simp add: to_iterator_def del: upt_Suc)
  qed (use False in \<open>simp add: to_iterator_def\<close>)
qed

definition first_only :: "'i probe_loop \<Rightarrow> 'i probe_loop \<Rightarrow> bool" where
  "first_only l0 l \<longleftrightarrow> pl_idx l = 0 \<and> map esb_url (pl_esbs l) = map esb_url (pl_esbs l0)
     \<and> list_all (\<lambda>p. esb_url (fst p) = esb_url (hd (pl_esbs l0))) (pl_probed l)"

lemma probe_tick_first:
  assumes "probe_tick rnd new st now probe l = Returns l'" "first_only l0 l"
  shows "first_only l0 l'"
proof (cases "pl_esbs l")
  case Nil
  then show ?thesis using assms by (simp add: probe_tick_def)
next
  case (Cons e es)
  have "esb_url e = esb_url (hd (pl_esbs l0))"
    using assms(2) Cons by (cases "pl_esbs l0") (auto simp: first_only_def)
  moreover have "esb_url (e\<lparr>esb_failRatio := r\<rparr>) = esb_url e" for r by (simp add: esb_url_def)
  ultimately show ?thesis
    using assms Cons
    by (auto simp: probe_tick_def first_only_def Let_def split: option.splits if_splits)
qed

lemma probe_ticks_first:
  "probe_ticks rnd new st ts l = Returns l' \<Longrightarrow> first_only l0 l \<Longrightarrow> first_only l0 l'"
proof (induction rnd new st ts l rule: probe_ticks.induct)
  case (2 rnd new st now probe ts l)
  then show ?case by (cases "probe_tick rnd new st now probe l") (auto intro: probe_tick_first)
qed simp

text \<open>
  every probe of a service goes to the first of its gateways, whatever the answers are and however many gateways
  there are: the index is never moved on.
\<close>

theorem probes_first_gateway:
  assumes "start_probe services esbs ifs name = Inr l0" "probe_ticks rnd new st ts l0 = Returns l"
  shows "\<exists>s es. fmlookup services name = Some s \<and> fmlookup esbs (se_apiVersion s) = Some es
    \<and> (\<forall>p \<in> set (pl_probed l). esb_url (fst p) = esb_url (hd es))"
proof -
  obtain s where s: "fmlookup services name = Some s" using assms(1) by (auto simp: start_probe_def split: option.splits)
  then obtain e es where e: "fmlookup esbs (se_apiVersion s) = Some (e # es)"
    using assms(1) by (auto simp: start_probe_def split: option.splits list.splits)
  then have l0: "pl_esbs l0 = e # es" "first_only l0 l0" using assms(1) s by (auto simp: start_probe_def first_only_def)
  then have "first_only l0 l" using probe_ticks_first [OF assms(2)] by blast
  then show ?thesis using s e l0(1) by (simp add: first_only_def list_all_iff)
qed

definition crm_service :: service where
  "crm_service = \<lparr>se_stage = Dev, se_name = ''crm:server'', se_types = ServiceService, se_apiVersion = APIV4, se_route = None,
     se_failRatio = new_fail_ratio, se_expectInstance = 0, se_esbFailRatio = fmempty, se_instances = []\<rparr>"

definition esb_at :: "bytes \<Rightarrow> esb" where
  "esb_at h = \<lparr>esb_host = h, esb_port = ''80'', esb_failRatio = new_fail_ratio\<rparr>"

definition no_metric :: metric_maker where
  "no_metric = (\<lambda>_ _ _ _. Some (Inl NoFields))"

theorem probes_first_gateway_witness:
  "\<exists>l. (case start_probe (fmupd ''crm:server'' crm_service fmempty) (fmupd APIV4 [esb_at ''a'', esb_at ''b''] fmempty) [''ping''] ''crm:server'' of
        Inl _ \<Rightarrow> Waits | Inr l0 \<Rightarrow> probe_ticks id no_metric Dev [(0, \<lambda>_ _. ProbeSuccess), (5, \<lambda>_ _. ProbeFailure)] l0) = Returns l
     \<and> length (pl_probed l) = 2 \<and> (\<forall>p \<in> set (pl_probed l). esb_url (fst p) = ''a:80'')"
proof -
  let ?S = "fmupd ''crm:server'' crm_service fmempty" and ?E = "fmupd APIV4 [esb_at ''a'', esb_at ''b''] fmempty"
  obtain l0 where l0: "start_probe ?S ?E [''ping''] ''crm:server'' = Inr l0" "pl_esbs l0 = [esb_at ''a'', esb_at ''b'']"
    "pl_iter l0 = Some \<lparr>it_idx = 1, it_interfaces = [''ping'']\<rparr>" "pl_idx l0 = 0" "pl_mchan l0 = []" "pl_probed l0 = []"
    by (simp add: start_probe_def crm_service_def to_iterator_def)
  have "\<exists>l. probe_ticks id no_metric Dev [(0, \<lambda>_ _. ProbeSuccess), (5, \<lambda>_ _. ProbeFailure)] l0 = Returns l \<and> length (pl_probed l) = 2"
    by (simp add: probe_tick_def l0(2-) iter_next_def service_metric_def no_metric_def labels_and_fields_def Let_def)
  then obtain l where l: "probe_ticks id no_metric Dev [(0, \<lambda>_ _. ProbeSuccess), (5, \<lambda>_ _. ProbeFailure)] l0 = Returns l" "length (pl_probed l) = 2"
    by blast
  have u: "esb_url (esb_at ''a'') = ''a:80''" by (simp add: esb_url_def esb_at_def)
  from probes_first_gateway [OF l0(1) l(1)] have "\<forall>p \<in> set (pl_probed l). esb_url (fst p) = ''a:80''"
    by (simp add: crm_service_def u)
  then show ?thesis using l l0(1) by simp
qed

lemma append_metrics_prefix:
  "append_metrics new st now services ms = Some ms' \<Longrightarrow> \<exists>more. ms' = ms @ more \<and> length more = length services"
  by (induction new st now services ms rule: append_metrics.induct) (fastforce split: option.splits)+

text \<open>
  a report of the services begins with as many nil metrics as there are services, in front of the metrics that were
  made.
\<close>

theorem report_starts_with_nil:
  assumes "report_metrics new st now services = Some ms"
  shows "\<exists>more. ms = replicate (length services) None @ more \<and> length more = length services"
  using append_metrics_prefix [of new st now services "replicate (length services) None" ms] assms
  by (simp add: report_metrics_def)

theorem report_starts_with_nil_witness:
  "\<exists>ms. report_metrics no_metric Dev 0 [(''crm:server'', crm_service)] = Some (None # ms)"
proof -
  have "\<exists>ms. report_metrics no_metric Dev 0 [(''crm:server'', crm_service)] = Some ms"
    by (simp add: report_metrics_def service_metric_def no_metric_def labels_and_fields_def)
  then obtain ms where "report_metrics no_metric Dev 0 [(''crm:server'', crm_service)] = Some ms" ..
  from report_starts_with_nil [OF this] this show ?thesis by auto
qed

end
