(* ===== verification/GoText.thy ===== *)
theory GoText
  imports GoLib
begin

text \<open>
  More functions of the packages \<open>strings\<close>, \<open>strconv\<close>, \<open>encoding/hex\<close> and \<open>net\<close>, for texts that the operating system
  writes.  The texts are ASCII: of the spaces of Unicode only those are known that are one byte long.
\<close>

subsection \<open>Spaces and fields\<close>

definition space_char :: "char \<Rightarrow> bool" where
  "space_char c \<longleftrightarrow> c \<in> {CHR '' '', CHR 0x09, CHR 0x0A, CHR 0x0B, CHR 0x0C, CHR 0x0D}"

text \<open>\<open>strings.TrimSpace\<close> and \<open>strings.Fields\<close>; the first argument of the loop is the field that is being read.\<close>

definition trim_space :: "bytes \<Rightarrow> bytes" where
  "trim_space s = rev (dropWhile space_char (rev (dropWhile space_char s)))"

fun str_fields_loop :: "bytes \<Rightarrow> bytes \<Rightarrow> bytes list" where
  "str_fields_loop w [] = (if w = [] then [] else [w])"
| "str_fields_loop w (c # cs) =
     (if space_char c then (if w = [] then str_fields_loop [] cs else w # str_fields_loop [] cs) else str_fields_loop (w @ [c]) cs)"

definition str_fields :: "bytes \<Rightarrow> bytes list" where
  "str_fields s = str_fields_loop [] s"

definition word :: "bytes \<Rightarrow> bool" where
  "word w \<longleftrightarrow> w \<noteq> [] \<and> (\<forall>c \<in> set w. \<not> space_char c)"

lemma str_fields_loop_word: "\<forall>c \<in> set p. \<not> space_char c \<Longrightarrow> str_fields_loop w (p @ s) = str_fields_loop (w @ p) s"
  by (induction p arbitrary: w) auto

lemma fields_word_space:
  assumes "word w" "space_char c"
  shows "str_fields (w @ c # s) = w # str_fields s"
  using str_fields_loop_word [of w "[]" "c # s"] assms by (auto simp: str_fields_def word_def)

lemma str_fields_word [simp]: "word w \<Longrightarrow> str_fields w = [w]"
proof -
  assume "word w"
  then have "w \<noteq> []" "str_fields_loop [] (w @ []) = str_fields_loop w []"
    using str_fields_loop_word [of w "[]" "[]"] by (simp_all add: word_def)
  then show ?thesis by (simp add: str_fields_def)
qed

lemma fields_space: "space_char c \<Longrightarrow> str_fields (c # s) = str_fields s"
  by (simp add: str_fields_def)

lemma fields_join: "\<forall>w \<in> set ws. word w \<Longrightarrow> str_fields (join '' '' ws) = ws"
proof (induction ws rule: induct_list012)
  case (3 w v ws)
  then show ?case using fields_word_space [of w "CHR '' ''" "join '' '' (v # ws)"] by (simp add: space_char_def)
next
  case 1
  show ?case by (simp add: str_fields_def)
qed simp

lemma trim_space_id: "s = [] \<or> \<not> space_char (hd s) \<and> \<not> space_char (last s) \<Longrightarrow> trim_space s = s"
proof (cases "s = []")
  case False
  assume "s = [] \<or> \<not> space_char (hd s) \<and> \<not> space_char (last s)"
  with False have e: "\<not> space_char (hd s)" "\<not> space_char (last s)" by simp_all
  have "dropWhile space_char s = s" using False e(1) by (cases s) simp_all
  moreover have "dropWhile space_char (rev s) = rev s" using False e(2) by (cases s rule: rev_cases) simp_all
  ultimately show ?thesis by (simp add: trim_space_def)
qed (simp add: trim_space_def)

lemma trim_space_edges:
  assumes "trim_space s = t" "t \<noteq> []"
  shows "\<not> space_char (hd t)" "\<not> space_char (last t)"
proof -
  let ?u = "dropWhile space_char s"
  have t: "t = rev (dropWhile space_char (rev ?u))" using assms(1) by (simp add: trim_space_def)
  then have ne: "dropWhile space_char (rev ?u) \<noteq> []" using assms(2) by auto
  have "hd (dropWhile space_char (rev ?u)) = last t" using t ne by (simp add: last_rev)
  then show "\<not> space_char (last t)" using hd_dropWhile [OF ne] by simp
  have "rev ?u = takeWhile space_char (rev ?u) @ dropWhile space_char (rev ?u)" by simp
  then have "?u = t @ rev (takeWhile space_char (rev ?u))" using t by (metis rev_append rev_rev_ident)
  then have "hd t = hd ?u" using assms(2) by (metis hd_append2)
  moreover have "?u \<noteq> []" using ne by (cases ?u) simp_all
  ultimately show "\<not> space_char (hd t)" using hd_dropWhile [of space_char s] by simp
qed

lemma trim_space_idem [simp]: "trim_space (trim_space s) = trim_space s"
  using trim_space_edges [of s "trim_space s"] by (intro trim_space_id) auto

lemma trim_space_subset: "set (trim_space s) \<subseteq> set s"
  by (auto simp: trim_space_def dest!: set_dropWhileD)

subsection \<open>Hexadecimal\<close>

definition hex_val :: "char \<Rightarrow> nat option" where
  "hex_val c =
     (let n = of_char c :: nat in
      if 48 \<le> n \<and> n \<le> 57 then Some (n - 48)
      else if 97 \<le> n \<and> n \<le> 102 then Some (n - 87)
      else if 65 \<le> n \<and> n \<le> 70 then Some (n - 55)
      else None)"

text \<open>\<open>hex.DecodeString\<close>; what it returns with an error is not used.\<close>

fun hex_decode :: "bytes \<Rightarrow> bytes option" where
  "hex_decode [] = Some []"
| "hex_decode [c] = None"
| "hex_decode (c # d # s) =
     (case (hex_val c, hex_val d) of
        (Some a, Some b) \<Rightarrow> map_option ((#) (char_of (16 * a + b))) (hex_decode s)
      | _ \<Rightarrow> None)"

text \<open>
  \<open>strconv.ParseInt\<close> on a text with \<open>0x\<close> in front, to base 0 and 64 bits: hexadecimal digits, at least one, and a
  value below the 63rd power of two.  What it returns with an error is not used.
\<close>

fun parse_hex_loop :: "nat \<Rightarrow> bytes \<Rightarrow> nat option" where
  "parse_hex_loop n [] = Some n"
| "parse_hex_loop n (c # cs) =
     (case hex_val c of
        None \<Rightarrow> None
      | Some d \<Rightarrow> if 16 * n + d \<ge> 2 ^ 64 then None else parse_hex_loop (16 * n + d) cs)"

definition parse_int_hex :: "bytes \<Rightarrow> int option" where
  "parse_int_hex s =
     (if s = [] then None
      else (case parse_hex_loop 0 s of None \<Rightarrow> None | Some n \<Rightarrow> if n \<ge> 2 ^ 63 then None else Some (int n)))"

text \<open>\<open>strconv.ParseInt(s, 10, 32)\<close>.\<close>

definition parse_int32 :: "bytes \<Rightarrow> num_error + int" where
  "parse_int32 s =
     (case parse_int64 s of
        (n, Some e) \<Rightarrow> Inl e
      | (n, None) \<Rightarrow> if - (2 ^ 31) \<le> n \<and> n < 2 ^ 31 then Inr n else Inl ErrRange)"

definition hex_char :: "nat \<Rightarrow> char" where
  "hex_char d = (if d < 10 then char_of (48 + d) else char_of (55 + d))"

definition hex_byte :: "char \<Rightarrow> bytes" where
  "hex_byte c = [hex_char (of_char c div 16), hex_char (of_char c mod 16)]"

lemma hex_val_char [simp]: "d < 16 \<Longrightarrow> hex_val (hex_char d) = Some d"
  by (auto simp: hex_val_def hex_char_def of_char_of Let_def)

lemma hex_decode_bytes [simp]: "hex_decode (concat (map hex_byte s)) = Some s"
proof (induction s)
  case (Cons c s)
  have "of_char c div 16 < (16 :: nat)" using nat_of_char_less_256 [of c] by (simp add: less_mult_imp_div_less)
  moreover have "16 * (of_char c div 16) + of_char c mod 16 = (of_char c :: nat)" by simp
  ultimately show ?case using Cons by (simp add: hex_byte_def)
qed simp

lemma hex_char_not_colon: "d < 16 \<Longrightarrow> hex_char d \<noteq> CHR '':''"
proof
  assume d: "d < 16" and "hex_char d = CHR '':''"
  then have "hex_val (CHR '':'') = Some d" using hex_val_char [OF d] by simp
  then show False by (simp add: hex_val_def)
qed

lemma hex_bytes_no_colon: "CHR '':'' \<notin> set (concat (map hex_byte s))"
proof -
  have "CHR '':'' \<notin> set (hex_byte c)" for c
  proof -
    have "of_char c div 16 < (16 :: nat)" using nat_of_char_less_256 [of c] by (simp add: less_mult_imp_div_less)
    then show ?thesis using hex_char_not_colon [of "of_char c div 16"] hex_char_not_colon [of "of_char c mod 16"]
      by (auto simp: hex_byte_def)
  qed
  then show ?thesis by auto
qed

subsection \<open>Addresses\<close>

text \<open>A group is the four hexadecimal digits of two bytes; \<open>IP.String\<close> writes it without leading zeros.\<close>

definition hex_lower :: "nat \<Rightarrow> char" where
  "hex_lower d = (if d < 10 then char_of (48 + d) else char_of (87 + d))"

definition group_text :: "nat list \<Rightarrow> bytes" where
  "group_text g = map hex_lower (let ds = dropWhile (\<lambda>d. d = 0) g in if ds = [] then [0] else ds)"

fun groups :: "bytes \<Rightarrow> nat list list" where
  "groups (a # b # s) = [of_char a div 16, of_char a mod 16, of_char b div 16, of_char b mod 16] # groups s"
| "groups s = []"

text \<open>The first of the longest runs of zeros: where it begins and how long it is.\<close>

fun zero_run :: "nat \<Rightarrow> nat list list \<Rightarrow> nat \<times> nat" where
  "zero_run i [] = (i, 0)"
| "zero_run i (g # gs) =
     (let n = length (takeWhile (\<lambda>g. g = [0, 0, 0, 0]) (g # gs)); (j, m) = zero_run (Suc i) gs
      in if n \<ge> m then (i, n) else (j, m))"

definition ip6_text :: "bytes \<Rightarrow> bytes" where
  "ip6_text ip =
     (let gs = groups ip; (i, n) = zero_run 0 gs
      in if n < 2 then join '':'' (map group_text gs)
         else join '':'' (map group_text (take i gs)) @ ''::'' @ join '':'' (map group_text (drop (i + n) gs)))"

definition dotted :: "bytes \<Rightarrow> bytes" where
  "dotted ip = join ''.'' (map (\<lambda>c. nat_str (of_char c)) ip)"

definition ip_string :: "bytes \<Rightarrow> bytes" where
  "ip_string ip =
     (if ip = [] then ''<nil>''
      else if length ip = 4 then dotted ip
      else if length ip = 16 then
        if take 12 ip = replicate 10 nulchar @ [CHR 0xFF, CHR 0xFF] then dotted (drop 12 ip) else ip6_text ip
      else ''?'' @ concat (map (\<lambda>c. [hex_lower (of_char c div 16), hex_lower (of_char c mod 16)]) ip))"

subsection \<open>Reversal in place\<close>

text \<open>The loop that swaps from both ends, as the program has it for bytes and for the values of templates.\<close>

function reverse_loop :: "'a list \<Rightarrow> nat \<Rightarrow> nat \<Rightarrow> 'a list" where
  "reverse_loop s i j = (if i < j then reverse_loop (s[i := s ! j, j := s ! i]) (i + 1) (j - 1) else s)"
  by pat_completeness auto
termination by (relation "measure (\<lambda>(s, i, j). j - i)") auto

declare reverse_loop.simps [simp del]

lemma reverse_loop_middle:
  "j + 1 = length xs + length m \<Longrightarrow> i = length xs \<Longrightarrow> reverse_loop (xs @ m @ ys) i j = xs @ rev m @ ys"
proof (induction "length m" arbitrary: xs m ys i j rule: less_induct)
  case less
  show ?case
  proof (cases "i < j")
    case False
    then have "length m \<le> 1" using less.prems by simp
    then have "rev m = m" by (cases m) simp_all
    then show ?thesis using False by (subst reverse_loop.simps) simp
  next
    case True
    then have "length m \<ge> 2" using less.prems by simp
    then obtain a n b where m: "m = a # n @ [b]"
      by (cases m; cases "tl m" rule: rev_cases) auto
    let ?s = "(xs @ m @ ys)[i := (xs @ m @ ys) ! j, j := (xs @ m @ ys) ! i]"
    have j: "j = length xs + length n + 1" using less.prems m by simp
    have "?s = (xs @ [b]) @ n @ a # ys"
      unfolding m less.prems(2) j by (simp add: nth_append list_update_append)
    moreover have "reverse_loop ((xs @ [b]) @ n @ a # ys) (i + 1) (j - 1) = (xs @ [b]) @ rev n @ a # ys"
      using less.prems m j by (intro less.hyps) simp_all
    ultimately show ?thesis using True m by (subst reverse_loop.simps) simp
  qed
qed

lemma reverse_loop_rev [simp]: "reverse_loop s 0 (length s - Suc 0) = rev s"
  using reverse_loop_middle [of "length s - 1" "[]" s 0 "[]"]
  by (cases s) (simp_all add: reverse_loop.simps [of "[]" 0 0])

end
