(* ===== verification/Sockets.thy ===== *)
theory Sockets
  imports GoText "HOL-Library.Finite_Map"
begin

text \<open>
  The ports a process listens on (\<open>process/process_net_linux.go\<close>).

  The files of \<open>/proc\<close> are parameters: the table of sockets, the file \<open>stat\<close> of a process and the links in its
  directory \<open>fd\<close>, in the order in which they are walked over.
\<close>

subsection \<open>Addresses\<close>

type_synonym addr = "bytes \<times> int"

text \<open>\<open>reverse\<close>, over the loop that swaps in place from both ends.\<close>

definition reverse_bytes :: "'a list \<Rightarrow> 'a list" where
  "reverse_bytes s = reverse_loop s 0 (length s - 1)"

datatype addr_error = NoPort bytes | InvalidPort bytes | HexError bytes

definition decode_address :: "bytes \<Rightarrow> addr_error + addr" where
  "decode_address src =
     (let t = split_byte CHR '':'' src in
      if length t \<noteq> 2 then Inl (NoPort src)
      else
        (let addr = t ! 0 in
         case parse_int_hex (t ! 1) of
           None \<Rightarrow> Inl (InvalidPort src)
         | Some port \<Rightarrow>
             (case hex_decode addr of
                None \<Rightarrow> Inl (HexError src)
              | Some decoded \<Rightarrow> (let ip = reverse_bytes decoded in Inr (ip_string ip, port)))))"

subsection \<open>The table of sockets\<close>

text \<open>
  The lines that are read: \<open>ReadString\<close> gives the rest after the last newline together with the end of the file, and
  it is dropped.  The first line is skipped.
\<close>

definition table_lines :: "bytes \<Rightarrow> bytes list" where
  "table_lines content = drop 1 (butlast (split_byte newline content))"

fun listen_loop :: "nat \<Rightarrow> bytes list \<Rightarrow> (bytes, addr) fmap \<Rightarrow> (bytes, addr) fmap" where
  "listen_loop noneListPortCount [] ret = ret"
| "listen_loop noneListPortCount (line # lines) ret =
     (let l = str_fields line in
      if length l < 10 then listen_loop noneListPortCount lines ret
      else if l ! 3 \<noteq> ''0A'' then
        (let n = noneListPortCount + 1 in if n > 5 then ret else listen_loop n lines ret)
      else
        (let laddr = l ! 1; inode = l ! 9 in
         case decode_address laddr of
           Inl err \<Rightarrow> listen_loop 0 lines ret
         | Inr la \<Rightarrow> listen_loop 0 lines (fmupd inode la ret)))"

definition get_listen_port :: "bytes + bytes \<Rightarrow> bytes + (bytes, addr) fmap" where
  "get_listen_port file =
     (case file of
        Inl err \<Rightarrow> Inl err
      | Inr content \<Rightarrow> Inr (listen_loop 0 (table_lines content) fmempty))"

subsection \<open>The parent of a process\<close>

text \<open>The first field from the given one on that ends the name of the program; there may be none.\<close>

fun name_end :: "nat \<Rightarrow> bytes list \<Rightarrow> nat option" where
  "name_end i [] = None"
| "name_end i (f # fs) = (if has_suffix f '')'' then Some i else name_end (i + 1) fs)"

definition fill_from_stat :: "bytes + bytes \<Rightarrow> (bytes + int) go" where
  "fill_from_stat file =
     (case file of
        Inl err \<Rightarrow> Some (Inl err)
      | Inr contents \<Rightarrow>
          (let fs = str_fields contents in
           case name_end 1 (drop 1 fs) of
             None \<Rightarrow> None
           | Some i \<Rightarrow>
               if i + 2 < length fs then
                 Some (case parse_int32 (fs ! (i + 2)) of Inl e \<Rightarrow> Inl ''parse error'' | Inr ppid \<Rightarrow> Inr ppid)
               else None))"

definition get_ppid :: "bytes + bytes \<Rightarrow> (bytes + int) go" where
  "get_ppid file = fill_from_stat file"

subsection \<open>The sockets of a process\<close>

text \<open>
  The function that is called for the entries of a directory \<open>fd\<close>, and the walk: what cannot be read is passed over,
  and no error ever comes out of it.  The ports are collected in a variable outside of the function.
\<close>

definition walk_func :: "(bytes, addr) fmap \<Rightarrow> bytes + bytes \<Rightarrow> addr list \<Rightarrow> addr list go" where
  "walk_func inodeMap link ports =
     (case link of
        Inl err \<Rightarrow> Some ports
      | Inr inode \<Rightarrow>
          if \<not> has_prefix inode ''socket:['' then Some ports
          else
            (case bslice inode 8 (length inode - 1) of
               None \<Rightarrow> None
             | Some inode \<Rightarrow>
                 (case fmlookup inodeMap inode of None \<Rightarrow> Some ports | Some addr \<Rightarrow> Some (ports @ [addr]))))"

fun walk_fds :: "(bytes, addr) fmap \<Rightarrow> (bytes + bytes) list \<Rightarrow> addr list \<Rightarrow> addr list go" where
  "walk_fds inodeMap [] ports = Some ports"
| "walk_fds inodeMap (link # links) ports =
     (case walk_func inodeMap link ports of None \<Rightarrow> None | Some ports \<Rightarrow> walk_fds inodeMap links ports)"

text \<open>The ports of the child that are not among those of the parent.\<close>

fun not_of_parent :: "addr list \<Rightarrow> addr list \<Rightarrow> addr list" where
  "not_of_parent ports [] = []"
| "not_of_parent ports (cport # childPorts) =
     (if cport \<in> set ports then not_of_parent ports childPorts else cport # not_of_parent ports childPorts)"

record proc_files =
  pf_tcp :: "bytes + bytes"
  pf_fd :: "int \<Rightarrow> (bytes + bytes) list option"
  pf_stat :: "int \<Rightarrow> bytes + bytes"

text \<open>The entries of a directory that is not there are none for the walk.\<close>

definition fd_links :: "proc_files \<Rightarrow> int \<Rightarrow> (bytes + bytes) list" where
  "fd_links pf pid = (case pf_fd pf pid of None \<Rightarrow> [] | Some links \<Rightarrow> links)"

definition listen_ports_of_pid :: "proc_files \<Rightarrow> int \<Rightarrow> (bytes + addr list) go" where
  "listen_ports_of_pid pf pid =
     (if pf_fd pf pid = None then Some (Inr [])
      else
        (case get_listen_port (pf_tcp pf) of
           Inl err \<Rightarrow> Some (Inl err)
         | Inr inodeMap \<Rightarrow>
             (case walk_fds inodeMap (fd_links pf pid) [] of
                None \<Rightarrow> None
              | Some ports \<Rightarrow>
                  (case get_ppid (pf_stat pf pid) of
                     None \<Rightarrow> None
                   | Some r \<Rightarrow>
                       (let ppid = (case r of Inl err \<Rightarrow> 0 | Inr ppid \<Rightarrow> ppid) in
                        if ppid = 0 \<or> ppid = 1 then Some (Inr ports)
                        else
                          (let childPorts = ports in
                           case walk_fds inodeMap (fd_links pf ppid) ports of
                             None \<Rightarrow> None
                           | Some ports \<Rightarrow> Some (Inr (not_of_parent ports childPorts))))))))"

subsection \<open>Lemmas\<close>

lemma reverse_bytes_rev [simp]: "reverse_bytes s = rev s"
  by (simp add: reverse_bytes_def)

text \<open>What the kernel writes for an address and a port.\<close>

definition port_text :: "nat \<Rightarrow> bytes" where
  "port_text p = map hex_char [p div 4096, p div 256 mod 16, p div 16 mod 16, p mod 16]"

definition addr_text :: "bytes \<Rightarrow> nat \<Rightarrow> bytes" where
  "addr_text ip p = concat (map hex_byte (rev ip)) @ '':'' @ port_text p"

lemma parse_port_text: "p < 65536 \<Longrightarrow> parse_int_hex (port_text p) = Some (int p)"
proof -
  assume p: "p < 65536"
  have e: "p div 4096 = p div 256 div 16" "p div 256 = p div 16 div 16" using div_mult2_eq [of p 256 16] div_mult2_eq [of p 16 16] by simp_all
  have "16 * (p div 256 div 16) + p div 256 mod 16 = p div 256" "16 * (p div 16 div 16) + p div 16 mod 16 = p div 16"
    "16 * (p div 16) + p mod 16 = p" by (rule mult_div_mod_eq)+
  then have d: "16 * (p div 4096) + p div 256 mod 16 = p div 256" "16 * (p div 256) + p div 16 mod 16 = p div 16"
    "16 * (p div 16) + p mod 16 = p" unfolding e by simp_all
  have "p div 4096 < 16" "p div 256 < 65536" "p div 16 < 65536"
    using p less_mult_imp_div_less [of p 16 4096] by (simp_all add: div_le_dividend le_less_trans)
  then show ?thesis using d p by (simp add: parse_int_hex_def port_text_def)
qed

lemma decode_addr_text:
  assumes "p < 65536"
  shows "decode_address (addr_text ip p) = Inr (ip_string ip, int p)"
proof -
  have nc: "CHR '':'' \<notin> set (port_text p)"
    using hex_char_not_colon [of "p div 4096"] hex_char_not_colon [of "p div 256 mod 16"] hex_char_not_colon [of "p div 16 mod 16"]
      hex_char_not_colon [of "p mod 16"] less_mult_imp_div_less [of p 16 4096] assms by (auto simp: port_text_def)
  have "split_byte CHR '':'' (addr_text ip p) = [concat (map hex_byte (rev ip)), port_text p]"
    by (simp only: addr_text_def split_byte_append [OF hex_bytes_no_colon] append_Cons append_Nil split_byte_id [OF nc])
  then show ?thesis using assms by (simp add: decode_address_def parse_port_text)
qed

text \<open>A line of the table: a listening socket, or another one.\<close>

definition listening :: "bytes \<Rightarrow> nat \<Rightarrow> bytes \<Rightarrow> bytes \<Rightarrow> bool" where
  "listening ip p inode line \<longleftrightarrow> (let l = str_fields line in
     10 \<le> length l \<and> l ! 1 = addr_text ip p \<and> l ! 3 = ''0A'' \<and> l ! 9 = inode \<and> p < 65536)"

definition other_socket :: "bytes \<Rightarrow> bool" where
  "other_socket line \<longleftrightarrow> 10 \<le> length (str_fields line) \<and> str_fields line ! 3 \<noteq> ''0A''"

lemma listen_loop_listening:
  assumes "listening ip p inode line"
  shows "listen_loop n (line # lines) ret = listen_loop 0 lines (fmupd inode (ip_string ip, int p) ret)"
  using assms by (simp add: listening_def Let_def decode_addr_text)

lemma listen_loop_others:
  assumes "list_all other_socket rows" "n + length rows \<le> 5 \<and> rest = [] \<or> n + length rows > 5" "n \<le> 5"
  shows "listen_loop n (rows @ rest) ret = ret"
  using assms
proof (induction rows arbitrary: n)
  case (Cons r rows)
  then show ?case by (cases "n = 5") (auto simp: other_socket_def Let_def)
qed simp

lemma listen_loop_rows:
  assumes "list_all2 (\<lambda>(ip, p, inode) line. listening ip p inode line) socks rows"
  shows "\<exists>k. k \<le> n \<and> listen_loop n (rows @ rest) ret
    = listen_loop k rest (foldl (\<lambda>m (ip, p, inode). fmupd inode (ip_string ip, int p) m) ret socks)"
  using assms
proof (induction socks rows arbitrary: n ret rule: list_all2_induct)
  case (Cons s socks line rows)
  obtain ip p inode where s: "s = (ip, p, inode)" by (cases s)
  then have "listening ip p inode line" using Cons.hyps by simp
  then show ?case
    using Cons.IH [of 0 "fmupd inode (ip_string ip, int p) ret"] s listen_loop_listening [of ip p inode line n "rows @ rest" ret]
    by force
qed auto

lemma foldl_upd_lookup:
  "distinct (map (\<lambda>(ip, p, inode). inode) socks) \<Longrightarrow>
   fmlookup (foldl (\<lambda>m (ip, p, inode). fmupd inode (ip_string ip, int p) m) ret socks) i =
     (case map_of (map (\<lambda>(ip, p, inode). (inode, (ip_string ip, int p))) socks) i of None \<Rightarrow> fmlookup ret i | Some a \<Rightarrow> Some a)"
proof (induction socks arbitrary: ret)
  case (Cons s socks)
  obtain ip p inode where s: "s = (ip, p, inode)" by (cases s)
  have "map_of (map (\<lambda>(ip, p, inode). (inode, (ip_string ip, int p))) socks) inode = None"
    using Cons.prems s by (force simp: map_of_eq_None_iff)
  then show ?case using Cons s by (auto split: option.split)
qed simp

lemma table_lines_rows:
  "\<forall>r \<in> set (header # rows). newline \<notin> set r \<Longrightarrow> table_lines (concat (map (\<lambda>r. r @ [newline]) (header # rows))) = rows"
proof -
  assume a: "\<forall>r \<in> set (header # rows). newline \<notin> set r"
  have "split_byte newline (concat (map (\<lambda>r. r @ [newline]) rs)) = rs @ [[]]" if "\<forall>r \<in> set rs. newline \<notin> set r" for rs
    using that by (induction rs) auto
  from this [OF a] show ?thesis by (simp add: table_lines_def)
qed

lemma not_of_parent_filter: "not_of_parent ports cs = filter (\<lambda>c. c \<notin> set ports) cs"
  by (induction cs) auto

lemma walk_fds_keeps: "walk_fds m links ports = Some ports' \<Longrightarrow> set ports \<subseteq> set ports'"
proof (induction links arbitrary: ports)
  case (Cons l links)
  then obtain p where "walk_func m l ports = Some p" "walk_fds m links p = Some ports'" by (auto split: option.splits)
  moreover from this(1) have "set ports \<subseteq> set p"
    by (auto simp: walk_func_def split: sum.splits option.splits if_splits)
  ultimately show ?case using Cons.IH by blast
qed simp

lemma name_end_drop:
  assumes "list_all (\<lambda>f. \<not> has_suffix f '')'') fs" "has_suffix f '')''"
  shows "name_end i (fs @ f # rest) = Some (i + length fs)"
  using assms by (induction fs arbitrary: i) auto

subsection \<open>Properties\<close>

text \<open>
  an address of \<open>/proc/net/tcp\<close>, the bytes of the IP in reverse order and the port in hexadecimal, is read back.
\<close>

theorem address_roundtrip:
  assumes "length ip = 4" "p < 65536"
  shows "decode_address (addr_text ip p) = Inr (dotted ip, int p)"
  using decode_addr_text [OF assms(2), of ip] assms(1) by (auto simp: ip_string_def)

theorem address_roundtrip_witness: "decode_address ''0500000A:0016'' = Inr (''10.0.0.5'', 22)"
proof -
  let ?ip = "[CHR 0x0A, nulchar, nulchar, CHR 0x05]"
  have "decode_address (addr_text ?ip 22) = Inr (dotted ?ip, int 22)"
    by (rule address_roundtrip) simp_all
  moreover have "addr_text ?ip 22 = ''0500000A:0016''" by code_simp
  moreover have "dotted ?ip = ''10.0.0.5''" by code_simp
  ultimately show ?thesis by simp
qed

text \<open>
  C31: from a table in which the listening sockets come first, as the kernel writes it, exactly these are read, each under
  its inode, whatever follows six other sockets in succession.
\<close>

theorem listen_table_exact:
  assumes "list_all2 (\<lambda>(ip, p, inode) line. listening ip p inode line) socks rows" "list_all other_socket others"
    "distinct (map (\<lambda>(ip, p, inode). inode) socks)" "rest = [] \<or> length others > 5"
    "\<forall>r \<in> set (header # rows @ others @ rest). newline \<notin> set r"
  shows "\<exists>m. get_listen_port (Inr (concat (map (\<lambda>r. r @ [newline]) (header # rows @ others @ rest)))) = Inr m
    \<and> (\<forall>inode. fmlookup m inode = map_of (map (\<lambda>(ip, p, inode). (inode, (ip_string ip, int p))) socks) inode)"
proof -
  let ?m = "foldl (\<lambda>m (ip, p, inode). fmupd inode (ip_string ip, int p) m) fmempty socks"
  obtain k where k: "k \<le> 0" "listen_loop 0 (rows @ others @ rest) fmempty = listen_loop k (others @ rest) ?m"
    using listen_loop_rows [OF assms(1), of 0 "others @ rest" fmempty] by blast
  have "listen_loop 0 (others @ rest) ?m = ?m"
    using assms(2,4) by (intro listen_loop_others) auto
  then have "listen_loop 0 (rows @ others @ rest) fmempty = ?m" using k by simp
  then have "get_listen_port (Inr (concat (map (\<lambda>r. r @ [newline]) (header # rows @ others @ rest)))) = Inr ?m"
    using table_lines_rows [OF assms(5)] by (simp add: get_listen_port_def del: concat.simps list.map)
  moreover have "\<forall>inode. fmlookup ?m inode = map_of (map (\<lambda>(ip, p, inode). (inode, (ip_string ip, int p))) socks) inode"
    using foldl_upd_lookup [OF assms(3), of fmempty] by (auto split: option.split)
  ultimately show ?thesis by blast
qed

definition listen_row :: bytes where
  "listen_row = join '' '' [''0:'', ''0100007F:0016'', ''00000000:0000'', ''0A'', ''0'', ''0'', ''0'', ''109'', ''0'', ''13401'']"

lemma listen_row_listening: "listening [CHR 0x7F, nulchar, nulchar, CHR 0x01] 22 ''13401'' listen_row"
proof -
  have "str_fields listen_row = [''0:'', ''0100007F:0016'', ''00000000:0000'', ''0A'', ''0'', ''0'', ''0'', ''109'', ''0'', ''13401'']"
    unfolding listen_row_def by (rule fields_join) (simp add: word_def space_char_def)
  moreover have "addr_text [CHR 0x7F, nulchar, nulchar, CHR 0x01] 22 = ''0100007F:0016''" by code_simp
  ultimately show ?thesis by (simp add: listening_def)
qed

theorem listen_table_exact_witness:
  "\<exists>m. get_listen_port (Inr (concat (map (\<lambda>r. r @ [newline]) [''sl'', listen_row]))) = Inr m
     \<and> fmlookup m ''13401'' = Some (''127.0.0.1'', 22)"
proof -
  let ?ip = "[CHR 0x7F, nulchar, nulchar, CHR 0x01]"
  have "\<exists>m. get_listen_port (Inr (concat (map (\<lambda>r. r @ [newline]) (''sl'' # [listen_row] @ [] @ [])))) = Inr m
    \<and> (\<forall>inode. fmlookup m inode = map_of (map (\<lambda>(ip, p, inode). (inode, (ip_string ip, int p))) [(?ip, 22, ''13401'')]) inode)"
    by (rule listen_table_exact) (simp_all add: listen_row_listening, simp add: listen_row_def)
  moreover have "ip_string ?ip = ''127.0.0.1''" by code_simp
  ultimately show ?thesis by auto
qed

text \<open>
  the parent of a process is read from its file \<open>stat\<close> if no field of the name but the last ends with a parenthesis;
  without one the call panics.
\<close>

theorem ppid_of_stat:
  assumes "str_fields contents = pid # name @ last_field # state # ppid # rest"
    "list_all (\<lambda>f. \<not> has_suffix f '')'') name" "has_suffix last_field '')''"
    "parse_int64 ppid = (n, None)" "- (2 ^ 31) \<le> n" "n < 2 ^ 31"
  shows "get_ppid (Inr contents) = Some (Inr n)"
proof -
  have "name_end 1 (name @ last_field # state # ppid # rest) = Some (1 + length name)"
    by (rule name_end_drop [OF assms(2,3)])
  then show ?thesis using assms(1,4-6) by (simp add: get_ppid_def fill_from_stat_def parse_int32_def nth_append)
qed

theorem ppid_of_stat_witness: "get_ppid (Inr ''4711 (mysqld safe) S 1 4711'') = Some (Inr 1)"
proof (rule ppid_of_stat)
  show "str_fields ''4711 (mysqld safe) S 1 4711'' = ''4711'' # [''(mysqld''] @ ''safe)'' # ''S'' # ''1'' # [''4711'']"
    by code_simp
  show "list_all (\<lambda>f. \<not> has_suffix f '')'') [''(mysqld'']" by code_simp
  show "has_suffix ''safe)'' '')''" by code_simp
  show "parse_int64 ''1'' = (1, None)" by (simp add: parse_int64_def parse_uint64_def is_digit_def digit_val_def)
qed simp_all

text \<open>
  no port is ever found for a process whose parent is not the first process: the ports of the parent are appended to
  those of the child before the child's are looked for among them.
\<close>

theorem child_ports_lost:
  assumes "listen_ports_of_pid pf pid = Some (Inr ports)" "get_ppid (pf_stat pf pid) = Some (Inr ppid)" "ppid \<noteq> 0" "ppid \<noteq> 1"
  shows "ports = []"
proof (cases "pf_fd pf pid = None")
  case False
  then obtain m own all' where "get_listen_port (pf_tcp pf) = Inr m" "walk_fds m (fd_links pf pid) [] = Some own"
    "walk_fds m (fd_links pf ppid) own = Some all'" "ports = not_of_parent all' own"
    using assms by (auto simp: listen_ports_of_pid_def Let_def split: sum.splits option.splits)
  then show ?thesis using walk_fds_keeps [of m _ own all'] by (auto simp: not_of_parent_filter filter_empty_conv)
qed (use assms(1) in \<open>simp add: listen_ports_of_pid_def\<close>)

definition child_files :: proc_files where
  "child_files = \<lparr>pf_tcp = Inr (concat (map (\<lambda>r. r @ [newline]) [''sl'', listen_row])),
     pf_fd = (\<lambda>pid. if pid = 7 then Some [Inr ''socket:[13401]''] else if pid = 5 then Some [] else None),
     pf_stat = (\<lambda>pid. Inr ''7 (java) S 5 7'')\<rparr>"

theorem child_ports_lost_witness: "listen_ports_of_pid child_files 7 = Some (Inr [])"
proof -
  have "str_fields ''7 (java) S 5 7'' = [''7'', ''(java)'', ''S'', ''5'', ''7'']" by code_simp
  then have p: "get_ppid (Inr ''7 (java) S 5 7'') = Some (Inr 5)"
    by (simp add: get_ppid_def fill_from_stat_def has_suffix_def parse_int32_def parse_int64_def parse_uint64_def is_digit_def digit_val_def)
  obtain m where m: "get_listen_port (pf_tcp child_files) = Inr m"
    by (cases "get_listen_port (pf_tcp child_files)") (auto simp: get_listen_port_def child_files_def)
  have w: "\<exists>ps. walk_fds m [Inr ''socket:[13401]''] [] = Some ps" by (simp add: walk_func_def split: option.split)
  then obtain ports where l: "listen_ports_of_pid child_files 7 = Some (Inr ports)"
    using m p by (auto simp: listen_ports_of_pid_def child_files_def fd_links_def)
  have "ports = []" by (rule child_ports_lost [OF l, of 5]) (simp_all add: p child_files_def)
  then show ?thesis using l by simp
qed

text \<open>The second example of the comment: the address of version 6 is not what it says.\<close>

lemma address_example_6:
  "decode_address ''0085002452100113070057A13F025401:0035'' = Inr (''154:23f:a157:7:1301:1052:2400:8500'', 53)"
proof -
  let ?a = "''0085002452100113070057A13F025401''"
  let ?b = "map char_of [0, 0x85, 0, 0x24, 0x52, 0x10, 1, 0x13, 7, 0, 0x57, 0xA1, 0x3f, 2, 0x54, 1 :: nat]"
  have "split_byte CHR '':'' (?a @ '':0035'') = [?a, ''0035'']" by code_simp
  moreover have "parse_int_hex ''0035'' = Some 53" by (simp add: parse_int_hex_def hex_val_def)
  moreover have "hex_decode ?a = Some ?b" by code_simp
  moreover have "ip_string (rev ?b) = ''154:23f:a157:7:1301:1052:2400:8500''" by code_simp
  ultimately show ?thesis by (simp add: decode_address_def del: ip_string_def)
qed

end
