(* ===== verification/Host_State.thy ===== *)
theory Host_State
  imports Types GoText "HOL-Library.Multiset"
begin

text \<open>
  What an agent knows of its host (\<open>types/hostinfo/info.go\<close>): the identity and the stage kept in the file
  \<open>/etc/machine-id\<close>, the addresses, the disks, and the record that is filled when the program starts.

  The file is a value with the outcome of reading and writing it; what the operating system says is a parameter, and so
  is the library of identities (\<open>uuid_ok\<close>) and the order of a loop over a map.
\<close>

subsection \<open>The file of the machine\<close>

record machine_file =
  mf_content :: "bytes + bytes"
  mf_writeErr :: "bytes option"

definition write_file :: "bytes \<Rightarrow> machine_file \<Rightarrow> machine_file \<times> bytes option" where
  "write_file s mf = (case mf_writeErr mf of Some err \<Rightarrow> (mf, Some err) | None \<Rightarrow> (mf\<lparr>mf_content := Inr s\<rparr>, None))"

definition stage_prefix :: bytes where "stage_prefix = ''stage=''"

definition id_prefix :: bytes where "id_prefix = ''hostID=''"

text \<open>The first trimmed line with a prefix, without it.\<close>

fun find_line :: "bytes \<Rightarrow> bytes list \<Rightarrow> bytes option" where
  "find_line prefix [] = None"
| "find_line prefix (l # ls) =
     (let line = trim_space l in
      if has_prefix line prefix then Some (trim_prefix line prefix) else find_line prefix ls)"

text \<open>The lines that are kept when the stage is overwritten.\<close>

fun keep_lines :: "bytes list \<Rightarrow> bytes list" where
  "keep_lines [] = []"
| "keep_lines (l # ls) =
     (let line = trim_space l in if has_prefix line stage_prefix then keep_lines ls else line # keep_lines ls)"

definition over_write_stage :: "stage \<Rightarrow> machine_file \<Rightarrow> machine_file \<times> bytes option" where
  "over_write_stage st mf =
     (case mf_content mf of
        Inl err \<Rightarrow> (mf, Some err)
      | Inr content \<Rightarrow>
          (let newLines = keep_lines (split_byte newline content);
               newLines = newLines @ [stage_prefix @ stage_string st];
               contentStr = join [newline] newLines
           in write_file contentStr mf))"

text \<open>The error is the one of reading the file, or that the stage is none (\<open>True\<close>).\<close>

definition get_env :: "(stage \<times> string) list \<Rightarrow> bytes \<Rightarrow> machine_file \<Rightarrow> machine_file \<times> stage \<times> (bytes + bool)" where
  "get_env ord env mf =
     (case mf_content mf of
        Inl err \<Rightarrow> (mf, UnknownStage, Inl err)
      | Inr content \<Rightarrow>
          (case find_line stage_prefix (split_byte newline content) of
             Some envStr \<Rightarrow> (case parse_stage ord envStr of (st, failed) \<Rightarrow> (mf, st, Inr failed))
           | None \<Rightarrow>
               if env \<noteq> [] then
                 (let contentStr = trim_space content;
                      (mf, err) = write_file (contentStr @ [newline] @ stage_prefix @ env) mf
                  in case parse_stage ord env of (st, failed) \<Rightarrow> (mf, st, Inr failed))
               else (mf, UnknownStage, Inr False)))"

record 'u uuid_lib =
  ul_parse :: "bytes \<Rightarrow> 'u option"
  ul_string :: "'u \<Rightarrow> bytes"

text \<open>What is printed is parsed back, and a text that is parsed has no newline and no space at its ends.\<close>

definition uuid_ok :: "'u uuid_lib \<Rightarrow> bool" where
  "uuid_ok u \<longleftrightarrow> (\<forall>v. ul_parse u (ul_string u v) = Some v)
     \<and> (\<forall>s v. ul_parse u s = Some v \<longrightarrow> s \<noteq> [] \<and> newline \<notin> set s \<and> trim_space s = s)"

datatype id_error = FileError bytes | InvalidHostID bytes

definition get_host_id :: "'u uuid_lib \<Rightarrow> bytes \<Rightarrow> bool \<Rightarrow> machine_file \<Rightarrow> machine_file \<times> bytes \<times> id_error option" where
  "get_host_id u newID generate mf =
     (case (mf_content mf, generate) of
        (Inl e, True) \<Rightarrow>
          (case write_file (id_prefix @ newID) mf of
             (mf, None) \<Rightarrow> (mf, newID, None)
           | (mf, Some err) \<Rightarrow> (mf, [], Some (FileError err)))
      | (c, _) \<Rightarrow>
          (let content = (case c of Inl e \<Rightarrow> [] | Inr content \<Rightarrow> content);
               err = (case c of Inl e \<Rightarrow> Some (FileError e) | Inr content \<Rightarrow> None);
               hostID = (case find_line id_prefix (split_byte newline content) of None \<Rightarrow> [] | Some h \<Rightarrow> h);
               (mf, hostID, err) =
                 (if hostID = [] \<and> length content > 0 then
                    (let hostID = trim_space content in
                     case write_file (id_prefix @ hostID) mf of (mf, e) \<Rightarrow> (mf, hostID, map_option FileError e))
                  else (mf, hostID, err))
           in case ul_parse u hostID of
                Some vuid \<Rightarrow> (mf, ul_string u vuid, err)
              | None \<Rightarrow> (mf, hostID, Some (InvalidHostID hostID))))"

subsection \<open>Disks and addresses\<close>

record disk_stat =
  ds_total :: nat
  ds_mountpoint :: bytes
  ds_devices :: bytes

text \<open>A partition: its device, what the links of the device lead to, and where it is mounted.\<close>

record partition =
  pt_device :: bytes
  pt_realPath :: "bytes + bytes"
  pt_mountpoint :: bytes

fun valid_partitions :: "partition list \<Rightarrow> (bytes, bytes) fmap \<Rightarrow> (bytes, bytes) fmap" where
  "valid_partitions [] valid = valid"
| "valid_partitions (p # ps) valid =
     (let realPath = (case pt_realPath p of Inl err \<Rightarrow> pt_device p | Inr r \<Rightarrow> r);
          parts = split_byte CHR ''/'' realPath
      in if length parts > 2 \<and> parts ! 1 = ''dev''
         then valid_partitions ps (fmupd (trim_prefix realPath ''/dev/'') (pt_mountpoint p) valid)
         else valid_partitions ps valid)"

fun disk_stats :: "(bytes \<Rightarrow> bytes + nat) \<Rightarrow> (bytes, bytes) fmap \<Rightarrow> bytes list \<Rightarrow> (bytes, disk_stat) fmap \<Rightarrow> bytes list
    \<Rightarrow> (bytes, disk_stat) fmap \<times> bytes list" where
  "disk_stats usage valid [] stats merr = (stats, merr)"
| "disk_stats usage valid (dev # devs) stats merr =
     (case fmlookup valid dev of
        None \<Rightarrow> disk_stats usage valid devs stats merr
      | Some mnt \<Rightarrow>
          (case usage mnt of
             Inl err \<Rightarrow> disk_stats usage valid devs stats (merr @ [err])
           | Inr sz \<Rightarrow>
               disk_stats usage valid devs (fmupd dev \<lparr>ds_total = sz, ds_mountpoint = mnt, ds_devices = dev\<rparr> stats) merr))"

text \<open>With an error of the list of partitions there is no map.\<close>

definition get_disk_stat ::
  "(bytes \<Rightarrow> bytes + nat) \<Rightarrow> ((bytes, bytes) fmap \<Rightarrow> bytes list) \<Rightarrow> bytes + partition list \<Rightarrow> (bytes, disk_stat) gmap \<times> bytes list" where
  "get_disk_stat usage order ps =
     (case ps of
        Inl err \<Rightarrow> (None, [err])
      | Inr ps \<Rightarrow>
          (let valid = valid_partitions ps fmempty; (stats, merr) = disk_stats usage valid (order valid) fmempty []
           in (Some stats, merr)))"

text \<open>An interface of the network with its addresses; \<open>To4\<close> is nil for an address that is not of version 4.\<close>

datatype net_addr = IPNet "bytes option" | OtherAddr

record net_iface =
  nf_name :: bytes
  nf_addrs :: "bytes + net_addr list"

fun iface_ips :: "bytes \<Rightarrow> net_addr list \<Rightarrow> (bytes, bytes) fmap \<Rightarrow> (bytes, bytes) fmap" where
  "iface_ips name [] ips = ips"
| "iface_ips name (a # as') ips =
     (case a of
        IPNet (Some ip) \<Rightarrow> iface_ips name as' (fmupd name (dotted ip) ips)
      | IPNet None \<Rightarrow> iface_ips name as' ips
      | OtherAddr \<Rightarrow> iface_ips name as' ips)"

fun host_ips :: "net_iface list \<Rightarrow> (bytes, bytes) fmap \<Rightarrow> (bytes, bytes) fmap" where
  "host_ips [] ips = ips"
| "host_ips (i # is') ips =
     (case nf_addrs i of Inl err \<Rightarrow> host_ips is' ips | Inr addrs \<Rightarrow> host_ips is' (iface_ips (nf_name i) addrs ips))"

definition get_host_ips :: "bytes + net_iface list \<Rightarrow> (bytes, bytes) gmap \<times> bytes option" where
  "get_host_ips ifaces = (case ifaces of Inl err \<Rightarrow> (None, Some err) | Inr is' \<Rightarrow> (Some (host_ips is' fmempty), None))"

text \<open>The loops over the addresses, in the order in which the map is walked over.\<close>

definition ip_exists :: "bytes \<Rightarrow> bytes list \<Rightarrow> bool" where
  "ip_exists ip ips \<longleftrightarrow> (\<exists>v \<in> set ips. ip = v)"

datatype ip_error = ManyMatch bytes bytes | NoMatch | NoConfigured

fun match_ips :: "(bytes \<Rightarrow> bool) \<Rightarrow> bytes list \<Rightarrow> bytes \<Rightarrow> ip_error + bytes" where
  "match_ips re [] ip = Inr ip"
| "match_ips re (v # vs) ip =
     (if re v then (if ip = [] then match_ips re vs v else Inl (ManyMatch ip v)) else match_ips re vs ip)"

fun nic_ip :: "(bytes, bytes) gmap \<Rightarrow> bytes list \<Rightarrow> bytes option" where
  "nic_ip ips [] = None"
| "nic_ip ips (nic # nics) =
     (case gm_look ips nic of None \<Rightarrow> nic_ip ips nics | Some ip \<Rightarrow> if length ip > 0 then Some ip else nic_ip ips nics)"

text \<open>The regular expression, if one is given, is its predicate; one that cannot be compiled panics (\<open>Some None\<close>).\<close>

definition get_host_ip_config ::
  "(bytes, bytes) gmap \<Rightarrow> bytes list \<Rightarrow> (bytes \<Rightarrow> bool) option option \<Rightarrow> bytes list \<Rightarrow> (bytes \<times> ip_error option) go" where
  "get_host_ip_config ips order ipRegexp nics =
     (case ipRegexp of
        Some None \<Rightarrow> None
      | Some (Some re) \<Rightarrow>
          Some (case match_ips re (map (gm_get [] ips) order) [] of
             Inl err \<Rightarrow> ([], Some err)
           | Inr ip \<Rightarrow> if ip = [] then ([], Some NoMatch) else (ip, None))
      | None \<Rightarrow> Some (case nic_ip ips nics of Some ip \<Rightarrow> (ip, None) | None \<Rightarrow> ([], Some NoConfigured)))"

text \<open>\<open>internalIPRegexp\<close>, written out.\<close>

definition internal_ip :: "bytes \<Rightarrow> bool" where
  "internal_ip s \<longleftrightarrow> has_prefix s ''10.'' \<or> has_prefix s ''192.168.''
     \<or> (\<exists>n \<in> set [''16'', ''17'', ''18'', ''19'', ''20'', ''21'', ''22'', ''23'', ''24'', ''25'', ''26'', ''27'', ''28'', ''29'', ''30'', ''31''].
          has_prefix s (''172.'' @ n @ ''.''))"

fun get_internal_ip :: "bytes list \<Rightarrow> bytes" where
  "get_internal_ip [] = []"
| "get_internal_ip (ip # ips) = (if internal_ip ip then ip else get_internal_ip ips)"

fun external_ips :: "bytes list \<Rightarrow> bytes list \<Rightarrow> bytes list" where
  "external_ips [] ret = ret"
| "external_ips (ip # ips) ret =
     (if internal_ip ip then external_ips ips ret
      else if has_prefix ip ''127.0.0'' then external_ips ips ret
      else external_ips ips (ret @ [ip]))"

definition get_external_ips :: "bytes list \<Rightarrow> bytes list" where
  "get_external_ips ips = external_ips ips []"

subsection \<open>The record of the host\<close>

record host_state =
  hs_hostID :: bytes
  hs_hostName :: bytes
  hs_annotations :: "(bytes, bytes) gmap"
  hs_labels :: "(bytes, bytes) gmap"
  hs_ips :: "(bytes, bytes) gmap"
  hs_numOfCPUs :: int
  hs_memory :: nat
  hs_swapSize :: nat
  hs_stage :: stage
  hs_diskStat :: "(bytes, disk_stat) gmap"

definition initial_host :: host_state where
  "initial_host = \<lparr>hs_hostID = [], hs_hostName = [], hs_annotations = Some fmempty, hs_labels = Some fmempty, hs_ips = None,
     hs_numOfCPUs = 0, hs_memory = 0, hs_swapSize = 0, hs_stage = 0, hs_diskStat = None\<rparr>"

text \<open>What the operating system answers.\<close>

record host_answers =
  ha_ifaces :: "bytes + net_iface list"
  ha_cpus :: "int \<times> bytes option"
  ha_memory :: "bytes + nat"
  ha_swap :: "bytes + nat"
  ha_hostName :: "bytes \<times> bytes option"
  ha_partitions :: "bytes + partition list"
  ha_usage :: "bytes \<Rightarrow> bytes + nat"

definition gather_host_info ::
  "'u uuid_lib \<Rightarrow> bytes \<Rightarrow> (stage \<times> string) list \<Rightarrow> bytes \<Rightarrow> ((bytes, bytes) fmap \<Rightarrow> bytes list) \<Rightarrow> host_answers \<Rightarrow> machine_file
     \<Rightarrow> machine_file \<times> host_state \<times> bytes list" where
  "gather_host_info u newID ord env order ha mf =
     (let (mf, hostid, err) = get_host_id u newID True mf;
          merr = (case err of None \<Rightarrow> [] | Some e \<Rightarrow> [''get hostID error'']);
          (ips, err) = get_host_ips (ha_ifaces ha);
          merr = merr @ (case err of None \<Rightarrow> [] | Some e \<Rightarrow> [''get host ip list error'']);
          (cpus, err) = ha_cpus ha;
          merr = merr @ (case err of None \<Rightarrow> [] | Some e \<Rightarrow> [''error get num of cpus'']);
          (memSize, merr) = (case ha_memory ha of Inl e \<Rightarrow> (0, merr @ [''error get mem stat'']) | Inr n \<Rightarrow> (n, merr));
          (swap, merr) = (case ha_swap ha of Inl e \<Rightarrow> (0, merr @ [''error get swap stat'']) | Inr n \<Rightarrow> (n, merr));
          (hostname, err) = ha_hostName ha;
          merr = merr @ (case err of None \<Rightarrow> [] | Some e \<Rightarrow> [''get hostname err'']);
          (mf, stage, err) = get_env ord env mf;
          merr = merr @ (case err of Inr False \<Rightarrow> [] | _ \<Rightarrow> [''get stage info'']);
          (diskStat, errs) = get_disk_stat (ha_usage ha) order (ha_partitions ha);
          merr = merr @ (if errs = [] then [] else [''get disk stat''])
      in (mf, \<lparr>hs_hostID = hostid, hs_hostName = hostname, hs_annotations = None, hs_labels = None, hs_ips = ips,
               hs_numOfCPUs = cpus, hs_memory = memSize, hs_swapSize = swap, hs_stage = stage, hs_diskStat = diskStat\<rparr>, merr))"

text \<open>\<open>copyHostInfo\<close>; a nil pointer on either side leaves everything as it is.\<close>

definition copy_host_info :: "host_state option \<Rightarrow> host_state option \<Rightarrow> host_state option" where
  "copy_host_info dst src =
     (case (dst, src) of
        (Some d, Some s) \<Rightarrow>
          Some (d\<lparr>hs_stage := hs_stage s, hs_hostID := hs_hostID s, hs_hostName := hs_hostName s, hs_memory := hs_memory s,
                  hs_numOfCPUs := hs_numOfCPUs s, hs_swapSize := hs_swapSize s, hs_ips := hs_ips s, hs_diskStat := hs_diskStat s\<rparr>)
      | _ \<Rightarrow> dst)"

definition host_init ::
  "'u uuid_lib \<Rightarrow> bytes \<Rightarrow> (stage \<times> string) list \<Rightarrow> bytes \<Rightarrow> ((bytes, bytes) fmap \<Rightarrow> bytes list) \<Rightarrow> host_answers \<Rightarrow> machine_file
     \<Rightarrow> machine_file \<times> host_state outcome" where
  "host_init u newID ord env order ha mf =
     (case gather_host_info u newID ord env order ha mf of
        (mf, hi, merr) \<Rightarrow>
          (mf, if merr \<noteq> [] then Exits
               else (case copy_host_info (Some initial_host) (Some hi) of Some h \<Rightarrow> Returns h | None \<Rightarrow> Panics)))"

definition update_stage :: "stage \<Rightarrow> machine_file \<times> host_state \<Rightarrow> (machine_file \<times> host_state) outcome" where
  "update_stage st mh =
     (case over_write_stage st (fst mh) of
        (mf, Some err) \<Rightarrow> Exits
      | (mf, None) \<Rightarrow> Returns (mf, (snd mh)\<lparr>hs_stage := st\<rparr>))"

text \<open>The getters copy the maps.\<close>

definition get_ips :: "host_state \<Rightarrow> (bytes, bytes) fmap" where
  "get_ips h = (case hs_ips h of None \<Rightarrow> fmempty | Some m \<Rightarrow> m)"

definition get_labels :: "host_state \<Rightarrow> (bytes, bytes) fmap" where
  "get_labels h = (case hs_labels h of None \<Rightarrow> fmempty | Some m \<Rightarrow> m)"

definition get_annotations :: "host_state \<Rightarrow> (bytes, bytes) fmap" where
  "get_annotations h = (case hs_annotations h of None \<Rightarrow> fmempty | Some m \<Rightarrow> m)"

definition add_annotation :: "bytes \<Rightarrow> bytes \<Rightarrow> host_state \<Rightarrow> host_state go" where
  "add_annotation k v h = (case hs_annotations h of None \<Rightarrow> None | Some m \<Rightarrow> Some (h\<lparr>hs_annotations := Some (fmupd k v m)\<rparr>))"

definition del_annotation :: "bytes \<Rightarrow> host_state \<Rightarrow> host_state" where
  "del_annotation k h = h\<lparr>hs_annotations := map_option (fmdrop k) (hs_annotations h)\<rparr>"

definition disk_stat_copy :: "host_state \<Rightarrow> (bytes, disk_stat) fmap" where
  "disk_stat_copy h = (case hs_diskStat h of None \<Rightarrow> fmempty | Some m \<Rightarrow> m)"

subsection \<open>Lemmas\<close>

lemma find_line_append: "find_line p (xs @ ys) = (case find_line p xs of None \<Rightarrow> find_line p ys | Some r \<Rightarrow> Some r)"
  by (induction xs) (simp_all add: Let_def)

lemma find_line_trimmed: "find_line p (map trim_space ls) = find_line p ls"
  by (induction ls) (simp_all add: Let_def)

lemma keep_lines_filter: "keep_lines ls = filter (\<lambda>l. \<not> has_prefix l stage_prefix) (map trim_space ls)"
  by (induction ls) (simp_all add: Let_def)

lemma find_stage_kept: "find_line stage_prefix (keep_lines ls) = None"
  by (induction ls) (simp_all add: Let_def)

lemma id_not_stage: "has_prefix l id_prefix \<Longrightarrow> \<not> has_prefix l stage_prefix"
  by (cases l) (simp_all add: id_prefix_def stage_prefix_def)

lemma find_id_kept: "find_line id_prefix (keep_lines ls) = find_line id_prefix ls"
  by (induction ls) (auto simp: Let_def id_not_stage)

lemma keep_lines_no_newline: "\<forall>l \<in> set ls. newline \<notin> set l \<Longrightarrow> l \<in> set (keep_lines ls) \<Longrightarrow> newline \<notin> set l"
  using trim_space_subset by (auto simp: keep_lines_filter)

lemma stage_name_word: "st \<in> fst ` set stages \<Longrightarrow> word (stage_string st)"
  by (auto simp: stages_def stage_string_def stage_defs word_def space_char_def)

lemma trim_prefixed:
  assumes "\<not> space_char (hd p)" "p \<noteq> []" "s \<noteq> []" "trim_space s = s"
  shows "trim_space (p @ s) = p @ s"
  using assms trim_space_edges(2) [of s s] by (intro trim_space_id) (cases p; simp)

lemma prefix_not_space: "\<not> space_char (hd stage_prefix)" "stage_prefix \<noteq> []" "\<not> space_char (hd id_prefix)" "id_prefix \<noteq> []"
  by (simp_all add: stage_prefix_def id_prefix_def space_char_def)

lemma find_line_hit:
  "p = stage_prefix \<or> p = id_prefix \<Longrightarrow> s \<noteq> [] \<Longrightarrow> trim_space s = s \<Longrightarrow> find_line p ((p @ s) # ls) = Some s"
  using trim_prefixed [of p s] prefix_not_space by (auto simp: Let_def)

lemma word_trim: "word w \<Longrightarrow> trim_space w = w \<and> w \<noteq> [] \<and> newline \<notin> set w"
proof -
  assume "word w"
  then have ne: "w \<noteq> []" and ns: "\<forall>c \<in> set w. \<not> space_char c" by (simp_all add: word_def)
  then have "trim_space w = w" using hd_in_set [OF ne] last_in_set [OF ne] by (intro trim_space_id) blast
  moreover have "space_char newline" by (simp add: space_char_def)
  ultimately show ?thesis using ne ns by blast
qed

lemma find_line_None: "find_line p ls = None \<longleftrightarrow> (\<forall>l \<in> set ls. \<not> has_prefix (trim_space l) p)"
  by (induction ls) (simp_all add: Let_def)

lemma split_byte_last: "c \<notin> set t \<Longrightarrow> split_byte c (s @ c # t) = split_byte c s @ [t]"
  by (induction s) (auto split: list.splits)

lemma split_byte_concat: "split_byte c (s @ c # t) = split_byte c s @ split_byte c t"
  by (induction s) (auto split: list.splits)

lemma split_byte_snoc: "c \<noteq> d \<Longrightarrow> split_byte c (s @ [d]) = butlast (split_byte c s) @ [last (split_byte c s) @ [d]]"
  by (induction s) (auto split: list.splits)

lemma trim_space_Cons: "space_char c \<Longrightarrow> trim_space (c # s) = trim_space s"
  by (simp add: trim_space_def)

lemma trim_space_snoc: "space_char c \<Longrightarrow> trim_space (s @ [c]) = trim_space s"
proof (cases "dropWhile space_char s = []")
  case True
  then have "\<forall>x \<in> set s. space_char x" by (simp add: dropWhile_eq_Nil_conv)
  moreover assume "space_char c"
  ultimately have "dropWhile space_char (s @ [c]) = []" unfolding dropWhile_eq_Nil_conv by simp
  then show ?thesis using True by (simp only: trim_space_def)
next
  case False
  then have "\<not> (\<forall>x \<in> set s. space_char x)" by (simp add: dropWhile_eq_Nil_conv)
  moreover assume "space_char c"
  ultimately show ?thesis by (auto simp: trim_space_def dropWhile_append)
qed

text \<open>The lines of a text as its readers see them: trimmed, without the empty ones. Spaces at the ends add none.\<close>

definition seen_lines :: "bytes \<Rightarrow> bytes list" where
  "seen_lines s = filter (\<lambda>l. l \<noteq> []) (map trim_space (split_byte newline s))"

lemma find_line_seen: "p \<noteq> [] \<Longrightarrow> find_line p (filter (\<lambda>l. l \<noteq> []) (map trim_space ls)) = find_line p ls"
proof (induction ls)
  case (Cons l ls)
  then show ?case by (cases p; cases "trim_space l = []") (simp_all add: Let_def)
qed simp

lemma seen_lines_Cons: "space_char c \<Longrightarrow> seen_lines (c # s) = seen_lines s"
  using trim_space_Cons [of c] by (cases "c = newline") (auto simp: seen_lines_def trim_space_def split: list.splits)

lemma seen_lines_snoc:
  assumes "space_char c"
  shows "seen_lines (s @ [c]) = seen_lines s"
proof (cases "c = newline")
  case True
  then show ?thesis using split_byte_last [of newline "[]" s] by (simp add: seen_lines_def trim_space_def)
next
  case False
  let ?ls = "split_byte newline s"
  have "map trim_space (split_byte newline (s @ [c])) = map trim_space ?ls"
    using split_byte_snoc [of newline c s] False trim_space_snoc [OF assms, of "last ?ls"]
      append_butlast_last_id [OF split_byte_not_Nil, of newline s] map_append [of trim_space "butlast ?ls" "[last ?ls]"]
    by simp
  then show ?thesis by (simp only: seen_lines_def)
qed

lemma seen_lines_trim: "seen_lines (trim_space s) = seen_lines s"
proof -
  have l: "seen_lines (dropWhile space_char t) = seen_lines t" for t
    using seen_lines_Cons by (induction t) simp_all
  have "seen_lines (rev (dropWhile space_char t)) = seen_lines (rev t)" for t
    using seen_lines_snoc by (induction t) simp_all
  then show ?thesis using l by (simp add: trim_space_def)
qed

lemma find_line_trim: "p \<noteq> [] \<Longrightarrow> find_line p (split_byte newline (trim_space s)) = find_line p (split_byte newline s)"
  using seen_lines_trim [of s] find_line_seen [of p] unfolding seen_lines_def by metis

text \<open>What the two readers of the file say after the stage was overwritten.\<close>

lemma overwritten_lines:
  assumes "over_write_stage st mf = (mf', None)" "mf_content mf = Inr content" "st \<in> fst ` set stages"
  shows "\<exists>content'. mf_content mf' = Inr content' \<and> content' \<noteq> [] \<and> mf_writeErr mf' = None
    \<and> find_line stage_prefix (split_byte newline content') = Some (stage_string st)
    \<and> find_line id_prefix (split_byte newline content') = find_line id_prefix (split_byte newline content)"
proof -
  let ?ls = "split_byte newline content" and ?l = "stage_prefix @ stage_string st"
  let ?c = "join [newline] (keep_lines ?ls @ [?l])"
  have w: "trim_space (stage_string st) = stage_string st" "stage_string st \<noteq> []" "newline \<notin> set (stage_string st)"
    using word_trim [OF stage_name_word [OF assms(3)]] by simp_all
  have mf': "mf_content mf' = Inr ?c" "mf_writeErr mf' = None"
    using assms(1,2) by (auto simp: over_write_stage_def write_file_def Let_def split: option.splits)
  have nl: "newline \<notin> set ?l" using w(3) by (simp add: stage_prefix_def)
  have "\<forall>l \<in> set ?ls. newline \<notin> set l" using split_byte_no_sep [of _ newline content] by blast
  then have nk: "newline \<notin> set l" if "l \<in> set (keep_lines ?ls)" for l using keep_lines_no_newline that by blast
  have nn: "\<forall>p \<in> set (keep_lines ?ls @ [?l]). newline \<notin> set p"
  proof
    fix p assume "p \<in> set (keep_lines ?ls @ [?l])"
    then consider "p \<in> set (keep_lines ?ls)" | "p = ?l" by fastforce
    then show "newline \<notin> set p" using nk nl by cases metis+
  qed
  have sp: "split_byte newline ?c = keep_lines ?ls @ [?l]" by (rule split_join) (use nn in simp_all)
  have "find_line id_prefix [?l] = None"
    using trim_prefixed [OF prefix_not_space(1,2) w(2,1)] by (simp add: id_prefix_def stage_prefix_def)
  then have "find_line id_prefix (split_byte newline ?c) = find_line id_prefix ?ls"
    unfolding sp by (simp add: find_line_append find_id_kept split: option.split)
  moreover have "find_line stage_prefix (split_byte newline ?c) = Some (stage_string st)"
    unfolding sp using w find_line_hit [of stage_prefix "stage_string st" "[]"]
    by (simp add: find_line_append find_stage_kept del: find_line.simps)
  moreover have "?c \<noteq> []"
  proof
    assume "?c = []"
    then have "last (keep_lines ?ls @ [?l]) = last [[]]" using arg_cong [OF sp, of last] by (simp only: split_byte.simps)
    then show False using prefix_not_space(2) by simp
  qed
  ultimately show ?thesis using mf' by blast
qed

lemma parse_stage_named:
  assumes "distinct ord" "set ord = set stages" "st \<in> fst ` set stages"
  shows "parse_stage ord (stage_string st) = (st, False)"
  using parse_stage_string [OF assms(1,2)] assms(3) by simp

lemma get_host_id_line:
  assumes "mf_content mf = Inr content" "find_line id_prefix (split_byte newline content) = Some h" "h \<noteq> []"
  shows "get_host_id u new g mf = (mf, case ul_parse u h of Some v \<Rightarrow> (ul_string u v, None) | None \<Rightarrow> (h, Some (InvalidHostID h)))"
  using assms by (simp add: get_host_id_def split: option.split)

lemma split_id_line:
  assumes "s \<noteq> []" "newline \<notin> set s" "trim_space s = s"
  shows "find_line id_prefix (split_byte newline (id_prefix @ s)) = Some s"
proof -
  have "newline \<notin> set (id_prefix @ s)" using assms(2) by (simp add: id_prefix_def)
  then have "split_byte newline (id_prefix @ s) = [id_prefix @ s]" by (rule split_byte_id)
  moreover have "find_line id_prefix [id_prefix @ s] = Some s" by (rule find_line_hit) (use assms in simp_all)
  ultimately show ?thesis by (simp only:)
qed

lemma uuid_word: "uuid_ok u \<Longrightarrow> ul_parse u s = Some v \<Longrightarrow> s \<noteq> [] \<and> newline \<notin> set s \<and> trim_space s = s"
  unfolding uuid_ok_def by blast

text \<open>Where an identity that was given without an error is found: in a new file, or in a line of one.\<close>

lemma host_id_no_file:
  assumes "uuid_ok u" "mf_content mf = Inl e" "get_host_id u new g mf = (mf', hid, None)"
  shows "mf_content mf' = Inr (id_prefix @ new) \<and> hid = new"
proof (cases g)
  case True
  then show ?thesis using assms(2,3) by (auto simp: get_host_id_def write_file_def split: option.splits prod.splits)
next
  case False
  then have False using assms(2,3) uuid_word [OF assms(1)] by (auto simp: get_host_id_def split: option.splits)
  then show ?thesis ..
qed

lemma host_id_file:
  assumes "uuid_ok u" "mf_content mf = Inr content" "get_host_id u new g mf = (mf', hid, None)"
  shows "\<exists>s v. ul_parse u s = Some v \<and> hid = ul_string u v \<and> (mf_content mf' = Inr (id_prefix @ s)
    \<or> mf_content mf' = Inr content \<and> find_line id_prefix (split_byte newline content) = Some s)"
proof (cases "(case find_line id_prefix (split_byte newline content) of None \<Rightarrow> [] | Some h \<Rightarrow> h) = [] \<and> content \<noteq> []")
  case True
  then show ?thesis
    using assms(2,3) by (intro exI [of _ "trim_space content"]) (auto simp: get_host_id_def write_file_def Let_def split: option.splits)
next
  case False
  let ?h = "case find_line id_prefix (split_byte newline content) of None \<Rightarrow> [] | Some h \<Rightarrow> h"
  obtain v where v: "ul_parse u ?h = Some v" "hid = ul_string u v" "mf' = mf"
    using assms(2,3) False by (auto simp: get_host_id_def Let_def split: option.splits)
  then have "?h \<noteq> []" using uuid_word [OF assms(1)] by blast
  then have "find_line id_prefix (split_byte newline content) = Some ?h"
    by (cases "find_line id_prefix (split_byte newline content)") simp_all
  then show ?thesis using v assms(2) by blast
qed

subsection \<open>Properties\<close>

text \<open>
  C27: a stage that was written to the file is read from it, whatever the environment says, and the identity of the host
  that the file had is still read.
\<close>

theorem stage_written_is_read:
  assumes "over_write_stage st mf = (mf', None)" "st \<in> fst ` set stages" "distinct ord" "set ord = set stages"
    "mf_content mf = Inr content" "find_line id_prefix (split_byte newline content) = Some h" "h \<noteq> []"
  shows "get_env ord env mf' = (mf', st, Inr False)
    \<and> snd (get_host_id u new g mf') = snd (get_host_id u new g mf)"
proof -
  obtain c where c: "mf_content mf' = Inr c" "find_line stage_prefix (split_byte newline c) = Some (stage_string st)"
    "find_line id_prefix (split_byte newline c) = find_line id_prefix (split_byte newline content)"
    using overwritten_lines [OF assms(1,5,2)] by blast
  have "get_env ord env mf' = (mf', st, Inr False)"
    using c(1,2) parse_stage_named [OF assms(3,4,2)] by (simp add: get_env_def)
  then show ?thesis
    using get_host_id_line [OF c(1), of h u new g] get_host_id_line [OF assms(5,6,7), of u new g] c(3) assms(6,7) by simp
qed

text \<open>What happens to the file in the life of a host: the program is started, or the stage is updated; each time it can be
  written or not.\<close>

datatype 'u host_event =
  Started "bytes option" bytes bytes host_answers
| StageUpdated "bytes option" stage

definition host_step :: "'u uuid_lib \<Rightarrow> (stage \<times> string) list \<Rightarrow> ((bytes, bytes) fmap \<Rightarrow> bytes list) \<Rightarrow> 'u host_event \<Rightarrow> machine_file \<Rightarrow> machine_file" where
  "host_step u ord order ev mf =
     (case ev of
        Started werr newID env ha \<Rightarrow> fst (host_init u newID ord env order ha (mf\<lparr>mf_writeErr := werr\<rparr>))
      | StageUpdated werr st \<Rightarrow> fst (over_write_stage st (mf\<lparr>mf_writeErr := werr\<rparr>)))"

text \<open>The file has a line with the identity \<open>hid\<close>.\<close>

definition names_host :: "'u uuid_lib \<Rightarrow> bytes \<Rightarrow> machine_file \<Rightarrow> bool" where
  "names_host u hid mf \<longleftrightarrow> (\<exists>c s v. mf_content mf = Inr c \<and> find_line id_prefix (split_byte newline c) = Some s
     \<and> ul_parse u s = Some v \<and> hid = ul_string u v)"

lemma names_host_given:
  assumes "uuid_ok u" "ul_parse u new = Some v0" "ul_string u v0 = new" "get_host_id u new g mf = (mf', hid, None)"
  shows "names_host u hid mf'"
proof (cases "mf_content mf")
  case (Inl e)
  from host_id_no_file [OF assms(1) this assms(4)] show ?thesis
    using assms(2,3) split_id_line uuid_word [OF assms(1,2)] unfolding names_host_def by blast
next
  case (Inr content)
  from host_id_file [OF assms(1) this assms(4)] show ?thesis
    using split_id_line uuid_word [OF assms(1)] unfolding names_host_def by blast
qed

lemma names_host_read:
  assumes "uuid_ok u" "names_host u hid mf"
  shows "get_host_id u new g mf = (mf, hid, None)"
proof -
  obtain c s v where s: "mf_content mf = Inr c" "find_line id_prefix (split_byte newline c) = Some s"
    "ul_parse u s = Some v" "hid = ul_string u v" using assms(2) unfolding names_host_def by blast
  then show ?thesis using get_host_id_line [OF s(1,2), of u new g] uuid_word [OF assms(1) s(3)] by simp
qed

lemma names_host_appended:
  assumes "find_line id_prefix (split_byte newline c) = Some s"
  shows "find_line id_prefix (split_byte newline (trim_space c @ newline # t)) = Some s"
  using assms find_line_trim [OF prefix_not_space(4), of c] by (simp add: split_byte_concat find_line_append)

lemma names_host_env:
  assumes "names_host u hid mf"
  shows "names_host u hid (fst (get_env ord env mf))"
proof -
  obtain c s v where s: "mf_content mf = Inr c" "find_line id_prefix (split_byte newline c) = Some s"
    "ul_parse u s = Some v" "hid = ul_string u v" using assms unfolding names_host_def by blast
  then show ?thesis
    using names_host_appended [OF s(2), of "stage_prefix @ env"] assms
    by (auto simp: get_env_def write_file_def names_host_def split: option.split prod.split)
qed

lemma join_line: "ls \<noteq> [] \<Longrightarrow> join [newline] (ls @ [l]) = join [newline] ls @ newline # l"
proof (induction ls rule: induct_list012)
  case (3 x y zs)
  then show ?case by simp
qed simp_all

lemma names_host_overwritten:
  assumes "names_host u hid mf"
  shows "names_host u hid (fst (over_write_stage st mf))"
proof -
  obtain c s v where s: "mf_content mf = Inr c" "find_line id_prefix (split_byte newline c) = Some s"
    "ul_parse u s = Some v" "hid = ul_string u v" using assms unfolding names_host_def by blast
  let ?ls = "keep_lines (split_byte newline c)" and ?l = "stage_prefix @ stage_string st"
  have "\<forall>l \<in> set (split_byte newline c). newline \<notin> set l" using split_byte_no_sep [of _ newline c] by blast
  then have nk: "\<forall>l \<in> set ?ls. newline \<notin> set l" using keep_lines_no_newline by blast
  have f: "find_line id_prefix ?ls = Some s" using s(2) by (simp only: find_id_kept)
  then have ne: "?ls \<noteq> []" by (metis find_line.simps(1) option.distinct(1))
  then have "join [newline] (?ls @ [?l]) = join [newline] ?ls @ newline # ?l" by (rule join_line)
  moreover have "split_byte newline (join [newline] ?ls) = ?ls" by (rule split_join) (use nk ne in simp_all)
  ultimately have "find_line id_prefix (split_byte newline (join [newline] (?ls @ [?l]))) = Some s"
    using f by (simp add: split_byte_concat find_line_append)
  then show ?thesis using s assms
    by (auto simp: over_write_stage_def write_file_def Let_def names_host_def split: option.split)
qed

lemma host_init_cases:
  obtains mf1 hid err where "get_host_id u new True mf = (mf1, hid, err)"
    "fst (host_init u new ord env order ha mf) = fst (get_env ord env mf1)"
    "\<And>h. snd (host_init u new ord env order ha mf) = Returns h \<Longrightarrow> err = None \<and> hs_hostID h = hid"
proof -
  obtain mf1 hid err where g: "get_host_id u new True mf = (mf1, hid, err)" by (cases "get_host_id u new True mf") auto
  show ?thesis
    by (rule that [OF g])
       (use g in \<open>auto simp: host_init_def gather_host_info_def copy_host_info_def Let_def split: prod.splits option.splits sum.splits if_splits\<close>)
qed

lemma names_host_step:
  assumes "uuid_ok u" "names_host u hid mf"
  shows "names_host u hid (host_step u ord order ev mf)"
proof -
  have w: "names_host u hid (mf\<lparr>mf_writeErr := werr\<rparr>)" for werr using assms(2) by (simp add: names_host_def)
  show ?thesis
  proof (cases ev)
    case (Started werr new env ha)
    obtain mf1 hid' err where "get_host_id u new True (mf\<lparr>mf_writeErr := werr\<rparr>) = (mf1, hid', err)"
      "fst (host_init u new ord env order ha (mf\<lparr>mf_writeErr := werr\<rparr>)) = fst (get_env ord env mf1)"
      by (rule host_init_cases [of u new "mf\<lparr>mf_writeErr := werr\<rparr>" ord env order ha])
    then have "fst (host_init u new ord env order ha (mf\<lparr>mf_writeErr := werr\<rparr>)) = fst (get_env ord env (mf\<lparr>mf_writeErr := werr\<rparr>))"
      using names_host_read [OF assms(1) w] by simp
    then show ?thesis using names_host_env [OF w, of ord env werr] Started by (simp add: host_step_def)
  next
    case (StageUpdated werr st)
    then show ?thesis using names_host_overwritten [OF w] by (simp add: host_step_def)
  qed
qed

lemma names_host_steps: "uuid_ok u \<Longrightarrow> names_host u hid mf \<Longrightarrow> names_host u hid (fold (host_step u ord order) evs mf)"
  using names_host_step [of u hid] by (induction evs arbitrary: mf) simp_all


text \<open>Two identities for the examples.\<close>

definition flag_uuid :: "bool uuid_lib" where
  "flag_uuid = \<lparr>ul_parse = (\<lambda>s. if s = ''a'' then Some True else if s = ''b'' then Some False else None),
     ul_string = (\<lambda>v. if v then ''a'' else ''b'')\<rparr>"

definition machine :: "bytes \<Rightarrow> machine_file" where
  "machine content = \<lparr>mf_content = Inr content, mf_writeErr = None\<rparr>"

theorem stage_written_is_read_witness:
  "\<exists>mf'. over_write_stage QA (machine (''hostID=a1'' @ newline # ''stage=dev'')) = (mf', None)
     \<and> get_env stages ''prd'' mf' = (mf', QA, Inr False)"
proof -
  let ?c = "''hostID=a1'' @ newline # ''stage=dev''"
  obtain mf' where o: "over_write_stage QA (machine ?c) = (mf', None)"
    by (simp add: over_write_stage_def machine_def write_file_def Let_def)
  have h: "find_line id_prefix (split_byte newline ?c) = Some ''a1''" by code_simp
  have "get_env stages ''prd'' mf' = (mf', QA, Inr False)
      \<and> snd (get_host_id flag_uuid [] True mf') = snd (get_host_id flag_uuid [] True (machine ?c))"
    using stage_written_is_read [OF o, of stages ?c "''a1''" "''prd''" flag_uuid "[]" True] h
    by (simp add: stages_def stage_defs machine_def)
  then show ?thesis using o by blast
qed

text \<open>
  a host without a stage in its file that is started with an environment that is none fails, and keeps failing
  whatever the environment says later, since the name was written to the file.
\<close>

theorem bad_stage_sticks:
  assumes "mf_content mf = Inr content" "find_line stage_prefix (split_byte newline content) = None" "mf_writeErr mf = None"
    "word env" "env \<notin> snd ` set stages" "distinct ord" "set ord = set stages"
  shows "\<exists>mf'. get_env ord env mf = (mf', UnknownStage, Inr True)
    \<and> (\<forall>env'. get_env ord env' mf' = (mf', UnknownStage, Inr True))"
proof -
  have w: "trim_space env = env" "env \<noteq> []" "newline \<notin> set env" using word_trim [OF assms(4)] by simp_all
  have bad: "parse_stage ord env = (UnknownStage, True)"
    using parse_stage_string [OF assms(6,7), of UnknownStage env] assms(5)
    by (auto simp: parse_stage_def split: option.splits)
  let ?c = "trim_space content @ newline # stage_prefix @ env"
  let ?mf = "mf\<lparr>mf_content := Inr ?c\<rparr>"
  have g: "get_env ord env mf = (?mf, UnknownStage, Inr True)"
    using assms(1-3) w(2) bad by (simp add: get_env_def write_file_def)
  have "newline \<notin> set (stage_prefix @ env)" using w(3) by (simp add: stage_prefix_def)
  then have "split_byte newline ?c = split_byte newline (trim_space content) @ [stage_prefix @ env]"
    by (rule split_byte_last)
  moreover have "find_line stage_prefix [stage_prefix @ env] = Some env" by (rule find_line_hit) (use w in simp_all)
  moreover have "find_line stage_prefix (split_byte newline (trim_space content)) = None"
    using find_line_trim [OF prefix_not_space(2)] assms(2) by simp
  ultimately have "find_line stage_prefix (split_byte newline ?c) = Some env"
    by (simp only: find_line_append option.case)
  then show ?thesis using g bad by (simp add: get_env_def)
qed

theorem bad_stage_sticks_witness:
  "\<exists>mf'. get_env stages ''prod'' (machine ''hostID=a1'') = (mf', UnknownStage, Inr True)
     \<and> get_env stages ''prd'' mf' = (mf', UnknownStage, Inr True)"
proof -
  have "find_line stage_prefix (split_byte newline ''hostID=a1'') = None" by code_simp
  then have "\<exists>mf'. get_env stages ''prod'' (machine ''hostID=a1'') = (mf', UnknownStage, Inr True)
     \<and> (\<forall>env'. get_env stages env' mf' = (mf', UnknownStage, Inr True))"
    by (intro bad_stage_sticks [of _ "''hostID=a1''"]) (simp_all add: machine_def stages_def stage_defs word_def space_char_def)
  then show ?thesis by blast
qed

lemma flag_uuid_ok: "uuid_ok flag_uuid"
  by (auto simp: uuid_ok_def flag_uuid_def trim_space_def space_char_def)

definition quiet_answers :: host_answers where
  "quiet_answers = \<lparr>ha_ifaces = Inr [], ha_cpus = (1, None), ha_memory = Inr 1, ha_swap = Inr 0, ha_hostName = (''h'', None),
     ha_partitions = Inr [], ha_usage = (\<lambda>m. Inr 0)\<rparr>"


text \<open>The regular expression of the configuration.\<close>

lemma filter_one:
  assumes "distinct ks"
  shows "filter P ks = [k] \<longleftrightarrow> k \<in> set ks \<and> P k \<and> (\<forall>k' \<in> set ks. P k' \<longrightarrow> k' = k)"
proof
  assume f: "filter P ks = [k]"
  then have "set (filter P ks) = {k}" by simp
  then show "k \<in> set ks \<and> P k \<and> (\<forall>k' \<in> set ks. P k' \<longrightarrow> k' = k)" by auto
next
  assume "k \<in> set ks \<and> P k \<and> (\<forall>k' \<in> set ks. P k' \<longrightarrow> k' = k)"
  then have "set (filter P ks) = {k}" by auto
  moreover have "distinct (filter P ks)" using assms by simp
  ultimately show "filter P ks = [k]"
    by (cases "filter P ks"; cases "tl (filter P ks)") auto
qed

lemma match_ips_result:
  "\<forall>v \<in> set vs. v \<noteq> [] \<Longrightarrow> match_ips re vs ip =
     (case filter re vs of
        [] \<Rightarrow> Inr ip
      | [v] \<Rightarrow> if ip = [] then Inr v else Inl (ManyMatch ip v)
      | v # w # ws \<Rightarrow> if ip = [] then Inl (ManyMatch v w) else Inl (ManyMatch ip v))"
  by (induction vs arbitrary: ip) (auto split: list.splits)

lemma match_ips_single:
  assumes "\<forall>k \<in> set ks. val k \<noteq> []"
  shows "match_ips re (map val ks) [] = Inr ip \<and> ip \<noteq> [] \<longleftrightarrow> (\<exists>k. filter (\<lambda>k. re (val k)) ks = [k] \<and> ip = val k)"
proof -
  have ne: "\<forall>v \<in> set (map val ks). v \<noteq> []" using assms by simp
  have "val k \<noteq> []" if "filter (\<lambda>k. re (val k)) ks = [k]" for k
    using assms filter_eq_ConsD [OF that] by auto
  then show ?thesis unfolding match_ips_result [OF ne] filter_map comp_def by (auto split: list.splits)
qed

text \<open>
  with a regular expression the configured address of a host is found exactly if one interface has an address that
  matches, in whatever order the interfaces are looked at; two interfaces with the same address are an error, too.
\<close>

theorem ip_config_exact:
  assumes "fm_order ips ks" "\<forall>v \<in> fmran' ips. v \<noteq> []"
  shows "get_host_ip_config (Some ips) ks (Some (Some re)) nics = Some (ip, None)
    \<longleftrightarrow> (\<exists>nic. fmlookup ips nic = Some ip \<and> re ip \<and> (\<forall>nic' v. fmlookup ips nic' = Some v \<and> re v \<longrightarrow> nic' = nic))"
proof -
  let ?val = "gm_get [] (Some ips)"
  have mem: "k \<in> set ks \<longleftrightarrow> fmlookup ips k \<noteq> None" for k
    using assms(1) by (simp add: fm_order_set fmlookup_dom_iff)
  have lk: "fmlookup ips k = Some v \<longleftrightarrow> k \<in> set ks \<and> v = ?val k" for k v
    unfolding mem by (auto simp: gm_get_def split: option.splits)
  have d: "distinct ks" using assms(1) by (simp add: fm_order_def)
  have ne: "\<forall>k \<in> set ks. ?val k \<noteq> []"
    using mem assms(2) by (auto simp: gm_get_def fmran'I split: option.splits)
  have "get_host_ip_config (Some ips) ks (Some (Some re)) nics = Some (ip, None)
      \<longleftrightarrow> match_ips re (map ?val ks) [] = Inr ip \<and> ip \<noteq> []"
    by (auto simp: get_host_ip_config_def split: sum.splits)
  also have "\<dots> \<longleftrightarrow> (\<exists>k \<in> set ks. re (?val k) \<and> ip = ?val k \<and> (\<forall>k' \<in> set ks. re (?val k') \<longrightarrow> k' = k))"
    unfolding match_ips_single [OF ne] filter_one [OF d] by blast
  also have "\<dots> \<longleftrightarrow> (\<exists>nic. fmlookup ips nic = Some ip \<and> re ip \<and> (\<forall>nic' v. fmlookup ips nic' = Some v \<and> re v \<longrightarrow> nic' = nic))"
    unfolding lk by blast
  finally show ?thesis .
qed

theorem ip_config_exact_witness:
  "get_host_ip_config (Some (fmupd ''eth0'' ''10.0.0.5'' (fmupd ''lo'' ''127.0.0.1'' fmempty))) [''lo'', ''eth0''] (Some (Some internal_ip)) []
     = Some (''10.0.0.5'', None)"
proof -
  let ?m = "fmupd ''eth0'' ''10.0.0.5'' (fmupd ''lo'' ''127.0.0.1'' fmempty)"
  have "get_host_ip_config (Some ?m) [''lo'', ''eth0''] (Some (Some internal_ip)) [] = Some (''10.0.0.5'', None)
    \<longleftrightarrow> (\<exists>nic. fmlookup ?m nic = Some ''10.0.0.5'' \<and> internal_ip ''10.0.0.5''
      \<and> (\<forall>nic' v. fmlookup ?m nic' = Some v \<and> internal_ip v \<longrightarrow> nic' = nic))"
    by (rule ip_config_exact) (auto simp: fm_order_def fmran'_def)
  moreover have "internal_ip ''10.0.0.5''" "\<not> internal_ip ''127.0.0.1''" by (simp_all add: internal_ip_def)
  ultimately show ?thesis by (auto split: if_splits)
qed

text \<open>
  every address of a host is internal, or of the loopback, or external, and the external ones are all listed, as often
  as they are there; the internal address is one of the host's, or empty if it has none.
\<close>

theorem addresses_partitioned:
  "mset ips = filter_mset internal_ip (mset ips) + filter_mset (\<lambda>ip. \<not> internal_ip ip \<and> has_prefix ip ''127.0.0'') (mset ips)
      + mset (get_external_ips ips)
   \<and> (if \<exists>ip \<in> set ips. internal_ip ip then get_internal_ip ips \<in> set ips \<and> internal_ip (get_internal_ip ips)
      else get_internal_ip ips = [])"
proof -
  have e: "external_ips ips ret = ret @ filter (\<lambda>ip. \<not> internal_ip ip \<and> \<not> has_prefix ip ''127.0.0'') ips" for ret
    by (induction ips arbitrary: ret) auto
  have "if \<exists>ip \<in> set ips. internal_ip ip then get_internal_ip ips \<in> set ips \<and> internal_ip (get_internal_ip ips)
      else get_internal_ip ips = []"
    by (induction ips) auto
  moreover have "mset ips = filter_mset internal_ip (mset ips) + filter_mset (\<lambda>ip. \<not> internal_ip ip \<and> has_prefix ip ''127.0.0'') (mset ips)
      + filter_mset (\<lambda>ip. \<not> internal_ip ip \<and> \<not> has_prefix ip ''127.0.0'') (mset ips)"
    by (induction ips) auto
  ultimately show ?thesis by (simp add: get_external_ips_def e)
qed

end
