(* ===== verification/Res_Size.thy ===== *)
theory Res_Size
  imports Processes Complex_Main
begin

text \<open>
  The texts of resources (\<open>types/resource.go\<close>): sizes with a unit, the JSON of \<open>DeployResource\<close> and of \<open>ResourceSize\<close>.

  A floating point number is a real and \<open>rnd\<close> rounds to one (\<open>double_rounding\<close>); \<open>big\<close> is what the conversion to
  an unsigned number makes of one that is too large, which the language leaves open.
\<close>

subsection \<open>Sizes\<close>

text \<open>What is relied on of doubles: rounding is monotone and exact on fractions of a power of two with a small numerator.\<close>

definition double_rounding :: "(real \<Rightarrow> real) \<Rightarrow> bool" where
  "double_rounding rnd \<longleftrightarrow> mono rnd \<and> (\<forall>m::int. \<forall>j. \<bar>m\<bar> \<le> 2 ^ 53 \<longrightarrow> j \<le> 100 \<longrightarrow> rnd (of_int m / 2 ^ j) = of_int m / 2 ^ j)"

fun take_digits :: "bytes \<Rightarrow> bytes \<times> bytes" where
  "take_digits [] = ([], [])"
| "take_digits (c # s) = (if is_digit c then (case take_digits s of (d, r) \<Rightarrow> (c # d, r)) else ([], c # s))"

text \<open>\<open>resourseRE\<close>: digits, perhaps a point and digits, perhaps a unit and perhaps a b; the groups 1 and 3 of a match.\<close>

definition size_unit :: "bytes \<Rightarrow> bytes option" where
  "size_unit s =
     (case s of
        [] \<Rightarrow> Some []
      | c # r \<Rightarrow> if c \<in> set ''kKmMgG'' \<and> (r = [] \<or> r = ''b'' \<or> r = ''B'') then Some [c] else None)"

definition size_match :: "bytes \<Rightarrow> (bytes \<times> bytes) option" where
  "size_match s =
     (case take_digits s of
        (ds, r) \<Rightarrow>
          if ds = [] then None
          else
            (let (num, r) = (case r of
                   [] \<Rightarrow> (ds, [])
                 | c # r' \<Rightarrow> if c = CHR ''.'' then (case take_digits r' of (fs, r'') \<Rightarrow> (ds @ c # fs, r'')) else (ds, r))
             in map_option (Pair num) (size_unit r)))"

text \<open>\<open>strconv.ParseFloat\<close> on digits with at most one point: the value, rounded.\<close>

definition decimal_value :: "bytes \<Rightarrow> real" where
  "decimal_value s =
     (case index_byte s CHR ''.'' of
        None \<Rightarrow> of_nat (digits_val s)
      | Some i \<Rightarrow> of_nat (digits_val (take i s @ drop (Suc i) s)) / 10 ^ (length s - Suc i))"

definition parse_float :: "(real \<Rightarrow> real) \<Rightarrow> bytes \<Rightarrow> real" where
  "parse_float rnd s = rnd (decimal_value s)"

definition to_uint64 :: "(real \<Rightarrow> 64 word) \<Rightarrow> real \<Rightarrow> 64 word" where
  "to_uint64 big x = (if x < 2 ^ 64 then of_int \<lfloor>x\<rfloor> else big x)"

datatype size_error = NotASize bytes | UnknownUnit bytes | UnknownSize bytes | SizeJson bytes

definition parse_resource_value :: "(real \<Rightarrow> real) \<Rightarrow> (real \<Rightarrow> 64 word) \<Rightarrow> bytes \<Rightarrow> size_error + 64 word" where
  "parse_resource_value rnd big res =
     (case size_match res of
        None \<Rightarrow> Inl (NotASize res)
      | Some (num, unit) \<Rightarrow>
          (let n = parse_float rnd num in
           if unit = ''k'' then Inr (to_uint64 big (rnd (n * 1000)))
           else if unit = ''K'' then Inr (to_uint64 big (rnd (n * 1024)))
           else if unit = ''m'' then Inr (to_uint64 big (rnd (n * (1000 * 1000))))
           else if unit = ''M'' then Inr (to_uint64 big (rnd (n * (1024 * 1024))))
           else if unit = ''g'' then Inr (to_uint64 big (rnd (n * (1000 * 1000 * 1000))))
           else if unit = ''G'' then Inr (to_uint64 big (rnd (n * (1024 * 1024 * 1024))))
           else if unit = [] then Inr (to_uint64 big n)
           else Inl (UnknownUnit res)))"

text \<open>\<open>resUnit.String\<close>: the largest unit that is not larger than the value, rounded to the next integer.\<close>

fun unit_loop :: "bytes list \<Rightarrow> 64 word \<Rightarrow> bytes \<Rightarrow> bytes" where
  "unit_loop [] tmp unit = unit"
| "unit_loop (u # us) tmp unit = (if tmp div 1024 > 0 then unit_loop us (tmp div 1024) u else unit)"

definition unit_factor :: "bytes \<Rightarrow> nat" where
  "unit_factor unit =
     (if unit = ''G'' then 1024 * 1024 * 1024 else if unit = ''M'' then 1024 * 1024 else if unit = ''K'' then 1024
      else if unit = [] then 1 else 0)"

definition res_string :: "(real \<Rightarrow> real) \<Rightarrow> 64 word \<Rightarrow> bytes" where
  "res_string rnd ru =
     (let unit = unit_loop [''K'', ''M'', ''G''] ru [];
          num = rnd (rnd (rnd (of_nat (unat ru)) / rnd (of_nat (unit_factor unit))) + 1 / 2)
      in int_str \<lfloor>num\<rfloor> @ unit)"

definition res_marshal :: "(real \<Rightarrow> real) \<Rightarrow> 64 word \<Rightarrow> bytes" where
  "res_marshal rnd ru = dquote # res_string rnd ru @ [dquote]"

definition res_unmarshal :: "(real \<Rightarrow> real) \<Rightarrow> (real \<Rightarrow> 64 word) \<Rightarrow> bytes \<Rightarrow> size_error + 64 word" where
  "res_unmarshal rnd big dat = parse_resource_value rnd big (trim dat [dquote])"

subsection \<open>Resources as JSON\<close>

text \<open>The members of the object that are there, as they are written.\<close>

record resource_json =
  rj_memory :: "bytes option"
  rj_cpu :: "bytes option"
  rj_networkIn :: "bytes option"
  rj_networkOut :: "bytes option"
  rj_diskSpace :: "bytes option"

definition read_size :: "(real \<Rightarrow> real) \<Rightarrow> (real \<Rightarrow> 64 word) \<Rightarrow> bytes option \<Rightarrow> size_error + 64 word" where
  "read_size rnd big v = (case v of None \<Rightarrow> Inr 0 | Some txt \<Rightarrow> res_unmarshal rnd big txt)"

definition dr_unmarshal ::
  "(real \<Rightarrow> real) \<Rightarrow> (real \<Rightarrow> 64 word) \<Rightarrow> bytes + resource_json \<Rightarrow> deploy_resource \<Rightarrow> size_error + deploy_resource" where
  "dr_unmarshal rnd big dat dr =
     (case dat of
        Inl err \<Rightarrow> Inl (SizeJson err)
      | Inr j \<Rightarrow>
          (case (read_size rnd big (rj_memory j), read_size rnd big (rj_cpu j), read_size rnd big (rj_networkIn j),
                 read_size rnd big (rj_networkOut j), read_size rnd big (rj_diskSpace j)) of
             (Inr m, Inr c, Inr ni, Inr no, Inr d) \<Rightarrow>
               Inr (dr\<lparr>dr_cpu := c, dr_memory := m, dr_networkIn := ni, dr_networkOut := no, dr_diskSpace := d\<rparr>)
           | (Inl e, _) \<Rightarrow> Inl e
           | (_, Inl e, _) \<Rightarrow> Inl e
           | (_, _, Inl e, _) \<Rightarrow> Inl e
           | (_, _, _, Inl e, _) \<Rightarrow> Inl e
           | (_, _, _, _, Inl e) \<Rightarrow> Inl e))"

text \<open>A size of zero is left out.\<close>

definition write_size :: "(real \<Rightarrow> real) \<Rightarrow> 64 word \<Rightarrow> bytes option" where
  "write_size rnd x = (if x = 0 then None else Some (res_marshal rnd x))"

definition dr_marshal :: "(real \<Rightarrow> real) \<Rightarrow> deploy_resource \<Rightarrow> resource_json" where
  "dr_marshal rnd dr =
     \<lparr>rj_memory = write_size rnd (dr_memory dr), rj_cpu = write_size rnd (dr_cpu dr), rj_networkIn = write_size rnd (dr_networkIn dr),
      rj_networkOut = write_size rnd (dr_networkOut dr), rj_diskSpace = write_size rnd (dr_diskSpace dr)\<rparr>"

subsection \<open>The scale of a resource\<close>

definition ScaleSmall :: bytes where "ScaleSmall = ''small''"
definition ScaleMedium :: bytes where "ScaleMedium = ''medium''"
definition ScaleLarge :: bytes where "ScaleLarge = ''large''"

definition size_validate :: "bytes \<Rightarrow> size_error option" where
  "size_validate rs = (if rs = ScaleLarge \<or> rs = ScaleMedium \<or> rs = ScaleSmall then None else Some (UnknownSize rs))"

text \<open>\<open>json.Marshal\<close> of a value that has a \<open>MarshalJSON\<close> calls it.\<close>

partial_function (option) size_marshal :: "bytes \<Rightarrow> (size_error + bytes) option" where
  "size_marshal rs = (case size_validate rs of Some err \<Rightarrow> Some (Inl err) | None \<Rightarrow> size_marshal rs)"

definition size_unmarshal :: "bytes + bytes \<Rightarrow> size_error + bytes" where
  "size_unmarshal dat =
     (case dat of
        Inl err \<Rightarrow> Inl (SizeJson err)
      | Inr rs \<Rightarrow> (case size_validate rs of Some err \<Rightarrow> Inl err | None \<Rightarrow> Inr rs))"

subsection \<open>Lemmas\<close>

lemma rnd_frac: "double_rounding rnd \<Longrightarrow> \<bar>m\<bar> \<le> 2 ^ 53 \<Longrightarrow> j \<le> 100 \<Longrightarrow> rnd (of_int m / 2 ^ j) = of_int m / 2 ^ j"
  unfolding double_rounding_def by blast

lemma rnd_nat: "double_rounding rnd \<Longrightarrow> n \<le> 2 ^ 53 \<Longrightarrow> rnd (of_nat n) = of_nat n"
  using rnd_frac [of rnd "int n" 0] by simp

lemma take_digits_append:
  "\<forall>c \<in> set ds. is_digit c \<Longrightarrow> r = [] \<or> \<not> is_digit (hd r) \<Longrightarrow> take_digits (ds @ r) = (ds, r)"
proof (induction ds)
  case Nil
  then show ?case by (cases r) simp_all
qed simp

lemma size_match_unit:
  assumes "u = [] \<or> u = ''K'' \<or> u = ''M'' \<or> u = ''G''"
  shows "size_match (nat_str n @ u) = Some (nat_str n, u)"
proof -
  have "\<forall>c \<in> set (nat_str n). is_digit c" using nat_str_digits by blast
  moreover have "u = [] \<or> \<not> is_digit (hd u)" using assms by (auto simp: is_digit_def)
  ultimately have "take_digits (nat_str n @ u) = (nat_str n, u)" by (rule take_digits_append)
  then show ?thesis using assms by (auto simp: size_match_def size_unit_def)
qed

lemma decimal_nat [simp]: "decimal_value (nat_str n) = of_nat n"
proof -
  have "CHR ''.'' \<notin> set (nat_str n)" using nat_str_digits [of "CHR ''.''" n] by (auto simp: is_digit_def)
  then show ?thesis by (simp add: decimal_value_def)
qed

lemma unit_loop_unit:
  "unit_loop [''K'', ''M'', ''G''] x [] =
     (if unat x < 1024 then [] else if unat x < 1024 * 1024 then ''K'' else if unat x < 1024 * 1024 * 1024 then ''M'' else ''G'')"
proof -
  have p: "0 < y div 1024 \<longleftrightarrow> 1024 \<le> unat y" for y :: "64 word"
    by (simp add: word_less_nat_alt unat_div div_greater_zero_iff)
  have u: "unat (x div 1024) = unat x div 1024" "unat (x div 1024 div 1024) = unat x div (1024 * 1024)"
    by (simp_all add: unat_div flip: div_mult2_eq)
  have e: "0 < x div 1024 div 1024 \<longleftrightarrow> 1024 * 1024 \<le> unat x" "0 < x div 1024 div 1024 div 1024 \<longleftrightarrow> 1024 * 1024 * 1024 \<le> unat x"
    unfolding p u by (simp_all add: less_eq_div_iff_mult_less_eq)
  show ?thesis unfolding unit_loop.simps e p [of x] by auto
qed

text \<open>The unit a value is written in, as the exponent of its factor.\<close>

definition unit_exp :: "64 word \<Rightarrow> nat" where
  "unit_exp x = (if unat x < 1024 then 0 else if unat x < 1024 * 1024 then 10 else if unat x < 1024 * 1024 * 1024 then 20 else 30)"

definition rounded :: "64 word \<Rightarrow> nat" where
  "rounded x = (2 * unat x + 2 ^ unit_exp x) div (2 * 2 ^ unit_exp x)"

lemma unit_factor_exp: "unit_factor (unit_loop [''K'', ''M'', ''G''] x []) = 2 ^ unit_exp x"
  unfolding unit_loop_unit by (simp add: unit_exp_def unit_factor_def)

lemma round_exact:
  assumes r: "double_rounding rnd" and n: "n < 2 ^ 51" and k: "k \<le> 30"
  shows "\<lfloor>rnd (rnd (of_nat n / 2 ^ k) + 1 / 2)\<rfloor> = int ((2 * n + 2 ^ k) div (2 * 2 ^ k))"
proof -
  have p: "(2 :: int) ^ k \<le> 2 ^ 30" by (rule power_increasing [OF k]) simp
  have ni: "int n < 2 ^ 51" using n by simp
  have "rnd (of_int (int n) / 2 ^ k) = of_int (int n) / 2 ^ k" using ni k by (intro rnd_frac [OF r]) simp_all
  then have b: "rnd (of_nat n / 2 ^ k) = of_nat n / 2 ^ k" by simp
  have s: "of_nat n / 2 ^ k + 1 / 2 = (of_int (2 * int n + 2 ^ k) / 2 ^ Suc k :: real)" by (simp add: field_simps)
  have "2 * int n + 2 ^ k \<le> 2 ^ 53" using ni p by simp
  then have "rnd (of_int (2 * int n + 2 ^ k) / 2 ^ Suc k) = of_int (2 * int n + 2 ^ k) / 2 ^ Suc k"
    using k by (intro rnd_frac [OF r]) simp_all
  moreover have "\<lfloor>of_int (2 * int n + 2 ^ k) / 2 ^ Suc k :: real\<rfloor> = int ((2 * n + 2 ^ k) div (2 * 2 ^ k))"
    using floor_divide_of_int_eq [of "2 * int n + 2 ^ k" "2 ^ Suc k", where ?'a = real] by (simp add: zdiv_int)
  ultimately show ?thesis unfolding b s by simp
qed

lemma round_close:
  fixes n k :: nat
  defines "q \<equiv> (2 * n + 2 ^ k) div (2 * 2 ^ k)"
  shows "2 * (q * 2 ^ k) \<le> 2 * n + 2 ^ k" "2 * n \<le> 2 * (q * 2 ^ k) + 2 ^ k"
proof -
  define m where "m = (2 * n + 2 ^ k) mod (2 * 2 ^ k)"
  have "2 * n + 2 ^ k = 2 * (q * 2 ^ k) + m"
    using mult_div_mod_eq [of "2 * 2 ^ k" "2 * n + 2 ^ k"] unfolding q_def m_def by (simp add: algebra_simps)
  moreover have "m < 2 * 2 ^ k" by (simp add: m_def)
  ultimately show "2 * (q * 2 ^ k) \<le> 2 * n + 2 ^ k" "2 * n \<le> 2 * (q * 2 ^ k) + 2 ^ k" by linarith+
qed

lemma res_string_exact:
  assumes r: "double_rounding rnd" and x: "unat x < 2 ^ 51"
  shows "res_string rnd x = nat_str (rounded x) @ unit_loop [''K'', ''M'', ''G''] x []"
proof -
  have k: "unit_exp x \<le> 30" by (simp add: unit_exp_def)
  have "(2 :: nat) ^ unit_exp x \<le> 2 ^ 30" by (rule power_increasing [OF k]) simp
  then have f: "rnd (of_nat (2 ^ unit_exp x)) = of_nat (2 ^ unit_exp x)" by (intro rnd_nat [OF r]) simp
  have a: "rnd (of_nat (unat x)) = of_nat (unat x)" by (rule rnd_nat [OF r]) (use x in simp)
  show ?thesis
    using round_exact [OF r x k] unfolding res_string_def Let_def unit_factor_exp a f rounded_def
    by (simp add: int_str_def del: of_nat_unat)
qed

lemma rounded_close: "2 * (rounded x * 2 ^ unit_exp x) \<le> 2 * unat x + 2 ^ unit_exp x" "2 * unat x \<le> 2 * (rounded x * 2 ^ unit_exp x) + 2 ^ unit_exp x"
  unfolding rounded_def by (rule round_close)+

lemma rounded_dvd: "2 ^ unit_exp x dvd unat x \<Longrightarrow> rounded x * 2 ^ unit_exp x = unat x"
proof -
  assume "2 ^ unit_exp x dvd unat x"
  then obtain q where q: "unat x = 2 ^ unit_exp x * q" by blast
  have "(2 * (2 ^ unit_exp x * q) + 2 ^ unit_exp x) div (2 * 2 ^ unit_exp x) = (q :: nat)"
    by (simp add: div_nat_eqI algebra_simps)
  then show ?thesis unfolding rounded_def q by simp
qed

lemma trim_quotes:
  assumes "s \<noteq> []" "hd s \<noteq> q" "last s \<noteq> q"
  shows "trim (q # s @ [q]) [q] = s"
proof -
  have "dropWhile (\<lambda>c. c = q) (s @ [q]) = s @ [q]" using assms(1,2) by (cases s) simp_all
  moreover have "dropWhile (\<lambda>c. c = q) (rev s) = rev s" using assms(1,3) by (cases s rule: rev_cases) simp_all
  ultimately show ?thesis by (simp add: trim_def trim_left_def trim_right_def)
qed

lemma read_written:
  assumes r: "double_rounding rnd" and x: "unat x < 2 ^ 51"
  shows "res_unmarshal rnd big (res_marshal rnd x) = Inr (of_nat (rounded x * 2 ^ unit_exp x))"
proof -
  let ?n = "rounded x" and ?u = "unit_loop [''K'', ''M'', ''G''] x []"
  have u: "?u = [] \<or> ?u = ''K'' \<or> ?u = ''M'' \<or> ?u = ''G''" unfolding unit_loop_unit by simp
  have k: "unit_exp x \<le> 30" by (simp add: unit_exp_def)
  then have "(2 :: nat) ^ unit_exp x \<le> 2 ^ 30" by (rule power_increasing) simp
  then have nf': "?n * 2 ^ unit_exp x \<le> 2 ^ 52" using rounded_close(1) [of x] x by simp
  have "?n \<le> ?n * 2 ^ unit_exp x" by simp
  from order_trans [OF this nf'] have n: "?n \<le> 2 ^ 53" by simp
  have q: "hd (nat_str ?n @ ?u) \<noteq> dquote" "last (nat_str ?n @ ?u) \<noteq> dquote"
  proof -
    have "is_digit (hd (nat_str ?n))" by (rule nat_str_digits [OF hd_in_set]) simp
    moreover have "is_digit (last (nat_str ?n))" by (rule nat_str_digits [OF last_in_set]) simp
    moreover have "\<not> is_digit dquote" by (simp add: is_digit_def)
    ultimately show "hd (nat_str ?n @ ?u) \<noteq> dquote" "last (nat_str ?n @ ?u) \<noteq> dquote" using u by auto
  qed
  have t: "trim (res_marshal rnd x) [dquote] = nat_str ?n @ ?u"
    unfolding res_marshal_def res_string_exact [OF r x] by (rule trim_quotes) (use q in simp_all)
  have w: "to_uint64 big (of_nat m) = of_nat m" if "m \<le> 2 ^ 52" for m
    using that by (simp add: to_uint64_def less_le_trans order_le_less_trans flip: of_nat_le_iff)
  have rf: "rnd (of_nat ?n * of_nat (2 ^ unit_exp x)) = of_nat (?n * 2 ^ unit_exp x)"
    using rnd_nat [OF r, of "?n * 2 ^ unit_exp x"] nf' by simp
  have cases: "?u = [] \<and> unit_exp x = 0 \<or> ?u = ''K'' \<and> unit_exp x = 10 \<or> ?u = ''M'' \<and> unit_exp x = 20 \<or> ?u = ''G'' \<and> unit_exp x = 30"
    unfolding unit_loop_unit by (simp add: unit_exp_def)
  have m: "size_match (nat_str ?n @ ?u) = Some (nat_str ?n, ?u)" by (rule size_match_unit [OF u])
  have pf: "parse_float rnd (nat_str ?n) = of_nat ?n" using rnd_nat [OF r n] by (simp add: parse_float_def)
  have "parse_resource_value rnd big (nat_str ?n @ ?u) = Inr (to_uint64 big (of_nat (?n * 2 ^ unit_exp x)))"
    using cases rf unfolding parse_resource_value_def m option.case prod.case pf Let_def by (elim disjE conjE) simp_all
  then show ?thesis unfolding res_unmarshal_def t w [OF nf'] .
qed

subsection \<open>Properties\<close>

text \<open>
  C26: a size below \<open>2 ^ 51\<close> is written with the largest unit it reaches, and what is read back differs from it by at most
  half of that unit; a multiple of the unit is read back exactly.
\<close>

theorem size_text_close:
  assumes "double_rounding rnd" "unat x < 2 ^ 51"
  shows "\<exists>y. res_unmarshal rnd big (res_marshal rnd x) = Inr y
    \<and> 2 * \<bar>int (unat y) - int (unat x)\<bar> \<le> int (unit_factor (unit_loop [''K'', ''M'', ''G''] x []))
    \<and> (unit_factor (unit_loop [''K'', ''M'', ''G''] x []) dvd unat x \<longrightarrow> y = x)"
proof -
  define n f where "n = rounded x * 2 ^ unit_exp x" and "f = (2 :: nat) ^ unit_exp x"
  have k: "unit_exp x \<le> 30" by (simp add: unit_exp_def)
  have "f \<le> 2 ^ 30" unfolding f_def by (rule power_increasing [OF k]) simp
  then have "n \<le> 2 ^ 52" using rounded_close(1) [of x] assms(2) by (simp add: n_def f_def)
  then have y: "unat (of_nat n :: 64 word) = n" by (simp add: unat_of_nat take_bit_nat_eq_self)
  have c: "2 * n \<le> 2 * unat x + f" "2 * unat x \<le> 2 * n + f" using rounded_close [of x] by (simp_all add: n_def f_def)
  have "2 * \<bar>int n - int m\<bar> \<le> int f" if "2 * n \<le> 2 * m + f" "2 * m \<le> 2 * n + f" for m using that by arith
  then have "2 * \<bar>int (unat (of_nat n :: 64 word)) - int (unat x)\<bar> \<le> int f" unfolding y using c by blast
  moreover have "f dvd unat x \<longrightarrow> of_nat n = x" using rounded_dvd [of x] by (auto simp: n_def f_def)
  ultimately show ?thesis
    using read_written [OF assms, of big] unfolding unit_factor_exp n_def f_def by blast
qed

lemma double_rounding_id: "double_rounding id"
  by (simp add: double_rounding_def mono_def)

theorem size_text_close_witness:
  "res_unmarshal id (\<lambda>_. 0) (res_marshal id 3145728) = Inr 3145728"
proof -
  have "\<exists>y. res_unmarshal id (\<lambda>_. 0) (res_marshal id 3145728) = Inr y
    \<and> 2 * \<bar>int (unat y) - int (unat (3145728 :: 64 word))\<bar> \<le> int (unit_factor (unit_loop [''K'', ''M'', ''G''] 3145728 []))
    \<and> (unit_factor (unit_loop [''K'', ''M'', ''G''] 3145728 []) dvd unat (3145728 :: 64 word) \<longrightarrow> y = 3145728)"
    by (rule size_text_close [OF double_rounding_id]) simp
  moreover have "unit_factor (unit_loop [''K'', ''M'', ''G''] 3145728 []) dvd unat (3145728 :: 64 word)"
    unfolding unit_loop_unit by (simp add: unit_factor_def)
  ultimately show ?thesis by blast
qed

definition exact_size :: "64 word \<Rightarrow> bool" where
  "exact_size x \<longleftrightarrow> unat x < 2 ^ 51 \<and> 2 ^ unit_exp x dvd unat x"

lemma read_exact: "double_rounding rnd \<Longrightarrow> exact_size x \<Longrightarrow> read_size rnd big (write_size rnd x) = Inr x"
  using read_written [of rnd x big] rounded_dvd [of x] by (auto simp: exact_size_def read_size_def write_size_def)

text \<open>
  a resource whose sizes are multiples of their units is read back from its JSON, but the three limits are not
  written: they stay what they were in the value that is read into.
\<close>

theorem resource_json_roundtrip:
  assumes "double_rounding rnd" "\<forall>x \<in> {dr_memory dr, dr_cpu dr, dr_networkIn dr, dr_networkOut dr, dr_diskSpace dr}. exact_size x"
  shows "dr_unmarshal rnd big (Inr (dr_marshal rnd dr)) dr0 =
    Inr (dr\<lparr>dr_maxAllowedMemory := dr_maxAllowedMemory dr0, dr_maxAllowedCPU := dr_maxAllowedCPU dr0,
            dr_maxAllowdThreads := dr_maxAllowdThreads dr0\<rparr>)"
  using assms by (simp add: dr_unmarshal_def dr_marshal_def read_exact)

theorem resource_json_roundtrip_witness:
  "dr_unmarshal id (\<lambda>_. 0) (Inr (dr_marshal id (zero_resource\<lparr>dr_memory := 1073741824, dr_maxAllowedMemory := 2147483648\<rparr>))) zero_resource
     = Inr (zero_resource\<lparr>dr_memory := 1073741824\<rparr>)"
proof -
  let ?dr = "zero_resource\<lparr>dr_memory := 1073741824, dr_maxAllowedMemory := 2147483648\<rparr>"
  have "dr_unmarshal id (\<lambda>_. 0) (Inr (dr_marshal id ?dr)) zero_resource =
    Inr (?dr\<lparr>dr_maxAllowedMemory := dr_maxAllowedMemory zero_resource, dr_maxAllowedCPU := dr_maxAllowedCPU zero_resource,
            dr_maxAllowdThreads := dr_maxAllowdThreads zero_resource\<rparr>)"
    by (rule resource_json_roundtrip [OF double_rounding_id]) (simp add: exact_size_def unit_exp_def zero_resource_def)
  then show ?thesis by (simp add: zero_resource_def)
qed

text \<open>
  for a resource that was read from JSON the memory of every process is reported as too high, however little it uses:
  the limit that was not read is zero.
\<close>

theorem decoded_memory_alarm:
  assumes "dr_unmarshal rnd big dat zero_resource = Inr res" "dr_memory res \<noteq> 0"
  shows "check_memory mem res (conditions, events) = Some (conditions @ [HighMem], events)"
proof -
  have "dr_maxAllowedMemory res = 0"
    using assms(1) by (auto simp: dr_unmarshal_def zero_resource_def split: sum.splits)
  then show ?thesis using assms(2) by (cases "mem = 0") (simp_all add: check_memory_def Let_def)
qed

theorem decoded_memory_alarm_witness:
  "check_memory 1 (zero_resource\<lparr>dr_memory := 1024\<rparr>) ([], []) = Some ([HighMem], [])"
proof -
  have "exact_size 1024" "exact_size 0" by (simp_all add: exact_size_def unit_exp_def)
  then have d: "dr_unmarshal id (\<lambda>_. 0) (Inr (dr_marshal id (zero_resource\<lparr>dr_memory := 1024\<rparr>))) zero_resource
      = Inr (zero_resource\<lparr>dr_memory := 1024\<rparr>)"
    by (simp add: dr_unmarshal_def dr_marshal_def read_exact [OF double_rounding_id] zero_resource_def)
  then show ?thesis using decoded_memory_alarm [OF d, of 1 "[]" "[]"] by (simp add: zero_resource_def)
qed

text \<open>Writing a valid scale as JSON never returns: the encoder calls \<open>MarshalJSON\<close>, which calls the encoder.\<close>

lemma size_marshal_never: "size_validate rs = None \<Longrightarrow> size_marshal rs = None"
proof (rule ccontr)
  assume v: "size_validate rs = None" and "size_marshal rs \<noteq> None"
  then obtain y where "size_marshal rs = Some y" by blast
  then have "size_validate rs \<noteq> None"
    by (rule size_marshal.raw_induct [where P = "\<lambda>rs _. size_validate rs \<noteq> None", rotated]) (fastforce split: option.splits)
  then show False using v by simp
qed

end
