(* ===== verification/Deploy_Policy.thy ===== *)
theory Deploy_Policy
  imports Res_Size
begin

text \<open>
  The texts of the settings of a deployment (\<open>types/deploy.go\<close>, \<open>types/namespace.go\<close>): durations as
  \<open>time.Duration\<close> writes and \<open>time.ParseDuration\<close> reads them, the JSON of \<open>UpdateOption\<close>, \<open>RestartPolicy\<close> and
  \<open>Stage\<close>, and the names of namespaces.

  A JSON value is what \<open>json.Unmarshal\<close> makes of the data: a text or an error.
\<close>

subsection \<open>Durations\<close>

text \<open>\<open>Duration.String\<close> writes from the right: \<open>fmtFrac\<close> puts the digits of the fraction in front of \<open>buf\<close>.\<close>

fun frac_loop :: "nat \<Rightarrow> nat \<Rightarrow> bool \<Rightarrow> bytes \<Rightarrow> bytes \<times> nat \<times> bool" where
  "frac_loop 0 v print buf = (buf, v, print)"
| "frac_loop (Suc i) v print buf =
     (let digit = v mod 10; print = (print \<or> digit \<noteq> 0)
      in frac_loop i (v div 10) print (if print then digit_char digit # buf else buf))"

definition fmt_frac :: "nat \<Rightarrow> nat \<Rightarrow> bytes \<Rightarrow> bytes \<times> nat" where
  "fmt_frac prec v buf =
     (case frac_loop prec v False buf of (buf, v, print) \<Rightarrow> (if print then CHR ''.'' # buf else buf, v))"

definition micro :: bytes where "micro = [CHR 0xC2, CHR 0xB5]"

definition duration_text :: "nat \<Rightarrow> bytes" where
  "duration_text u =
     (if u = 0 then ''0s''
      else if u < 1000000000 then
        (let (prec, unit) = (if u < 1000 then (0, ''ns'') else if u < 1000000 then (3, micro @ ''s'') else (6, ''ms''));
             (buf, v) = fmt_frac prec u unit
         in nat_str v @ buf)
      else
        (let (buf, v) = fmt_frac 9 u ''s'';
             buf = nat_str (v mod 60) @ buf; m = v div 60
         in if m = 0 then buf
            else
              (let buf = nat_str (m mod 60) @ ''m'' @ buf; h = m div 60
               in if h = 0 then buf else nat_str h @ ''h'' @ buf)))"

definition duration_string :: "int \<Rightarrow> bytes" where
  "duration_string d = (if d < 0 then CHR ''-'' # duration_text (nat (- d)) else duration_text (nat d))"

text \<open>\<open>leadingInt\<close> and \<open>leadingFraction\<close>: the number, the scale of a fraction and the rest of the text.\<close>

fun leading_int :: "nat \<Rightarrow> bytes \<Rightarrow> (nat \<times> bytes) option" where
  "leading_int x [] = Some (x, [])"
| "leading_int x (c # s) =
     (if \<not> is_digit c then Some (x, c # s)
      else if x > (2 ^ 63 - 1) div 10 then None
      else if 10 * x + digit_val c \<ge> 2 ^ 63 then None
      else leading_int (10 * x + digit_val c) s)"

fun leading_fraction :: "nat \<Rightarrow> nat \<Rightarrow> bool \<Rightarrow> bytes \<Rightarrow> nat \<times> nat \<times> bytes" where
  "leading_fraction x scale overflow [] = (x, scale, [])"
| "leading_fraction x scale overflow (c # s) =
     (if \<not> is_digit c then (x, scale, c # s)
      else if overflow \<or> x > (2 ^ 63 - 1) div 10 \<or> 10 * x + digit_val c \<ge> 2 ^ 63 then leading_fraction x scale True s
      else leading_fraction (10 * x + digit_val c) (10 * scale) False s)"

definition unit_map :: "bytes \<Rightarrow> nat option" where
  "unit_map u = map_of
     [(''ns'', 1), (''us'', 1000), (micro @ ''s'', 1000), ([CHR 0xCE, CHR 0xBC] @ ''s'', 1000), (''ms'', 1000000),
      (''s'', 1000000000), (''m'', 60 * 1000000000), (''h'', 3600 * 1000000000)] u"

definition number_char :: "char \<Rightarrow> bool" where
  "number_char c \<longleftrightarrow> c = CHR ''.'' \<or> is_digit c"

text \<open>One number with its unit, and the rest of the text.\<close>

definition duration_part :: "(real \<Rightarrow> real) \<Rightarrow> bytes \<Rightarrow> (nat \<times> bytes) option" where
  "duration_part rnd s =
     (if s = [] \<or> \<not> number_char (hd s) then None
      else
        (case leading_int 0 s of
           None \<Rightarrow> None
         | Some (v, s1) \<Rightarrow>
             (let pre = (length s \<noteq> length s1);
                  (f, scale, s2, post) =
                    (if s1 \<noteq> [] \<and> hd s1 = CHR ''.''
                     then (case leading_fraction 0 1 False (tl s1) of (f, scale, r) \<Rightarrow> (f, scale, r, length (tl s1) \<noteq> length r))
                     else (0, 1, s1, False));
                  u = takeWhile (\<lambda>c. \<not> number_char c) s2
              in if \<not> pre \<and> \<not> post \<or> u = [] then None
                 else
                   (case unit_map u of
                      None \<Rightarrow> None
                    | Some unit \<Rightarrow>
                        if v > (2 ^ 63 - 1) div unit then None
                        else
                          (let v = v * unit;
                               v = (if f > 0 then v + nat \<lfloor>rnd (rnd (of_nat f) * rnd (of_nat unit / of_nat scale))\<rfloor> else v)
                           in if v \<ge> 2 ^ 63 then None else Some (v, dropWhile (\<lambda>c. \<not> number_char c) s2))))))"

lemma leading_int_length: "leading_int x s = Some (y, r) \<Longrightarrow> length r \<le> length s"
  by (induction x s arbitrary: y r rule: leading_int.induct) (auto split: if_splits)

lemma leading_fraction_length: "leading_fraction x sc b s = (f, sc', r) \<Longrightarrow> length r \<le> length s"
  by (induction x sc b s rule: leading_fraction.induct) (auto split: if_splits)

lemma dropWhile_shorter: "takeWhile P s \<noteq> [] \<Longrightarrow> length (dropWhile P s) < length s"
  by (cases s) (auto simp: length_dropWhile_le less_Suc_eq_le split: if_splits)

lemma duration_part_shorter: "duration_part rnd s = Some (v, r) \<Longrightarrow> length r < length s"
proof -
  assume "duration_part rnd s = Some (v, r)"
  then obtain x s1 f sc s2 post where l: "leading_int 0 s = Some (x, s1)"
    and p: "(f, sc, s2, post) = (if s1 \<noteq> [] \<and> hd s1 = CHR ''.''
         then (case leading_fraction 0 1 False (tl s1) of (f, scale, r) \<Rightarrow> (f, scale, r, length (tl s1) \<noteq> length r))
         else (0, 1, s1, False))"
    and u: "takeWhile (\<lambda>c. \<not> number_char c) s2 \<noteq> []" "r = dropWhile (\<lambda>c. \<not> number_char c) s2"
    unfolding duration_part_def Let_def
    by (auto split: if_splits option.splits prod.splits)
  have "length s2 \<le> length s1"
    using p by (auto split: if_splits prod.splits dest!: leading_fraction_length)
  then show "length r < length s" using leading_int_length [OF l] dropWhile_shorter [OF u(1)] u(2) by simp
qed

function duration_loop :: "(real \<Rightarrow> real) \<Rightarrow> nat \<Rightarrow> bytes \<Rightarrow> nat option" where
  "duration_loop rnd d s =
     (if s = [] then Some d
      else
        (case duration_part rnd s of
           None \<Rightarrow> None
         | Some (v, r) \<Rightarrow> if d + v \<ge> 2 ^ 63 then None else duration_loop rnd (d + v) r))"
  by pat_completeness auto
termination by (relation "measure (\<lambda>(rnd, d, s). length s)") (auto dest: duration_part_shorter)

declare duration_loop.simps [simp del]

definition parse_duration :: "(real \<Rightarrow> real) \<Rightarrow> bytes \<Rightarrow> int option" where
  "parse_duration rnd s =
     (let neg = (s \<noteq> [] \<and> hd s = CHR ''-'');
          s = (if s \<noteq> [] \<and> (hd s = CHR ''-'' \<or> hd s = CHR ''+'') then tl s else s)
      in if s = ''0'' then Some 0
         else if s = [] then None
         else map_option (\<lambda>d. if neg then - int d else int d) (duration_loop rnd 0 s))"

subsection \<open>Update options\<close>

text \<open>What is used of \<open>float64\<close>: \<open>ParseFloat\<close>, one half, \<open>p / 100\<close>, \<open>int(100 * p)\<close> and the comparisons with 1 and 0.\<close>

record 'f float_ops =
  fl_parse :: "bytes \<Rightarrow> 'f option"
  fl_half :: 'f
  fl_div100 :: "'f \<Rightarrow> 'f"
  fl_percent :: "'f \<Rightarrow> int"
  fl_above1 :: "'f \<Rightarrow> bool"
  fl_below0 :: "'f \<Rightarrow> bool"

datatype policy_error =
  PolicyJson bytes | PolicyFormat | BadDuration bytes | BadPercent bytes | InvalidOption | InvalidName
| UnknownRestart bytes | UnknownDate bytes | UnknownValue | TimeError bytes

definition update_unmarshal ::
  "(real \<Rightarrow> real) \<Rightarrow> 'f float_ops \<Rightarrow> bytes + bytes \<Rightarrow> 'f update_option \<Rightarrow> policy_error + 'f update_option" where
  "update_unmarshal rnd fo dat uo =
     (case dat of
        Inl err \<Rightarrow> Inl (PolicyJson err)
      | Inr s \<Rightarrow>
          (let parts = split_byte CHR '':'' s in
           if length parts > 3 then Inl PolicyFormat
           else
             (let tos = (if length parts = 3 then parts ! 2 else if length parts = 2 then parts ! 1 else []);
                  p = parts ! 0; timeout = 5 * minute
              in case (if p = RollingUpdate \<or> p = NewDeploy then
                         (case (if length parts = 3 then parse_duration rnd (parts ! 1) else Some (30 * second)) of
                            None \<Rightarrow> Inl (BadDuration (parts ! 1))
                          | Some step \<Rightarrow> Inr (uo\<lparr>uo_step := step\<rparr>))
                       else if p = MixedUpdate then
                         (case (if length parts = 3 then map_option (fl_div100 fo) (fl_parse fo (parts ! 1)) else Some (fl_half fo)) of
                            None \<Rightarrow> Inl (BadPercent (parts ! 1))
                          | Some q \<Rightarrow> Inr (uo\<lparr>uo_newPercent := q\<rparr>))
                       else Inr uo) of
                   Inl err \<Rightarrow> Inl err
                 | Inr uo \<Rightarrow>
                     (case (if length tos > 0 then parse_duration rnd tos else Some timeout) of
                        None \<Rightarrow> Inl (BadDuration tos)
                      | Some timeout \<Rightarrow>
                          (let uo = uo\<lparr>uo_policy := p, uo_timeout := timeout\<rparr>
                           in if update_option_valid (fl_above1 fo) (fl_below0 fo) (Some uo) then Inr uo else Inl InvalidOption)))))"

definition update_marshal :: "'f float_ops \<Rightarrow> 'f update_option \<Rightarrow> policy_error + bytes" where
  "update_marshal fo uo =
     (if \<not> update_option_valid (fl_above1 fo) (fl_below0 fo) (Some uo) then Inl InvalidOption
      else if uo_policy uo = NewDeploy \<or> uo_policy uo = RollingUpdate then
        Inr (uo_policy uo @ '':'' @ duration_string (uo_step uo) @ '':'' @ duration_string (uo_timeout uo))
      else if uo_policy uo = MixedUpdate then
        Inr (uo_policy uo @ '':'' @ int_str (fl_percent fo (uo_newPercent uo)) @ '':'' @ duration_string (uo_timeout uo))
      else Inl InvalidName)"

subsection \<open>Restart policies\<close>

text \<open>
  The type and the time of a \<open>RestartPolicy\<close> (the datatype of the same name keeps the time as a number; its text
  depends on its location, so it is abstract here), and what is used of the package \<open>time\<close>: \<open>IsZero\<close>, the text of
  \<open>MarshalJSON\<close>, \<open>Parse\<close> with a format, \<open>Add(8 * time.Hour)\<close> and \<open>Unix\<close>.
\<close>

record 't restart =
  rp_type :: bytes
  rp_until :: 't

record 't time_lib =
  tl_isZero :: "'t \<Rightarrow> bool"
  tl_text :: "'t \<Rightarrow> bytes + bytes"
  tl_parse :: "bytes \<Rightarrow> bytes \<Rightarrow> bytes + 't"
  tl_add8h :: "'t \<Rightarrow> 't"
  tl_unix :: "int \<Rightarrow> 't"

definition OneTime :: bytes where "OneTime = ''onetime''"
definition Always :: bytes where "Always = ''always''"
definition Until :: bytes where "Until = ''until''"
definition RFC3339 :: bytes where "RFC3339 = ''2006-01-02T15:04:05Z07:00''"

text \<open>
  The data: a text, an object with the members \<open>type\<close> and \<open>value\<close>, where a number is given as its integral part,
  or what is neither.
\<close>

datatype json_member = MText bytes | MNumber int | MOther
datatype restart_json = RText bytes | RObject bytes json_member | RBad bytes

definition restart_marshal :: "'t time_lib \<Rightarrow> 't restart \<Rightarrow> policy_error + restart_json" where
  "restart_marshal tlib rp =
     (if rp_type rp = OneTime \<or> rp_type rp = Always then Inr (RText (rp_type rp))
      else if rp_type rp = [] \<and> tl_isZero tlib (rp_until rp) then Inr (RText Always)
      else
        (case tl_text tlib (rp_until rp) of
           Inl err \<Rightarrow> Inl (TimeError err)
         | Inr txt \<Rightarrow> Inr (RObject (rp_type rp) (MText txt))))"

definition date_format :: "bytes \<Rightarrow> bytes option" where
  "date_format a =
     (if length a = 5 then Some ''15:04''
      else if length a = 10 then Some ''2006-01-02''
      else if length a = 16 then Some ''2006-01-02 15:04''
      else if length a = length RFC3339 then Some RFC3339
      else None)"

definition restart_unmarshal :: "'t time_lib \<Rightarrow> restart_json \<Rightarrow> 't restart \<Rightarrow> policy_error + 't restart" where
  "restart_unmarshal tlib dat rp =
     (case dat of
        RText s \<Rightarrow>
          (let s = (if s = [] then Always else s)
           in if s \<noteq> OneTime \<and> s \<noteq> Always then Inl (UnknownRestart s) else Inr (rp\<lparr>rp_type := s\<rparr>))
      | RBad err \<Rightarrow> Inl (PolicyJson err)
      | RObject typ v \<Rightarrow>
          if typ \<noteq> Until then Inl (UnknownRestart typ)
          else
            (case v of
               MText a \<Rightarrow>
                 (case date_format a of
                    None \<Rightarrow> Inl (UnknownDate a)
                  | Some format \<Rightarrow>
                      (case tl_parse tlib format a of
                         Inl err \<Rightarrow> Inl (TimeError err)
                       | Inr d \<Rightarrow>
                           (let d = (if format \<noteq> RFC3339 then tl_add8h tlib d else d)
                            in Inr (rp\<lparr>rp_type := typ, rp_until := d\<rparr>))))
             | MNumber a \<Rightarrow> Inr (rp\<lparr>rp_until := tl_unix tlib a, rp_type := typ\<rparr>)
             | MOther \<Rightarrow> Inl UnknownValue))"

subsection \<open>Stages and namespaces\<close>

definition stage_marshal :: "stage \<Rightarrow> bytes" where
  "stage_marshal s = stage_string s"

definition stage_unmarshal :: "(stage \<times> string) list \<Rightarrow> bytes + bytes \<Rightarrow> bytes + stage" where
  "stage_unmarshal ord dat =
     (case dat of
        Inl err \<Rightarrow> Inl err
      | Inr st \<Rightarrow> (case parse_stage ord st of (stage, True) \<Rightarrow> Inl ''unknown stage'' | (stage, False) \<Rightarrow> Inr stage))"

text \<open>\<open>nsregxp\<close> is \<open>[a-z]+([.-][a-z]+)*\<close>; \<open>MatchString\<close> looks for a match anywhere in the text.\<close>

definition lower :: "char \<Rightarrow> bool" where
  "lower c \<longleftrightarrow> 97 \<le> (of_char c :: nat) \<and> (of_char c :: nat) \<le> 122"

definition lower_word :: "bytes \<Rightarrow> bool" where
  "lower_word w \<longleftrightarrow> w \<noteq> [] \<and> list_all lower w"

definition ns_regexp :: "bytes \<Rightarrow> bool" where
  "ns_regexp s \<longleftrightarrow> list_all lower_word (concat (map (split_byte CHR ''-'') (split_byte CHR ''.'' s)))"

definition ns_match :: "bytes \<Rightarrow> bool" where
  "ns_match s \<longleftrightarrow> list_ex (\<lambda>i. list_ex (\<lambda>n. ns_regexp (take n (drop i s))) [0..<Suc (length s)]) [0..<Suc (length s)]"

datatype ns_error = NamespaceTooLong | NamespaceEmpty | NamespaceInvalid

definition ns_validate :: "bytes \<Rightarrow> ns_error option" where
  "ns_validate ns =
     (if length ns > 64 then Some NamespaceTooLong
      else if length ns = 0 then Some NamespaceEmpty
      else if ns_match ns then None
      else Some NamespaceInvalid)"

subsection \<open>Durations are read back\<close>

definition digits :: "bytes \<Rightarrow> bool" where
  "digits ds \<longleftrightarrow> (\<forall>c \<in> set ds. is_digit c)"

lemma digits_simps [simp]: "digits []" "digits (c # ds) \<longleftrightarrow> is_digit c \<and> digits ds" "digits (ds @ ds') \<longleftrightarrow> digits ds \<and> digits ds'"
  "digits (nat_str n)"
  using nat_str_digits by (auto simp: digits_def)

lemma digit_foldl: "foldl (\<lambda>a c. 10 * a + digit_val c) x ds = x * 10 ^ length ds + digits_val ds"
proof (induction ds arbitrary: x)
  case (Cons c ds)
  show ?case
    using Cons [of "10 * x + digit_val c"] Cons [of "digit_val c"] by (simp add: digits_val_def algebra_simps)
qed (simp add: digits_val_def)

lemma digit_val_lt: "is_digit c \<Longrightarrow> digit_val c < 10"
  by (auto simp: is_digit_def digit_val_def)

lemma digits_val_Cons: "digits_val (c # ds) = digit_val c * 10 ^ length ds + digits_val ds"
  using digit_foldl [of "digit_val c" ds] by (simp add: digits_val_def)

lemma digits_val_Nil [simp]: "digits_val [] = 0"
  by (simp add: digits_val_def)

lemma digits_val_lt: "digits ds \<Longrightarrow> digits_val ds < 10 ^ length ds"
proof (induction ds)
  case (Cons c ds)
  then have "digit_val c \<le> 9" "digits_val ds < 10 ^ length ds" using digit_val_lt [of c] by simp_all
  then have "digit_val c * 10 ^ length ds + digits_val ds < 9 * 10 ^ length ds + 10 ^ length ds"
    by (intro add_le_less_mono mult_right_mono) simp_all
  then show ?case by (simp add: digits_val_Cons)
qed simp

lemma number_step:
  fixes x :: nat
  assumes "x * 10 ^ length (c # ds) + digits_val (c # ds) < 2 ^ 63"
  shows "x * 10 ^ length (c # ds) + digits_val (c # ds) = (10 * x + digit_val c) * 10 ^ length ds + digits_val ds"
    and "10 * x + digit_val c < 2 ^ 63" and "x \<le> (2 ^ 63 - 1) div 10"
proof -
  show e: "x * 10 ^ length (c # ds) + digits_val (c # ds) = (10 * x + digit_val c) * 10 ^ length ds + digits_val ds"
    by (simp add: digits_val_Cons algebra_simps)
  have "10 * x + digit_val c \<le> (10 * x + digit_val c) * 10 ^ length ds" by simp
  also have "\<dots> \<le> (10 * x + digit_val c) * 10 ^ length ds + digits_val ds" by simp
  also have "\<dots> < 2 ^ 63" using assms unfolding e .
  finally show "10 * x + digit_val c < 2 ^ 63" .
  then show "x \<le> (2 ^ 63 - 1) div 10" by simp
qed

lemma leading_int_digits:
  assumes "digits ds" "x * 10 ^ length ds + digits_val ds < 2 ^ 63" "r = [] \<or> \<not> is_digit (hd r)"
  shows "leading_int x (ds @ r) = Some (x * 10 ^ length ds + digits_val ds, r)"
  using assms
proof (induction ds arbitrary: x)
  case Nil
  then show ?case by (cases r) simp_all
next
  case (Cons c ds)
  note st = number_step [OF Cons.prems(2)]
  have "leading_int (10 * x + digit_val c) (ds @ r) = Some ((10 * x + digit_val c) * 10 ^ length ds + digits_val ds, r)"
    by (rule Cons.IH [OF _ Cons.prems(2) [unfolded st(1)] Cons.prems(3)]) (use Cons.prems(1) in simp)
  moreover have "is_digit c" using Cons.prems(1) by simp
  ultimately show ?case using st(2,3) unfolding st(1) by (simp del: power.simps)
qed

lemma leading_fraction_digits:
  assumes "digits ds" "x * 10 ^ length ds + digits_val ds < 2 ^ 63" "r = [] \<or> \<not> is_digit (hd r)"
  shows "leading_fraction x sc False (ds @ r) = (x * 10 ^ length ds + digits_val ds, sc * 10 ^ length ds, r)"
  using assms
proof (induction ds arbitrary: x sc)
  case Nil
  then show ?case by (cases r) simp_all
next
  case (Cons c ds)
  note st = number_step [OF Cons.prems(2)]
  have "leading_fraction (10 * x + digit_val c) (10 * sc) False (ds @ r)
      = ((10 * x + digit_val c) * 10 ^ length ds + digits_val ds, 10 * sc * 10 ^ length ds, r)"
    by (rule Cons.IH [OF _ Cons.prems(2) [unfolded st(1)] Cons.prems(3)]) (use Cons.prems(1) in simp)
  moreover have "leading_fraction x sc False ((c # ds) @ r) = leading_fraction (10 * x + digit_val c) (10 * sc) False (ds @ r)"
    using st(2,3) Cons.prems(1) by simp
  moreover have "10 * sc * 10 ^ length ds = sc * 10 ^ length (c # ds)" by simp
  ultimately show ?case unfolding st(1) by (simp only:)
qed

text \<open>The text of a fraction, empty if there are no digits.\<close>

definition frac_text :: "bytes \<Rightarrow> bytes" where
  "frac_text ds = (if ds = [] then [] else CHR ''.'' # ds)"

lemma frac_loop_print:
  "\<exists>ds. frac_loop i v True buf = (ds @ buf, v div 10 ^ i, True) \<and> digits ds \<and> length ds = i \<and> digits_val ds = v mod 10 ^ i"
proof (induction i arbitrary: v buf)
  case (Suc i)
  obtain ds where ds: "frac_loop i (v div 10) True (digit_char (v mod 10) # buf)
      = (ds @ digit_char (v mod 10) # buf, v div 10 div 10 ^ i, True)" "digits ds" "length ds = i"
    "digits_val ds = v div 10 mod 10 ^ i"
    using Suc by blast
  have "digits_val (ds @ [digit_char (v mod 10)]) = v mod 10 ^ Suc i"
    using ds(4) mod_mult2_eq [of v 10 "10 ^ i"] by (simp add: digits_val_append)
  then show ?case
    using ds by (intro exI [of _ "ds @ [digit_char (v mod 10)]"]) (simp add: div_mult2_eq)
qed simp

lemma frac_loop_text:
  "\<exists>ds. frac_loop i v False buf = (ds @ buf, v div 10 ^ i, ds \<noteq> []) \<and> digits ds \<and> length ds \<le> i
     \<and> digits_val ds * 10 ^ (i - length ds) = v mod 10 ^ i"
proof (induction i arbitrary: v buf)
  case (Suc i)
  have m: "v mod 10 ^ Suc i = 10 * (v div 10 mod 10 ^ i) + v mod 10" using mod_mult2_eq [of v 10 "10 ^ i"] by simp
  show ?case
  proof (cases "v mod 10 = 0")
    case True
    obtain ds where ds: "frac_loop i (v div 10) False buf = (ds @ buf, v div 10 div 10 ^ i, ds \<noteq> [])" "digits ds" "length ds \<le> i"
      "digits_val ds * 10 ^ (i - length ds) = v div 10 mod 10 ^ i"
      using Suc by blast
    then have "digits_val ds * 10 ^ (Suc i - length ds) = v mod 10 ^ Suc i" using m True by (simp add: Suc_diff_le)
    then show ?thesis using ds True by (intro exI [of _ ds]) (simp add: div_mult2_eq)
  next
    case False
    obtain ds where ds: "frac_loop i (v div 10) True (digit_char (v mod 10) # buf)
        = (ds @ digit_char (v mod 10) # buf, v div 10 div 10 ^ i, True)" "digits ds" "length ds = i"
      "digits_val ds = v div 10 mod 10 ^ i"
      using frac_loop_print by blast
    then show ?thesis using m False
      by (intro exI [of _ "ds @ [digit_char (v mod 10)]"]) (simp add: div_mult2_eq digits_val_append)
  qed
qed simp

lemma fmt_frac_text:
  "\<exists>ds. fmt_frac i v buf = (frac_text ds @ buf, v div 10 ^ i) \<and> digits ds \<and> length ds \<le> i
     \<and> digits_val ds * (10 ^ i div 10 ^ length ds) = v mod 10 ^ i"
proof -
  obtain ds where ds: "frac_loop i v False buf = (ds @ buf, v div 10 ^ i, ds \<noteq> [])" "digits ds" "length ds \<le> i"
      "digits_val ds * 10 ^ (i - length ds) = v mod 10 ^ i"
    using frac_loop_text by blast
  then show ?thesis by (intro exI [of _ ds]) (simp add: fmt_frac_def frac_text_def power_diff)
qed

lemma frac_text_not_digit: "u \<noteq> [] \<Longrightarrow> \<not> number_char (hd u) \<Longrightarrow> \<not> is_digit (hd (frac_text ds @ u))"
  by (cases u) (auto simp: frac_text_def number_char_def is_digit_def)

lemma frac_value:
  assumes r: "double_rounding rnd" and d: "10 ^ length ds dvd U" "digits ds" and U: "U \<le> 3600 * 1000000000"
  shows "\<lfloor>rnd (rnd (of_nat (digits_val ds)) * rnd (of_nat U / of_nat (10 ^ length ds)))\<rfloor> = int (digits_val ds * (U div 10 ^ length ds))"
proof -
  let ?q = "U div 10 ^ length ds"
  have q: "?q * 10 ^ length ds = U" using d(1) by simp
  have "digits_val ds * ?q \<le> 10 ^ length ds * ?q" using digits_val_lt [OF d(2)] by (intro mult_right_mono) simp_all
  also have "\<dots> = U" using q by (simp only: mult.commute)
  finally have v: "digits_val ds * ?q \<le> 2 ^ 53" using U by simp
  have "?q \<le> U" by simp
  then have "?q \<le> 2 ^ 53" using U by (rule order_trans [OF order_trans]) simp
  then have b: "rnd (of_nat ?q) = of_nat ?q" by (rule rnd_nat [OF r])
  have u: "of_nat U / of_nat (10 ^ length ds) = (of_nat ?q :: real)" using d(1) by (simp add: real_of_nat_div)
  show ?thesis
  proof (cases "?q = 0")
    case True
    then show ?thesis using rnd_nat [OF r, of 0] unfolding u by simp
  next
    case False
    then have "digits_val ds * 1 \<le> digits_val ds * ?q" by (intro mult_left_mono) simp_all
    from order_trans [OF this v] have "rnd (of_nat (digits_val ds)) = of_nat (digits_val ds)"
      by (intro rnd_nat [OF r]) (simp only: mult_1_right)
    then have "rnd (rnd (of_nat (digits_val ds)) * rnd (of_nat U / of_nat (10 ^ length ds))) = of_nat (digits_val ds * ?q)"
      unfolding u b using rnd_nat [OF r v] by simp
    then show ?thesis by (simp only: floor_of_nat)
  qed
qed

lemma duration_part_text:
  assumes r: "double_rounding rnd" and u: "unit_map u = Some U" "u \<noteq> []" "list_all (\<lambda>c. \<not> number_char c) u"
    and ds: "digits ds" "10 ^ length ds dvd U" and U: "0 < U" "U \<le> 3600 * 1000000000"
    and s: "s = [] \<or> number_char (hd s)"
    and n: "n * U + digits_val ds * (U div 10 ^ length ds) < 2 ^ 63"
  shows "duration_part rnd (nat_str n @ frac_text ds @ u @ s) = Some (n * U + digits_val ds * (U div 10 ^ length ds), s)"
proof -
  let ?t = "nat_str n @ frac_text ds @ u @ s"
  obtain c u' where cu: "u = c # u'" using u(2) by (cases u) simp_all
  then have c: "\<not> number_char c" "c \<noteq> CHR ''.''" "\<not> is_digit c" using u(3) by (auto simp: number_char_def)
  have nU: "n * U < 2 ^ 63" using n by (rule le_less_trans [rotated]) simp
  have "n * 1 \<le> n * U" using U(1) by (intro mult_left_mono) simp_all
  then have n1: "n < 2 ^ 63" "n \<le> (2 ^ 63 - 1) div U"
    using nU U(1) by (simp_all only: less_eq_div_iff_mult_less_eq mult_1_right)
  have l: "leading_int 0 ?t = Some (n, frac_text ds @ u @ s)"
    using leading_int_digits [of "nat_str n" 0 "frac_text ds @ u @ s"] n1(1) frac_text_not_digit [of "u @ s" ds] cu c by simp
  have hd: "?t \<noteq> [] \<and> number_char (hd ?t)" using nat_str_digits [of "hd (nat_str n)" n] by (simp add: number_char_def)
  have "10 ^ length ds \<le> U" using ds(2) U(1) by (rule dvd_imp_le)
  then have "digits_val ds < 2 ^ 63" using digits_val_lt [OF ds(1)] U(2) by simp
  then have f: "leading_fraction 0 1 False (ds @ u @ s) = (digits_val ds, 10 ^ length ds, u @ s)"
    using leading_fraction_digits [of ds 0 "u @ s" 1] ds(1) c cu by simp
  have tk: "takeWhile (\<lambda>c. \<not> number_char c) (u @ s) = u" "dropWhile (\<lambda>c. \<not> number_char c) (u @ s) = s"
    using u(3) s by (cases s; auto simp: list_all_iff takeWhile_append dropWhile_append)+
  have len: "length ?t \<noteq> length (frac_text ds @ u @ s)" by simp
  have v: "0 < digits_val ds \<Longrightarrow> nat \<lfloor>rnd (rnd (of_nat (digits_val ds)) * rnd (of_nat U / of_nat (10 ^ length ds)))\<rfloor>
      = digits_val ds * (U div 10 ^ length ds)"
    unfolding frac_value [OF r ds(2,1) U(2)] by (rule nat_int)
  show ?thesis
  proof (cases "ds = []")
    case True
    then show ?thesis using hd l tk len u(1,2) n1(2) n c(2) cu
      unfolding duration_part_def by (simp add: frac_text_def not_less)
  next
    case False
    then have ft: "frac_text ds @ u @ s = CHR ''.'' # ds @ u @ s" by (simp add: frac_text_def)
    show ?thesis using hd l tk len u(1,2) n1(2) n v f
      unfolding duration_part_def ft Let_def by (cases "digits_val ds = 0") (simp_all add: not_less)
  qed
qed

lemma unit_texts:
  "unit_map ''ns'' = Some 1" "unit_map (micro @ ''s'') = Some 1000" "unit_map ''ms'' = Some 1000000"
  "unit_map ''s'' = Some 1000000000" "unit_map ''m'' = Some (60 * 1000000000)" "unit_map ''h'' = Some (3600 * 1000000000)"
  "list_all (\<lambda>c. \<not> number_char c) ''ns''" "list_all (\<lambda>c. \<not> number_char c) (micro @ ''s'')" "list_all (\<lambda>c. \<not> number_char c) ''ms''"
  "list_all (\<lambda>c. \<not> number_char c) ''s''" "list_all (\<lambda>c. \<not> number_char c) ''m''" "list_all (\<lambda>c. \<not> number_char c) ''h''"
  by (simp_all add: unit_map_def micro_def number_char_def is_digit_def)

lemma duration_loop_part:
  "duration_part rnd s = Some (v, r) \<Longrightarrow> d + v < 2 ^ 63 \<Longrightarrow> duration_loop rnd d s = duration_loop rnd (d + v) r"
  by (subst duration_loop.simps) (auto simp: duration_part_def)

lemma duration_loop_end: "duration_loop rnd d [] = Some d"
  by (subst duration_loop.simps) simp

text \<open>A whole number of a unit.\<close>

lemma duration_loop_whole:
  assumes "double_rounding rnd" "unit_map u = Some U" "u \<noteq> []" "list_all (\<lambda>c. \<not> number_char c) u" "0 < U" "U \<le> 3600 * 1000000000"
    "s = [] \<or> number_char (hd s)" "d + n * U < 2 ^ 63"
  shows "duration_loop rnd d (nat_str n @ u @ s) = duration_loop rnd (d + n * U) s"
proof -
  have "n * U + digits_val [] * (U div 10 ^ length ([] :: bytes)) < 2 ^ 63" using assms(8) by simp
  then have "duration_part rnd (nat_str n @ frac_text [] @ u @ s) = Some (n * U + digits_val [] * (U div 10 ^ length ([] :: bytes)), s)"
    using assms by (intro duration_part_text) simp_all
  then have "duration_part rnd (nat_str n @ u @ s) = Some (n * U, s)" by (simp add: frac_text_def)
  then show ?thesis using assms(8) by (rule duration_loop_part)
qed

text \<open>What is left of a duration, less than a power of ten of nanoseconds, in that unit.\<close>

lemma duration_loop_frac:
  assumes r: "double_rounding rnd" and u: "unit_map u = Some (10 ^ p)" "u \<noteq> []" "list_all (\<lambda>c. \<not> number_char c) u" and p: "p \<le> 9"
    and v: "d + v mod (n * 10 ^ p) < 2 ^ 63" "0 < n"
  shows "\<exists>ds. fmt_frac p v u = (frac_text ds @ u, v div 10 ^ p)
    \<and> duration_loop rnd d (nat_str (v div 10 ^ p mod n) @ frac_text ds @ u) = Some (d + v mod (n * 10 ^ p))"
proof -
  obtain ds where ds: "fmt_frac p v u = (frac_text ds @ u, v div 10 ^ p)" "digits ds" "length ds \<le> p"
    "digits_val ds * (10 ^ p div 10 ^ length ds) = v mod 10 ^ p"
    using fmt_frac_text by blast
  have e: "v mod (n * 10 ^ p) = v div 10 ^ p mod n * 10 ^ p + v mod 10 ^ p"
    using mod_mult2_eq [of v "10 ^ p" n] by (simp add: ac_simps)
  have "(10 :: nat) ^ p \<le> 10 ^ 9" by (rule power_increasing [OF p]) simp
  then have U: "(10 :: nat) ^ p \<le> 3600 * 1000000000" by simp
  have "v div 10 ^ p mod n * 10 ^ p + digits_val ds * (10 ^ p div 10 ^ length ds) < 2 ^ 63"
    unfolding ds(4) using v(1) e by simp
  then have "duration_part rnd (nat_str (v div 10 ^ p mod n) @ frac_text ds @ u @ [])
      = Some (v div 10 ^ p mod n * 10 ^ p + digits_val ds * (10 ^ p div 10 ^ length ds), [])"
    using u ds(2,3) U by (intro duration_part_text [OF r]) (simp_all add: le_imp_power_dvd)
  then have "duration_part rnd (nat_str (v div 10 ^ p mod n) @ frac_text ds @ u) = Some (v mod (n * 10 ^ p), [])"
    unfolding ds(4) e by simp
  from duration_loop_part [OF this v(1)] show ?thesis using ds(1) by (auto simp: duration_loop_end)
qed

lemma hd_number: "number_char (hd (nat_str n @ s))"
  using nat_str_digits [of "hd (nat_str n)" n] by (simp add: number_char_def)

lemma small_duration_read:
  assumes "double_rounding rnd" "unit_map u = Some (10 ^ p)" "u \<noteq> []" "list_all (\<lambda>c. \<not> number_char c) u" "p \<le> 6" "v < 1000 * 10 ^ p"
  shows "duration_loop rnd 0 (case fmt_frac p v u of (buf, v) \<Rightarrow> nat_str v @ buf) = Some v"
proof -
  have "(10 :: nat) ^ p \<le> 10 ^ 6" by (rule power_increasing [OF assms(5)]) simp
  then have "v < 2 ^ 63" using assms(6) by simp
  then have v: "v mod (1000 * 10 ^ p) = v" "v div 10 ^ p mod 1000 = v div 10 ^ p"
    using assms(6) by (simp_all add: less_mult_imp_div_less)
  obtain ds where "fmt_frac p v u = (frac_text ds @ u, v div 10 ^ p)"
    "duration_loop rnd 0 (nat_str (v div 10 ^ p mod 1000) @ frac_text ds @ u) = Some (0 + v mod (1000 * 10 ^ p))"
    using duration_loop_frac [OF assms(1-4), of 0 v 1000] assms(5) v(1) \<open>v < 2 ^ 63\<close> by auto
  then show ?thesis using v by simp
qed

lemma duration_text_seconds:
  assumes "\<not> u < 1000000000"
  shows "\<exists>ds. digits ds \<and> (\<forall>rnd d. double_rounding rnd \<longrightarrow> d + u mod (60 * 1000000000) < 2 ^ 63 \<longrightarrow>
        duration_loop rnd d (nat_str (u div 1000000000 mod 60) @ frac_text ds @ ''s'') = Some (d + u mod (60 * 1000000000)))
     \<and> duration_text u =
        (let m = u div (60 * 1000000000); h = m div 60; rest = nat_str (u div 1000000000 mod 60) @ frac_text ds @ ''s''
         in if m = 0 then rest
            else if h = 0 then nat_str (m mod 60) @ ''m'' @ rest
            else nat_str h @ ''h'' @ nat_str (m mod 60) @ ''m'' @ rest)"
proof -
  obtain ds where f: "fmt_frac 9 u ''s'' = (frac_text ds @ ''s'', u div 10 ^ 9)" and d: "digits ds" using fmt_frac_text by blast
  have m: "u div 1000000000 div 60 = u div (60 * 1000000000)" using div_mult2_eq [of u 1000000000 60] by simp
  have "duration_text u =
        (let m = u div (60 * 1000000000); h = m div 60; rest = nat_str (u div 1000000000 mod 60) @ frac_text ds @ ''s''
         in if m = 0 then rest
            else if h = 0 then nat_str (m mod 60) @ ''m'' @ rest
            else nat_str h @ ''h'' @ nat_str (m mod 60) @ ''m'' @ rest)"
    using assms f m by (simp add: duration_text_def Let_def)
  moreover have "duration_loop rnd d (nat_str (u div 1000000000 mod 60) @ frac_text ds @ ''s'') = Some (d + u mod (60 * 1000000000))"
    if "double_rounding rnd" "d + u mod (60 * 1000000000) < 2 ^ 63" for rnd d
    using duration_loop_frac [OF that(1), of "''s''" 9 d u 60] that(2) unit_texts(4,10) f by auto
  ultimately show ?thesis using d by blast
qed

lemma duration_text_read:
  assumes r: "double_rounding rnd" and u: "u < 2 ^ 63"
  shows "duration_loop rnd 0 (duration_text u) = Some u"
proof (cases "u < 1000000000")
  case True
  have z: "''0s'' = nat_str 0 @ ''s'' @ []" by code_simp
  have "duration_loop rnd 0 ''0s'' = Some 0"
    unfolding z using duration_loop_whole [OF r unit_texts(4) _ unit_texts(10), of "[]" 0 0] by (simp add: duration_loop_end)
  then show ?thesis
    using True small_duration_read [OF r, of "''ns''" 0 u] small_duration_read [OF r, of "micro @ ''s''" 3 u]
      small_duration_read [OF r, of "''ms''" 6 u] unit_texts
    by (simp add: duration_text_def micro_def)
next
  case False
  define m h rest where "m = u div (60 * 1000000000)" and "h = m div 60" and "rest = u mod (60 * 1000000000)"
  obtain ds where ds: "\<And>d. d + rest < 2 ^ 63 \<Longrightarrow> duration_loop rnd d (nat_str (u div 1000000000 mod 60) @ frac_text ds @ ''s'') = Some (d + rest)"
    "duration_text u = (let tail = nat_str (u div 1000000000 mod 60) @ frac_text ds @ ''s'' in if m = 0 then tail
            else if h = 0 then nat_str (m mod 60) @ ''m'' @ tail else nat_str h @ ''h'' @ nat_str (m mod 60) @ ''m'' @ tail)"
    using duration_text_seconds [OF False] r unfolding m_def h_def rest_def Let_def by blast
  have sum: "m * (60 * 1000000000) + rest = u" unfolding m_def rest_def by (rule div_mult_mod_eq)
  have sm: "h * (3600 * 1000000000) + m mod 60 * (60 * 1000000000) = m * (60 * 1000000000)"
    using arg_cong [OF div_mult_mod_eq [of m 60], of "\<lambda>x. x * (60 * 1000000000)"] unfolding h_def [symmetric]
    by (simp only: add_mult_distrib)
  have mins: "duration_loop rnd d (nat_str (m mod 60) @ ''m'' @ nat_str (u div 1000000000 mod 60) @ frac_text ds @ ''s'')
      = Some (d + m mod 60 * (60 * 1000000000) + rest)" if "d + m mod 60 * (60 * 1000000000) + rest < 2 ^ 63" for d
    using duration_loop_whole [OF r unit_texts(5) _ unit_texts(11), of _ d "m mod 60"] ds(1) that hd_number by simp
  show ?thesis
  proof (cases "m = 0")
    case True
    then show ?thesis using ds sum u by simp
  next
    case m: False
    show ?thesis
    proof (cases "h = 0")
      case True
      then show ?thesis using ds(2) m mins [of 0] sum sm u by simp
    next
      case False
      then show ?thesis
        using ds(2) m mins [of "h * (3600 * 1000000000)"] sum sm u
          duration_loop_whole [OF r unit_texts(6) _ unit_texts(12), of _ 0 h] hd_number by simp
    qed
  qed
qed

lemma duration_text_number: "duration_text u \<noteq> [] \<and> is_digit (hd (duration_text u))"
proof -
  have n: "is_digit (hd (nat_str n @ s))" for n s using nat_str_digits [of "hd (nat_str n)" n] by simp
  show ?thesis
  proof (cases "u < 1000000000")
    case True
    then show ?thesis using n by (auto simp: duration_text_def Let_def is_digit_def split: prod.split)
  next
    case False
    then show ?thesis using duration_text_seconds [OF False] n by (auto simp: Let_def split: if_splits)
  qed
qed

lemma parse_duration_string:
  assumes "double_rounding rnd" "\<bar>d\<bar> < 2 ^ 63"
  shows "parse_duration rnd (duration_string d) = Some d"
proof -
  define u where "u = nat \<bar>d\<bar>"
  have "u < 2 ^ 63" using assms(2) by (simp add: u_def)
  from duration_text_read [OF assms(1) this] have l: "duration_loop rnd 0 (duration_text u) = Some u" .
  have n: "duration_text u \<noteq> []" "is_digit (hd (duration_text u))" using duration_text_number by blast+
  then have h: "hd (duration_text u) \<noteq> CHR ''-''" "hd (duration_text u) \<noteq> CHR ''+''" by (auto simp: is_digit_def)
  have "duration_loop rnd 0 ''0'' = None"
    by (simp add: duration_loop.simps duration_part_def is_digit_def number_char_def digit_val_def)
  then have z: "duration_text u \<noteq> ''0''" using l by auto
  show ?thesis
  proof (cases "d < 0")
    case True
    then have "duration_string d = CHR ''-'' # duration_text u" "int u = - d" by (simp_all add: duration_string_def u_def)
    then show ?thesis using l n z by (simp add: parse_duration_def Let_def)
  next
    case False
    then have "duration_string d = duration_text u" "int u = d" by (simp_all add: duration_string_def u_def)
    then show ?thesis using l n z h by (simp add: parse_duration_def Let_def)
  qed
qed

text \<open>No colon is in the text of a duration.\<close>

lemma no_colon [simp]: "CHR '':'' \<notin> set (nat_str n)" "digits ds \<Longrightarrow> CHR '':'' \<notin> set (frac_text ds)"
  using nat_str_digits [of "CHR '':''" n] by (auto simp: is_digit_def digits_def frac_text_def)

lemma duration_string_no_colon [simp]: "CHR '':'' \<notin> set (duration_string d)"
proof -
  have t: "CHR '':'' \<notin> set (duration_text u)" for u
  proof (cases "u < 1000000000")
    case True
    have "CHR '':'' \<notin> set (fst (fmt_frac p u buf))" if "CHR '':'' \<notin> set buf" for p buf
      using fmt_frac_text [of p u buf] that by auto
    then show ?thesis using True
      by (auto simp: duration_text_def micro_def Let_def prod.case_eq_if)
  next
    case False
    then show ?thesis using duration_text_seconds [OF False] by (auto simp: Let_def split: if_splits)
  qed
  then show ?thesis by (simp add: duration_string_def)
qed

lemmas policy_names = RollingUpdate_def NewDeploy_def MixedUpdate_def

lemma policy_colon [simp]: "CHR '':'' \<notin> set RollingUpdate" "CHR '':'' \<notin> set NewDeploy" "CHR '':'' \<notin> set MixedUpdate"
  by (simp_all add: policy_names)

subsection \<open>Properties\<close>

text \<open>
  C17: an option of a rolling update or of a new deployment that can be written is read back with its step and its
  timeout, to the nanosecond; the percentage is not in the text and stays what it was.  The text of a mixed update has
  the timeout and the percentage cut to a whole number (0.29 is written as 28) and no step: read back are the timeout and
  that whole percentage, and the step stays what it was.
\<close>

theorem update_option_roundtrip:
  assumes "double_rounding rnd" "update_marshal fo uo = Inr txt" "\<bar>uo_step uo\<bar> < 2 ^ 63" "\<bar>uo_timeout uo\<bar> < 2 ^ 63"
  shows "(uo_policy uo \<noteq> MixedUpdate \<longrightarrow>
      update_unmarshal rnd fo (Inr txt) uo0 = Inr (uo\<lparr>uo_newPercent := uo_newPercent uo0\<rparr>))
    \<and> (uo_policy uo = MixedUpdate \<longrightarrow> fl_parse fo (int_str (fl_percent fo (uo_newPercent uo))) = Some q \<longrightarrow>
      \<not> fl_above1 fo (fl_div100 fo q) \<and> \<not> fl_below0 fo (fl_div100 fo q) \<longrightarrow>
      update_unmarshal rnd fo (Inr txt) uo0 = Inr (uo\<lparr>uo_step := uo_step uo0, uo_newPercent := fl_div100 fo q\<rparr>))"
proof -
  note d = parse_duration_string [OF assms(1,3)] parse_duration_string [OF assms(1,4)]
  have ne: "duration_string x \<noteq> []" for x using duration_text_number by (simp add: duration_string_def)
  have v: "update_option_valid (fl_above1 fo) (fl_below0 fo) (Some uo)"
    using assms(2) by (simp add: update_marshal_def split: if_splits)
  show ?thesis
  proof (cases "uo_policy uo = MixedUpdate")
    case True
    have "txt = MixedUpdate @ CHR '':'' # int_str (fl_percent fo (uo_newPercent uo)) @ CHR '':'' # duration_string (uo_timeout uo)"
      using assms(2) v True by (simp add: update_marshal_def policy_names split: if_splits)
    then have "split_byte CHR '':'' txt = [MixedUpdate, int_str (fl_percent fo (uo_newPercent uo)), duration_string (uo_timeout uo)]"
      by (simp add: policy_colon int_str_def)
    then show ?thesis using True d ne by (auto simp: update_unmarshal_def Let_def policy_names update_option_valid_def)
  next
    case False
    then have p: "uo_policy uo = RollingUpdate \<or> uo_policy uo = NewDeploy"
      using assms(2) by (auto simp: update_marshal_def split: if_splits)
    then have "txt = uo_policy uo @ CHR '':'' # duration_string (uo_step uo) @ CHR '':'' # duration_string (uo_timeout uo)"
      using assms(2) v by (auto simp: update_marshal_def split: if_splits)
    then have "split_byte CHR '':'' txt = [uo_policy uo, duration_string (uo_step uo), duration_string (uo_timeout uo)]"
      using p by (auto simp: policy_colon)
    then show ?thesis using p d ne v False by (auto simp: update_unmarshal_def Let_def policy_names update_option_valid_def)
  qed
qed

text \<open>Settings for the examples: percentages as whole numbers.\<close>

definition int_floats :: "int float_ops" where
  "int_floats = \<lparr>fl_parse = (\<lambda>s. Some (int (digits_val s))), fl_half = 50, fl_div100 = (\<lambda>p. p), fl_percent = (\<lambda>p. p),
     fl_above1 = (\<lambda>p. p > 100), fl_below0 = (\<lambda>p. p < 0)\<rparr>"

theorem update_option_roundtrip_witness:
  "update_unmarshal id int_floats (Inr ''deployNew:30s:5m0s'') (the (default_update_option 0 ServiceService))
     = Inr (the (default_update_option 0 ServiceService))"
proof -
  let ?u = "the (default_update_option 0 ServiceService) :: int update_option"
  have n9: "(9 :: nat) = Suc (Suc (Suc (Suc (Suc (Suc (Suc (Suc (Suc 0))))))))" by simp
  have "fmt_frac 9 30000000000 ''s'' = (''s'', 30)" "fmt_frac 9 300000000000 ''s'' = (''s'', 300)"
    by (simp_all add: fmt_frac_def n9)
  moreover have "nat_str 30 = ''30''" "nat_str 0 = ''0''" "nat_str 5 = ''5''" by code_simp+
  ultimately have d: "duration_string (30 * second) = ''30s''" "duration_string (5 * minute) = ''5m0s''"
    by (simp_all add: duration_string_def duration_text_def second_def minute_def)
  have m: "update_marshal int_floats ?u = Inr ''deployNew:30s:5m0s''"
    using d by (simp add: update_marshal_def update_option_valid_def default_update_option_def policy_names second_def minute_def)
  have "update_unmarshal id int_floats (Inr ''deployNew:30s:5m0s'') ?u = Inr (?u\<lparr>uo_newPercent := uo_newPercent ?u\<rparr>)"
    using update_option_roundtrip [OF double_rounding_id m, of ?u]
    by (simp add: default_update_option_def policy_names second_def minute_def)
  then show ?thesis by simp
qed

text \<open>
  a restart policy is read back from what it is written to if it has no time, or if the text of its time has exactly
  the 25 characters of a time with an offset and no fraction: every other written time, that of a time in UTC for
  instance, is refused.
\<close>

theorem restart_policy_reads:
  assumes "restart_marshal tlib rp = Inr dat" "\<forall>t txt. tl_text tlib t = Inr txt \<longrightarrow> tl_parse tlib RFC3339 txt = Inr t"
    "\<forall>t txt. tl_text tlib t = Inr txt \<longrightarrow> 20 \<le> length txt"
  shows "restart_unmarshal tlib dat rp0 =
     (if rp_type rp \<in> {OneTime, Always} then Inr (rp0\<lparr>rp_type := rp_type rp\<rparr>)
      else if rp_type rp = [] \<and> tl_isZero tlib (rp_until rp) then Inr (rp0\<lparr>rp_type := Always\<rparr>)
      else if rp_type rp \<noteq> Until then Inl (UnknownRestart (rp_type rp))
      else (case tl_text tlib (rp_until rp) of
              Inl e \<Rightarrow> Inl (TimeError e)
            | Inr txt \<Rightarrow> if length txt = 25 then Inr rp else Inl (UnknownDate txt)))"
proof -
  have ne: "OneTime \<noteq> []" "Always \<noteq> []" "Until \<noteq> []" "length RFC3339 = 25" by (simp_all add: OneTime_def Always_def Until_def RFC3339_def)
  show ?thesis
  proof (cases "rp_type rp \<in> {OneTime, Always} \<or> rp_type rp = [] \<and> tl_isZero tlib (rp_until rp)")
    case True
    then show ?thesis using assms(1) ne by (auto simp: restart_marshal_def restart_unmarshal_def)
  next
    case False
    then obtain w where t: "tl_text tlib (rp_until rp) = Inr w" "dat = RObject (rp_type rp) (MText w)"
      using assms(1) by (auto simp: restart_marshal_def split: if_splits sum.splits)
    have "date_format w = (if length w = 25 then Some RFC3339 else None)"
      using assms(3) t(1) ne(4) by (force simp: date_format_def)
    then show ?thesis using False t assms(2) by (auto simp: restart_unmarshal_def)
  qed
qed

text \<open>A clock in UTC, for the example: its times are seconds and all texts end with a Z.\<close>

definition utc :: "nat time_lib" where
  "utc = \<lparr>tl_isZero = (\<lambda>t. t = 0), tl_text = (\<lambda>t. Inr (''2017-06-01T00:00:00'' @ replicate t CHR ''0'' @ ''Z'')),
     tl_parse = (\<lambda>format s. Inr (length s - 20)), tl_add8h = (\<lambda>t. t + 28800), tl_unix = nat\<rparr>"

theorem restart_policy_reads_witness:
  "restart_unmarshal utc (RObject Until (MText ''2017-06-01T00:00:00Z'')) \<lparr>rp_type = [], rp_until = 0\<rparr>
     = Inl (UnknownDate ''2017-06-01T00:00:00Z'')"
proof -
  let ?rp = "\<lparr>rp_type = Until, rp_until = 0 :: nat\<rparr>"
  have "restart_marshal utc ?rp = Inr (RObject Until (MText ''2017-06-01T00:00:00Z''))"
    by (simp add: restart_marshal_def utc_def Until_def OneTime_def Always_def)
  then show ?thesis
    by (subst restart_policy_reads [where rp = ?rp]) (simp_all add: utc_def Until_def OneTime_def Always_def)
qed

text \<open>
  the name of a namespace is accepted exactly if it has at most 64 bytes and a small letter somewhere: the regular
  expression is not anchored.
\<close>

theorem namespace_accepted:
  "ns_validate ns = None \<longleftrightarrow> length ns \<le> 64 \<and> (\<exists>c \<in> set ns. lower c)"
proof -
  have "ns_match ns \<longleftrightarrow> (\<exists>c \<in> set ns. lower c)"
  proof
    assume "ns_match ns"
    then obtain i n where m: "ns_regexp (take n (drop i ns))" unfolding ns_match_def list_ex_iff by blast
    let ?s = "take n (drop i ns)"
    obtain p ps where p: "split_byte CHR ''.'' ?s = p # ps" by (cases "split_byte CHR ''.'' ?s") simp_all
    obtain q qs where q: "split_byte CHR ''-'' p = q # qs" by (cases "split_byte CHR ''-'' p") simp_all
    have "lower_word q" using m p q by (simp add: ns_regexp_def)
    then obtain c where c: "c \<in> set q" "lower c" by (cases q) (auto simp: lower_word_def)
    have "set q \<subseteq> set p" using q split_byte_subset [of q "CHR ''-''" p] by simp
    also have "set p \<subseteq> set ?s" using p split_byte_subset [of p "CHR ''.''" ?s] by simp
    also have "set ?s \<subseteq> set ns" by (meson order_trans set_drop_subset set_take_subset)
    finally show "\<exists>c \<in> set ns. lower c" using c by blast
  next
    assume "\<exists>c \<in> set ns. lower c"
    then obtain i where i: "i < length ns" "lower (ns ! i)" by (auto simp: in_set_conv_nth)
    then have "take 1 (drop i ns) = [ns ! i]" by (simp add: take_Suc hd_drop_conv_nth)
    moreover have "ns_regexp [ns ! i]" using i(2) by (auto simp: ns_regexp_def lower_word_def lower_def)
    ultimately show "ns_match ns" using i(1) unfolding ns_match_def list_ex_iff
      by (intro bexI [of _ i] bexI [of _ 1]) auto
  qed
  then show ?thesis by (auto simp: ns_validate_def)
qed

text \<open>a stage is written and read back.\<close>

theorem stage_json_roundtrip:
  assumes "distinct ord" "set ord = set stages" "st \<in> fst ` set stages"
  shows "stage_unmarshal ord (Inr (stage_marshal st)) = Inr st"
  using parse_stage_string [OF assms(1,2)] assms(3) by (simp add: stage_unmarshal_def stage_marshal_def)

theorem stage_json_roundtrip_witness: "stage_unmarshal stages (Inr ''prd'') = Inr Production"
  using stage_json_roundtrip [of stages Production] by (simp add: stages_def stage_defs stage_marshal_def stage_string_def)

end
