(* ===== verification/Api_Deploy.thy ===== *)
theory Api_Deploy
  imports Instances Res_Size
begin

text \<open>
  The HTTP interface of the deploy configurations (\<open>api/utils/utils.go\<close>, \<open>api/deploy/config.go\<close>) over the object
  store, and the errors of the store (\<open>registry/generic/errors.go\<close>).

  A request carries the variables \<open>mux\<close> has found in its path; the JSON of configurations and of responses are
  parameters, apart from the resource quota of a configuration: writing one never returns (\<open>Res_Size\<close>), and when the stack
  of the goroutine is used up the process ends.
\<close>

subsection \<open>Errors of the store\<close>

record storage_error =
  se_code :: int
  se_key :: bytes
  se_resourceVersion :: int
  se_additional :: bytes

definition ErrCodeKeyNotFound :: int where "ErrCodeKeyNotFound = 1"
definition ErrCodeKeyExists :: int where "ErrCodeKeyExists = 2"
definition ErrCodeResourceVersionConflicts :: int where "ErrCodeResourceVersionConflicts = 3"
definition ErrCodeInvalidObj :: int where "ErrCodeInvalidObj = 4"

definition err_code_to_message :: "int \<Rightarrow> bytes" where
  "err_code_to_message code =
     (if code = ErrCodeKeyNotFound then ''key not found''
      else if code = ErrCodeKeyExists then ''key exists''
      else if code = ErrCodeResourceVersionConflicts then ''resource version conflicts''
      else if code = ErrCodeInvalidObj then ''invalid object''
      else if code = ErrCodeUnreachable then ''server unreachable''
      else if code = ErrCodeUnknown then ''unknownn error''
      else [])"

definition new_key_not_found_error :: "bytes \<Rightarrow> int \<Rightarrow> storage_error" where
  "new_key_not_found_error key rv = \<lparr>se_code = ErrCodeKeyNotFound, se_key = key, se_resourceVersion = rv, se_additional = []\<rparr>"

definition new_key_exists_error :: "bytes \<Rightarrow> int \<Rightarrow> storage_error" where
  "new_key_exists_error key rv = \<lparr>se_code = ErrCodeKeyExists, se_key = key, se_resourceVersion = rv, se_additional = []\<rparr>"

definition new_resource_version_conflicts_error :: "bytes \<Rightarrow> int \<Rightarrow> storage_error" where
  "new_resource_version_conflicts_error key rv =
     \<lparr>se_code = ErrCodeResourceVersionConflicts, se_key = key, se_resourceVersion = rv, se_additional = []\<rparr>"

definition new_unreachable_error :: "bytes \<Rightarrow> int \<Rightarrow> storage_error" where
  "new_unreachable_error key rv = \<lparr>se_code = ErrCodeUnreachable, se_key = key, se_resourceVersion = rv, se_additional = []\<rparr>"

definition new_invalid_obj_error :: "bytes \<Rightarrow> bytes \<Rightarrow> storage_error" where
  "new_invalid_obj_error key msg = \<lparr>se_code = ErrCodeInvalidObj, se_key = key, se_resourceVersion = 0, se_additional = msg\<rparr>"

definition storage_error_text :: "storage_error \<Rightarrow> bytes" where
  "storage_error_text e =
     ''StorageError: '' @ err_code_to_message (se_code e) @ '', Code: '' @ int_str (se_code e) @ '', Key: '' @ se_key e
       @ '', ResourceVersion: '' @ int_str (se_resourceVersion e) @ '', AdditionalErrorMsg: '' @ se_additional e"

text \<open>The codes of the other two are in \<open>Watch\<close>.  An error of the program: one of the store, one of the interface with its type, or any other by its text.\<close>

datatype error_type = ErrorNone | ErrorInternal | ErrorBadData | ErrorPermission
datatype go_error = Storage storage_error | Api error_type go_error | Plain bytes

definition is_err_code :: "go_error option \<Rightarrow> int \<Rightarrow> bool" where
  "is_err_code err code = (case err of Some (Storage e) \<Rightarrow> se_code e = code | _ \<Rightarrow> False)"

definition is_not_found :: "go_error option \<Rightarrow> bool" where "is_not_found err = is_err_code err ErrCodeKeyNotFound"
definition is_node_exist :: "go_error option \<Rightarrow> bool" where "is_node_exist err = is_err_code err ErrCodeKeyExists"
definition is_unreachable :: "go_error option \<Rightarrow> bool" where "is_unreachable err = is_err_code err ErrCodeUnreachable"
definition is_test_failed :: "go_error option \<Rightarrow> bool" where "is_test_failed err = is_err_code err ErrCodeResourceVersionConflicts"
definition is_invalid_obj :: "go_error option \<Rightarrow> bool" where "is_invalid_obj err = is_err_code err ErrCodeInvalidObj"

text \<open>The errors of the store's operations, as the code makes them; the text of an error of JSON is left out.\<close>

fun of_store_error :: "store_error \<Rightarrow> go_error" where
  "of_store_error (KeyNotFound key) = Storage (new_key_not_found_error key 0)"
| "of_store_error (KeyExists key) = Storage (new_key_exists_error key 0)"
| "of_store_error InvalidObj = Plain []"
| "of_store_error (EtcdError err) = Plain err"

subsection \<open>Responses\<close>

fun go_error_text :: "go_error \<Rightarrow> bytes" where
  "go_error_text (Storage e) = storage_error_text e"
| "go_error_text (Api typ err) = go_error_text err"
| "go_error_text (Plain txt) = txt"

definition bad_data :: "go_error option \<Rightarrow> go_error option" where
  "bad_data err = map_option (Api ErrorBadData) err"

definition internal_err :: "go_error option \<Rightarrow> go_error option" where
  "internal_err err = map_option (Api ErrorInternal) err"

definition not_allowed :: "go_error option \<Rightarrow> go_error option" where
  "not_allowed err = map_option (Api ErrorPermission) err"

text \<open>\<open>errors.Wrap\<close>.\<close>

definition wrap_err :: "bytes \<Rightarrow> go_error \<Rightarrow> go_error" where
  "wrap_err msg err = Plain (msg @ '': '' @ go_error_text err)"

text \<open>The status of a response, what \<open>'m\<close> stands for being the model a handler returns.\<close>

datatype status = StatusSuccess | StatusError

record 'm response =
  rs_status :: status
  rs_data :: 'm
  rs_errorType :: error_type
  rs_error :: bytes

text \<open>
  \<open>json.Marshal\<close> of what holds the given configurations: \<open>front\<close> tells if the members in front of the quota are written
  without an error, and \<open>enc\<close> is the text if no quota is in the way.  A recursion without an end overflows the stack, which
  ends the process.
\<close>

fun marshal_quotas :: "(('f, 's) deploy_config \<Rightarrow> bool) \<Rightarrow> ('f, 's) deploy_config list \<Rightarrow> bool option" where
  "marshal_quotas front [] = Some True"
| "marshal_quotas front (dc # dcs) =
     (if \<not> front dc then Some False
      else case dc_resourceQuota dc of
        None \<Rightarrow> marshal_quotas front dcs
      | Some rs \<Rightarrow>
          (case size_marshal rs of
             None \<Rightarrow> None
           | Some (Inl err) \<Rightarrow> Some False
           | Some (Inr txt) \<Rightarrow> marshal_quotas front dcs))"

definition json_marshal :: "(('f, 's) deploy_config \<Rightarrow> bool) \<Rightarrow> ('f, 's) deploy_config list \<Rightarrow> bytes option \<Rightarrow> bytes option outcome" where
  "json_marshal front dcs txt =
     (case marshal_quotas front dcs of None \<Rightarrow> Exits | Some False \<Rightarrow> Returns None | Some True \<Rightarrow> Returns txt)"

text \<open>What the \<open>http.ResponseWriter\<close> was given: the content type, the code and the body.\<close>

record http_reply =
  hr_contentType :: bytes
  hr_code :: nat
  hr_body :: bytes

definition with_callback :: "bytes \<Rightarrow> bytes \<Rightarrow> bytes" where
  "with_callback callback b = (if callback \<noteq> [] then callback @ ''('' @ b @ '')'' else b)"

definition respond :: "('m response \<Rightarrow> bytes option outcome) \<Rightarrow> 'm \<Rightarrow> bytes \<Rightarrow> http_reply outcome" where
  "respond enc dat callback =
     map_outcome (\<lambda>b.
       \<lparr>hr_contentType = ''application/json'', hr_code = 200,
        hr_body = (case b of None \<Rightarrow> [] | Some b \<Rightarrow> with_callback callback b)\<rparr>)
       (enc \<lparr>rs_status = StatusSuccess, rs_data = dat, rs_errorType = ErrorNone, rs_error = []\<rparr>)"

definition status_code :: "error_type \<Rightarrow> nat go" where
  "status_code typ =
     (case typ of ErrorBadData \<Rightarrow> Some 400 | ErrorInternal \<Rightarrow> Some 500 | ErrorPermission \<Rightarrow> Some 401 | ErrorNone \<Rightarrow> None)"

definition respond_error ::
  "('m response \<Rightarrow> bytes option outcome) \<Rightarrow> error_type \<Rightarrow> go_error \<Rightarrow> 'm \<Rightarrow> bytes \<Rightarrow> http_reply outcome" where
  "respond_error enc typ err dat callback =
     (case status_code typ of
        None \<Rightarrow> Panics
      | Some code \<Rightarrow>
          map_outcome (\<lambda>b.
            \<lparr>hr_contentType = ''application/json'', hr_code = code,
             hr_body = (case b of None \<Rightarrow> [] | Some b \<Rightarrow> with_callback callback b)\<rparr>)
            (enc \<lparr>rs_status = StatusError, rs_data = dat, rs_errorType = typ, rs_error = go_error_text err\<rparr>))"

text \<open>\<open>HandlefuncWrap\<close>: a handler is a function of the state that ends with its model and its error, if it returns.\<close>

definition handlefunc_wrap ::
  "('m response \<Rightarrow> bytes option outcome) \<Rightarrow> ('e \<Rightarrow> 'e \<times> ('m \<times> go_error option) outcome) \<Rightarrow> bytes \<Rightarrow> 'e \<Rightarrow> 'e \<times> http_reply outcome" where
  "handlefunc_wrap enc hf callback e =
     (case hf e of
        (e', Returns (dat, None)) \<Rightarrow> (e', respond enc dat callback)
      | (e', Returns (dat, Some err)) \<Rightarrow>
          (case err of
             Api typ inner \<Rightarrow> (e', respond_error enc typ inner dat callback)
           | _ \<Rightarrow> (e', respond_error enc ErrorInternal err dat callback))
      | (e', Panics) \<Rightarrow> (e', Panics)
      | (e', Exits) \<Rightarrow> (e', Exits)
      | (e', Waits) \<Rightarrow> (e', Waits))"

subsection \<open>Handlers\<close>

definition receive :: "(bytes \<Rightarrow> bytes + 'a) \<Rightarrow> bool \<Rightarrow> bytes \<Rightarrow> bytes + 'a" where
  "receive dec pointer body =
     (case dec body of
        Inl err \<Rightarrow> Inl err
      | Inr v \<Rightarrow> if pointer then Inr v else Inl ''json: Unmarshal(non-pointer)'')"

text \<open>
  The path of a request below \<open>/deployconfig\<close>, as the parts between slashes.  \<open>mux\<close> gives each the name it has in the
  pattern of the route.
\<close>

datatype api_method = PUT | DELETE | GET | POST

record api_request =
  rq_method :: api_method
  rq_path :: "bytes list"
  rq_callback :: bytes
  rq_body :: bytes

definition envName :: bytes where "envName = ''env''"
definition typeName :: bytes where "typeName = ''type''"
definition nameName :: bytes where "nameName = ''name''"

definition mux_var :: "bytes list \<Rightarrow> api_request \<Rightarrow> bytes \<Rightarrow> bytes" where
  "mux_var pattern r v = (case map_of (zip pattern (rq_path r)) v of None \<Rightarrow> [] | Some x \<Rightarrow> x)"

definition config_route :: "bytes list" where "config_route = [envName, typeName, nameName]"
definition list_route :: "bytes list" where "list_route = [envName]"

text \<open>What the handlers are given: the stages in the order of the loop over them, the store, the codecs, \<open>labels.Parse\<close>.\<close>

record ('f, 's, 'e) api_env =
  ae_ord :: "(stage \<times> string) list"
  ae_conn :: "stage \<Rightarrow> store_error option"
  ae_kv :: "'e kv_client"
  ae_codec :: "('f, 's) deploy_config codec"
  ae_decode :: "bytes \<Rightarrow> bytes + ('f, 's) deploy_config"
  ae_query :: "bytes \<Rightarrow> bytes + (bytes \<times> bytes) list"
  ae_parse :: "bytes \<Rightarrow> 's option"
  ae_front :: "('f, 's) deploy_config \<Rightarrow> bool"

text \<open>The model of a handler: nil, a nil pointer of a configuration, one or several configurations, or the query.\<close>

datatype ('f, 's) model =
  NoModel | NilConfig | ConfigModel "('f, 's) deploy_config" | ConfigsModel "('f, 's) deploy_config list" | NilConfigs
| QueryModel "(bytes \<times> bytes) list"

definition get_deploykey :: "bytes \<Rightarrow> bytes \<Rightarrow> bytes" where
  "get_deploykey typ name = typ @ ''/'' @ name"

definition parse_env :: "('f, 's, 'e) api_env \<Rightarrow> bytes \<Rightarrow> go_error + stage" where
  "parse_env a env =
     (case parse_stage (ae_ord a) env of
        (_, True) \<Rightarrow> Inl (Plain (''unknown stage: '' @ env))
      | (stage, False) \<Rightarrow> Inr stage)"

definition get_stage_type_and_name :: "('f, 's, 'e) api_env \<Rightarrow> api_request \<Rightarrow> go_error + stage \<times> bytes \<times> bytes" where
  "get_stage_type_and_name a r =
     (let var = mux_var config_route r in
      case parse_env a (var envName) of
        Inl err \<Rightarrow> Inl (wrap_err ''parse env'' err)
      | Inr stage \<Rightarrow> Inr (stage, var typeName, var nameName))"

text \<open>The text of the error of \<open>Validate\<close>, without that of \<open>labels.Parse\<close>.\<close>

definition dc_error_text :: "dc_error \<Rightarrow> bytes" where
  "dc_error_text err =
     (case err of
        ProjectTypeEmpty \<Rightarrow> ''project type cannot be empty''
      | DeployNameEmpty \<Rightarrow> ''deploy name cannot be empty''
      | ServiceTypeEmpty \<Rightarrow> ''ServiceType cannot be empty''
      | NumOfInstanceTooSmall \<Rightarrow> ''numofInstance cannot less than 1''
      | UnknownEnv \<Rightarrow> ''unknown env''
      | SelectorKeyEmpty \<Rightarrow> ''parse selector: dc: selector key cannot be empty''
      | SelectorFormat \<Rightarrow> ''parse selector: dc: selector value format error''
      | SelectorParse \<Rightarrow> ''parse selector: '')"

definition get_store :: "('f, 's, 'e) api_env \<Rightarrow> stage \<Rightarrow> go_error option" where
  "get_store a stage = map_option of_store_error (ae_conn a stage)"

text \<open>
  The store writes the object as JSON before it does anything else, in \<open>Create\<close> and in \<open>Update\<close>; what it goes on with is that
  text, or no text if there was an error.
\<close>

definition add_deploy_config ::
  "('f, 's, 'e) api_env \<Rightarrow> 'e \<Rightarrow> ('f, 's) deploy_config \<Rightarrow> bool \<Rightarrow> 'e \<times> go_error option outcome" where
  "add_deploy_config a e dc ignoreExist =
     (case get_store a (dc_stage dc) of
        Some err \<Rightarrow> (e, Returns (Some err))
      | None \<Rightarrow>
          (let path = deploy_instance_dir_of_key (dc_stage dc) (dc_key dc);
               prefix = stage_base_dir (dc_stage dc)
           in case json_marshal (ae_front a) [dc] (cd_encode (ae_codec a) dc) of
                Returns d \<Rightarrow>
                  (let codec = (ae_codec a)\<lparr>cd_encode := \<lambda>dc. d\<rparr>;
                       (e', res) = (if ignoreExist then store_update (ae_kv a) codec prefix e path dc False 0
                                    else store_create (ae_kv a) codec prefix e path dc False 0)
                   in (e', Returns (case res of Inl err \<Rightarrow> Some (of_store_error err) | Inr _ \<Rightarrow> None)))
              | Panics \<Rightarrow> (e, Panics) | Exits \<Rightarrow> (e, Exits) | Waits \<Rightarrow> (e, Waits)))"

definition get_deploy_config_of ::
  "('f, 's, 'e) api_env \<Rightarrow> 'e \<Rightarrow> stage \<Rightarrow> bytes \<Rightarrow> ('f, 's) model \<times> go_error option" where
  "get_deploy_config_of a e stage key =
     (case get_store a stage of
        Some err \<Rightarrow> (NilConfig, Some err)
      | None \<Rightarrow>
          (let path = deploy_instance_dir_of_key stage key
           in case store_get (ae_kv a) (ae_codec a) (stage_base_dir stage) e path False of
                Inl err \<Rightarrow> (NilConfig, Some (of_store_error err))
              | Inr dc \<Rightarrow> (ConfigModel dc, None)))"

definition delete_deploy_config ::
  "('f, 's, 'e) api_env \<Rightarrow> 'e \<Rightarrow> stage \<Rightarrow> bytes \<Rightarrow> 'e \<times> ('f, 's) model \<times> go_error option" where
  "delete_deploy_config a e stage key =
     (case get_store a stage of
        Some err \<Rightarrow> (e, NilConfig, Some err)
      | None \<Rightarrow>
          (let path = deploy_instance_dir_of_key stage key
           in case store_delete (ae_kv a) (ae_codec a) (stage_base_dir stage) e path True of
                (e', Inl err) \<Rightarrow> (e', NilConfig, Some (of_store_error err))
              | (e', Inr dc) \<Rightarrow> (e', ConfigModel (case dc of None \<Rightarrow> cd_zero (ae_codec a) | Some dc \<Rightarrow> dc), None)))"

text \<open>
  \<open>List\<close> with the filter of a predicate, which may panic.  The objects are pointers to what the slice holds, which are
  pointers themselves.
\<close>

fun decode_list_go ::
  "'v codec \<Rightarrow> ('v \<Rightarrow> bool go) \<Rightarrow> (bytes \<times> bytes) list \<Rightarrow> 'v list \<Rightarrow> ('v list \<times> store_error option) go" where
  "decode_list_go cd f [] l = Some (l, None)"
| "decode_list_go cd f ((k, d) # elems) l =
     (case decode_with cd d of
        Inl err \<Rightarrow> Some (l, Some err)
      | Inr v \<Rightarrow> (case f v of None \<Rightarrow> None | Some b \<Rightarrow> decode_list_go cd f elems (if b then l @ [v] else l)))"

definition query_predicate :: "(('f, 's) deploy_config, (bytes \<times> bytes) list, unit) selection_predicate" where
  "query_predicate = \<lparr>sp_label = None, sp_field = Some (True, \<lambda>f. True),
     sp_getAttrs = (\<lambda>obj. case obj of Object n dc \<Rightarrow> if n = 1 then Some (Some (dc_labels dc, ())) else None | _ \<Rightarrow> None)\<rparr>"

definition query_deploy_config ::
  "('f, 's, 'e) api_env \<Rightarrow> 'e \<Rightarrow> stage \<Rightarrow> 's \<Rightarrow> (('f, 's) model \<times> go_error option) go" where
  "query_deploy_config a e stage s =
     (case get_store a stage of
        Some err \<Rightarrow> Some (NilConfigs, Some err)
      | None \<Rightarrow>
          (let path = deploy_config_dir stage; pred = query_predicate
           in case list_elems (ae_kv a) (stage_base_dir stage) e path of
                Inl err \<Rightarrow> Some (NilConfigs, Some (of_store_error err))
              | Inr elems \<Rightarrow>
                  map_option (\<lambda>(ret, err). case err of None \<Rightarrow> (ConfigsModel ret, None) | Some err \<Rightarrow> (NilConfigs, Some (of_store_error err)))
                    (decode_list_go (ae_codec a) (\<lambda>dc. simple_filter pred (Object 2 dc)) elems [])))"

definition api_add :: "('f, 's, 'e) api_env \<Rightarrow> api_request \<Rightarrow> 'e \<Rightarrow> 'e \<times> (('f, 's) model \<times> go_error option) outcome" where
  "api_add a r e =
     (case get_stage_type_and_name a r of
        Inl err \<Rightarrow> (e, Returns (NoModel, Some err))
      | Inr (stage, typ, name) \<Rightarrow>
          (case receive (ae_decode a) True (rq_body r) of
             Inl err \<Rightarrow> (e, Returns (NoModel, Some (Plain err)))
           | Inr dc \<Rightarrow>
               (let dc = dc\<lparr>dc_stage := stage, dc_type := typ, dc_name := name\<rparr>
                in case dc_validate (ae_parse a) dc of
                     Inl err \<Rightarrow> (e, Returns (NoModel, Some (wrap_err ''validate deploy config'' (Plain (dc_error_text err)))))
                   | Inr dc \<Rightarrow> map_prod id (map_outcome (Pair NoModel)) (add_deploy_config a e dc False))))"

definition api_get :: "('f, 's, 'e) api_env \<Rightarrow> api_request \<Rightarrow> 'e \<Rightarrow> ('f, 's) model \<times> go_error option" where
  "api_get a r e =
     (case get_stage_type_and_name a r of
        Inl err \<Rightarrow> (NoModel, Some err)
      | Inr (stage, typ, name) \<Rightarrow> get_deploy_config_of a e stage (get_deploykey typ name))"

definition api_remove :: "('f, 's, 'e) api_env \<Rightarrow> api_request \<Rightarrow> 'e \<Rightarrow> 'e \<times> ('f, 's) model \<times> go_error option" where
  "api_remove a r e =
     (case get_stage_type_and_name a r of
        Inl err \<Rightarrow> (e, NoModel, Some err)
      | Inr (stage, typ, name) \<Rightarrow> delete_deploy_config a e stage (get_deploykey typ name))"

text \<open>\<open>list\<close> decodes into a map, not into a pointer to one.\<close>

definition api_list :: "('f, 's, 'e) api_env \<Rightarrow> api_request \<Rightarrow> 'e \<Rightarrow> (('f, 's) model \<times> go_error option) go" where
  "api_list a r e =
     (case receive (ae_query a) False (rq_body r) of
        Inl err \<Rightarrow> Some (NoModel, Some (Plain err))
      | Inr query \<Rightarrow>
          (case to_selector (ae_parse a) query of
             Inl err \<Rightarrow> Some (QueryModel query, Some (Plain (dc_error_text err)))
           | Inr s \<Rightarrow>
               (case parse_env a (mux_var list_route r envName) of
                  Inl err \<Rightarrow> Some (NoModel, Some err)
                | Inr stage \<Rightarrow> query_deploy_config a e stage s)))"

text \<open>The JSON of a response: of the configurations in it, and of the rest by \<open>enc\<close>.\<close>

definition model_configs :: "('f, 's) model \<Rightarrow> ('f, 's) deploy_config list" where
  "model_configs m = (case m of ConfigModel dc \<Rightarrow> [dc] | ConfigsModel dcs \<Rightarrow> dcs | _ \<Rightarrow> [])"

definition json_response ::
  "('f, 's, 'e) api_env \<Rightarrow> (('f, 's) model response \<Rightarrow> bytes option) \<Rightarrow> ('f, 's) model response \<Rightarrow> bytes option outcome" where
  "json_response a enc r = json_marshal (ae_front a) (model_configs (rs_data r)) (enc r)"

text \<open>
  \<open>Install\<close> and the choice of a route by its way of request and the number of parts of its pattern.  A request no route
  matches is answered by \<open>mux\<close> itself (\<open>None\<close>).
\<close>

definition api_serve ::
  "('f, 's, 'e) api_env \<Rightarrow> (('f, 's) model response \<Rightarrow> bytes option) \<Rightarrow> api_request \<Rightarrow> 'e \<Rightarrow> ('e \<times> http_reply outcome) option" where
  "api_serve a enc r e =
     (let wrap = (\<lambda>hf. Some (handlefunc_wrap (json_response a enc) hf (rq_callback r) e));
          parts = length (rq_path r)
      in case rq_method r of
           PUT \<Rightarrow> if parts = length config_route then wrap (api_add a r) else None
         | DELETE \<Rightarrow> if parts = length config_route then wrap (\<lambda>e. map_prod id Returns (api_remove a r e)) else None
         | GET \<Rightarrow> if parts = length config_route then wrap (\<lambda>e. (e, Returns (api_get a r e))) else None
         | POST \<Rightarrow> if parts = length list_route then wrap (\<lambda>e. (e, case api_list a r e of None \<Rightarrow> Panics | Some res \<Rightarrow> Returns res)) else None)"

text \<open>Requests one after the other; the server recovers from a panic of a handler, but not from the end of the process.\<close>

fun api_run ::
  "('f, 's, 'e) api_env \<Rightarrow> (('f, 's) model response \<Rightarrow> bytes option) \<Rightarrow> 'e \<Rightarrow> api_request list \<Rightarrow> 'e" where
  "api_run a enc e [] = e"
| "api_run a enc e (r # rs) =
     (case api_serve a enc r e of
        None \<Rightarrow> api_run a enc e rs
      | Some (e', Exits) \<Rightarrow> e'
      | Some (e', _) \<Rightarrow> api_run a enc e' rs)"

subsection \<open>Lemmas\<close>

lemma api_key [simp]: "key_with_prefix (stage_base_dir st) (deploy_instance_dir_of_key st key) = deploy_instance_dir_of_key st key"
  by (simp add: key_with_prefix_def has_prefix_iff deploy_instance_dir_of_key_def deploy_instance_dir_def deploy_dir_def)

lemma api_path_inj:
  assumes "CHR ''/'' \<notin> set ty" "CHR ''/'' \<notin> set ty'" "CHR ''/'' \<notin> set n" "CHR ''/'' \<notin> set n'"
    "s \<in> fst ` set stages" "s' \<in> fst ` set stages"
    "deploy_instance_dir_of_key s (get_deploykey ty n) = deploy_instance_dir_of_key s' (get_deploykey ty' n')"
  shows "s = s' \<and> ty = ty' \<and> n = n'"
proof -
  have "stage_string s @ CHR ''/'' # (''deploy/instances/'' @ ty @ CHR ''/'' # n @ ''/'') =
      stage_string s' @ CHR ''/'' # (''deploy/instances/'' @ ty' @ CHR ''/'' # n' @ ''/'')"
    using assms(7) by (simp add: path_defs get_deploykey_def)
  then have "stage_string s = stage_string s'" "ty @ CHR ''/'' # n @ ''/'' = ty' @ CHR ''/'' # n' @ ''/''"
    by (simp_all add: slash_split)
  then show ?thesis using assms stage_string_inj by (simp add: slash_split)
qed

lemma mux_var_no_slash: "list_all (\<lambda>p. CHR ''/'' \<notin> set p) (rq_path r) \<Longrightarrow> CHR ''/'' \<notin> set (mux_var pattern r v)"
  by (cases "map_of (zip pattern (rq_path r)) v") (auto simp: mux_var_def list_all_iff dest!: map_of_SomeD set_zip_rightD)

lemma parse_env_stage: "set (ae_ord a) = set stages \<Longrightarrow> parse_env a env = Inr st \<Longrightarrow> st \<in> fst ` set stages"
proof -
  assume a: "set (ae_ord a) = set stages" "parse_env a env = Inr st"
  have "parse_stage_loop kvs v = Some k \<Longrightarrow> k \<in> fst ` set kvs" for kvs v k
    by (induction kvs v rule: parse_stage_loop.induct) (auto split: if_splits)
  from this [of "ae_ord a" env st] show ?thesis using a by (auto simp: parse_env_def parse_stage_def split: option.splits)
qed

lemma target_ok:
  assumes "set (ae_ord a) = set stages" "list_all (\<lambda>p. CHR ''/'' \<notin> set p) (rq_path r)"
    "get_stage_type_and_name a r = Inr (st, typ, name)"
  shows "st \<in> fst ` set stages \<and> CHR ''/'' \<notin> set typ \<and> CHR ''/'' \<notin> set name"
  using assms(3) parse_env_stage [OF assms(1)] mux_var_no_slash [OF assms(2)]
  by (auto simp: get_stage_type_and_name_def Let_def split: sum.splits)

lemma get_view:
  assumes "kv_ok view (ae_kv a)" "reads_ok (ae_kv a) e" "get_stage_type_and_name a r = Inr (st, typ, name)"
  shows "api_get a r e =
    (case get_store a st of
       Some err \<Rightarrow> (NilConfig, Some err)
     | None \<Rightarrow>
         (case view e (deploy_instance_dir_of_key st (get_deploykey typ name)) of
            None \<Rightarrow> (NilConfig, Some (Storage (new_key_not_found_error (deploy_instance_dir_of_key st (get_deploykey typ name)) 0)))
          | Some d \<Rightarrow> (case cd_decode (ae_codec a) d of None \<Rightarrow> (NilConfig, Some (Plain [])) | Some dc \<Rightarrow> (ConfigModel dc, None))))"
  using assms(3) by (simp add: api_get_def get_deploy_config_of_def store_get_view [OF assms(1,2)] decode_with_def split: option.split)

text \<open>A configuration that cannot be written: its members in front of the quota can, and the quota is a valid one.\<close>

definition endless :: "(('f, 's) deploy_config \<Rightarrow> bool) \<Rightarrow> ('f, 's) deploy_config \<Rightarrow> bool" where
  "endless front dc \<longleftrightarrow> front dc \<and> (case dc_resourceQuota dc of None \<Rightarrow> False | Some rs \<Rightarrow> size_validate rs = None)"

lemma marshal_quotas_one:
  "marshal_quotas front [dc] = (if endless front dc then None else Some (front dc \<and> dc_resourceQuota dc = None))"
proof (cases "dc_resourceQuota dc")
  case (Some rs)
  have "size_marshal rs = (case size_validate rs of None \<Rightarrow> None | Some err \<Rightarrow> Some (Inl err))"
    using size_marshal_never [of rs] size_marshal.simps [of rs] by (cases "size_validate rs") simp_all
  then show ?thesis using Some by (simp add: endless_def split: option.split)
qed (simp add: endless_def)

lemma json_marshal_one:
  "json_marshal front [dc] txt =
    (if endless front dc then Exits else Returns (if front dc \<and> dc_resourceQuota dc = None then txt else None))"
  unfolding json_marshal_def marshal_quotas_one by (simp split: bool.split)

lemma validate_target:
  "dc_validate parse dc = Inr d \<Longrightarrow> dc_stage d = dc_stage dc \<and> dc_key d = get_deploykey (dc_type dc) (dc_name dc)"
  using dc_validate_keeps [of parse dc d] by (simp add: dc_key_def deploy_key_def get_deploykey_def)

lemma add_success:
  assumes "kv_ok view (ae_kv a)" "get_stage_type_and_name a r = Inr (st, typ, name)" "api_add a r e = (e', Returns (m, None))"
  shows "\<exists>body dc d. ae_decode a (rq_body r) = Inr body \<and> get_store a st = None
    \<and> dc_validate (ae_parse a) (body\<lparr>dc_stage := st, dc_type := typ, dc_name := name\<rparr>) = Inr dc
    \<and> dc_resourceQuota dc = None \<and> cd_encode (ae_codec a) dc = Some d
    \<and> view e (deploy_instance_dir_of_key st (get_deploykey typ name)) = None
    \<and> view e' = (view e)(deploy_instance_dir_of_key st (get_deploykey typ name) \<mapsto> d)"
proof -
  obtain body where b: "ae_decode a (rq_body r) = Inr body"
    using assms(2,3) by (auto simp: api_add_def receive_def split: sum.splits)
  let ?dc = "body\<lparr>dc_stage := st, dc_type := typ, dc_name := name\<rparr>"
  obtain dc where d: "dc_validate (ae_parse a) ?dc = Inr dc"
    using assms(2,3) b by (auto simp: api_add_def receive_def split: sum.splits)
  note t = validate_target [OF d]
  obtain x where "add_deploy_config a e dc False = (e', x)" "map_outcome (Pair NoModel) x = Returns (m, None)"
    using assms(2,3) b d by (cases "add_deploy_config a e dc False") (simp add: api_add_def receive_def)
  then have add: "add_deploy_config a e dc False = (e', Returns None)" by (cases x) simp_all
  then have g: "get_store a st = None" using t by (simp add: add_deploy_config_def split: option.splits)
  let ?p = "deploy_instance_dir_of_key st (get_deploykey typ name)"
  let ?d = "if ae_front a dc \<and> dc_resourceQuota dc = None then cd_encode (ae_codec a) dc else None"
  obtain r where r: "store_create (ae_kv a) ((ae_codec a)\<lparr>cd_encode := \<lambda>dc. ?d\<rparr>) (stage_base_dir st) e ?p dc False 0 = (e', Inr r)"
    using add t g by (auto simp: add_deploy_config_def json_marshal_one Let_def split: prod.splits sum.splits if_splits)
  obtain d' where d': "?d = Some d'" "view e ?p = None" "view e' = (view e)(?p \<mapsto> d')"
    using store_create_view [OF assms(1) r] by auto
  then have "dc_resourceQuota dc = None" "cd_encode (ae_codec a) dc = Some d'" by (simp_all split: if_splits)
  then show ?thesis using b d g d'(2,3) by blast
qed

text \<open>A removal that reports no error.\<close>

lemma remove_success:
  assumes "kv_ok view (ae_kv a)" "get_stage_type_and_name a r = Inr (st, typ, name)" "api_remove a r e = (e', m, None)"
  shows "\<exists>d dc. get_store a st = None \<and> view e (deploy_instance_dir_of_key st (get_deploykey typ name)) = Some d
    \<and> cd_decode (ae_codec a) d = Some dc \<and> m = ConfigModel dc
    \<and> view e' = (view e)(deploy_instance_dir_of_key st (get_deploykey typ name) := None)"
proof -
  let ?p = "deploy_instance_dir_of_key st (get_deploykey typ name)"
  obtain d dc where d: "kv_take (ae_kv a) e ?p = (e', Inr (Some d))" "cd_decode (ae_codec a) d = Some dc" "get_store a st = None"
    "m = ConfigModel dc"
    using assms(2,3)
    by (auto simp: api_remove_def delete_deploy_config_def store_delete_def Let_def decode_with_def split: option.splits prod.splits sum.splits)
  from kv_okD(7) [OF assms(1) d(1)] show ?thesis using d(2-4) by (intro exI [of _ d] exI [of _ dc]) simp
qed

text \<open>A failed call of etcd may have had its effect, but no other.\<close>

definition kv_local :: "('e \<Rightarrow> bytes \<Rightarrow> bytes option) \<Rightarrow> 'e kv_client \<Rightarrow> bool" where
  "kv_local view kv \<longleftrightarrow>
     (\<forall>e k d l k'. k' \<noteq> k \<longrightarrow> view (fst (kv_create kv e k d l)) k' = view e k')
     \<and> (\<forall>e k k'. k' \<noteq> k \<longrightarrow> view (fst (kv_take kv e k)) k' = view e k')"

lemma kv_localD:
  assumes "kv_local view kv" "k' \<noteq> k"
  shows "kv_create kv e k d l = (e', x) \<Longrightarrow> view e' k' = view e k'" "kv_take kv e k = (e', y) \<Longrightarrow> view e' k' = view e k'"
  using assms unfolding kv_local_def by (metis fst_conv)+

lemma store_create_local:
  assumes "kv_local view kv" "store_create kv cd p e k obj out 0 = (e', res)" "k' \<noteq> key_with_prefix p k"
  shows "view e' k' = view e k'"
  using assms(2) kv_localD(1) [OF assms(1,3)]
  by (auto simp: store_create_def ttl_opts_def Let_def split: option.splits prod.splits sum.splits bool.splits if_splits)

lemma store_delete_local:
  assumes "kv_local view kv" "store_delete kv cd p e k out = (e', res)" "k' \<noteq> key_with_prefix p k"
  shows "view e' k' = view e k'"
  using assms(2) kv_localD(2) [OF assms(1,3)]
  by (auto simp: store_delete_def Let_def split: option.splits prod.splits sum.splits)

lemma add_local:
  assumes "kv_local view (ae_kv a)" "api_add a r e = (e', res)" "\<forall>st key. k \<noteq> deploy_instance_dir_of_key st key"
  shows "view e' k = view e k"
proof -
  have "view e1 k = view e k" if add: "add_deploy_config a e dc False = (e1, x)" for dc e1 x
  proof (cases "get_store a (dc_stage dc) = None \<and> \<not> endless (ae_front a) dc")
    case True
    let ?p = "deploy_instance_dir_of_key (dc_stage dc) (dc_key dc)"
    let ?cd = "(ae_codec a)\<lparr>cd_encode := \<lambda>dc'. if ae_front a dc \<and> dc_resourceQuota dc = None then cd_encode (ae_codec a) dc else None\<rparr>"
    obtain res where "store_create (ae_kv a) ?cd (stage_base_dir (dc_stage dc)) e ?p dc False 0 = (e1, res)"
      using add True by (auto simp: add_deploy_config_def json_marshal_one Let_def split: prod.splits)
    from store_create_local [OF assms(1) this] show ?thesis using assms(3) by simp
  qed (use add in \<open>auto simp: add_deploy_config_def json_marshal_one split: option.splits\<close>)
  moreover have "e' = e \<or> (\<exists>dc x. add_deploy_config a e dc False = (e', x))"
    using assms(2) by (auto simp: api_add_def Let_def map_prod_def split: sum.splits prod.splits)
  ultimately show ?thesis by auto
qed

lemma remove_local:
  assumes "kv_local view (ae_kv a)" "api_remove a r e = (e', m, err)" "\<forall>st key. k \<noteq> deploy_instance_dir_of_key st key"
  shows "view e' k = view e k"
proof -
  have "view e1 k = view e k" if del: "delete_deploy_config a e st key = (e1, x)" for st key e1 x
  proof (cases "get_store a st")
    case None
    obtain res where "store_delete (ae_kv a) (ae_codec a) (stage_base_dir st) e (deploy_instance_dir_of_key st key) True = (e1, res)"
      using del None by (auto simp: delete_deploy_config_def Let_def split: prod.splits sum.splits)
    from store_delete_local [OF assms(1) this] show ?thesis using assms(3) by simp
  qed (use del in \<open>simp add: delete_deploy_config_def\<close>)
  then show ?thesis using assms(2) by (auto simp: api_remove_def split: sum.splits prod.splits)
qed

lemma wrap_state: "fst (handlefunc_wrap enc hf cb e) = fst (hf e)"
  by (auto simp: handlefunc_wrap_def split: prod.splits outcome.splits option.splits go_error.splits)

lemma serve_local:
  assumes "kv_local view (ae_kv a)" "api_serve a enc r e = Some (e', out)" "\<forall>st key. k \<noteq> deploy_instance_dir_of_key st key"
  shows "view e' k = view e k"
proof -
  have "e' = fst (api_add a r e) \<or> e' = fst (api_remove a r e) \<or> e' = e"
    using assms(2) by (cases "rq_method r") (auto simp: api_serve_def Let_def wrap_state split: if_splits dest!: arg_cong [of _ _ fst])
  then show ?thesis
    using add_local [OF assms(1) _ assms(3)] remove_local [OF assms(1) _ assms(3)] by (metis prod.collapse)
qed

lemma run_local:
  "kv_local view (ae_kv a) \<Longrightarrow> \<forall>st key. k \<noteq> deploy_instance_dir_of_key st key \<Longrightarrow> view (api_run a enc e rs) k = view e k"
proof (induction rs arbitrary: e)
  case (Cons r rs)
  show ?case
  proof (cases "api_serve a enc r e")
    case (Some x)
    obtain e' out where x: "x = (e', out)" by fastforce
    show ?thesis using serve_local [OF Cons.prems(1) Some [unfolded x] Cons.prems(2)] Cons.IH [OF Cons.prems] Some x
      by (cases out) simp_all
  qed (use Cons in simp)
qed simp

lemma config_not_instance: "has_prefix k (deploy_config_dir st) \<Longrightarrow> k \<noteq> deploy_instance_dir_of_key st' key"
proof
  assume "has_prefix k (deploy_config_dir st)" "k = deploy_instance_dir_of_key st' key"
  then obtain t where "deploy_config_dir st @ t = deploy_instance_dir_of_key st' key" by (auto simp: has_prefix_iff)
  then have "stage_string st @ CHR ''/'' # (''deploy/config/'' @ t) = stage_string st' @ CHR ''/'' # (''deploy/instances/'' @ key @ ''/'')"
    by (simp add: path_defs)
  then show False by (simp add: slash_split)
qed

lemma no_configs_listed:
  assumes "kv_ok view kv" "new_dc_manager conn kv cd e st = Inr m" "\<forall>k. has_prefix k (deploy_config_dir st) \<longrightarrow> view e k = None"
  shows "dm_dc m = fmempty"
proof -
  have dir: "dir_key (stage_base_dir st) (deploy_config_dir st) = deploy_config_dir st"
    by (simp add: dir_key_def key_with_prefix_def has_prefix_iff has_suffix_iff deploy_config_dir_def deploy_dir_def)
  have "kv_range kv e (deploy_config_dir st) = Inr rs \<Longrightarrow> rs = []" for rs
  proof (rule ccontr)
    assume r: "kv_range kv e (deploy_config_dir st) = Inr rs" "rs \<noteq> []"
    then obtain k d where "(k, d) \<in> set rs" by (cases rs) auto
    then show False using kv_okD(3) [OF assms(1) r(1)] assms(3) by auto
  qed
  then have "list_elems kv (stage_base_dir st) e (deploy_config_dir st) = Inr elems \<Longrightarrow> elems = []" for elems
    by (cases "kv_range kv e (deploy_config_dir st)") (auto simp: list_elems_def dir Let_def)
  then show ?thesis
    using assms(2) unfolding new_dc_manager_eq store_list_def
    by (cases "list_elems kv (stage_base_dir st) e (deploy_config_dir st)") (auto split: option.splits)
qed

subsection \<open>Properties\<close>

text \<open>
  C14: a configuration that is put without an error was not there before, and it is stored as the JSON of what was checked,
  under its stage, type and name and nowhere else: a later get of these gives what is read from that JSON, and every
  other get gives what it gave.  The JSON is not the configuration again in all its parts: sizes are rounded, and others
  are left out (\<open>Res_Size\<close>, \<open>Deploy_Policy\<close>).  One with a resource quota is never put.
\<close>

theorem api_put_get:
  assumes "kv_ok view (ae_kv a)" "reads_ok (ae_kv a) e" "reads_ok (ae_kv a) e'" "set (ae_ord a) = set stages"
    "list_all (\<lambda>p. CHR ''/'' \<notin> set p) (rq_path r)" "list_all (\<lambda>p. CHR ''/'' \<notin> set p) (rq_path r')"
    "get_stage_type_and_name a r = Inr (st, typ, name)" "get_stage_type_and_name a r' = Inr (st', typ', name')"
    "api_add a r e = (e', Returns (m, None))"
  shows "\<exists>body dc d. ae_decode a (rq_body r) = Inr body
    \<and> dc_validate (ae_parse a) (body\<lparr>dc_stage := st, dc_type := typ, dc_name := name\<rparr>) = Inr dc
    \<and> dc_resourceQuota dc = None \<and> cd_encode (ae_codec a) dc = Some d
    \<and> api_get a r e = (NilConfig, Some (Storage (new_key_not_found_error (deploy_instance_dir_of_key st (get_deploykey typ name)) 0)))
    \<and> api_get a r' e' =
        (if (st', typ', name') = (st, typ, name)
         then (case cd_decode (ae_codec a) d of None \<Rightarrow> (NilConfig, Some (Plain [])) | Some dc' \<Rightarrow> (ConfigModel dc', None))
         else api_get a r' e)"
proof -
  let ?p = "deploy_instance_dir_of_key st (get_deploykey typ name)" and ?p' = "deploy_instance_dir_of_key st' (get_deploykey typ' name')"
  obtain body dc d where s: "ae_decode a (rq_body r) = Inr body" "get_store a st = None"
    "dc_validate (ae_parse a) (body\<lparr>dc_stage := st, dc_type := typ, dc_name := name\<rparr>) = Inr dc"
    "dc_resourceQuota dc = None" "cd_encode (ae_codec a) dc = Some d" "view e ?p = None" "view e' = (view e)(?p \<mapsto> d)"
    using add_success [OF assms(1,7,9)] by blast
  have "?p = ?p' \<longleftrightarrow> (st', typ', name') = (st, typ, name)"
    using api_path_inj [of "typ" "typ'" name name' st st'] target_ok [OF assms(4,5,7)] target_ok [OF assms(4,6,8)] by auto
  then have "view e' ?p' = (if (st', typ', name') = (st, typ, name) then Some d else view e ?p')" using s(7) by auto
  then have "api_get a r' e' =
      (if (st', typ', name') = (st, typ, name)
       then (case cd_decode (ae_codec a) d of None \<Rightarrow> (NilConfig, Some (Plain [])) | Some dc' \<Rightarrow> (ConfigModel dc', None))
       else api_get a r' e)"
    using s(2) unfolding get_view [OF assms(1,3,8)] get_view [OF assms(1,2,8)] by (auto split: option.split)
  moreover have "api_get a r e = (NilConfig, Some (Storage (new_key_not_found_error ?p 0)))"
    using s(2,6) unfolding get_view [OF assms(1,2,7)] by simp
  ultimately show ?thesis using s(1,3,4,5) by blast
qed

text \<open>A configuration and an interface for the examples; its codec knows this configuration only.\<close>

definition sample_config :: "(unit, unit) deploy_config" where
  "sample_config = \<lparr>dc_type = ''java'', dc_name = ''crm'', dc_numOfInstance = 2, dc_serviceType = ''service'', dc_stage = Dev,
     dc_maxInstancesPerNode = 1, dc_imageVersion = None, dc_deployDir = [], dc_values = [], dc_deployPolicy = [], dc_labels = [], dc_Selector = [], dc_selector = None, dc_resourceQuota = None,
     dc_resourceRequired = None, dc_restartPolicy = Some (RestartPolicy ''always'' 0), dc_updatePolicy = None\<rparr>"

definition sample_codec :: "(unit, unit) deploy_config codec" where
  "sample_codec = \<lparr>cd_encode = (\<lambda>dc. if dc\<lparr>dc_selector := None\<rparr> = sample_config then Some ''crm'' else None),
     cd_decode = (\<lambda>d. if d = ''crm'' then Some sample_config else None), cd_zero = sample_config\<rparr>"

definition sample_env :: "(unit, unit, (bytes \<times> bytes) list) api_env" where
  "sample_env = \<lparr>ae_ord = stages, ae_conn = (\<lambda>st. None), ae_kv = mem_kv, ae_codec = sample_codec, ae_decode = (\<lambda>b. Inr sample_config),
     ae_query = (\<lambda>b. Inr []), ae_parse = (\<lambda>b. Some ()), ae_front = (\<lambda>dc. True)\<rparr>"

definition crm_request :: "api_method \<Rightarrow> api_request" where
  "crm_request meth = \<lparr>rq_method = meth, rq_path = [''dev'', ''java'', ''crm''], rq_callback = [], rq_body = ''{}''\<rparr>"

lemma crm_target: "get_stage_type_and_name sample_env (crm_request meth) = Inr (Dev, ''java'', ''crm'')"
  by (simp add: get_stage_type_and_name_def crm_request_def mux_var_def config_route_def envName_def typeName_def nameName_def
      parse_env_def sample_env_def parse_stage_def stages_def)

definition crm_path :: bytes where "crm_path = ''/dolphin/dev/deploy/instances/java/crm/''"

lemma crm_key: "deploy_instance_dir_of_key Dev (get_deploykey ''java'' ''crm'') = crm_path"
  by (simp add: crm_path_def path_defs get_deploykey_def stage_string_def stages_def)

lemma crm_added: "api_add sample_env (crm_request PUT) [] = ([(crm_path, ''crm'')], Returns (NoModel, None))"
proof -
  have v: "dc_validate (\<lambda>b. Some ()) sample_config = Inr sample_config"
    by (simp add: dc_validate_def sample_config_def stage_defs)
  have s: "sample_config\<lparr>dc_stage := Dev, dc_type := ''java'', dc_name := ''crm''\<rparr> = sample_config"
    "dc_stage sample_config = Dev" "dc_key sample_config = get_deploykey ''java'' ''crm''" "sample_config\<lparr>dc_selector := None\<rparr> = sample_config"
    "dc_resourceQuota sample_config = None"
    by (simp_all add: sample_config_def dc_key_def deploy_key_def get_deploykey_def)
  have enc: "cd_encode sample_codec sample_config = Some ''crm''" by (simp add: sample_codec_def s(4))
  have c: "store_create mem_kv (sample_codec\<lparr>cd_encode := \<lambda>dc. Some ''crm''\<rparr>) (stage_base_dir Dev) [] crm_path sample_config False 0
      = ([(crm_path, ''crm'')], Inr None)"
    using api_key [of Dev "get_deploykey ''java'' ''crm''"] by (simp add: store_create_def ttl_opts_def mem_kv_def crm_key)
  show ?thesis unfolding api_add_def crm_target
    by (simp add: receive_def sample_env_def s v enc add_deploy_config_def json_marshal_one endless_def get_store_def crm_key c)
qed

theorem api_put_get_witness:
  "api_get sample_env (crm_request GET) [(crm_path, ''crm'')] = (ConfigModel sample_config, None)"
proof -
  have k: "kv_ok map_of (ae_kv sample_env)" "reads_ok (ae_kv sample_env) e" "set (ae_ord sample_env) = set stages" for e
    by (simp_all add: sample_env_def mem_kv_ok mem_kv_reads)
  have p: "list_all (\<lambda>p. CHR ''/'' \<notin> set p) (rq_path (crm_request meth))" for meth by (simp add: crm_request_def)
  obtain dc d where d: "cd_encode (ae_codec sample_env) dc = Some d"
    "api_get sample_env (crm_request GET) [(crm_path, ''crm'')] =
      (case cd_decode (ae_codec sample_env) d of None \<Rightarrow> (NilConfig, Some (Plain [])) | Some dc' \<Rightarrow> (ConfigModel dc', None))"
    using api_put_get [OF k(1,2,2,3) p p crm_target crm_target crm_added, of GET] by auto
  then have "d = ''crm''" by (simp add: sample_env_def sample_codec_def split: if_splits)
  then show ?thesis using d(2) by (simp add: sample_env_def sample_codec_def)
qed

text \<open>
  a removal that reports no error gives what a get gave before; the next get of it finds nothing and a second
  removal, as far as etcd answers, fails.
\<close>

theorem api_remove_get:
  assumes "kv_ok view (ae_kv a)" "reads_ok (ae_kv a) e" "reads_ok (ae_kv a) e'"
    "get_stage_type_and_name a r = Inr (st, typ, name)" "api_remove a r e = (e', m, None)"
  shows "api_get a r e = (m, None)
    \<and> api_get a r e' = (NilConfig, Some (Storage (new_key_not_found_error (deploy_instance_dir_of_key st (get_deploykey typ name)) 0)))
    \<and> (\<exists>err. snd (snd (api_remove a r e')) = Some err)"
proof -
  let ?p = "deploy_instance_dir_of_key st (get_deploykey typ name)"
  obtain d dc where s: "get_store a st = None" "view e ?p = Some d" "cd_decode (ae_codec a) d = Some dc" "m = ConfigModel dc"
    "view e' = (view e)(?p := None)"
    using remove_success [OF assms(1,4,5)] by blast
  have "api_get a r e = (m, None)" using s unfolding get_view [OF assms(1,2,4)] by simp
  moreover have "api_get a r e' = (NilConfig, Some (Storage (new_key_not_found_error ?p 0)))"
    using s unfolding get_view [OF assms(1,3,4)] by simp
  moreover have "\<exists>err. snd (snd (api_remove a r e')) = Some err"
  proof (cases "snd (snd (api_remove a r e'))")
    case None
    then obtain e2 m2 where "api_remove a r e' = (e2, m2, None)" by (metis prod.collapse)
    from remove_success [OF assms(1,4) this] show ?thesis using s(5) by auto
  qed simp
  ultimately show ?thesis by blast
qed

theorem api_remove_get_witness:
  "api_get sample_env (crm_request GET) [] = (NilConfig, Some (Storage (new_key_not_found_error crm_path 0)))"
proof -
  have k: "kv_ok map_of (ae_kv sample_env)" "reads_ok (ae_kv sample_env) e" for e
    by (simp_all add: sample_env_def mem_kv_ok mem_kv_reads)
  have "store_delete mem_kv sample_codec (stage_base_dir Dev) [(crm_path, ''crm'')] crm_path True = ([], Inr (Some sample_config))"
    using api_key [of Dev "get_deploykey ''java'' ''crm''"]
    by (simp add: store_delete_def mem_kv_def sample_codec_def crm_key decode_with_def)
  then have r: "api_remove sample_env (crm_request GET) [(crm_path, ''crm'')] = ([], ConfigModel sample_config, None)"
    unfolding api_remove_def crm_target by (simp add: delete_deploy_config_def get_store_def sample_env_def crm_key)
  show ?thesis using api_remove_get [OF k(1,2,2) crm_target r] by (simp add: crm_key)
qed

text \<open>
  C12: no sequence of requests, of whatever outcome, makes a configuration known to the configuration manager: requests
  write below the directory of the instances, and the manager reads that of the configurations.  If this is empty at
  first, every manager made later has no configuration at all.
\<close>

theorem api_configs_unseen:
  assumes "kv_ok view (ae_kv a)" "kv_local view (ae_kv a)" "\<forall>k. has_prefix k (deploy_config_dir st) \<longrightarrow> view e k = None"
    "new_dc_manager conn (ae_kv a) cd (api_run a enc e rs) st = Inr m"
  shows "dcm_get_deploy_config m key = None"
proof -
  have "view (api_run a enc e rs) k = None" if "has_prefix k (deploy_config_dir st)" for k
    using run_local [OF assms(2)] config_not_instance [OF that] assms(3) that by simp
  then have "dm_dc m = fmempty" by (intro no_configs_listed [OF assms(1,4)]) simp
  then show ?thesis by (simp add: dcm_get_deploy_config_def)
qed

lemma mem_kv_local: "kv_local map_of mem_kv"
proof -
  have "map_of (AList.delete k e) k' = map_of e k'" if "k' \<noteq> k" for e :: "(bytes \<times> bytes) list" and k k'
    using that by (simp add: delete_conv')
  then show ?thesis by (simp add: kv_local_def mem_kv_def)
qed

theorem api_configs_unseen_witness:
  "\<exists>m. new_dc_manager (\<lambda>st. None) mem_kv sample_codec [(crm_path, ''crm'')] Dev = Inr m \<and> dcm_get_deploy_config m ''java/crm'' = None"
proof -
  let ?e = "api_run sample_env (\<lambda>r. None) [] [crm_request PUT]"
  have e: "?e = [(crm_path, ''crm'')]"
    using crm_added by (simp add: api_serve_def handlefunc_wrap_def respond_def json_response_def json_marshal_def model_configs_def
        crm_request_def config_route_def)
  have "\<not> has_prefix crm_path (deploy_config_dir Dev)" using config_not_instance [of crm_path Dev] crm_key by metis
  moreover have d: "dir_key (stage_base_dir Dev) (deploy_config_dir Dev) = deploy_config_dir Dev"
    by (simp add: dir_key_def key_with_prefix_def has_prefix_iff has_suffix_iff deploy_config_dir_def deploy_dir_def)
  ultimately have "list_elems mem_kv (stage_base_dir Dev) ?e (deploy_config_dir Dev) = Inr []"
    unfolding e by (simp add: list_elems_def mem_kv_def d Let_def)
  then obtain m where m: "new_dc_manager (\<lambda>st. None) (ae_kv sample_env) sample_codec ?e Dev = Inr m"
    unfolding new_dc_manager_eq by (simp add: store_list_def sample_env_def)
  have "dcm_get_deploy_config m ''java/crm'' = None"
    by (rule api_configs_unseen [OF _ _ _ m, of map_of]) (simp_all add: sample_env_def mem_kv_ok mem_kv_local)
  then show ?thesis using m unfolding e by (simp add: sample_env_def)
qed

text \<open>No handler makes an error of the interface's own types.\<close>

lemma store_error_plain: "of_store_error err \<noteq> Api typ inner"
  by (cases err) simp_all

lemma map_outcome_Returns: "map_outcome f x = Returns y \<longleftrightarrow> (\<exists>z. x = Returns z \<and> y = f z)"
  by (cases x) auto

lemma add_plain:
  assumes "api_add a r e = (e', Returns (m, Some err))"
  shows "err \<noteq> Api t inner"
proof -
  have "x \<noteq> Some (Api t inner)" if "add_deploy_config a e dc False = (e1, Returns x)" for dc e1 x
    using that by (auto simp: add_deploy_config_def get_store_def json_marshal_one Let_def store_error_plain
        split: option.splits sum.splits prod.splits if_splits)
  moreover have "err = Plain b \<or> (\<exists>dc. add_deploy_config a e dc False = (e', Returns (Some err)))"
    if "err \<noteq> Plain b" "err = Api t inner" for b
    using assms that by (auto simp: api_add_def receive_def get_stage_type_and_name_def parse_env_def wrap_err_def Let_def map_prod_def
        map_outcome_Returns
        split: sum.splits prod.splits bool.splits outcome.splits)
  ultimately show ?thesis by auto
qed

lemma handlers_plain:
  "api_remove a r e = (e', m, Some err) \<Longrightarrow> err \<noteq> Api t inner"
  "api_get a r e = (m, Some err) \<Longrightarrow> err \<noteq> Api t inner"
  by (auto simp: api_remove_def api_get_def get_stage_type_and_name_def parse_env_def wrap_err_def
      delete_deploy_config_def get_deploy_config_of_def get_store_def Let_def store_error_plain
      split: sum.splits prod.splits bool.splits option.splits if_splits)

lemma list_fails: "\<exists>err. api_list a r e = Some (NoModel, Some (Plain err))"
  by (auto simp: api_list_def receive_def split: sum.split)

text \<open>The answer to what a handler returns.\<close>

lemma wrap_answer:
  assumes "hf e = (e', Returns (m, err))" "\<forall>x t inner. err = Some x \<longrightarrow> x \<noteq> Api t inner"
  shows "\<exists>out. handlefunc_wrap (json_response a enc) hf cb e = (e', out)
    \<and> (out = Exits \<longleftrightarrow> marshal_quotas (ae_front a) (model_configs m) = None)
    \<and> (out = Exits \<or> (\<exists>reply. out = Returns reply \<and> hr_code reply = (if err = None then 200 else 500)))"
proof (cases err)
  case None
  then show ?thesis using assms(1)
    by (auto simp: handlefunc_wrap_def respond_def json_response_def json_marshal_def split: option.split bool.split)
next
  case (Some x)
  then have "x \<noteq> Api t inner" for t inner using assms(2) by blast
  then have "handlefunc_wrap (json_response a enc) hf cb e = (e', respond_error (json_response a enc) ErrorInternal x m cb)"
    using assms(1) Some by (cases x) (auto simp: handlefunc_wrap_def)
  then show ?thesis using Some
    by (auto simp: respond_error_def status_code_def json_response_def json_marshal_def split: option.split bool.split)
qed

lemma one_config:
  "\<forall>dcs. m \<noteq> ConfigsModel dcs \<Longrightarrow>
   marshal_quotas front (model_configs m) = None \<longleftrightarrow> (\<exists>dc. m = ConfigModel dc \<and> endless front dc)"
  by (cases m) (simp_all add: model_configs_def marshal_quotas_one del: marshal_quotas.simps(2))

text \<open>What a put ends with.\<close>

lemma add_ends:
  obtains (returns) e' err where "api_add a r e = (e', Returns (NoModel, err))"
  | (exits) "api_add a r e = (e, Exits)"
proof -
  obtain e' x where x: "api_add a r e = (e', x)" by fastforce
  then have "(\<exists>err. x = Returns (NoModel, err)) \<or> e' = e \<and> x = Exits"
    by (auto simp: api_add_def add_deploy_config_def json_marshal_one Let_def split: sum.splits prod.splits option.splits if_splits)
  then show thesis using x returns exits by blast
qed

lemma add_exits:
  "snd (api_add a r e) = Exits \<longleftrightarrow>
    (\<exists>st typ name body dc. get_stage_type_and_name a r = Inr (st, typ, name) \<and> ae_decode a (rq_body r) = Inr body
      \<and> dc_validate (ae_parse a) (body\<lparr>dc_stage := st, dc_type := typ, dc_name := name\<rparr>) = Inr dc
      \<and> ae_conn a st = None \<and> endless (ae_front a) dc)"
proof -
  have "snd (add_deploy_config a e dc False) = Exits \<longleftrightarrow> ae_conn a (dc_stage dc) = None \<and> endless (ae_front a) dc" for dc
    by (auto simp: add_deploy_config_def json_marshal_one get_store_def Let_def split: option.splits prod.splits)
  moreover have "map_outcome f x = Exits \<longleftrightarrow> x = Exits" for f :: "go_error option \<Rightarrow> ('a, 'b) model \<times> go_error option" and x
    by (cases x) simp_all
  ultimately show ?thesis
    by (auto simp: api_add_def receive_def Let_def dest: validate_target split: sum.splits)
qed

text \<open>A request whose handler returns at most one configuration and an error of its own.\<close>

lemma one_answer:
  assumes "handlefunc_wrap (json_response a enc) hf cb e = (e', out)" "hf e = (e2, Returns (m, err))"
    "\<forall>dcs. m \<noteq> ConfigsModel dcs" "\<forall>x t inner. err = Some x \<longrightarrow> x \<noteq> Api t inner"
  shows "e' = e2 \<and> (out = Exits \<longleftrightarrow> (\<exists>dc. m = ConfigModel dc \<and> endless (ae_front a) dc))
    \<and> (out = Exits \<or> (\<exists>reply. out = Returns reply \<and> hr_code reply = (if err = None then 200 else 500)))"
  using wrap_answer [where hf = hf, OF assms(2,4), of a enc cb] one_config [OF assms(3), of "ae_front a"] assms(1) by auto

text \<open>
  C30: a request a route matches is answered, with the code 200 if its handler reports no error and with 500 if it reports
  one, whoever is at fault, except that the process ends when a configuration with a resource quota is to be written as
  JSON, as that never returns: a put of a valid configuration that has one does so, when the store can be reached and
  before anything is stored, and so do a get and a removal that find one.  A query is always answered with 500 and
  changes nothing, as a get does.
\<close>

theorem api_answers:
  assumes "api_serve a enc r e = Some (e', out)"
  shows "(out = Exits \<longleftrightarrow>
      (case rq_method r of
         PUT \<Rightarrow> \<exists>st typ name body dc. get_stage_type_and_name a r = Inr (st, typ, name) \<and> ae_decode a (rq_body r) = Inr body
           \<and> dc_validate (ae_parse a) (body\<lparr>dc_stage := st, dc_type := typ, dc_name := name\<rparr>) = Inr dc
           \<and> ae_conn a st = None \<and> endless (ae_front a) dc
       | DELETE \<Rightarrow> \<exists>e2 dc err. api_remove a r e = (e2, ConfigModel dc, err) \<and> endless (ae_front a) dc
       | GET \<Rightarrow> \<exists>dc err. api_get a r e = (ConfigModel dc, err) \<and> endless (ae_front a) dc
       | POST \<Rightarrow> False))
    \<and> (out = Exits \<or> (\<exists>reply. out = Returns reply \<and> hr_code reply =
        (if (case rq_method r of PUT \<Rightarrow> \<exists>e2 m. api_add a r e = (e2, Returns (m, None)) | DELETE \<Rightarrow> snd (snd (api_remove a r e)) = None
             | GET \<Rightarrow> snd (api_get a r e) = None | POST \<Rightarrow> False) then 200 else 500)))
    \<and> (rq_method r \<in> {GET, POST} \<or> out = Exits \<and> rq_method r = PUT \<longrightarrow> e' = e)"
proof (cases "rq_method r")
  case PUT
  have w: "handlefunc_wrap (json_response a enc) (api_add a r) (rq_callback r) e = (e', out)"
    using assms PUT by (simp add: api_serve_def Let_def split: if_splits)
  show ?thesis
  proof (cases rule: add_ends [of a r e])
    case (returns e2 err)
    have "\<forall>x t inner. err = Some x \<longrightarrow> x \<noteq> Api t inner" using add_plain [of a r e e2 NoModel] returns by blast
    from one_answer [OF w returns _ this] show ?thesis using PUT returns add_exits [of a r e] by auto
  next
    case exits
    then have "out = Exits" "e' = e" using w by (simp_all add: handlefunc_wrap_def)
    then show ?thesis using PUT exits add_exits [of a r e] by simp
  qed
next
  case DELETE
  obtain e2 m err where h: "api_remove a r e = (e2, m, err)" by (metis prod.collapse)
  have w: "handlefunc_wrap (json_response a enc) (\<lambda>e. map_prod id Returns (api_remove a r e)) (rq_callback r) e = (e', out)"
    using assms DELETE by (simp add: api_serve_def Let_def split: if_splits)
  have m: "\<forall>dcs. m \<noteq> ConfigsModel dcs"
    using h by (auto simp: api_remove_def delete_deploy_config_def Let_def split: sum.splits prod.splits option.splits)
  have "\<forall>x t inner. err = Some x \<longrightarrow> x \<noteq> Api t inner" using handlers_plain(1) [of a r e e2 m] h by blast
  from one_answer [OF w _ m this, of e2] show ?thesis using DELETE h by auto
next
  case GET
  obtain m err where h: "api_get a r e = (m, err)" by (metis prod.collapse)
  have w: "handlefunc_wrap (json_response a enc) (\<lambda>e. (e, Returns (api_get a r e))) (rq_callback r) e = (e', out)"
    using assms GET by (simp add: api_serve_def Let_def split: if_splits)
  have m: "\<forall>dcs. m \<noteq> ConfigsModel dcs"
    using h by (auto simp: api_get_def get_deploy_config_of_def Let_def split: sum.splits prod.splits option.splits)
  have "\<forall>x t inner. err = Some x \<longrightarrow> x \<noteq> Api t inner" using handlers_plain(2) [of a r e m] h by blast
  from one_answer [OF w _ m this, of e] show ?thesis using GET h by auto
next
  case POST
  obtain err where h: "api_list a r e = Some (NoModel, Some (Plain err))" using list_fails [of a r e] by fast
  have "handlefunc_wrap (json_response a enc) (\<lambda>e. (e, case api_list a r e of None \<Rightarrow> Panics | Some res \<Rightarrow> Returns res)) (rq_callback r) e = (e', out)"
    using assms POST by (simp add: api_serve_def Let_def split: if_splits)
  from one_answer [OF this, of e NoModel "Some (Plain err)"] show ?thesis using POST h by auto
qed

theorem api_answers_witness:
  "\<exists>reply. api_serve sample_env (\<lambda>r. None) (crm_request PUT) [] = Some ([(crm_path, ''crm'')], Returns reply) \<and> hr_code reply = 200"
proof -
  obtain out where a: "api_serve sample_env (\<lambda>r. None) (crm_request PUT) [] = Some ([(crm_path, ''crm'')], out)"
    using crm_added wrap_state [of _ "api_add sample_env (crm_request PUT)" _ "[]"]
    by (simp add: api_serve_def crm_request_def config_route_def) (metis fst_conv prod.collapse)
  have m: "rq_method (crm_request PUT) = PUT" by (simp add: crm_request_def)
  have "out \<noteq> Exits" using api_answers [OF a] m crm_added add_exits [of sample_env "crm_request PUT" "[]"] by auto
  then show ?thesis using api_answers [OF a] a m crm_added by auto
qed

end
