(* ===== verification/Store_Provider.thy ===== *)
theory Store_Provider
  imports Compactor
begin

text \<open>
  Making the client of etcd and the stores over it (\<open>registry/generic/store_provider.go\<close>) from its configuration
  (\<open>registry/generic/cfg.go\<close>), with the goroutines that ask for a store as a step relation.

  A client is the number of its creation; whether it answers, whether one can be made, and the certificates are
  parameters.
\<close>

subsection \<open>The configuration\<close>

record etcd_config =
  ec_endpoints :: "bytes list"
  ec_autoSyncInterval :: int
  ec_dialTimeout :: int
  ec_username :: bytes
  ec_password :: bytes
  ec_rejectOldCluster :: bool
  ec_insecureTransport :: "bool option"
  ec_insecureSkipTLSVerify :: bool
  ec_certfile :: bytes
  ec_keyfile :: bytes
  ec_cafile :: bytes

text \<open>What of \<open>tls.Config\<close> and \<open>clientv3.Config\<close> is set; \<open>'c\<close> is a certificate and \<open>'p\<close> a pool of them.\<close>

record ('c, 'p) tls_config =
  tc_rootCAs :: "'p option"
  tc_certificates :: "'c list"
  tc_insecureSkipVerify :: bool

record ('c, 'p) client_config =
  cc_endpoints :: "bytes list"
  cc_autoSyncInterval :: int
  cc_dialTimeout :: int
  cc_username :: bytes
  cc_password :: bytes
  cc_rejectOldCluster :: bool
  cc_tls :: "('c, 'p) tls_config option"

definition zero_client_config :: "('c, 'p) client_config" where
  "zero_client_config = \<lparr>cc_endpoints = [], cc_autoSyncInterval = 0, cc_dialTimeout = 0, cc_username = [], cc_password = [],
     cc_rejectOldCluster = False, cc_tls = None\<rparr>"

text \<open>\<open>NewEtcdConfig\<close>: \<open>yc\<close> is what the decoder makes of the file.\<close>

definition new_etcd_config ::
  "(bytes \<Rightarrow> bytes \<Rightarrow> bytes + 'c) \<Rightarrow> (bytes list \<Rightarrow> bytes + 'p) \<Rightarrow> bytes + etcd_config \<Rightarrow> ('c, 'p) client_config \<times> bytes option" where
  "new_etcd_config newCert newCertPool yc =
     (case yc of
        Inl err \<Rightarrow> (zero_client_config, Some (''error parse etcd config: '' @ err))
      | Inr yc \<Rightarrow>
          (let new = \<lparr>cc_endpoints = ec_endpoints yc, cc_autoSyncInterval = ec_autoSyncInterval yc, cc_dialTimeout = ec_dialTimeout yc,
                 cc_username = ec_username yc, cc_password = ec_password yc, cc_rejectOldCluster = ec_rejectOldCluster yc,
                 cc_tls = None\<rparr>
           in if ec_insecureTransport yc = None \<or> ec_insecureTransport yc = Some True then (new, None)
              else
                (case (if ec_certfile yc \<noteq> [] \<and> ec_keyfile yc \<noteq> []
                       then map_sum id Some (newCert (ec_certfile yc) (ec_keyfile yc)) else Inr None) of
                   Inl err \<Rightarrow> (zero_client_config, Some err)
                 | Inr cert \<Rightarrow>
                     (case (if ec_cafile yc \<noteq> [] then map_sum id Some (newCertPool [ec_cafile yc]) else Inr None) of
                        Inl err \<Rightarrow> (zero_client_config, Some err)
                      | Inr cp \<Rightarrow>
                          (let tlscfg = \<lparr>tc_rootCAs = cp, tc_certificates = (case cert of None \<Rightarrow> [] | Some c \<Rightarrow> [c]),
                                 tc_insecureSkipVerify = ec_insecureSkipTLSVerify yc\<rparr>
                           in (new\<lparr>cc_tls := Some tlscfg\<rparr>, None))))))"

text \<open>\<open>NewEtcdConfigFromFile\<close>, the file being what opening and reading it gives.\<close>

definition new_etcd_config_from_file ::
  "(bytes \<Rightarrow> bytes \<Rightarrow> bytes + 'c) \<Rightarrow> (bytes list \<Rightarrow> bytes + 'p) \<Rightarrow> (bytes \<Rightarrow> bytes + etcd_config) \<Rightarrow> bytes + bytes
     \<Rightarrow> ('c, 'p) client_config \<times> bytes option" where
  "new_etcd_config_from_file newCert newCertPool decode file =
     (case file of
        Inl err \<Rightarrow> (zero_client_config, Some err)
      | Inr content \<Rightarrow> new_etcd_config newCert newCertPool (decode content))"

subsection \<open>The client\<close>

text \<open>
  The variables of the package: the configuration, of which the endpoints matter here, and the client; beside them the
  number of clients made, those that are not closed, the endpoints that have a compactor (\<open>compact.go\<close>) and the
  clients whose compactor runs.
\<close>

record provider =
  pv_config :: "bytes list option"
  pv_client :: "nat option"
  pv_made :: nat
  pv_open :: "nat set"
  pv_endpoints :: "bytes set"
  pv_running :: "nat set"

definition new_provider :: provider where
  "new_provider = \<lparr>pv_config = None, pv_client = None, pv_made = 0, pv_open = {}, pv_endpoints = {}, pv_running = {}\<rparr>"

definition is_initialized :: "provider \<Rightarrow> bool" where
  "is_initialized p \<longleftrightarrow> pv_config p \<noteq> None"

definition set_etcd_config :: "bytes list \<Rightarrow> provider \<Rightarrow> provider outcome" where
  "set_etcd_config cfg p = (if pv_config p \<noteq> None then Exits else Returns (p\<lparr>pv_config := Some cfg\<rparr>))"

definition set_etcd_config_file :: "('c, 'p) client_config \<times> bytes option \<Rightarrow> provider \<Rightarrow> provider outcome" where
  "set_etcd_config_file loaded p =
     (case loaded of (cfg, Some err) \<Rightarrow> Exits | (cfg, None) \<Rightarrow> set_etcd_config (cc_endpoints cfg) p)"

text \<open>\<open>newEtcdClient\<close>, where \<open>err\<close> is what making a client gives.\<close>

definition new_etcd_client :: "bytes option \<Rightarrow> bytes list \<Rightarrow> provider \<Rightarrow> provider \<times> (bytes + nat)" where
  "new_etcd_client err cfg p =
     (case err of
        Some err \<Rightarrow> (p, Inl err)
      | None \<Rightarrow>
          (let c = pv_made p; (eps, started) = start_compactor (pv_endpoints p) cfg
           in (p\<lparr>pv_made := pv_made p + 1, pv_open := insert c (pv_open p), pv_endpoints := eps,
                 pv_running := (if started then insert c (pv_running p) else pv_running p)\<rparr>, Inr c)))"

text \<open>
  \<open>Close\<close> of the client and its \<open>destroyFunc\<close>, which ends its compactor, too.  The two calls, and below a new client and the
  assignment of it, are one step each: they follow each other under the lock.
\<close>

definition destroy_client :: "nat \<Rightarrow> provider \<Rightarrow> provider" where
  "destroy_client c p = p\<lparr>pv_open := pv_open p - {c}, pv_running := pv_running p - {c}\<rparr>"

text \<open>\<open>members c\<close> is the answer of \<open>MemberList\<close>: an error or the number of members.\<close>

definition dial_client :: "(nat \<Rightarrow> bytes + nat) \<Rightarrow> nat option \<Rightarrow> bytes option" where
  "dial_client members cli =
     (case cli of
        None \<Rightarrow> Some ''client is nil''
      | Some c \<Rightarrow>
          (case members c of
             Inl err \<Rightarrow> Some err
           | Inr n \<Rightarrow> if n > 0 then None else Some ''dial etcd client, got unexpected value''))"

text \<open>A store: its client, its prefix and whether reads need a quorum.\<close>

record store_instance =
  si_client :: "nat option"
  si_prefix :: bytes
  si_quorumRead :: bool

definition new_store :: "bytes \<Rightarrow> bool \<Rightarrow> nat option \<Rightarrow> store_instance" where
  "new_store prefix quorumRead c = \<lparr>si_client = c, si_prefix = prefix, si_quorumRead = quorumRead\<rparr>"

text \<open>\<open>GetStoreInstance\<close> in a single goroutine: the answers of the first and of the second dial may differ.\<close>

definition make_client :: "bytes option \<Rightarrow> provider \<Rightarrow> provider \<times> (bytes + nat)" where
  "make_client err p =
     (case pv_config p of
        None \<Rightarrow> (p, Inl ''etcd client config is nil'')
      | Some cfg \<Rightarrow>
          (case new_etcd_client err cfg p of
             (p, Inl err) \<Rightarrow> (p, Inl err)
           | (p, Inr cli) \<Rightarrow> (p\<lparr>pv_client := Some cli\<rparr>, Inr cli)))"

definition get_store_instance ::
  "(nat \<Rightarrow> bytes + nat) \<Rightarrow> (nat \<Rightarrow> bytes + nat) \<Rightarrow> bytes option \<Rightarrow> bytes \<Rightarrow> bool \<Rightarrow> provider \<Rightarrow> provider \<times> (bytes + store_instance)" where
  "get_store_instance members1 members2 err prefix quorumRead p =
     (if dial_client members1 (pv_client p) = None then (p, Inr (new_store prefix quorumRead (pv_client p)))
      else
        (case pv_client p of
           Some c \<Rightarrow>
             if dial_client members2 (Some c) = None then (p, Inr (new_store prefix quorumRead (Some c)))
             else
               (case make_client err (destroy_client c p) of
                  (p, res) \<Rightarrow> (p, map_sum id (\<lambda>cli. new_store prefix quorumRead (Some cli)) res))
         | None \<Rightarrow>
             (case make_client err p of
                (p, res) \<Rightarrow> (p, map_sum id (\<lambda>cli. new_store prefix quorumRead (Some cli)) res))))"

subsection \<open>Several goroutines\<close>

text \<open>
  Where a goroutine is: outside, on the quick path after a dial that succeeded, before the lock, or inside, with the old
  client destroyed.  The stores that were given out are kept by their clients, the last first.
\<close>

datatype caller = Outside | Quick | Waiting | Inside

record callers =
  cl_prov :: provider
  cl_callers :: "caller list"
  cl_out :: "nat option list"

definition free :: "callers \<Rightarrow> bool" where
  "free s \<longleftrightarrow> Inside \<notin> set (cl_callers s)"

abbreviation at :: "callers \<Rightarrow> nat \<Rightarrow> caller \<Rightarrow> bool" where
  "at s i c \<equiv> i < length (cl_callers s) \<and> cl_callers s ! i = c"

abbreviation go_to :: "nat \<Rightarrow> caller \<Rightarrow> callers \<Rightarrow> callers" where
  "go_to i c s \<equiv> s\<lparr>cl_callers := (cl_callers s)[i := c]\<rparr>"

inductive sp_step :: "callers \<Rightarrow> callers \<Rightarrow> bool" where
  configure: "set_etcd_config cfg (cl_prov s) = Returns p \<Longrightarrow> sp_step s (s\<lparr>cl_prov := p\<rparr>)"
| call: "sp_step s (s\<lparr>cl_callers := cl_callers s @ [Outside]\<rparr>)"
| quick: "at s i Outside \<Longrightarrow> dial_client members (pv_client (cl_prov s)) = None \<Longrightarrow> sp_step s (go_to i Quick s)"
| quick_return: "at s i Quick \<Longrightarrow> sp_step s (go_to i Outside (s\<lparr>cl_out := pv_client (cl_prov s) # cl_out s\<rparr>))"
| no_answer: "at s i Outside \<Longrightarrow> dial_client members (pv_client (cl_prov s)) \<noteq> None \<Longrightarrow> sp_step s (go_to i Waiting s)"
| answers_now: "at s i Waiting \<Longrightarrow> free s \<Longrightarrow> pv_client (cl_prov s) = Some c \<Longrightarrow> dial_client members (Some c) = None \<Longrightarrow>
    sp_step s (go_to i Outside (s\<lparr>cl_out := Some c # cl_out s\<rparr>))"
| destroy: "at s i Waiting \<Longrightarrow> free s \<Longrightarrow> pv_client (cl_prov s) = Some c \<Longrightarrow> dial_client members (Some c) \<noteq> None \<Longrightarrow>
    sp_step s (go_to i Inside (s\<lparr>cl_prov := destroy_client c (cl_prov s)\<rparr>))"
| no_client: "at s i Waiting \<Longrightarrow> free s \<Longrightarrow> pv_client (cl_prov s) = None \<Longrightarrow> sp_step s (go_to i Inside s)"
| make: "at s i Inside \<Longrightarrow> make_client err (cl_prov s) = (p, res) \<Longrightarrow>
    sp_step s (go_to i Outside (s\<lparr>cl_prov := p, cl_out := (case res of Inl err \<Rightarrow> cl_out s | Inr c \<Rightarrow> Some c # cl_out s)\<rparr>))"

inductive sp_reach :: "callers \<Rightarrow> bool" where
  sp_start: "sp_reach \<lparr>cl_prov = new_provider, cl_callers = [], cl_out = []\<rparr>"
| sp_next: "sp_reach s \<Longrightarrow> sp_step s s' \<Longrightarrow> sp_reach s'"

inductive_cases sp_stepE: "sp_step s s'"

subsection \<open>The invariant\<close>

text \<open>
  What holds of the variables; \<open>busy\<close> says that a goroutine is inside: no client but the one of the variable is
  open, and none while a new one is made; the compactor of the first client runs as long as it is open, and no other
  does if there are endpoints.
\<close>

definition prov_inv :: "bool \<Rightarrow> provider \<Rightarrow> bool" where
  "prov_inv busy p \<longleftrightarrow> pv_open p \<subseteq> set_option (pv_client p) \<and> pv_running p \<subseteq> pv_open p \<and> (busy \<longrightarrow> pv_open p = {})
     \<and> (pv_made p = 0 \<longrightarrow> pv_endpoints p = {} \<and> pv_client p = None)
     \<and> (0 < pv_made p \<longrightarrow> (\<exists>cfg. pv_config p = Some cfg \<and> set cfg \<subseteq> pv_endpoints p))
     \<and> (pv_made p \<le> 1 \<longrightarrow> pv_running p = pv_open p)
     \<and> (\<forall>cfg. 1 < pv_made p \<longrightarrow> pv_config p = Some cfg \<longrightarrow> cfg \<noteq> [] \<longrightarrow> pv_running p = {})"

definition sp_inv :: "callers \<Rightarrow> bool" where
  "sp_inv s \<longleftrightarrow> prov_inv (\<not> free s) (cl_prov s) \<and> count_list (cl_callers s) Inside \<le> 1
     \<and> (Quick \<in> set (cl_callers s) \<longrightarrow> pv_client (cl_prov s) \<noteq> None) \<and> None \<notin> set (cl_out s)"

lemma prov_inv_weaken: "prov_inv True p \<Longrightarrow> prov_inv busy p"
  unfolding prov_inv_def by blast

lemma prov_inv_config: "prov_inv busy p \<Longrightarrow> set_etcd_config cfg p = Returns p' \<Longrightarrow> prov_inv busy p' \<and> pv_client p' = pv_client p"
  by (auto simp: prov_inv_def set_etcd_config_def split: if_splits)

lemma prov_inv_destroy: "prov_inv busy p \<Longrightarrow> pv_client p = Some c \<Longrightarrow> prov_inv True (destroy_client c p)"
  by (auto simp: prov_inv_def destroy_client_def)

lemma prov_inv_make:
  assumes "prov_inv True p" "make_client err p = (p', res)"
  shows "prov_inv False p' \<and> (case res of Inl e \<Rightarrow> pv_client p' = pv_client p | Inr c \<Rightarrow> pv_client p' = Some c)"
proof (cases "pv_config p = None \<or> err \<noteq> None")
  case True
  then have "p' = p" "isl res"
    using assms(2) by (auto simp: make_client_def new_etcd_client_def split: option.splits)
  then show ?thesis using prov_inv_weaken [OF assms(1)] by (auto split: sum.split)
next
  case False
  then obtain cfg where cfg: "pv_config p = Some cfg" "err = None" by auto
  obtain eps started where st: "start_compactor (pv_endpoints p) cfg = (eps, started)" by fastforce
  let ?c = "pv_made p"
  have p': "p' = p\<lparr>pv_made := ?c + 1, pv_open := insert ?c (pv_open p), pv_endpoints := eps,
      pv_running := (if started then insert ?c (pv_running p) else pv_running p), pv_client := Some ?c\<rparr>" "res = Inr ?c"
    using assms(2) cfg st by (auto simp: make_client_def new_etcd_client_def Let_def)
  have o: "pv_open p = {}" "pv_running p = {}" using assms(1) unfolding prov_inv_def by blast+
  have e: "set cfg \<subseteq> eps" "?c = 0 \<longrightarrow> started" "0 < ?c \<longrightarrow> cfg \<noteq> [] \<longrightarrow> \<not> started"
    using st assms(1) cfg(1) by (auto simp: start_compactor_def list_ex_iff prov_inv_def neq_Nil_conv split: if_splits)
  show ?thesis using e o cfg(1) unfolding p' by (auto simp: prov_inv_def)
qed

lemma count_list_update:
  "i < length xs \<Longrightarrow> count_list (xs[i := y]) x + (if xs ! i = x then 1 else 0) = count_list xs x + (if y = x then 1 else 0)"
proof (induction xs arbitrary: i)
  case (Cons a xs)
  show ?case
  proof (cases i)
    case (Suc j)
    then show ?thesis using Cons.IH [of j] Cons.prems by (cases "y = x"; cases "xs ! j = x") auto
  qed simp
qed simp

lemma free_update: "i < length (cl_callers s) \<Longrightarrow> free (go_to i c s) \<longleftrightarrow> c \<noteq> Inside \<and> count_list (cl_callers s) Inside \<le> (if cl_callers s ! i = Inside then 1 else 0)"
proof -
  assume i: "i < length (cl_callers s)"
  have "free (go_to i c s) \<longleftrightarrow> count_list ((cl_callers s)[i := c]) Inside = 0"
    by (simp add: free_def count_list_0_iff)
  moreover have "cl_callers s ! i = Inside \<Longrightarrow> count_list (cl_callers s) Inside \<noteq> 0"
    using i by (metis count_list_0_iff nth_mem)
  ultimately show ?thesis using count_list_update [OF i, of c Inside] by auto
qed

lemma in_update: "x \<in> set (xs[i := y]) \<Longrightarrow> x = y \<or> x \<in> set xs"
  by (metis insert_iff set_update_subset_insert subsetD)

lemma sp_inv_go:
  assumes "sp_inv s" "i < length (cl_callers s)" "prov_inv busy p" "c = Inside \<Longrightarrow> busy \<and> free s"
    "c \<noteq> Inside \<Longrightarrow> \<not> free s \<Longrightarrow> cl_callers s ! i = Inside \<or> busy"
    "Quick \<in> set (cl_callers s) \<or> c = Quick \<Longrightarrow> pv_client p \<noteq> None" "None \<notin> set out"
  shows "sp_inv (go_to i c (s\<lparr>cl_prov := p, cl_out := out\<rparr>))"
proof -
  have f: "free s \<longleftrightarrow> count_list (cl_callers s) Inside = 0" by (simp add: free_def count_list_0_iff)
  let ?s = "s\<lparr>cl_prov := p, cl_out := out\<rparr>"
  have u: "free (go_to i c ?s) \<longleftrightarrow> c \<noteq> Inside \<and> count_list (cl_callers s) Inside \<le> (if cl_callers s ! i = Inside then 1 else 0)"
    using free_update [of i ?s c] assms(2) by simp
  have "prov_inv (\<not> free (go_to i c ?s)) p"
  proof (cases "free (go_to i c ?s)")
    case True
    then show ?thesis using assms(3) by (auto simp: prov_inv_def)
  next
    case False
    then have busy using u f assms(1,4,5) by (auto simp: sp_inv_def split: if_splits)
    then show ?thesis using assms(3) False by simp
  qed
  moreover have "count_list ((cl_callers s)[i := c]) Inside \<le> 1"
    using count_list_update [OF assms(2), of c Inside] assms(1,4) f by (auto simp: sp_inv_def split: if_splits)
  moreover have "Quick \<in> set ((cl_callers s)[i := c]) \<longrightarrow> pv_client p \<noteq> None" using assms(6) by (auto dest: in_update)
  ultimately show ?thesis using assms(7) unfolding sp_inv_def by simp
qed

lemma sp_inv_step:
  assumes "sp_inv s" "sp_step s s'"
  shows "sp_inv s'"
  using assms(2)
proof (cases rule: sp_step.cases)
  case (configure cfg p)
  then show ?thesis using assms(1) prov_inv_config [of _ "cl_prov s" cfg p] by (auto simp: sp_inv_def free_def)
next
  case call
  then show ?thesis using assms(1) by (auto simp: sp_inv_def free_def)
next
  case (quick i members)
  have "pv_client (cl_prov s) \<noteq> None" using quick(3) by (auto simp: dial_client_def split: option.splits)
  then show ?thesis using quick assms(1) sp_inv_go [of s i "\<not> free s" "cl_prov s" Quick "cl_out s"] by (auto simp: sp_inv_def)
next
  case (quick_return i)
  then have "Quick \<in> set (cl_callers s)" by (metis nth_mem)
  then have "pv_client (cl_prov s) \<noteq> None" using assms(1) by (simp add: sp_inv_def)
  then show ?thesis
    using quick_return assms(1) sp_inv_go [of s i "\<not> free s" "cl_prov s" Outside "pv_client (cl_prov s) # cl_out s"]
    by (auto simp: sp_inv_def)
next
  case (no_answer i members)
  then show ?thesis using assms(1) sp_inv_go [of s i "\<not> free s" "cl_prov s" Waiting "cl_out s"] by (auto simp: sp_inv_def)
next
  case (answers_now i c members)
  then show ?thesis using assms(1) sp_inv_go [of s i False "cl_prov s" Outside "Some c # cl_out s"] by (auto simp: sp_inv_def)
next
  case (destroy i c members)
  have "prov_inv True (destroy_client c (cl_prov s))"
    using prov_inv_destroy destroy(4) assms(1) by (auto simp: sp_inv_def)
  then show ?thesis
    using destroy assms(1) sp_inv_go [of s i True "destroy_client c (cl_prov s)" Inside "cl_out s"]
    by (auto simp: sp_inv_def destroy_client_def)
next
  case (no_client i)
  have "prov_inv True (cl_prov s)" using assms(1) no_client(4) by (auto simp: sp_inv_def prov_inv_def)
  then show ?thesis using no_client assms(1) sp_inv_go [of s i True "cl_prov s" Inside "cl_out s"] by (auto simp: sp_inv_def)
next
  case (make i err p res)
  have "\<not> free s" using make(2) by (metis free_def nth_mem)
  then have m: "prov_inv False p \<and> (case res of Inl e \<Rightarrow> pv_client p = pv_client (cl_prov s) | Inr c \<Rightarrow> pv_client p = Some c)"
    using prov_inv_make [OF _ make(3)] assms(1) by (simp add: sp_inv_def)
  then show ?thesis
    using make assms(1) sp_inv_go [of s i False p Outside "case res of Inl err \<Rightarrow> cl_out s | Inr c \<Rightarrow> Some c # cl_out s"]
    by (auto simp: sp_inv_def split: sum.splits)
qed

lemma sp_reach_inv: "sp_reach s \<Longrightarrow> sp_inv s"
proof (induction rule: sp_reach.induct)
  case sp_start
  then show ?case by (simp add: sp_inv_def prov_inv_def new_provider_def free_def)
qed (rule sp_inv_step)

subsection \<open>Properties\<close>

text \<open>
  C8: whatever goroutines ask for stores, no client but the current one is ever open, a compactor runs only for an open
  client, and no store without a client is given out.
\<close>

theorem store_client_single:
  assumes "sp_reach s"
  shows "pv_open (cl_prov s) \<subseteq> set_option (pv_client (cl_prov s)) \<and> pv_running (cl_prov s) \<subseteq> pv_open (cl_prov s)
    \<and> None \<notin> set (cl_out s)"
  using sp_reach_inv [OF assms] by (simp add: sp_inv_def prov_inv_def)

text \<open>
  C11: the compactor that is started with the first client runs exactly as long as that is open, and no other is ever
  started: its endpoints stay marked.  After a reconnection the store is not compacted any more.
\<close>

theorem reconnect_stops_compaction:
  assumes "sp_reach s" "pv_config (cl_prov s) = Some cfg" "cfg \<noteq> []"
  shows "pv_running (cl_prov s) = (if pv_made (cl_prov s) \<le> 1 then pv_open (cl_prov s) else {})"
  using sp_reach_inv [OF assms(1)] assms(2,3) by (auto simp: sp_inv_def prov_inv_def)

text \<open>One goroutine: the first client, and the one after the first has not answered.\<close>

definition first_client :: provider where
  "first_client = \<lparr>pv_config = Some [''etcd:2379''], pv_client = Some 0, pv_made = 1, pv_open = {0}, pv_endpoints = {''etcd:2379''},
     pv_running = {0}\<rparr>"

definition second_client :: provider where
  "second_client = \<lparr>pv_config = Some [''etcd:2379''], pv_client = Some 1, pv_made = 2, pv_open = {1}, pv_endpoints = {''etcd:2379''},
     pv_running = {}\<rparr>"

definition one_caller :: "caller \<Rightarrow> provider \<Rightarrow> nat option list \<Rightarrow> callers" where
  "one_caller c p out = \<lparr>cl_prov = p, cl_callers = [c], cl_out = out\<rparr>"

lemma one_caller_steps:
  "dial_client members (pv_client p) = None \<Longrightarrow> sp_step (one_caller Outside p out) (one_caller Quick p out)"
  "sp_step (one_caller Quick p out) (one_caller Outside p (pv_client p # out))"
  "dial_client members (pv_client p) \<noteq> None \<Longrightarrow> sp_step (one_caller Outside p out) (one_caller Waiting p out)"
  "pv_client p = Some c \<Longrightarrow> dial_client members (Some c) = None \<Longrightarrow>
     sp_step (one_caller Waiting p out) (one_caller Outside p (Some c # out))"
  "pv_client p = Some c \<Longrightarrow> dial_client members (Some c) \<noteq> None \<Longrightarrow>
     sp_step (one_caller Waiting p out) (one_caller Inside (destroy_client c p) out)"
  "pv_client p = None \<Longrightarrow> sp_step (one_caller Waiting p out) (one_caller Inside p out)"
  using sp_step.quick [where s = "one_caller Outside p out" and i = 0 and members = members]
    sp_step.quick_return [where s = "one_caller Quick p out" and i = 0]
    sp_step.no_answer [where s = "one_caller Outside p out" and i = 0 and members = members]
    sp_step.answers_now [where s = "one_caller Waiting p out" and i = 0 and c = c and members = members]
    sp_step.destroy [where s = "one_caller Waiting p out" and i = 0 and c = c and members = members]
    sp_step.no_client [where s = "one_caller Waiting p out" and i = 0]
  by (simp_all add: one_caller_def free_def)

lemma one_caller_make:
  "make_client err p = (p', res) \<Longrightarrow>
     sp_step (one_caller Inside p out) (one_caller Outside p' (case res of Inl e \<Rightarrow> out | Inr c \<Rightarrow> Some c # out))"
  using sp_step.make [where s = "one_caller Inside p out" and i = 0 and err = err and p = p' and res = res]
  by (cases res) (simp_all add: one_caller_def)

lemma two_steps: "sp_step a b \<Longrightarrow> sp_step b c \<Longrightarrow> sp_step\<^sup>*\<^sup>* a c"
  by (meson rtranclp.simps)

text \<open>The result a goroutine is left with when it has made a client.\<close>

definition given :: "bytes + nat \<Rightarrow> nat option list \<Rightarrow> nat option list" where
  "given res out = (case res of Inl e \<Rightarrow> out | Inr c \<Rightarrow> Some c # out)"

lemma waiting_steps:
  "pv_client p = None \<Longrightarrow> make_client err p = (p', res) \<Longrightarrow> sp_step\<^sup>*\<^sup>* (one_caller Waiting p out) (one_caller Outside p' (given res out))"
  "pv_client p = Some c \<Longrightarrow> dial_client members (Some c) \<noteq> None \<Longrightarrow> make_client err (destroy_client c p) = (p', res) \<Longrightarrow>
     sp_step\<^sup>*\<^sup>* (one_caller Waiting p out) (one_caller Outside p' (given res out))"
  unfolding given_def using two_steps [OF one_caller_steps(6) one_caller_make] two_steps [OF one_caller_steps(5) one_caller_make] by blast+

lemma get_store_cases:
  "get_store_instance members1 members2 err prefix quorumRead p =
     (if dial_client members1 (pv_client p) = None then (p, Inr (new_store prefix quorumRead (pv_client p)))
      else if pv_client p \<noteq> None \<and> dial_client members2 (pv_client p) = None then (p, Inr (new_store prefix quorumRead (pv_client p)))
      else (case make_client err (case pv_client p of None \<Rightarrow> p | Some c \<Rightarrow> destroy_client c p) of
              (p, res) \<Rightarrow> (p, map_sum id (\<lambda>cli. new_store prefix quorumRead (Some cli)) res)))"
  by (auto simp: get_store_instance_def split: option.split)

text \<open>\<open>GetStoreInstance\<close> of a single goroutine is a run of its steps, and gives out the client of the store it returns.\<close>

lemma get_store_steps:
  assumes "get_store_instance members1 members2 err prefix quorumRead p = (p', res)"
  shows "sp_step\<^sup>*\<^sup>* (one_caller Outside p out) (one_caller Outside p' (case res of Inl e \<Rightarrow> out | Inr st \<Rightarrow> si_client st # out))"
proof (cases "dial_client members1 (pv_client p) = None")
  case True
  then have "sp_step\<^sup>*\<^sup>* (one_caller Outside p out) (one_caller Outside p (pv_client p # out))"
    by (rule two_steps [OF one_caller_steps(1,2)])
  then show ?thesis using assms True by (auto simp: get_store_cases new_store_def)
next
  case False
  note w = one_caller_steps(3) [OF False, of out]
  have "sp_step\<^sup>*\<^sup>* (one_caller Waiting p out) (one_caller Outside p' (case res of Inl e \<Rightarrow> out | Inr st \<Rightarrow> si_client st # out))"
  proof (cases "pv_client p \<noteq> None \<and> dial_client members2 (pv_client p) = None")
    case True
    then have "p' = p" "res = Inr (new_store prefix quorumRead (pv_client p))" using assms False by (auto simp: get_store_cases)
    then show ?thesis using True one_caller_steps(4) [of p _ members2 out] by (auto simp: new_store_def)
  next
    case slow: False
    let ?q = "case pv_client p of None \<Rightarrow> p | Some c \<Rightarrow> destroy_client c p"
    obtain q' r where m: "make_client err ?q = (q', r)" by fastforce
    then have "p' = q'" "(case res of Inl e \<Rightarrow> out | Inr st \<Rightarrow> si_client st # out) = given r out"
      using assms False slow by (cases r; auto simp: get_store_cases new_store_def given_def)+
    then show ?thesis
      using waiting_steps(1) [of p err q' r out] waiting_steps(2) [of p _ members2 err q' r out] m slow by (cases "pv_client p") auto
  qed
  with w show ?thesis by (rule converse_rtranclp_into_rtranclp)
qed

text \<open>A run of one goroutine that is given a client, finds it silent, and is given another.\<close>

definition silent :: "nat \<Rightarrow> bytes + nat" where "silent c = Inl ''timeout''"

definition configured :: provider where
  "configured = new_provider\<lparr>pv_config := Some [''etcd:2379'']\<rparr>"

lemma sp_reach_steps: "sp_step\<^sup>*\<^sup>* s s' \<Longrightarrow> sp_reach s \<Longrightarrow> sp_reach s'"
  by (induction rule: rtranclp_induct) (auto intro: sp_next)

lemma configured_reach: "sp_reach (one_caller Outside configured [])"
proof -
  let ?s = "\<lparr>cl_prov = new_provider, cl_callers = [], cl_out = []\<rparr>"
  have "sp_step ?s (?s\<lparr>cl_prov := configured\<rparr>)"
    by (rule configure [of "[''etcd:2379'']"]) (simp add: set_etcd_config_def configured_def new_provider_def)
  then have "sp_reach (?s\<lparr>cl_prov := configured\<rparr>)" by (rule sp_next [OF sp_start])
  then show ?thesis using sp_next [OF _ call] by (fastforce simp: one_caller_def)
qed

lemma second_reach: "sp_reach (one_caller Outside second_client [Some 1, Some 0])"
proof -
  have q: "dial_client silent (pv_client p) \<noteq> None" for p by (simp add: dial_client_def silent_def split: option.split)
  have m: "make_client None configured = (first_client, Inr 0)" "make_client None (destroy_client 0 first_client) = (second_client, Inr 1)"
    by (simp_all add: configured_def new_provider_def make_client_def new_etcd_client_def start_compactor_def destroy_client_def
        first_client_def second_client_def)
  have "sp_step\<^sup>*\<^sup>* (one_caller Waiting configured []) (one_caller Outside first_client [Some 0])"
    using waiting_steps(1) [OF _ m(1), of "[]"] by (simp add: configured_def new_provider_def given_def)
  then have "sp_reach (one_caller Outside first_client [Some 0])"
    using sp_reach_steps sp_next [OF configured_reach one_caller_steps(3) [OF q]] by blast
  then have "sp_reach (one_caller Waiting first_client [Some 0])" by (rule sp_next [OF _ one_caller_steps(3) [OF q]])
  moreover have "sp_step\<^sup>*\<^sup>* (one_caller Waiting first_client [Some 0]) (one_caller Outside second_client [Some 1, Some 0])"
    using waiting_steps(2) [OF _ _ m(2), of silent "[Some 0]"] by (simp add: first_client_def given_def dial_client_def silent_def)
  ultimately show ?thesis using sp_reach_steps by blast
qed

theorem reconnect_stops_compaction_witness:
  "sp_reach (one_caller Outside second_client [Some 1, Some 0]) \<and> pv_running second_client = {}"
  using reconnect_stops_compaction [OF second_reach, of "[''etcd:2379'']"] second_reach
  by (simp add: one_caller_def second_client_def)

theorem store_client_single_witness: "pv_open second_client \<subseteq> {1}"
  using store_client_single [OF second_reach] by (simp add: one_caller_def second_client_def)

text \<open>A store may be given out whose client another goroutine has closed since it answered.\<close>

lemma closed_client_given:
  "\<exists>s s'. sp_reach s \<and> sp_step s s' \<and> cl_out s' = Some 0 # cl_out s \<and> 0 \<notin> pv_open (cl_prov s')"
proof -
  let ?d = "destroy_client 0 first_client"
  let ?s = "\<lambda>p cs. \<lparr>cl_prov = p, cl_callers = cs, cl_out = [Some 0]\<rparr>"
  have q: "dial_client silent x \<noteq> None" "dial_client (\<lambda>c. Inr 3) (Some 0) = None" for x
    by (simp_all add: dial_client_def silent_def split: option.split)
  have c: "pv_client first_client = Some 0" "pv_client ?d = Some 0" "0 \<notin> pv_open ?d"
    by (simp_all add: first_client_def destroy_client_def)
  have m: "make_client None configured = (first_client, Inr 0)"
    by (simp add: configured_def new_provider_def make_client_def new_etcd_client_def start_compactor_def first_client_def)
  have "sp_step\<^sup>*\<^sup>* (one_caller Waiting configured []) (one_caller Outside first_client [Some 0])"
    using waiting_steps(1) [OF _ m, of "[]"] by (simp add: configured_def new_provider_def given_def)
  then have "sp_reach (?s first_client [Outside])"
    using sp_reach_steps sp_next [OF configured_reach one_caller_steps(3) [OF q(1)]] by (auto simp: one_caller_def)
  moreover have "sp_step (?s first_client [Outside]) (?s first_client [Outside, Outside])"
    using call [where s = "?s first_client [Outside]"] by simp
  moreover have "sp_step (?s first_client [Outside, Outside]) (?s first_client [Quick, Outside])"
    using quick [where s = "?s first_client [Outside, Outside]" and i = 0 and members = "\<lambda>c. Inr 3"] q(2) c(1) by simp
  moreover have "sp_step (?s first_client [Quick, Outside]) (?s first_client [Quick, Waiting])"
    using no_answer [where s = "?s first_client [Quick, Outside]" and i = 1 and members = silent] q(1) by simp
  moreover have "sp_step (?s first_client [Quick, Waiting]) (?s ?d [Quick, Inside])"
    using destroy [where s = "?s first_client [Quick, Waiting]" and i = 1 and members = silent] q(1) c(1) by (simp add: free_def)
  ultimately have "sp_reach (?s ?d [Quick, Inside])" by (meson sp_next)
  moreover have "sp_step (?s ?d [Quick, Inside]) (?s ?d [Quick, Inside]\<lparr>cl_callers := [Outside, Inside], cl_out := [Some 0, Some 0]\<rparr>)"
    using quick_return [where s = "?s ?d [Quick, Inside]" and i = 0] c(2) by simp
  ultimately show ?thesis using c(3) by (intro exI conjI) auto
qed

end
