(* ===== verification/Influx_Http.thy ===== *)
theory Influx_Http
  imports GoText "HOL-Library.Multiset"
begin

text \<open>
  The client of InfluxDB over HTTP (\<open>report/influx/http.go\<close>, \<open>report/influx/client.go\<close>) and its set-up
  (\<open>Connect\<close> of \<open>report/client.go\<close>).

  The network is a parameter: whether a request can be made of a URL and what the server answers.  A URL is the
  structure \<open>url.Parse\<close> gives, of which the program changes the path and the query.
\<close>

subsection \<open>URLs\<close>

record url =
  u_scheme :: bytes
  u_opaque :: bytes
  u_user :: "bytes option"
  u_host :: bytes
  u_path :: bytes
  u_rawQuery :: bytes
  u_fragment :: bytes

text \<open>\<open>URL.String\<close>, for a path, a user and a fragment that need no escaping.\<close>

definition url_string :: "url \<Rightarrow> bytes" where
  "url_string u =
     (if u_scheme u \<noteq> [] then u_scheme u @ '':'' else [])
     @ (if u_opaque u \<noteq> [] then u_opaque u
        else (if u_scheme u \<noteq> [] \<or> u_host u \<noteq> [] \<or> u_user u \<noteq> None
              then ''//'' @ (case u_user u of None \<Rightarrow> [] | Some ui \<Rightarrow> ui @ ''@'') @ u_host u else [])
             @ (if u_path u \<noteq> [] \<and> hd (u_path u) \<noteq> CHR ''/'' \<and> u_host u \<noteq> [] then ''/'' else []) @ u_path u)
     @ (if u_rawQuery u \<noteq> [] then ''?'' @ u_rawQuery u else [])
     @ (if u_fragment u \<noteq> [] then ''#'' @ u_fragment u else [])"

text \<open>\<open>url.QueryEscape\<close> and \<open>Values.Encode\<close>, which sorts the parameters by their names.\<close>

definition unreserved :: "char \<Rightarrow> bool" where
  "unreserved c \<longleftrightarrow> is_digit c \<or> (let n = of_char c :: nat in 65 \<le> n \<and> n \<le> 90 \<or> 97 \<le> n \<and> n \<le> 122) \<or> c \<in> set ''-_.~''"

definition escape_char :: "char \<Rightarrow> bytes" where
  "escape_char c = (if unreserved c then [c] else if c = CHR '' '' then ''+'' else CHR ''%'' # hex_byte c)"

definition query_escape :: "bytes \<Rightarrow> bytes" where
  "query_escape s = concat (map escape_char s)"

fun bytes_less :: "bytes \<Rightarrow> bytes \<Rightarrow> bool" where
  "bytes_less s [] = False"
| "bytes_less [] (c # t) = True"
| "bytes_less (c # s) (d # t) = ((of_char c :: nat) < of_char d \<or> c = d \<and> bytes_less s t)"

fun insert_param :: "bytes \<times> bytes \<Rightarrow> (bytes \<times> bytes) list \<Rightarrow> (bytes \<times> bytes) list" where
  "insert_param p [] = [p]"
| "insert_param p (q # ps) = (if bytes_less (fst q) (fst p) then q # insert_param p ps else p # q # ps)"

definition sort_params :: "(bytes \<times> bytes) list \<Rightarrow> (bytes \<times> bytes) list" where
  "sort_params ps = foldr insert_param ps []"

definition encode_params :: "(bytes \<times> bytes) list \<Rightarrow> bytes" where
  "encode_params ps = join ''&'' (map (\<lambda>(k, v). query_escape k @ ''='' @ query_escape v) (sort_params ps))"

record write_params =
  wp_database :: bytes
  wp_retentionPolicy :: bytes
  wp_precision :: bytes
  wp_consistency :: bytes

definition params_of :: "write_params \<Rightarrow> (bytes \<times> bytes) list" where
  "params_of wp =
     [(''db'', wp_database wp)]
     @ (if wp_retentionPolicy wp \<noteq> [] then [(''rp'', wp_retentionPolicy wp)] else [])
     @ (if wp_precision wp \<noteq> ''n'' \<and> wp_precision wp \<noteq> [] then [(''precision'', wp_precision wp)] else [])
     @ (if wp_consistency wp \<noteq> ''one'' \<and> wp_consistency wp \<noteq> [] then [(''consistency'', wp_consistency wp)] else [])"

text \<open>Both change the URL they are given a pointer to.\<close>

definition write_url :: "url \<Rightarrow> write_params \<Rightarrow> url \<times> bytes" where
  "write_url u wp =
     (let u = u\<lparr>u_rawQuery := encode_params (params_of wp), u_path := ''write''\<rparr> in (u, url_string u))"

definition query_url :: "url \<Rightarrow> bytes \<Rightarrow> url \<times> bytes" where
  "query_url u command =
     (let u = u\<lparr>u_rawQuery := encode_params [(''q'', command)], u_path := ''query''\<rparr> in (u, url_string u))"

subsection \<open>The client\<close>

record 't http_config =
  hc_URL :: bytes
  hc_userAgent :: bytes
  hc_timeout :: int
  hc_username :: bytes
  hc_password :: bytes
  hc_tls :: "'t option"
  hc_proxy :: bytes

record 't http_client =
  cl_writeURL :: bytes
  cl_config :: "'t http_config"
  cl_url :: url
  cl_timeout :: int
  cl_proxy :: "url option"

datatype influx_error =
  UrlRequired | DatabaseRequired | BadUrl bytes | BadScheme bytes | BadProxy bytes | BadRequest bytes | RequestFailed bytes
| BodyUnread bytes | NotJson nat bytes | ResponseError nat nat bytes | ClientFailed bytes influx_error | TlsFailed bytes

definition default_request_timeout :: int where "default_request_timeout = 5000000000"

definition new_http :: "(bytes \<Rightarrow> bytes + url) \<Rightarrow> 't http_config \<Rightarrow> write_params \<Rightarrow> influx_error + 't http_client" where
  "new_http parse config wp =
     (if hc_URL config = [] then Inl UrlRequired
      else if wp_database wp = [] then Inl DatabaseRequired
      else
        (let config = (if hc_timeout config = 0 then config\<lparr>hc_timeout := default_request_timeout\<rparr> else config) in
         case parse (hc_URL config) of
           Inl err \<Rightarrow> Inl (BadUrl err)
         | Inr u \<Rightarrow>
             if u_scheme u \<noteq> ''http'' \<and> u_scheme u \<noteq> ''https'' then Inl (BadScheme (u_scheme u))
             else
               (case (if hc_proxy config \<noteq> [] then map_sum id Some (parse (hc_proxy config)) else Inr None) of
                  Inl err \<Rightarrow> Inl (BadProxy err)
                | Inr proxy \<Rightarrow>
                    (let (u, w) = write_url u wp
                     in Inr \<lparr>cl_writeURL = w, cl_config = config, cl_url = u, cl_timeout = hc_timeout config, cl_proxy = proxy\<rparr>))))"

record 'b http_request =
  hq_url :: bytes
  hq_headers :: "(bytes \<times> bytes) list"
  hq_auth :: "(bytes \<times> bytes) option"
  hq_body :: 'b

text \<open>\<open>bad\<close> is the error of \<open>http.NewRequest\<close> for a URL.\<close>

definition make_request :: "(bytes \<Rightarrow> bytes option) \<Rightarrow> 't http_client \<Rightarrow> bytes \<Rightarrow> 'b \<Rightarrow> influx_error + 'b http_request" where
  "make_request bad c uri body =
     (case bad uri of
        Some err \<Rightarrow> Inl (BadRequest err)
      | None \<Rightarrow>
          Inr \<lparr>hq_url = uri, hq_headers = [(''Content-Type'', ''text/plain''), (''User-Agent'', hc_userAgent (cl_config c))],
               hq_auth = (if hc_username (cl_config c) \<noteq> [] \<and> hc_password (cl_config c) \<noteq> []
                          then Some (hc_username (cl_config c), hc_password (cl_config c)) else None),
               hq_body = body\<rparr>)"

definition make_write_request ::
  "(bytes \<Rightarrow> bytes option) \<Rightarrow> 't http_client \<Rightarrow> 'b \<Rightarrow> int \<Rightarrow> bytes \<Rightarrow> influx_error + 'b http_request" where
  "make_write_request bad c body contentLength writeURL =
     (case make_request bad c writeURL body of
        Inl err \<Rightarrow> Inl err
      | Inr req \<Rightarrow> Inr (req\<lparr>hq_headers := hq_headers req @ [(''Content-Length'', int_str contentLength)]\<rparr>))"

text \<open>
  The answer to a request: an error, or its status and what reading the body gives; \<open>dec\<close> is what \<open>json.Unmarshal\<close>
  makes of a body, the member \<open>error\<close> as far as it was read and the error.
\<close>

type_synonym answer = "bytes + nat \<times> (bytes + bytes)"

definition do_request :: "(bytes \<Rightarrow> bytes \<times> bytes option) \<Rightarrow> answer \<Rightarrow> nat \<Rightarrow> influx_error option" where
  "do_request dec resp expectedCode =
     (case resp of
        Inl err \<Rightarrow> Some (RequestFailed err)
      | Inr (code, body) \<Rightarrow>
          if code = 204 then None
          else
            (case body of
               Inl err \<Rightarrow> Some (BodyUnread err)
             | Inr b \<Rightarrow>
                 (case dec b of
                    (respErr, decErr) \<Rightarrow>
                      (let err = map_option (NotJson code) decErr
                       in if code \<noteq> expectedCode \<or> respErr \<noteq> [] then Some (ResponseError code expectedCode respErr) else err))))"

text \<open>The network: requests that cannot be made, the answer to each, and the decoding of bodies.\<close>

record 'b network =
  nw_bad :: "bytes \<Rightarrow> bytes option"
  nw_answer :: "'b http_request \<Rightarrow> answer"
  nw_decode :: "bytes \<Rightarrow> bytes \<times> bytes option"

definition send_write :: "'b network \<Rightarrow> influx_error + 'b http_request \<Rightarrow> int \<Rightarrow> int \<times> influx_error option" where
  "send_write nw req n =
     (case req of
        Inl err \<Rightarrow> (0, None)
      | Inr req \<Rightarrow> (case do_request (nw_decode nw) (nw_answer nw req) 204 of None \<Rightarrow> (n, None) | Some err \<Rightarrow> (0, Some err)))"

definition client_query :: "bytes network \<Rightarrow> 't http_client \<Rightarrow> bytes \<Rightarrow> 't http_client \<times> influx_error option" where
  "client_query nw c command =
     (let (u, uri) = query_url (cl_url c) command; c = c\<lparr>cl_url := u\<rparr>
      in case make_request (nw_bad nw) c uri [] of
           Inl err \<Rightarrow> (c, Some err)
         | Inr req \<Rightarrow> (c, do_request (nw_decode nw) (nw_answer nw req) 200))"

definition client_write :: "bytes network \<Rightarrow> 't http_client \<Rightarrow> bytes \<Rightarrow> int \<times> influx_error option" where
  "client_write nw c b = send_write nw (make_write_request (nw_bad nw) c b (int (length b)) (cl_writeURL c)) (int (length b))"

definition client_write_with_params ::
  "bytes network \<Rightarrow> 't http_client \<Rightarrow> bytes \<Rightarrow> write_params \<Rightarrow> 't http_client \<times> int \<times> influx_error option" where
  "client_write_with_params nw c b wp =
     (let (u, uri) = write_url (cl_url c) wp; c = c\<lparr>cl_url := u\<rparr>
      in (c, send_write nw (make_write_request (nw_bad nw) c b (int (length b)) uri) (int (length b))))"

text \<open>A stream is its reader; the length is the one the caller gives.\<close>

definition client_write_stream :: "'b network \<Rightarrow> 't http_client \<Rightarrow> 'b \<Rightarrow> int \<Rightarrow> int \<times> influx_error option" where
  "client_write_stream nw c r contentLength =
     send_write nw (make_write_request (nw_bad nw) c r contentLength (cl_writeURL c)) contentLength"

definition client_write_stream_with_params ::
  "'b network \<Rightarrow> 't http_client \<Rightarrow> 'b \<Rightarrow> int \<Rightarrow> write_params \<Rightarrow> 't http_client \<times> int \<times> influx_error option" where
  "client_write_stream_with_params nw c r contentLength wp =
     (let (u, uri) = write_url (cl_url c) wp; c = c\<lparr>cl_url := u\<rparr>
      in (c, send_write nw (make_write_request (nw_bad nw) c r contentLength uri) contentLength))"

definition client_close :: "'t http_client \<Rightarrow> influx_error option" where
  "client_close c = None"

subsection \<open>Connecting\<close>

text \<open>\<open>qiReplacer\<close> and the command that is sent to each server.\<close>

definition qi_replacer :: "(bytes \<times> bytes) list" where
  "qi_replacer = [([newline], [backslash, CHR ''n'']), ([backslash], [backslash, backslash]), ([dquote], [backslash, dquote])]"

definition create_database :: "bytes \<Rightarrow> bytes" where
  "create_database database = ''CREATE DATABASE '' @ dquote # replace_all qi_replacer database @ [dquote]"

record ('c, 'p) influx_tls =
  it_insecureSkipVerify :: bool
  it_rootCAs :: "'p option"
  it_certificates :: "'c list"

definition get_tls_config ::
  "(bytes \<Rightarrow> bytes + 'p) \<Rightarrow> (bytes \<Rightarrow> bytes \<Rightarrow> bytes + 'c) \<Rightarrow> bytes \<Rightarrow> bytes \<Rightarrow> bytes \<Rightarrow> bool
     \<Rightarrow> influx_error + ('c, 'p) influx_tls option" where
  "get_tls_config readCA loadPair cert key ca insecureSkipVerify =
     (if cert = [] \<and> key = [] \<and> ca = [] \<and> \<not> insecureSkipVerify then Inr None
      else
        (case (if ca \<noteq> [] then map_sum id Some (readCA ca) else Inr None) of
           Inl err \<Rightarrow> Inl (TlsFailed err)
         | Inr pool \<Rightarrow>
             (case (if cert \<noteq> [] \<and> key \<noteq> [] then map_sum id (\<lambda>c. [c]) (loadPair cert key) else Inr []) of
                Inl err \<Rightarrow> Inl (TlsFailed err)
              | Inr certs \<Rightarrow>
                  Inr (Some \<lparr>it_insecureSkipVerify = insecureSkipVerify, it_rootCAs = pool, it_certificates = certs\<rparr>))))"

record ('c, 'p) influx_db =
  ix_urls :: "bytes list"
  ix_username :: bytes
  ix_password :: bytes
  ix_database :: bytes
  ix_userAgent :: bytes
  ix_retentionPolicy :: bytes
  ix_writeConsistency :: bytes
  ix_timeout :: int
  ix_proxy :: bytes
  ix_sslCA :: bytes
  ix_sslCert :: bytes
  ix_sslKey :: bytes
  ix_insecureSkipVerify :: bool
  ix_clients :: "('c, 'p) influx_tls http_client list"

text \<open>The loop over the URLs: an error of the query is only logged, one of a client ends it.\<close>

fun connect_loop ::
  "bytes network \<Rightarrow> (bytes \<Rightarrow> bytes + url) \<Rightarrow> ('c, 'p) influx_tls option \<Rightarrow> bytes list \<Rightarrow> ('c, 'p) influx_db
     \<Rightarrow> ('c, 'p) influx_db \<times> influx_error option" where
  "connect_loop nw parse tls [] i = (i, None)"
| "connect_loop nw parse tls (u # urls) i =
     (let config = \<lparr>hc_URL = u, hc_userAgent = ix_userAgent i, hc_timeout = ix_timeout i, hc_username = ix_username i,
            hc_password = ix_password i, hc_tls = tls, hc_proxy = ix_proxy i\<rparr>;
          wp = \<lparr>wp_database = ix_database i, wp_retentionPolicy = ix_retentionPolicy i, wp_precision = [],
            wp_consistency = ix_writeConsistency i\<rparr>
      in case new_http parse config wp of
           Inl err \<Rightarrow> (i, Some (ClientFailed u err))
         | Inr c \<Rightarrow>
             (case client_query nw c (create_database (ix_database i)) of
                (c, err) \<Rightarrow> connect_loop nw parse tls urls (i\<lparr>ix_clients := ix_clients i @ [c]\<rparr>)))"

definition connect ::
  "bytes network \<Rightarrow> (bytes \<Rightarrow> bytes + url) \<Rightarrow> (bytes \<Rightarrow> bytes + 'p) \<Rightarrow> (bytes \<Rightarrow> bytes \<Rightarrow> bytes + 'c) \<Rightarrow> ('c, 'p) influx_db
     \<Rightarrow> ('c, 'p) influx_db \<times> influx_error option" where
  "connect nw parse readCA loadPair i =
     (case get_tls_config readCA loadPair (ix_sslCert i) (ix_sslKey i) (ix_sslCA i) (ix_insecureSkipVerify i) of
        Inl err \<Rightarrow> (i, Some err)
      | Inr tls \<Rightarrow> connect_loop nw parse tls (ix_urls i) i)"

subsection \<open>What a server reads\<close>

text \<open>\<open>url.ParseQuery\<close> and a quoted identifier of InfluxQL, after the first quote: its value and the rest of the text.\<close>

fun query_unescape :: "bytes \<Rightarrow> bytes option" where
  "query_unescape [] = Some []"
| "query_unescape (c # s) =
     (if c = CHR ''%'' then
        (case s of
           a # b # r \<Rightarrow>
             (case (hex_val a, hex_val b) of
                (Some x, Some y) \<Rightarrow> map_option (Cons (char_of (16 * x + y))) (query_unescape r)
              | _ \<Rightarrow> None)
         | _ \<Rightarrow> None)
      else map_option (Cons (if c = CHR ''+'' then CHR '' '' else c)) (query_unescape s))"

definition parse_param :: "bytes \<Rightarrow> (bytes \<times> bytes) option" where
  "parse_param p =
     (case split2 CHR ''='' p of
        [k, v] \<Rightarrow> (case (query_unescape k, query_unescape v) of (Some k, Some v) \<Rightarrow> Some (k, v) | _ \<Rightarrow> None)
      | _ \<Rightarrow> None)"

definition parse_query :: "bytes \<Rightarrow> (bytes \<times> bytes) list option" where
  "parse_query s = those (map parse_param (split_byte CHR ''&'' s))"

fun read_identifier :: "bytes \<Rightarrow> (bytes \<times> bytes) option" where
  "read_identifier [] = None"
| "read_identifier (c # s) =
     (if c = dquote then Some ([], s)
      else if c = newline then None
      else if c = backslash then
        (case s of
           [] \<Rightarrow> None
         | d # r \<Rightarrow>
             if d = CHR ''n'' then map_option (apfst (Cons newline)) (read_identifier r)
             else if d = backslash \<or> d = dquote then map_option (apfst (Cons d)) (read_identifier r)
             else None)
      else map_option (apfst (Cons c)) (read_identifier s))"

subsection \<open>Lemmas\<close>

lemma unescape_hex:
  "x < 16 \<Longrightarrow> y < 16 \<Longrightarrow>
     query_unescape (CHR ''%'' # hex_char x # hex_char y # t) = map_option (Cons (char_of (16 * x + y))) (query_unescape t)"
  by simp

lemma unreserved_plain: "unreserved c \<Longrightarrow> c \<noteq> CHR ''%'' \<and> c \<noteq> CHR ''+'' \<and> c \<noteq> CHR ''&'' \<and> c \<noteq> CHR ''=''"
  by (auto simp: unreserved_def is_digit_def)

lemma high_digit: "of_char (c :: char) div 16 < (16 :: nat)"
  using nat_of_char_less_256 [of c] by (simp add: less_mult_imp_div_less)

lemma unescape_char: "query_unescape (escape_char c @ t) = map_option (Cons c) (query_unescape t)"
proof -
  have "char_of (16 * (of_char c div 16) + of_char c mod (16 :: nat)) = c" by simp
  then have "query_unescape (CHR ''%'' # hex_byte c @ t) = map_option (Cons c) (query_unescape t)"
    using unescape_hex [OF high_digit [of c], of "of_char c mod 16" t] by (simp add: hex_byte_def del: query_unescape.simps)
  then show ?thesis
    using unreserved_plain [of c] by (cases "unreserved c") (auto simp: escape_char_def simp del: query_unescape.simps(2)
      intro: trans [OF query_unescape.simps(2)])
qed

lemma unescape_escape: "query_unescape (query_escape s) = Some s"
  by (induction s) (simp_all add: query_escape_def unescape_char)

lemma hex_char_plain: "d < 16 \<Longrightarrow> hex_char d \<noteq> CHR ''&'' \<and> hex_char d \<noteq> CHR ''=''"
proof -
  assume "d < 16"
  then have "hex_val (hex_char d) = Some d" by simp
  moreover have "hex_val CHR ''&'' = None" "hex_val CHR ''='' = None" by (simp_all add: hex_val_def)
  ultimately show ?thesis by auto
qed

lemma escape_safe: "CHR ''&'' \<notin> set (query_escape s) \<and> CHR ''='' \<notin> set (query_escape s)"
proof -
  have "CHR ''&'' \<notin> set (escape_char c) \<and> CHR ''='' \<notin> set (escape_char c)" for c
    using hex_char_plain [OF high_digit [of c]] hex_char_plain [of "of_char c mod 16"] unreserved_plain [of c]
    by (auto simp: escape_char_def hex_byte_def)
  then show ?thesis by (auto simp: query_escape_def)
qed

lemma mset_insert_param: "mset (insert_param p ps) = add_mset p (mset ps)"
  by (induction ps) auto

lemma mset_sort_params: "mset (sort_params ps) = mset ps"
  by (induction ps) (simp_all add: sort_params_def mset_insert_param)

lemma parse_encoded: "ps \<noteq> [] \<Longrightarrow> parse_query (encode_params ps) = Some (sort_params ps)"
proof -
  assume ne: "ps \<noteq> []"
  let ?t = "\<lambda>(k, v). query_escape k @ ''='' @ query_escape v"
  have "sort_params ps \<noteq> []" using ne mset_sort_params [of ps] by auto
  then have "split_byte CHR ''&'' (encode_params ps) = map ?t (sort_params ps)"
    unfolding encode_params_def using escape_safe by (intro split_join) auto
  moreover have "parse_param (?t p) = Some p" for p
    using escape_safe by (cases p) (simp add: parse_param_def unescape_escape)
  then have "those (map parse_param (map ?t qs)) = Some qs" for qs by (induction qs) auto
  ultimately show ?thesis by (simp only: parse_query_def)
qed

lemma qi_char: "replace_all qi_replacer (c # s) =
    (if c = newline then [backslash, CHR ''n''] else if c = backslash \<or> c = dquote then [backslash, c] else [c]) @ replace_all qi_replacer s"
  by (simp add: qi_replacer_def)

lemma read_quoted: "read_identifier (replace_all qi_replacer s @ dquote # rest) = Some (s, rest)"
  by (induction s) (auto simp: qi_char simp del: replace_all.simps(2))

lemma params_ne [simp]: "params_of wp \<noteq> []"
  by (simp add: params_of_def)

lemma write_query_read: "parse_query (u_rawQuery (fst (write_url u wp))) = Some (sort_params (params_of wp))"
  by (simp add: write_url_def Let_def parse_encoded)

lemma query_command_read: "parse_query (u_rawQuery (fst (query_url u command))) = Some [(''q'', command)]"
  by (simp add: query_url_def Let_def parse_encoded sort_params_def)

text \<open>The functions overwrite what the one before left in the shared URL.\<close>

lemma urls_independent:
  "write_url (fst (query_url u command)) wp = write_url u wp"
  "query_url (fst (write_url u wp)) command = query_url u command"
  by (simp_all add: write_url_def query_url_def Let_def)

lemma send_write_nil:
  "send_write nw req n = (k, None) \<longleftrightarrow>
     (case req of Inl err \<Rightarrow> k = 0 | Inr rq \<Rightarrow> (\<exists>body. nw_answer nw rq = Inr (204, body)) \<and> k = n)"
  by (auto simp: send_write_def do_request_def Let_def split: sum.splits option.splits prod.splits if_splits)

lemma do_request_nil:
  "do_request dec resp 200 = None \<longleftrightarrow>
     (\<exists>code body. resp = Inr (code, body) \<and> (code = 204 \<or> code = 200 \<and> (\<exists>b. body = Inr b \<and> dec b = ([], None))))"
  by (auto simp: do_request_def Let_def split: sum.splits prod.splits if_splits)

text \<open>The request of a write, for a URL that can be requested.\<close>

definition write_request :: "'t http_client \<Rightarrow> 'b \<Rightarrow> int \<Rightarrow> bytes \<Rightarrow> 'b http_request" where
  "write_request c body n uri =
     \<lparr>hq_url = uri,
      hq_headers = [(''Content-Type'', ''text/plain''), (''User-Agent'', hc_userAgent (cl_config c)), (''Content-Length'', int_str n)],
      hq_auth = (if hc_username (cl_config c) \<noteq> [] \<and> hc_password (cl_config c) \<noteq> []
                 then Some (hc_username (cl_config c), hc_password (cl_config c)) else None),
      hq_body = body\<rparr>"

lemma make_write_request_cases:
  "make_write_request bad c body n uri = (case bad uri of Some err \<Rightarrow> Inl (BadRequest err) | None \<Rightarrow> Inr (write_request c body n uri))"
  by (simp add: make_write_request_def make_request_def write_request_def split: option.split)

lemma stream_nil:
  "client_write_stream nw c r n = (k, None) \<longleftrightarrow>
     (if nw_bad nw (cl_writeURL c) \<noteq> None then k = 0
      else (\<exists>body. nw_answer nw (write_request c r n (cl_writeURL c)) = Inr (204, body)) \<and> k = n)"
  by (auto simp: client_write_stream_def make_write_request_cases send_write_nil split: option.splits)

lemma write_is_stream: "client_write nw c b = client_write_stream nw c b (int (length b))"
  by (simp add: client_write_def client_write_stream_def)

lemma with_params_is_stream:
  "snd (client_write_stream_with_params nw c r n wp) = client_write_stream nw (c\<lparr>cl_writeURL := snd (write_url (cl_url c) wp)\<rparr>) r n"
  by (simp add: client_write_stream_with_params_def client_write_stream_def make_write_request_cases write_request_def write_url_def
      Let_def split: option.split)

lemma stream_error_no_byte: "snd (client_write_stream nw c r n) \<noteq> None \<longrightarrow> fst (client_write_stream nw c r n) = 0"
  by (simp add: client_write_stream_def send_write_def split: sum.split option.split)

lemma query_nil:
  "snd (client_query bw c command) = None \<longleftrightarrow>
     (case make_request (nw_bad bw) c (snd (query_url (cl_url c) command)) [] of
        Inl err \<Rightarrow> False
      | Inr req \<Rightarrow> (\<exists>code body. nw_answer bw req = Inr (code, body)
          \<and> (code = 204 \<or> code = 200 \<and> (\<exists>t. body = Inr t \<and> nw_decode bw t = ([], None)))))"
proof -
  have "make_request (nw_bad bw) (c\<lparr>cl_url := u\<rparr>) uri b = make_request (nw_bad bw) c uri b" for u uri and b :: bytes
    by (simp add: make_request_def split: option.split)
  then show ?thesis by (simp add: client_query_def Let_def do_request_nil split: prod.split sum.split)
qed

text \<open>What a URL of the configuration has to be for a client to be made of it.\<close>

definition usable_url :: "(bytes \<Rightarrow> bytes + url) \<Rightarrow> ('c, 'p) influx_db \<Rightarrow> bytes \<Rightarrow> bool" where
  "usable_url parse i u \<longleftrightarrow> u \<noteq> [] \<and> ix_database i \<noteq> []
     \<and> (case parse u of Inl e \<Rightarrow> False | Inr p \<Rightarrow> u_scheme p \<in> {''http'', ''https''})
     \<and> (ix_proxy i = [] \<or> \<not> isl (parse (ix_proxy i)))"

text \<open>
  The client of a URL: it posts to the path \<open>write\<close> of the server with a query from which the server reads the database,
  the policy and the consistency of the configuration (the last two if they say something) and nothing else, and it has
  the credentials, the certificates, the proxy and the timeout of the configuration.
\<close>

definition client_of ::
  "(bytes \<Rightarrow> bytes + url) \<Rightarrow> ('c, 'p) influx_db \<Rightarrow> ('c, 'p) influx_tls option \<Rightarrow> bytes \<Rightarrow> ('c, 'p) influx_tls http_client \<Rightarrow> bool" where
  "client_of parse i tls u c \<longleftrightarrow>
     (\<exists>p q ps. parse u = Inr p \<and> cl_writeURL c = url_string (p\<lparr>u_rawQuery := q, u_path := ''write''\<rparr>)
        \<and> parse_query q = Some ps \<and> distinct (map fst ps)
        \<and> map_of ps ''db'' = Some (ix_database i)
        \<and> map_of ps ''rp'' = (if ix_retentionPolicy i = [] then None else Some (ix_retentionPolicy i))
        \<and> map_of ps ''consistency'' = (if ix_writeConsistency i \<in> {[], ''one''} then None else Some (ix_writeConsistency i))
        \<and> fst ` set ps \<subseteq> {''db'', ''rp'', ''consistency''})
     \<and> hc_userAgent (cl_config c) = ix_userAgent i \<and> hc_username (cl_config c) = ix_username i
     \<and> hc_password (cl_config c) = ix_password i \<and> hc_tls (cl_config c) = tls
     \<and> (if ix_proxy i = [] then cl_proxy c = None else map_sum id Some (parse (ix_proxy i)) = Inr (cl_proxy c))
     \<and> cl_timeout c = (if ix_timeout i = 0 then default_request_timeout else ix_timeout i)"

abbreviation config_for :: "('c, 'p) influx_db \<Rightarrow> ('c, 'p) influx_tls option \<Rightarrow> bytes \<Rightarrow> ('c, 'p) influx_tls http_config" where
  "config_for i tls u \<equiv> \<lparr>hc_URL = u, hc_userAgent = ix_userAgent i, hc_timeout = ix_timeout i, hc_username = ix_username i,
     hc_password = ix_password i, hc_tls = tls, hc_proxy = ix_proxy i\<rparr>"

abbreviation params_for :: "('c, 'p) influx_db \<Rightarrow> write_params" where
  "params_for i \<equiv> \<lparr>wp_database = ix_database i, wp_retentionPolicy = ix_retentionPolicy i, wp_precision = [],
     wp_consistency = ix_writeConsistency i\<rparr>"

lemma new_http_usable:
  "(\<exists>c. new_http parse (config_for i tls u) (params_for i) = Inr c) \<longleftrightarrow> usable_url parse i u"
  by (cases "parse (ix_proxy i)") (auto simp: new_http_def usable_url_def Let_def split: sum.splits prod.splits)

lemma new_http_client:
  assumes "new_http parse (config_for i tls u) (params_for i) = Inr c"
  obtains p where "parse u = Inr p" "cl_writeURL c = snd (write_url p (params_for i))"
    "cl_config c = (config_for i tls u)\<lparr>hc_timeout := if ix_timeout i = 0 then default_request_timeout else ix_timeout i\<rparr>"
    "if ix_proxy i = [] then cl_proxy c = None else map_sum id Some (parse (ix_proxy i)) = Inr (cl_proxy c)"
    "cl_timeout c = (if ix_timeout i = 0 then default_request_timeout else ix_timeout i)"
  using assms by (auto simp: new_http_def Let_def split: if_splits sum.splits prod.splits)

text \<open>The parameters in the order in which they are sent.\<close>

lemma map_of_mset: "distinct (map fst ps) \<Longrightarrow> mset ps = mset qs \<Longrightarrow> distinct (map fst qs) \<and> map_of qs = map_of ps"
proof
  assume d: "distinct (map fst ps)" and m: "mset ps = mset qs"
  show dq: "distinct (map fst qs)" using d mset_eq_imp_distinct_iff [of "map fst ps" "map fst qs"] m by simp
  have s: "set qs = set ps" using m by (metis set_mset_mset)
  show "map_of qs = map_of ps"
  proof (rule ext)
    fix k
    have "map_of qs k = Some v \<longleftrightarrow> map_of ps k = Some v" for v
      using map_of_eq_Some_iff [OF d, of k v] map_of_eq_Some_iff [OF dq, of k v] s by simp
    then show "map_of qs k = map_of ps k" by (cases "map_of ps k"; cases "map_of qs k") auto
  qed
qed

lemma params_read:
  "\<exists>ps. parse_query (encode_params (params_of (params_for i))) = Some ps \<and> distinct (map fst ps)
    \<and> map_of ps ''db'' = Some (ix_database i)
    \<and> map_of ps ''rp'' = (if ix_retentionPolicy i = [] then None else Some (ix_retentionPolicy i))
    \<and> map_of ps ''consistency'' = (if ix_writeConsistency i \<in> {[], ''one''} then None else Some (ix_writeConsistency i))
    \<and> fst ` set ps \<subseteq> {''db'', ''rp'', ''consistency''}"
proof -
  let ?ps = "params_of (params_for i)"
  have d: "distinct (map fst ?ps)" by (simp add: params_of_def)
  have m: "distinct (map fst (sort_params ?ps))" "map_of (sort_params ?ps) = map_of ?ps"
    using map_of_mset [OF d, of "sort_params ?ps"] by (simp_all add: mset_sort_params)
  have "set (sort_params ?ps) = set ?ps" using arg_cong [OF mset_sort_params [of ?ps], of set_mset] by simp
  moreover have "fst ` set ?ps \<subseteq> {''db'', ''rp'', ''consistency''}" unfolding params_of_def set_append image_Un
    by (cases "ix_retentionPolicy i = []"; cases "ix_writeConsistency i = []"; cases "ix_writeConsistency i = ''one''") simp_all
  ultimately have "fst ` set (sort_params ?ps) \<subseteq> {''db'', ''rp'', ''consistency''}" by (simp only:)
  moreover have "map_of ?ps ''db'' = Some (ix_database i)" by (simp add: params_of_def)
  moreover have "map_of ?ps ''rp'' = (if ix_retentionPolicy i = [] then None else Some (ix_retentionPolicy i))"
    by (simp add: params_of_def)
  moreover have "map_of ?ps ''consistency'' = (if ix_writeConsistency i \<in> {[], ''one''} then None else Some (ix_writeConsistency i))"
    by (simp add: params_of_def)
  ultimately show ?thesis using m by (intro exI [of _ "sort_params ?ps"]) (simp add: parse_encoded)
qed

lemma client_of_new:
  assumes "new_http parse (config_for i tls u) (params_for i) = Inr c"
  shows "client_of parse i tls u (fst (client_query nw c command))"
proof -
  have q: "cl_writeURL (fst (client_query nw c command)) = cl_writeURL c" "cl_config (fst (client_query nw c command)) = cl_config c"
    "cl_proxy (fst (client_query nw c command)) = cl_proxy c" "cl_timeout (fst (client_query nw c command)) = cl_timeout c"
    by (simp_all add: client_query_def query_url_def Let_def split: sum.split)
  obtain p where p: "parse u = Inr p" "cl_writeURL c = snd (write_url p (params_for i))"
    "cl_config c = (config_for i tls u)\<lparr>hc_timeout := if ix_timeout i = 0 then default_request_timeout else ix_timeout i\<rparr>"
    "if ix_proxy i = [] then cl_proxy c = None else map_sum id Some (parse (ix_proxy i)) = Inr (cl_proxy c)"
    "cl_timeout c = (if ix_timeout i = 0 then default_request_timeout else ix_timeout i)"
    by (rule new_http_client [OF assms])
  have "cl_writeURL c = url_string (p\<lparr>u_rawQuery := encode_params (params_of (params_for i)), u_path := ''write''\<rparr>)"
    using p(2) by (simp add: write_url_def Let_def)
  with params_read [of i] p(1) have "\<exists>p q ps. parse u = Inr p \<and> cl_writeURL c = url_string (p\<lparr>u_rawQuery := q, u_path := ''write''\<rparr>)
        \<and> parse_query q = Some ps \<and> distinct (map fst ps)
        \<and> map_of ps ''db'' = Some (ix_database i)
        \<and> map_of ps ''rp'' = (if ix_retentionPolicy i = [] then None else Some (ix_retentionPolicy i))
        \<and> map_of ps ''consistency'' = (if ix_writeConsistency i \<in> {[], ''one''} then None else Some (ix_writeConsistency i))
        \<and> fst ` set ps \<subseteq> {''db'', ''rp'', ''consistency''}" by metis
  then show ?thesis unfolding client_of_def q p(3) using p(4,5) by simp
qed

lemma connect_loop_clients:
  "\<exists>cs. fst (connect_loop nw parse tls urls i) = i\<lparr>ix_clients := ix_clients i @ cs\<rparr>
    \<and> list_all2 (client_of parse i tls) (takeWhile (usable_url parse i) urls) cs
    \<and> (case snd (connect_loop nw parse tls urls i) of
         None \<Rightarrow> \<forall>u \<in> set urls. usable_url parse i u
       | Some e \<Rightarrow> \<exists>u us e'. dropWhile (usable_url parse i) urls = u # us \<and> e = ClientFailed u e')"
proof (induction urls arbitrary: i)
  case Nil
  then show ?case by (auto intro!: exI [of _ "[]"])
next
  case (Cons u urls)
  show ?case
  proof (cases "new_http parse (config_for i tls u) (params_for i)")
    case (Inl e)
    then have "\<not> usable_url parse i u" using new_http_usable [where parse = parse and i = i and tls = tls and u = u] by simp
    then show ?thesis using Inl by (auto intro!: exI [of _ "[]"])
  next
    case (Inr c)
    define d where "d = fst (client_query nw c (create_database (ix_database i)))"
    let ?i = "i\<lparr>ix_clients := ix_clients i @ [d]\<rparr>"
    have l: "connect_loop nw parse tls (u # urls) i = connect_loop nw parse tls urls ?i"
      using Inr by (simp add: d_def split: prod.split)
    have same: "client_of parse ?i = client_of parse i" "usable_url parse ?i = usable_url parse i"
      by (intro ext; simp add: client_of_def usable_url_def)+
    have u: "usable_url parse i u" using Inr new_http_usable [where parse = parse and i = i and tls = tls and u = u] by blast
    have "client_of parse i tls u d" unfolding d_def by (rule client_of_new [OF Inr])
    moreover obtain cs where cs: "fst (connect_loop nw parse tls urls ?i) = ?i\<lparr>ix_clients := ix_clients ?i @ cs\<rparr>"
      "list_all2 (client_of parse i tls) (takeWhile (usable_url parse i) urls) cs"
      "case snd (connect_loop nw parse tls urls ?i) of
         None \<Rightarrow> \<forall>u \<in> set urls. usable_url parse i u
       | Some e \<Rightarrow> \<exists>u us e'. dropWhile (usable_url parse i) urls = u # us \<and> e = ClientFailed u e'"
      using Cons.IH [of ?i] unfolding same by blast
    ultimately show ?thesis unfolding l using u
      by (intro exI [of _ "d # cs"] conjI) (simp, simp, cases "snd (connect_loop nw parse tls urls ?i)", simp_all)
  qed
qed

subsection \<open>The properties of the client\<close>

text \<open>
  C33: \<open>Connect\<close> fails and leaves the database as it is if the certificates cannot be loaded. Otherwise it makes one client
  for each URL, in order, up to the first that no client can be made of, of which the error tells: each posts to its own
  URL, with parameters from which a server reads the database, the policy and the consistency of the configuration and
  nothing else, and with the credentials, certificates, proxy and timeout of the configuration.
\<close>

theorem influx_connect_exact:
  "case get_tls_config readCA loadPair (ix_sslCert i) (ix_sslKey i) (ix_sslCA i) (ix_insecureSkipVerify i) of
     Inl err \<Rightarrow> connect nw parse readCA loadPair i = (i, Some err)
   | Inr tls \<Rightarrow>
       (\<exists>cs. fst (connect nw parse readCA loadPair i) = i\<lparr>ix_clients := ix_clients i @ cs\<rparr>
          \<and> list_all2 (client_of parse i tls) (takeWhile (usable_url parse i) (ix_urls i)) cs
          \<and> (case snd (connect nw parse readCA loadPair i) of
               None \<Rightarrow> \<forall>u \<in> set (ix_urls i). usable_url parse i u
             | Some e \<Rightarrow> \<exists>u us e'. dropWhile (usable_url parse i) (ix_urls i) = u # us \<and> e = ClientFailed u e'))"
proof (cases "get_tls_config readCA loadPair (ix_sslCert i) (ix_sslKey i) (ix_sslCA i) (ix_insecureSkipVerify i)")
  case (Inr tls)
  then show ?thesis using connect_loop_clients [of nw parse tls "ix_urls i" i] by (simp add: connect_def)
qed (simp add: connect_def)

text \<open>A database with two servers, and a network on which no server answers.\<close>

definition demo_parse :: "bytes \<Rightarrow> bytes + url" where
  "demo_parse s =
     Inr \<lparr>u_scheme = take 4 s, u_opaque = [], u_user = None, u_host = drop 7 s, u_path = [], u_rawQuery = [], u_fragment = []\<rparr>"

definition demo_net :: "bytes network" where
  "demo_net = \<lparr>nw_bad = (\<lambda>_. None), nw_answer = (\<lambda>_. Inl ''refused''), nw_decode = (\<lambda>_. ([], None))\<rparr>"

definition demo_db :: "(unit, unit) influx_db" where
  "demo_db =
     \<lparr>ix_urls = [''http://a'', ''ftp://b''], ix_username = [], ix_password = [], ix_database = ''stat'', ix_userAgent = [],
      ix_retentionPolicy = ''week'', ix_writeConsistency = [], ix_timeout = 0, ix_proxy = [], ix_sslCA = [], ix_sslCert = [],
      ix_sslKey = [], ix_insecureSkipVerify = False, ix_clients = []\<rparr>"

theorem influx_connect_exact_witness:
  "\<exists>c. fst (connect demo_net demo_parse (\<lambda>_. Inr ()) (\<lambda>_ _. Inr ()) demo_db) = demo_db\<lparr>ix_clients := [c]\<rparr>
    \<and> client_of demo_parse demo_db None ''http://a'' c"
proof -
  let ?r = "connect demo_net demo_parse (\<lambda>_. Inr ()) (\<lambda>_ _. Inr ()) demo_db"
  have tls: "get_tls_config (\<lambda>_. Inr ()) (\<lambda>_ _. Inr ()) (ix_sslCert demo_db) (ix_sslKey demo_db) (ix_sslCA demo_db)
      (ix_insecureSkipVerify demo_db) = (Inr None :: influx_error + (unit, unit) influx_tls option)"
    by (simp add: get_tls_config_def demo_db_def)
  have w: "takeWhile (usable_url demo_parse demo_db) (ix_urls demo_db) = [''http://a'']" "ix_clients demo_db = []"
    by (simp_all add: usable_url_def demo_parse_def demo_db_def)
  obtain cs where "fst ?r = demo_db\<lparr>ix_clients := ix_clients demo_db @ cs\<rparr>"
    "list_all2 (client_of demo_parse demo_db None) [''http://a''] cs"
    using influx_connect_exact [where readCA = "\<lambda>_. Inr ()" and loadPair = "\<lambda>_ _. Inr ()" and i = demo_db and nw = demo_net
      and parse = demo_parse] unfolding tls sum.case w(1) by blast
  then show ?thesis unfolding w(2) by (cases cs) auto
qed

text \<open>
  C34: no name of a database can leave its quotes: from the URL of a query a server reads one parameter, the command, and
  from the command the database it is about with nothing after it.
\<close>

theorem influx_command_read:
  "\<exists>s. parse_query (u_rawQuery (fst (query_url u (create_database database)))) = Some [(''q'', ''CREATE DATABASE '' @ dquote # s)]
     \<and> read_identifier s = Some (database, [])"
  using read_quoted [of database "[]"] by (intro exI conjI) (simp_all only: query_command_read create_database_def)

text \<open>
  C32: what a write reports.  With an error no byte counts as written; without one it is all bytes, and the server has
  answered that it stored them, or no byte, and the request was never sent: the error of a URL that cannot be requested is
  dropped by all ways to write.  A query reports it, and is otherwise without an error exactly if the server answered 204,
  or 200 with a body that is JSON and names no error.
\<close>

theorem influx_reports:
  "(client_write_stream nw c r n = (k, None) \<longleftrightarrow>
      (if nw_bad nw (cl_writeURL c) \<noteq> None then k = 0
       else (\<exists>body. nw_answer nw (write_request c r n (cl_writeURL c)) = Inr (204, body)) \<and> k = n))
   \<and> (snd (client_write_stream nw c r n) \<noteq> None \<longrightarrow> fst (client_write_stream nw c r n) = 0)
   \<and> snd (client_write_stream_with_params nw c r n wp)
       = client_write_stream nw (c\<lparr>cl_writeURL := snd (write_url (cl_url c) wp)\<rparr>) r n
   \<and> client_write bw c b = client_write_stream bw c b (int (length b))
   \<and> (snd (client_query bw c command) = None \<longleftrightarrow>
        (case make_request (nw_bad bw) c (snd (query_url (cl_url c) command)) [] of
           Inl err \<Rightarrow> False
         | Inr req \<Rightarrow> (\<exists>code body. nw_answer bw req = Inr (code, body)
             \<and> (code = 204 \<or> code = 200 \<and> (\<exists>t. body = Inr t \<and> nw_decode bw t = ([], None))))))"
  by (intro conjI stream_nil stream_error_no_byte with_params_is_stream write_is_stream query_nil)

text \<open>A client of the network on which no server answers.\<close>

definition demo_client :: "unit http_client" where
  "demo_client =
     \<lparr>cl_writeURL = ''http://a/write?db=stat'',
      cl_config = \<lparr>hc_URL = ''http://a'', hc_userAgent = [], hc_timeout = 0, hc_username = [], hc_password = [], hc_tls = None,
        hc_proxy = []\<rparr>,
      cl_url = \<lparr>u_scheme = ''http'', u_opaque = [], u_user = None, u_host = ''a'', u_path = [], u_rawQuery = [], u_fragment = []\<rparr>,
      cl_timeout = 0, cl_proxy = None\<rparr>"

theorem influx_reports_witness:
  "snd (client_write_stream demo_net demo_client ''cpu v=1'' 7) = Some (RequestFailed ''refused'')
   \<and> fst (client_write_stream demo_net demo_client ''cpu v=1'' 7) = 0"
proof -
  have err: "snd (client_write_stream demo_net demo_client ''cpu v=1'' 7) = Some (RequestFailed ''refused'')"
    by (simp add: client_write_stream_def make_write_request_cases send_write_def do_request_def demo_net_def)
  then show ?thesis using influx_reports [of demo_net demo_client "''cpu v=1''" 7] by simp
qed

end
