(* ===== verification/Conf_Template.thy ===== *)
theory Conf_Template
  imports GoText "HOL-Library.Word"
begin

text \<open>
  The configuration files that are made from templates (\<open>deploy/conf/template\<close>): resources, their staging and
  synchronisation, and the processors that do it again and again.

  The world is the files by their names and the shell commands that were run.  The operating system, the engine of
  templates, the decoder of resources and the store of values are parameters, the records \<open>sys\<close> and \<open>value_store\<close>.
\<close>

subsection \<open>Files\<close>

record cfile =
  f_content :: bytes
  f_mode :: "32 word"
  f_uid :: int
  f_gid :: int

record world =
  w_files :: "bytes \<Rightarrow> cfile option"
  w_ran :: "bytes list"

text \<open>
  \<open>sy_temp\<close> is the name \<open>TempFile\<close> chooses for a directory and a prefix; \<open>sy_stat\<close> an error of \<open>Stat\<close> that does not say the file is
  absent; \<open>sy_write\<close> the error of writing to an open file and how many bytes were written before it; \<open>sy_run\<close> what a shell
  command makes of the files and its error; \<open>sy_walk\<close> the entries below a directory, each with whether it is one; \<open>sy_chown\<close> and
  \<open>sy_chmod\<close> what the calls make of a file, which is the same file where they fail.  A template is compiled and
  executed over the values and the world; \<open>sy_command\<close> executes a check command for the name of the staged file.
\<close>

record 't sys =
  sy_stat :: "bytes \<Rightarrow> bytes option"
  sy_open :: "bytes \<Rightarrow> bytes option"
  sy_temp :: "bytes \<Rightarrow> bytes \<Rightarrow> world \<Rightarrow> bytes + bytes"
  sy_chmod :: "32 word \<Rightarrow> cfile \<Rightarrow> cfile"
  sy_chown :: "int \<Rightarrow> int \<Rightarrow> cfile \<Rightarrow> cfile"
  sy_rename :: "bytes \<Rightarrow> bytes \<Rightarrow> bytes option"
  sy_write :: "bytes \<Rightarrow> (nat \<times> bytes) option"
  sy_run :: "bytes \<Rightarrow> (bytes \<Rightarrow> cfile option) \<Rightarrow> (bytes \<Rightarrow> cfile option) \<times> bytes option"
  sy_walk :: "bytes \<Rightarrow> (bytes \<times> bool \<times> bytes option) list"
  sy_euid :: int
  sy_egid :: int
  sy_umask :: "32 word"
  sy_md5 :: "bytes \<Rightarrow> bytes"
  sy_compile :: "bytes \<Rightarrow> bytes + 't"
  sy_execute :: "'t \<Rightarrow> (bytes \<Rightarrow> bytes option) \<Rightarrow> world \<Rightarrow> bytes + bytes"
  sy_command :: "bytes \<Rightarrow> bytes \<Rightarrow> bytes + bytes"

definition new_file :: "'t sys \<Rightarrow> 32 word \<Rightarrow> bytes \<Rightarrow> cfile" where
  "new_file S m c = \<lparr>f_content = c, f_mode = and m (not (sy_umask S)), f_uid = sy_euid S, f_gid = sy_egid S\<rparr>"

definition set_file :: "bytes \<Rightarrow> cfile option \<Rightarrow> world \<Rightarrow> world" where
  "set_file name f w = w\<lparr>w_files := (w_files w)(name := f)\<rparr>"

text \<open>\<open>util.go\<close> and \<open>fileStat_posix.go\<close>.\<close>

datatype conf_error =
  OpenFailed bytes | FileNotFound | NoStoreClient | DecodeFailed bytes | EmptySrc | StoreFailed bytes | BadMode bytes
| StatFailed bytes | MissingTemplate bytes | CompileFailed bytes bytes | TempFailed bytes | RenderFailed bytes
| CommandFailed bytes | CheckFailed conf_error | RenameFailed bytes | WriteFailed bytes

record file_info =
  fi_UID :: int
  fi_GID :: int
  fi_Mode :: "32 word"
  fi_Md5 :: bytes

definition is_file_exist :: "'t sys \<Rightarrow> bytes \<Rightarrow> world \<Rightarrow> bool" where
  "is_file_exist S fpath w \<longleftrightarrow> sy_stat S fpath \<noteq> None \<or> w_files w fpath \<noteq> None"

definition read_file :: "'t sys \<Rightarrow> bytes \<Rightarrow> world \<Rightarrow> conf_error + cfile" where
  "read_file S name w =
     (case sy_open S name of
        Some err \<Rightarrow> Inl (OpenFailed err)
      | None \<Rightarrow> (case w_files w name of None \<Rightarrow> Inl (OpenFailed ''no such file or directory'') | Some f \<Rightarrow> Inr f))"

definition conf_stat :: "'t sys \<Rightarrow> bytes \<Rightarrow> world \<Rightarrow> conf_error + file_info" where
  "conf_stat S name w =
     (if is_file_exist S name w then
        (case read_file S name w of
           Inl err \<Rightarrow> Inl err
         | Inr f \<Rightarrow> Inr \<lparr>fi_UID = f_uid f, fi_GID = f_gid f, fi_Mode = f_mode f, fi_Md5 = sy_md5 S (f_content f)\<rparr>)
      else Inl FileNotFound)"

definition same_config :: "'t sys \<Rightarrow> bytes \<Rightarrow> bytes \<Rightarrow> world \<Rightarrow> bool \<times> conf_error option" where
  "same_config S src dest w =
     (if \<not> is_file_exist S dest w then (False, None)
      else
        (case conf_stat S dest w of
           Inl err \<Rightarrow> (False, Some err)
         | Inr d \<Rightarrow>
             (case conf_stat S src w of
                Inl err \<Rightarrow> (False, Some err)
              | Inr s \<Rightarrow>
                  if fi_UID d \<noteq> fi_UID s \<or> fi_GID d \<noteq> fi_GID s \<or> fi_Mode d \<noteq> fi_Mode s \<or> fi_Md5 d \<noteq> fi_Md5 s then (False, None)
                  else (True, None))))"

definition append_prefix :: "bytes \<Rightarrow> bytes list \<Rightarrow> bytes list" where
  "append_prefix prefix keys = map (\<lambda>k. path_join [prefix, k]) keys"

text \<open>\<open>pattern\<close> is \<open>*\<close> followed by a suffix, here the suffix; the errors of the walk are ignored.\<close>

definition recursive_find_files :: "'t sys \<Rightarrow> bytes \<Rightarrow> bytes \<Rightarrow> bytes list" where
  "recursive_find_files S root suffix =
     map fst (filter (\<lambda>(path, dir, err). err = None \<and> \<not> dir \<and> has_suffix (path_base path) suffix) (sy_walk S root))"

subsection \<open>Resources\<close>

record value_store =
  vs_GetValues :: "bytes list \<Rightarrow> bytes + (bytes \<times> bytes) list"

record tpl_config =
  tc_CheckCmd :: bytes
  tc_ReloadCmd :: bytes
  tc_ConfDir :: bytes
  tc_ConfigDir :: bytes
  tc_KeepStageFile :: bool
  tc_Noop :: bool
  tc_Prefix :: bytes
  tc_StoreClient :: "value_store option"
  tc_SyncOnly :: bool
  tc_TemplateDir :: bytes

text \<open>The map of functions is part of what a template is executed with; the staged file is its name.\<close>

record tpl_resource =
  tr_CheckCmd :: bytes
  tr_Dest :: bytes
  tr_FileMode :: "32 word"
  tr_Gid :: int
  tr_Keys :: "bytes list"
  tr_Mode :: bytes
  tr_Prefix :: bytes
  tr_ReloadCmd :: bytes
  tr_Src :: bytes
  tr_StageFile :: bytes
  tr_UID :: int
  tr_lastIndex :: nat
  tr_keepStageFile :: bool
  tr_noop :: bool
  tr_store :: "bytes \<Rightarrow> bytes option"
  tr_storeClient :: "value_store option"
  tr_syncOnly :: bool

definition empty_resource :: tpl_resource where
  "empty_resource =
     \<lparr>tr_CheckCmd = [], tr_Dest = [], tr_FileMode = 0, tr_Gid = 0, tr_Keys = [], tr_Mode = [], tr_Prefix = [], tr_ReloadCmd = [],
      tr_Src = [], tr_StageFile = [], tr_UID = 0, tr_lastIndex = 0, tr_keepStageFile = False, tr_noop = False,
      tr_store = (\<lambda>_. None), tr_storeClient = None, tr_syncOnly = False\<rparr>"

text \<open>\<open>dec\<close> is the decoding of a text over a resource with defaults.\<close>

definition tpl_unmarshal :: "(bytes \<Rightarrow> tpl_resource \<Rightarrow> bytes + tpl_resource) \<Rightarrow> bytes \<Rightarrow> tpl_resource \<Rightarrow> bytes + tpl_resource" where
  "tpl_unmarshal dec data t = dec data (t\<lparr>tr_Gid := -1, tr_UID := -1\<rparr>)"

definition new_resource_from_reader ::
  "'t sys \<Rightarrow> (bytes \<Rightarrow> tpl_resource \<Rightarrow> bytes + tpl_resource) \<Rightarrow> bytes \<Rightarrow> tpl_config \<Rightarrow> conf_error + tpl_resource" where
  "new_resource_from_reader S dec data config =
     (if tc_StoreClient config = None then Inl NoStoreClient
      else
        (case tpl_unmarshal dec data empty_resource of
           Inl err \<Rightarrow> Inl (DecodeFailed err)
         | Inr tr \<Rightarrow>
             (let tr = tr\<lparr>tr_keepStageFile := tc_KeepStageFile config, tr_noop := tc_Noop config,
                  tr_storeClient := tc_StoreClient config, tr_store := (\<lambda>_. None), tr_syncOnly := tc_SyncOnly config\<rparr>;
                  tr = (if tc_Prefix config \<noteq> [] then tr\<lparr>tr_Prefix := tc_Prefix config\<rparr> else tr);
                  tr = (if \<not> has_prefix (tr_Prefix tr) ''/'' then tr\<lparr>tr_Prefix := CHR ''/'' # tr_Prefix tr\<rparr> else tr)
              in if tr_Src tr = [] then Inl EmptySrc
                 else
                   (let tr = (if tr_UID tr = -1 then tr\<lparr>tr_UID := sy_euid S\<rparr> else tr);
                        tr = (if tr_Gid tr = -1 then tr\<lparr>tr_Gid := sy_egid S\<rparr> else tr)
                    in Inr (tr\<lparr>tr_Src := path_join [tc_TemplateDir config, tr_Src tr]\<rparr>)))))"

definition new_resource ::
  "'t sys \<Rightarrow> (bytes \<Rightarrow> tpl_resource \<Rightarrow> bytes + tpl_resource) \<Rightarrow> bytes \<Rightarrow> tpl_config \<Rightarrow> world \<Rightarrow> conf_error + tpl_resource" where
  "new_resource S dec path config w =
     (case read_file S path w of
        Inl err \<Rightarrow> Inl err
      | Inr f \<Rightarrow> new_resource_from_reader S dec (f_content f) config)"

text \<open>\<open>strconv.ParseUint(s, 0, 32)\<close>; every error is the same here.\<close>

fun parse_base :: "nat \<Rightarrow> nat \<Rightarrow> bytes \<Rightarrow> nat option" where
  "parse_base b n [] = Some n"
| "parse_base b n (c # cs) =
     (case hex_val c of
        Some d \<Rightarrow> if d < b \<and> b * n + d < 2 ^ 32 then parse_base b (b * n + d) cs else None
      | None \<Rightarrow> None)"

definition parse_mode :: "bytes \<Rightarrow> nat option" where
  "parse_mode s =
     (case s of
        [] \<Rightarrow> None
      | c # r \<Rightarrow>
          if c = CHR ''0'' then
            (case r of
               x # ds \<Rightarrow> if x = CHR ''x'' \<or> x = CHR ''X'' then (if ds = [] then None else parse_base 16 0 ds) else parse_base 8 0 r
             | [] \<Rightarrow> Some 0)
          else parse_base 10 0 s)"

definition set_file_mode :: "'t sys \<Rightarrow> tpl_resource \<Rightarrow> world \<Rightarrow> conf_error + tpl_resource" where
  "set_file_mode S t w =
     (if tr_Mode t = [] then
        if \<not> is_file_exist S (tr_Dest t) w then Inr (t\<lparr>tr_FileMode := 0x1A4\<rparr>)
        else
          (case sy_stat S (tr_Dest t) of
             Some err \<Rightarrow> Inl (StatFailed err)
           | None \<Rightarrow> Inr (t\<lparr>tr_FileMode := f_mode (the (w_files w (tr_Dest t)))\<rparr>))
      else
        (case parse_mode (tr_Mode t) of
           None \<Rightarrow> Inl (BadMode (tr_Mode t))
         | Some mode \<Rightarrow> Inr (t\<lparr>tr_FileMode := of_nat mode\<rparr>)))"

text \<open>The values come in the order of the iteration over the map.\<close>

definition store_of :: "bytes \<Rightarrow> (bytes \<times> bytes) list \<Rightarrow> bytes \<Rightarrow> bytes option" where
  "store_of prefix result = fold (\<lambda>(k, v) m. m(path_join [''/'', trim_prefix k prefix] := Some v)) result (\<lambda>_. None)"

definition set_vars :: "tpl_resource \<Rightarrow> conf_error + tpl_resource" where
  "set_vars t =
     (case tr_storeClient t of
        None \<Rightarrow> Inl NoStoreClient
      | Some client \<Rightarrow>
          (case vs_GetValues client (append_prefix (tr_Prefix t) (tr_Keys t)) of
             Inl err \<Rightarrow> Inl (StoreFailed err)
           | Inr result \<Rightarrow> Inr (t\<lparr>tr_store := store_of (tr_Prefix t) result\<rparr>)))"

definition file_dir :: "bytes \<Rightarrow> bytes" where
  "file_dir p = path_clean (case last_index p CHR ''/'' of None \<Rightarrow> [] | Some i \<Rightarrow> take (Suc i) p)"

definition create_stage_file :: "'t sys \<Rightarrow> tpl_resource \<Rightarrow> world \<Rightarrow> world \<times> (conf_error + tpl_resource)" where
  "create_stage_file S t w =
     (if \<not> is_file_exist S (tr_Src t) w then (w, Inl (MissingTemplate (tr_Src t)))
      else
        (case read_file S (tr_Src t) w of
           Inl err \<Rightarrow> (w, Inl err)
         | Inr src \<Rightarrow>
             (case sy_compile S (f_content src) of
                Inl err \<Rightarrow> (w, Inl (CompileFailed (tr_Src t) err))
              | Inr tmpl \<Rightarrow>
                  (case sy_temp S (file_dir (tr_Dest t)) (CHR ''.'' # path_base (tr_Dest t)) w of
                     Inl err \<Rightarrow> (w, Inl (TempFailed err))
                   | Inr temp \<Rightarrow>
                       (let f = new_file S 0x180 []; w = set_file temp (Some f) w
                        in case sy_execute S tmpl (tr_store t) w of
                             Inl err \<Rightarrow> (set_file temp None w, Inl (RenderFailed err))
                           | Inr c \<Rightarrow>
                               (let f = sy_chmod S (tr_FileMode t) (f\<lparr>f_content := c\<rparr>);
                                    f = sy_chown S (tr_UID t) (tr_Gid t) f
                                in (set_file temp (Some f) w, Inr (t\<lparr>tr_StageFile := temp\<rparr>))))))))"

definition run_command :: "'t sys \<Rightarrow> bytes \<Rightarrow> world \<Rightarrow> world \<times> conf_error option" where
  "run_command S c w =
     (case sy_run S c (w_files w) of
        (fs, err) \<Rightarrow> (w\<lparr>w_files := fs, w_ran := w_ran w @ [c]\<rparr>, map_option CommandFailed err))"

definition tpl_check :: "'t sys \<Rightarrow> tpl_resource \<Rightarrow> world \<Rightarrow> world \<times> conf_error option" where
  "tpl_check S t w =
     (case sy_command S (tr_CheckCmd t) (tr_StageFile t) of
        Inl err \<Rightarrow> (w, Some (RenderFailed err))
      | Inr c \<Rightarrow> run_command S c w)"

definition tpl_reload :: "'t sys \<Rightarrow> tpl_resource \<Rightarrow> world \<Rightarrow> world \<times> conf_error option" where
  "tpl_reload S t w = run_command S (tr_ReloadCmd t) w"

text \<open>\<open>ioutil.WriteFile\<close>: a file that is there keeps its owner and mode.\<close>

definition write_config :: "'t sys \<Rightarrow> bytes \<Rightarrow> bytes \<Rightarrow> 32 word \<Rightarrow> world \<Rightarrow> world \<times> conf_error option" where
  "write_config S name c m w =
     (case sy_open S name of
        Some err \<Rightarrow> (w, Some (WriteFailed err))
      | None \<Rightarrow>
          (let f = (case w_files w name of None \<Rightarrow> new_file S m [] | Some f \<Rightarrow> f)
           in case sy_write S name of
                None \<Rightarrow> (set_file name (Some (f\<lparr>f_content := c\<rparr>)) w, None)
              | Some (n, err) \<Rightarrow> (set_file name (Some (f\<lparr>f_content := take n c\<rparr>)) w, Some (WriteFailed err))))"

definition overwrite_target :: "'t sys \<Rightarrow> tpl_resource \<Rightarrow> world \<Rightarrow> world \<times> conf_error option" where
  "overwrite_target S t w =
     (let staged = tr_StageFile t; dest = tr_Dest t
      in case (if w_files w staged = None then Some ''no such file or directory'' else sy_rename S staged dest) of
           None \<Rightarrow> (set_file dest (w_files w staged) (set_file staged None w), None)
         | Some err \<Rightarrow>
             if contains_sub err ''device or resource busy'' then
               (case read_file S staged w of
                  Inl rerr \<Rightarrow> (w, Some rerr)
                | Inr contents \<Rightarrow>
                    (case write_config S dest (f_content contents) (tr_FileMode t) w of
                       (w, err) \<Rightarrow>
                         (set_file dest (map_option (sy_chown S (tr_UID t) (tr_Gid t)) (w_files w dest)) w, err)))
             else (w, Some (RenameFailed err)))"

text \<open>The staged file is removed when the function returns.\<close>

definition tpl_sync :: "'t sys \<Rightarrow> tpl_resource \<Rightarrow> world \<Rightarrow> world \<times> conf_error option" where
  "tpl_sync S t w =
     (let (w, err) =
        (if tr_noop t \<or> fst (same_config S (tr_StageFile t) (tr_Dest t) w) then (w, None)
         else
           (case (if \<not> tr_syncOnly t \<and> tr_CheckCmd t \<noteq> [] then tpl_check S t w else (w, None)) of
              (w, Some err) \<Rightarrow> (w, Some (CheckFailed err))
            | (w, None) \<Rightarrow>
                (case overwrite_target S t w of
                   (w, Some err) \<Rightarrow> (w, Some err)
                 | (w, None) \<Rightarrow> if \<not> tr_syncOnly t \<and> tr_ReloadCmd t \<noteq> [] then tpl_reload S t w else (w, None))))
      in (if tr_keepStageFile t then w else set_file (tr_StageFile t) None w, err))"

definition tpl_process :: "'t sys \<Rightarrow> tpl_resource \<Rightarrow> world \<Rightarrow> (tpl_resource \<times> world) \<times> conf_error option" where
  "tpl_process S t w =
     (case set_file_mode S t w of
        Inl err \<Rightarrow> ((t, w), Some err)
      | Inr t \<Rightarrow>
          (case set_vars t of
             Inl err \<Rightarrow> ((t, w), Some err)
           | Inr t \<Rightarrow>
               (case create_stage_file S t w of
                  (w, Inl err) \<Rightarrow> ((t, w), Some err)
                | (w, Inr t) \<Rightarrow> (case tpl_sync S t w of (w, err) \<Rightarrow> ((t, w), err)))))"

subsection \<open>Processors\<close>

fun process_all :: "'t sys \<Rightarrow> tpl_resource list \<Rightarrow> conf_error option \<Rightarrow> world \<Rightarrow> world \<times> conf_error option" where
  "process_all S [] lastErr w = (w, lastErr)"
| "process_all S (t # ts) lastErr w =
     (case tpl_process S t w of ((t, w), err) \<Rightarrow> process_all S ts (if err = None then lastErr else err) w)"

fun load_templates ::
  "'t sys \<Rightarrow> (bytes \<Rightarrow> tpl_resource \<Rightarrow> bytes + tpl_resource) \<Rightarrow> tpl_config \<Rightarrow> world \<Rightarrow> bytes list \<Rightarrow> tpl_resource list
     \<Rightarrow> conf_error option \<Rightarrow> tpl_resource list \<times> conf_error option" where
  "load_templates S dec config w [] templates lastError = (templates, lastError)"
| "load_templates S dec config w (p # paths) templates lastError =
     (case new_resource S dec p config w of
        Inl err \<Rightarrow> load_templates S dec config w paths templates (Some err)
      | Inr t \<Rightarrow> load_templates S dec config w paths (templates @ [t]) lastError)"

definition get_resources ::
  "'t sys \<Rightarrow> (bytes \<Rightarrow> tpl_resource \<Rightarrow> bytes + tpl_resource) \<Rightarrow> tpl_config \<Rightarrow> world \<Rightarrow> tpl_resource list \<times> conf_error option" where
  "get_resources S dec config w =
     (if \<not> is_file_exist S (tc_ConfDir config) w then ([], None)
      else load_templates S dec config w (recursive_find_files S (tc_ConfigDir config) ''toml'') [] None)"

definition process_once ::
  "'t sys \<Rightarrow> (bytes \<Rightarrow> tpl_resource \<Rightarrow> bytes + tpl_resource) \<Rightarrow> tpl_config \<Rightarrow> world \<Rightarrow> world \<times> conf_error option" where
  "process_once S dec config w =
     (case get_resources S dec config w of
        (ts, Some err) \<Rightarrow> (w, Some err)
      | (ts, None) \<Rightarrow> process_all S ts None w)"

text \<open>
  The loop of the interval processor, for a list of what its \<open>select\<close> takes after each round: it is either still in the loop or
  the program was ended by \<open>glog.Fatal\<close>.  The \<open>break\<close> after \<open>stopChan\<close> leaves the \<open>select\<close> only.
\<close>

datatype select_case = Stopped | Ticked

datatype interval_state = Looping world | Fatal conf_error world

fun interval_process ::
  "'t sys \<Rightarrow> (bytes \<Rightarrow> tpl_resource \<Rightarrow> bytes + tpl_resource) \<Rightarrow> tpl_config \<Rightarrow> select_case list \<Rightarrow> world \<Rightarrow> interval_state" where
  "interval_process S dec config [] w = Looping w"
| "interval_process S dec config (s # ss) w =
     (case get_resources S dec config w of
        (ts, Some err) \<Rightarrow> Fatal err w
      | (ts, None) \<Rightarrow>
          (case process_all S ts None w of
             (w, err) \<Rightarrow>
               (case s of
                  Stopped \<Rightarrow> interval_process S dec config ss w
                | Ticked \<Rightarrow> interval_process S dec config ss w)))"

text \<open>A watch of one resource, for a list of what \<open>WatchPrefix\<close> answers: the errors it sends.\<close>

fun monitor_prefix ::
  "'t sys \<Rightarrow> (bytes + nat) list \<Rightarrow> tpl_resource \<Rightarrow> world \<Rightarrow> conf_error list \<Rightarrow> (tpl_resource \<times> world) \<times> conf_error list" where
  "monitor_prefix S [] t w errs = ((t, w), errs)"
| "monitor_prefix S (Inl err # as) t w errs = monitor_prefix S as t w (errs @ [StoreFailed err])"
| "monitor_prefix S (Inr index # as) t w errs =
     (case tpl_process S (t\<lparr>tr_lastIndex := index\<rparr>) w of
        ((t, w), None) \<Rightarrow> monitor_prefix S as t w errs
      | ((t, w), Some err) \<Rightarrow> monitor_prefix S as t w (errs @ [err]))"

subsection \<open>What synchronisation does\<close>

text \<open>
  The names a resource works on, a system whose temporary names are new and whose commands leave the names of the resource
  alone, and a target that is a mount: renaming to it fails with the error that is looked for.
\<close>

definition temp_name :: "'t sys \<Rightarrow> tpl_resource \<Rightarrow> bytes \<Rightarrow> bool" where
  "temp_name S t n \<longleftrightarrow> (\<exists>w. sy_temp S (file_dir (tr_Dest t)) (CHR ''.'' # path_base (tr_Dest t)) w = Inr n)"

definition calm :: "'t sys \<Rightarrow> tpl_resource \<Rightarrow> bool" where
  "calm S t \<longleftrightarrow>
     (\<forall>w n. sy_temp S (file_dir (tr_Dest t)) (CHR ''.'' # path_base (tr_Dest t)) w = Inr n \<longrightarrow> w_files w n = None)
     \<and> (\<forall>n. temp_name S t n \<longrightarrow> n \<noteq> tr_Dest t \<and> n \<noteq> tr_Src t)
     \<and> (\<forall>c fs n. temp_name S t n \<or> n = tr_Dest t \<or> n = tr_Src t \<longrightarrow> fst (sy_run S c fs) n = fs n)"

definition mounted :: "'t sys \<Rightarrow> tpl_resource \<Rightarrow> bool" where
  "mounted S t \<longleftrightarrow>
     (\<exists>n err. temp_name S t n \<and> sy_rename S n (tr_Dest t) = Some err \<and> contains_sub err ''device or resource busy'')"

text \<open>A text that was written into the file that was there, or into a new one: only the owner is set.\<close>

definition written_in_place :: "'t sys \<Rightarrow> tpl_resource \<Rightarrow> cfile option \<Rightarrow> bytes \<Rightarrow> cfile \<Rightarrow> bool" where
  "written_in_place S t old c f \<longleftrightarrow>
     (\<exists>m. f = sy_chown S (tr_UID t) (tr_Gid t) ((case old of None \<Rightarrow> new_file S m [] | Some h \<Rightarrow> h)\<lparr>f_content := c\<rparr>))"

text \<open>The file that is staged for a resource.\<close>

definition staged_file :: "'t sys \<Rightarrow> tpl_resource \<Rightarrow> world \<Rightarrow> cfile option" where
  "staged_file S t w =
     (case set_file_mode S t w of
        Inl err \<Rightarrow> None
      | Inr t \<Rightarrow>
          (case set_vars t of
             Inl err \<Rightarrow> None
           | Inr t \<Rightarrow> (case create_stage_file S t w of (w, Inl err) \<Rightarrow> None | (w, Inr t) \<Rightarrow> w_files w (tr_StageFile t))))"

definition alike :: "'t sys \<Rightarrow> cfile \<Rightarrow> cfile \<Rightarrow> bool" where
  "alike S f g \<longleftrightarrow> f_uid f = f_uid g \<and> f_gid f = f_gid g \<and> f_mode f = f_mode g \<and> sy_md5 S (f_content f) = sy_md5 S (f_content g)"

lemma files_set_file [simp]: "w_files (set_file n f w) = (w_files w)(n := f)"
  by (simp add: set_file_def)

lemma ran_set_file [simp]: "w_ran (set_file n f w) = w_ran w"
  by (simp add: set_file_def)

lemma set_file_mode_frame: "set_file_mode S t w = Inr t' \<Longrightarrow> \<exists>m. t' = t\<lparr>tr_FileMode := m\<rparr>"
  by (auto simp: set_file_mode_def split: if_splits option.splits)

lemma set_vars_frame: "set_vars t = Inr t' \<Longrightarrow> \<exists>m. t' = t\<lparr>tr_store := m\<rparr>"
  by (auto simp: set_vars_def split: option.splits sum.splits)

lemma calm_frame [simp]: "calm S (t\<lparr>tr_FileMode := m\<rparr>) = calm S t" "calm S (t\<lparr>tr_store := st\<rparr>) = calm S t"
  "calm S (t\<lparr>tr_StageFile := n\<rparr>) = calm S t"
  by (simp_all add: calm_def temp_name_def)

lemma same_config_alike:
  "fst (same_config S src dest w) \<Longrightarrow> w_files w src = Some g \<Longrightarrow> \<exists>f. w_files w dest = Some f \<and> alike S f g"
  by (auto simp: same_config_def conf_stat_def read_file_def alike_def split: if_splits option.splits sum.splits)

lemma alike_same_config:
  assumes "\<And>n. sy_open S n = None" and "w_files w src = Some g" "w_files w dest = Some f" "alike S f g"
  shows "fst (same_config S src dest w)"
  using assms by (simp add: same_config_def conf_stat_def read_file_def alike_def is_file_exist_def)

lemma set_file_twice [simp]: "set_file n g (set_file n f w) = set_file n g w"
  by (simp add: set_file_def)

lemma set_file_same [simp]: "w_files w n = f \<Longrightarrow> set_file n f w = w"
  by (cases w) (simp add: set_file_def fun_upd_idem)

lemma calm_temp:
  assumes "calm S t" and "sy_temp S (file_dir (tr_Dest t)) (CHR ''.'' # path_base (tr_Dest t)) w = Inr n"
  shows "temp_name S t n \<and> w_files w n = None \<and> n \<noteq> tr_Dest t \<and> n \<noteq> tr_Src t"
proof -
  have "temp_name S t n" using assms(2) unfolding temp_name_def by (rule exI)
  moreover have "w_files w n = None" using assms unfolding calm_def by metis
  moreover have "\<forall>m. temp_name S t m \<longrightarrow> m \<noteq> tr_Dest t \<and> m \<noteq> tr_Src t" using assms(1) unfolding calm_def by (elim conjE)
  ultimately show ?thesis by simp
qed

lemma stage_file_cases:
  assumes "create_stage_file S t w = (w', r)" and "calm S t"
  shows "case r of
      Inl err \<Rightarrow> w' = w
    | Inr t' \<Rightarrow> \<exists>n g. temp_name S t n \<and> w_files w n = None \<and> t' = t\<lparr>tr_StageFile := n\<rparr> \<and> w' = set_file n (Some g) w"
proof (cases "sy_temp S (file_dir (tr_Dest t)) (CHR ''.'' # path_base (tr_Dest t)) w")
  case (Inl e)
  then show ?thesis using assms(1) by (auto simp: create_stage_file_def split: if_splits sum.splits)
next
  case (Inr n)
  note temp = calm_temp [OF assms(2) Inr]
  then have undo: "set_file n None w = w" by simp
  show ?thesis using assms(1) temp
    by (auto simp: create_stage_file_def Inr Let_def undo split: if_splits sum.splits)
qed

lemma run_command_own:
  assumes "run_command S c w = (w', err)" and "calm S t" and "temp_name S t n \<or> n = tr_Dest t \<or> n = tr_Src t"
  shows "w_files w' n = w_files w n"
  using assms by (auto simp: run_command_def calm_def split: prod.splits) (metis fst_conv)+

lemma run_command_err: "run_command S c w = (w', Some err) \<Longrightarrow> \<exists>e. err = CommandFailed e"
  by (auto simp: run_command_def split: prod.splits)

text \<open>What may become of a target for which \<open>g\<close> is staged, if it is touched at all, and with which error.\<close>

definition target_made :: "'t sys \<Rightarrow> tpl_resource \<Rightarrow> cfile option \<Rightarrow> cfile \<Rightarrow> cfile option \<Rightarrow> conf_error option \<Rightarrow> bool" where
  "target_made S t old g new err \<longleftrightarrow>
     (new = Some g \<or> mounted S t \<and> (\<exists>f. new = Some f \<and> written_in_place S t old (f_content g) f))
       \<and> (err = None \<or> (\<exists>e. err = Some (CommandFailed e)))
     \<or> mounted S t \<and> (\<exists>e. err = Some (WriteFailed e))
       \<and> (new = map_option (sy_chown S (tr_UID t) (tr_Gid t)) old \<or> (\<exists>k f. new = Some f \<and> written_in_place S t old (take k (f_content g)) f))"

lemma made_frame [simp]: "mounted S (t\<lparr>tr_FileMode := m, tr_store := st, tr_StageFile := n\<rparr>) = mounted S t"
  "written_in_place S (t\<lparr>tr_FileMode := m, tr_store := st, tr_StageFile := n\<rparr>) = written_in_place S t"
  "target_made S (t\<lparr>tr_FileMode := m, tr_store := st, tr_StageFile := n\<rparr>) = target_made S t"
  by (simp_all add: mounted_def temp_name_def written_in_place_def target_made_def fun_eq_iff)

lemma write_config_cases:
  assumes "write_config S d c m w = (w', err)"
  shows "(\<exists>e. err = Some (WriteFailed e) \<and> w' = w)
    \<or> (\<exists>k h. h = (case w_files w d of None \<Rightarrow> new_file S m [] | Some h \<Rightarrow> h)
        \<and> w' = set_file d (Some (h\<lparr>f_content := take k c\<rparr>)) w \<and> (err = None \<and> take k c = c \<or> (\<exists>e. err = Some (WriteFailed e))))"
proof (cases "sy_open S d")
  case None
  show ?thesis
  proof (cases "sy_write S d")
    case w: None
    then show ?thesis using assms None by (intro disjI2 exI [of _ "length c"]) (auto simp: write_config_def Let_def)
  next
    case (Some p)
    then show ?thesis using assms None by (intro disjI2 exI [of _ "fst p"]) (auto simp: write_config_def Let_def split: prod.splits)
  qed
qed (use assms in \<open>auto simp: write_config_def\<close>)

lemma overwrite_cases:
  assumes "overwrite_target S t w = (w', err)" and "temp_name S t (tr_StageFile t)" and "w_files w (tr_StageFile t) = Some g"
  shows "(w' = w \<and> err \<noteq> None)
    \<or> (err = None \<and> w' = set_file (tr_Dest t) (Some g) (set_file (tr_StageFile t) None w))
    \<or> (\<exists>new. w' = set_file (tr_Dest t) new w \<and> target_made S t (w_files w (tr_Dest t)) g new err \<and> mounted S t
        \<and> (err = None \<longrightarrow> (\<exists>f. new = Some f \<and> written_in_place S t (w_files w (tr_Dest t)) (f_content g) f)))"
proof (cases "sy_rename S (tr_StageFile t) (tr_Dest t)")
  case None
  then show ?thesis using assms by (auto simp: overwrite_target_def Let_def)
next
  case (Some rerr)
  let ?n = "tr_StageFile t" and ?d = "tr_Dest t"
  show ?thesis
  proof (cases "contains_sub rerr ''device or resource busy''")
    case False
    then show ?thesis using assms Some by (auto simp: overwrite_target_def Let_def)
  next
    case True
    have m: "mounted S t" unfolding mounted_def using assms(2) Some True by blast
    show ?thesis
    proof (cases "read_file S ?n w")
      case (Inl e)
      then show ?thesis using assms Some True by (auto simp: overwrite_target_def Let_def)
    next
      case (Inr r)
      then have r: "r = g" using assms(3) by (auto simp: read_file_def split: option.splits)
      obtain w1 e1 where c: "write_config S ?d (f_content g) (tr_FileMode t) w = (w1, e1)"
        by (cases "write_config S ?d (f_content g) (tr_FileMode t) w")
      have w': "w' = set_file ?d (map_option (sy_chown S (tr_UID t) (tr_Gid t)) (w_files w1 ?d)) w1" "err = e1"
        using assms(1,3) Some True Inr r c by (simp_all add: overwrite_target_def Let_def)
      from write_config_cases [OF c] show ?thesis
      proof (elim disjE exE conjE)
        fix e assume "e1 = Some (WriteFailed e)" "w1 = w"
        then show ?thesis using w' m by (auto simp: target_made_def)
      next
        fix k h assume h: "h = (case w_files w ?d of None \<Rightarrow> new_file S (tr_FileMode t) [] | Some h \<Rightarrow> h)"
          "w1 = set_file ?d (Some (h\<lparr>f_content := take k (f_content g)\<rparr>)) w" "e1 = None" "take k (f_content g) = f_content g"
        then have "written_in_place S t (w_files w ?d) (f_content g) (sy_chown S (tr_UID t) (tr_Gid t) (h\<lparr>f_content := f_content g\<rparr>))"
          unfolding written_in_place_def by blast
        then show ?thesis using w' m h(2-4) by (auto simp: target_made_def)
      next
        fix k h e assume h: "h = (case w_files w ?d of None \<Rightarrow> new_file S (tr_FileMode t) [] | Some h \<Rightarrow> h)"
          "w1 = set_file ?d (Some (h\<lparr>f_content := take k (f_content g)\<rparr>)) w" "e1 = Some (WriteFailed e)"
        then have "written_in_place S t (w_files w ?d) (take k (f_content g))
            (sy_chown S (tr_UID t) (tr_Gid t) (h\<lparr>f_content := take k (f_content g)\<rparr>))"
          unfolding written_in_place_def by blast
        then show ?thesis using w' m h(2,3) by (auto simp: target_made_def)
      qed
    qed
  qed
qed

lemma check_own:
  assumes "(if b then tpl_check S t w else (w, None)) = (w', err)" and "calm S t" and "temp_name S t n \<or> n = tr_Dest t \<or> n = tr_Src t"
  shows "w_files w' n = w_files w n"
  using assms run_command_own [OF _ assms(2,3)] by (auto simp: tpl_check_def split: if_splits sum.splits)

lemma reload_own:
  assumes "(if b then tpl_reload S t w else (w, None)) = (w', err)" and "calm S t" and "temp_name S t n \<or> n = tr_Dest t \<or> n = tr_Src t"
  shows "w_files w' n = w_files w n \<and> (err = None \<or> (\<exists>e. err = Some (CommandFailed e)))"
  using assms run_command_own [OF _ assms(2,3)] run_command_err [of S "tr_ReloadCmd t" w w']
  by (cases err) (auto simp: tpl_reload_def split: if_splits)

lemma sync_cases:
  assumes "tpl_sync S t w = (w', err)" and "calm S t" and "temp_name S t (tr_StageFile t)" and "w_files w (tr_StageFile t) = Some g"
  shows "(w_files w' (tr_Dest t) = w_files w (tr_Dest t)
      \<or> \<not> tr_noop t \<and> target_made S t (w_files w (tr_Dest t)) g (w_files w' (tr_Dest t)) err)
    \<and> (err = None \<and> \<not> tr_noop t \<longrightarrow>
        (\<exists>f. w_files w' (tr_Dest t) = Some f
           \<and> (alike S f g \<or> mounted S t \<and> written_in_place S t (w_files w (tr_Dest t)) (f_content g) f)))
    \<and> (\<not> tr_keepStageFile t \<longrightarrow> w_files w' (tr_StageFile t) = None)
    \<and> (\<forall>m. (temp_name S t m \<or> m = tr_Src t) \<and> m \<noteq> tr_Dest t \<and> m \<noteq> tr_StageFile t \<longrightarrow> w_files w' m = w_files w m)"
proof -
  let ?n = "tr_StageFile t" and ?d = "tr_Dest t"
  let ?c = "if \<not> tr_syncOnly t \<and> tr_CheckCmd t \<noteq> [] then tpl_check S t w else (w, None)"
  have nd: "?n \<noteq> ?d" using assms(2,3) unfolding calm_def by blast
  have alike_refl: "alike S g g" by (simp add: alike_def)
  show ?thesis
  proof (cases "tr_noop t \<or> fst (same_config S ?n ?d w)")
    case True
    then show ?thesis using assms(1) nd same_config_alike [OF _ assms(4), of S ?d] by (auto simp: tpl_sync_def split: if_splits)
  next
    case False
    obtain w1 e1 where c: "?c = (w1, e1)" by (cases ?c)
    have w1: "w_files w1 ?n = Some g" "w_files w1 ?d = w_files w ?d"
      and t1: "\<And>m. temp_name S t m \<or> m = tr_Src t \<Longrightarrow> w_files w1 m = w_files w m"
      using check_own [OF c assms(2)] assms(3,4) by auto
    show ?thesis
    proof (cases e1)
      case (Some e)
      then have "(if tr_keepStageFile t then w1 else set_file ?n None w1) = w'" "err = Some (CheckFailed e)"
        using assms(1) False c by (simp_all add: tpl_sync_def)
      then show ?thesis using w1 t1 nd by (auto split: if_splits)
    next
      case None
      obtain w2 e2 where o: "overwrite_target S t w1 = (w2, e2)" by (cases "overwrite_target S t w1")
      have t2: "\<And>m. temp_name S t m \<or> m = tr_Src t \<Longrightarrow> m \<noteq> ?d \<Longrightarrow> m \<noteq> ?n \<Longrightarrow> w_files w2 m = w_files w m"
        using overwrite_cases [OF o assms(3) w1(1)] t1 by auto
      show ?thesis
      proof (cases e2)
        case (Some e)
        have "w_files w2 ?d = w_files w ?d \<or> target_made S t (w_files w ?d) g (w_files w2 ?d) (Some e)"
          using overwrite_cases [OF o assms(3) w1(1)] Some w1(2) by auto
        moreover have "(if tr_keepStageFile t then w2 else set_file ?n None w2) = w'" "err = Some e"
          using assms(1) False c None o Some by (simp_all add: tpl_sync_def)
        ultimately show ?thesis using t2 nd False by (auto split: if_splits)
      next
        case 2: None
        have d2: "\<exists>f. w_files w2 ?d = Some f \<and> (f = g \<or> mounted S t \<and> written_in_place S t (w_files w ?d) (f_content g) f)"
          using overwrite_cases [OF o assms(3) w1(1)] 2 w1(2) by auto
        let ?r = "if \<not> tr_syncOnly t \<and> tr_ReloadCmd t \<noteq> [] then tpl_reload S t w2 else (w2, None)"
        obtain w3 e3 where r: "?r = (w3, e3)" by (cases ?r)
        obtain f where f: "w_files w3 ?d = Some f" "f = g \<or> mounted S t \<and> written_in_place S t (w_files w ?d) (f_content g) f"
          using reload_own [OF r assms(2)] d2 by auto
        have t3: "\<And>m. temp_name S t m \<or> m = tr_Src t \<Longrightarrow> m \<noteq> ?d \<Longrightarrow> m \<noteq> ?n \<Longrightarrow> w_files w3 m = w_files w m"
          and e3: "e3 = None \<or> (\<exists>e. e3 = Some (CommandFailed e))"
          using reload_own [OF r assms(2)] t2 by auto
        have made: "target_made S t (w_files w ?d) g (w_files w3 ?d) e3" using f e3 unfolding target_made_def by blast
        have "(if tr_keepStageFile t then w3 else set_file ?n None w3) = w'" "err = e3"
          using assms(1) False c None o 2 r by (simp_all add: tpl_sync_def)
        then show ?thesis using f t3 made nd alike_refl False by (auto split: if_splits)
      qed
    qed
  qed
qed

text \<open>A resource that is staged, up to its synchronisation.\<close>

lemma process_cases:
  assumes "tpl_process S t w = ((t', w'), err)" and "calm S t"
  shows "w' = w \<and> err \<noteq> None \<and> staged_file S t w = None
    \<or> (\<exists>m st n g. let t1 = t\<lparr>tr_FileMode := m, tr_store := st, tr_StageFile := n\<rparr>
         in temp_name S t n \<and> w_files w n = None \<and> staged_file S t w = Some g \<and> t' = t1
            \<and> tpl_sync S t1 (set_file n (Some g) w) = (w', err))"
proof (cases "set_file_mode S t w")
  case (Inl e)
  then show ?thesis using assms(1) by (auto simp: tpl_process_def staged_file_def)
next
  case mode: (Inr t1)
  then obtain m where t1: "t1 = t\<lparr>tr_FileMode := m\<rparr>" using set_file_mode_frame by blast
  show ?thesis
  proof (cases "set_vars t1")
    case (Inl e)
    then show ?thesis using assms(1) mode by (auto simp: tpl_process_def staged_file_def)
  next
    case vars: (Inr t2)
    then obtain st where t2: "t2 = t1\<lparr>tr_store := st\<rparr>" using set_vars_frame by blast
    obtain w1 r where c: "create_stage_file S t2 w = (w1, r)" by (cases "create_stage_file S t2 w")
    have "calm S t2" using assms(2) t1 t2 by simp
    note stage = stage_file_cases [OF c this]
    show ?thesis
    proof (cases r)
      case (Inl e)
      then show ?thesis using assms(1) mode vars c stage by (auto simp: tpl_process_def staged_file_def)
    next
      case (Inr t3)
      then obtain n g where n: "temp_name S t2 n" "w_files w n = None" "t3 = t2\<lparr>tr_StageFile := n\<rparr>" "w1 = set_file n (Some g) w"
        using stage by auto
      then have "temp_name S t n" by (simp add: temp_name_def t1 t2)
      then show ?thesis using assms(1) mode vars c Inr n t1 t2
        by (intro disjI2 exI [of _ m] exI [of _ st] exI [of _ n] exI [of _ g])
           (auto simp: tpl_process_def staged_file_def split: prod.splits)
    qed
  qed
qed

lemma calm_all [simp]: "calm S (t\<lparr>tr_FileMode := m, tr_store := st, tr_StageFile := n\<rparr>) = calm S t"
  "temp_name S (t\<lparr>tr_FileMode := m, tr_store := st, tr_StageFile := n\<rparr>) = temp_name S t"
  by (simp_all add: calm_def temp_name_def fun_eq_iff)

text \<open>A template of one value, on a system with one temporary name.\<close>

definition demo_sys :: "bytes sys" where
  "demo_sys =
     \<lparr>sy_stat = (\<lambda>_. None), sy_open = (\<lambda>_. None),
      sy_temp = (\<lambda>_ _ w. if w_files w ''/e/.c1'' = None then Inr ''/e/.c1'' else Inl ''exists''),
      sy_chmod = (\<lambda>m f. f\<lparr>f_mode := and m 0x1FF\<rparr>), sy_chown = (\<lambda>u g f. f\<lparr>f_uid := u, f_gid := g\<rparr>), sy_rename = (\<lambda>_ _. None),
      sy_write = (\<lambda>_. None), sy_run = (\<lambda>_ fs. (fs, None)), sy_walk = (\<lambda>_. []), sy_euid = 0, sy_egid = 0, sy_umask = 0,
      sy_md5 = (\<lambda>c. c), sy_compile = (\<lambda>c. Inr c), sy_execute = (\<lambda>tmpl st w. Inr (tmpl @ (case st ''/k'' of None \<Rightarrow> [] | Some v \<Rightarrow> v))),
      sy_command = (\<lambda>c n. Inr c)\<rparr>"

definition demo_tpl :: tpl_resource where
  "demo_tpl = empty_resource\<lparr>tr_Dest := ''/e/c'', tr_Src := ''/t/c'', tr_Prefix := ''/'', tr_Keys := [''k''], tr_ReloadCmd := ''reload'',
     tr_storeClient := Some \<lparr>vs_GetValues = (\<lambda>_. Inr [(''/k'', ''1'')])\<rparr>\<rparr>"

definition demo_world :: world where
  "demo_world = \<lparr>w_files = (\<lambda>_. None)(''/t/c'' := Some \<lparr>f_content = ''v='', f_mode = 0x1A4, f_uid = 0, f_gid = 0\<rparr>), w_ran = []\<rparr>"

lemma demo_calm: "calm demo_sys demo_tpl"
  by (auto simp: calm_def temp_name_def demo_sys_def demo_tpl_def empty_resource_def split: if_splits)

lemma demo_not_mounted: "\<not> mounted demo_sys demo_tpl"
  by (simp add: mounted_def demo_sys_def)

lemma demo_runs:
  "\<exists>t' w'. tpl_process demo_sys demo_tpl demo_world = ((t', w'), None) \<and> w_ran w' = [''reload'']"
  by (simp add: tpl_process_def set_file_mode_def set_vars_def create_stage_file_def tpl_sync_def tpl_reload_def run_command_def
      overwrite_target_def same_config_def read_file_def is_file_exist_def new_file_def set_file_def demo_sys_def demo_tpl_def
      demo_world_def empty_resource_def Let_def)



lemma process_settled:
  assumes "tpl_process S t w = ((t', w'), None)" and "calm S t" and "\<not> mounted S t" and "\<not> tr_noop t" and "tr_Src t \<noteq> tr_Dest t"
  shows "\<exists>f g. w_files w' (tr_Dest t) = Some f \<and> staged_file S t w = Some g \<and> alike S f g
    \<and> w_files w' (tr_Src t) = w_files w (tr_Src t)"
  using process_cases [OF assms(1,2)]
proof (elim disjE exE)
  fix m st n g
  let ?t = "t\<lparr>tr_FileMode := m, tr_store := st, tr_StageFile := n\<rparr>"
  assume "let t1 = ?t in temp_name S t n \<and> w_files w n = None \<and> staged_file S t w = Some g \<and> t' = t1
            \<and> tpl_sync S t1 (set_file n (Some g) w) = (w', None)"
  then have *: "temp_name S t n" "staged_file S t w = Some g" "tpl_sync S ?t (set_file n (Some g) w) = (w', None)"
    by (simp_all add: Let_def)
  have "n \<noteq> tr_Src t" using *(1) assms(2) unfolding calm_def by blast
  then show ?thesis using sync_cases [OF *(3), of g] assms(2-5) * by auto
qed auto

text \<open>
  A system that gives the same again: all files can be read, templates depend on the values only, and to set the mode a
  file got once more changes nothing.
\<close>

definition steady :: "'t sys \<Rightarrow> bool" where
  "steady S \<longleftrightarrow>
     (\<forall>n. sy_stat S n = None \<and> sy_open S n = None)
     \<and> (\<forall>tmpl st w w'. sy_execute S tmpl st w = sy_execute S tmpl st w')
     \<and> (\<forall>u g m f. sy_chown S u g (sy_chmod S (f_mode (sy_chown S u g (sy_chmod S m f))) f) = sy_chown S u g (sy_chmod S m f))"

lemma demo_steady: "steady demo_sys"
  by (simp add: steady_def demo_sys_def)

lemma staged_fileE:
  assumes "staged_file S t w = Some g" and "calm S t"
  obtains m client result f tmpl c w1 where
    "set_file_mode S t w = Inr (t\<lparr>tr_FileMode := m\<rparr>)"
    "tr_storeClient t = Some client" "vs_GetValues client (append_prefix (tr_Prefix t) (tr_Keys t)) = Inr result"
    "w_files w (tr_Src t) = Some f" "sy_compile S (f_content f) = Inr tmpl"
    "sy_execute S tmpl (store_of (tr_Prefix t) result) w1 = Inr c"
    "g = sy_chown S (tr_UID t) (tr_Gid t) (sy_chmod S m ((new_file S 0x180 [])\<lparr>f_content := c\<rparr>))"
proof -
  obtain t1 where 1: "set_file_mode S t w = Inr t1" using assms(1) by (auto simp: staged_file_def split: sum.splits)
  then obtain m where m: "t1 = t\<lparr>tr_FileMode := m\<rparr>" using set_file_mode_frame by blast
  obtain t2 where 2: "set_vars t1 = Inr t2" using assms(1) 1 by (auto simp: staged_file_def split: sum.splits)
  then obtain client result where v: "tr_storeClient t = Some client"
    "vs_GetValues client (append_prefix (tr_Prefix t) (tr_Keys t)) = Inr result"
    "t2 = t\<lparr>tr_FileMode := m, tr_store := store_of (tr_Prefix t) result\<rparr>"
    using m by (auto simp: set_vars_def split: option.splits sum.splits)
  obtain w2 t3 where 3: "create_stage_file S t2 w = (w2, Inr t3)" "w_files w2 (tr_StageFile t3) = Some g"
    using assms(1) 1 2 by (auto simp: staged_file_def split: sum.splits prod.splits)
  then obtain f tmpl c w1 where "w_files w (tr_Src t) = Some f" "sy_compile S (f_content f) = Inr tmpl"
    "sy_execute S tmpl (store_of (tr_Prefix t) result) w1 = Inr c"
    "g = sy_chown S (tr_UID t) (tr_Gid t) (sy_chmod S m ((new_file S 0x180 [])\<lparr>f_content := c\<rparr>))"
    by (auto simp: create_stage_file_def v(3) read_file_def Let_def split: if_splits sum.splits option.splits)
  with 1 m v(1,2) show thesis by (intro that) simp_all
qed

lemma stage_again:
  assumes "staged_file S t w = Some g" and "staged_file S t w' = Some g'" and "calm S t" and "steady S"
    and "w_files w' (tr_Src t) = w_files w (tr_Src t)" and "w_files w' (tr_Dest t) = Some f" and "f_mode f = f_mode g"
  shows "g' = g"
proof -
  obtain m client result s tmpl c w1 where 1: "set_file_mode S t w = Inr (t\<lparr>tr_FileMode := m\<rparr>)" "tr_storeClient t = Some client"
    "vs_GetValues client (append_prefix (tr_Prefix t) (tr_Keys t)) = Inr result" "w_files w (tr_Src t) = Some s"
    "sy_compile S (f_content s) = Inr tmpl" "sy_execute S tmpl (store_of (tr_Prefix t) result) w1 = Inr c"
    "g = sy_chown S (tr_UID t) (tr_Gid t) (sy_chmod S m ((new_file S 0x180 [])\<lparr>f_content := c\<rparr>))"
    using staged_fileE [OF assms(1,3)] by metis
  obtain m' client' result' s' tmpl' c' w2 where 2: "set_file_mode S t w' = Inr (t\<lparr>tr_FileMode := m'\<rparr>)"
    "tr_storeClient t = Some client'" "vs_GetValues client' (append_prefix (tr_Prefix t) (tr_Keys t)) = Inr result'"
    "w_files w' (tr_Src t) = Some s'" "sy_compile S (f_content s') = Inr tmpl'"
    "sy_execute S tmpl' (store_of (tr_Prefix t) result') w2 = Inr c'"
    "g' = sy_chown S (tr_UID t) (tr_Gid t) (sy_chmod S m' ((new_file S 0x180 [])\<lparr>f_content := c'\<rparr>))"
    using staged_fileE [OF assms(2,3)] by metis
  have "sy_execute S tmpl (store_of (tr_Prefix t) result) w2 = Inr c" using assms(4) 1(6) unfolding steady_def by metis
  then have c: "c' = c" using 1 2 assms(5) by simp
  show ?thesis
  proof (cases "tr_Mode t = []")
    case True
    then have "t\<lparr>tr_FileMode := m'\<rparr> = t\<lparr>tr_FileMode := f_mode g\<rparr>"
      using 2(1) assms(4,6,7) by (simp add: set_file_mode_def is_file_exist_def steady_def)
    from arg_cong [OF this, of tr_FileMode] have "m' = f_mode g" by simp
    then show ?thesis using assms(4) c unfolding 2(7) 1(7) steady_def by simp
  next
    case False
    then have "t\<lparr>tr_FileMode := m'\<rparr> = t\<lparr>tr_FileMode := m\<rparr>"
      using 1(1) 2(1) by (simp add: set_file_mode_def split: option.splits)
    from arg_cong [OF this, of tr_FileMode] show ?thesis using c unfolding 2(7) 1(7) by simp
  qed
qed

text \<open>
  C40: templates settle.  After a round without an error the next one, over the same values and source, runs no command and leaves
  the target as it is; for a target that is no mount, files that can be read, a template that depends on its values only, and
  commands that leave the files of the resource alone.
\<close>

theorem template_settles:
  assumes "tpl_process S t w = ((t', w'), None)" and "tpl_process S t w' = ((t'', w''), err)"
    and "calm S t" and "\<not> mounted S t" and "steady S" and "\<not> tr_noop t" and "tr_Src t \<noteq> tr_Dest t"
  shows "w_ran w'' = w_ran w' \<and> w_files w'' (tr_Dest t) = w_files w' (tr_Dest t)"
proof -
  obtain f g where first: "w_files w' (tr_Dest t) = Some f" "staged_file S t w = Some g" "alike S f g"
    "w_files w' (tr_Src t) = w_files w (tr_Src t)"
    using process_settled [OF assms(1,3,4,6,7)] by blast
  from process_cases [OF assms(2,3)] show ?thesis
  proof (elim disjE exE)
    fix m st n g'
    let ?t = "t\<lparr>tr_FileMode := m, tr_store := st, tr_StageFile := n\<rparr>"
    assume "let t1 = ?t in temp_name S t n \<and> w_files w' n = None \<and> staged_file S t w' = Some g' \<and> t'' = t1
            \<and> tpl_sync S t1 (set_file n (Some g') w') = (w'', err)"
    then have *: "temp_name S t n" "staged_file S t w' = Some g'" "tpl_sync S ?t (set_file n (Some g') w') = (w'', err)"
      by (simp_all add: Let_def)
    have "g' = g" using stage_again [OF first(2) *(2) assms(3,5) first(4,1)] first(3) by (simp add: alike_def)
    moreover have "n \<noteq> tr_Dest t" using *(1) assms(3) unfolding calm_def by blast
    ultimately have "fst (same_config S n (tr_Dest t) (set_file n (Some g') w'))"
      using first(1,3) assms(5) by (intro alike_same_config [where g = g and f = f]) (simp_all add: steady_def)
    then show ?thesis using *(3) \<open>n \<noteq> tr_Dest t\<close> by (auto simp: tpl_sync_def split: if_splits)
  qed auto
qed

theorem template_settles_witness:
  "\<exists>w' w''. w_ran w' = [''reload''] \<and> w_ran w'' = [''reload''] \<and> w_files w'' ''/e/c'' = w_files w' ''/e/c''
     \<and> snd (fst (tpl_process demo_sys demo_tpl demo_world)) = w' \<and> snd (fst (tpl_process demo_sys demo_tpl w')) = w''"
proof -
  obtain t' w' where run: "tpl_process demo_sys demo_tpl demo_world = ((t', w'), None)" "w_ran w' = [''reload'']"
    using demo_runs by blast
  obtain t'' w'' err where again: "tpl_process demo_sys demo_tpl w' = ((t'', w''), err)"
    by (metis prod.collapse)
  have "\<not> tr_noop demo_tpl" "tr_Src demo_tpl \<noteq> tr_Dest demo_tpl" "tr_Dest demo_tpl = ''/e/c''"
    by (simp_all add: demo_tpl_def empty_resource_def)
  then have "w_ran w'' = w_ran w' \<and> w_files w'' ''/e/c'' = w_files w' ''/e/c''"
    using template_settles [OF run(1) again demo_calm demo_not_mounted demo_steady] by simp
  then show ?thesis using run again by simp
qed

subsection \<open>Stopping, clients and mounts\<close>

text \<open>A message on \<open>stopChan\<close> is as good as a tick: the loop goes on.\<close>

theorem interval_ignores_stop:
  "interval_process S dec config ss w = interval_process S dec config (replicate (length ss) Ticked) w"
proof (induction ss arbitrary: w)
  case (Cons s ss)
  then show ?case by (cases s) (simp_all split: prod.split option.split)
qed simp

text \<open>Without a store client, which the program never sets, there are no resources but errors.\<close>

lemma load_no_client:
  assumes "tc_StoreClient config = None"
  shows "fst (load_templates S dec config w paths ts err) = ts
    \<and> (snd (load_templates S dec config w paths ts err) = None \<longleftrightarrow> err = None \<and> paths = [])"
proof (induction paths arbitrary: err)
  case (Cons p paths)
  have "\<exists>e. new_resource S dec p config w = Inl e"
    using assms by (simp add: new_resource_def new_resource_from_reader_def split: sum.split)
  then obtain e where "new_resource S dec p config w = Inl e" ..
  then show ?case using Cons by simp
qed simp

theorem no_client_no_templates:
  assumes "tc_StoreClient config = None" and "is_file_exist S (tc_ConfDir config) w"
    and "recursive_find_files S (tc_ConfigDir config) ''toml'' \<noteq> []"
  shows "\<exists>err. process_once S dec config w = (w, Some err)"
proof -
  obtain e where "get_resources S dec config w = ([], Some e)"
    using load_no_client [OF assms(1), of S dec w "recursive_find_files S (tc_ConfigDir config) ''toml''" "[]" None] assms(2,3)
    by (cases "get_resources S dec config w") (auto simp: get_resources_def)
  then show ?thesis by (simp add: process_once_def)
qed

text \<open>
  A target that is a mount is written in place and keeps its mode, so if this is not the one of the staged file it is out of
  sync again in the next round.
\<close>

theorem mounted_mode_kept:
  assumes "sy_rename S (tr_StageFile t) (tr_Dest t) = Some err" and "contains_sub err ''device or resource busy''"
    and "w_files w (tr_StageFile t) = Some g" and "w_files w (tr_Dest t) = Some f"
    and "overwrite_target S t w = (w', None)" and "\<And>u i h. f_mode (sy_chown S u i h) = f_mode h"
  shows "\<exists>h. w_files w' (tr_Dest t) = Some h \<and> f_content h = f_content (sy_chown S (tr_UID t) (tr_Gid t) (f\<lparr>f_content := f_content g\<rparr>))
    \<and> f_mode h = f_mode f"
  using assms
  by (auto simp: overwrite_target_def read_file_def write_config_def Let_def split: option.splits if_splits prod.splits)

subsection \<open>Functions for templates\<close>

text \<open>\<open>Reverse\<close>, for either kind of slice.\<close>

definition mirror_values :: "'a list \<Rightarrow> 'a list" where
  "mirror_values v = reverse_loop v 0 (length v - 1)"

lemma mirror_values_rev: "mirror_values v = rev v"
  by (simp add: mirror_values_def)

definition getenv_default :: "(bytes \<Rightarrow> bytes) \<Rightarrow> bytes \<Rightarrow> bytes list \<Rightarrow> bytes" where
  "getenv_default env key v =
     (let defaultValue = (case v of [] \<Rightarrow> [] | d # _ \<Rightarrow> d); val = env key in if val = [] then defaultValue else val)"

datatype 'a map_value = MString bytes | MOther 'a

fun create_map_loop :: "'a map_value list \<Rightarrow> (bytes \<Rightarrow> 'a map_value option) \<Rightarrow> bytes + (bytes \<Rightarrow> 'a map_value option)" where
  "create_map_loop (MString key # v # vs) dict = create_map_loop vs (dict(key := Some v))"
| "create_map_loop (MOther a # vs) dict = Inl ''map keys must be strings''"
| "create_map_loop vs dict = Inr dict"

definition create_map :: "'a map_value list \<Rightarrow> bytes + (bytes \<Rightarrow> 'a map_value option)" where
  "create_map values =
     (if length values mod 2 \<noteq> 0 then Inl ''invalid map call'' else create_map_loop values (\<lambda>_. None))"

end
