(* ===== verification/Zk_Config.thy ===== *)
theory Zk_Config
  imports Types
begin

text \<open>
  The configuration of ZooKeeper (\<open>controllers/java/zk/types/config.go\<close>): its validation and its encoding with the stages as
  member names.  The compilation of regular expressions is a parameter, and so is what JSON makes of the settings of a stage.
\<close>

record 'r path_config =
  pc_Base :: string
  pc_RegexpStr :: string
  pc_Regexp :: "'r option"

record 'r env_config =
  ev_ENV :: stage
  ev_ZKServers :: "string list"
  ev_DialTimeout :: int
  ev_ZKPaths :: "'r path_config list"

record 'r zk_config =
  zc_Timeout :: int
  zc_Envs :: "(stage, 'r env_config) gmap"

datatype zk_config_error =
  NoServer stage | NegativeTimeout stage | BadRegexp stage string string | ConfigNil | BadStage string | JsonError string

text \<open>The loop over the paths sets the regular expression of its own copy only.\<close>

fun path_errors :: "(string \<Rightarrow> string + 'r) \<Rightarrow> stage \<Rightarrow> 'r path_config list \<Rightarrow> zk_config_error list" where
  "path_errors compile e [] = []"
| "path_errors compile e (v # vs) =
     (if pc_RegexpStr v \<noteq> [] then
        (case compile (pc_RegexpStr v) of Inl err \<Rightarrow> [BadRegexp e (pc_RegexpStr v) err] | Inr re \<Rightarrow> [])
      else []) @ path_errors compile e vs"

definition env_validate :: "(string \<Rightarrow> string + 'r) \<Rightarrow> 'r env_config option \<Rightarrow> zk_config_error list" where
  "env_validate compile ec =
     (case ec of
        None \<Rightarrow> []
      | Some ec \<Rightarrow>
          (let e = ev_ENV ec
           in (if ev_ZKServers ec = [] then [NoServer e] else [])
              @ (if ev_DialTimeout ec < 0 then [NegativeTimeout e] else [])
              @ path_errors compile e (ev_ZKPaths ec)))"

text \<open>\<open>ord\<close> is the order in which the stages are visited; each is validated as a copy with its stage set.\<close>

definition zk_validate ::
  "(string \<Rightarrow> string + 'r) \<Rightarrow> stage list \<Rightarrow> 'r zk_config option \<Rightarrow> 'r zk_config option \<times> zk_config_error list" where
  "zk_validate compile ord c =
     (case c of
        None \<Rightarrow> (None, [ConfigNil])
      | Some c \<Rightarrow>
          (let c = (if zc_Timeout c = 0 then c\<lparr>zc_Timeout := 10000000000\<rparr> else c)
           in (Some c,
               concat (map (\<lambda>e. env_validate compile (map_option (\<lambda>cfg. cfg\<lparr>ev_ENV := e\<rparr>) (gm_look (zc_Envs c) e))) ord))))"

text \<open>The structure between a configuration and JSON, with the members in the order they are visited.\<close>

record 'r zk_cfg =
  zj_Timeout :: int
  zj_Envs :: "(string \<times> 'r env_config) list"

fun read_envs :: "(stage \<times> string) list \<Rightarrow> (string \<times> 'r env_config) list \<Rightarrow> (stage, 'r env_config) fmap \<Rightarrow>
    (stage, 'r env_config) fmap \<times> zk_config_error list" where
  "read_envs ords [] envs = (envs, [])"
| "read_envs ords ((k, v) # kvs) envs =
     (case parse_stage ords k of
        (st, True) \<Rightarrow> apsnd (Cons (BadStage k)) (read_envs ords kvs envs)
      | (st, False) \<Rightarrow> read_envs ords kvs (fmupd st v envs))"

definition zk_unmarshal ::
  "(string \<Rightarrow> string + 'r zk_cfg) \<Rightarrow> (stage \<times> string) list \<Rightarrow> string \<Rightarrow> 'r zk_config \<Rightarrow> 'r zk_config \<times> zk_config_error list" where
  "zk_unmarshal dec ords data c =
     (case dec data of
        Inl err \<Rightarrow> (c, [JsonError err])
      | Inr tmp \<Rightarrow>
          (case read_envs ords (zj_Envs tmp) fmempty of
             (envs, errs) \<Rightarrow> (c\<lparr>zc_Timeout := zj_Timeout tmp, zc_Envs := Some envs\<rparr>, errs)))"

text \<open>A stage that is visited later replaces one of the same name.\<close>

fun write_envs :: "stage list \<Rightarrow> (stage, 'r env_config) gmap \<Rightarrow> (string \<times> 'r env_config) list \<Rightarrow> (string \<times> 'r env_config) list" where
  "write_envs [] envs kvs = kvs"
| "write_envs (k # ks) envs kvs =
     (case gm_look envs k of
        None \<Rightarrow> write_envs ks envs kvs
      | Some v \<Rightarrow> write_envs ks envs (filter (\<lambda>(n, _). n \<noteq> stage_string k) kvs @ [(stage_string k, v)]))"

definition zk_marshal :: "('r zk_cfg \<Rightarrow> string) \<Rightarrow> stage list \<Rightarrow> 'r zk_config \<Rightarrow> string" where
  "zk_marshal enc ord c = enc \<lparr>zj_Timeout = zc_Timeout c, zj_Envs = write_envs ord (zc_Envs c) []\<rparr>"

lemma write_envs_all:
  "distinct ord \<Longrightarrow> set ord \<subseteq> fst ` set stages \<Longrightarrow> set ord \<subseteq> fmdom' m \<Longrightarrow> fst ` set kvs \<inter> stage_string ` set ord = {} \<Longrightarrow>
     write_envs ord (Some m) kvs = kvs @ map (\<lambda>k. (stage_string k, the (fmlookup m k))) ord"
proof (induction ord arbitrary: kvs)
  case (Cons k ord)
  then have "k \<in> fmdom' m" by simp
  then obtain v where v: "fmlookup m k = Some v" by (meson fmlookup_dom'_iff)
  have "stage_string k \<notin> stage_string ` set ord"
  proof
    assume "stage_string k \<in> stage_string ` set ord"
    then obtain k' where k': "k' \<in> set ord" "stage_string k = stage_string k'" by auto
    then have "k = k'" using stage_string_inj [of k k'] Cons.prems(2) by auto
    then show False using k'(1) Cons.prems(1) by simp
  qed
  moreover have "stage_string k \<notin> fst ` set kvs" using Cons.prems(4) by auto
  then have "filter (\<lambda>(n, _). n \<noteq> stage_string k) kvs = kvs"
    by (intro filter_True) (force simp: image_iff)
  moreover have "write_envs ord (Some m) (kvs @ [(stage_string k, v)])
      = (kvs @ [(stage_string k, v)]) @ map (\<lambda>k. (stage_string k, the (fmlookup m k))) ord"
    using Cons.prems \<open>stage_string k \<notin> stage_string ` set ord\<close> by (intro Cons.IH) auto
  ultimately show ?case using v by (simp add: gm_look_def)
qed simp

lemma read_envs_all:
  assumes "distinct ords" "set ords = set stages" and "set ord \<subseteq> fst ` set stages"
  shows "snd (read_envs ords (map (\<lambda>k. (stage_string k, g k)) ord) envs) = []
    \<and> fmlookup (fst (read_envs ords (map (\<lambda>k. (stage_string k, g k)) ord) envs)) s
        = (if s \<in> set ord then Some (g s) else fmlookup envs s)"
  using assms(3)
proof (induction ord arbitrary: envs)
  case (Cons k ord)
  then have "parse_stage ords (stage_string k) = (k, False)" using parse_stage_string [OF assms(1,2), of k] by simp
  then show ?case using Cons by auto
qed simp

text \<open>
  A configuration of named stages is written and read back with every stage under its own name, whatever orders the maps are visited in; \<open>f\<close> is
  what JSON makes of the settings of a stage, which loses the compiled expressions.
\<close>

theorem zk_config_roundtrip:
  assumes "zc_Envs c = Some m" and "distinct ord" and "set ord = fmdom' m" and "fmdom' m \<subseteq> fst ` set stages"
    and "distinct ords" "set ords = set stages"
    and "\<And>t. dec (enc t) = Inr (t\<lparr>zj_Envs := map (apsnd f) (zj_Envs t)\<rparr>)"
  shows "zk_unmarshal dec ords (zk_marshal enc ord c) c = (c\<lparr>zc_Envs := Some (fmmap f m)\<rparr>, [])"
proof -
  let ?g = "\<lambda>k. f (the (fmlookup m k))"
  have "write_envs ord (Some m) [] = map (\<lambda>k. (stage_string k, the (fmlookup m k))) ord"
    using write_envs_all [of ord m "[]"] assms(2-4) by simp
  then have "map (apsnd f) (write_envs ord (Some m) []) = map (\<lambda>k. (stage_string k, ?g k)) ord" by simp
  moreover obtain envs errs where r: "read_envs ords (map (\<lambda>k. (stage_string k, ?g k)) ord) fmempty = (envs, errs)"
    by (cases "read_envs ords (map (\<lambda>k. (stage_string k, ?g k)) ord) fmempty")
  moreover have "errs = []" using read_envs_all [OF assms(5,6), of ord ?g fmempty] assms(3,4) r by simp
  moreover have "envs = fmmap f m"
  proof (rule fmap_ext)
    fix s
    have "fmlookup envs s = (if s \<in> set ord then Some (?g s) else None)"
      using read_envs_all [OF assms(5,6), of ord ?g fmempty s] assms(3,4) r by simp
    then show "fmlookup envs s = fmlookup (fmmap f m) s"
      using assms(3) by (cases "fmlookup m s") (auto simp: fmlookup_dom'_iff)
  qed
  ultimately show ?thesis by (simp add: zk_marshal_def zk_unmarshal_def assms(1,7))
qed

text \<open>
  Validation accepts exactly the configurations whose stages have a server, a timeout that is not negative and expressions that
  compile.  It changes nothing but a missing timeout: no expression is ever set, although the paths are matched with them.
\<close>

lemma path_errors_nil:
  "path_errors compile e vs = [] \<longleftrightarrow> (\<forall>v \<in> set vs. pc_RegexpStr v \<noteq> [] \<longrightarrow> (\<exists>re. compile (pc_RegexpStr v) = Inr re))"
  by (induction vs) (auto split: sum.splits)

lemma env_validate_nil:
  "env_validate compile (map_option (\<lambda>cfg. cfg\<lparr>ev_ENV := e\<rparr>) ec) = [] \<longleftrightarrow> (\<forall>cfg. ec = Some cfg \<longrightarrow>
     ev_ZKServers cfg \<noteq> [] \<and> 0 \<le> ev_DialTimeout cfg
     \<and> (\<forall>v \<in> set (ev_ZKPaths cfg). pc_RegexpStr v \<noteq> [] \<longrightarrow> (\<exists>re. compile (pc_RegexpStr v) = Inr re)))"
  by (cases ec) (auto simp: env_validate_def path_errors_nil Let_def)

theorem zk_validate_exact:
  "snd (zk_validate compile ord (Some c)) = [] \<longleftrightarrow> (\<forall>e \<in> set ord. \<forall>cfg. gm_look (zc_Envs c) e = Some cfg \<longrightarrow>
       ev_ZKServers cfg \<noteq> [] \<and> 0 \<le> ev_DialTimeout cfg
       \<and> (\<forall>v \<in> set (ev_ZKPaths cfg). pc_RegexpStr v \<noteq> [] \<longrightarrow> (\<exists>re. compile (pc_RegexpStr v) = Inr re)))"
  by (simp add: zk_validate_def env_validate_nil Let_def)

theorem zk_validate_keeps_paths:
  "map_option zc_Envs (fst (zk_validate compile ord c)) = map_option zc_Envs c"
  by (cases c) (simp_all add: zk_validate_def Let_def)

end
