(* ===== verification/Spec2Isabelle.thy ===== *)
theory Spec2Isabelle
  imports Sched_Manager Watch_Pipe Compactor Reader Metric_Roundtrip Metric_Props Zk_Sync_Props Pools Agent_Deploy Java_Versions Service_Check Sockets Host_State Deploy_Policy Api_Deploy Store_Provider Influx_Http Conf_Template Zk_Config
begin

text \<open>
  Verification of dolphin, a release and deployment backend (the packages under \<open>src/\<close>).

  \<^bold>\<open>The program.\<close>  A deployment is described by a \<open>DeployConfig\<close> and named by a deploy key, type and name.  A
  scheduler turns it into specifications of hosts: how many instances of which version a host is to run
  (\<open>controllers/scheduler\<close>).  The specifications are cached by a manager (\<open>controllers/types/impl\<close>) and written to
  etcd through an object store (\<open>registry/generic\<close>) under fixed paths (\<open>registry/etcdkey\<close>, \<open>registry/hosts\<close>,
  \<open>registry/instances\<close>); agents on the hosts report the instances they run back through the same store, and
  watches of the store feed the managers.  Old revisions of etcd are compacted by a background loop.  Java services
  register in ZooKeeper; a manager follows their nodes and routes, and probes and checks of the services run over it
  (\<open>controllers/java\<close>).  On a host, an agent finds the version of an image in a git repository and resets a
  worktree to it (\<open>deploy\<close>), and a scanner finds and probes the processes (\<open>process\<close>).  Measurements are written
  in the InfluxDB line protocol (\<open>report\<close>).

  \<^bold>\<open>Conventions.\<close>  Strings and byte slices are lists of characters, \<open>bytes\<close>.  A Go map that may be nil is a
  \<open>gmap\<close>, an option of a finite map; the order of a loop over one is a parameter, constrained to list its keys
  once (\<open>map_order\<close>, \<open>gm_order\<close>).  A panic is \<open>None\<close> in \<open>'a go\<close>; \<open>'a outcome\<close> adds the end of the process
  (\<open>glog.Fatalf\<close>) and a wait that never ends.  Errors are values: \<open>Inl\<close>, an option, or a list for
  \<open>multierror\<close>.  Numbers are \<open>int\<close> where no overflow can matter and \<open>64 word\<close> for the resources and hashes.
  Code outside the repository (etcd, JSON, the formatting of floats, label selectors) is a parameter; what is
  relied on is a named predicate, for instance \<open>kv_ok\<close> and \<open>reads_ok\<close> for the etcd client, \<open>txn_ok\<close> for its
  transactions and \<open>listing_ok\<close> for its listings, \<open>kv_local\<close> for the effect of a call that failed, \<open>answers\<close> and \<open>writes_seen\<close> for ZooKeeper, \<open>semver_ok\<close> for
  the library of versions, \<open>uuid_ok\<close> for that of identities, \<open>ieee_rounding\<close> and \<open>double_rounding\<close> for the arithmetic
  of floating point numbers.

  \<^bold>\<open>Theories.\<close>
  \<^item> \<open>Prelude\<close>, \<open>GoLib\<close>: slices, maps and outcomes; the functions of \<open>strings\<close>, \<open>strconv\<close> and \<open>path\<close> in use.
  \<^item> \<open>Metric_Scan\<close>, \<open>Metric_Parse\<close>: the scanners and the parser of \<open>report/metric/parse.go\<close>.  Each scanner is
    shown not to read outside the buffer; the parser is total and its metrics are well formed.
  \<^item> \<open>Metric_Data\<close>, \<open>Metric_Ops\<close>, \<open>Metric_Props\<close>: \<open>metric.go\<close> and \<open>escape.go\<close>; \<open>Metric_Roundtrip\<close>: what is
    written is parsed back.
  \<^item> \<open>Reader\<close>: the state machine of \<open>report/metric/reader.go\<close>, its invariant and progress, and the choice of
    a server in \<open>report/client.go\<close>; \<open>Influx_Http\<close>: the HTTP client of InfluxDB (\<open>report/influx\<close>), its URLs and
    what it reports, and the rest of \<open>client.go\<close>.
  \<^item> \<open>Types\<close>, \<open>Resources\<close>: stages, deploy keys and configurations, resources and hosts (\<open>types\<close>).
  \<^item> \<open>Store\<close>: \<open>registry/generic/store.go\<close> with the paths and the registries over it.
  \<^item> \<open>Watch\<close>, \<open>Watch_Props\<close>, \<open>Watch_Pipe\<close>: \<open>registry/generic/watcher.go\<close>: the functions, the client's view
    that follows etcd, and the goroutines with their channels as a step relation, in which an event is received in one step
    and passed on in another.
  \<^item> \<open>Compactor\<close>: \<open>registry/generic/compact.go\<close> run by any number of processes; \<open>Store_Provider\<close>: the client of etcd and
    the goroutines that share it (\<open>store_provider.go\<close>, \<open>cfg.go\<close>), over the start of the compactor.
  \<^item> \<open>Api_Deploy\<close>: the HTTP interface of the deploy configurations (\<open>api/deploy\<close>, \<open>api/utils\<close>) over the object store,
    composed with the manager of the configurations, and the errors of the store.  Writing a resource quota as JSON never
    returns, which ends the process (\<open>marshal_quotas\<close>).
  \<^item> \<open>HostConfigs\<close>: \<open>controllers/types/impl/hc.go\<close> and the interface \<open>HostConfigManager\<close>, the record
    \<open>hcm_iface\<close>; \<open>Instances\<close>: \<open>instance.go\<close> and \<open>dc.go\<close> beside it, and the default resources.
  \<^item> \<open>Replica\<close>, \<open>Replica_Steps\<close>, \<open>Replica_Props\<close>: \<open>controllers/scheduler/replica.go\<close> over \<open>hcm_iface\<close>.  The
    locale \<open>host_config_manager\<close> (in \<open>HostConfigs\<close>) states what the interface promises; it is interpreted on the model of \<open>hc.go\<close>.
  \<^item> \<open>Host_Choice\<close>, \<open>Sched_Manager\<close>: \<open>scheduler.go\<close>, \<open>utils.go\<close> and \<open>manager.go\<close> beside it.
  \<^item> \<open>Router\<close>: \<open>controllers/java/router\<close>: the text of routes in both versions, their matching, the data of nodes.
  \<^item> \<open>Zk_Paths\<close>: \<open>zkpath.go\<close> and \<open>path_util.go\<close> of \<open>controllers/java/zk\<close>: the names of deployments, the paths of
    ZooKeeper and those of etcd, and where they are inverse.
  \<^item> \<open>Zk_Sync\<close>, \<open>Zk_Sync_Props\<close>: \<open>sync_zk.go\<close> and the reading part of \<open>zk.go\<close>.  The locale \<open>service_paths\<close> is what
    the manager asks of the interface \<open>PathInfor\<close>; it is interpreted on the model of \<open>zkpath.go\<close>.  Whether the store can be
    reached is the parameter \<open>conn\<close> of the handlers.
    \<open>Zk_Config\<close>: the settings of ZooKeeper (\<open>types/config.go\<close> there), their validation and encoding.
  \<^item> \<open>Java_Versions\<close>, \<open>Service_Check\<close>: \<open>controllers/java/version\<close>, with the handler of its events, which no loop of the
    program runs, and \<open>controllers/java/service\<close>.
  \<^item> \<open>Images\<close>, \<open>Image_Repo\<close>, \<open>Agent_Deploy\<close>: \<open>types/image.go\<close> and \<open>version.go\<close>, \<open>deploy/image\<close> over the
    operations of git, \<open>deploy/deploy\<close>.
  \<^item> \<open>Conf_Template\<close>: \<open>deploy/conf/template\<close>: resources, their staging and synchronisation over files and commands, the
    processors; \<open>calm\<close> and \<open>steady\<close> are what the theorems ask of the system, and a target that is \<open>mounted\<close> is written in place.
  \<^item> \<open>Pools\<close>: \<open>deploy/sync\<close> with the goroutines that share a pool or a queue as step relations.
  \<^item> \<open>Processes\<close>: \<open>process\<close> and \<open>types/ins/registry\<close>: the scanner, the types of instances and the probes;
    \<open>Sockets\<close>: the ports a process listens on, from the tables of \<open>/proc\<close>.
  \<^item> \<open>Host_State\<close>: \<open>types/hostinfo\<close>: the identity, the stage and the addresses of a host, over any sequence of starts and updates of the stage; \<open>Res_Size\<close>: the texts of
    sizes and the encodings of resources; \<open>Deploy_Policy\<close>: durations and the encodings of update options, restart
    policies and stages, the names of namespaces; \<open>GoText\<close>: the functions on texts they use.

  \<^bold>\<open>Bounds and fuel.\<close>  The rounds of \<open>removeExpectInstances\<close> run on fuel, the number of instances to remove; every
  round over the hosts removes one at least while there are any, so it suffices when there are as many (it is
  proved that the loop returns).  The search for a host stops after 50 attempts, as in the code.  The channels of a
  watch hold 100 events, that of errors one.  The walk over the nodes of ZooKeeper has fuel for the depth of the
  tree, and is shown to end with as much.  All other recursion is structural or on the length of the input.

  \<^bold>\<open>Not modelled.\<close>  Network and operating system: the HTTP server, alerts, the engine of templates, the connections to etcd and
  ZooKeeper, starting and stopping of processes; the files of \<open>/proc\<close> and the answers of the system are
  parameters.  Log messages and the texts of most errors.  JSON encodings, except through codecs
  that are parameters.  See the list of components for the rest.
\<close>

end
